(* ===== verification/Prelude.thy ===== *)
theory Prelude
  imports Complex_Main "HOL-Library.Sublist" "HOL-Library.AList" "HOL-Library.Word"
begin

text \<open>
  Shared layer of the development: the parts of Python's built-in types that the code under
  \<open>src/sentinel\<close> uses, as total functions, and the generic lemmas about them.
  \<^item> text: case folding, prefix and suffix tests, decimal text of integers and the inverse;
  \<^item> values: the dynamically typed values that event payloads, rules and settings hold;
  \<^item> exceptions: results of type \<open>py_exc + 'a\<close>, \<open>Inl\<close> for a raise;
  \<^item> dictionaries: association lists in insertion order with pairwise distinct keys.
  A Python float is a \<open>real\<close>: rounding is not modelled. Text is a list of 8-bit characters.
\<close>

named_theorems inv_intros "preservation of the components' invariants"
named_theorems py_text "facts on the text functions"

section \<open>Exceptions\<close>

datatype py_exc =
    ValueError | TypeError | KeyError | IndexError | AttributeError
  | OSError | RuleSyntaxError | OverflowError | DatabaseError | RuntimeError

type_synonym 'a py_result = "py_exc + 'a"

fun bind_res :: "'a py_result \<Rightarrow> ('a \<Rightarrow> 'b py_result) \<Rightarrow> 'b py_result" where
  "bind_res (Inl e) f = Inl e"
| "bind_res (Inr x) f = f x"

lemma bind_res_Inr_iff:
  "bind_res r f = Inr y \<longleftrightarrow> (\<exists>x. r = Inr x \<and> f x = Inr y)"
  by (cases r) auto

section \<open>Text\<close>

definition char_lower :: "char \<Rightarrow> char" where
  "char_lower c = (let n = (of_char c :: nat) in if 65 \<le> n \<and> n \<le> 90 then char_of (n + 32) else c)"

definition lower :: "string \<Rightarrow> string" where
  "lower s = map char_lower s"

definition startswith :: "string \<Rightarrow> string \<Rightarrow> bool" where
  "startswith s p = prefix p s"

definition endswith :: "string \<Rightarrow> string \<Rightarrow> bool" where
  "endswith s p = suffix p s"

definition contains :: "string \<Rightarrow> string \<Rightarrow> bool" where
  \<comment> \<open>\<open>p in s\<close>\<close>
  "contains s p = sublist p s"

definition is_space :: "char \<Rightarrow> bool" where
  "is_space c = (let n = (of_char c :: nat) in n = 32 \<or> (9 \<le> n \<and> n \<le> 13) \<or> (28 \<le> n \<and> n \<le> 31))"

definition strip :: "string \<Rightarrow> string" where
  "strip s = rev (dropWhile is_space (rev (dropWhile is_space s)))"

definition digit_char :: "nat \<Rightarrow> char" where
  "digit_char d = char_of (48 + d)"

definition is_digit :: "char \<Rightarrow> bool" where
  "is_digit c = (let n = (of_char c :: nat) in 48 \<le> n \<and> n \<le> 57)"

definition digit_val :: "char \<Rightarrow> nat" where
  "digit_val c = of_char c - 48"

fun show_nat :: "nat \<Rightarrow> string" where
  "show_nat n = (if n < 10 then [digit_char n] else show_nat (n div 10) @ [digit_char (n mod 10)])"

declare show_nat.simps [simp del]

definition show_int :: "int \<Rightarrow> string" where
  \<comment> \<open>\<open>str(i)\<close>, also the text an f-string gives for an integer\<close>
  "show_int i = (if i < 0 then CHR ''-'' # show_nat (nat (- i)) else show_nat (nat i))"

definition read_nat :: "string \<Rightarrow> nat" where
  "read_nat s = foldl (\<lambda>n c. 10 * n + digit_val c) 0 s"

fun digits_ok :: "string \<Rightarrow> bool" where
  \<comment> \<open>decimal digits, with single underscores allowed between two digits\<close>
  "digits_ok [] = False"
| "digits_ok [c] = is_digit c"
| "digits_ok (c # d # s) =
     (is_digit c \<and> (if d = CHR ''_'' then s \<noteq> [] \<and> digits_ok s else digits_ok (d # s)))"

definition parse_int :: "string \<Rightarrow> int py_result" where
  \<comment> \<open>\<open>int(s)\<close> on text\<close>
  "parse_int s =
     (let t = strip s;
          neg = (case t of c # _ \<Rightarrow> c = CHR ''-'' | [] \<Rightarrow> False);
          u = (case t of c # r \<Rightarrow> if c = CHR ''-'' \<or> c = CHR ''+'' then r else t | [] \<Rightarrow> [])
      in if digits_ok u
         then (let n = int (read_nat (filter (\<lambda>c. c \<noteq> CHR ''_'') u)) in Inr (if neg then - n else n))
         else Inl ValueError)"

fun join :: "string \<Rightarrow> string list \<Rightarrow> string" where
  "join sep [] = []"
| "join sep [s] = s"
| "join sep (s # t # r) = s @ sep @ join sep (t # r)"

subsection \<open>Formatting of numbers\<close>

definition round_half_even :: "real \<Rightarrow> int" where
  "round_half_even x =
     (let f = \<lfloor>x\<rfloor>; d = x - of_int f
      in if d < 1/2 then f else if 1/2 < d then f + 1 else if even f then f else f + 1)"

definition zero_pad :: "nat \<Rightarrow> string \<Rightarrow> string" where
  "zero_pad w s = replicate (w - length s) (CHR ''0'') @ s"

definition fmt_fixed :: "nat \<Rightarrow> real \<Rightarrow> string" where
  \<comment> \<open>\<open>f\"{x:.kf}\"\<close>\<close>
  "fmt_fixed k x =
     (let n = round_half_even (\<bar>x\<bar> * 10 ^ k); q = nat n div 10 ^ k; r = nat n mod 10 ^ k;
          body = show_nat q @ (if k = 0 then [] else CHR ''.'' # zero_pad k (show_nat r))
      in if x < 0 then CHR ''-'' # body else body)"

fun first_exact :: "nat \<Rightarrow> nat \<Rightarrow> real \<Rightarrow> nat" where
  \<comment> \<open>the least number of decimals, from \<open>k\<close> on, that writes \<open>x\<close> exactly (at most \<open>fuel\<close> more)\<close>
  "first_exact 0 k x = k"
| "first_exact (Suc fuel) k x =
     (if of_int \<lfloor>x * 10 ^ k\<rfloor> = x * 10 ^ k then k else first_exact fuel (Suc k) x)"

definition float_str :: "real \<Rightarrow> string" where
  \<comment> \<open>\<open>str(x)\<close> of a float written without exponent: the shortest decimal with a fraction\<close>
  "float_str x = fmt_fixed (first_exact 16 1 x) x"

section \<open>Dynamically typed values\<close>

datatype pyval =
    VNone
  | VBool bool
  | VInt int
  | VFloat real
  | VStr string
  | VList "pyval list"
  | VDict "(string \<times> pyval) list"

fun truthy :: "pyval \<Rightarrow> bool" where
  "truthy VNone = False"
| "truthy (VBool b) = b"
| "truthy (VInt i) = (i \<noteq> 0)"
| "truthy (VFloat x) = (x \<noteq> 0)"
| "truthy (VStr s) = (s \<noteq> [])"
| "truthy (VList xs) = (xs \<noteq> [])"
| "truthy (VDict d) = (d \<noteq> [])"

definition quote_str :: "string \<Rightarrow> string" where
  \<comment> \<open>\<open>repr\<close> of text: double quotes only when it holds a single quote and no double quote\<close>
  "quote_str s =
     (let dq = (CHR 0x27 \<in> set s \<and> CHR 0x22 \<notin> set s); q = (if dq then CHR 0x22 else CHR 0x27);
          esc = (\<lambda>c. if c = q \<or> c = CHR 0x5C then [CHR 0x5C, c]
                     else if c = CHR 0x0A then [CHR 0x5C, CHR ''n'']
                     else if c = CHR 0x0D then [CHR 0x5C, CHR ''r'']
                     else if c = CHR 0x09 then [CHR 0x5C, CHR ''t'']
                     else [c])
      in [q] @ concat (map esc s) @ [q])"

fun py_repr :: "pyval \<Rightarrow> string" where
  "py_repr VNone = ''None''"
| "py_repr (VBool b) = (if b then ''True'' else ''False'')"
| "py_repr (VInt i) = show_int i"
| "py_repr (VFloat x) = float_str x"
| "py_repr (VStr s) = quote_str s"
| "py_repr (VList xs) = ''['' @ join '', '' (map py_repr xs) @ '']''"
| "py_repr (VDict d) =
     CHR 0x7B # join '', '' (map (\<lambda>p. quote_str (fst p) @ '': '' @ py_repr (snd p)) d) @ [CHR 0x7D]"

fun py_str :: "pyval \<Rightarrow> string" where
  "py_str (VStr s) = s"
| "py_str v = py_repr v"

fun to_float :: "pyval \<Rightarrow> real py_result" where
  \<comment> \<open>\<open>float(v)\<close>; the text of a float is read when it is the text of an integer\<close>
  "to_float (VFloat x) = Inr x"
| "to_float (VInt i) = Inr (of_int i)"
| "to_float (VBool b) = Inr (if b then 1 else 0)"
| "to_float (VStr s) = (case parse_int s of Inl e \<Rightarrow> Inl e | Inr i \<Rightarrow> Inr (of_int i))"
| "to_float _ = Inl TypeError"

fun to_int :: "pyval \<Rightarrow> int py_result" where
  \<comment> \<open>\<open>int(v)\<close>: truncates a float towards zero\<close>
  "to_int (VInt i) = Inr i"
| "to_int (VFloat x) = Inr (if x < 0 then - \<lfloor>- x\<rfloor> else \<lfloor>x\<rfloor>)"
| "to_int (VBool b) = Inr (if b then 1 else 0)"
| "to_int (VStr s) = parse_int s"
| "to_int _ = Inl TypeError"

section \<open>Dictionaries\<close>

text \<open>
  A dict is the list of its items in insertion order: \<open>map_of\<close> looks up, \<open>AList.update\<close>
  overwrites in place or appends, \<open>AList.delete\<close> removes. \<open>dict_get\<close> is \<open>d.get(k)\<close> with
  \<open>None\<close> for a missing key.
\<close>

type_synonym ('k, 'v) dict = "('k \<times> 'v) list"

abbreviation keys :: "('k \<times> 'v) list \<Rightarrow> 'k list" where
  "keys d \<equiv> map fst d"

abbreviation wf_dict :: "('k \<times> 'v) list \<Rightarrow> bool" where
  "wf_dict d \<equiv> distinct (keys d)"

definition dict_get :: "(string \<times> pyval) list \<Rightarrow> string \<Rightarrow> pyval" where
  "dict_get d k = (case map_of d k of None \<Rightarrow> VNone | Some v \<Rightarrow> v)"

definition dict_get_or :: "(string \<times> pyval) list \<Rightarrow> string \<Rightarrow> pyval \<Rightarrow> pyval" where
  "dict_get_or d k v = (case map_of d k of None \<Rightarrow> v | Some w \<Rightarrow> w)"

definition val_or :: "pyval \<Rightarrow> pyval \<Rightarrow> pyval" where
  \<comment> \<open>\<open>a or b\<close>\<close>
  "val_or a b = (if truthy a then a else b)"

lemma map_of_update [simp]: "map_of (AList.update k v d) = (map_of d)(k \<mapsto> v)"
  by (simp add: update_conv')

lemma map_of_delete [simp]: "map_of (AList.delete k d) = (map_of d)(k := None)"
  by (simp add: delete_conv')

lemma keys_update: "set (keys (AList.update k v d)) = insert k (set (keys d))"
  by (induction d) auto

lemma wf_dict_update [simp, inv_intros]: "wf_dict d \<Longrightarrow> wf_dict (AList.update k v d)"
  by (rule distinct_update)

lemma wf_dict_delete [simp, inv_intros]: "wf_dict d \<Longrightarrow> wf_dict (AList.delete k d)"
  by (rule distinct_delete)

lemma wf_dict_filter [simp, inv_intros]: "wf_dict d \<Longrightarrow> wf_dict (filter P d)"
  by (rule distinct_map_filter)

lemma length_update:
  "length (AList.update k v d) = (if k \<in> set (keys d) then length d else Suc (length d))"
  by (induction d) auto

lemma length_delete_le: "length (AList.delete k d) \<le> length d"
  by (induction d) auto

lemma length_delete_less: "k \<in> set (keys d) \<Longrightarrow> length (AList.delete k d) < length d"
proof (induction d)
  case (Cons p d)
  then show ?case using length_delete_le[of k d] by auto
qed simp

lemma map_of_filter_key:
  "map_of (filter (\<lambda>p. P (fst p)) d) k = (if P k then map_of d k else None)"
  by (induction d) auto

lemma set_update_subset: "set (AList.update k v d) \<subseteq> insert (k, v) (set d)"
  by (induction d) auto

lemma set_delete_subset: "set (AList.delete k d) \<subseteq> set d"
  by (induction d) auto

lemma update_fresh: "k \<notin> set (keys d) \<Longrightarrow> AList.update k v d = d @ [(k, v)]"
  by (induction d) auto

subsection \<open>First minimum of a list\<close>

fun argmin :: "('a \<Rightarrow> real) \<Rightarrow> 'a list \<Rightarrow> 'a option" where
  \<comment> \<open>\<open>min(xs, key=f)\<close>: the first element with the least key; none for an empty list\<close>
  "argmin f [] = None"
| "argmin f (x # xs) =
     (case argmin f xs of None \<Rightarrow> Some x | Some y \<Rightarrow> if f x \<le> f y then Some x else Some y)"

lemma argmin_None [simp]: "argmin f xs = None \<longleftrightarrow> xs = []"
  by (cases xs) (auto split: option.splits)

lemma argmin_mem: "argmin f xs = Some x \<Longrightarrow> x \<in> set xs"
  by (induction xs arbitrary: x) (auto split: option.splits if_splits)

lemma argmin_least: "argmin f xs = Some x \<Longrightarrow> y \<in> set xs \<Longrightarrow> f x \<le> f y"
proof (induction xs arbitrary: x y)
  case (Cons a xs)
  show ?case
  proof (cases "argmin f xs")
    case None
    with Cons.prems show ?thesis by auto
  next
    case (Some b)
    with Cons.prems Cons.IH[OF Some] show ?thesis by (fastforce split: if_splits)
  qed
qed simp

subsection \<open>Prefixes of a run\<close>

lemma ex_take_snoc: "(\<exists>n. P (take n (xs @ [x]))) \<longleftrightarrow> (\<exists>n. P (take n xs)) \<or> P (xs @ [x])"
proof
  assume "\<exists>n. P (take n (xs @ [x]))"
  then obtain n where n: "P (take n (xs @ [x]))" ..
  show "(\<exists>n. P (take n xs)) \<or> P (xs @ [x])"
  proof (cases "n \<le> length xs")
    case True
    with n have "P (take n xs)" by simp
    then show ?thesis by blast
  next
    case False
    with n show ?thesis by simp
  qed
next
  assume "(\<exists>n. P (take n xs)) \<or> P (xs @ [x])"
  then show "\<exists>n. P (take n (xs @ [x]))"
  proof
    assume "\<exists>n. P (take n xs)"
    then obtain n where "P (take n xs)" ..
    moreover have "take n xs = take (min n (length xs)) (xs @ [x])" by (auto simp: min_def)
    ultimately show ?thesis by metis
  next
    assume "P (xs @ [x])"
    then have "P (take (length (xs @ [x])) (xs @ [x]))" by simp
    then show ?thesis by blast
  qed
qed

lemma ex_take_last: "P xs \<Longrightarrow> \<exists>n. P (take n xs)"
  by (rule exI[of _ "length xs"]) simp

section \<open>Facts on text\<close>

lemma of_char_char_of_small: "n < 256 \<Longrightarrow> (of_char (char_of n :: char) :: nat) = n"
  by (simp add: of_char_of take_bit_nat_def)

lemma is_digit_digit_char [simp, py_text]: "d < 10 \<Longrightarrow> is_digit (digit_char d)"
  by (simp add: is_digit_def digit_char_def of_char_char_of_small)

lemma digit_val_digit_char [simp, py_text]: "d < 10 \<Longrightarrow> digit_val (digit_char d) = d"
  by (simp add: digit_val_def digit_char_def of_char_char_of_small)

lemma is_digit_not_sep [simp, py_text]:
  "\<not> is_digit (CHR '':'')" "\<not> is_digit (CHR ''-'')" "\<not> is_digit (CHR ''+'')"
  "\<not> is_digit (CHR ''_'')" "\<not> is_digit (CHR '' '')"
  by (simp_all add: is_digit_def)

lemma show_nat_digits: "c \<in> set (show_nat n) \<Longrightarrow> is_digit c"
proof (induction n arbitrary: c rule: show_nat.induct)
  case (1 n)
  show ?case
  proof (cases "n < 10")
    case True
    with "1.prems" show ?thesis by (subst (asm) show_nat.simps) simp
  next
    case False
    from False "1.prems" have "c \<in> set (show_nat (n div 10)) \<or> c = digit_char (n mod 10)"
      by (subst (asm) show_nat.simps) auto
    with False "1.IH" show ?thesis by auto
  qed
qed

lemma show_nat_nonempty [simp, py_text]: "show_nat n \<noteq> []"
  by (subst show_nat.simps) simp

lemma read_nat_append1: "read_nat (s @ [c]) = 10 * read_nat s + digit_val c"
  by (simp add: read_nat_def)

lemma read_show_nat [simp, py_text]: "read_nat (show_nat n) = n"
proof (induction n rule: show_nat.induct)
  case (1 n)
  show ?case
  proof (cases "n < 10")
    case True
    then show ?thesis by (subst show_nat.simps) (simp add: read_nat_def)
  next
    case False
    with 1 show ?thesis by (subst show_nat.simps) (simp add: read_nat_append1)
  qed
qed

lemma show_nat_inj [simp, py_text]: "show_nat m = show_nat n \<longleftrightarrow> m = n"
  by (metis read_show_nat)

lemma show_nat_hd_digit: "show_nat n = c # s \<Longrightarrow> is_digit c"
  by (metis list.set_intros(1) show_nat_digits)

lemma show_int_inj [simp, py_text]: "show_int i = show_int j \<longleftrightarrow> i = j"
proof -
  have "show_nat n \<noteq> CHR ''-'' # s" for n s
    using show_nat_hd_digit by fastforce
  then have ne: "CHR ''-'' # s \<noteq> show_nat n" for n s by metis
  show ?thesis using ne ne[symmetric]
    by (auto simp: show_int_def)
qed

lemma show_int_chars: "c \<in> set (show_int i) \<Longrightarrow> is_digit c \<or> c = CHR ''-''"
  by (auto simp: show_int_def show_nat_digits split: if_splits)

lemma show_int_no_colon [simp, py_text]: "CHR '':'' \<notin> set (show_int i)"
  using show_int_chars by fastforce

lemma startswith_iff: "startswith s p \<longleftrightarrow> (\<exists>r. s = p @ r)"
  by (auto simp: startswith_def prefix_def)

lemma endswith_iff: "endswith s p \<longleftrightarrow> (\<exists>r. s = r @ p)"
  by (auto simp: endswith_def suffix_def)

lemma contains_iff: "contains s p \<longleftrightarrow> (\<exists>l r. s = l @ p @ r)"
  by (auto simp: contains_def sublist_def)

lemma prefix_sep_unique:
  assumes "c \<notin> set a" and "c \<notin> set b" and "a @ [c] @ r = b @ [c] @ s"
  shows "a = b"
  using assms
proof (induction a arbitrary: b)
  case Nil
  then show ?case by (cases b) auto
next
  case (Cons x a)
  then show ?case by (cases b) auto
qed

lemma digits_ok_digits: "s \<noteq> [] \<Longrightarrow> (\<forall>c \<in> set s. is_digit c) \<Longrightarrow> digits_ok s"
proof (induction s rule: digits_ok.induct)
  case (3 c d s)
  then have "d \<noteq> CHR ''_''" by force
  with 3 show ?case by auto
qed auto

lemma is_digit_not_space: "is_digit c \<Longrightarrow> \<not> is_space c"
  by (auto simp: is_digit_def is_space_def Let_def)

lemma strip_no_space: "(\<forall>c \<in> set s. \<not> is_space c) \<Longrightarrow> strip s = s"
proof -
  assume a: "\<forall>c \<in> set s. \<not> is_space c"
  have "dropWhile is_space s = s"
    using a by (simp add: dropWhile_eq_self_iff)
  moreover have "dropWhile is_space (rev s) = rev s"
    using a by (cases s rule: rev_cases) (simp_all add: dropWhile_eq_self_iff)
  ultimately show ?thesis by (simp add: strip_def)
qed

lemma filter_no_underscore:
  assumes "\<forall>c \<in> set s. is_digit c"
  shows "filter (\<lambda>c. c \<noteq> CHR ''_'') s = s"
proof -
  have "\<forall>c \<in> set s. c \<noteq> CHR ''_''"
    using assms is_digit_not_sep by metis
  then show ?thesis by (simp add: filter_id_conv)
qed

lemma show_int_no_space: "c \<in> set (show_int i) \<Longrightarrow> \<not> is_space c"
  using show_int_chars[of c i] is_digit_not_space by (auto simp: is_space_def Let_def)

lemma parse_show_int [simp, py_text]: "parse_int (show_int i) = Inr i"
proof -
  have st: "strip (show_int i) = show_int i"
    by (rule strip_no_space) (auto dest: show_int_no_space)
  have dg: "\<forall>c \<in> set (show_nat n). is_digit c" for n by (simp add: show_nat_digits)
  have ok: "digits_ok (show_nat n)" for n
    by (rule digits_ok_digits) (simp_all add: dg)
  have fl: "filter (\<lambda>c. c \<noteq> CHR ''_'') (show_nat n) = show_nat n" for n
    by (rule filter_no_underscore) (rule dg)
  show ?thesis
  proof (cases "i < 0")
    case True
    then show ?thesis
      by (simp add: parse_int_def st) (simp add: show_int_def ok fl)
  next
    case False
    obtain c s where cs: "show_nat (nat i) = c # s"
      by (meson list.exhaust show_nat_nonempty)
    have "is_digit c" by (rule show_nat_hd_digit[OF cs])
    then have "c \<noteq> CHR ''-''" "c \<noteq> CHR ''+''" by auto
    with False cs ok[of "nat i"] fl[of "nat i"] read_show_nat[of "nat i"] show ?thesis
      by (simp add: parse_int_def st) (simp add: show_int_def)
  qed
qed

subsection \<open>Rounding\<close>

lemma round_half_even_bounds: "\<lfloor>x\<rfloor> \<le> round_half_even x" "round_half_even x \<le> \<lfloor>x\<rfloor> + 1"
  by (simp_all add: round_half_even_def Let_def)

lemma round_half_even_mono: "x \<le> y \<Longrightarrow> round_half_even x \<le> round_half_even y"
proof (cases "\<lfloor>x\<rfloor> = \<lfloor>y\<rfloor>")
  case False
  moreover assume "x \<le> y"
  ultimately have "\<lfloor>x\<rfloor> + 1 \<le> \<lfloor>y\<rfloor>" using floor_mono[of x y] by simp
  then show ?thesis using round_half_even_bounds(2)[of x] round_half_even_bounds(1)[of y] by linarith
qed (simp add: round_half_even_def Let_def)

lemma round_half_even_of_int [simp]: "round_half_even (of_int i) = i"
  by (simp add: round_half_even_def)

end
