(* ===== verification/Schema.thy ===== *)
theory Schema
  imports Prelude
begin

text \<open>
  The shared event schema, \<open>engine/schema.py\<close>, and the normalisation of raw sensor payloads,
  \<open>normalize\<close> of \<open>engine/event_bus.py\<close>. The fields of an event have the types of their
  annotations; a dict that gives a field a value of another type has no typed event, and the
  constructor answers \<open>Inl TypeError\<close> for it here, where Python would store it unchecked.
\<close>

record event =
  timestamp :: string
  source :: string
  event_type :: string
  pid :: "int option"
  parent_pid :: "int option"
  image_path :: "string option"
  command_line :: "string option"
  hash_sha256 :: "string option"
  extra :: "(string, pyval) dict"

definition sources :: "string list" where
  "sources = [''etw_process'', ''fs'', ''network'', ''eventlog'']"

definition event_types :: "string list" where
  "event_types =
     [''process_create'', ''process_exit'', ''image_load'', ''registry_write'', ''file_write'',
      ''connection'', ''login_failed'', ''process_suspended'', ''file_quarantined'']"

definition known_fields :: "string list" where
  "known_fields =
     [''timestamp'', ''source'', ''event_type'', ''pid'', ''parent_pid'', ''image_path'',
      ''command_line'', ''hash_sha256'', ''extra'']"

definition post_init :: "event \<Rightarrow> event py_result" where
  "post_init e =
     (if source e \<notin> set sources then Inl ValueError
      else if event_type e \<notin> set event_types then Inl ValueError
      else Inr e)"

abbreviation valid_event :: "event \<Rightarrow> bool" where
  "valid_event e \<equiv> post_init e = Inr e"

subsection \<open>To and from dicts\<close>

fun of_opt_int :: "int option \<Rightarrow> pyval" where
  "of_opt_int None = VNone"
| "of_opt_int (Some i) = VInt i"

fun of_opt_str :: "string option \<Rightarrow> pyval" where
  "of_opt_str None = VNone"
| "of_opt_str (Some s) = VStr s"

fun as_str :: "pyval \<Rightarrow> string py_result" where
  "as_str (VStr s) = Inr s"
| "as_str _ = Inl TypeError"

fun as_opt_int :: "pyval \<Rightarrow> int option py_result" where
  "as_opt_int VNone = Inr None"
| "as_opt_int (VInt i) = Inr (Some i)"
| "as_opt_int _ = Inl TypeError"

fun as_opt_str :: "pyval \<Rightarrow> string option py_result" where
  "as_opt_str VNone = Inr None"
| "as_opt_str (VStr s) = Inr (Some s)"
| "as_opt_str _ = Inl TypeError"

fun as_dict :: "pyval \<Rightarrow> (string, pyval) dict py_result" where
  "as_dict (VDict d) = Inr d"
| "as_dict _ = Inl TypeError"

definition to_dict :: "event \<Rightarrow> (string, pyval) dict" where
  "to_dict e =
     [(''timestamp'', VStr (timestamp e)), (''source'', VStr (source e)),
      (''event_type'', VStr (event_type e)), (''pid'', of_opt_int (pid e)),
      (''parent_pid'', of_opt_int (parent_pid e)), (''image_path'', of_opt_str (image_path e)),
      (''command_line'', of_opt_str (command_line e)), (''hash_sha256'', of_opt_str (hash_sha256 e)),
      (''extra'', VDict (extra e))]"

definition required :: "(string, pyval) dict \<Rightarrow> string \<Rightarrow> pyval py_result" where
  \<comment> \<open>a dataclass field without default: a missing argument is a TypeError\<close>
  "required d k = (case map_of d k of None \<Rightarrow> Inl TypeError | Some v \<Rightarrow> Inr v)"

definition make_event :: "(string, pyval) dict \<Rightarrow> event py_result" where
  \<comment> \<open>\<open>cls(**d)\<close> for a dict of known fields: required fields, defaults, \<open>__post_init__\<close>\<close>
  "make_event d =
     bind_res (bind_res (required d ''timestamp'') as_str) (\<lambda>ts.
     bind_res (bind_res (required d ''source'') as_str) (\<lambda>src.
     bind_res (bind_res (required d ''event_type'') as_str) (\<lambda>et.
     bind_res (as_opt_int (dict_get d ''pid'')) (\<lambda>p.
     bind_res (as_opt_int (dict_get d ''parent_pid'')) (\<lambda>pp.
     bind_res (as_opt_str (dict_get d ''image_path'')) (\<lambda>ip.
     bind_res (as_opt_str (dict_get d ''command_line'')) (\<lambda>cl.
     bind_res (as_opt_str (dict_get d ''hash_sha256'')) (\<lambda>h.
     bind_res (as_dict (dict_get_or d ''extra'' (VDict []))) (\<lambda>x.
       post_init \<lparr>timestamp = ts, source = src, event_type = et, pid = p, parent_pid = pp,
         image_path = ip, command_line = cl, hash_sha256 = h, extra = x\<rparr>)))))))))"

definition from_dict :: "(string, pyval) dict \<Rightarrow> event py_result" where
  "from_dict d = make_event (filter (\<lambda>kv. fst kv \<in> set known_fields) d)"

subsection \<open>Normalisation of raw payloads\<close>

definition dict_update :: "('k, 'v) dict \<Rightarrow> ('k, 'v) dict \<Rightarrow> ('k, 'v) dict" where
  \<comment> \<open>\<open>a.update(b)\<close>\<close>
  "dict_update a b = foldl (\<lambda>d kv. AList.update (fst kv) (snd kv) d) a b"

definition set_default :: "(string, pyval) dict \<Rightarrow> string \<Rightarrow> pyval \<Rightarrow> (string, pyval) dict" where
  "set_default d k v = (if map_of d k = None then AList.update k v d else d)"

definition normalize :: "string \<Rightarrow> (string, pyval) dict \<Rightarrow> event py_result" where
  \<comment> \<open>\<open>now\<close> is the text \<open>utc_timestamp()\<close> returns\<close>
  "normalize now raw =
     (let payload = set_default raw ''timestamp'' (VStr now)
      in bind_res (as_dict (val_or (dict_get payload ''extra'') (VDict []))) (\<lambda>ex.
           let swept = filter (\<lambda>kv. fst kv \<notin> set known_fields) payload;
               ex' = (if swept \<noteq> [] then dict_update ex swept else ex);
               payload' = AList.update ''extra'' (VDict ex') payload
           in from_dict (filter (\<lambda>kv. fst kv \<in> set known_fields \<or> fst kv = ''extra'') payload')))"

subsection \<open>Timestamps\<close>

record datetime =
  year :: nat
  month :: nat
  day :: nat
  hour :: nat
  minute :: nat
  second :: nat
  microsecond :: nat

definition utc_timestamp :: "datetime \<Rightarrow> string" where
  \<comment> \<open>the argument is in UTC already; \<open>strftime\<close> and the millisecond suffix\<close>
  "utc_timestamp d =
     zero_pad 4 (show_nat (year d)) @ ''-'' @ zero_pad 2 (show_nat (month d)) @ ''-'' @
     zero_pad 2 (show_nat (day d)) @ ''T'' @ zero_pad 2 (show_nat (hour d)) @ '':'' @
     zero_pad 2 (show_nat (minute d)) @ '':'' @ zero_pad 2 (show_nat (second d)) @ ''.'' @
     zero_pad 3 (show_nat (microsecond d div 1000)) @ ''Z''"

section \<open>Lemmas\<close>

lemma post_init_Inr: "post_init e = Inr e' \<Longrightarrow> e' = e \<and> valid_event e"
  by (auto simp: post_init_def split: if_splits)

lemma valid_event_iff:
  "valid_event e \<longleftrightarrow> source e \<in> set sources \<and> event_type e \<in> set event_types"
  by (simp add: post_init_def)

lemma make_event_valid: "make_event d = Inr e \<Longrightarrow> valid_event e"
  unfolding make_event_def by (auto simp: bind_res_Inr_iff dest: post_init_Inr)

lemma from_dict_valid: "from_dict d = Inr e \<Longrightarrow> valid_event e"
  by (simp add: from_dict_def make_event_valid)

lemma as_opt_of_opt [simp]:
  "as_opt_int (of_opt_int p) = Inr p" "as_opt_str (of_opt_str s) = Inr s"
  by (cases p; simp)(cases s; simp)

lemma make_event_to_dict: "make_event (to_dict e) = post_init e"
  by (cases e) (simp add: make_event_def to_dict_def required_def dict_get_def dict_get_or_def)

lemma to_dict_known: "filter (\<lambda>kv. fst kv \<in> set known_fields) (to_dict e) = to_dict e"
  by (simp add: to_dict_def known_fields_def)

lemma from_to_dict: "from_dict (to_dict e) = post_init e"
  by (simp add: from_dict_def to_dict_known make_event_to_dict)

lemma map_of_dict_update: "map_of (dict_update a b) = map_of a ++ map_of (rev b)"
  unfolding dict_update_def
  by (induction b arbitrary: a) (auto simp: map_add_def fun_eq_iff split: option.splits)

lemma map_of_rev:
  assumes "wf_dict d"
  shows "map_of (rev d) = map_of d"
proof -
  have "distinct (map fst (rev d))" using assms by (simp add: rev_map[symmetric])
  then show ?thesis using assms map_of_inject_set[of "rev d" d] by simp
qed

lemma map_of_dict_update_wf: "wf_dict b \<Longrightarrow> map_of (dict_update a b) = map_of a ++ map_of b"
  by (simp add: map_of_dict_update map_of_rev)

lemma make_event_cong:
  assumes "\<And>k. k \<in> set known_fields \<Longrightarrow> map_of d k = map_of d' k"
  shows "make_event d = make_event d'"
  using assms
  by (simp add: make_event_def required_def dict_get_def dict_get_or_def known_fields_def)

lemma make_event_extra:
  "make_event d = Inr e \<Longrightarrow> map_of d ''extra'' = Some (VDict x) \<Longrightarrow> extra e = x"
  unfolding make_event_def
  by (auto simp: bind_res_Inr_iff dict_get_or_def post_init_def split: if_splits)

lemma map_of_filter_known:
  "map_of (filter (\<lambda>kv. fst kv \<in> set known_fields) d) k =
     (if k \<in> set known_fields then map_of d k else None)"
  using map_of_filter_key[of "\<lambda>k. k \<in> set known_fields" d k] by simp

lemma map_of_filter_unknown:
  "map_of (filter (\<lambda>kv. fst kv \<notin> set known_fields) d) k =
     (if k \<notin> set known_fields then map_of d k else None)"
  using map_of_filter_key[of "\<lambda>k. k \<notin> set known_fields" d k] by simp

lemma extra_known [simp]: "''extra'' \<in> set known_fields" "''timestamp'' \<in> set known_fields"
  by (simp_all add: known_fields_def)

lemma set_default_unknown: "k \<noteq> d \<Longrightarrow> map_of (set_default raw d v) k = map_of raw k"
  by (simp add: set_default_def)

lemma wf_set_default [simp, inv_intros]: "wf_dict d \<Longrightarrow> wf_dict (set_default d k v)"
  by (simp add: set_default_def)

lemma normalize_unfold:
  assumes "normalize now raw = Inr e"
  obtains ex where
    "as_dict (val_or (dict_get (set_default raw ''timestamp'' (VStr now)) ''extra'') (VDict [])) = Inr ex"
    "extra e = dict_update ex
       (filter (\<lambda>kv. fst kv \<notin> set known_fields) (set_default raw ''timestamp'' (VStr now)))"
proof -
  let ?p = "set_default raw ''timestamp'' (VStr now)"
  let ?sw = "filter (\<lambda>kv. fst kv \<notin> set known_fields) ?p"
  from assms obtain ex where ex:
      "as_dict (val_or (dict_get ?p ''extra'') (VDict [])) = Inr ex"
    and fd: "from_dict (filter (\<lambda>kv. fst kv \<in> set known_fields \<or> fst kv = ''extra'')
       (AList.update ''extra'' (VDict (if ?sw \<noteq> [] then dict_update ex ?sw else ex)) ?p)) = Inr e"
    by (auto simp: normalize_def Let_def bind_res_Inr_iff)
  have dd: "(if ?sw \<noteq> [] then dict_update ex ?sw else ex) = dict_update ex ?sw"
    by (simp add: dict_update_def)
  have kn: "(\<lambda>kv :: string \<times> pyval. fst kv \<in> set known_fields \<or> fst kv = ''extra'')
      = (\<lambda>kv. fst kv \<in> set known_fields)"
    by (auto simp: fun_eq_iff)
  have "map_of (filter (\<lambda>kv. fst kv \<in> set known_fields)
      (AList.update ''extra'' (VDict (dict_update ex ?sw)) ?p)) ''extra'' = Some (VDict (dict_update ex ?sw))"
    by (simp add: map_of_filter_known)
  then have "extra e = dict_update ex ?sw"
    using fd unfolding dd kn from_dict_def filter_filter conj_absorb by (rule make_event_extra[rotated])
  with ex that show thesis by blast
qed

lemma normalize_valid: "normalize now raw = Inr e \<Longrightarrow> valid_event e"
  by (auto simp: normalize_def Let_def bind_res_Inr_iff dest: from_dict_valid)


section \<open>Properties\<close>

text \<open>Serialising a valid event to its schema-shaped dict and reading it back gives the same
  event, and reading a dict never gives an event outside the schema's sources and types.\<close>

lemma event_dict_round_trip:
  assumes "source e \<in> set sources" and "event_type e \<in> set event_types"
  shows "from_dict (to_dict e) = Inr e"
  using assms by (simp add: from_to_dict post_init_def)

definition sample_event :: event where
  "sample_event =
     \<lparr>timestamp = ''2026-07-16T10:22:31.000Z'', source = ''fs'', event_type = ''file_write'',
      pid = Some 7, parent_pid = None, image_path = Some ''/tmp/a.exe'', command_line = None,
      hash_sha256 = None, extra = [(''entropy'', VFloat (79/10))]\<rparr>"

lemma event_dict_round_trip_witness: "from_dict (to_dict sample_event) = Inr sample_event"
  by (rule event_dict_round_trip) (simp_all add: sample_event_def sources_def event_types_def)

text \<open>Normalising a raw sensor payload loses nothing: every top-level key outside the schema
  is found in the event's \<open>extra\<close> with its value, and the resulting event is valid.\<close>

lemma normalize_lossless:
  assumes "normalize now raw = Inr e" and "wf_dict raw"
    and "k \<notin> set known_fields" and "map_of raw k = Some v"
  shows "map_of (extra e) k = Some v \<and> source e \<in> set sources \<and> event_type e \<in> set event_types"
proof -
  let ?p = "set_default raw ''timestamp'' (VStr now)"
  let ?sw = "filter (\<lambda>kv. fst kv \<notin> set known_fields) ?p"
  obtain ex where ex: "extra e = dict_update ex ?sw"
    using normalize_unfold[OF assms(1)] by blast
  have "wf_dict ?sw" using assms(2) by simp
  then have "map_of (extra e) k = (map_of ex ++ map_of ?sw) k"
    by (simp add: ex map_of_dict_update_wf)
  moreover have "map_of ?sw k = Some v"
  proof -
    have "k \<noteq> ''timestamp''" using assms(3) extra_known(2) by blast
    then show ?thesis using assms(3,4) by (simp add: map_of_filter_unknown set_default_unknown)
  qed
  ultimately have "map_of (extra e) k = Some v" by (simp add: map_add_def)
  then show ?thesis using normalize_valid[OF assms(1)] by (simp add: valid_event_iff)
qed

lemma normalize_lossless_witness:
  "\<exists>e. normalize ''t'' [(''source'', VStr ''fs''), (''event_type'', VStr ''file_write''),
          (''entropy'', VInt 8)] = Inr e \<and> map_of (extra e) ''entropy'' = Some (VInt 8)"
proof -
  let ?raw = "[(''source'', VStr ''fs''), (''event_type'', VStr ''file_write''), (''entropy'', VInt 8)]"
  have "normalize ''t'' ?raw =
      Inr \<lparr>timestamp = ''t'', source = ''fs'', event_type = ''file_write'', pid = None, parent_pid = None,
        image_path = None, command_line = None, hash_sha256 = None, extra = [(''entropy'', VInt 8)]\<rparr>"
    by code_simp
  then obtain e where e: "normalize ''t'' ?raw = Inr e" by blast
  have "map_of (extra e) ''entropy'' = Some (VInt 8)"
    using normalize_lossless[OF e, of "''entropy''" "VInt 8"] by (simp add: known_fields_def)
  with e show ?thesis by blast
qed

end
