(* ===== verification/EventBus.thy ===== *)
theory EventBus
  imports Schema
begin

text \<open>
  \<open>engine/event_bus.py\<close>: every published event is stored as a row and delivered to a bounded
  in-memory queue; high-volume event types are buffered and delivered in batches; when the queue
  is full the oldest delivery is dropped. Publishers hold the lock for a whole operation and
  \<open>queue.Queue\<close> is itself atomic, so an execution is a sequence of these operations. The rows of
  the SQLite table are a list in insertion order; the \<open>extra\<close> column holds the value its JSON
  text stands for; a \<open>where\<close> clause is a predicate on the row.
\<close>

datatype item = Single event | Batch "event list"

record bus =
  rows :: "(int \<times> event) list"
  next_id :: int
  bus_queue :: "item list"
  queue_size :: int
  unfinished :: int
  batch :: "event list"
  high_volume_batch :: int
  is_open :: bool

definition high_volume_types :: "string list" where
  "high_volume_types = [''registry_write'', ''image_load'']"

definition new_bus :: "int \<Rightarrow> int \<Rightarrow> bus" where
  "new_bus qs hv =
     \<lparr>rows = [], next_id = 1, bus_queue = [], queue_size = qs, unfinished = 0, batch = [],
      high_volume_batch = hv, is_open = True\<rparr>"

definition persist :: "event \<Rightarrow> bus \<Rightarrow> int \<times> bus" where
  "persist e b = (next_id b, b\<lparr>rows := rows b @ [(next_id b, e)], next_id := next_id b + 1\<rparr>)"

subsection \<open>The bounded queue\<close>

definition queue_full :: "bus \<Rightarrow> bool" where
  \<comment> \<open>a \<open>queue.Queue\<close> of size 0 or less is unbounded\<close>
  "queue_full b \<longleftrightarrow> 0 < queue_size b \<and> queue_size b \<le> int (length (bus_queue b))"

definition put_nowait :: "item \<Rightarrow> bus \<Rightarrow> bus option" where
  "put_nowait x b =
     (if queue_full b then None
      else Some (b\<lparr>bus_queue := bus_queue b @ [x], unfinished := unfinished b + 1\<rparr>))"

definition get_nowait :: "bus \<Rightarrow> (item \<times> bus) option" where
  "get_nowait b = (case bus_queue b of [] \<Rightarrow> None | x # r \<Rightarrow> Some (x, b\<lparr>bus_queue := r\<rparr>))"

definition bus_put :: "item \<Rightarrow> bus \<Rightarrow> bus" where
  "bus_put x b =
     (case put_nowait x b of
        Some b' \<Rightarrow> b'
      | None \<Rightarrow>
          let b1 = (case get_nowait b of Some (_, b1) \<Rightarrow> b1 | None \<Rightarrow> b)
          in case put_nowait x b1 of Some b2 \<Rightarrow> b2 | None \<Rightarrow> b1)"

definition flush_batch :: "bus \<Rightarrow> bus" where
  "flush_batch b = (if batch b = [] then b else bus_put (Batch (batch b)) (b\<lparr>batch := []\<rparr>))"

definition enqueue :: "event \<Rightarrow> bus \<Rightarrow> bus" where
  "enqueue e b =
     (if event_type e \<in> set high_volume_types then
        let b' = b\<lparr>batch := batch b @ [e]\<rparr>
        in if high_volume_batch b' \<le> int (length (batch b')) then flush_batch b' else b'
      else
        let b' = (if batch b \<noteq> [] then flush_batch b else b)
        in bus_put (Single e) b')"

definition publish :: "event \<Rightarrow> bus \<Rightarrow> int \<times> bus" where
  "publish e b = (let (rowid, b') = persist e b in (rowid, enqueue e b'))"

definition publish_many :: "event list \<Rightarrow> bus \<Rightarrow> int list \<times> bus" where
  \<comment> \<open>the row ids are not collected: the returned list is empty\<close>
  "publish_many es b =
     (let b1 = foldl (\<lambda>b e. snd (persist e b)) b es in ([], foldl (\<lambda>b e. enqueue e b) b1 es))"

definition consume :: "bus \<Rightarrow> event list option \<times> bus" where
  \<comment> \<open>\<open>None\<close> on timeout; a single event is a list of one\<close>
  "consume b =
     (case get_nowait b of
        None \<Rightarrow> (None, b)
      | Some (Single e, b') \<Rightarrow> (Some [e], b')
      | Some (Batch es, b') \<Rightarrow> (Some es, b'))"

definition flush :: "bus \<Rightarrow> bus" where
  "flush b = flush_batch b"

definition task_done :: "bus \<Rightarrow> bus py_result" where
  "task_done b = (if unfinished b \<le> 0 then Inl ValueError else Inr (b\<lparr>unfinished := unfinished b - 1\<rparr>))"

definition row_count :: "(event \<Rightarrow> bool) \<Rightarrow> bus \<Rightarrow> nat" where
  "row_count w b = length (filter (\<lambda>r. w (snd r)) (rows b))"

definition recent :: "int \<Rightarrow> (event \<Rightarrow> bool) \<Rightarrow> bus \<Rightarrow> (string, pyval) dict list" where
  \<comment> \<open>newest first; a negative SQL limit is no limit\<close>
  "recent limit w b =
     (let rs = rev (filter (\<lambda>r. w (snd r)) (rows b))
      in map (\<lambda>r. to_dict (snd r)) (if limit < 0 then rs else take (nat limit) rs))"

definition close :: "bus \<Rightarrow> bus" where
  "close b = (flush b)\<lparr>is_open := False\<rparr>"

section \<open>The queue as a lossy FIFO\<close>

text \<open>
  The contract between the bus and its consumers: pushing appends, after dropping at most the
  oldest element of a full queue; popping takes the oldest. In any interleaving of pushes and
  pops, what comes out followed by what is left is a subsequence of what went in, and all of it
  when the queue never overflows.
\<close>

datatype 'a fifo_op = Push 'a | Pop

locale lossy_fifo =
  fixes content :: "'q \<Rightarrow> 'a list"
    and push :: "'a \<Rightarrow> 'q \<Rightarrow> 'q"
    and pop :: "'q \<Rightarrow> ('a \<times> 'q) option"
    and full :: "'q \<Rightarrow> bool"
    and ok :: "'q \<Rightarrow> bool"
  assumes push_room: "ok q \<Longrightarrow> \<not> full q \<Longrightarrow> content (push x q) = content q @ [x]"
    and push_full: "ok q \<Longrightarrow> full q \<Longrightarrow> content (push x q) = tl (content q) @ [x]"
    and push_ok: "ok q \<Longrightarrow> ok (push x q)"
    and pop_empty: "content q = [] \<Longrightarrow> pop q = None"
    and pop_cons: "ok q \<Longrightarrow> content q = x # xs \<Longrightarrow> \<exists>q'. pop q = Some (x, q') \<and> content q' = xs \<and> ok q'"
begin

fun run :: "'a fifo_op list \<Rightarrow> 'q \<Rightarrow> 'a list \<times> 'q" where
  "run [] q = ([], q)"
| "run (Push x # ops) q = run ops (push x q)"
| "run (Pop # ops) q =
     (case pop q of None \<Rightarrow> run ops q | Some (x, q') \<Rightarrow> (let (ys, r) = run ops q' in (x # ys, r)))"

fun pushed :: "'a fifo_op list \<Rightarrow> 'a list" where
  "pushed [] = []"
| "pushed (Push x # ops) = x # pushed ops"
| "pushed (Pop # ops) = pushed ops"

lemma push_subseq: "ok q \<Longrightarrow> subseq (content (push x q)) (content q @ [x])"
  by (cases "full q"; cases "content q") (auto simp: push_room push_full)

lemma pop_split:
  "ok q \<Longrightarrow> pop q = None \<and> content q = [] \<or>
     (\<exists>x q'. pop q = Some (x, q') \<and> content q = x # content q' \<and> ok q')"
  using pop_empty[of q] pop_cons[of q "hd (content q)" "tl (content q)"] by (cases "content q") auto

lemma run_subseq:
  "ok q \<Longrightarrow> subseq (fst (run ops q) @ content (snd (run ops q))) (content q @ pushed ops)"
proof (induction ops arbitrary: q)
  case (Cons op ops)
  show ?case
  proof (cases op)
    case (Push x)
    have "subseq (content (push x q) @ pushed ops) ((content q @ [x]) @ pushed ops)"
      by (intro list_emb_append_mono push_subseq Cons.prems) simp
    with Cons.IH[OF push_ok[OF Cons.prems], of x] Push show ?thesis
      by (auto intro: subseq_order.trans)
  next
    case Pop
    from pop_split[OF Cons.prems] show ?thesis
    proof (elim disjE exE conjE)
      fix x q' assume "pop q = Some (x, q')" "content q = x # content q'" "ok q'"
      with Pop Cons.IH[of q'] show ?thesis by (simp add: case_prod_beta)
    qed (use Pop Cons.IH[OF Cons.prems] in simp)
  qed
qed simp

end

definition queue_ok :: "bus \<Rightarrow> bool" where
  "queue_ok b \<longleftrightarrow> queue_size b \<le> 0 \<or> int (length (bus_queue b)) \<le> queue_size b"

lemma queue_ok_cong:
  "bus_queue b = bus_queue b' \<Longrightarrow> queue_size b = queue_size b' \<Longrightarrow> queue_ok b = queue_ok b'"
  by (simp add: queue_ok_def)

lemma bus_put_content:
  "queue_ok b \<Longrightarrow> bus_queue (bus_put x b) =
     (if queue_full b then tl (bus_queue b) @ [x] else bus_queue b @ [x])"
  by (cases "bus_queue b")
    (auto simp: bus_put_def put_nowait_def get_nowait_def queue_full_def queue_ok_def Let_def)

lemma bus_put_fields [simp]:
  "batch (bus_put x b) = batch b" "rows (bus_put x b) = rows b" "next_id (bus_put x b) = next_id b"
  "queue_size (bus_put x b) = queue_size b" "high_volume_batch (bus_put x b) = high_volume_batch b"
  by (simp_all add: bus_put_def put_nowait_def get_nowait_def Let_def split: option.split list.split)

lemma bus_put_ok [inv_intros]: "queue_ok b \<Longrightarrow> queue_ok (bus_put x b)"
  using bus_put_content[of b x] by (auto simp: queue_ok_def queue_full_def)

interpretation bq: lossy_fifo bus_queue bus_put get_nowait queue_full queue_ok
proof unfold_locales
  fix q :: bus and x xs
  show "queue_ok q \<Longrightarrow> queue_ok (bus_put x q)" by (rule bus_put_ok)
  show "queue_ok q \<Longrightarrow> bus_queue q = x # xs \<Longrightarrow>
      \<exists>q'. get_nowait q = Some (x, q') \<and> bus_queue q' = xs \<and> queue_ok q'"
    by (simp add: get_nowait_def queue_ok_def) linarith
qed (simp_all add: bus_put_content get_nowait_def)

section \<open>Delivery of events\<close>

fun events_of :: "item \<Rightarrow> event list" where
  "events_of (Single e) = [e]"
| "events_of (Batch es) = es"

definition flatten :: "item list \<Rightarrow> event list" where
  "flatten xs = concat (map events_of xs)"

definition pending :: "bus \<Rightarrow> event list" where
  \<comment> \<open>the events on their way to the consumer, oldest first\<close>
  "pending b = flatten (bus_queue b) @ batch b"

lemma flatten_simps [simp]:
  "flatten [] = []" "flatten (x # xs) = events_of x @ flatten xs"
  "flatten (xs @ ys) = flatten xs @ flatten ys"
  by (simp_all add: flatten_def)

lemma flatten_tl: "subseq (flatten (tl xs)) (flatten xs)"
  by (cases xs) auto

lemma flush_batch_fields [simp]:
  "batch (flush_batch b) = []" "rows (flush_batch b) = rows b" "next_id (flush_batch b) = next_id b"
  "queue_size (flush_batch b) = queue_size b" "high_volume_batch (flush_batch b) = high_volume_batch b"
  by (simp_all add: flush_batch_def)

lemma enqueue_fields [simp]:
  "rows (enqueue e b) = rows b" "next_id (enqueue e b) = next_id b"
  "queue_size (enqueue e b) = queue_size b" "high_volume_batch (enqueue e b) = high_volume_batch b"
  by (simp_all add: enqueue_def Let_def)

definition room :: "nat \<Rightarrow> bus \<Rightarrow> bool" where
  "room n b \<longleftrightarrow> queue_size b \<le> 0 \<or> int (length (bus_queue b) + n) \<le> queue_size b"

lemma room_mono: "room n b \<Longrightarrow> m \<le> n \<Longrightarrow> room m b"
  by (auto simp: room_def)

lemma room_not_full: "room (Suc n) b \<Longrightarrow> \<not> queue_full b"
  by (auto simp: room_def queue_full_def)

lemma flush_batch_ok [inv_intros]: "queue_ok b \<Longrightarrow> queue_ok (flush_batch b)"
  using bus_put_ok[of "b\<lparr>batch := []\<rparr>" "Batch (batch b)"] queue_ok_cong[of b "b\<lparr>batch := []\<rparr>"]
  by (simp add: flush_batch_def)

lemma enqueue_ok [inv_intros]: "queue_ok b \<Longrightarrow> queue_ok (enqueue e b)"
proof -
  assume q: "queue_ok b"
  then have "queue_ok (b\<lparr>batch := batch b @ [e]\<rparr>)" by (simp add: queue_ok_def)
  with q show ?thesis by (auto simp: enqueue_def Let_def intro: inv_intros)
qed

lemma pending_put:
  assumes "batch b = []" and "queue_ok b"
  shows "subseq (pending (bus_put x b)) (pending b @ events_of x)"
    and "\<not> queue_full b \<Longrightarrow> pending (bus_put x b) = pending b @ events_of x"
proof -
  have "subseq (flatten (tl (bus_queue b)) @ events_of x) (flatten (bus_queue b) @ events_of x)"
    by (intro list_emb_append_mono flatten_tl) simp
  with assms show "subseq (pending (bus_put x b)) (pending b @ events_of x)"
    by (simp add: pending_def bus_put_content)
  show "\<not> queue_full b \<Longrightarrow> pending (bus_put x b) = pending b @ events_of x"
    using assms by (simp add: pending_def bus_put_content)
qed

lemma pending_flush:
  assumes "queue_ok b"
  shows "subseq (pending (flush_batch b)) (pending b)"
    and "room (Suc n) b \<Longrightarrow> pending (flush_batch b) = pending b"
proof -
  let ?b = "b\<lparr>batch := []\<rparr>"
  have p: "pending ?b @ batch b = pending b" by (simp add: pending_def)
  have ok: "queue_ok ?b" using assms by (simp add: queue_ok_def)
  show "subseq (pending (flush_batch b)) (pending b)"
    using pending_put(1)[OF _ ok, of "Batch (batch b)"] p by (auto simp: flush_batch_def)
  show "room (Suc n) b \<Longrightarrow> pending (flush_batch b) = pending b"
    using pending_put(2)[OF _ ok, of "Batch (batch b)"] p room_not_full[of n b]
    by (auto simp: flush_batch_def queue_full_def)
qed

lemma room_ok: "room n b \<Longrightarrow> queue_ok b"
  by (auto simp: room_def queue_ok_def)

lemma room_put: "room (Suc n) b \<Longrightarrow> room n (bus_put x b)"
  using room_not_full[of n b] room_ok[of "Suc n" b] by (auto simp: room_def bus_put_content)

lemma room_flush: "room (Suc n) b \<Longrightarrow> room n (flush_batch b)"
  using room_put[of n "b\<lparr>batch := []\<rparr>" "Batch (batch b)"] room_mono[of "Suc n" b n]
  by (auto simp: flush_batch_def room_def)

lemma pending_enqueue:
  shows "queue_ok b \<Longrightarrow> subseq (pending (enqueue e b)) (pending b @ [e])"
    and "room (Suc (Suc n)) b \<Longrightarrow> pending (enqueue e b) = pending b @ [e]"
    and "room (Suc (Suc n)) b \<Longrightarrow> room n (enqueue e b)"
proof -
  let ?hv = "event_type e \<in> set high_volume_types"
  let ?b1 = "b\<lparr>batch := batch b @ [e]\<rparr>"
  let ?b2 = "if batch b \<noteq> [] then flush_batch b else b"
  have p1: "pending ?b1 = pending b @ [e]" by (simp add: pending_def)
  have hv: "enqueue e b = (if high_volume_batch b \<le> int (length (batch b) + 1) then flush_batch ?b1 else ?b1)"
    if ?hv using that by (simp add: enqueue_def Let_def)
  have nhv: "enqueue e b = bus_put (Single e) ?b2" if "\<not> ?hv"
    using that by (simp add: enqueue_def Let_def)
  have b2: "batch ?b2 = []" by simp
  show "subseq (pending (enqueue e b)) (pending b @ [e])" if ok: "queue_ok b"
  proof -
    have ok1: "queue_ok ?b1" using ok by (simp add: queue_ok_def)
    have ok2: "queue_ok ?b2" using ok by (auto intro: inv_intros)
    have "subseq (pending ?b2 @ [e]) (pending b @ [e])"
      using pending_flush(1)[OF ok] by (intro list_emb_append_mono) auto
    then show ?thesis
      using pending_flush(1)[OF ok1] p1 hv nhv
        subseq_order.trans[OF pending_put(1)[OF b2 ok2, of "Single e", simplified]]
      by (cases ?hv) auto
  qed
  assume r: "room (Suc (Suc n)) b"
  then have r1: "room (Suc (Suc n)) ?b1" by (simp add: room_def)
  have r2: "room (Suc n) ?b2" using room_flush[OF r] room_mono[OF r, of "Suc n"] by simp
  have eq2: "pending ?b2 = pending b" using pending_flush(2)[OF room_ok[OF r] r] by simp
  show "pending (enqueue e b) = pending b @ [e]"
    using pending_flush(2)[OF room_ok[OF r1] r1] p1 hv nhv eq2
      pending_put(2)[OF b2 room_ok[OF r2] room_not_full[OF r2], of "Single e"]
    by (cases ?hv) (simp_all split del: if_split, simp split: if_split)
  show "room n (enqueue e b)"
    using hv nhv room_put[OF r2, of "Single e"] room_mono[OF room_flush[OF r1], of n] room_mono[OF r1, of n]
    by (cases ?hv) (simp_all split del: if_split, simp split: if_split)
qed


section \<open>Runs of the bus\<close>

datatype bus_op = Publish event | Consume | Flush | PublishMany "event list"

fun bus_run :: "bus_op list \<Rightarrow> bus \<Rightarrow> event list \<times> bus" where
  \<comment> \<open>the events the consumers received, and the final bus\<close>
  "bus_run [] b = ([], b)"
| "bus_run (Publish e # ops) b = bus_run ops (snd (publish e b))"
| "bus_run (PublishMany es # ops) b = bus_run ops (snd (publish_many es b))"
| "bus_run (Flush # ops) b = bus_run ops (flush b)"
| "bus_run (Consume # ops) b =
     (let (r, b1) = consume b; (out, b2) = bus_run ops b1
      in ((case r of None \<Rightarrow> [] | Some es \<Rightarrow> es) @ out, b2))"

fun published :: "bus_op list \<Rightarrow> event list" where
  "published [] = []"
| "published (Publish e # ops) = e # published ops"
| "published (PublishMany es # ops) = es @ published ops"
| "published (_ # ops) = published ops"

fun deliveries :: "bus_op list \<Rightarrow> nat" where
  \<comment> \<open>an upper bound on the queue slots the operations can take\<close>
  "deliveries [] = 0"
| "deliveries (Publish e # ops) = 2 + deliveries ops"
| "deliveries (PublishMany es # ops) = 2 * length es + deliveries ops"
| "deliveries (Flush # ops) = 1 + deliveries ops"
| "deliveries (Consume # ops) = deliveries ops"

lemma persist_fields [simp]:
  "bus_queue (snd (persist e b)) = bus_queue b" "queue_size (snd (persist e b)) = queue_size b"
  "batch (snd (persist e b)) = batch b" "high_volume_batch (snd (persist e b)) = high_volume_batch b"
  "rows (snd (persist e b)) = rows b @ [(next_id b, e)]" "next_id (snd (persist e b)) = next_id b + 1"
  "fst (persist e b) = next_id b"
  by (simp_all add: persist_def)

lemma publish_enqueue: "snd (publish e b) = enqueue e (snd (persist e b))"
  by (simp add: publish_def case_prod_beta Let_def)

lemma pending_persist [simp]: "pending (snd (persist e b)) = pending b"
  by (simp add: pending_def)

lemma queue_ok_persist [simp]: "queue_ok (snd (persist e b)) = queue_ok b"
  by (rule queue_ok_cong) simp_all

lemma room_persist [simp]: "room n (snd (persist e b)) = room n b"
  by (simp add: room_def)

lemma persist_all:
  "pending (foldl (\<lambda>b e. snd (persist e b)) b es) = pending b"
  "queue_ok (foldl (\<lambda>b e. snd (persist e b)) b es) = queue_ok b"
  "room n (foldl (\<lambda>b e. snd (persist e b)) b es) = room n b"
  by (induction es arbitrary: b) simp_all

lemma enqueue_all:
  "queue_ok b \<Longrightarrow> queue_ok (foldl (\<lambda>b e. enqueue e b) b es) \<and>
     subseq (pending (foldl (\<lambda>b e. enqueue e b) b es)) (pending b @ es)"
proof (induction es arbitrary: b)
  case (Cons e es)
  have "subseq (pending (enqueue e b) @ es) ((pending b @ [e]) @ es)"
    by (intro list_emb_append_mono pending_enqueue Cons.prems) simp
  with Cons.IH[OF enqueue_ok[OF Cons.prems], of e] show ?case
    by (auto intro: subseq_order.trans)
qed simp

lemma enqueue_all_room:
  "room (2 * length es + n) b \<Longrightarrow> pending (foldl (\<lambda>b e. enqueue e b) b es) = pending b @ es
     \<and> room n (foldl (\<lambda>b e. enqueue e b) b es)"
  by (induction es arbitrary: b) (simp_all add: pending_enqueue)

lemma consume_pending:
  assumes "queue_ok b"
  shows "(case fst (consume b) of None \<Rightarrow> [] | Some es \<Rightarrow> es) @ pending (snd (consume b)) = pending b"
    and "queue_ok (snd (consume b))" and "room n b \<Longrightarrow> room n (snd (consume b))"
  using assms
  by (cases "bus_queue b"; cases "hd (bus_queue b)";
      auto simp: consume_def get_nowait_def pending_def queue_ok_def room_def)+

lemma bus_run_subseq:
  "queue_ok b \<Longrightarrow>
     subseq (fst (bus_run ops b) @ pending (snd (bus_run ops b))) (pending b @ published ops)"
proof (induction ops arbitrary: b)
  case (Cons op ops)
  have step: "subseq (fst (bus_run ops b1) @ pending (snd (bus_run ops b1))) (pending b @ xs @ published ops)"
    if "queue_ok b1" "subseq (pending b1) (pending b @ xs)" for b1 xs
  proof -
    have "subseq (pending b1 @ published ops) ((pending b @ xs) @ published ops)"
      using that(2) by (intro list_emb_append_mono) simp_all
    with Cons.IH[OF that(1)] show ?thesis by (auto intro: subseq_order.trans)
  qed
  show ?case
  proof (cases op)
    case (Publish e)
    then show ?thesis
      using step[of "snd (publish e b)" "[e]"] pending_enqueue(1)[of "snd (persist e b)" e]
        enqueue_ok[of "snd (persist e b)" e] Cons.prems by (simp add: publish_enqueue)
  next
    case (PublishMany es)
    then show ?thesis
      using step[of "snd (publish_many es b)" es] Cons.prems
        enqueue_all[of "foldl (\<lambda>b e. snd (persist e b)) b es" es]
      by (simp add: publish_many_def Let_def persist_all)
  next
    case Flush
    then show ?thesis
      using step[of "flush b" "[]"] Cons.prems pending_flush(1) flush_batch_ok by (simp add: flush_def)
  next
    case Consume
    note c = consume_pending[OF Cons.prems]
    from Consume show ?thesis
      using Cons.IH[OF c(2)] list_emb_append_mono[OF subseq_order.refl Cons.IH[OF c(2)]]
      by (simp add: case_prod_beta Let_def c(1)[symmetric])
  qed
qed simp

lemma bus_run_room:
  "room (deliveries ops + n) b \<Longrightarrow>
     fst (bus_run ops b) @ pending (snd (bus_run ops b)) = pending b @ published ops"
proof (induction ops arbitrary: b)
  case (Cons op ops)
  note ok = room_ok[OF Cons.prems]
  show ?case
  proof (cases op)
    case (Publish e)
    with Cons show ?thesis
      using pending_enqueue(2,3)[of "deliveries ops + n" "snd (persist e b)" e]
      by (simp add: publish_enqueue)
  next
    case (PublishMany es)
    with Cons show ?thesis
      using enqueue_all_room[of es "deliveries ops + n" "foldl (\<lambda>b e. snd (persist e b)) b es"]
      by (simp add: publish_many_def Let_def persist_all add.assoc)
  next
    case Flush
    with Cons show ?thesis
      using pending_flush(2)[OF ok, of "deliveries ops + n"] room_flush[of "deliveries ops + n" b]
      by (simp add: flush_def)
  next
    case Consume
    with Cons.prems Cons.IH[OF consume_pending(3)[OF ok]] consume_pending(1)[OF ok] show ?thesis
      by (simp add: case_prod_beta Let_def)
  qed
qed simp

section \<open>Rows and invariants\<close>

definition rows_inv :: "bus \<Rightarrow> bool" where
  "rows_inv b \<longleftrightarrow> sorted_wrt (<) (map fst (rows b)) \<and> (\<forall>r \<in> set (rows b). fst r < next_id b)"

definition batch_inv :: "bus \<Rightarrow> bool" where
  "batch_inv b \<longleftrightarrow> 0 < high_volume_batch b \<and> int (length (batch b)) < high_volume_batch b
     \<and> (\<forall>e \<in> set (batch b). event_type e \<in> set high_volume_types)"

lemma rows_inv_persist [inv_intros]: "rows_inv b \<Longrightarrow> rows_inv (snd (persist e b))"
  by (auto simp: rows_inv_def sorted_wrt_append)

lemma rows_inv_cong: "rows b' = rows b \<Longrightarrow> next_id b' = next_id b \<Longrightarrow> rows_inv b' = rows_inv b"
  by (simp add: rows_inv_def)

lemma batch_inv_enqueue [inv_intros]: "batch_inv b \<Longrightarrow> batch_inv (enqueue e b)"
  by (auto simp: batch_inv_def enqueue_def Let_def)

lemma batch_inv_persist [simp]: "batch_inv (snd (persist e b)) = batch_inv b"
  by (simp add: batch_inv_def)


lemma enqueue_all_rows:
  "rows (foldl (\<lambda>b e. enqueue e b) b es) = rows b"
  "next_id (foldl (\<lambda>b e. enqueue e b) b es) = next_id b"
  "batch_inv b \<Longrightarrow> batch_inv (foldl (\<lambda>b e. enqueue e b) b es)"
  by (induction es arbitrary: b) (simp_all add: batch_inv_enqueue)

lemma persist_all_rows:
  "map snd (rows (foldl (\<lambda>b e. snd (persist e b)) b es)) = map snd (rows b) @ es"
  "rows_inv b \<Longrightarrow> rows_inv (foldl (\<lambda>b e. snd (persist e b)) b es)"
  "batch_inv (foldl (\<lambda>b e. snd (persist e b)) b es) = batch_inv b"
  by (induction es arbitrary: b) (simp_all add: rows_inv_persist)

lemma consume_fields [simp]:
  "rows (snd (consume b)) = rows b" "next_id (snd (consume b)) = next_id b"
  "batch_inv (snd (consume b)) = batch_inv b"
  by (auto simp: consume_def get_nowait_def batch_inv_def split: option.split item.split list.splits)

lemma flush_batch_inv: "batch_inv b \<Longrightarrow> batch_inv (flush_batch b)"
  by (simp add: batch_inv_def)

lemma publish_many_rows:
  "map snd (rows (snd (publish_many es b))) = map snd (rows b) @ es"
  "rows_inv b \<Longrightarrow> rows_inv (snd (publish_many es b))"
  "batch_inv b \<Longrightarrow> batch_inv (snd (publish_many es b))"
proof -
  let ?p = "foldl (\<lambda>b e. snd (persist e b)) b es"
  show "map snd (rows (snd (publish_many es b))) = map snd (rows b) @ es"
    by (simp add: publish_many_def Let_def enqueue_all_rows persist_all_rows)
  show "rows_inv b \<Longrightarrow> rows_inv (snd (publish_many es b))"
    using persist_all_rows(2)[of b es] rows_inv_cong[of "foldl (\<lambda>b e. enqueue e b) ?p es" ?p]
    by (simp add: publish_many_def Let_def enqueue_all_rows)
  show "batch_inv b \<Longrightarrow> batch_inv (snd (publish_many es b))"
    by (simp add: publish_many_def Let_def enqueue_all_rows(3) persist_all_rows(3))
qed

lemma bus_run_rows:
  "map snd (rows (snd (bus_run ops b))) = map snd (rows b) @ published ops"
  "rows_inv b \<Longrightarrow> rows_inv (snd (bus_run ops b))"
  "batch_inv b \<Longrightarrow> batch_inv (snd (bus_run ops b))"
proof (induction ops arbitrary: b)
  case (Cons op ops)
  {
    case 1
    show ?case
      by (cases op) (simp_all add: Cons.IH(1) publish_enqueue publish_many_rows flush_def case_prod_beta Let_def)
  next
    case 2
    then show ?case
      using rows_inv_cong[of "enqueue e (snd (persist e b))" "snd (persist e b)" for e]
        rows_inv_cong[of "flush_batch b" b] rows_inv_cong[of "snd (consume b)" b]
      by (cases op)
        (auto intro!: Cons.IH(2) simp: publish_enqueue publish_many_rows flush_def case_prod_beta
          Let_def rows_inv_persist)
  next
    case 3
    then show ?case
      by (cases op)
        (auto intro!: Cons.IH(3) simp: publish_enqueue publish_many_rows flush_def case_prod_beta
          Let_def batch_inv_enqueue flush_batch_inv)
  }
qed simp_all

section \<open>Properties\<close>

text \<open>Whatever the interleaving of publishers, flushes and consumers, and however small the
  queue, the events that consumers received, followed by those still queued or buffered, are a
  subsequence of the published ones in publication order: none is reordered, duplicated or made up.\<close>

lemma bus_keeps_order:
  "subseq (fst (bus_run ops (new_bus qs hv)) @ pending (snd (bus_run ops (new_bus qs hv)))) (published ops)"
proof -
  have "queue_ok (new_bus qs hv)" by (auto simp: queue_ok_def new_bus_def)
  moreover have "pending (new_bus qs hv) = []" by (simp add: pending_def new_bus_def)
  ultimately show ?thesis using bus_run_subseq[of "new_bus qs hv" ops] by simp
qed

text \<open>C2: When the queue is unbounded, or large enough for the deliveries of the run, every
  published event reaches the consumers exactly once and in order, batching included: received
  followed by still pending is exactly what was published.\<close>

theorem bus_delivers_everything:
  assumes "qs \<le> 0 \<or> int (deliveries ops) \<le> qs"
  shows "fst (bus_run ops (new_bus qs hv)) @ pending (snd (bus_run ops (new_bus qs hv))) = published ops"
proof -
  have "room (deliveries ops + 0) (new_bus qs hv)" using assms by (auto simp: room_def new_bus_def)
  from bus_run_room[OF this] show ?thesis by (simp add: pending_def new_bus_def)
qed

theorem bus_delivers_everything_witness:
  "fst (bus_run [Publish sample_event, Consume] (new_bus 2 50)) @
     pending (snd (bus_run [Publish sample_event, Consume] (new_bus 2 50))) = [sample_event]"
  using bus_delivers_everything[of 2 "[Publish sample_event, Consume]" 50] by simp

text \<open>Every published event is stored as one row, in publication order and under strictly
  increasing row ids, dropped deliveries included; and the high-volume buffer always stays below
  the batch size and holds high-volume events only.\<close>

lemma bus_persists_everything:
  assumes "0 < hv"
  shows "map snd (rows (snd (bus_run ops (new_bus qs hv)))) = published ops
    \<and> sorted_wrt (<) (map fst (rows (snd (bus_run ops (new_bus qs hv)))))
    \<and> batch_inv (snd (bus_run ops (new_bus qs hv)))"
proof -
  have "rows_inv (new_bus qs hv)" "batch_inv (new_bus qs hv)" "rows (new_bus qs hv) = []"
    using assms by (simp_all add: rows_inv_def batch_inv_def new_bus_def)
  then show ?thesis using bus_run_rows[where ops = ops and b = "new_bus qs hv"] by (simp add: rows_inv_def)
qed

lemma bus_persists_everything_witness:
  "map snd (rows (snd (bus_run [Publish sample_event] (new_bus 1 50)))) = [sample_event]"
  using bus_persists_everything[of 50 "[Publish sample_event]" 1] by simp

end
