(* ===== verification/Files.thy ===== *)
theory Files
  imports Prelude
begin

text \<open>
  The file system the components work on. A path is text; the operating system's part of a call
  is a record \<open>os\<close> of parameters that every operation receives, so that it may differ from one call
  to the next: what a path resolves to (\<open>Path.resolve\<close>), which paths are symbolic links, and
  whether reading, writing, removing, creating directories or changing permissions raises (with the
  text of the exception). The state \<open>fs\<close> maps canonical paths to files, with the bytes, the POSIX
  mode, the Windows attributes and a deny-execute entry. Bytes are 8-bit characters.
  A write either happens completely or raises and changes nothing. Removing a symbolic link leaves
  the file it points to.
\<close>

type_synonym bytes = string

section \<open>Paths\<close>

definition split_on :: "(char \<Rightarrow> bool) \<Rightarrow> string \<Rightarrow> string list" where
  "split_on p s =
     foldr (\<lambda>c parts. if p c then [] # parts else (c # hd parts) # tl parts) s [[]]"

definition path_parts :: "char list \<Rightarrow> string \<Rightarrow> string list" where
  "path_parts seps s = filter (\<lambda>x. x \<noteq> [] \<and> x \<noteq> ''.'') (split_on (\<lambda>c. c \<in> set seps) s)"

definition path_name :: "char list \<Rightarrow> string \<Rightarrow> string" where
  \<comment> \<open>\<open>Path(s).name\<close>\<close>
  "path_name seps s = (if path_parts seps s = [] then [] else List.last (path_parts seps s))"

definition path_join :: "char list \<Rightarrow> string \<Rightarrow> string \<Rightarrow> string" where
  \<comment> \<open>\<open>str(Path(d) / n)\<close> for a plain name \<open>n\<close>\<close>
  "path_join seps d n =
     (if d = [] then n else if List.last d \<in> set seps then d @ n else d @ [hd seps] @ n)"

definition parent_of :: "char list \<Rightarrow> string \<Rightarrow> string" where
  \<comment> \<open>\<open>str(Path(s).parent)\<close> of a path with at least one separator\<close>
  "parent_of seps s =
     rev (dropWhile (\<lambda>c. c \<in> set seps) (dropWhile (\<lambda>c. c \<notin> set seps) (rev s)))"

section \<open>Files\<close>

record fnode =
  content :: bytes
  mode :: int
  attrs :: int
  deny_exec :: bool

definition new_file :: fnode where
  "new_file = \<lparr>content = [], mode = 420, attrs = 0, deny_exec = False\<rparr>"

record fs =
  files :: "string \<rightharpoonup> fnode"
  dirs :: "string set"

record os =
  seps :: "char list"
  resolve :: "string \<Rightarrow> string option"
  is_link :: "string \<Rightarrow> bool"
  read_err :: "string \<Rightarrow> string option"
  write_err :: "string \<Rightarrow> int \<Rightarrow> string option"
  unlink_err :: "string \<Rightarrow> string option"
  mkdir_err :: "string \<Rightarrow> string option"
  chmod_err :: "string \<Rightarrow> string option"
  attr_api :: bool
  attr_ok :: "string \<Rightarrow> bool"
  ace_ok :: "string \<Rightarrow> bool"

definition find_file :: "os \<Rightarrow> string \<Rightarrow> fs \<Rightarrow> (string \<times> fnode) option" where
  "find_file os p s =
     (case resolve os p of
        None \<Rightarrow> None
      | Some c \<Rightarrow> (case files s c of None \<Rightarrow> None | Some f \<Rightarrow> Some (c, f)))"

definition is_file :: "os \<Rightarrow> string \<Rightarrow> fs \<Rightarrow> bool" where
  "is_file os p s = (find_file os p s \<noteq> None)"

definition path_exists :: "os \<Rightarrow> string \<Rightarrow> fs \<Rightarrow> bool" where
  "path_exists os p s =
     (case resolve os p of None \<Rightarrow> False | Some c \<Rightarrow> files s c \<noteq> None \<or> c \<in> dirs s)"

definition read_bytes :: "os \<Rightarrow> string \<Rightarrow> fs \<Rightarrow> string + bytes" where
  "read_bytes os p s =
     (case find_file os p s of
        None \<Rightarrow> Inl ''not found''
      | Some (c, f) \<Rightarrow> (case read_err os c of Some e \<Rightarrow> Inl e | None \<Rightarrow> Inr (content f)))"

definition put_file :: "string \<Rightarrow> fnode \<Rightarrow> fs \<Rightarrow> fs" where
  "put_file c f s = s\<lparr>files := (files s)(c \<mapsto> f)\<rparr>"

definition write_bytes :: "os \<Rightarrow> string \<Rightarrow> bytes \<Rightarrow> fs \<Rightarrow> string + fs" where
  "write_bytes os p data s =
     (case resolve os p of
        None \<Rightarrow> Inl ''unresolvable''
      | Some c \<Rightarrow>
          let f = (case files s c of None \<Rightarrow> new_file | Some f \<Rightarrow> f)
          in case write_err os c (attrs f) of
               Some e \<Rightarrow> Inl e
             | None \<Rightarrow> Inr (put_file c (f\<lparr>content := data\<rparr>) s))"

definition make_dirs :: "os \<Rightarrow> string \<Rightarrow> fs \<Rightarrow> string + fs" where
  \<comment> \<open>\<open>mkdir(parents=True, exist_ok=True)\<close>\<close>
  "make_dirs os p s =
     (case resolve os p of
        None \<Rightarrow> Inl ''unresolvable''
      | Some c \<Rightarrow>
          (case mkdir_err os c of
             Some e \<Rightarrow> Inl e
           | None \<Rightarrow> Inr (s\<lparr>dirs := insert c (dirs s)\<rparr>)))"

definition unlink :: "os \<Rightarrow> string \<Rightarrow> fs \<Rightarrow> string + fs" where
  \<comment> \<open>\<open>unlink(missing_ok=True)\<close>\<close>
  "unlink os p s =
     (if is_link os p then Inr s
      else case find_file os p s of
             None \<Rightarrow> Inr s
           | Some (c, f) \<Rightarrow>
               (case unlink_err os c of
                  Some e \<Rightarrow> Inl e
                | None \<Rightarrow> Inr (s\<lparr>files := (files s)(c := None)\<rparr>)))"

definition chmod :: "os \<Rightarrow> string \<Rightarrow> (int \<Rightarrow> int) \<Rightarrow> fs \<Rightarrow> string + fs" where
  \<comment> \<open>\<open>p.chmod(g(p.stat().st_mode))\<close>\<close>
  "chmod os p g s =
     (case find_file os p s of
        None \<Rightarrow> Inl ''not found''
      | Some (c, f) \<Rightarrow>
          (case chmod_err os c of
             Some e \<Rightarrow> Inl e
           | None \<Rightarrow> Inr (put_file c (f\<lparr>mode := g (mode f)\<rparr>) s)))"

definition set_file_attributes :: "os \<Rightarrow> string \<Rightarrow> int \<Rightarrow> fs \<Rightarrow> fs" where
  \<comment> \<open>\<open>SetFileAttributesW\<close>, whose failure is not an exception\<close>
  "set_file_attributes os p v s =
     (case find_file os p s of
        None \<Rightarrow> s
      | Some (c, f) \<Rightarrow> if attr_ok os c then put_file c (f\<lparr>attrs := v\<rparr>) s else s)"

section \<open>Facts on files\<close>

definition bytes_at :: "fs \<Rightarrow> string \<Rightarrow> bytes option" where
  "bytes_at s c = map_option content (files s c)"

lemmas file_defs = find_file_def is_file_def path_exists_def read_bytes_def write_bytes_def
  make_dirs_def unlink_def chmod_def set_file_attributes_def put_file_def bytes_at_def Let_def

lemma bytes_at_put [simp]: "bytes_at (put_file c f s) = (bytes_at s)(c \<mapsto> content f)"
  by (auto simp: put_file_def bytes_at_def)

lemma dirs_put [simp]: "dirs (put_file c f s) = dirs s"
  by (simp add: put_file_def)

lemma bytes_at_attributes [simp]: "bytes_at (set_file_attributes os p v s) = bytes_at s"
  by (auto simp: file_defs fun_eq_iff split: option.splits)

lemma write_bytes_contents:
  assumes "write_bytes os p data s = Inr s'" and "resolve os p = Some c"
  shows "bytes_at s' = (bytes_at s)(c \<mapsto> data)"
  using assms by (auto simp: file_defs fun_eq_iff split: option.splits)

lemma write_bytes_Inr_resolves:
  "write_bytes os p data s = Inr s' \<Longrightarrow> \<exists>c. resolve os p = Some c"
  by (auto simp: write_bytes_def split: option.splits)

lemma unlink_contents:
  assumes "unlink os p s = Inr s'"
  shows "bytes_at s' = bytes_at s
    \<or> (\<exists>c. resolve os p = Some c \<and> bytes_at s' = (bytes_at s)(c := None))"
  using assms by (auto simp: file_defs fun_eq_iff split: option.splits if_splits)

lemma make_dirs_contents: "make_dirs os p s = Inr s' \<Longrightarrow> bytes_at s' = bytes_at s"
  by (auto simp: file_defs fun_eq_iff split: option.splits)

lemma chmod_contents: "chmod os p g s = Inr s' \<Longrightarrow> bytes_at s' = bytes_at s"
  by (auto simp: file_defs fun_eq_iff split: option.splits)

lemma read_bytes_at:
  "read_bytes os p s = Inr d \<Longrightarrow> resolve os p = Some c \<Longrightarrow> bytes_at s c = Some d"
  by (auto simp: file_defs split: option.splits)

end
