(* ===== verification/Messages.thy ===== *)
theory Messages
  imports Files
begin

text \<open>
  \<open>kernel/messages.py\<close>: the structures exchanged with the minifilter, as \<open>ctypes\<close> lays them out in
  memory, with natural alignment and little-endian integers. Layouts are computed from the field lists;
  the lemmas evaluate the sizes and offsets and show that reading a written structure gives it back.
\<close>

section \<open>Layouts\<close>

datatype ctype = ULONG | ULONGLONG | LONGLONG | WCHARS nat | STRUCT "(string \<times> ctype) list"

definition round_up :: "nat \<Rightarrow> nat \<Rightarrow> nat" where
  "round_up n a = (n + a - 1) div a * a"

fun align_of :: "ctype \<Rightarrow> nat" where
  "align_of ULONG = 4"
| "align_of ULONGLONG = 8"
| "align_of LONGLONG = 8"
| "align_of (WCHARS n) = 2"
| "align_of (STRUCT fs) = foldr (\<lambda>(n, t) a. max (align_of t) a) fs 1"

fun size_of :: "ctype \<Rightarrow> nat" where
  "size_of ULONG = 4"
| "size_of ULONGLONG = 8"
| "size_of LONGLONG = 8"
| "size_of (WCHARS n) = 2 * n"
| "size_of (STRUCT fs) =
     round_up (foldl (\<lambda>off (n, t). round_up off (align_of t) + size_of t) 0 fs) (align_of (STRUCT fs))"

fun offset_from :: "nat \<Rightarrow> (string \<times> ctype) list \<Rightarrow> string \<Rightarrow> nat option" where
  "offset_from off [] f = None"
| "offset_from off ((n, t) # fs) f =
     (let o1 = round_up off (align_of t)
      in if n = f then Some o1 else offset_from (o1 + size_of t) fs f)"

definition offset_of :: "(string \<times> ctype) list \<Rightarrow> string \<Rightarrow> nat" where
  "offset_of fs f = the (offset_from 0 fs f)"

section \<open>Constants and structures\<close>

definition sentinel_max_path :: nat where "sentinel_max_path = 520"
definition msg_add_block :: "32 word" where "msg_add_block = 1"
definition msg_remove_block :: "32 word" where "msg_remove_block = 2"
definition msg_query_status :: "32 word" where "msg_query_status = 3"
definition msg_block_event :: "32 word" where "msg_block_event = 10"

definition sentinel_port_name :: string where
  "sentinel_port_name = [CHR 0x5C] @ ''SentinelFilterPort''"

definition sentinel_command :: "(string \<times> ctype) list" where
  "sentinel_command = [(''type'', ULONG), (''path'', WCHARS 520)]"

definition sentinel_reply :: "(string \<times> ctype) list" where
  "sentinel_reply = [(''status'', ULONG), (''blocklist_count'', ULONG), (''blocks_total'', ULONG)]"

definition large_integer :: "(string \<times> ctype) list" where
  "large_integer = [(''QuadPart'', LONGLONG)]"

definition sentinel_block_event :: "(string \<times> ctype) list" where
  "sentinel_block_event =
     [(''type'', ULONG), (''path'', WCHARS 520), (''pid'', ULONG), (''tid'', ULONG),
      (''timestamp'', STRUCT large_integer)]"

definition filter_message_header :: "(string \<times> ctype) list" where
  "filter_message_header = [(''ReplyLength'', ULONG), (''MessageId'', ULONGLONG)]"

definition sentinel_get_message :: "(string \<times> ctype) list" where
  "sentinel_get_message =
     [(''header'', STRUCT filter_message_header), (''event'', STRUCT sentinel_block_event)]"

lemma command_layout [simp]:
  "size_of (STRUCT sentinel_command) = 1044" "offset_of sentinel_command ''path'' = 4"
  "offset_of sentinel_command ''type'' = 0"
  by (simp_all add: sentinel_command_def offset_of_def round_up_def)

lemma reply_layout [simp]:
  "size_of (STRUCT sentinel_reply) = 12" "offset_of sentinel_reply ''status'' = 0"
  "offset_of sentinel_reply ''blocklist_count'' = 4" "offset_of sentinel_reply ''blocks_total'' = 8"
  by (simp_all add: sentinel_reply_def offset_of_def round_up_def)

text \<open>The time of an event is aligned to eight bytes, not to four: four bytes of padding precede it.\<close>

lemma event_layout [simp]:
  "size_of (STRUCT sentinel_block_event) = 1064" "offset_of sentinel_block_event ''type'' = 0"
  "offset_of sentinel_block_event ''path'' = 4" "offset_of sentinel_block_event ''pid'' = 1044"
  "offset_of sentinel_block_event ''tid'' = 1048"
  "offset_of sentinel_block_event ''timestamp'' = 1056"
  by (simp_all add: sentinel_block_event_def large_integer_def offset_of_def round_up_def)

lemma get_message_layout [simp]:
  "size_of (STRUCT sentinel_get_message) = 1080" "offset_of sentinel_get_message ''event'' = 16"
  "offset_of filter_message_header ''MessageId'' = 8"
  by (simp_all add: sentinel_get_message_def filter_message_header_def sentinel_block_event_def
      large_integer_def offset_of_def round_up_def)

section \<open>Integers and text in memory\<close>

fun le_bytes :: "nat \<Rightarrow> nat \<Rightarrow> bytes" where
  "le_bytes 0 x = []"
| "le_bytes (Suc n) x = char_of (x mod 256) # le_bytes n (x div 256)"

fun le_nat :: "bytes \<Rightarrow> nat" where
  "le_nat [] = 0"
| "le_nat (c # s) = of_char c + 256 * le_nat s"

definition wchars :: "nat \<Rightarrow> string \<Rightarrow> bytes" where
  \<comment> \<open>a \<open>WCHAR\<close> array of \<open>n\<close> elements holding the text, the rest zero\<close>
  "wchars n s = concat (map (\<lambda>c. [c, CHR 0x00]) s) @ replicate (2 * (n - length s)) (CHR 0x00)"

fun read_wchars :: "bytes \<Rightarrow> string" where
  \<comment> \<open>up to the first zero element\<close>
  "read_wchars (c # d # s) =
     (if c = CHR 0x00 \<and> d = CHR 0x00 then [] else c # read_wchars s)"
| "read_wchars s = []"

definition field :: "nat \<Rightarrow> nat \<Rightarrow> bytes \<Rightarrow> bytes" where
  "field off n buf = take n (drop off buf)"

lemma length_le_bytes [simp]: "length (le_bytes n x) = n"
  by (induction n arbitrary: x) auto

lemma le_nat_bytes: "le_nat (le_bytes n x) = x mod 256 ^ n"
proof (induction n arbitrary: x)
  case (Suc n)
  have "x mod 256 + 256 * (x div 256 mod 256 ^ n) = x mod (256 * 256 ^ n)"
    by (simp add: mod_mult2_eq)
  with Suc show ?case by (simp add: of_char_char_of_small)
qed simp

lemma length_wchars: "length s \<le> n \<Longrightarrow> length (wchars n s) = 2 * n"
  by (induction s arbitrary: n) (auto simp: wchars_def length_concat o_def sum_list_triv)

lemma read_zeros [simp]: "read_wchars (replicate n (CHR 0x00)) = []"
  by (cases n; cases "n - 1") auto

lemma read_wchars_wchars: "CHR 0x00 \<notin> set s \<Longrightarrow> read_wchars (wchars n s) = s"
proof -
  have "CHR 0x00 \<notin> set s \<Longrightarrow>
      read_wchars (concat (map (\<lambda>c. [c, CHR 0x00]) s) @ replicate k (CHR 0x00)) = s" for k
    by (induction s) auto
  then show "CHR 0x00 \<notin> set s \<Longrightarrow> read_wchars (wchars n s) = s" by (simp add: wchars_def)
qed

section \<open>Commands and events\<close>

record command =
  cmd_type :: "32 word"
  cmd_path :: string

record block_event =
  ev_path :: string
  ev_pid :: "32 word"
  ev_tid :: "32 word"
  ev_time :: "64 word"

definition encode_command :: "command \<Rightarrow> bytes" where
  "encode_command c = le_bytes 4 (unat (cmd_type c)) @ wchars 520 (cmd_path c)"

definition decode_command :: "bytes \<Rightarrow> command" where
  "decode_command buf =
     \<lparr>cmd_type = of_nat (le_nat (field (offset_of sentinel_command ''type'') 4 buf)),
      cmd_path = read_wchars (field (offset_of sentinel_command ''path'') 1040 buf)\<rparr>"

definition encode_get_message :: "64 word \<Rightarrow> block_event \<Rightarrow> bytes" where
  \<comment> \<open>the buffer as the driver fills it, with the header of the filter manager\<close>
  "encode_get_message mid e =
     le_bytes 4 0 @ le_bytes 4 0 @ le_bytes 8 (unat mid) @
     le_bytes 4 (unat msg_block_event) @ wchars 520 (ev_path e) @ le_bytes 4 (unat (ev_pid e)) @
     le_bytes 4 (unat (ev_tid e)) @ le_bytes 4 0 @ le_bytes 8 (unat (ev_time e))"

definition decode_get_message :: "bytes \<Rightarrow> block_event" where
  "decode_get_message buf =
     (let base = offset_of sentinel_get_message ''event'';
          fld = (\<lambda>f n. field (base + offset_of sentinel_block_event f) n buf)
      in \<lparr>ev_path = read_wchars (fld ''path'' 1040),
          ev_pid = of_nat (le_nat (fld ''pid'' 4)),
          ev_tid = of_nat (le_nat (fld ''tid'' 4)),
          ev_time = of_nat (le_nat (fld ''timestamp'' 8))\<rparr>)"

lemma le_word32 [simp]: "(of_nat (le_nat (le_bytes 4 (unat (w :: 32 word)))) :: 32 word) = w"
proof -
  have "unat w < 256 ^ 4" using unsigned_less[of w] by simp
  then show ?thesis by (simp add: le_nat_bytes)
qed

lemma le_word64 [simp]: "(of_nat (le_nat (le_bytes 8 (unat (w :: 64 word)))) :: 64 word) = w"
proof -
  have "unat w < 256 ^ 8" using unsigned_less[of w] by simp
  then show ?thesis by (simp add: le_nat_bytes)
qed

lemma field_skip: "length a \<le> off \<Longrightarrow> field off n (a @ b) = field (off - length a) n b"
  by (simp add: field_def)

lemma field_here: "length a = n \<Longrightarrow> field 0 n (a @ b) = a"
  by (simp add: field_def)

lemma field_all: "length a = n \<Longrightarrow> field 0 n a = a"
  by (simp add: field_def)

section \<open>Properties\<close>

text \<open>A command whose path holds no zero character and fits the path array is 1044 bytes long, and
  reading it gives its type and path back.\<close>
lemma command_round_trip:
  assumes "CHR 0x00 \<notin> set (cmd_path c)" and "length (cmd_path c) < sentinel_max_path"
  shows "decode_command (encode_command c) = c
    \<and> length (encode_command c) = size_of (STRUCT sentinel_command)"
proof -
  have l: "length (wchars 520 (cmd_path c)) = 1040"
    using assms(2) by (simp add: length_wchars sentinel_max_path_def)
  show ?thesis
    using assms(1) l
    by (simp add: decode_command_def encode_command_def field_here field_skip field_all read_wchars_wchars
        del: size_of.simps)
qed

text \<open>A block event that the driver sends, with a path without zero characters that fits the array, is
  read back from the message buffer with its path, process, thread and time.\<close>
lemma block_event_round_trip:
  assumes "CHR 0x00 \<notin> set (ev_path e)" and "length (ev_path e) < sentinel_max_path"
  shows "decode_get_message (encode_get_message mid e) = e
    \<and> length (encode_get_message mid e) = size_of (STRUCT sentinel_get_message)"
proof -
  have l: "length (wchars 520 (ev_path e)) = 1040"
    using assms(2) by (simp add: length_wchars sentinel_max_path_def)
  show ?thesis
    using assms(1) l
    by (simp add: decode_get_message_def encode_get_message_def field_here field_skip field_all
        read_wchars_wchars Let_def del: size_of.simps)
qed

section \<open>Witnesses\<close>

lemma command_round_trip_witness:
  "decode_command (encode_command \<lparr>cmd_type = msg_add_block, cmd_path = ''abc''\<rparr>)
     = \<lparr>cmd_type = msg_add_block, cmd_path = ''abc''\<rparr>"
  using command_round_trip[of "\<lparr>cmd_type = msg_add_block, cmd_path = ''abc''\<rparr>"]
  by (simp add: sentinel_max_path_def)

lemma block_event_round_trip_witness:
  "decode_get_message (encode_get_message 1 \<lparr>ev_path = ''abc'', ev_pid = 7, ev_tid = 8, ev_time = 9\<rparr>)
     = \<lparr>ev_path = ''abc'', ev_pid = 7, ev_tid = 8, ev_time = 9\<rparr>"
  using block_event_round_trip[of "\<lparr>ev_path = ''abc'', ev_pid = 7, ev_tid = 8, ev_time = 9\<rparr>" 1]
  by (simp add: sentinel_max_path_def)

end
