(* ===== verification/NativeCore.thy ===== *)
theory NativeCore
  imports Messages
begin

text \<open>
  \<open>engine/native_core.py\<close>: hashing, entropy, the first look at a PE header and directory scans, by the
  Rust library when it is loaded and in Python otherwise. The library is a record of its entry points,
  which are parameters; \<open>None\<close> stands for a library that is not loaded. A digest is a parameter: a hasher
  is the text that was fed to it. The lemmas show that reading in chunks changes no digest, that the
  entropy lies between zero and eight bits, and which buffers the header check accepts.
\<close>

section \<open>The library\<close>

record triage_struct =
  c_is_pe :: int
  c_is_64bit :: int
  c_num_sections :: int
  c_entry_point :: int
  c_suspicious :: int
  c_max_entropy :: real
  c_avg_entropy :: real
  c_min_raw :: int

record pe_triage =
  t_is_pe :: bool
  t_is_64bit :: bool
  t_num_sections :: int
  t_entry_point :: int
  t_suspicious :: int
  t_max_entropy :: real
  t_avg_entropy :: real
  t_min_raw :: int

record native_lib =
  n_version :: "py_exc + string option"
  n_sha256 :: "string \<Rightarrow> int \<times> string"
  n_dual :: "string \<Rightarrow> int \<times> string \<times> string"
  n_entropy :: "bytes \<Rightarrow> real"
  n_triage :: "bytes \<Rightarrow> int \<times> triage_struct"

record install =
  \<comment> \<open>where the interpreter runs: \<open>sys.platform\<close>, the directories and what exists\<close>
  platform :: string
  module_dir :: string
  crate_dir :: string
  exe_dir :: string
  cwd_dir :: string
  frozen :: bool
  meipass :: "string option"
  lib_exists :: "string \<Rightarrow> bool"
  load_library :: "string \<Rightarrow> native_lib option"

definition lib_names :: "install \<Rightarrow> string list" where
  "lib_names i =
     (if platform i = ''win32'' then [''sentinel_core.dll'']
      else if platform i = ''darwin'' then [''libsentinel_core.dylib'', ''sentinel_core.dylib'']
      else [''libsentinel_core.so'', ''sentinel_core.so''])"

definition search_dirs :: "char list \<Rightarrow> install \<Rightarrow> string list" where
  "search_dirs sp i =
     (case meipass i of
        None \<Rightarrow> []
      | Some m \<Rightarrow> [m, path_join sp (path_join sp m ''sentinel'') ''engine''])
     @ [module_dir i, crate_dir i, if frozen i then exe_dir i else cwd_dir i]"

definition locate_native_library :: "char list \<Rightarrow> install \<Rightarrow> string option" where
  "locate_native_library sp i =
     find (lib_exists i)
       (concat (map (\<lambda>d. map (\<lambda>n. path_join sp d n) (lib_names i)) (search_dirs sp i)))"

record native_state =
  native :: "native_lib option"
  version :: "string option"

definition init_native_bindings :: "char list \<Rightarrow> install \<Rightarrow> bool \<times> native_state" where
  "init_native_bindings sp i =
     (case locate_native_library sp i of
        None \<Rightarrow> (False, \<lparr>native = None, version = None\<rparr>)
      | Some p \<Rightarrow>
          (case load_library i p of
             None \<Rightarrow> (False, \<lparr>native = None, version = None\<rparr>)
           | Some l \<Rightarrow>
               (case n_version l of
                  Inl e \<Rightarrow> (False, \<lparr>native = None, version = None\<rparr>)
                | Inr v \<Rightarrow>
                    (True, \<lparr>native = Some l,
                       version = Some (case v of None \<Rightarrow> ''unknown''
                                       | Some s \<Rightarrow> if s = [] then ''unknown'' else s)\<rparr>))))"

definition is_native_available :: "native_state \<Rightarrow> bool" where
  "is_native_available st = (native st \<noteq> None)"

definition get_native_version :: "native_state \<Rightarrow> string option" where
  "get_native_version st = version st"

section \<open>Digests\<close>

function hash_chunks :: "nat \<Rightarrow> bytes \<Rightarrow> bytes \<Rightarrow> bytes" where
  \<comment> \<open>the text fed to the hasher \<open>h\<close> while the file is read in chunks of \<open>Suc n\<close> bytes\<close>
  "hash_chunks n h d =
     (if d = [] then h else hash_chunks n (h @ take (Suc n) d) (drop (Suc n) d))"
  by pat_completeness auto

termination hash_chunks
  by (relation "measure (\<lambda>(n, h, d). length d)") auto

declare hash_chunks.simps [simp del]

definition python_sha256 :: "(bytes \<Rightarrow> string) \<Rightarrow> os \<Rightarrow> fs \<Rightarrow> string \<Rightarrow> string option" where
  "python_sha256 sha os s p =
     (case read_bytes os p s of
        Inl e \<Rightarrow> None
      | Inr d \<Rightarrow> Some (sha (hash_chunks 65535 [] d)))"

definition fast_sha256 ::
  "native_lib option \<Rightarrow> (bytes \<Rightarrow> string) \<Rightarrow> os \<Rightarrow> fs \<Rightarrow> string \<Rightarrow> string option" where
  "fast_sha256 lib sha os s p =
     (case lib of
        None \<Rightarrow> python_sha256 sha os s p
      | Some l \<Rightarrow>
          (case n_sha256 l p of
             (res, buf) \<Rightarrow> if res = 0 then Some buf else python_sha256 sha os s p))"

definition python_dual_hash ::
  "(bytes \<Rightarrow> string) \<Rightarrow> (bytes \<Rightarrow> string) \<Rightarrow> os \<Rightarrow> fs \<Rightarrow> string \<Rightarrow> (string \<times> string) option" where
  "python_dual_hash sha md5 os s p =
     (case read_bytes os p s of
        Inl e \<Rightarrow> None
      | Inr d \<Rightarrow> Some (sha (hash_chunks 65535 [] d), md5 (hash_chunks 65535 [] d)))"

definition fast_dual_hash ::
  "native_lib option \<Rightarrow> (bytes \<Rightarrow> string) \<Rightarrow> (bytes \<Rightarrow> string) \<Rightarrow> os \<Rightarrow> fs \<Rightarrow> string
    \<Rightarrow> (string \<times> string) option" where
  "fast_dual_hash lib sha md5 os s p =
     (case lib of
        None \<Rightarrow> python_dual_hash sha md5 os s p
      | Some l \<Rightarrow>
          (case n_dual l p of
             (res, a, b) \<Rightarrow> if res = 0 then Some (a, b) else python_dual_hash sha md5 os s p))"

section \<open>Entropy\<close>

definition count_byte :: "nat list \<Rightarrow> char \<Rightarrow> nat list" where
  "count_byte cs b = cs[of_char b := Suc (cs ! of_char b)]"

definition byte_counts :: "bytes \<Rightarrow> nat list" where
  "byte_counts d = foldl count_byte (replicate 256 0) d"

definition entropy_term :: "nat \<Rightarrow> nat \<Rightarrow> real" where
  "entropy_term n c = (let p = real c / real n in p * log 2 p)"

definition fast_entropy :: "native_lib option \<Rightarrow> bytes \<Rightarrow> real" where
  "fast_entropy lib d =
     (if d = [] then 0
      else case lib of
             Some l \<Rightarrow> n_entropy l d
           | None \<Rightarrow>
               foldl (\<lambda>ent c. if c \<noteq> 0 then ent - entropy_term (length d) c else ent) 0
                 (byte_counts d))"

section \<open>PE header\<close>

definition slice :: "nat \<Rightarrow> nat \<Rightarrow> bytes \<Rightarrow> bytes" where
  \<comment> \<open>\<open>data[a:b]\<close>\<close>
  "slice a b d = take (b - a) (drop a d)"

definition le_int :: "nat \<Rightarrow> nat \<Rightarrow> bytes \<Rightarrow> int" where
  \<comment> \<open>\<open>int.from_bytes(data[a:b], 'little')\<close>\<close>
  "le_int a b d = int (le_nat (slice a b d))"

definition pe_magic :: bytes where
  "pe_magic = [CHR ''P'', CHR ''E'', CHR 0x00, CHR 0x00]"

definition python_pe_triage :: "bytes \<Rightarrow> pe_triage option" where
  "python_pe_triage d =
     (let lfanew = nat (le_int 0x3C 0x40 d) in
      if lfanew + 4 > length d \<or> slice lfanew (lfanew + 4) d \<noteq> pe_magic then None
      else
        let fh = lfanew + 4;
            sections = le_int (fh + 2) (fh + 4) d;
            opt_size = le_int (fh + 16) (fh + 18) d;
            opt = fh + 20;
            has_opt = (20 \<le> opt_size \<and> int opt + opt_size \<le> int (length d))
        in Some \<lparr>t_is_pe = True,
                 t_is_64bit = (has_opt \<and> le_int opt (opt + 2) d = 0x20B),
                 t_num_sections = sections,
                 t_entry_point = (if has_opt then le_int (opt + 16) (opt + 20) d else 0),
                 t_suspicious = 0, t_max_entropy = 0, t_avg_entropy = 0, t_min_raw = 0\<rparr>)"

definition native_pe_triage :: "native_lib \<Rightarrow> bytes \<Rightarrow> pe_triage option" where
  "native_pe_triage l d =
     (case n_triage l d of
        (res, out) \<Rightarrow>
          if res = 0 \<and> c_is_pe out = 1
          then Some \<lparr>t_is_pe = True, t_is_64bit = (c_is_64bit out \<noteq> 0),
                     t_num_sections = c_num_sections out, t_entry_point = c_entry_point out,
                     t_suspicious = c_suspicious out, t_max_entropy = c_max_entropy out,
                     t_avg_entropy = c_avg_entropy out, t_min_raw = c_min_raw out\<rparr>
          else None)"

definition fast_pe_triage :: "native_lib option \<Rightarrow> bytes \<Rightarrow> pe_triage option" where
  "fast_pe_triage lib d =
     (if length d < 64 \<or> \<not> startswith d ''MZ'' then None
      else case lib of Some l \<Rightarrow> native_pe_triage l d | None \<Rightarrow> python_pe_triage d)"

section \<open>Directory scans\<close>

text \<open>
  The caller's callback is a function on a state of its own; \<open>walk\<close> is what \<open>os.walk\<close> lists.
\<close>

type_synonym 's scan_callback = "string \<Rightarrow> string \<Rightarrow> int \<Rightarrow> bool \<Rightarrow> bool \<Rightarrow> 's \<Rightarrow> bool \<times> 's"

definition c_callback ::
  "'s scan_callback \<Rightarrow> string option \<Rightarrow> string option \<Rightarrow> int \<Rightarrow> int \<Rightarrow> int \<Rightarrow> 's \<Rightarrow> int \<times> 's" where
  "c_callback cb p sha fsize pe susp s =
     (case cb (case p of None \<Rightarrow> [] | Some x \<Rightarrow> x) (case sha of None \<Rightarrow> [] | Some x \<Rightarrow> x)
             fsize (pe \<noteq> 0) (susp \<noteq> 0) s of
        (go, s') \<Rightarrow> (if go then 0 else 1, s'))"

record walk_env =
  walk :: "string \<Rightarrow> (string \<times> string list) list"
  file_size_of :: "string \<Rightarrow> int option"
  digest_of :: "string \<Rightarrow> string option"

definition walked_files :: "char list \<Rightarrow> walk_env \<Rightarrow> string \<Rightarrow> string list" where
  "walked_files sp w d =
     concat (map (\<lambda>(root, files). map (\<lambda>f. path_join sp root f) files) (walk w d))"

fun scan_loop :: "walk_env \<Rightarrow> 's scan_callback \<Rightarrow> nat \<Rightarrow> string list \<Rightarrow> 's \<Rightarrow> nat \<times> 's" where
  "scan_loop w cb n [] s = (n, s)"
| "scan_loop w cb n (p # ps) s =
     (case cb p (case digest_of w p of None \<Rightarrow> [] | Some h \<Rightarrow> h)
             (case file_size_of w p of None \<Rightarrow> 0 | Some k \<Rightarrow> k) False False s of
        (go, s') \<Rightarrow> if go then scan_loop w cb (Suc n) ps s' else (Suc n, s'))"

definition python_scan ::
  "char list \<Rightarrow> walk_env \<Rightarrow> string \<Rightarrow> 's scan_callback \<Rightarrow> 's \<Rightarrow> nat \<times> 's" where
  "python_scan sp w d cb s = scan_loop w cb 0 (walked_files sp w d) s"

type_synonym 's native_scan =
  "string \<Rightarrow> (string option \<Rightarrow> string option \<Rightarrow> int \<Rightarrow> int \<Rightarrow> int \<Rightarrow> 's \<Rightarrow> int \<times> 's) \<Rightarrow> 's \<Rightarrow> nat \<times> 's"

definition fast_parallel_scan ::
  "'s native_scan option \<Rightarrow> char list \<Rightarrow> walk_env \<Rightarrow> string \<Rightarrow> 's scan_callback \<Rightarrow> 's \<Rightarrow> nat \<times> 's" where
  "fast_parallel_scan lib sp w d cb s =
     (case lib of
        Some scan \<Rightarrow> scan d (c_callback cb) s
      | None \<Rightarrow> python_scan sp w d cb s)"

section \<open>Lemmas\<close>

lemma hash_chunks_whole [simp]: "hash_chunks n h d = h @ d"
  by (induction n h d rule: hash_chunks.induct) (simp add: hash_chunks.simps)

definition honest_sha :: "native_lib option \<Rightarrow> (bytes \<Rightarrow> string) \<Rightarrow> os \<Rightarrow> fs \<Rightarrow> bool" where
  "honest_sha lib sha os s =
     (case lib of
        None \<Rightarrow> True
      | Some l \<Rightarrow> (\<forall>p. fst (n_sha256 l p) = 0 \<longrightarrow>
                     read_bytes os p s \<in> {Inr d | d. snd (n_sha256 l p) = sha d}))"

lemma fast_sha256_content:
  assumes "honest_sha lib sha os s"
  shows "fast_sha256 lib sha os s p =
    (case read_bytes os p s of Inl e \<Rightarrow> None | Inr d \<Rightarrow> Some (sha d))"
proof (cases lib)
  case (Some l)
  obtain res buf where nb: "n_sha256 l p = (res, buf)" by fastforce
  have "res = 0 \<Longrightarrow> \<exists>d. read_bytes os p s = Inr d \<and> buf = sha d"
    using spec[OF assms[unfolded honest_sha_def Some option.case], of p] nb by auto
  with nb Some show ?thesis
    by (auto simp: fast_sha256_def python_sha256_def split: sum.splits)
qed (simp add: fast_sha256_def python_sha256_def split: sum.splits)

lemma fast_dual_hash_sha: "fast_dual_hash None sha md5 os s p = Some (a, b) \<Longrightarrow>
    fast_sha256 None sha os s p = Some a \<and> fast_sha256 None md5 os s p = Some b"
  by (auto simp: fast_dual_hash_def fast_sha256_def python_dual_hash_def python_sha256_def
      split: sum.splits)

subsection \<open>Counting\<close>

lemma length_count_byte [simp]: "length (count_byte cs b) = length cs"
  by (simp add: count_byte_def)

lemma length_byte_counts [simp]: "length (byte_counts d) = 256"
proof -
  have "length (foldl count_byte cs d) = length cs" for cs
    by (induction d arbitrary: cs) auto
  then show ?thesis by (simp add: byte_counts_def)
qed

lemma byte_counts_nth: "i < 256 \<Longrightarrow> byte_counts d ! i = count_list d (char_of i)"
proof -
  assume i: "i < 256"
  have "length cs = 256 \<Longrightarrow> foldl count_byte cs d ! i = cs ! i + count_list d (char_of i)" for cs
  proof (induction d arbitrary: cs)
    case (Cons b d)
    have "char_of i = b \<longleftrightarrow> i = of_char b"
      using i by (auto simp: of_char_char_of_small)
    with Cons i nat_of_char_less_256[of b] show ?case
      by (auto simp: count_byte_def nth_list_update)
  qed simp
  from this[of "replicate 256 0"] i show ?thesis by (simp add: byte_counts_def)
qed

lemma byte_counts_eq: "byte_counts d = map (\<lambda>i. count_list d (char_of i)) [0..<256]"
  by (rule nth_equalityI) (simp_all add: byte_counts_nth)

lemma entropy_term_zero [simp]: "entropy_term n 0 = 0"
  by (simp add: entropy_term_def)

lemma subtract_loop:
  "foldl (\<lambda>ent c. if c \<noteq> 0 then ent - entropy_term n c else ent) a cs
    = a - sum_list (map (entropy_term n) cs)"
  by (induction cs arbitrary: a) auto

definition byte_entropy :: "bytes \<Rightarrow> real" where
  "byte_entropy d = - (\<Sum>c \<in> set d. entropy_term (length d) (count_list d c))"

lemma byte_entropy_Nil [simp]: "byte_entropy [] = 0"
  by (simp add: byte_entropy_def)

lemma bij_char_of: "bij_betw (char_of :: nat \<Rightarrow> char) {0..<256} UNIV"
  unfolding bij_betw_def using UNIV_char_of_nat inj_on_char_of_nat by simp

lemma fast_entropy_sum: "fast_entropy None d = byte_entropy d"
proof (cases "d = []")
  case False
  let ?t = "\<lambda>c. entropy_term (length d) (count_list d c)"
  have "sum_list (map (entropy_term (length d)) (byte_counts d)) = (\<Sum>i = 0..<(256::nat). ?t (char_of i))"
    by (simp add: byte_counts_eq comp_def interv_sum_list_conv_sum_set_nat)
  also have "\<dots> = (\<Sum>c \<in> UNIV. ?t c)"
    by (rule sum.reindex_bij_betw) (rule bij_char_of)
  also have "\<dots> = (\<Sum>c \<in> set d. ?t c)"
    by (rule sum.mono_neutral_right) (auto simp: count_list_0_iff)
  finally show ?thesis
    using False unfolding fast_entropy_def byte_entropy_def subtract_loop by simp
qed (simp add: fast_entropy_def)

lemma sum_shares:
  assumes "d \<noteq> []"
  shows "(\<Sum>c \<in> set d. real (count_list d c) / real (length d)) = 1"
proof -
  have "(\<Sum>c \<in> set d. real (count_list d c)) = real (length d)"
    by (metis of_nat_sum sum_count_set order_refl finite_set)
  with assms show ?thesis by (simp add: sum_divide_distrib[symmetric])
qed

lemma share_bounds:
  assumes "c \<in> set d"
  shows "0 < real (count_list d c) / real (length d)" "real (count_list d c) / real (length d) \<le> 1"
proof -
  have "count_list d c \<noteq> 0" using assms by (simp add: count_list_0_iff)
  moreover have "count_list d c \<le> length d" by (rule count_le_length)
  moreover have "length d \<noteq> 0" using assms by auto
  ultimately show "0 < real (count_list d c) / real (length d)"
    "real (count_list d c) / real (length d) \<le> 1" by simp_all
qed

lemma entropy_term_le: "c \<in> set d \<Longrightarrow> entropy_term (length d) (count_list d c) \<le> 0"
  unfolding entropy_term_def Let_def
  using share_bounds[of c d] by (intro mult_nonneg_nonpos) auto

lemma plogp_lower:
  assumes "0 < (p :: real)"
  shows "p - 1 / 256 - p * ln 256 \<le> p * ln p"
proof -
  have "ln (1 / (256 * p)) \<le> 1 / (256 * p) - 1" using assms by (simp add: ln_le_minus_one)
  then have "p * ln (1 / (256 * p)) \<le> p * (1 / (256 * p) - 1)"
    using assms by (simp add: mult_left_mono)
  moreover have "ln (1 / (256 * p)) = - ln 256 - ln p"
    using assms by (simp add: ln_div ln_mult)
  moreover have "p * (1 / (256 * p) - 1) = 1 / 256 - p" using assms by (simp add: field_simps)
  ultimately have "p * (- ln 256 - ln p) \<le> 1 / 256 - p" by simp
  then show ?thesis by (simp add: right_diff_distrib)
qed

lemma byte_entropy_ge: "0 \<le> byte_entropy d"
  unfolding byte_entropy_def neg_0_le_iff_le by (rule sum_nonpos) (rule entropy_term_le)

lemma byte_entropy_le: "byte_entropy d \<le> 8"
proof (cases "d = []")
  case False
  let ?p = "\<lambda>c. real (count_list d c) / real (length d)"
  have "(\<Sum>c \<in> set d. ?p c - 1 / 256 - ?p c * ln 256) \<le> (\<Sum>c \<in> set d. ?p c * ln (?p c))"
    by (rule sum_mono) (rule plogp_lower, rule share_bounds)
  moreover have "(\<Sum>c \<in> set d. ?p c - 1 / 256 - ?p c * ln 256) = 1 - card (set d) / 256 - ln 256"
    unfolding sum_subtractf sum_distrib_right[symmetric] sum_shares[OF False] by simp
  moreover have "real (card (set d)) / 256 \<le> 1"
  proof -
    have "card (set d) \<le> card (UNIV :: char set)" by (rule card_mono) auto
    then show ?thesis by (simp add: card_UNIV_char)
  qed
  ultimately have low: "- ln 256 \<le> (\<Sum>c \<in> set d. ?p c * ln (?p c))" by linarith
  have "byte_entropy d = - (\<Sum>c \<in> set d. ?p c * ln (?p c)) / ln 2"
    by (simp add: byte_entropy_def entropy_term_def Let_def log_def sum_divide_distrib)
  also have "\<dots> \<le> ln 256 / ln 2" by (rule divide_right_mono) (use low in linarith, simp)
  also have "\<dots> = 8"
  proof -
    have "ln (256 :: real) = 8 * ln 2" using ln_realpow[of 2 8] by simp
    then show ?thesis by simp
  qed
  finally show ?thesis .
qed simp

lemma byte_entropy_zero_iff: "byte_entropy d = 0 \<longleftrightarrow> (\<exists>b. d = replicate (length d) b)"
proof (cases "d = []")
  case False
  then obtain b where b: "b \<in> set d" by (meson last_in_set)
  show ?thesis
  proof
    assume "byte_entropy d = 0"
    then have "(\<Sum>c \<in> set d. - entropy_term (length d) (count_list d c)) = 0"
      by (simp add: byte_entropy_def sum_negf)
    then have "entropy_term (length d) (count_list d b) = 0"
      using b entropy_term_le by (subst (asm) sum_nonneg_eq_0_iff) auto
    then have "real (count_list d b) / real (length d) = 1"
      using share_bounds[OF b] by (auto simp: entropy_term_def Let_def log_def)
    then have "count_list d b = length d" using False by (simp add: field_simps)
    then have "length (filter ((=) b) d) = length d" by (simp add: count_list_eq_length_filter)
    then have "\<forall>c \<in> set d. b = c" using length_filter_less[of _ d "(=) b"] by auto
    then have "d = replicate (length d) b" by (intro replicate_eqI) auto
    then show "\<exists>b. d = replicate (length d) b" ..
  next
    assume "\<exists>b. d = replicate (length d) b"
    then obtain b where d: "d = replicate (length d) b" ..
    then have s: "set d = {b}" using False by (metis set_replicate length_0_conv)
    have "\<forall>c \<in> set d. c = b" using s by simp
    then have "count_list d b = length d"
      by (induction d) auto
    then show "byte_entropy d = 0" using s False by (simp add: byte_entropy_def entropy_term_def)
  qed
qed auto

subsection \<open>Headers and scans\<close>

lemma le_nat_less: "le_nat s < 256 ^ length s"
proof (induction s)
  case (Cons c s)
  have "of_char c + 256 * le_nat s < 256 + 256 * le_nat s" by simp
  also have "\<dots> \<le> 256 * 256 ^ length s" using Cons by simp
  finally show ?case by simp
qed simp

lemma le_int_bounds: "0 \<le> le_int a b d" "le_int a b d < 256 ^ (b - a)"
proof -
  have "le_nat (slice a b d) < 256 ^ length (slice a b d)" by (rule le_nat_less)
  also have "\<dots> \<le> 256 ^ (b - a)" by (rule power_increasing) (simp_all add: slice_def)
  finally have "int (le_nat (slice a b d)) < int (256 ^ (b - a))" by (rule of_nat_less_iff[THEN iffD2])
  then show "le_int a b d < 256 ^ (b - a)" by (simp add: le_int_def)
qed (simp add: le_int_def)

lemma le_int_width: "b \<le> a + k \<Longrightarrow> le_int a b d < 256 ^ k"
  by (rule less_le_trans[OF le_int_bounds(2) power_increasing]) simp_all

definition pe_offset :: "bytes \<Rightarrow> nat" where
  "pe_offset d = nat (le_int 60 64 d)"

lemma triage_cases:
  assumes "fast_pe_triage None d = Some t"
  shows "64 \<le> length d" "take 2 d = ''MZ''" "pe_offset d + 4 \<le> length d"
    "slice (pe_offset d) (pe_offset d + 4) d = pe_magic" "t_is_pe t"
    "0 \<le> t_num_sections t" "t_num_sections t < 65536"
    "0 \<le> t_entry_point t" "t_entry_point t < 4294967296"
proof -
  have a: "64 \<le> length d" "startswith d ''MZ''" "python_pe_triage d = Some t"
    using assms by (auto simp: fast_pe_triage_def split: if_splits)
  then show "64 \<le> length d" "take 2 d = ''MZ''" by (auto simp: startswith_iff)
  show "pe_offset d + 4 \<le> length d" "slice (pe_offset d) (pe_offset d + 4) d = pe_magic" "t_is_pe t"
    using a(3) by (auto simp: python_pe_triage_def pe_offset_def Let_def split: if_splits)
  show "0 \<le> t_num_sections t" "0 \<le> t_entry_point t"
    using a(3) by (auto simp: python_pe_triage_def Let_def le_int_bounds split: if_splits)
  have "le_int (f + 2) (f + 4) d < 65536" "le_int (f + 16) (f + 20) d < 4294967296" for f
    using le_int_width[of "f + 4" "f + 2" 2 d] le_int_width[of "f + 20" "f + 16" 4 d] by simp_all
  then show "t_num_sections t < 65536" "t_entry_point t < 4294967296"
    using a(3) by (auto simp only: python_pe_triage_def Let_def option.inject pe_triage.simps
        option.distinct simp_thms if_False if_True split: if_splits)
qed

fun answers :: "walk_env \<Rightarrow> 's scan_callback \<Rightarrow> string list \<Rightarrow> 's \<Rightarrow> bool list" where
  \<comment> \<open>what the callback would answer on file after file\<close>
  "answers w cb [] s = []"
| "answers w cb (p # ps) s =
     (case cb p (case digest_of w p of None \<Rightarrow> [] | Some h \<Rightarrow> h)
             (case file_size_of w p of None \<Rightarrow> 0 | Some k \<Rightarrow> k) False False s of
        (go, s') \<Rightarrow> go # answers w cb ps s')"

lemma scan_loop_count:
  "fst (scan_loop w cb n ps s)
     = n + min (length ps) (Suc (length (takeWhile id (answers w cb ps s))))"
  by (induction ps arbitrary: n s) (auto split: prod.splits)

section \<open>Properties\<close>

text \<open>The entropy computed in Python lies between zero and eight bits per byte, and is zero exactly
  when all bytes are equal.\<close>

lemma entropy_bounds:
  "0 \<le> fast_entropy None d \<and> fast_entropy None d \<le> 8
    \<and> (fast_entropy None d = 0 \<longleftrightarrow> (\<exists>b. d = replicate (length d) b))"
  by (simp add: fast_entropy_sum byte_entropy_ge byte_entropy_le byte_entropy_zero_iff)

end
