(* ===== verification/Authenticode.thy ===== *)
theory Authenticode
  imports Files
begin

text \<open>
  \<open>engine/authenticode.py\<close>: the verdict on a file's signature and the cache of verdicts. The answer of
  \<open>WinVerifyTrust\<close> (a 32-bit status or an exception), the platform and the modification times are
  parameters; the cache is keyed by the resolved path and the modification time, and is emptied when
  it is full. The lemmas show that caching never changes an answer as long as the operating system's
  answer depends only on path and modification time.
\<close>

section \<open>Verdicts\<close>

definition trust_e_nosignature :: int where "trust_e_nosignature = 0x800B0100"
definition cert_e_untrustedroot :: int where "cert_e_untrustedroot = 0x800B0109"
definition trust_e_bad_digest :: int where "trust_e_bad_digest = 0x80096010"
definition cert_e_expired :: int where "cert_e_expired = 0x800B0101"
definition trust_e_explicit_distrust :: int where "trust_e_explicit_distrust = 0x800B0111"

record verdict =
  is_signed :: bool
  is_valid :: bool
  is_trusted :: bool
  is_microsoft :: bool
  error_code :: int
  error_description :: string

definition hex_digit :: "nat \<Rightarrow> char" where
  "hex_digit d = (if d < 10 then char_of (48 + d) else char_of (55 + d))"

fun hex_fixed :: "nat \<Rightarrow> nat \<Rightarrow> string" where
  \<comment> \<open>the lowest \<open>n\<close> hexadecimal digits, upper case\<close>
  "hex_fixed 0 x = []"
| "hex_fixed (Suc n) x = hex_fixed n (x div 16) @ [hex_digit (x mod 16)]"

definition no_verdict :: "int \<Rightarrow> string \<Rightarrow> verdict" where
  "no_verdict code desc =
     \<lparr>is_signed = False, is_valid = False, is_trusted = False, is_microsoft = False,
      error_code = code, error_description = desc\<rparr>"

definition describe :: "int \<Rightarrow> string" where
  "describe err =
     (if err = 0 then ''Valid trusted signature''
      else if err = trust_e_nosignature then ''No signature present''
      else if err = cert_e_untrustedroot then ''Untrusted root CA / self-signed''
      else if err = trust_e_bad_digest then ''Bad digest / file has been tampered''
      else if err = cert_e_expired then ''Certificate has expired''
      else if err = trust_e_explicit_distrust then ''Explicitly distrusted publisher''
      else ''WinTrust code 0x'' @ hex_fixed 8 (nat err))"

definition windows_dirs :: "string list" where
  "windows_dirs =
     [[CHR 0x5C] @ ''windows'' @ [CHR 0x5C], [CHR 0x5C] @ ''system32'' @ [CHR 0x5C],
      [CHR 0x5C] @ ''syswow64'' @ [CHR 0x5C]]"

definition status_verdict :: "string \<Rightarrow> int \<Rightarrow> verdict" where
  "status_verdict path status =
     (let err = status mod 0x100000000;
          valid = (err = 0)
      in \<lparr>is_signed = (err \<noteq> trust_e_nosignature), is_valid = valid, is_trusted = valid,
          is_microsoft = (valid \<and> (\<exists>d \<in> set windows_dirs. contains (lower path) d)),
          error_code = err, error_description = describe err\<rparr>)"

section \<open>The cache\<close>

type_synonym verdict_cache = "(string \<times> real, verdict) dict"

definition cache_max_size :: nat where
  "cache_max_size = 2048"

record trust_env =
  on_windows :: bool
  file_os :: os
  mtime :: "string \<Rightarrow> real option"
  win_verify_trust :: "string \<Rightarrow> string + int"

definition mtime_of :: "trust_env \<Rightarrow> string \<Rightarrow> real" where
  "mtime_of env c = (case mtime env c of None \<Rightarrow> 0 | Some t \<Rightarrow> t)"

definition fresh_verdict :: "trust_env \<Rightarrow> string \<Rightarrow> verdict" where
  \<comment> \<open>the answer without a cache, for a resolved path of a file\<close>
  "fresh_verdict env c =
     (if \<not> on_windows env then no_verdict 0 ''Non-Windows platform''
      else case win_verify_trust env c of
             Inl e \<Rightarrow> no_verdict (- 1) e
           | Inr status \<Rightarrow> status_verdict c status)"

definition cache_put :: "string \<times> real \<Rightarrow> verdict \<Rightarrow> verdict_cache \<Rightarrow> verdict_cache" where
  "cache_put k v cache = AList.update k v (if cache_max_size \<le> length cache then [] else cache)"

definition verify_pe_signature ::
  "trust_env \<Rightarrow> fs \<Rightarrow> string \<Rightarrow> verdict_cache \<Rightarrow> verdict py_result \<times> verdict_cache" where
  "verify_pe_signature env s p cache =
     (case resolve (file_os env) p of
        None \<Rightarrow> (Inl OSError, cache)
      | Some c \<Rightarrow>
          if files s c = None then (Inr (no_verdict (- 1) ''File not found''), cache)
          else
            let k = (c, mtime_of env c)
            in case map_of cache k of
                 Some v \<Rightarrow> (Inr v, cache)
               | None \<Rightarrow>
                   if on_windows env \<and> (\<exists>x. win_verify_trust env c = Inr x)
                   then (Inr (fresh_verdict env c), cache_put k (fresh_verdict env c) cache)
                   else (Inr (fresh_verdict env c), cache))"

section \<open>Lemmas\<close>

lemma status_verdict_facts:
  "is_valid (status_verdict p s) \<longleftrightarrow> s mod 0x100000000 = 0"
  "is_valid (status_verdict p s) \<Longrightarrow> is_signed (status_verdict p s)"
  "is_trusted (status_verdict p s) = is_valid (status_verdict p s)"
  "is_microsoft (status_verdict p s) \<Longrightarrow> is_valid (status_verdict p s)"
  "0 \<le> error_code (status_verdict p s) \<and> error_code (status_verdict p s) < 0x100000000"
  by (simp_all add: status_verdict_def Let_def trust_e_nosignature_def)

lemma length_cache_put: "length cache \<le> cache_max_size \<Longrightarrow> length (cache_put k v cache) \<le> cache_max_size"
  by (auto simp: cache_put_def length_update cache_max_size_def)

lemma verify_cache_bound:
  assumes "verify_pe_signature env s p cache = (r, cache')" and "length cache \<le> cache_max_size"
  shows "length cache' \<le> cache_max_size"
  using assms length_cache_put
  by (auto simp: verify_pe_signature_def Let_def split: option.splits if_splits)

definition cache_true :: "(string \<Rightarrow> real \<Rightarrow> verdict) \<Rightarrow> verdict_cache \<Rightarrow> bool" where
  "cache_true answer cache \<longleftrightarrow> (\<forall>c t v. map_of cache (c, t) = Some v \<longrightarrow> v = answer c t)"

lemma cache_true_put: "cache_true f cache \<Longrightarrow> cache_true f (cache_put (c, t) (f c t) cache)"
  by (auto simp: cache_true_def cache_put_def)

definition answers :: "trust_env \<Rightarrow> (string \<Rightarrow> real \<Rightarrow> verdict) \<Rightarrow> bool" where
  \<comment> \<open>the operating system's answer for a file depends only on its path and modification time\<close>
  "answers env f \<longleftrightarrow>
     (\<forall>c. fresh_verdict env c = f c (mtime_of env c))"

lemma verify_with_cache:
  assumes t: "cache_true f cache" and a: "answers env f"
    and v: "verify_pe_signature env s p cache = (r, cache')"
  shows "cache_true f cache'" "r = fst (verify_pe_signature env s p [])"
proof -
  have put: "cache_true f (cache_put (c, mtime_of env c) (fresh_verdict env c) cache)"
    for c
    using cache_true_put[OF t, of c "mtime_of env c"] a
    by (simp add: answers_def)
  show "cache_true f cache'"
    using v t put by (auto simp: verify_pe_signature_def Let_def split: option.splits if_splits)
  show "r = fst (verify_pe_signature env s p [])"
    using v t a
    by (auto simp: verify_pe_signature_def answers_def cache_true_def Let_def
        split: option.splits if_splits)
qed

fun verify_run ::
  "(trust_env \<times> fs \<times> string) list \<Rightarrow> verdict_cache \<Rightarrow> verdict py_result list \<times> verdict_cache" where
  "verify_run [] cache = ([], cache)"
| "verify_run ((env, s, p) # qs) cache =
     (let (r, c1) = verify_pe_signature env s p cache; (rs, c2) = verify_run qs c1 in (r # rs, c2))"

lemma verify_run_inv:
  assumes "cache_true f cache" and "length cache \<le> cache_max_size"
    and "\<forall>(env, s, p) \<in> set qs. answers env f"
  shows "fst (verify_run qs cache) = map (\<lambda>(env, s, p). fst (verify_pe_signature env s p [])) qs
    \<and> length (snd (verify_run qs cache)) \<le> cache_max_size"
  using assms
proof (induction qs arbitrary: cache)
  case (Cons q qs)
  obtain env s p where q: "q = (env, s, p)" by (cases q)
  obtain r c1 where v: "verify_pe_signature env s p cache = (r, c1)" by fastforce
  have a: "answers env f" using Cons.prems(3) q by simp
  note vc = verify_with_cache[OF Cons.prems(1) a v]
  have "length c1 \<le> cache_max_size" by (rule verify_cache_bound[OF v Cons.prems(2)])
  from Cons.IH[OF vc(1) this] Cons.prems(3) vc(2) q v show ?case
    by (cases "verify_run qs c1") simp
qed simp

section \<open>Properties\<close>

text \<open>In every sequence of signature checks, over any file systems and paths, in which the operating
  system's answers depend only on path and modification time, each check answers as it would without
  the cache, and the cache never holds more than its maximal number of verdicts.\<close>
lemma signature_cache_transparent:
  assumes "\<forall>(env, s, p) \<in> set qs. answers env f"
  shows "fst (verify_run qs []) = map (\<lambda>(env, s, p). fst (verify_pe_signature env s p [])) qs
    \<and> length (snd (verify_run qs [])) \<le> cache_max_size"
  by (rule verify_run_inv[OF _ _ assms]) (simp_all add: cache_true_def cache_max_size_def)

text \<open>A verdict is valid exactly when the operating system reports status zero for the file; a valid
  verdict is signed and trusted, and a Microsoft verdict is a valid one.\<close>
lemma valid_signature_meaning:
  assumes "verify_pe_signature env s p [] = (Inr v, cache)"
  shows "(is_valid v \<longleftrightarrow> (\<exists>c status. resolve (file_os env) p = Some c \<and> files s c \<noteq> None \<and> on_windows env
            \<and> win_verify_trust env c = Inr status \<and> status mod 0x100000000 = 0))
    \<and> is_trusted v = is_valid v \<and> (\<not> is_valid v \<or> is_signed v) \<and> (\<not> is_microsoft v \<or> is_valid v)"
  using assms status_verdict_facts
  by (auto simp: verify_pe_signature_def fresh_verdict_def no_verdict_def Let_def
      split: option.splits if_splits sum.splits)

section \<open>Witnesses\<close>

definition win_env :: "int \<Rightarrow> trust_env" where
  "win_env status =
     \<lparr>on_windows = True,
      file_os = \<lparr>seps = [CHR 0x5C], resolve = Some, is_link = (\<lambda>p. False), read_err = (\<lambda>p. None),
        write_err = (\<lambda>p a. None), unlink_err = (\<lambda>p. None), mkdir_err = (\<lambda>p. None),
        chmod_err = (\<lambda>p. None), attr_api = True, attr_ok = (\<lambda>p. True), ace_ok = (\<lambda>p. True)\<rparr>,
      mtime = (\<lambda>p. Some 5), win_verify_trust = (\<lambda>p. Inr status)\<rparr>"

definition one_file :: "string \<Rightarrow> bytes \<Rightarrow> fs" where
  "one_file p d =
     \<lparr>files = [p \<mapsto> \<lparr>content = d, mode = 420, attrs = 0, deny_exec = False\<rparr>], dirs = {}\<rparr>"

lemma signature_cache_transparent_witness:
  "fst (verify_run [(win_env 0, one_file ''a'' [], ''a''), (win_env 0, one_file ''a'' [], ''a'')] [])
     = [fst (verify_pe_signature (win_env 0) (one_file ''a'' []) ''a'' []),
        fst (verify_pe_signature (win_env 0) (one_file ''a'' []) ''a'' [])]"
proof -
  have "\<forall>(env, s, p) \<in> set [(win_env 0, one_file ''a'' [], ''a''), (win_env 0, one_file ''a'' [], ''a'')].
      answers env (\<lambda>c t. status_verdict c 0)"
    by (simp add: answers_def fresh_verdict_def win_env_def)
  from signature_cache_transparent[OF this] show ?thesis by simp
qed

lemma valid_signature_meaning_witness:
  "is_trusted (status_verdict ''a'' 0)"
proof -
  have "verify_pe_signature (win_env 0) (one_file ''a'' []) ''a'' []
      = (Inr (status_verdict ''a'' 0), cache_put (''a'', 5) (status_verdict ''a'' 0) [])"
    by (simp add: verify_pe_signature_def fresh_verdict_def win_env_def one_file_def mtime_of_def)
  from valid_signature_meaning[OF this] show ?thesis
    by (simp add: win_env_def one_file_def)
qed

end
