(* ===== verification/VirusTotal.thy ===== *)
theory VirusTotal
  imports Authenticode
begin

text \<open>
  \<open>intel/virustotal_client.py\<close>: the token bucket, the policy which files are looked up, and the client
  with its cache of verdicts, its rate limit, its backoff and its circuit breaker. Time is a clock that
  moves by \<open>lat k\<close> at the \<open>k\<close>-th reading and by at least the requested time when the thread sleeps; the
  answer of the web service, SQLite's failures and the random jitter are parameters of a lookup. The
  bucket's loop is a partial function: \<open>None\<close> would be a call that never returns. The list \<open>sent\<close>
  records the requests that leave the machine, with the client's stamp of each.
\<close>

section \<open>Time\<close>

record wclock =
  tnow :: real
  ticks :: nat

definition read_time :: "(nat \<Rightarrow> real) \<Rightarrow> wclock \<Rightarrow> real \<times> wclock" where
  "read_time lat c =
     (tnow c + lat (ticks c), \<lparr>tnow = tnow c + lat (ticks c), ticks = Suc (ticks c)\<rparr>)"

definition sleep :: "(nat \<Rightarrow> real) \<Rightarrow> real \<Rightarrow> wclock \<Rightarrow> wclock" where
  "sleep lat d c = \<lparr>tnow = tnow c + d + lat (ticks c), ticks = Suc (ticks c)\<rparr>"

section \<open>The token bucket\<close>

record bucket =
  capacity :: real
  refill_rate :: real
  tokens :: real
  last_update :: real

definition new_bucket :: "real \<Rightarrow> real \<Rightarrow> real \<Rightarrow> bucket" where
  "new_bucket cap rate t = \<lparr>capacity = cap, refill_rate = rate, tokens = cap, last_update = t\<rparr>"

definition refill :: "real \<Rightarrow> bucket \<Rightarrow> bucket" where
  "refill t b =
     b\<lparr>tokens := min (capacity b) (tokens b + (t - last_update b) * refill_rate b),
       last_update := t\<rparr>"

partial_function (option) acquire_loop ::
  "(nat \<Rightarrow> real) \<Rightarrow> real \<Rightarrow> real \<Rightarrow> bucket \<Rightarrow> wclock \<Rightarrow> (bool \<times> bucket \<times> wclock) option" where
  \<comment> \<open>the rate is positive: the client makes it \<open>1 / min_interval\<close>\<close>
  "acquire_loop lat n deadline b c =
     (case read_time lat c of (t, c1) \<Rightarrow>
        let b1 = refill t b in
        if n \<le> tokens b1 then Some (True, b1\<lparr>tokens := tokens b1 - n\<rparr>, c1)
        else
          let wait_time = (n - tokens b1) / refill_rate b1 in
          case read_time lat c1 of (u, c2) \<Rightarrow>
            if u + wait_time > deadline then Some (False, b1, c2)
            else acquire_loop lat n deadline b1 (sleep lat (min wait_time (1/4)) c2))"

definition acquire ::
  "(nat \<Rightarrow> real) \<Rightarrow> real \<Rightarrow> real \<Rightarrow> bucket \<Rightarrow> wclock \<Rightarrow> (bool \<times> bucket \<times> wclock) option" where
  "acquire lat n timeout b c =
     (if 1000 \<le> refill_rate b then Some (True, b, c)
      else case read_time lat c of (t, c1) \<Rightarrow> acquire_loop lat n (t + timeout) b c1)"

definition available_tokens :: "(nat \<Rightarrow> real) \<Rightarrow> bucket \<Rightarrow> wclock \<Rightarrow> real \<times> wclock" where
  "available_tokens lat b c =
     (case read_time lat c of (t, c1) \<Rightarrow>
        (min (capacity b) (tokens b + (t - last_update b) * refill_rate b), c1))"

section \<open>Which files are looked up\<close>

datatype triage_arg = NoArg | ScoreArg real | PathArg string

definition score_eligible :: "real \<Rightarrow> bool \<Rightarrow> bool" where
  "score_eligible score is_sgn \<longleftrightarrow> \<not> (is_sgn \<and> score < 25) \<and> \<not> score \<le> 0"

definition is_eligible_for_vt_lookup ::
  "trust_env \<Rightarrow> fs \<Rightarrow> triage_arg \<Rightarrow> bool \<Rightarrow> real option \<Rightarrow> verdict_cache \<Rightarrow> bool \<times> verdict_cache" where
  "is_eligible_for_vt_lookup env s arg is_sgn score cache =
     (case (score, arg) of
        (Some x, _) \<Rightarrow> (score_eligible x is_sgn, cache)
      | (None, ScoreArg x) \<Rightarrow> (score_eligible x is_sgn, cache)
      | (None, NoArg) \<Rightarrow> (True, cache)
      | (None, PathArg p) \<Rightarrow>
          if \<not> is_file (file_os env) p s then (True, cache)
          else case verify_pe_signature env s p cache of
                 (Inl e, cache') \<Rightarrow> (True, cache')
               | (Inr v, cache') \<Rightarrow> (\<not> (is_signed v \<and> is_valid v \<and> is_microsoft v), cache'))"

section \<open>The client\<close>

record hash_verdict =
  hv_sha :: string
  hv_verdict :: string
  hv_positives :: "int option"
  hv_total :: "int option"
  hv_cached :: bool

datatype http = NetError | Response int "py_exc + pyval"

record vt_env =
  vt_lat :: "nat \<Rightarrow> real"
  db_read_err :: "py_exc option"
  db_store_err :: "py_exc option"
  web :: "string \<Rightarrow> http"
  jitter01 :: real

record vt_client =
  api_key :: string
  min_interval :: real
  last_request :: real
  token_bucket :: bucket
  backoff_seconds :: real
  backoff_until :: real
  offline_until :: real
  total_queries :: nat
  cache_hits :: nat
  rate_limit_hits :: nat
  network_errors :: nat
  intel :: "string \<rightharpoonup> string \<times> int option \<times> int option \<times> real"
  clock :: wclock
  sent :: "(string \<times> real) list"

definition vt_new ::
  "(nat \<Rightarrow> real) \<Rightarrow> string \<Rightarrow> real \<Rightarrow> (string \<rightharpoonup> string \<times> int option \<times> int option \<times> real) \<Rightarrow> wclock
    \<Rightarrow> vt_client" where
  "vt_new lat key interval db c =
     (case read_time lat c of (t, c1) \<Rightarrow>
        \<lparr>api_key = strip key, min_interval = interval, last_request = 0,
         token_bucket = new_bucket 4 (if interval \<le> 0 then 10000 else 1 / interval) t,
         backoff_seconds = 0, backoff_until = 0, offline_until = 0, total_queries = 0,
         cache_hits = 0, rate_limit_hits = 0, network_errors = 0, intel = db, clock = c1,
         sent = []\<rparr>)"

definition vt_enabled :: "vt_client \<Rightarrow> bool" where
  "vt_enabled v = (api_key v \<noteq> [])"

function remove_all :: "string \<Rightarrow> string \<Rightarrow> string" where
  \<comment> \<open>\<open>s.replace(p, '')\<close> for a non-empty \<open>p\<close>\<close>
  "remove_all p s =
     (if s = [] \<or> p = [] then s
      else if startswith s p then remove_all p (drop (length p) s)
      else hd s # remove_all p (tl s))"
  by pat_completeness auto

termination remove_all
  by (relation "measure (\<lambda>(p, s). length s)") auto

declare remove_all.simps [simp del]

definition normalize_hash :: "string \<Rightarrow> string" where
  "normalize_hash s =
     (let h = lower (strip s) in if endswith h '' (sample)'' then remove_all '' (sample)'' h else h)"

definition now_of :: "(nat \<Rightarrow> real) \<Rightarrow> vt_client \<Rightarrow> real \<times> vt_client" where
  "now_of lat v = (case read_time lat (clock v) of (t, c) \<Rightarrow> (t, v\<lparr>clock := c\<rparr>))"

definition get_cached ::
  "vt_env \<Rightarrow> string \<Rightarrow> vt_client \<Rightarrow> hash_verdict option py_result \<times> vt_client" where
  "get_cached env s v =
     (let h = normalize_hash s in
      case db_read_err env of
        Some e \<Rightarrow> (Inl e, v)
      | None \<Rightarrow>
          (case intel v h of
             None \<Rightarrow> (Inr None, v)
           | Some (vd, pos, tot, t) \<Rightarrow>
               (Inr (Some \<lparr>hv_sha = h, hv_verdict = vd, hv_positives = pos, hv_total = tot,
                           hv_cached = True\<rparr>),
                v\<lparr>cache_hits := Suc (cache_hits v)\<rparr>)))"

definition store_cache :: "vt_env \<Rightarrow> hash_verdict \<Rightarrow> vt_client \<Rightarrow> unit py_result \<times> vt_client" where
  "store_cache env x v =
     (case now_of (vt_lat env) v of (t, v1) \<Rightarrow>
        case db_store_err env of
          Some e \<Rightarrow> (Inl e, v1)
        | None \<Rightarrow>
            (Inr (), v1\<lparr>intel := (intel v1)(hv_sha x \<mapsto>
                          (hv_verdict x, hv_positives x, hv_total x, t))\<rparr>))"

definition space_requests :: "(nat \<Rightarrow> real) \<Rightarrow> vt_client \<Rightarrow> vt_client" where
  "space_requests lat v =
     (case now_of lat v of (t, v1) \<Rightarrow>
        let elapsed = t - last_request v1;
            v2 = (if min_interval v1 > 0 \<and> elapsed < min_interval v1
                  then v1\<lparr>clock := sleep lat (min_interval v1 - elapsed) (clock v1)\<rparr> else v1)
        in case now_of lat v2 of (u, v3) \<Rightarrow> v3\<lparr>last_request := u\<rparr>)"

definition wait_for_rate_limit ::
  "(nat \<Rightarrow> real) \<Rightarrow> real \<Rightarrow> vt_client \<Rightarrow> (bool \<times> vt_client) option" where
  "wait_for_rate_limit lat timeout v =
     (case now_of lat v of (t, v1) \<Rightarrow>
        if t < backoff_until v1 \<and> backoff_until v1 - t > timeout then Some (False, v1)
        else
          let v2 = (if t < backoff_until v1
                    then v1\<lparr>clock := sleep lat (backoff_until v1 - t) (clock v1)\<rparr> else v1);
              v3 = space_requests lat v2
          in case acquire lat 1 timeout (token_bucket v3) (clock v3) of
               None \<Rightarrow> None
             | Some (ok, b, c) \<Rightarrow> Some (ok, v3\<lparr>token_bucket := b, clock := c\<rparr>))"

definition json_get :: "pyval \<Rightarrow> string \<Rightarrow> pyval \<Rightarrow> pyval py_result" where
  "json_get v k d = (case v of VDict xs \<Rightarrow> Inr (dict_get_or xs k d) | _ \<Rightarrow> Inl AttributeError)"

fun sum_ints :: "pyval list \<Rightarrow> int py_result" where
  "sum_ints [] = Inr 0"
| "sum_ints (v # vs) = bind_res (to_int v) (\<lambda>i. bind_res (sum_ints vs) (\<lambda>j. Inr (i + j)))"

definition dict_values :: "pyval \<Rightarrow> pyval list" where
  "dict_values v = (case v of VDict xs \<Rightarrow> map snd xs | _ \<Rightarrow> [])"

definition parse_stats :: "pyval \<Rightarrow> pyval py_result" where
  "parse_stats data =
     bind_res (json_get data ''data'' (VDict []))
       (\<lambda>x. bind_res (json_get x ''attributes'' (VDict []))
         (\<lambda>attrs. bind_res (json_get attrs ''last_analysis_stats'' VNone)
           (\<lambda>st. Inr (val_or st (VDict [])))))"

definition parse_response :: "string \<Rightarrow> pyval \<Rightarrow> hash_verdict py_result" where
  "parse_response sha data =
     bind_res (parse_stats data) (\<lambda>stats.
     bind_res (json_get stats ''malicious'' (VInt 0)) (\<lambda>m.
     bind_res (to_int m) (\<lambda>malicious.
     bind_res (json_get stats ''suspicious'' (VInt 0)) (\<lambda>p.
     bind_res (to_int p) (\<lambda>suspicious.
     bind_res (if truthy stats then bind_res (sum_ints (dict_values stats)) (\<lambda>t. Inr (Some t))
               else Inr None) (\<lambda>total.
       Inr \<lparr>hv_sha = sha,
            hv_verdict = (if 0 < malicious + suspicious then ''malicious''
                          else if truthy stats then ''clean'' else ''unknown''),
            hv_positives = Some (malicious + suspicious), hv_total = total,
            hv_cached = False\<rparr>))))))"

definition store_and_answer ::
  "vt_env \<Rightarrow> hash_verdict \<Rightarrow> vt_client \<Rightarrow> hash_verdict option py_result \<times> vt_client" where
  "store_and_answer env x v =
     (case store_cache env x v of
        (Inl e, v1) \<Rightarrow> (Inl e, v1)
      | (Inr u, v1) \<Rightarrow> (Inr (Some x), v1))"

definition back_off :: "vt_env \<Rightarrow> vt_client \<Rightarrow> vt_client" where
  "back_off env v =
     (let secs = (if backoff_seconds v \<le> 0 then 15 else min 120 (backoff_seconds v * 2));
          jitter = jitter01 env * 4 - 2
      in case now_of (vt_lat env) v of (t, v1) \<Rightarrow>
           v1\<lparr>rate_limit_hits := Suc (rate_limit_hits v1), backoff_seconds := secs,
              backoff_until := t + max 5 (secs + jitter)\<rparr>)"

definition unknown_verdict :: "string \<Rightarrow> hash_verdict" where
  "unknown_verdict h =
     \<lparr>hv_sha = h, hv_verdict = ''unknown'', hv_positives = None, hv_total = None,
      hv_cached = False\<rparr>"

definition handle_answer ::
  "vt_env \<Rightarrow> string \<Rightarrow> vt_client \<Rightarrow> hash_verdict option py_result \<times> vt_client" where
  "handle_answer env h v =
     (case web env h of
        NetError \<Rightarrow>
          (case now_of (vt_lat env) v of (t, v1) \<Rightarrow>
             (Inr None, v1\<lparr>network_errors := Suc (network_errors v1), offline_until := t + 60\<rparr>))
      | Response status body \<Rightarrow>
          if status = 404 then store_and_answer env (unknown_verdict h) v
          else if status = 429 then (Inr None, back_off env v)
          else if 400 \<le> status then (Inr None, v)
          else
            let v1 = v\<lparr>backoff_seconds := 0, backoff_until := 0\<rparr>
            in case bind_res body (parse_response h) of
                 Inl e \<Rightarrow> (Inl e, v1)
               | Inr x \<Rightarrow> store_and_answer env x v1)"

definition query ::
  "vt_env \<Rightarrow> string \<Rightarrow> vt_client \<Rightarrow> (hash_verdict option py_result \<times> vt_client) option" where
  "query env h v =
     (case wait_for_rate_limit (vt_lat env) 30 (v\<lparr>total_queries := Suc (total_queries v)\<rparr>) of
        None \<Rightarrow> None
      | Some (False, v1) \<Rightarrow> Some (Inr None, v1)
      | Some (True, v1) \<Rightarrow>
          Some (handle_answer env h (v1\<lparr>sent := sent v1 @ [(h, last_request v1)]\<rparr>)))"

definition lookup ::
  "vt_env \<Rightarrow> string \<Rightarrow> vt_client \<Rightarrow> (hash_verdict option py_result \<times> vt_client) option" where
  "lookup env s v =
     (let h = normalize_hash s in
      if length h \<noteq> 64 then Some (Inr None, v)
      else case get_cached env h v of
             (Inl e, v1) \<Rightarrow> Some (Inl e, v1)
           | (Inr (Some x), v1) \<Rightarrow> Some (Inr (Some x), v1)
           | (Inr None, v1) \<Rightarrow>
               if \<not> vt_enabled v1 then Some (Inr None, v1)
               else case now_of (vt_lat env) v1 of (t, v2) \<Rightarrow>
                      if t < offline_until v2 then Some (Inr None, v2)
                      else query env h v2)"

definition round_to :: "nat \<Rightarrow> real \<Rightarrow> real" where
  "round_to k x = of_int (round_half_even (x * 10 ^ k)) / 10 ^ k"

lemma round_to_mono: "x \<le> y \<Longrightarrow> round_to k x \<le> round_to k y"
  unfolding round_to_def by (intro divide_right_mono) (auto intro: round_half_even_mono)

lemma round_max: "round_to k (max x y) = max (round_to k x) (round_to k y)"
  using round_to_mono[of x y k] round_to_mono[of y x k] by (auto simp: max_def)

definition get_telemetry :: "(nat \<Rightarrow> real) \<Rightarrow> vt_client \<Rightarrow> (string, pyval) dict \<times> vt_client" where
  "get_telemetry lat v =
     (case now_of lat v of (t, v1) \<Rightarrow>
        case available_tokens lat (token_bucket v1) (clock v1) of (tk, c) \<Rightarrow>
          ([(''enabled'', VBool (vt_enabled v1)), (''total_queries'', VInt (int (total_queries v1))),
            (''cache_hits'', VInt (int (cache_hits v1))),
            (''rate_limit_hits'', VInt (int (rate_limit_hits v1))),
            (''network_errors'', VInt (int (network_errors v1))),
            (''tokens_available'', VFloat (round_to 2 tk)),
            (''backoff_active'', VBool (t < backoff_until v1)),
            (''backoff_remaining_sec'', VFloat (max 0 (round_to 1 (backoff_until v1 - t))))],
           v1\<lparr>clock := c\<rparr>))"

section \<open>The bucket returns and keeps its rate\<close>

lemma refill_simps [simp]:
  "capacity (refill t b) = capacity b" "refill_rate (refill t b) = refill_rate b"
  "last_update (refill t b) = t" "tokens (refill t b) \<le> capacity b"
  by (simp_all add: refill_def)

lemma refill_le: "tokens (refill t b) \<le> tokens b + (t - last_update b) * refill_rate b"
  by (simp add: refill_def)

lemma refill_ge0:
  "0 \<le> tokens b \<Longrightarrow> 0 \<le> capacity b \<Longrightarrow> 0 \<le> refill_rate b \<Longrightarrow> last_update b \<le> t \<Longrightarrow> 0 \<le> tokens (refill t b)"
  by (simp add: refill_def)

definition bucket_ok :: "bucket \<Rightarrow> wclock \<Rightarrow> bool" where
  "bucket_ok b c \<longleftrightarrow>
     0 \<le> tokens b \<and> tokens b \<le> capacity b \<and> 0 < refill_rate b \<and> last_update b \<le> tnow c"

definition granted :: "bucket \<Rightarrow> wclock \<Rightarrow> real \<Rightarrow> bool \<times> bucket \<times> wclock \<Rightarrow> bool" where
  \<comment> \<open>what a call that took \<open>n\<close> tokens, or none, may have done to the bucket\<close>
  "granted b c n r \<longleftrightarrow>
     (case r of (ok, b', c') \<Rightarrow>
        capacity b' = capacity b \<and> refill_rate b' = refill_rate b \<and> bucket_ok b' c' \<and> tnow c \<le> tnow c'
        \<and> tokens b' + (if ok then n else 0)
            \<le> tokens b + (last_update b' - last_update b) * refill_rate b)"

lemma granted_trans:
  assumes "granted b1 c1 n r" and "capacity b1 = capacity b" "refill_rate b1 = refill_rate b"
    and "tnow c \<le> tnow c1" and "tokens b1 \<le> tokens b + (last_update b1 - last_update b) * refill_rate b"
  shows "granted b c n r"
  using assms by (auto simp: granted_def algebra_simps split: prod.splits)

lemma refill_enough:
  assumes "n \<le> capacity b" and "n \<le> tokens b + (t - last_update b) * refill_rate b"
  shows "n \<le> tokens (refill t b)"
  using assms by (simp add: refill_def)

lemma acquire_loop_now:
  assumes "n \<le> tokens (refill (tnow c + lat (ticks c)) b)"
  shows "acquire_loop lat n D b c =
    Some (True, (refill (tnow c + lat (ticks c)) b)\<lparr>tokens := tokens (refill (tnow c + lat (ticks c)) b) - n\<rparr>,
          snd (read_time lat c))"
  using assms by (simp add: acquire_loop.simps[of lat n D b c] read_time_def Let_def)

lemma granted_now:
  assumes "bucket_ok b c" "\<forall>k. 0 \<le> lat k" "0 \<le> n" "t = tnow c + lat (ticks c)" "n \<le> tokens (refill t b)"
  shows "granted b c n (True, (refill t b)\<lparr>tokens := tokens (refill t b) - n\<rparr>, snd (read_time lat c))"
  using assms refill_le[of t b] refill_simps(4)[of t b]
  by (simp add: granted_def bucket_ok_def read_time_def del: refill_simps(4))

lemma acquire_loop_returns:
  assumes "\<forall>k. 0 \<le> lat k" and "0 \<le> n" "n \<le> capacity b" and "bucket_ok b c" and "D - tnow c < real m / 4"
  shows "\<exists>r. acquire_loop lat n D b c = Some r \<and> granted b c n r"
  using assms(3-)
proof (induction m arbitrary: b c)
  case (0 b c)
  define t where "t = tnow c + lat (ticks c)"
  define b1 where "b1 = refill t b"
  define u where "u = t + lat (Suc (ticks c))"
  have tu: "tnow c \<le> t" "t \<le> u" using assms(1) by (simp_all add: t_def u_def)
  show ?case
  proof (cases "n \<le> tokens b1")
    case True
    then show ?thesis
      using acquire_loop_now[of n c lat b D] granted_now[OF 0(2) assms(1,2) t_def] by (auto simp: b1_def t_def)
  next
    case False
    have r: "0 < refill_rate b" using 0(2) by (simp add: bucket_ok_def)
    have "0 < (n - tokens b1) / refill_rate b1" using False r by (simp add: b1_def)
    then have "\<not> u + (n - tokens b1) / refill_rate b1 \<le> D" using tu 0(3) by linarith
    then have "acquire_loop lat n D b c = Some (False, b1, \<lparr>tnow = u, ticks = Suc (Suc (ticks c))\<rparr>)"
      using False by (simp add: acquire_loop.simps[of lat n D b c] read_time_def b1_def t_def u_def Let_def)
    moreover have "granted b c n (False, b1, \<lparr>tnow = u, ticks = Suc (Suc (ticks c))\<rparr>)"
      using 0(2) tu refill_ge0[of b t] refill_le[of t b] by (auto simp: granted_def bucket_ok_def b1_def)
    ultimately show ?thesis by blast
  qed
next
  case (Suc m b c)
  define t where "t = tnow c + lat (ticks c)"
  define b1 where "b1 = refill t b"
  define u where "u = t + lat (Suc (ticks c))"
  define w where "w = (n - tokens b1) / refill_rate b1"
  define c2 where "c2 = sleep lat (min w (1/4)) \<lparr>tnow = u, ticks = Suc (Suc (ticks c))\<rparr>"
  have tu: "tnow c \<le> t" "t \<le> u" using assms(1) by (simp_all add: t_def u_def)
  have r: "0 < refill_rate b" "refill_rate b1 = refill_rate b" using Suc.prems(2) by (simp_all add: bucket_ok_def b1_def)
  have ok1: "0 \<le> tokens b1" "tokens b1 \<le> capacity b" "last_update b1 = t" "capacity b1 = capacity b"
    "tokens b1 \<le> tokens b + (t - last_update b) * refill_rate b"
    using Suc.prems(2) tu refill_ge0[of b t] refill_le[of t b] by (auto simp: bucket_ok_def b1_def)
  show ?case
  proof (cases "n \<le> tokens b1")
    case True
    then show ?thesis
      using acquire_loop_now[of n c lat b D] granted_now[OF Suc.prems(2) assms(1,2) t_def]
      by (auto simp: b1_def t_def)
  next
    case False
    have w: "0 < w" using False r by (simp add: w_def)
    show ?thesis
    proof (cases "u + w > D")
      case True
      then have "acquire_loop lat n D b c = Some (False, b1, \<lparr>tnow = u, ticks = Suc (Suc (ticks c))\<rparr>)"
        using False
        by (simp add: acquire_loop.simps[of lat n D b c] read_time_def b1_def t_def u_def w_def Let_def)
      moreover have "granted b c n (False, b1, \<lparr>tnow = u, ticks = Suc (Suc (ticks c))\<rparr>)"
        using ok1 r tu by (auto simp: granted_def bucket_ok_def)
      ultimately show ?thesis by blast
    next
      case le: False
      have step: "acquire_loop lat n D b c = acquire_loop lat n D b1 c2"
        using False le
        by (simp add: acquire_loop.simps[of lat n D b c] read_time_def b1_def t_def u_def w_def c2_def Let_def)
      have c2: "u + min w (1/4) \<le> tnow c2" using assms(1) by (simp add: c2_def sleep_def)
      then have b1ok: "bucket_ok b1 c2" using ok1 r tu w by (auto simp: bucket_ok_def)
      have "\<exists>r. acquire_loop lat n D b1 c2 = Some r \<and> granted b1 c2 n r"
      proof (cases "w \<le> 1/4")
        case True
        define t2 where "t2 = tnow c2 + lat (ticks c2)"
        have "w \<le> t2 - t" using c2 True tu assms(1)[rule_format, of "ticks c2"] by (simp add: t2_def)
        then have "w * refill_rate b \<le> (t2 - t) * refill_rate b" using r by (simp add: mult_right_mono)
        moreover have "w * refill_rate b = n - tokens b1" using r by (simp add: w_def)
        ultimately have "n \<le> tokens (refill t2 b1)"
          using Suc.prems(1) ok1 r by (intro refill_enough) simp_all
        then show ?thesis
          using acquire_loop_now[of n c2 lat b1 D] granted_now[OF b1ok assms(1,2) t2_def] by (auto simp: t2_def)
      next
        case False
        then have "D - tnow c2 < real m / 4" using Suc.prems(3) c2 tu by simp
        with Suc.IH[of b1 c2] Suc.prems(1) ok1 b1ok show ?thesis by simp
      qed
      then obtain r where "acquire_loop lat n D b1 c2 = Some r" "granted b1 c2 n r" by blast
      moreover have "granted b c n r"
        by (rule granted_trans[OF \<open>granted b1 c2 n r\<close>]) (use ok1 r tu c2 w in simp_all)
      ultimately show ?thesis using step by simp
    qed
  qed
qed

lemma acquire_returns:
  assumes "\<forall>k. 0 \<le> lat k" and "0 \<le> n" "n \<le> capacity b" and "bucket_ok b c" and "refill_rate b < 1000"
  shows "\<exists>r. acquire lat n timeout b c = Some r \<and> granted b c n r"
proof -
  define c1 where "c1 = snd (read_time lat c)"
  define D where "D = tnow c + lat (ticks c) + timeout"
  obtain m where m: "D - tnow c1 < real m / 4"
    using reals_Archimedean2[of "(D - tnow c1) * 4"] by (auto simp: field_simps)
  have ok: "bucket_ok b c1" "tnow c \<le> tnow c1"
    using assms(4) assms(1)[rule_format, of "ticks c"] by (auto simp: bucket_ok_def c1_def read_time_def)
  obtain r where r: "acquire_loop lat n D b c1 = Some r" "granted b c1 n r"
    using acquire_loop_returns[OF assms(1-3) ok(1) m] by blast
  have "acquire lat n timeout b c = Some r"
    using r(1) assms(5) by (simp add: acquire_def read_time_def c1_def D_def)
  moreover have "granted b c n r" by (rule granted_trans[OF r(2)]) (use ok in simp_all)
  ultimately show ?thesis by blast
qed

fun acquire_run ::
  "(nat \<Rightarrow> real) \<Rightarrow> real list \<Rightarrow> bucket \<Rightarrow> wclock \<Rightarrow> (bool list \<times> bucket \<times> wclock) option" where
  \<comment> \<open>a sequence of calls for one token, with the timeouts given\<close>
  "acquire_run lat [] b c = Some ([], b, c)"
| "acquire_run lat (x # xs) b c =
     (case acquire lat 1 x b c of
        None \<Rightarrow> None
      | Some (ok, b1, c1) \<Rightarrow>
          (case acquire_run lat xs b1 c1 of
             None \<Rightarrow> None
           | Some (oks, b2, c2) \<Rightarrow> Some (ok # oks, b2, c2)))"

lemma acquire_run_returns:
  assumes "\<forall>k. 0 \<le> lat k" "1 \<le> capacity b" "bucket_ok b c" "refill_rate b < 1000"
  shows "\<exists>oks b' c'. acquire_run lat xs b c = Some (oks, b', c') \<and> bucket_ok b' c'
    \<and> real (count_list oks True) + tokens b'
        \<le> tokens b + (last_update b' - last_update b) * refill_rate b"
  using assms(2-)
proof (induction xs arbitrary: b c)
  case (Cons x xs)
  obtain ok b1 c1 where a: "acquire lat 1 x b c = Some (ok, b1, c1)" and g: "granted b c 1 (ok, b1, c1)"
    using acquire_returns[OF assms(1) _ Cons.prems(1,2,3), of x] by auto
  from g have g1: "capacity b1 = capacity b" "refill_rate b1 = refill_rate b" "bucket_ok b1 c1"
    "tokens b1 + (if ok then 1 else 0) \<le> tokens b + (last_update b1 - last_update b) * refill_rate b"
    by (simp_all add: granted_def)
  obtain oks b2 c2 where r: "acquire_run lat xs b1 c1 = Some (oks, b2, c2)" "bucket_ok b2 c2"
    "real (count_list oks True) + tokens b2
      \<le> tokens b1 + (last_update b2 - last_update b1) * refill_rate b"
    using Cons.IH[of b1 c1] Cons.prems g1 by auto
  show ?case using a r g1(4) by (cases ok) (simp_all add: algebra_simps)
qed simp

section \<open>The client is polite\<close>

lemma now_of_simps:
  "now_of lat v = (tnow (clock v) + lat (ticks (clock v)), v\<lparr>clock := snd (read_time lat (clock v))\<rparr>)"
  by (simp add: now_of_def read_time_def)

lemma read_time_simps:
  "tnow (snd (read_time lat c)) = tnow c + lat (ticks c)"
  by (simp add: read_time_def)

definition stamps_spaced :: "real \<Rightarrow> (string \<times> real) list \<Rightarrow> bool" where
  "stamps_spaced d xs \<longleftrightarrow> (\<forall>i. Suc i < length xs \<longrightarrow> snd (xs ! i) + d \<le> snd (xs ! Suc i))"

lemma stamps_spaced_snoc:
  assumes "stamps_spaced d xs" and "xs = [] \<or> snd (last xs) + d \<le> t"
  shows "stamps_spaced d (xs @ [(h, t)])"
  unfolding stamps_spaced_def
proof (intro allI impI)
  fix i assume i: "Suc i < length (xs @ [(h, t)])"
  show "snd ((xs @ [(h, t)]) ! i) + d \<le> snd ((xs @ [(h, t)]) ! Suc i)"
  proof (cases "Suc i < length xs")
    case True
    with assms(1) show ?thesis by (simp add: stamps_spaced_def nth_append)
  next
    case False
    with i have "xs \<noteq> []" "i = length xs - 1" by auto
    with assms(2) show ?thesis by (simp add: nth_append last_conv_nth)
  qed
qed

definition polite_lat :: "real \<Rightarrow> (nat \<Rightarrow> real) \<Rightarrow> bool" where
  \<comment> \<open>the clock never moves back, and a reading takes at most \<open>d\<close> seconds\<close>
  "polite_lat d lat \<longleftrightarrow> (\<forall>k. 0 \<le> lat k \<and> lat k \<le> d)"

definition settled :: "real \<Rightarrow> vt_client \<Rightarrow> bool" where
  \<comment> \<open>after the first request the bucket holds a token and is at most two readings behind\<close>
  "settled d v \<longleftrightarrow>
     last_request v \<le> last_update (token_bucket v)
     \<and> last_update (token_bucket v) \<le> last_request v + 2 * d
     \<and> 1 + (last_update (token_bucket v) - last_request v) / d \<le> tokens (token_bucket v)"

definition polite :: "real \<Rightarrow> vt_client \<Rightarrow> bool" where
  "polite d v \<longleftrightarrow>
     min_interval v = d \<and> refill_rate (token_bucket v) = 1 / d \<and> capacity (token_bucket v) = 4
     \<and> last_update (token_bucket v) \<le> tnow (clock v) \<and> last_request v \<le> tnow (clock v)
     \<and> (sent v = [] \<or> snd (last (sent v)) \<le> last_request v) \<and> stamps_spaced d (sent v)
     \<and> (tokens (token_bucket v) = 4 \<or> settled d v)"

lemma space_requests_facts:
  assumes "polite_lat d lat" "min_interval v = d" "0 < d"
  defines "w \<equiv> space_requests lat v"
  shows "last_request w = tnow (clock w)" "last_request v + d \<le> last_request w"
    "tnow (clock v) \<le> tnow (clock w)" "token_bucket w = token_bucket v" "sent w = sent v"
    "intel w = intel v" "min_interval w = d" "backoff_until w = backoff_until v" "api_key w = api_key v"
proof -
  have "0 \<le> lat k" for k using assms(1) by (simp add: polite_lat_def)
  note l = this[of "ticks (clock v)"] this[of "Suc (ticks (clock v))"] this[of "Suc (Suc (ticks (clock v)))"]
  show "last_request w = tnow (clock w)" "last_request v + d \<le> last_request w"
    "tnow (clock v) \<le> tnow (clock w)" "token_bucket w = token_bucket v" "sent w = sent v"
    "intel w = intel v" "min_interval w = d" "backoff_until w = backoff_until v" "api_key w = api_key v"
    using assms(2,3) l by (simp_all add: w_def space_requests_def now_of_simps read_time_def sleep_def Let_def)
qed

lemma bucket_never_empty:
  assumes d: "0 < d" and p: "polite d v"
    and w: "last_request v + d \<le> last_request w" "last_request w = tnow (clock w)"
      "tnow (clock v) \<le> tnow (clock w)"
    and t: "0 \<le> t - tnow (clock w)" "t - tnow (clock w) \<le> 2 * d"
  shows "2 + (t - last_request w) / d \<le> tokens (refill t (token_bucket v))"
proof -
  let ?b = "token_bucket v"
  have cap: "2 + (t - last_request w) / d \<le> 4" using t w(2) d by (simp add: divide_le_eq)
  have "2 + (t - last_request w) / d \<le> tokens ?b + (t - last_update ?b) * (1 / d)"
  proof (cases "settled d v")
    case True
    have "1 \<le> (last_request w - last_request v) / d" using w(1) d by (simp add: le_divide_eq)
    then have "2 + (t - last_request w) / d
        \<le> 1 + (last_update ?b - last_request v) / d + (t - last_update ?b) / d"
      by (simp add: diff_divide_distrib)
    with True show ?thesis by (simp add: settled_def)
  next
    case False
    then have "tokens ?b = 4" "last_update ?b \<le> tnow (clock v)" using p by (auto simp: polite_def)
    moreover have "0 \<le> (t - last_update ?b) / d" using calculation(2) w(3) t d by simp
    ultimately show ?thesis using cap by simp
  qed
  with cap p show ?thesis by (simp add: refill_def polite_def)
qed

definition same_pace :: "vt_client \<Rightarrow> vt_client \<Rightarrow> bool" where
  "same_pace v w \<longleftrightarrow>
     token_bucket w = token_bucket v \<and> last_request w = last_request v \<and> sent w = sent v
     \<and> min_interval w = min_interval v \<and> tnow (clock v) \<le> tnow (clock w)"

lemma same_pace_refl [simp]: "same_pace v v"
  by (simp add: same_pace_def)

lemma same_pace_trans: "same_pace u v \<Longrightarrow> same_pace v w \<Longrightarrow> same_pace u w"
  by (simp add: same_pace_def)

lemma polite_same_pace: "polite d v \<Longrightarrow> same_pace v w \<Longrightarrow> polite d w"
  by (auto simp: polite_def same_pace_def settled_def)

lemma settled_same_pace: "settled d v \<Longrightarrow> same_pace v w \<Longrightarrow> settled d w"
  by (simp add: same_pace_def settled_def)

lemma now_of_pace:
  assumes "polite_lat d lat" "now_of lat v = (t, w)"
  shows "same_pace v w" "intel w = intel v" "t = tnow (clock w)" "backoff_until w = backoff_until v"
    "api_key w = api_key v" "t = tnow (clock v) + lat (ticks (clock v))"
  using assms by (auto simp: now_of_simps same_pace_def polite_lat_def read_time_def)

lemma acquire_at_once:
  assumes d: "1 / 1000 < d" and lat: "polite_lat d lat" and p: "polite d v"
    and w: "last_request v + d \<le> last_request w" "last_request w = tnow (clock w)"
      "tnow (clock v) \<le> tnow (clock w)" "token_bucket w = token_bucket v"
    and a: "acquire lat 1 x (token_bucket w) (clock w) = r"
  shows "\<exists>b c. r = Some (True, b, c) \<and> capacity b = 4 \<and> refill_rate b = 1 / d
    \<and> last_update b \<le> tnow c \<and> last_request w \<le> tnow c \<and> last_request w \<le> last_update b
    \<and> last_update b \<le> last_request w + 2 * d \<and> 1 + (last_update b - last_request w) / d \<le> tokens b"
proof -
  define c1 where "c1 = snd (read_time lat (clock w))"
  define t where "t = tnow c1 + lat (ticks c1)"
  have l: "0 \<le> lat k" "lat k \<le> d" for k using lat by (simp_all add: polite_lat_def)
  have t: "0 \<le> t - tnow (clock w)" "t - tnow (clock w) \<le> 2 * d"
    using l[of "ticks (clock w)"] l[of "ticks c1"] by (simp_all add: t_def c1_def read_time_def)
  have e: "2 + (t - last_request w) / d \<le> tokens (refill t (token_bucket v))"
    by (rule bucket_never_empty[OF _ p w(1-3) t]) (use d in simp)
  have b: "refill_rate (token_bucket v) = 1 / d" "capacity (token_bucket v) = 4"
    using p by (simp_all add: polite_def)
  have rate: "\<not> 1000 \<le> 1 / d" using d by (simp add: le_divide_eq)
  have "1 \<le> tokens (refill t (token_bucket v))"
    using e t w(2) d by (smt (verit) divide_nonneg_nonneg)
  then have "acquire lat 1 x (token_bucket w) (clock w)
      = Some (True, (refill t (token_bucket v))\<lparr>tokens := tokens (refill t (token_bucket v)) - 1\<rparr>,
              snd (read_time lat c1))"
    using rate b acquire_loop_now[of 1 c1 lat "token_bucket v"]
    by (simp add: acquire_def w(4) c1_def t_def case_prod_beta)
  then show ?thesis using a e t w(2) b
    by (simp add: read_time_def t_def)
qed

lemma wait_polite:
  assumes d: "1 / 1000 < d" and lat: "polite_lat d lat" and p: "polite d v"
  shows "\<exists>ok w. wait_for_rate_limit lat x v = Some (ok, w) \<and> polite d w \<and> sent w = sent v
    \<and> intel w = intel v
    \<and> (ok \<longleftrightarrow> backoff_until v \<le> tnow (clock v) + lat (ticks (clock v)) + max 0 x)
    \<and> (ok \<longrightarrow> settled d w \<and> (sent v = [] \<or> snd (last (sent v)) + d \<le> last_request w))"
proof -
  have l: "0 \<le> lat k" for k using lat by (simp add: polite_lat_def)
  obtain t v1 where n: "now_of lat v = (t, v1)" by fastforce
  note n1 = now_of_pace[OF lat n]
  show ?thesis
  proof (cases "t < backoff_until v1 \<and> backoff_until v1 - t > x")
    case True
    then have "wait_for_rate_limit lat x v = Some (False, v1)"
      by (simp add: wait_for_rate_limit_def n)
    then show ?thesis using n1 True polite_same_pace[OF p n1(1)]
      by (auto simp: same_pace_def)
  next
    case False
    define v2 where "v2 = (if t < backoff_until v1
      then v1\<lparr>clock := sleep lat (backoff_until v1 - t) (clock v1)\<rparr> else v1)"
    define v3 where "v3 = space_requests lat v2"
    have "same_pace v1 v2" using l[of "ticks (clock v1)"]
      by (auto simp: v2_def same_pace_def sleep_def)
    then have s2: "same_pace v v2" by (rule same_pace_trans[OF n1(1)])
    have p2: "polite d v2" by (rule polite_same_pace[OF p s2])
    have mi: "min_interval v2 = d" using p2 by (simp add: polite_def)
    have dpos: "0 < d" using d by simp
    note f = space_requests_facts[OF lat mi dpos, folded v3_def]
    obtain b c where a: "acquire lat 1 x (token_bucket v3) (clock v3) = Some (True, b, c)"
      and bc: "capacity b = 4" "refill_rate b = 1 / d" "last_update b \<le> tnow c" "last_request v3 \<le> tnow c"
        "last_request v3 \<le> last_update b" "last_update b \<le> last_request v3 + 2 * d"
        "1 + (last_update b - last_request v3) / d \<le> tokens b"
      using acquire_at_once[OF d lat p2 f(2) f(1) f(3) f(4) refl, of x] by auto
    define w where "w = v3\<lparr>token_bucket := b, clock := c\<rparr>"
    have r: "wait_for_rate_limit lat x v = Some (True, w)"
      using False a by (simp add: wait_for_rate_limit_def n v2_def[symmetric] v3_def[symmetric] w_def Let_def)
    have st: "settled d w" using bc by (simp add: settled_def w_def)
    have sent: "sent w = sent v" using f(5) s2 by (simp add: w_def same_pace_def)
    have lr: "sent v = [] \<or> snd (last (sent v)) + d \<le> last_request w"
      using p f(2) s2 by (auto simp: polite_def same_pace_def w_def)
    have pw: "polite d w" using p st sent bc f(7) lr dpos by (auto simp: polite_def w_def)
    have ok: "backoff_until v \<le> tnow (clock v) + lat (ticks (clock v)) + max 0 x"
      using False n1 by auto
    have i: "intel w = intel v" using f(6) n1(2) by (simp add: w_def v2_def)
    show ?thesis using r pw sent i ok st lr by blast
  qed
qed

section \<open>Lookups keep the pace and never repeat an answered hash\<close>

lemma store_cache_pace:
  assumes "polite_lat d (vt_lat env)" "store_cache env x v = (r, w)"
  shows "same_pace v w" "intel w = intel v \<or> intel w \<noteq> intel v \<and> dom (intel w) = insert (hv_sha x) (dom (intel v))"
    "api_key w = api_key v"
    "r = Inr () \<Longrightarrow> \<exists>t. intel w = (intel v)(hv_sha x \<mapsto> (hv_verdict x, hv_positives x, hv_total x, t))"
  using assms now_of_pace[OF assms(1)]
  by (auto simp: store_cache_def same_pace_def split: prod.splits option.splits)

lemma handle_answer_pace:
  assumes lat: "polite_lat d (vt_lat env)" and h: "handle_answer env h v = (r, w)"
  shows "same_pace v w"
proof -
  have sa: "same_pace u w'" if "store_and_answer env x u = (r', w')" for x u r' w'
    using that store_cache_pace(1)[OF lat]
    by (auto simp: store_and_answer_def split: prod.splits sum.splits)
  have bo: "same_pace v (back_off env v)"
    using now_of_pace(1)[OF lat] by (auto simp: back_off_def same_pace_def Let_def split: prod.splits)
  have p1: "same_pace (v\<lparr>backoff_seconds := 0, backoff_until := 0\<rparr>) w' \<Longrightarrow> same_pace v w'" for w'
    by (simp add: same_pace_def)
  show ?thesis
    using h bo now_of_pace(1)[OF lat]
    by (auto simp: handle_answer_def Let_def split: http.splits if_splits sum.splits prod.splits
        dest!: sa p1) (auto simp: same_pace_def)
qed

definition known_frame :: "string \<Rightarrow> vt_client \<Rightarrow> vt_client \<Rightarrow> bool" where
  \<comment> \<open>the table changed at most at \<open>g\<close>\<close>
  "known_frame g v w \<longleftrightarrow> (\<forall>h. h \<noteq> g \<longrightarrow> intel w h = intel v h)"

lemma store_and_answer_known:
  "store_and_answer env x v = (r, w) \<Longrightarrow> known_frame (hv_sha x) v w"
  by (auto simp: store_and_answer_def store_cache_def known_frame_def now_of_simps
      split: prod.splits sum.splits option.splits)

lemma parse_response_sha: "parse_response h data = Inr x \<Longrightarrow> hv_sha x = h"
  by (auto simp: parse_response_def bind_res_Inr_iff)

lemma handle_answer_known: "handle_answer env h v = (r, w) \<Longrightarrow> known_frame h v w"
  using store_and_answer_known[of env "unknown_verdict h" v r w]
    store_and_answer_known[of env _ "v\<lparr>backoff_seconds := 0, backoff_until := 0\<rparr>" r w]
    parse_response_sha[of h]
  by (fastforce simp: handle_answer_def unknown_verdict_def known_frame_def back_off_def now_of_simps
      Let_def bind_res_Inr_iff split: http.splits if_splits sum.splits)

lemma lookup_cases:
  assumes "lookup env s v = Some (r, w)"
  shows "(\<exists>x. get_cached env (normalize_hash s) v = (x, w)) \<or> w = v
    \<or> (\<exists>v1. intel v (normalize_hash (normalize_hash s)) = None \<and> sent v1 = sent v \<and> intel v1 = intel v
         \<and> (w = v1 \<or> query env (normalize_hash s) v1 = Some (r, w)))"
proof (cases "length (normalize_hash s) = 64")
  case True
  obtain x w1 where g: "get_cached env (normalize_hash s) v = (x, w1)" by fastforce
  show ?thesis
  proof (cases "x = Inr None")
    case True
    then have n: "intel v (normalize_hash (normalize_hash s)) = None" "w1 = v"
      using g by (auto simp: get_cached_def Let_def split: option.splits)
    let ?v1 = "v\<lparr>clock := snd (read_time (vt_lat env) (clock v))\<rparr>"
    have "w = v \<or> w = ?v1 \<or> query env (normalize_hash s) ?v1 = Some (r, w)"
      using assms \<open>length (normalize_hash s) = 64\<close> g True n
      by (auto simp: lookup_def now_of_simps split: if_splits)
    then show ?thesis
    proof (elim disjE)
      assume "query env (normalize_hash s) ?v1 = Some (r, w)"
      with n(1) show ?thesis by (intro disjI2 exI[of _ ?v1]) simp
    qed (use n(1) in \<open>auto intro!: exI[of _ ?v1]\<close>)
  next
    case False
    then have "w = w1"
      using assms \<open>length (normalize_hash s) = 64\<close> g
      by (auto simp: lookup_def split: sum.splits option.splits)
    then show ?thesis using g by blast
  qed
next
  case False
  then show ?thesis using assms by (simp add: lookup_def)
qed

lemma wait_frame:
  assumes "wait_for_rate_limit lat x v = Some (ok, w)"
  shows "intel w = intel v" "sent w = sent v"
  using assms
  by (auto simp: wait_for_rate_limit_def space_requests_def now_of_simps Let_def
      split: if_splits option.splits prod.splits)

lemma query_known:
  assumes "query env g v = Some (r, w)" and "polite_lat d (vt_lat env)"
  shows "known_frame g v w" "\<exists>t. sent w = sent v \<or> sent w = sent v @ [(g, t)]"
proof -
  obtain ok v1 where wt: "wait_for_rate_limit (vt_lat env) 30 (v\<lparr>total_queries := Suc (total_queries v)\<rparr>) = Some (ok, v1)"
    using assms(1) by (auto simp: query_def split: option.splits)
  note f = wait_frame[OF wt]
  show "known_frame g v w"
    using assms(1) wt f handle_answer_known[of env g "v1\<lparr>sent := sent v1 @ [(g, last_request v1)]\<rparr>" r w]
    by (cases ok) (auto simp: query_def known_frame_def)
  show "\<exists>t. sent w = sent v \<or> sent w = sent v @ [(g, t)]"
    using assms(1) wt f handle_answer_pace[OF assms(2), of g "v1\<lparr>sent := sent v1 @ [(g, last_request v1)]\<rparr>" r w]
    by (cases ok) (auto simp: query_def same_pace_def)
qed

fun vt_run :: "(vt_env \<times> string) list \<Rightarrow> vt_client \<Rightarrow> vt_client option" where
  \<comment> \<open>a sequence of lookups, whatever they answer or raise\<close>
  "vt_run [] v = Some v"
| "vt_run ((env, s) # qs) v =
     (case lookup env s v of None \<Rightarrow> None | Some (r, w) \<Rightarrow> vt_run qs w)"

definition polite_history :: "real \<Rightarrow> (vt_env \<times> string) list \<Rightarrow> bool" where
  "polite_history d qs \<longleftrightarrow> (\<forall>(env, s) \<in> set qs. polite_lat d (vt_lat env))"

lemma lookup_known:
  assumes l: "lookup env s v = Some (r, w)" and lat: "polite_lat d (vt_lat env)"
    and h: "normalize_hash h = h" "intel v h = Some row"
  shows "intel w h = Some row" "filter (\<lambda>x. fst x = h) (sent w) = filter (\<lambda>x. fst x = h) (sent v)"
proof -
  let ?g = "normalize_hash s"
  have "known_frame ?g v w \<and> (\<exists>t. sent w = sent v \<or> sent w = sent v @ [(?g, t)]) \<and> ?g \<noteq> h
    \<or> intel w = intel v \<and> sent w = sent v"
    using lookup_cases[OF l]
  proof (elim disjE exE conjE)
    fix x assume "get_cached env ?g v = (x, w)"
    then show ?thesis by (auto simp: get_cached_def Let_def split: option.splits prod.splits)
  next
    fix v1 assume a: "intel v (normalize_hash ?g) = None" "sent v1 = sent v" "intel v1 = intel v"
      "query env ?g v1 = Some (r, w)"
    have "?g \<noteq> h" using a(1) h by auto
    with query_known[OF a(4) lat] a show ?thesis by (auto simp: known_frame_def)
  qed auto
  then show "intel w h = Some row" "filter (\<lambda>x. fst x = h) (sent w) = filter (\<lambda>x. fst x = h) (sent v)"
    using h by (auto simp: known_frame_def)
qed

lemma vt_run_known:
  assumes "vt_run qs v = Some w" "polite_history d qs" "normalize_hash h = h" "intel v h = Some row"
  shows "intel w h = Some row \<and> filter (\<lambda>x. fst x = h) (sent w) = filter (\<lambda>x. fst x = h) (sent v)"
  using assms
proof (induction qs arbitrary: v)
  case (Cons q qs)
  obtain env s where q: "q = (env, s)" by fastforce
  obtain r v1 where l: "lookup env s v = Some (r, v1)" and run: "vt_run qs v1 = Some w"
    using Cons.prems(1) q by (auto split: option.splits)
  have lat: "polite_lat d (vt_lat env)" using Cons.prems(2) q by (simp add: polite_history_def)
  have "polite_history d qs" using Cons.prems(2) by (simp add: polite_history_def)
  from Cons.IH[OF run this Cons.prems(3) lookup_known(1)[OF l lat Cons.prems(3,4)]]
    lookup_known(2)[OF l lat Cons.prems(3,4)] show ?case by simp
qed simp

lemma query_polite:
  assumes d: "1 / 1000 < d" and lat: "polite_lat d (vt_lat env)" and p: "polite d v"
  shows "\<exists>r w. query env g v = Some (r, w) \<and> polite d w"
proof -
  let ?v = "v\<lparr>total_queries := Suc (total_queries v)\<rparr>"
  have "polite d ?v" by (rule polite_same_pace[OF p]) (simp add: same_pace_def)
  from wait_polite[OF d lat this, of 30] obtain ok w where
    w: "wait_for_rate_limit (vt_lat env) 30 ?v = Some (ok, w)" "polite d w" "sent w = sent v"
      "ok \<longrightarrow> settled d w \<and> (sent v = [] \<or> snd (last (sent v)) + d \<le> last_request w)" by auto
  show ?thesis
  proof (cases ok)
    case True
    let ?w = "w\<lparr>sent := sent w @ [(g, last_request w)]\<rparr>"
    obtain r w' where h: "handle_answer env g ?w = (r, w')" by fastforce
    have "stamps_spaced d (sent w @ [(g, last_request w)])"
      using w True by (intro stamps_spaced_snoc) (simp_all add: polite_def)
    then have "polite d ?w" using w(2,4) True by (simp add: polite_def settled_def)
    from polite_same_pace[OF this handle_answer_pace[OF lat h]] show ?thesis
      using w(1) True h by (simp add: query_def)
  next
    case False
    then show ?thesis using w by (simp add: query_def)
  qed
qed

lemma lookup_polite:
  assumes d: "1 / 1000 < d" and lat: "polite_lat d (vt_lat env)" and p: "polite d v"
  shows "\<exists>r w. lookup env s v = Some (r, w) \<and> polite d w"
proof -
  have g: "polite d w" if "get_cached env h v = (r, w)" for h r w
    using that polite_same_pace[OF p, of w]
    by (auto simp: get_cached_def Let_def same_pace_def split: option.splits)
  have n: "polite d w" if "now_of (vt_lat env) u = (t, w)" "polite d u" for t u w
    using polite_same_pace[OF that(2) now_of_pace(1)[OF lat that(1)]] .
  show ?thesis
    using p g n query_polite[OF d lat, of _ "normalize_hash s"]
    by (auto simp: lookup_def Let_def split: if_splits prod.splits sum.splits option.splits)
qed

lemma vt_run_polite:
  assumes "1 / 1000 < d" "polite_history d qs" "polite d v"
  shows "\<exists>w. vt_run qs v = Some w \<and> polite d w"
  using assms
proof (induction qs arbitrary: v)
  case (Cons q qs)
  obtain env s where q: "q = (env, s)" by fastforce
  have lat: "polite_lat d (vt_lat env)" "polite_history d qs"
    using Cons.prems(2) q by (simp_all add: polite_history_def)
  obtain r w where "lookup env s v = Some (r, w)" "polite d w"
    using lookup_polite[OF Cons.prems(1) lat(1) Cons.prems(3)] by blast
  with Cons.IH[OF Cons.prems(1) lat(2), of w] q show ?case by simp
qed simp

lemma vt_new_polite:
  assumes "0 < d" "polite_lat d lat" "0 \<le> tnow c"
  shows "polite d (vt_new lat key d db c)"
  using assms by (auto simp: vt_new_def polite_def read_time_def new_bucket_def stamps_spaced_def polite_lat_def)

section \<open>Properties\<close>

text \<open>Every sequence of calls of \<open>acquire\<close> for one token returns, whatever the timeouts, on a clock that
  does not move back, and the number of grants is at most the capacity plus the refill rate times the
  time that passed since the bucket was made.\<close>

lemma bucket_keeps_rate:
  assumes "\<forall>k. 0 \<le> lat k" "1 \<le> cap" "0 < rate" "rate < 1000" "t0 \<le> tnow c"
  shows "\<exists>oks b' c'. acquire_run lat xs (new_bucket cap rate t0) c = Some (oks, b', c')
    \<and> real (count_list oks True) \<le> cap + rate * (tnow c' - t0)"
proof -
  have "bucket_ok (new_bucket cap rate t0) c" "refill_rate (new_bucket cap rate t0) < 1000"
    "1 \<le> capacity (new_bucket cap rate t0)"
    using assms by (simp_all add: bucket_ok_def new_bucket_def)
  from acquire_run_returns[OF assms(1) this(3,1,2), of xs] obtain oks b' c' where
    r: "acquire_run lat xs (new_bucket cap rate t0) c = Some (oks, b', c')" "bucket_ok b' c'"
      "real (count_list oks True) + tokens b' \<le> cap + (last_update b' - t0) * rate"
    by (auto simp: new_bucket_def)
  have "(last_update b' - t0) * rate \<le> (tnow c' - t0) * rate"
    using r(2) assms(3) by (intro mult_right_mono) (simp_all add: bucket_ok_def)
  with r show ?thesis by (intro exI[of _ oks] exI[of _ b'] exI[of _ c'])
      (simp add: bucket_ok_def mult.commute)
qed

text \<open>C17: in every sequence of lookups by a new client whose minimal interval is more than a millisecond
  and whose clock neither moves back nor takes longer than the interval for a reading, every lookup
  returns, the stamps of consecutive requests are at least the interval apart, and the token bucket never
  holds a request up: a wait for the rate limit is refused exactly when a backoff has more than the
  timeout left.\<close>

theorem requests_spaced:
  assumes "1 / 1000 < d" "polite_history d qs" "polite_lat d lat" "0 \<le> tnow c"
  shows "\<exists>w. vt_run qs (vt_new lat key d db c) = Some w \<and> stamps_spaced d (sent w)
    \<and> (\<exists>ok u. wait_for_rate_limit lat 30 w = Some (ok, u)
        \<and> (ok \<longleftrightarrow> backoff_until w \<le> tnow (clock w) + lat (ticks (clock w)) + 30))"
proof -
  have "polite d (vt_new lat key d db c)" by (rule vt_new_polite) (use assms in simp_all)
  from vt_run_polite[OF assms(1,2) this] obtain w where
    w: "vt_run qs (vt_new lat key d db c) = Some w" "polite d w" by blast
  from wait_polite[OF assms(1,3) w(2), of 30] w show ?thesis by (auto simp: polite_def)
qed

text \<open>Once the table holds a verdict for a normalised hash, no sequence of lookups sends a request for
  it again, and a later lookup of any spelling of the hash answers with the stored verdict and sends
  nothing, as long as the table can be read.\<close>

lemma answered_hash_not_sent_again:
  assumes "vt_run qs v = Some w" "polite_history d qs" "normalize_hash h = h" "length h = 64"
    and "intel v h = Some (vd, pos, tot, t)" "normalize_hash s = h" "db_read_err env = None"
  shows "filter (\<lambda>x. fst x = h) (sent w) = filter (\<lambda>x. fst x = h) (sent v)
    \<and> (\<exists>u. lookup env s w = Some (Inr (Some \<lparr>hv_sha = h, hv_verdict = vd, hv_positives = pos,
          hv_total = tot, hv_cached = True\<rparr>), u) \<and> sent u = sent w)"
  using vt_run_known[OF assms(1,2,3,5)] assms
  by (simp add: lookup_def get_cached_def)

section \<open>Witnesses\<close>

definition demo_vt_env :: vt_env where
  "demo_vt_env = \<lparr>vt_lat = (\<lambda>k. 0), db_read_err = None, db_store_err = None,
     web = (\<lambda>h. Response 404 (Inl ValueError)), jitter01 = 0\<rparr>"

definition demo_vt :: vt_client where
  "demo_vt = vt_new (\<lambda>k. 0) ''key'' 15 [replicate 64 (CHR ''a'') \<mapsto> (''clean'', Some 0, Some 70, 1)]
     \<lparr>tnow = 100, ticks = 0\<rparr>"

lemma demo_polite: "polite_history 15 [(demo_vt_env, ''x'')]" "polite_lat 15 (\<lambda>k. 0)"
  by (simp_all add: polite_history_def polite_lat_def demo_vt_env_def)

lemma demo_hash:
  "normalize_hash (replicate 64 (CHR ''a'')) = replicate 64 (CHR ''a'')"
  "normalize_hash (replicate 64 (CHR ''A'')) = replicate 64 (CHR ''a'')"
  "length (normalize_hash ''x'') = 1"
  by code_simp+

lemma bucket_keeps_rate_witness:
  "\<exists>oks b' c'. acquire_run (\<lambda>k. 1) [0, 5, 60] (new_bucket 2 (1/15) 0) \<lparr>tnow = 3, ticks = 0\<rparr> = Some (oks, b', c')
    \<and> real (count_list oks True) \<le> 2 + 1 / 15 * (tnow c' - 0)"
  by (rule bucket_keeps_rate) simp_all

theorem requests_spaced_witness:
  "\<exists>w. vt_run [(demo_vt_env, ''x'')] (vt_new (\<lambda>k. 0) ''key'' 15 Map.empty \<lparr>tnow = 100, ticks = 0\<rparr>) = Some w
    \<and> stamps_spaced 15 (sent w)"
  using requests_spaced[OF _ demo_polite, of "\<lparr>tnow = 100, ticks = 0\<rparr>" "''key''" Map.empty] by auto

lemma answered_hash_not_sent_again_witness:
  "\<exists>u. lookup demo_vt_env (replicate 64 (CHR ''A'')) demo_vt
      = Some (Inr (Some \<lparr>hv_sha = replicate 64 (CHR ''a''), hv_verdict = ''clean'', hv_positives = Some 0,
          hv_total = Some 70, hv_cached = True\<rparr>), u) \<and> sent u = []"
proof -
  have "vt_run [(demo_vt_env, ''x'')] demo_vt = Some demo_vt"
    by (simp add: lookup_def demo_hash(3))
  moreover have "intel demo_vt (replicate 64 (CHR ''a'')) = Some (''clean'', Some 0, Some 70, 1)"
    "sent demo_vt = []" "db_read_err demo_vt_env = None"
    by (simp_all add: demo_vt_def vt_new_def read_time_def demo_vt_env_def)
  ultimately show ?thesis
    using answered_hash_not_sent_again[OF _ demo_polite(1) demo_hash(1) _ _ demo_hash(2)] by fastforce
qed

end
