(* ===== verification/Sensors.thy ===== *)
theory Sensors
  imports EventBus NativeCore VirusTotal
begin

text \<open>
  The sensors that run on Windows and, for files and connections, elsewhere: \<open>sensors/etw_sensor.py\<close>,
  \<open>sensors/network_sensor.py\<close>, \<open>sensors/fs_sensor.py\<close> and \<open>sensors/eventlog_sensor.py\<close>. Each turns what the
  system reports into events and publishes them on the bus. What \<open>psutil\<close>, \<open>pywintrace\<close>, \<open>watchdog\<close> and the
  event log report is a parameter. The lemmas show that nothing is published twice, that payloads are
  kept, and what an event tells about its file.
\<close>

section \<open>Event tracing\<close>

definition char_upper :: "char \<Rightarrow> char" where
  "char_upper c = (let n = (of_char c :: nat) in if 97 \<le> n \<and> n \<le> 122 then char_of (n - 32) else c)"

definition upper :: "string \<Rightarrow> string" where
  "upper s = map char_upper s"

definition based_digit :: "nat \<Rightarrow> char \<Rightarrow> nat option" where
  "based_digit b c =
     (let n = (of_char c :: nat);
          d = (if 48 \<le> n \<and> n \<le> 57 then n - 48 else if 97 \<le> n \<and> n \<le> 122 then n - 87
               else if 65 \<le> n \<and> n \<le> 90 then n - 55 else b)
      in if d < b then Some d else None)"

fun based_ok :: "nat \<Rightarrow> string \<Rightarrow> bool" where
  "based_ok b [] = False"
| "based_ok b [c] = (based_digit b c \<noteq> None)"
| "based_ok b (c # d # s) =
     (based_digit b c \<noteq> None \<and> (if d = CHR ''_'' then s \<noteq> [] \<and> based_ok b s else based_ok b (d # s)))"

definition read_based :: "nat \<Rightarrow> string \<Rightarrow> nat" where
  "read_based b s =
     foldl (\<lambda>n c. case based_digit b c of None \<Rightarrow> n | Some d \<Rightarrow> n * b + d) 0 s"

definition parse_prefixed :: "string \<Rightarrow> int option" where
  \<comment> \<open>\<open>int(s, 0)\<close> of a text that \<open>int(s)\<close> refuses: a literal in base 16, 8 or 2\<close>
  "parse_prefixed s =
     (let t = strip s; neg = (t \<noteq> [] \<and> hd t = CHR ''-'');
          u = (if t \<noteq> [] \<and> hd t \<in> {CHR ''-'', CHR ''+''} then tl t else t)
      in case u of
           z # x # r \<Rightarrow>
             let b = (if char_lower x = CHR ''x'' then 16 else if char_lower x = CHR ''o'' then 8
                      else if char_lower x = CHR ''b'' then 2 else 0);
                 ds = (case r of c # r' \<Rightarrow> if c = CHR ''_'' then r' else r | [] \<Rightarrow> r)
             in if z = CHR ''0'' \<and> 0 < b \<and> based_ok b ds
                then let n = int (read_based b ds) in Some (if neg then - n else n)
                else None
         | _ \<Rightarrow> None)"

definition etw_int :: "pyval \<Rightarrow> int option" where
  \<comment> \<open>\<open>_coerce_int\<close>\<close>
  "etw_int v =
     (if v = VNone \<or> v = VStr [] then None
      else case to_int v of Inr i \<Rightarrow> Some i | Inl e \<Rightarrow> parse_prefixed (py_str v))"

definition kernel_process :: string where
  "kernel_process = [CHR 0x7B] @ ''22fb2cd6-0e7b-422b-a0c7-2fad1fd0e716'' @ [CHR 0x7D]"

definition kernel_registry :: string where
  "kernel_registry = [CHR 0x7B] @ ''70eb4f03-c1de-4f73-a051-33d13d5413bd'' @ [CHR 0x7D]"

definition provider_events :: "string \<Rightarrow> (int option \<times> string) list option" where
  "provider_events guid =
     (if guid = kernel_process
      then Some [(Some 1, ''process_create''), (Some 2, ''process_exit''), (Some 5, ''image_load'')]
      else if guid = kernel_registry then Some [(None, ''registry_write'')]
      else None)"

definition etw_header :: "(string, pyval) dict \<Rightarrow> (string, pyval) dict option" where
  "etw_header ev = (case dict_get ev ''EventHeader'' of VDict h \<Rightarrow> Some h | _ \<Rightarrow> None)"

definition extract_provider_guid :: "(string, pyval) dict \<Rightarrow> string option" where
  "extract_provider_guid ev =
     (case etw_header ev of
        Some h \<Rightarrow> if truthy (dict_get h ''ProviderId'') then Some (py_str (dict_get h ''ProviderId'')) else
          map_option (\<lambda>k. py_str (dict_get ev k)) (find (\<lambda>k. truthy (dict_get ev k))
            [''ProviderId'', ''Provider Name'', ''provider_name'', ''ProviderGuid''])
      | None \<Rightarrow>
          map_option (\<lambda>k. py_str (dict_get ev k)) (find (\<lambda>k. truthy (dict_get ev k))
            [''ProviderId'', ''Provider Name'', ''provider_name'', ''ProviderGuid'']))"

definition extract_task_name :: "(string, pyval) dict \<Rightarrow> string option" where
  "extract_task_name ev =
     (let tn = dict_get ev ''Task Name'' in if truthy tn then Some (upper (py_str tn)) else None)"

definition classify_by_task :: "string option \<Rightarrow> string option" where
  "classify_by_task task =
     (case task of
        None \<Rightarrow> None
      | Some n \<Rightarrow>
          if startswith n ''PROCESSSTART'' then Some ''process_create''
          else if startswith n ''PROCESSSTOP'' then Some ''process_exit''
          else if startswith n ''IMAGELOAD'' then Some ''image_load'' else None)"

definition etw_classify :: "string option \<Rightarrow> int option \<Rightarrow> string option \<Rightarrow> string option" where
  "etw_classify guid eid task =
     (case (case guid of None \<Rightarrow> None | Some g \<Rightarrow> if g = [] then None else provider_events (lower g)) of
        None \<Rightarrow> classify_by_task task
      | Some table \<Rightarrow>
          (case map_of table eid of
             Some et \<Rightarrow> Some et
           | None \<Rightarrow> (case map_of table None of Some et \<Rightarrow> Some et | None \<Rightarrow> classify_by_task task)))"

definition absent :: "pyval \<Rightarrow> bool" where
  "absent v \<longleftrightarrow> v = VNone \<or> v = VStr []"

definition first_of :: "(string, pyval) dict \<Rightarrow> string list \<Rightarrow> pyval" where
  \<comment> \<open>\<open>get(*keys)\<close>\<close>
  "first_of ev ks = (case find (\<lambda>k. \<not> absent (dict_get ev k)) ks of None \<Rightarrow> VNone | Some k \<Rightarrow> dict_get ev k)"

definition image_keys :: "string list" where
  "image_keys = [''ImageName'', ''Image'', ''ImagePath'', ''FileName'', ''FullPathName'', ''image_path'']"

definition command_keys :: "string list" where
  "command_keys = [''CommandLine'', ''command_line'', ''CommandLineKey'', ''CmdLine'']"

definition pid_keys :: "string list" where
  "pid_keys = [''ProcessID'', ''ProcessId'', ''pid'', ''PID'']"

definition parent_keys :: "string list" where
  "parent_keys = [''ParentID'', ''ParentProcessId'', ''ParentProcessID'', ''parent_pid'']"

definition reserved_keys :: "string list" where
  "reserved_keys =
     image_keys @ command_keys @ pid_keys @ parent_keys
     @ [''ProviderId'', ''Provider Name'', ''provider_name'', ''ProviderGuid'',
        ''Task Name'', ''EventID'', ''event_id'', ''EventHeader'']"

definition opt_text :: "pyval \<Rightarrow> string option" where
  "opt_text v = (if v = VNone then None else Some (py_str v))"

definition etw_extra ::
  "int option \<Rightarrow> string option \<Rightarrow> string option \<Rightarrow> (string, pyval) dict \<Rightarrow> (string, pyval) dict
    \<Rightarrow> (string, pyval) dict" where
  "etw_extra eid guid task h ev =
     (let x0 = filter (\<lambda>(k, v). k \<notin> set reserved_keys \<and> \<not> absent v) ev;
          x1 = AList.update ''etw_event_id'' (of_opt_int eid) x0;
          x2 = AList.update ''provider_guid'' (of_opt_str guid) x1;
          x3 = AList.update ''task_name'' (of_opt_str task) x2;
          hp = dict_get h ''ProcessId''
      in if hp \<noteq> VNone then AList.update ''header_process_id'' (of_opt_int (etw_int hp)) x3 else x3)"

definition normalize_etw_event :: "string \<Rightarrow> int option \<Rightarrow> (string, pyval) dict \<Rightarrow> event option py_result" where
  "normalize_etw_event now eid ev =
     (let guid = extract_provider_guid ev; task = extract_task_name ev in
      case etw_classify guid eid task of
        None \<Rightarrow> Inr None
      | Some et \<Rightarrow>
          let h = (case etw_header ev of None \<Rightarrow> [] | Some h \<Rightarrow> h);
              p = (case etw_int (first_of ev pid_keys) of
                     None \<Rightarrow> etw_int (dict_get h ''ProcessId'') | Some i \<Rightarrow> Some i)
          in bind_res (post_init \<lparr>timestamp = now, source = ''etw_process'', event_type = et, pid = p,
                 parent_pid = etw_int (first_of ev parent_keys),
                 image_path = opt_text (first_of ev image_keys),
                 command_line = opt_text (first_of ev command_keys), hash_sha256 = None,
                 extra = etw_extra eid guid task h ev\<rparr>) (\<lambda>e. Inr (Some e)))"

definition etw_on_event :: "string \<Rightarrow> int option \<Rightarrow> (string, pyval) dict \<Rightarrow> bus \<Rightarrow> bus" where
  "etw_on_event now eid ev b =
     (case normalize_etw_event now eid ev of Inr (Some e) \<Rightarrow> snd (publish e b) | _ \<Rightarrow> b)"

section \<open>Connections\<close>

record net_conn =
  nc_status :: string
  nc_raddr :: "(string \<times> int) option"
  nc_laddr :: "(string \<times> int) option"
  nc_pid :: "int option"

record conn_key =
  ck_pid :: "int option"
  ck_local :: string
  ck_remote :: string
  ck_status :: string

record net_sensor =
  ns_bus :: bus
  ns_seen :: "conn_key set"
  ns_baseline :: bool
  ns_running :: bool

record net_env =
  ne_conns :: "net_conn list option"
  ne_name :: "int \<Rightarrow> string option"
  ne_exe :: "int \<Rightarrow> string option"
  ne_now :: string

definition new_net_sensor :: "bus \<Rightarrow> bool \<Rightarrow> net_sensor" where
  "new_net_sensor b base = \<lparr>ns_bus = b, ns_seen = {}, ns_baseline = base, ns_running = False\<rparr>"

definition interesting_statuses :: "string list" where
  "interesting_statuses = [''ESTABLISHED'', ''SYN_SENT'', ''SYN_RECV'']"

definition safe_addr :: "(string \<times> int) option \<Rightarrow> string \<times> int option" where
  "safe_addr a = (case a of None \<Rightarrow> ([], None) | Some (ip, port) \<Rightarrow> (ip, Some port))"

definition addr_text :: "string \<times> int option \<Rightarrow> string" where
  "addr_text a = fst a @ '':'' @ (case snd a of None \<Rightarrow> ''None'' | Some p \<Rightarrow> show_int p)"

definition conn_key_of :: "net_conn \<Rightarrow> conn_key" where
  "conn_key_of c =
     \<lparr>ck_pid = nc_pid c, ck_local = addr_text (safe_addr (nc_laddr c)),
      ck_remote = addr_text (safe_addr (nc_raddr c)), ck_status = nc_status c\<rparr>"

definition outbound :: "net_conn \<Rightarrow> bool" where
  "outbound c \<longleftrightarrow> nc_status c \<in> set interesting_statuses \<and> fst (safe_addr (nc_raddr c)) \<noteq> []"

fun new_conns :: "net_conn list \<Rightarrow> conn_key set \<Rightarrow> net_conn list \<times> conn_key set" where
  "new_conns [] seen = ([], seen)"
| "new_conns (c # cs) seen =
     (if outbound c \<and> conn_key_of c \<notin> seen
      then case new_conns cs (insert (conn_key_of c) seen) of (ds, seen') \<Rightarrow> (c # ds, seen')
      else new_conns cs seen)"

definition conn_event :: "net_env \<Rightarrow> net_conn \<Rightarrow> event" where
  "conn_event env c =
     (let p = (if nc_pid c = None \<or> nc_pid c = Some 0 then None else nc_pid c);
          name = Option.bind p (ne_name env);
          exe = (if name = None then None else Option.bind p (ne_exe env))
      in \<lparr>timestamp = ne_now env, source = ''network'', event_type = ''connection'', pid = p,
          parent_pid = None, image_path = exe, command_line = name, hash_sha256 = None,
          extra = [(''remote_ip'', VStr (fst (safe_addr (nc_raddr c)))),
                   (''dest_port'', of_opt_int (snd (safe_addr (nc_raddr c)))),
                   (''local_ip'', VStr (fst (safe_addr (nc_laddr c)))),
                   (''local_port'', of_opt_int (snd (safe_addr (nc_laddr c)))),
                   (''status'', VStr (nc_status c)), (''process_name'', of_opt_str name)]\<rparr>)"

definition net_snapshot :: "net_env \<Rightarrow> net_sensor \<Rightarrow> event list \<times> net_sensor" where
  "net_snapshot env st =
     (case ne_conns env of
        None \<Rightarrow> ([], st)
      | Some cs \<Rightarrow>
          (case new_conns cs (ns_seen st) of
             (ds, seen) \<Rightarrow> (map (conn_event env) ds, st\<lparr>ns_seen := seen\<rparr>)))"

definition publish_all :: "event list \<Rightarrow> bus \<Rightarrow> bus" where
  "publish_all es b = foldl (\<lambda>b e. snd (publish e b)) b es"

definition net_poll :: "net_env \<Rightarrow> net_sensor \<Rightarrow> nat \<times> net_sensor" where
  "net_poll env st =
     (case net_snapshot env st of
        (es, st1) \<Rightarrow> (length es, st1\<lparr>ns_bus := publish_all es (ns_bus st1)\<rparr>))"

definition establish_baseline :: "net_env \<Rightarrow> net_sensor \<Rightarrow> net_sensor" where
  "establish_baseline env st = snd (net_snapshot env st)"

definition net_start :: "net_env \<Rightarrow> net_sensor \<Rightarrow> net_sensor" where
  "net_start env st =
     (if ns_running st then st
      else (if ns_baseline st then establish_baseline env st else st)\<lparr>ns_running := True\<rparr>)"

fun net_loop :: "net_env list \<Rightarrow> net_sensor \<Rightarrow> net_sensor" where
  "net_loop [] st = st"
| "net_loop (env # envs) st = net_loop envs (snd (net_poll env st))"

section \<open>Files\<close>

record fs_env =
  fe_os :: os
  fe_native :: "native_lib option"
  fe_sha :: "bytes \<Rightarrow> string"
  fe_now :: string

definition max_sample :: nat where
  "max_sample = 1024 * 1024"

definition shannon_entropy :: "native_lib option \<Rightarrow> bytes \<Rightarrow> real" where
  "shannon_entropy lib d = (if d = [] then 0 else fast_entropy lib d)"

definition is_dir :: "os \<Rightarrow> string \<Rightarrow> fs \<Rightarrow> bool" where
  "is_dir os p s = (case resolve os p of None \<Rightarrow> False | Some c \<Rightarrow> c \<in> dirs s)"

definition stat_size :: "os \<Rightarrow> string \<Rightarrow> fs \<Rightarrow> nat option" where
  "stat_size os p s = map_option (\<lambda>(c, f). length (content f)) (find_file os p s)"

definition sample_of :: "fs_env \<Rightarrow> string \<Rightarrow> fs \<Rightarrow> real option \<times> string option \<times> nat option" where
  \<comment> \<open>entropy, hash and size; \<open>None\<close> for what could not be obtained\<close>
  "sample_of env p s =
     (case stat_size (fe_os env) p s of
        None \<Rightarrow> (None, None, None)
      | Some n \<Rightarrow>
          (case read_bytes (fe_os env) p s of
             Inl e \<Rightarrow> (None, None, Some n)
           | Inr d \<Rightarrow>
               let x = take max_sample d; h = fe_sha env x
               in (Some (round_to 3 (shannon_entropy (fe_native env) x)),
                   Some (if length x < n \<and> max_sample \<le> length x then h @ '' (sample)'' else h),
                   Some n)))"

definition fs_extra :: "string \<Rightarrow> string \<Rightarrow> real option \<Rightarrow> nat option \<Rightarrow> (string, pyval) dict" where
  "fs_extra act base ent sz =
     [(''action'', VStr act), (''watched_root'', VStr base),
      (''entropy'', case ent of None \<Rightarrow> VNone | Some x \<Rightarrow> VFloat x),
      (''size_bytes'', of_opt_int (map_option int sz))]"

definition fs_event :: "fs_env \<Rightarrow> string \<Rightarrow> string option \<Rightarrow> (string, pyval) dict \<Rightarrow> event" where
  "fs_event env p h x =
     \<lparr>timestamp = fe_now env, source = ''fs'', event_type = ''file_write'', pid = None, parent_pid = None,
      image_path = Some p, command_line = None, hash_sha256 = h, extra = x\<rparr>"

definition emit_file :: "fs_env \<Rightarrow> string \<Rightarrow> fs \<Rightarrow> string \<Rightarrow> string \<Rightarrow> bus \<Rightarrow> bus" where
  "emit_file env base s p act b =
     (if is_dir (fe_os env) p s then b
      else case sample_of env p s of
             (ent, h, sz) \<Rightarrow> snd (publish (fs_event env p h (fs_extra act base ent sz)) b))"

datatype fs_notice = Created string | Modified string | Moved string string | Deleted string

fun fs_handle :: "fs_env \<Rightarrow> string \<Rightarrow> fs \<Rightarrow> bool \<Rightarrow> fs_notice \<Rightarrow> bus \<Rightarrow> bus" where
  \<comment> \<open>the handlers of \<open>watchdog\<close>'s notices; the Boolean tells whether it is about a directory\<close>
  "fs_handle env base s True n b = b"
| "fs_handle env base s False (Created p) b = emit_file env base s p ''created'' b"
| "fs_handle env base s False (Modified p) b = emit_file env base s p ''modified'' b"
| "fs_handle env base s False (Moved p q) b = emit_file env base s q ''moved'' b"
| "fs_handle env base s False (Deleted p) b =
     snd (publish (fs_event env p None (fs_extra ''deleted'' base None None)) b)"

definition fs_watched :: "(string \<Rightarrow> bool) \<Rightarrow> (string \<Rightarrow> string) \<Rightarrow> string list option \<Rightarrow> string list \<Rightarrow> string list" where
  \<comment> \<open>the folders that exist, after expansion; \<open>std\<close> are the default ones\<close>
  "fs_watched ex expand given std = filter ex (map expand (case given of None \<Rightarrow> std | Some fs \<Rightarrow> fs))"

definition sample_sha256 :: "(bytes \<Rightarrow> string) \<Rightarrow> nat option \<Rightarrow> bytes \<Rightarrow> string" where
  \<comment> \<open>\<open>sha256_of\<close>: whole chunks of 65536 bytes until the limit is reached\<close>
  "sample_sha256 sha limit d =
     sha (case limit of None \<Rightarrow> d | Some n \<Rightarrow> take (max 1 ((n + 65535) div 65536) * 65536) d)"

section \<open>The event log\<close>

datatype sid = NoSid | NullSid | Sid

record log_record =
  lr_id :: int
  lr_number :: int
  lr_strings :: "string option list option"
  lr_sid :: sid

definition failed_logon :: int where
  "failed_logon = 4625"

definition nonempty :: "string option \<Rightarrow> string option" where
  \<comment> \<open>\<open>_safe_str\<close>\<close>
  "nonempty x = (if x = Some [] then None else x)"

definition text_int :: "string option \<Rightarrow> int option" where
  \<comment> \<open>\<open>_coerce_int\<close> of the event log sensor\<close>
  "text_int x =
     (case x of None \<Rightarrow> None | Some t \<Rightarrow> (case parse_int t of Inl e \<Rightarrow> None | Inr i \<Rightarrow> Some i))"

definition local_addresses :: "string list" where
  "local_addresses = [''-'', ''::1'', ''127.0.0.1'', [], '' '']"

definition normalize_4625 :: "string \<Rightarrow> log_record \<Rightarrow> (event \<times> bool) option" where
  \<comment> \<open>with whether the database can store the event: it refuses a process id that is a SID object\<close>
  "normalize_4625 now r =
     (case lr_strings r of
        None \<Rightarrow> None
      | Some xs \<Rightarrow>
          if length xs < 18 then None
          else case nonempty (xs ! 5) of
                 None \<Rightarrow> None
               | Some user \<Rightarrow>
                   let ip = (if 18 < length xs then nonempty (xs ! 18) else None);
                       host = (case ip of
                                 None \<Rightarrow> ''localhost''
                               | Some a \<Rightarrow> if a \<in> set local_addresses then ''localhost'' else a)
                   in Some (\<lparr>timestamp = now, source = ''eventlog'', event_type = ''login_failed'', pid = None,
                             parent_pid = None, image_path = None, command_line = None, hash_sha256 = None,
                             extra = [(''target_user'', VStr user),
                                      (''target_domain'', of_opt_str (nonempty (xs ! 6))),
                                      (''source_host'', VStr host),
                                      (''logon_type'', of_opt_int (text_int (xs ! 10))),
                                      (''workstation'', of_opt_str (nonempty (xs ! 12))),
                                      (''event_record_number'', VInt (lr_number r))]\<rparr>,
                            lr_sid r \<noteq> Sid))"

fun poll_records :: "string \<Rightarrow> log_record list \<Rightarrow> int \<Rightarrow> (event \<times> bool) list \<times> int" where
  "poll_records now [] k = ([], k)"
| "poll_records now (r # rs) k =
     (if lr_id r \<noteq> failed_logon \<or> lr_number r \<le> k then poll_records now rs k
      else case poll_records now rs (lr_number r) of
             (es, k') \<Rightarrow> ((case normalize_4625 now r of None \<Rightarrow> es | Some e \<Rightarrow> e # es), k'))"

record log_sensor =
  ls_bus :: bus
  ls_seen :: int

definition new_log_sensor :: "bus \<Rightarrow> log_sensor" where
  "new_log_sensor b = \<lparr>ls_bus = b, ls_seen = 0\<rparr>"

definition poll_log :: "string \<Rightarrow> log_record list option \<Rightarrow> log_sensor \<Rightarrow> (event \<times> bool) list \<times> log_sensor" where
  \<comment> \<open>\<open>poll_once\<close>: \<open>None\<close> without elevation, else the records that could be read\<close>
  "poll_log now rs st =
     (case rs of
        None \<Rightarrow> ([], st)
      | Some rs \<Rightarrow> (case poll_records now rs (ls_seen st) of (es, k) \<Rightarrow> (es, st\<lparr>ls_seen := k\<rparr>)))"

fun publish_until :: "(event \<times> bool) list \<Rightarrow> bus \<Rightarrow> bus" where
  \<comment> \<open>the loop over the events of a poll, which an exception of \<open>publish\<close> ends\<close>
  "publish_until [] b = b"
| "publish_until ((e, ok) # es) b = (if ok then publish_until es (snd (publish e b)) else b)"

definition log_iteration :: "string \<Rightarrow> log_record list option \<Rightarrow> log_sensor \<Rightarrow> log_sensor" where
  "log_iteration now rs st =
     (case poll_log now rs st of (es, st1) \<Rightarrow> st1\<lparr>ls_bus := publish_until es (ls_bus st1)\<rparr>)"

section \<open>Lemmas\<close>

lemma publish_event [simp]: "map snd (rows (snd (publish e b))) = map snd (rows b) @ [e]"
  by (simp add: publish_def persist_def Let_def enqueue_fields)

lemma publish_all_rows: "map snd (rows (publish_all es b)) = map snd (rows b) @ es"
  by (induction es arbitrary: b) (simp_all add: publish_all_def)

lemma new_conns_facts:
  assumes "new_conns cs seen = (ds, seen')"
  shows "seen' = seen \<union> conn_key_of ` {c \<in> set cs. outbound c}"
    and "distinct (map conn_key_of ds)" and "conn_key_of ` set ds = seen' - seen"
proof -
  have "seen' = seen \<union> conn_key_of ` {c \<in> set cs. outbound c} \<and> distinct (map conn_key_of ds)
      \<and> conn_key_of ` set ds = seen' - seen"
    using assms
  proof (induction cs arbitrary: seen ds)
    case (Cons c cs)
    show ?case
    proof (cases "outbound c \<and> conn_key_of c \<notin> seen")
      case True
      then obtain es where e: "new_conns cs (insert (conn_key_of c) seen) = (es, seen')" "ds = c # es"
        using Cons.prems by (auto split: prod.splits)
      note ih = Cons.IH[OF e(1)]
      then show ?thesis using True e(2) by auto
    next
      case False
      then have "new_conns cs seen = (ds, seen')" using Cons.prems by (auto split: if_splits)
      from Cons.IH[OF this] False show ?thesis by auto
    qed
  qed auto
  then show "seen' = seen \<union> conn_key_of ` {c \<in> set cs. outbound c}"
    "distinct (map conn_key_of ds)" "conn_key_of ` set ds = seen' - seen" by auto
qed

definition observed :: "net_env list \<Rightarrow> conn_key set" where
  "observed envs = {conn_key_of c | c cs env. env \<in> set envs \<and> ne_conns env = Some cs \<and> c \<in> set cs \<and> outbound c}"

lemma observed_Cons:
  "observed (env # envs) =
     (case ne_conns env of None \<Rightarrow> {} | Some cs \<Rightarrow> conn_key_of ` {c \<in> set cs. outbound c}) \<union> observed envs"
  by (auto simp: observed_def split: option.split)

lemma net_poll_facts:
  "\<exists>ds. map snd (rows (ns_bus (snd (net_poll env st)))) = map snd (rows (ns_bus st)) @ map (conn_event env) ds
     \<and> distinct (map conn_key_of ds) \<and> conn_key_of ` set ds = ns_seen (snd (net_poll env st)) - ns_seen st
     \<and> ns_seen (snd (net_poll env st)) = ns_seen st \<union> observed [env]"
proof (cases "ne_conns env")
  case None
  then show ?thesis
    by (intro exI[of _ "[]"]) (simp add: net_poll_def net_snapshot_def publish_all_def observed_def)
next
  case (Some cs)
  obtain ds seen where n: "new_conns cs (ns_seen st) = (ds, seen)" by fastforce
  show ?thesis
    using Some n new_conns_facts[OF n]
    by (intro exI[of _ ds])
      (auto simp: net_poll_def net_snapshot_def publish_all_rows observed_Cons, auto simp: observed_def)
qed


section \<open>What the other sensors publish\<close>

lemma max_sample_eq: "max_sample = 2 ^ 20"
  by (simp add: max_sample_def)

text \<open>The event about a created, changed or moved file that can be read is valid, names the file and carries
  the digest of its bytes, of the first mebibyte with a mark when there are more, and an entropy between
  0 and 8.\<close>

lemma file_event_describes_content:
  assumes "find_file (fe_os env) p s = Some (c, f)" "read_err (fe_os env) c = None" "\<not> is_dir (fe_os env) p s"
    and "n \<in> {Created p, Modified p, Moved q p}" "fe_native env = None"
  shows "\<exists>e x. fs_handle env base s False n b = snd (publish e b) \<and> valid_event e \<and> image_path e = Some p
    \<and> hash_sha256 e = Some (if length (content f) \<le> 2 ^ 20 then fe_sha env (content f)
                            else fe_sha env (take (2 ^ 20) (content f)) @ '' (sample)'')
    \<and> dict_get (extra e) ''entropy'' = VFloat x \<and> 0 \<le> x \<and> x \<le> 8
    \<and> dict_get (extra e) ''size_bytes'' = VInt (int (length (content f)))"
proof -
  let ?d = "content f" and ?x = "take max_sample (content f)"
  have rd: "read_bytes (fe_os env) p s = Inr ?d" using assms(1,2) by (simp add: read_bytes_def)
  have m: "(length ?x < length ?d \<and> max_sample \<le> length ?x) \<longleftrightarrow> \<not> length ?d \<le> max_sample" by auto
  have sm: "sample_of env p s = (Some (round_to 3 (shannon_entropy None ?x)),
      Some (if length ?d \<le> max_sample then fe_sha env ?x else fe_sha env ?x @ '' (sample)''),
      Some (length ?d))"
    using assms(1,5) rd m by (simp add: sample_of_def stat_size_def Let_def)
  have b: "0 \<le> shannon_entropy None ?x \<and> shannon_entropy None ?x \<le> 8"
    using entropy_bounds[of ?x] by (auto simp: shannon_entropy_def)
  have "round_to 3 0 = 0" "round_to 3 8 = 8"
    using round_half_even_of_int[of 0] round_half_even_of_int[of 8000] by (simp_all add: round_to_def)
  then have r: "0 \<le> round_to 3 (shannon_entropy None ?x)" "round_to 3 (shannon_entropy None ?x) \<le> 8"
    using round_to_mono[of 0 "shannon_entropy None ?x" 3] round_to_mono[of "shannon_entropy None ?x" 8 3] b
    by simp_all
  obtain act where "fs_handle env base s False n b = emit_file env base s p act b"
    using assms(4) by auto
  then have "fs_handle env base s False n b =
      snd (publish (fs_event env p (Some (if length ?d \<le> max_sample then fe_sha env ?x
          else fe_sha env ?x @ '' (sample)''))
        (fs_extra act base (Some (round_to 3 (shannon_entropy None ?x))) (Some (length ?d)))) b)"
    using assms(3) sm by (simp add: emit_file_def)
  then show ?thesis
    by (intro exI conjI, assumption)
      (use r max_sample_eq in \<open>auto simp: fs_event_def fs_extra_def post_init_def sources_def event_types_def
        dict_get_def\<close>)
qed

definition demo_fs_env :: fs_env where
  "demo_fs_env =
     \<lparr>fe_os = \<lparr>seps = [CHR 0x5C], resolve = Some, is_link = (\<lambda>p. False), read_err = (\<lambda>p. None),
        write_err = (\<lambda>p a. None), unlink_err = (\<lambda>p. None), mkdir_err = (\<lambda>p. None),
        chmod_err = (\<lambda>p. None), attr_api = True, attr_ok = (\<lambda>p. True), ace_ok = (\<lambda>p. True)\<rparr>,
      fe_native = None, fe_sha = (\<lambda>d. ''digest''), fe_now = ''now''\<rparr>"

definition demo_dir :: fs where
  "demo_dir = \<lparr>files = [''a'' \<mapsto> \<lparr>content = ''MZ'', mode = 420, attrs = 0, deny_exec = False\<rparr>], dirs = {}\<rparr>"

lemma file_event_describes_content_witness:
  "\<exists>e. fs_handle demo_fs_env ''d'' demo_dir False (Moved ''b'' ''a'') (new_bus 10 5) = snd (publish e (new_bus 10 5))
     \<and> hash_sha256 e = Some ''digest'' \<and> dict_get (extra e) ''size_bytes'' = VInt 2"
proof -
  have "find_file (fe_os demo_fs_env) ''a'' demo_dir
      = Some (''a'', \<lparr>content = ''MZ'', mode = 420, attrs = 0, deny_exec = False\<rparr>)"
    "read_err (fe_os demo_fs_env) ''a'' = None" "\<not> is_dir (fe_os demo_fs_env) ''a'' demo_dir"
    "fe_native demo_fs_env = None"
    by (simp_all add: find_file_def is_dir_def demo_fs_env_def demo_dir_def)
  from file_event_describes_content[OF this(1-3) _ this(4), of "Moved ''b'' ''a''" "''b''" "''d''" "new_bus 10 5"]
  show ?thesis by (auto simp: demo_fs_env_def)
qed

definition record_number :: "event \<Rightarrow> int" where
  "record_number e = (case dict_get (extra e) ''event_record_number'' of VInt i \<Rightarrow> i | _ \<Rightarrow> 0)"

lemma normalize_4625_shape:
  assumes "normalize_4625 now r = Some (e, ok)"
  shows "source e = ''eventlog'' \<and> event_type e = ''login_failed''
    \<and> (\<exists>u d h l w. extra e = [(''target_user'', u), (''target_domain'', d), (''source_host'', h),
          (''logon_type'', l), (''workstation'', w), (''event_record_number'', VInt (lr_number r))])"
proof (cases "lr_strings r")
  case None
  then show ?thesis using assms by (simp add: normalize_4625_def)
next
  case (Some xs)
  then have "\<not> length xs < 18" using assms by (auto simp: normalize_4625_def)
  moreover from this Some assms obtain u where "nonempty (xs ! 5) = Some u"
    by (cases "nonempty (xs ! 5)") (simp_all add: normalize_4625_def)
  ultimately show ?thesis using assms Some unfolding normalize_4625_def Let_def by (simp, elim conjE, hypsubst, simp)
qed

lemma normalize_4625_number:
  assumes "normalize_4625 now r = Some (e, ok)"
  shows "record_number e = lr_number r \<and> valid_event e"
  using normalize_4625_shape[OF assms]
  by (elim conjE exE) (simp add: record_number_def dict_get_def post_init_def sources_def event_types_def)

lemma poll_records_facts:
  assumes "poll_records now rs k = (es, k')"
  shows "k \<le> k' \<and> sorted_wrt (<) (map (record_number \<circ> fst) es)
    \<and> (\<forall>x \<in> set es. k < record_number (fst x) \<and> record_number (fst x) \<le> k' \<and> valid_event (fst x))
    \<and> (\<forall>r \<in> set rs. lr_id r = failed_logon \<longrightarrow> lr_number r \<le> k')"
  using assms
proof (induction rs arbitrary: k es)
  case (Cons r rs)
  show ?case
  proof (cases "lr_id r \<noteq> failed_logon \<or> lr_number r \<le> k")
    case True
    then have "poll_records now rs k = (es, k')" using Cons.prems by simp
    from Cons.IH[OF this] True show ?thesis by auto
  next
    case False
    then obtain fs where f: "poll_records now rs (lr_number r) = (fs, k')"
      "es = (case normalize_4625 now r of None \<Rightarrow> fs | Some e \<Rightarrow> e # fs)"
      using Cons.prems by (auto split: prod.splits)
    note ih = Cons.IH[OF f(1)]
    have num: "k < lr_number r" using False by simp
    show ?thesis
    proof (cases "normalize_4625 now r")
      case None
      then show ?thesis using ih num f(2) by auto
    next
      case (Some x)
      then have x: "es = x # fs" "record_number (fst x) = lr_number r" "valid_event (fst x)"
        using f(2) normalize_4625_number[of now r "fst x" "snd x"] by auto
      show ?thesis unfolding x(1) using ih num x(2,3) by auto
    qed
  qed
qed simp

fun log_loop :: "(string \<times> log_record list option) list \<Rightarrow> log_sensor \<Rightarrow> (event \<times> bool) list \<times> log_sensor" where
  \<comment> \<open>iterations, with the events that the polls gave\<close>
  "log_loop [] st = ([], st)"
| "log_loop ((now, rs) # qs) st =
     (case log_loop qs (log_iteration now rs st) of
        (es, st') \<Rightarrow> (fst (poll_log now rs st) @ es, st'))"

lemma log_iteration_seen: "ls_seen (log_iteration now rs st) = ls_seen (snd (poll_log now rs st))"
  by (simp add: log_iteration_def split: prod.split)

lemma poll_log_facts:
  assumes "poll_log now rs st = (es, st')"
  shows "ls_seen st \<le> ls_seen st' \<and> sorted_wrt (<) (map (record_number \<circ> fst) es)
    \<and> (\<forall>x \<in> set es. ls_seen st < record_number (fst x) \<and> record_number (fst x) \<le> ls_seen st' \<and> valid_event (fst x))
    \<and> (\<forall>xs. rs = Some xs \<longrightarrow> (\<forall>r \<in> set xs. lr_id r = failed_logon \<longrightarrow> lr_number r \<le> ls_seen st'))"
proof (cases rs)
  case None
  then show ?thesis using assms by (auto simp: poll_log_def)
next
  case (Some xs)
  obtain fs k where p: "poll_records now xs (ls_seen st) = (fs, k)" by fastforce
  then have e: "es = fs" "ls_seen st' = k" using assms Some by (auto simp: poll_log_def)
  show ?thesis using poll_records_facts[OF p] Some unfolding e by simp
qed

text \<open>Over any sequence of polls, whatever the log holds each time, every event about a failed logon is valid
  and is given once: their record numbers increase strictly.\<close>

lemma failed_logons_given_once:
  "sorted_wrt (<) (map (record_number \<circ> fst) (fst (log_loop qs st)))
   \<and> list_all (\<lambda>x. valid_event (fst x) \<and> ls_seen st < record_number (fst x)) (fst (log_loop qs st))"
proof -
  have "sorted_wrt (<) (map (record_number \<circ> fst) (fst (log_loop qs st)))
   \<and> (\<forall>x \<in> set (fst (log_loop qs st)). valid_event (fst x) \<and> ls_seen st < record_number (fst x))"
  proof (induction qs arbitrary: st)
    case (Cons q qs)
    obtain now rs where q: "q = (now, rs)" by fastforce
    obtain es st1 where p: "poll_log now rs st = (es, st1)" by fastforce
    have s: "ls_seen (log_iteration now rs st) = ls_seen st1" using p by (simp add: log_iteration_seen)
    note f = poll_log_facts[OF p]
    have l: "fst (log_loop (q # qs) st) = es @ fst (log_loop qs (log_iteration now rs st))"
      by (simp add: q p split: prod.split)
    let ?ls = "fst (log_loop qs (log_iteration now rs st))"
    have u: "sorted_wrt (<) (map (record_number \<circ> fst) ?ls)"
      "\<forall>x \<in> set ?ls. valid_event (fst x) \<and> ls_seen st1 < record_number (fst x)"
      using Cons.IH[of "log_iteration now rs st"] unfolding s by blast+
    have "\<forall>x \<in> set es. \<forall>y \<in> set ?ls. record_number (fst x) < record_number (fst y)"
      using f u(2) by (meson le_less_trans)
    moreover have "\<forall>x \<in> set ?ls. ls_seen st < record_number (fst x)"
      using f u(2) by (meson le_less_trans)
    ultimately show ?case unfolding l using f u by (auto simp: sorted_wrt_append comp_def)
  qed simp
  then show ?thesis by (simp add: list_all_iff)
qed

lemma map_of_filter_kept:
  "map_of d k = Some v \<Longrightarrow> P (k, v) \<Longrightarrow> map_of (filter P d) k = Some v"
  by (induction d) auto

lemma etw_types: "etw_classify g i t = Some et \<Longrightarrow> et \<in> set event_types"
  by (auto simp: etw_classify_def provider_events_def classify_by_task_def event_types_def
      split: option.splits if_splits)

text \<open>Normalising a trace event never raises; an event it gives is valid and keeps every field of the
  payload that is neither empty nor has a place of its own, and the process id is the payload's, or the
  header's when the payload has none.\<close>

lemma etw_event_keeps_payload:
  "case normalize_etw_event now eid ev of
     Inl e \<Rightarrow> False
   | Inr None \<Rightarrow> etw_classify (extract_provider_guid ev) eid (extract_task_name ev) = None
   | Inr (Some e) \<Rightarrow> valid_event e
      \<and> (map_of ev k = Some v \<longrightarrow> k \<notin> set reserved_keys \<longrightarrow> \<not> absent v
          \<longrightarrow> k \<notin> {''etw_event_id'', ''provider_guid'', ''task_name'', ''header_process_id''}
          \<longrightarrow> map_of (extra e) k = Some v)
      \<and> (\<forall>i. etw_int (first_of ev pid_keys) = Some i \<longrightarrow> pid e = Some i)"
proof (cases "etw_classify (extract_provider_guid ev) eid (extract_task_name ev)")
  case None
  then show ?thesis by (simp add: normalize_etw_event_def Let_def)
next
  case (Some et)
  note t = etw_types[OF Some]
  have kept: "map_of (etw_extra eid g tk h ev) k = Some v"
    if "map_of ev k = Some v" "k \<notin> set reserved_keys" "\<not> absent v"
      "k \<notin> {''etw_event_id'', ''provider_guid'', ''task_name'', ''header_process_id''}" for g tk h
    using map_of_filter_kept[OF that(1), of "\<lambda>(k, v). k \<notin> set reserved_keys \<and> \<not> absent v"] that(2-4)
    by (simp add: etw_extra_def Let_def update_conv')
  show ?thesis
    unfolding normalize_etw_event_def Let_def Some
    using t kept by (simp add: post_init_def sources_def)
qed

definition demo_etw :: "(string, pyval) dict" where
  "demo_etw =
     [(''EventHeader'', VDict [(''ProviderId'', VStr kernel_process), (''ProcessId'', VInt 9)]),
      (''ProcessID'', VInt 4), (''SessionID'', VInt 1)]"

lemma etw_event_keeps_payload_witness:
  "\<exists>e. normalize_etw_event ''now'' (Some 1) demo_etw = Inr (Some e) \<and> valid_event e \<and> pid e = Some 4
     \<and> map_of (extra e) ''SessionID'' = Some (VInt 1)"
proof -
  have "etw_classify (extract_provider_guid demo_etw) (Some 1) (extract_task_name demo_etw) \<noteq> None"
    "map_of demo_etw ''SessionID'' = Some (VInt 1)" "''SessionID'' \<notin> set reserved_keys" "\<not> absent (VInt 1)"
    "etw_int (first_of demo_etw pid_keys) = Some 4"
    by code_simp+
  moreover have "''SessionID'' \<notin> {''etw_event_id'', ''provider_guid'', ''task_name'', ''header_process_id''}" by simp
  ultimately show ?thesis
    using etw_event_keeps_payload[where now="''now''" and eid="Some 1" and ev=demo_etw and k="''SessionID''" and v="VInt 1"]
    by (auto split: sum.splits option.splits)
qed

end
