(* ===== verification/Scoring.thy ===== *)
theory Scoring
  imports Prelude
begin

text \<open>
  \<open>engine/scoring.py\<close>: signals and their weights, the score of a subject, the layered rules for
  image loads with the reputation cache, and the scorer that decides whether to respond. The
  lock of the scorer is held for a whole operation, so each operation is one state transition.
  \<open>now\<close> is what \<open>time.time()\<close> returns during the call.
\<close>

section \<open>Signals\<close>

definition weights :: "(string \<times> real) list" where
  "weights =
     [(''rule_match_high'', 40), (''rule_match_medium'', 20), (''rule_match_low'', 10),
      (''dll_cross_process'', 25), (''dll_reflective'', 45), (''dll_unsigned'', 10),
      (''dll_abnormal_host'', 15), (''cpu_sustained'', 30), (''stratum_network'', 30),
      (''entropy_spike'', 30), (''mass_modification'', 30), (''canary_tripped'', 85),
      (''failed_login_burst'', 25), (''yara_match'', 85), (''vt_positive'', 50),
      (''vt_unknown_suspicious_pe'', 15), (''pe_masquerade'', 85), (''pe_double_extension'', 85),
      (''suspicious_parent_child'', 20), (''memory_unbacked_exec'', 45), (''memory_shellcode'', 80),
      (''memory_hollowing'', 85), (''c2_beaconing'', 40), (''c2_threat_intel'', 85),
      (''sandbox_malicious'', 85), (''sandbox_suspicious'', 35), (''sandbox_unpacked_yara'', 90),
      (''sandbox_injection_chain'', 75), (''sandbox_rwx_unpack'', 50),
      (''sandbox_evasion_detected'', 35)]"

record signal =
  kind :: string
  subject :: string
  reason :: string
  weight :: "real option"
  engine :: string
  sig_time :: real

definition mk_signal ::
  "real \<Rightarrow> string \<Rightarrow> string \<Rightarrow> string \<Rightarrow> string \<Rightarrow> real option \<Rightarrow> real option \<Rightarrow> signal" where
  \<comment> \<open>\<open>Signal(kind, subject, reason, engine, weight, timestamp)\<close>, with \<open>__post_init__\<close>\<close>
  "mk_signal now k subj r eng w ts =
     \<lparr>kind = k, subject = subj, reason = r, weight = w, engine = eng,
      sig_time = (case ts of None \<Rightarrow> now | Some t \<Rightarrow> t)\<rparr>"

definition effective_weight :: "signal \<Rightarrow> real" where
  "effective_weight s =
     (case weight s of Some w \<Rightarrow> w
      | None \<Rightarrow> (case map_of weights (kind s) of Some w \<Rightarrow> w | None \<Rightarrow> 0))"

definition format_pid_subject :: "int \<Rightarrow> real option \<Rightarrow> string" where
  \<comment> \<open>\<open>int(start_time)\<close> truncates towards zero\<close>
  "format_pid_subject p st =
     (case st of
        Some t \<Rightarrow> ''pid:'' @ show_int p @ '':'' @ show_int (if t < 0 then - \<lfloor>- t\<rfloor> else \<lfloor>t\<rfloor>)
      | None \<Rightarrow> ''pid:'' @ show_int p)"

definition is_dll_kind :: "string \<Rightarrow> bool" where
  "is_dll_kind k = startswith k ''dll_''"

section \<open>The score of a subject\<close>

record subject_score =
  ss_subject :: string
  total :: real
  signals :: "signal list"
  dll_components :: "string set"
  created_at :: real
  last_updated :: real

definition new_subject :: "real \<Rightarrow> string \<Rightarrow> subject_score" where
  "new_subject now s =
     \<lparr>ss_subject = s, total = 0, signals = [], dll_components = {}, created_at = now,
      last_updated = now\<rparr>"

definition subject_add :: "signal \<Rightarrow> subject_score \<Rightarrow> subject_score" where
  "subject_add sig ss =
     ss\<lparr>signals := signals ss @ [sig],
        total := total ss + effective_weight sig,
        dll_components := (if is_dll_kind (kind sig) then insert (kind sig) (dll_components ss)
                           else dll_components ss),
        last_updated := sig_time sig\<rparr>"

definition top_reasons :: "subject_score \<Rightarrow> string list" where
  "top_reasons ss =
     map (\<lambda>s. kind s @ '' ('' @ fmt_fixed 0 (effective_weight s) @ ''): '' @ reason s) (signals ss)"

section \<open>Image loads\<close>

record reputation =
  clean_loads :: "(string, int) dict"
  clean_threshold :: int

definition loads_of :: "reputation \<Rightarrow> string \<Rightarrow> int" where
  "loads_of r k = (case map_of (clean_loads r) k of None \<Rightarrow> 0 | Some n \<Rightarrow> n)"

definition record_clean_load :: "string \<Rightarrow> reputation \<Rightarrow> reputation" where
  "record_clean_load k r = r\<lparr>clean_loads := AList.update k (loads_of r k + 1) (clean_loads r)\<rparr>"

definition is_reputable :: "string \<Rightarrow> reputation \<Rightarrow> bool" where
  "is_reputable k r \<longleftrightarrow> clean_threshold r \<le> loads_of r k"

record dll_load_context =
  dll_hash :: "string option"
  publisher :: "string option"
  loader_pid :: pyval
  target_pid :: "int option"
  loader_image :: pyval
  dll_path :: "string option"
  signed :: pyval
  reflective :: bool
  host_normally_injected :: bool
  has_cpu_anomaly :: bool
  has_network_anomaly :: bool

fun eq_int :: "pyval \<Rightarrow> int \<Rightarrow> bool" where
  \<comment> \<open>\<open>v == i\<close> for an integer \<open>i\<close>\<close>
  "eq_int (VInt j) i = (j = i)"
| "eq_int (VFloat x) i = (x = of_int i)"
| "eq_int (VBool b) i = ((if b then 1 else 0) = i)"
| "eq_int _ i = False"

definition is_cross_process :: "dll_load_context \<Rightarrow> bool" where
  "is_cross_process c =
     (case target_pid c of None \<Rightarrow> False
      | Some t \<Rightarrow> loader_pid c \<noteq> VNone \<and> \<not> eq_int (loader_pid c) t)"

fun text_of_opt :: "string option \<Rightarrow> string" where
  \<comment> \<open>the text an f-string gives for an optional string\<close>
  "text_of_opt None = ''None''"
| "text_of_opt (Some s) = s"

fun text_of_pid :: "int option \<Rightarrow> string" where
  "text_of_pid None = ''None''"
| "text_of_pid (Some p) = show_int p"

fun nonempty :: "string option \<Rightarrow> bool" where
  "nonempty None = False"
| "nonempty (Some s) = (s \<noteq> [])"

definition opt_or :: "string option \<Rightarrow> string option \<Rightarrow> string option" where
  "opt_or a b = (if nonempty a then a else b)"

definition dll_subject :: "dll_load_context \<Rightarrow> string" where
  "dll_subject c =
     (case target_pid c of Some p \<Rightarrow> ''pid:'' @ show_int p | None \<Rightarrow> ''unknown'')"

definition dll_name :: "dll_load_context \<Rightarrow> string" where
  "dll_name c = text_of_opt (opt_or (dll_path c) (dll_hash c))"

definition record_opt :: "string \<Rightarrow> string option \<Rightarrow> reputation \<Rightarrow> reputation" where
  "record_opt pre k r = (if nonempty k then record_clean_load (pre @ the k) r else r)"

definition score_dll_load ::
  "real \<Rightarrow> dll_load_context \<Rightarrow> string set \<Rightarrow> string set \<Rightarrow> reputation \<Rightarrow> signal list \<times> reputation"
where
  "score_dll_load now c trusted_publishers trusted_hashes rep =
     (let subj = dll_subject c;
          sig = (\<lambda>k r. mk_signal now k subj r ''dll_handling'' None None)
      in
      if nonempty (publisher c) \<and> the (publisher c) \<in> trusted_publishers
        then ([], record_clean_load (''pub:'' @ the (publisher c)) rep)
      else if nonempty (dll_hash c) \<and> the (dll_hash c) \<in> trusted_hashes
        then ([], record_clean_load (''hash:'' @ the (dll_hash c)) rep)
      else if nonempty (dll_hash c) \<and> is_reputable (''hash:'' @ the (dll_hash c)) rep then ([], rep)
      else if nonempty (publisher c) \<and> is_reputable (''pub:'' @ the (publisher c)) rep then ([], rep)
      else if \<not> is_cross_process c
        then ([], record_opt ''pub:'' (publisher c) (record_opt ''hash:'' (dll_hash c) rep))
      else
        ((if reflective c then
            [sig ''dll_reflective''
               (''reflective/manually-mapped injection of '' @ dll_name c @ '' into pid '' @
                text_of_pid (target_pid c) @
                '' (unbacked executable memory / no valid on-disk image)'')]
          else []) @
         [sig ''dll_cross_process''
            (py_str (val_or (loader_image c) (loader_pid c)) @ '' injected '' @ dll_name c @
             '' into unrelated process '' @ text_of_pid (target_pid c))] @
         (if \<not> host_normally_injected c then
            [sig ''dll_abnormal_host''
               (''target pid '' @ text_of_pid (target_pid c) @
                '' does not normally host injected code'')]
          else []) @
         (if signed c = VBool False \<and>
             (\<not> host_normally_injected c \<or> has_cpu_anomaly c \<or> has_network_anomaly c) then
            [sig ''dll_unsigned''
               (''unsigned DLL '' @ dll_name c @
                '' injected cross-process with corroborating anomaly'')]
          else []), rep))"

section \<open>The scorer\<close>

record scorer =
  threshold :: real
  signal_ttl :: real
  max_subjects :: int
  subj_map :: "(string, subject_score) dict"

definition new_scorer :: "real \<Rightarrow> real \<Rightarrow> int \<Rightarrow> scorer" where
  "new_scorer th ttl m = \<lparr>threshold = th, signal_ttl = ttl, max_subjects = m, subj_map = []\<rparr>"

definition default_scorer :: scorer where
  "default_scorer = new_scorer 80 600 10000"

definition evict_oldest :: "string \<Rightarrow> scorer \<Rightarrow> scorer py_result" where
  \<comment> \<open>the capacity check of \<open>add_signal\<close>; \<open>min()\<close> of an empty dict raises\<close>
  "evict_oldest s sc =
     (if max_subjects sc \<le> int (length (subj_map sc)) \<and> map_of (subj_map sc) s = None then
        (case argmin (\<lambda>p. last_updated (snd p)) (subj_map sc) of
           None \<Rightarrow> Inl ValueError
         | Some p \<Rightarrow> Inr (sc\<lparr>subj_map := AList.delete (fst p) (subj_map sc)\<rparr>))
      else Inr sc)"

definition subject_or_new :: "real \<Rightarrow> string \<Rightarrow> scorer \<Rightarrow> subject_score" where
  "subject_or_new now s sc =
     (case map_of (subj_map sc) s of Some ss \<Rightarrow> ss | None \<Rightarrow> new_subject now s)"

definition add_signal :: "real \<Rightarrow> signal \<Rightarrow> scorer \<Rightarrow> (subject_score \<times> scorer) py_result" where
  "add_signal now sig sc =
     bind_res (evict_oldest (subject sig) sc) (\<lambda>sc'.
       let ss = subject_add sig (subject_or_new now (subject sig) sc')
       in Inr (ss, sc'\<lparr>subj_map := AList.update (subject sig) ss (subj_map sc')\<rparr>))"

fun add_signals ::
  "real \<Rightarrow> signal list \<Rightarrow> subject_score option \<Rightarrow> scorer \<Rightarrow> (subject_score option \<times> scorer) py_result"
where
  "add_signals now [] acc sc = Inr (acc, sc)"
| "add_signals now (s # ss) acc sc =
     bind_res (add_signal now s sc) (\<lambda>(r, sc'). add_signals now ss (Some r) sc')"

definition scorer_get :: "string \<Rightarrow> scorer \<Rightarrow> subject_score option" where
  "scorer_get s sc = map_of (subj_map sc) s"

definition crosses_threshold :: "string \<Rightarrow> scorer \<Rightarrow> bool" where
  "crosses_threshold s sc =
     (case map_of (subj_map sc) s of None \<Rightarrow> False | Some ss \<Rightarrow> threshold sc \<le> total ss)"

definition should_respond :: "string \<Rightarrow> scorer \<Rightarrow> bool" where
  "should_respond s sc =
     (case map_of (subj_map sc) s of
        None \<Rightarrow> False
      | Some ss \<Rightarrow>
          if total ss < threshold sc then False
          else let non_dll = filter (\<lambda>x. \<not> is_dll_kind (kind x)) (signals ss);
                   strong_dll = filter (\<lambda>x. kind x = ''dll_reflective'') (signals ss)
               in non_dll \<noteq> [] \<or> strong_dll \<noteq> [])"

definition reset :: "string option \<Rightarrow> scorer \<Rightarrow> scorer" where
  "reset s sc =
     (case s of
        None \<Rightarrow> sc\<lparr>subj_map := []\<rparr>
      | Some x \<Rightarrow>
          let m = AList.delete x (subj_map sc);
              pre = x @ '':''
          in if startswith x ''pid:'' then sc\<lparr>subj_map := filter (\<lambda>p. \<not> startswith (fst p) pre) m\<rparr>
             else sc\<lparr>subj_map := m\<rparr>)"

definition reset_pid :: "int \<Rightarrow> scorer \<Rightarrow> scorer" where
  "reset_pid p sc = reset (Some (''pid:'' @ show_int p)) sc"

definition decay_subject :: "real \<Rightarrow> real \<Rightarrow> subject_score \<Rightarrow> subject_score" where
  \<comment> \<open>the body of the loop of \<open>decay\<close> on one subject\<close>
  "decay_subject now cutoff ss =
     (let active = filter (\<lambda>s. cutoff \<le> sig_time s) (signals ss)
      in if length active \<noteq> length (signals ss) then
           ss\<lparr>signals := active,
              total := sum_list (map effective_weight active),
              dll_components := set (filter is_dll_kind (map kind active)),
              last_updated := now\<rparr>
         else ss)"

definition dead_subject :: "subject_score \<Rightarrow> bool" where
  "dead_subject ss \<longleftrightarrow> signals ss = [] \<or> total ss \<le> 0"

definition decay :: "real option \<Rightarrow> real \<Rightarrow> scorer \<Rightarrow> string list \<times> scorer" where
  "decay ttl now sc =
     (let t = (case ttl of Some x \<Rightarrow> x | None \<Rightarrow> signal_ttl sc);
          m = map (\<lambda>(k, ss). (k, decay_subject now (now - t) ss)) (subj_map sc)
      in (keys (filter (\<lambda>p. dead_subject (snd p)) m),
          sc\<lparr>subj_map := filter (\<lambda>p. \<not> dead_subject (snd p)) m\<rparr>))"

definition evict_stale :: "real \<Rightarrow> real \<Rightarrow> scorer \<Rightarrow> nat \<times> scorer" where
  "evict_stale max_age now sc =
     (let stale = (\<lambda>p. last_updated (snd p) < now - max_age)
      in (length (filter stale (subj_map sc)),
          sc\<lparr>subj_map := filter (\<lambda>p. \<not> stale p) (subj_map sc)\<rparr>))"

definition scorer_subjects :: "scorer \<Rightarrow> string list" where
  "scorer_subjects sc = keys (subj_map sc)"


section \<open>Invariant of the scorer\<close>

text \<open>
  Every stored score is the sum of the weights of its signals, all about that subject; keys are
  pairwise distinct and there are at most \<open>max_subjects\<close> of them.
\<close>

definition subject_inv :: "string \<Rightarrow> subject_score \<Rightarrow> bool" where
  "subject_inv k ss \<longleftrightarrow>
     ss_subject ss = k
   \<and> total ss = sum_list (map effective_weight (signals ss))
   \<and> dll_components ss = set (filter is_dll_kind (map kind (signals ss)))
   \<and> (\<forall>s \<in> set (signals ss). subject s = k)"

definition scorer_inv :: "scorer \<Rightarrow> bool" where
  "scorer_inv sc \<longleftrightarrow>
     wf_dict (subj_map sc)
   \<and> (\<forall>p \<in> set (subj_map sc). subject_inv (fst p) (snd p))
   \<and> 0 < max_subjects sc
   \<and> int (length (subj_map sc)) \<le> max_subjects sc"

lemma scorer_invD:
  assumes "scorer_inv sc"
  shows "wf_dict (subj_map sc)" "0 < max_subjects sc" "int (length (subj_map sc)) \<le> max_subjects sc"
    "\<And>k ss. map_of (subj_map sc) k = Some ss \<Longrightarrow> subject_inv k ss"
  using assms unfolding scorer_inv_def by (auto dest: map_of_SomeD)

lemma scorer_invI:
  assumes "wf_dict m" "\<And>p. p \<in> set m \<Longrightarrow> subject_inv (fst p) (snd p)"
    "0 < max_subjects sc" "int (length m) \<le> max_subjects sc"
  shows "scorer_inv (sc\<lparr>subj_map := m\<rparr>)"
  using assms by (simp add: scorer_inv_def)

lemma scorer_inv_new [inv_intros]: "0 < m \<Longrightarrow> scorer_inv (new_scorer th ttl m)"
  by (simp add: scorer_inv_def new_scorer_def)

lemma subject_inv_new [inv_intros]: "subject_inv s (new_subject now s)"
  by (simp add: subject_inv_def new_subject_def)

lemma subject_inv_add [inv_intros]:
  "subject_inv (subject sig) ss \<Longrightarrow> subject_inv (subject sig) (subject_add sig ss)"
  by (auto simp: subject_inv_def subject_add_def)

lemma subject_inv_decay [inv_intros]:
  "subject_inv k ss \<Longrightarrow> subject_inv k (decay_subject now cutoff ss)"
  by (auto simp: subject_inv_def decay_subject_def Let_def)

lemma subject_or_new_inv [inv_intros]:
  "scorer_inv sc \<Longrightarrow> subject_inv s (subject_or_new now s sc)"
  by (auto simp: subject_or_new_def subject_inv_new dest: scorer_invD(4) split: option.split)

lemma evict_oldest_cases:
  assumes "evict_oldest s sc = Inr sc'"
  obtains "sc' = sc" "int (length (subj_map sc)) < max_subjects sc \<or> map_of (subj_map sc) s \<noteq> None"
    | p where "p \<in> set (subj_map sc)" "map_of (subj_map sc) s = None"
      "sc' = sc\<lparr>subj_map := AList.delete (fst p) (subj_map sc)\<rparr>"
      "\<And>q. q \<in> set (subj_map sc) \<Longrightarrow> last_updated (snd p) \<le> last_updated (snd q)"
  using assms argmin_least argmin_mem
  by (fastforce simp: evict_oldest_def not_le split: if_splits option.splits)

lemma evict_oldest_total: "scorer_inv sc \<Longrightarrow> \<exists>sc'. evict_oldest s sc = Inr sc'"
  by (auto simp: evict_oldest_def scorer_inv_def split: option.split)

lemma evict_oldest_inv:
  assumes "scorer_inv sc" and ev: "evict_oldest s sc = Inr sc'"
  shows "scorer_inv sc'" "max_subjects sc' = max_subjects sc" "threshold sc' = threshold sc"
    "map_of (subj_map sc') s = map_of (subj_map sc) s"
    "map_of (subj_map sc) s = None \<Longrightarrow> int (length (subj_map sc')) < max_subjects sc"
proof -
  note inv = scorer_invD[OF assms(1)]
  have all: "scorer_inv sc' \<and> max_subjects sc' = max_subjects sc \<and> threshold sc' = threshold sc
      \<and> map_of (subj_map sc') s = map_of (subj_map sc) s
      \<and> (map_of (subj_map sc) s = None \<longrightarrow> int (length (subj_map sc')) < max_subjects sc)"
    using ev
  proof (cases rule: evict_oldest_cases)
    case 1
    with assms inv(3) show ?thesis by auto
  next
    case (2 p)
    let ?m = "AList.delete (fst p) (subj_map sc)"
    have less: "length ?m < length (subj_map sc)"
      by (rule length_delete_less) (use 2 in simp)
    have "scorer_inv sc'"
      unfolding 2(3)
      using assms(1) inv less set_delete_subset[of "fst p" "subj_map sc"]
      by (intro scorer_invI) (auto simp: scorer_inv_def)
    with 2 inv less show ?thesis by simp
  qed
  then show "scorer_inv sc'" "max_subjects sc' = max_subjects sc" "threshold sc' = threshold sc"
    "map_of (subj_map sc') s = map_of (subj_map sc) s"
    "map_of (subj_map sc) s = None \<Longrightarrow> int (length (subj_map sc')) < max_subjects sc"
    by auto
qed

lemma add_signal_inv [inv_intros]:
  assumes "scorer_inv sc" and add: "add_signal now sig sc = Inr (ss, sc')"
  shows "scorer_inv sc'"
proof -
  from add obtain sc1 where ev: "evict_oldest (subject sig) sc = Inr sc1"
    and ss: "ss = subject_add sig (subject_or_new now (subject sig) sc1)"
    and sc': "sc' = sc1\<lparr>subj_map := AList.update (subject sig) ss (subj_map sc1)\<rparr>"
    by (auto simp: add_signal_def bind_res_Inr_iff Let_def)
  note e = evict_oldest_inv[OF assms(1) ev]
  note inv1 = scorer_invD[OF e(1)]
  have ssi: "subject_inv (subject sig) ss"
    unfolding ss by (intro inv_intros e(1))
  have len: "int (length (AList.update (subject sig) ss (subj_map sc1))) \<le> max_subjects sc1"
  proof (cases "map_of (subj_map sc) (subject sig)")
    case None
    with e show ?thesis by (simp add: length_update)
  next
    case (Some a)
    then have "subject sig \<in> set (keys (subj_map sc1))"
      using e(4) by (metis map_of_SomeD map_of_eq_None_iff option.distinct(1) list.set_map)
    with inv1(3) show ?thesis by (simp add: length_update)
  qed
  show ?thesis
    unfolding sc'
    using inv1 len ssi set_update_subset[of "subject sig" ss "subj_map sc1"] e(1)
    by (intro scorer_invI) (auto simp: scorer_inv_def)
qed

lemma add_signal_total: "scorer_inv sc \<Longrightarrow> \<exists>r. add_signal now sig sc = Inr r"
  using evict_oldest_total[of sc "subject sig"] by (auto simp: add_signal_def Let_def)

lemma reset_inv [inv_intros]:
  assumes "scorer_inv sc"
  shows "scorer_inv (reset s sc)"
proof (cases s)
  case None
  with assms show ?thesis by (simp add: reset_def scorer_inv_def)
next
  case (Some x)
  let ?m = "AList.delete x (subj_map sc)"
  have sub: "set ?m \<subseteq> set (subj_map sc)" by (rule set_delete_subset)
  have len: "length (filter P ?m) \<le> length (subj_map sc)" "length ?m \<le> length (subj_map sc)" for P
    using length_filter_le[of P ?m] length_delete_le[of x "subj_map sc"] by linarith+
  have "scorer_inv (sc\<lparr>subj_map := ?m\<rparr>)" "scorer_inv (sc\<lparr>subj_map := filter P ?m\<rparr>)" for P
    using assms subsetD[OF sub] len(2) len(1)[of P] by (auto intro!: scorer_invI simp: scorer_inv_def)
  with Some show ?thesis by (simp add: reset_def Let_def)
qed

lemma keys_map_pair: "keys (map (\<lambda>(k, v). (k, f v)) m) = keys m"
  by (induction m) auto

lemma decay_inv [inv_intros]:
  assumes "scorer_inv sc"
  shows "scorer_inv (snd (decay ttl now sc))"
proof -
  let ?t = "case ttl of Some x \<Rightarrow> x | None \<Rightarrow> signal_ttl sc"
  let ?m = "map (\<lambda>(k, ss). (k, decay_subject now (now - ?t) ss)) (subj_map sc)"
  let ?f = "filter (\<lambda>p. \<not> dead_subject (snd p)) ?m"
  have "wf_dict ?f"
    using scorer_invD(1)[OF assms] by (intro wf_dict_filter) (simp only: keys_map_pair)
  moreover have "subject_inv (fst p) (snd p)" if "p \<in> set ?f" for p
    using assms that by (force simp: scorer_inv_def intro: subject_inv_decay)
  moreover have "0 < max_subjects sc" using assms by (simp add: scorer_inv_def)
  moreover have "length ?f \<le> length ?m" by (rule length_filter_le)
  then have "length ?f \<le> length (subj_map sc)" by (simp only: length_map)
  then have "int (length ?f) \<le> max_subjects sc"
    using scorer_invD(3)[OF assms] by linarith
  ultimately have "scorer_inv (sc\<lparr>subj_map := ?f\<rparr>)" by (rule scorer_invI)
  then show ?thesis by (simp add: decay_def Let_def)
qed

lemma evict_stale_inv [inv_intros]:
  assumes "scorer_inv sc"
  shows "scorer_inv (snd (evict_stale a now sc))"
proof -
  have "int (length (filter P (subj_map sc))) \<le> max_subjects sc" for P
    using assms length_filter_le[of P "subj_map sc"] unfolding scorer_inv_def by linarith
  then show ?thesis
    using assms by (auto simp: evict_stale_def Let_def scorer_inv_def intro!: scorer_invI)
qed

section \<open>Runs of the scorer\<close>

inductive scorer_step :: "scorer \<Rightarrow> scorer \<Rightarrow> bool" where
  step_add: "add_signal now sig sc = Inr (ss, sc') \<Longrightarrow> scorer_step sc sc'"
| step_reset: "scorer_step sc (reset s sc)"
| step_decay: "scorer_step sc (snd (decay ttl now sc))"
| step_stale: "scorer_step sc (snd (evict_stale a now sc))"

inductive scorer_reach :: "real \<Rightarrow> real \<Rightarrow> int \<Rightarrow> scorer \<Rightarrow> bool" for th ttl m where
  reach_new: "scorer_reach th ttl m (new_scorer th ttl m)"
| reach_step: "scorer_reach th ttl m sc \<Longrightarrow> scorer_step sc sc' \<Longrightarrow> scorer_reach th ttl m sc'"

lemma scorer_step_inv: "scorer_step sc sc' \<Longrightarrow> scorer_inv sc \<Longrightarrow> scorer_inv sc'"
  by (induction rule: scorer_step.induct) (auto intro: inv_intros)

lemma reset_params [simp]:
  "threshold (reset s sc) = threshold sc" "max_subjects (reset s sc) = max_subjects sc"
  by (simp_all add: reset_def Let_def split: option.split)

lemma decay_params [simp]:
  "threshold (snd (decay ttl now sc)) = threshold sc"
  "max_subjects (snd (decay ttl now sc)) = max_subjects sc"
  by (simp_all add: decay_def Let_def)

lemma evict_stale_params [simp]:
  "threshold (snd (evict_stale a now sc)) = threshold sc"
  "max_subjects (snd (evict_stale a now sc)) = max_subjects sc"
  by (simp_all add: evict_stale_def Let_def)

lemma evict_oldest_params:
  "evict_oldest s sc = Inr sc' \<Longrightarrow> threshold sc' = threshold sc \<and> max_subjects sc' = max_subjects sc"
  by (auto simp: evict_oldest_def split: if_splits option.splits)

lemma add_signal_params:
  "add_signal now sig sc = Inr (ss, sc') \<Longrightarrow>
     threshold sc' = threshold sc \<and> max_subjects sc' = max_subjects sc"
  by (auto simp: add_signal_def bind_res_Inr_iff Let_def dest: evict_oldest_params)

lemma scorer_reach_inv:
  "scorer_reach th ttl m sc \<Longrightarrow> 0 < m \<Longrightarrow> scorer_inv sc"
  by (induction rule: scorer_reach.induct) (auto intro: inv_intros scorer_step_inv)

lemma scorer_reach_params:
  "scorer_reach th ttl m sc \<Longrightarrow> threshold sc = th \<and> max_subjects sc = m"
proof (induction rule: scorer_reach.induct)
  case (reach_step sc sc')
  from reach_step(2) show ?case using reach_step.IH
    by (cases rule: scorer_step.cases) (auto dest: add_signal_params)
qed (simp add: new_scorer_def)

section \<open>The decision\<close>

definition corroborated :: "signal list \<Rightarrow> bool" where
  \<comment> \<open>some signal is not a DLL signal, or is the reflective one\<close>
  "corroborated xs \<longleftrightarrow> (\<exists>x \<in> set xs. \<not> is_dll_kind (kind x) \<or> kind x = ''dll_reflective'')"

lemma should_respond_iff:
  "should_respond s sc \<longleftrightarrow>
     (\<exists>ss. map_of (subj_map sc) s = Some ss \<and> threshold sc \<le> total ss \<and> corroborated (signals ss))"
  by (auto simp: should_respond_def corroborated_def Let_def filter_empty_conv split: option.split)

lemma should_respond_sum:
  assumes "scorer_inv sc"
  shows "should_respond s sc \<longleftrightarrow>
     (\<exists>ss. map_of (subj_map sc) s = Some ss
        \<and> threshold sc \<le> sum_list (map effective_weight (signals ss)) \<and> corroborated (signals ss))"
  using scorer_invD(4)[OF assms] by (auto simp: should_respond_iff subject_inv_def)

lemma add_signal_lookup:
  assumes "add_signal now sig sc = Inr (ss, sc')"
  shows "map_of (subj_map sc') (subject sig) = Some ss"
  using assms by (auto simp: add_signal_def bind_res_Inr_iff Let_def)

lemma add_signal_fresh:
  assumes "map_of (subj_map sc) (subject sig) = None" and "add_signal now sig sc = Inr (ss, sc')"
  shows "signals ss = [sig]" "total ss = effective_weight sig"
proof -
  from assms(2) obtain sc1 where ev: "evict_oldest (subject sig) sc = Inr sc1"
    and ss: "ss = subject_add sig (subject_or_new now (subject sig) sc1)"
    by (auto simp: add_signal_def bind_res_Inr_iff Let_def)
  from ev have "map_of (subj_map sc1) (subject sig) = None"
    using assms(1) by (cases rule: evict_oldest_cases) auto
  then show "signals ss = [sig]" "total ss = effective_weight sig"
    by (simp_all add: ss subject_or_new_def new_subject_def subject_add_def)
qed

lemma lone_signal_responds:
  assumes "0 < m" and "\<not> is_dll_kind (kind x)" and "th \<le> effective_weight x"
  shows "\<exists>ss sc. add_signal now x (new_scorer th ttl m) = Inr (ss, sc) \<and> should_respond (subject x) sc"
proof -
  obtain ss sc where a: "add_signal now x (new_scorer th ttl m) = Inr (ss, sc)"
    using add_signal_total[OF scorer_inv_new[OF assms(1), of th ttl], of now x] by auto
  have fresh: "map_of (subj_map (new_scorer th ttl m)) (subject x) = None"
    by (simp add: new_scorer_def)
  have "should_respond (subject x) sc"
    unfolding should_respond_iff
    using add_signal_lookup[OF a] add_signal_fresh[OF fresh a] add_signal_params[OF a] assms(2,3)
    by (auto simp: corroborated_def new_scorer_def)
  with a show ?thesis by blast
qed

lemma pid_subject_prefix:
  "startswith (''pid:'' @ show_int q @ '':'' @ r) (''pid:'' @ show_int p @ '':'') \<longleftrightarrow> p = q"
proof
  assume "startswith (''pid:'' @ show_int q @ '':'' @ r) (''pid:'' @ show_int p @ '':'')"
  then obtain t where "show_int q @ '':'' @ r = show_int p @ '':'' @ t"
    by (auto simp: startswith_iff)
  then have "show_int q = show_int p"
    using prefix_sep_unique[of "CHR '':''" "show_int q" "show_int p" r t] by simp
  then show "p = q" by simp
qed (auto simp: startswith_iff)

lemma pid_subject_no_prefix:
  "\<not> startswith (''pid:'' @ show_int q) (''pid:'' @ show_int p @ '':'')"
proof
  assume "startswith (''pid:'' @ show_int q) (''pid:'' @ show_int p @ '':'')"
  then obtain t where "show_int q = show_int p @ '':'' @ t"
    by (auto simp: startswith_iff)
  then have "CHR '':'' \<in> set (show_int q)" by simp
  then show False by simp
qed

lemma show_int_sep_neq: "show_int q @ CHR '':'' # r \<noteq> show_int p"
proof
  assume "show_int q @ CHR '':'' # r = show_int p"
  then have "CHR '':'' \<in> set (show_int p)" by (metis in_set_conv_decomp)
  then show False by simp
qed

lemma reset_pid_lookup:
  "map_of (subj_map (reset_pid p sc)) k =
     (if k = ''pid:'' @ show_int p \<or> startswith k (''pid:'' @ show_int p @ '':'') then None
      else map_of (subj_map sc) k)"
proof -
  have f: "map_of (filter (\<lambda>q. \<not> startswith (fst q) pre) m) k =
      (if startswith k pre then None else map_of m k)" for pre and m :: "(string, subject_score) dict"
    using map_of_filter_key[of "\<lambda>x. \<not> startswith x pre" m k] by simp
  show ?thesis
    by (simp add: reset_pid_def reset_def Let_def f startswith_iff[of _ "''pid:''"])
qed


section \<open>Lemmas on image loads\<close>

definition dll_kinds :: "dll_load_context \<Rightarrow> string list" where
  \<comment> \<open>the kinds a cross-process load contributes, in order\<close>
  "dll_kinds c =
     (if reflective c then [''dll_reflective''] else []) @ [''dll_cross_process''] @
     (if \<not> host_normally_injected c then [''dll_abnormal_host''] else []) @
     (if signed c = VBool False \<and>
         (\<not> host_normally_injected c \<or> has_cpu_anomaly c \<or> has_network_anomaly c)
      then [''dll_unsigned''] else [])"

definition dll_allowed :: "dll_load_context \<Rightarrow> string set \<Rightarrow> string set \<Rightarrow> reputation \<Rightarrow> bool" where
  \<comment> \<open>on an allowlist, or reputable on this machine\<close>
  "dll_allowed c ps hs rep \<longleftrightarrow>
     nonempty (publisher c) \<and> (the (publisher c) \<in> ps \<or> is_reputable (''pub:'' @ the (publisher c)) rep)
   \<or> nonempty (dll_hash c) \<and> (the (dll_hash c) \<in> hs \<or> is_reputable (''hash:'' @ the (dll_hash c)) rep)"

lemma score_dll_load_ignored:
  assumes "dll_allowed c ps hs rep \<or> \<not> is_cross_process c"
  shows "fst (score_dll_load now c ps hs rep) = []"
proof (cases "dll_allowed c ps hs rep")
  case True
  then consider "nonempty (publisher c) \<and> the (publisher c) \<in> ps"
    | "nonempty (dll_hash c) \<and> the (dll_hash c) \<in> hs"
    | "nonempty (dll_hash c) \<and> is_reputable (''hash:'' @ the (dll_hash c)) rep"
    | "nonempty (publisher c) \<and> is_reputable (''pub:'' @ the (publisher c)) rep"
    unfolding dll_allowed_def by blast
  then show ?thesis by cases (simp_all add: score_dll_load_def Let_def)
next
  case False
  with assms show ?thesis by (simp add: score_dll_load_def Let_def)
qed

lemma score_dll_load_scored:
  assumes "\<not> dll_allowed c ps hs rep" and "is_cross_process c"
  shows "map kind (fst (score_dll_load now c ps hs rep)) = dll_kinds c"
    and "s \<in> set (fst (score_dll_load now c ps hs rep)) \<Longrightarrow> weight s = None \<and> subject s = dll_subject c"
proof -
  from assms(1) have g: "\<not> (nonempty (publisher c) \<and> the (publisher c) \<in> ps)"
    "\<not> (nonempty (dll_hash c) \<and> the (dll_hash c) \<in> hs)"
    "\<not> (nonempty (dll_hash c) \<and> is_reputable (''hash:'' @ the (dll_hash c)) rep)"
    "\<not> (nonempty (publisher c) \<and> is_reputable (''pub:'' @ the (publisher c)) rep)"
    by (auto simp: dll_allowed_def)
  show "map kind (fst (score_dll_load now c ps hs rep)) = dll_kinds c"
    unfolding score_dll_load_def Let_def dll_kinds_def
    by (simp only: g assms(2) if_False if_True not_True_eq_False fst_conv map_append) (simp add: mk_signal_def)
  show "s \<in> set (fst (score_dll_load now c ps hs rep)) \<Longrightarrow> weight s = None \<and> subject s = dll_subject c"
    unfolding score_dll_load_def Let_def
    by (simp only: g assms(2) if_False if_True not_True_eq_False fst_conv set_append)
      (auto simp: mk_signal_def split: if_splits)
qed

lemma score_dll_load_kinds:
  "map kind (fst (score_dll_load now c ps hs rep)) =
     (if dll_allowed c ps hs rep \<or> \<not> is_cross_process c then [] else dll_kinds c)"
  using score_dll_load_ignored score_dll_load_scored(1) by simp

lemma score_dll_load_sig:
  "s \<in> set (fst (score_dll_load now c ps hs rep)) \<Longrightarrow> weight s = None \<and> subject s = dll_subject c"
  using score_dll_load_ignored[of c ps hs rep now] score_dll_load_scored(2)[of c ps hs rep s now]
  by (cases "dll_allowed c ps hs rep \<or> \<not> is_cross_process c") auto

lemma loads_of_record:
  "loads_of (record_clean_load k r) j = (if j = k then loads_of r k + 1 else loads_of r j)"
  by (simp add: loads_of_def record_clean_load_def)

lemma clean_threshold_record [simp]: "clean_threshold (record_clean_load k r) = clean_threshold r"
  by (simp add: record_clean_load_def)

lemma loads_of_funpow: "loads_of ((record_clean_load k ^^ n) r) k = loads_of r k + int n"
  by (induction n) (simp_all add: loads_of_record)

lemma clean_threshold_funpow [simp]:
  "clean_threshold ((record_clean_load k ^^ n) r) = clean_threshold r"
  by (induction n) simp_all

lemma weights_dll:
  "weight s = None \<Longrightarrow> kind s = ''dll_reflective'' \<Longrightarrow> effective_weight s = 45"
  "weight s = None \<Longrightarrow> kind s = ''dll_cross_process'' \<Longrightarrow> effective_weight s = 25"
  "weight s = None \<Longrightarrow> kind s = ''dll_abnormal_host'' \<Longrightarrow> effective_weight s = 15"
  "weight s = None \<Longrightarrow> kind s = ''dll_unsigned'' \<Longrightarrow> effective_weight s = 10"
  by (simp_all add: effective_weight_def weights_def)


section \<open>The gate the engines rely on\<close>

text \<open>
  What a client of the scorer may assume: a signal is recorded under its own subject, other
  subjects keep their signals or are evicted, and a response needs the threshold and a
  corroborating signal. The client's lemmas are about feeding a list of signals.
\<close>

locale response_gate =
  fixes add :: "real \<Rightarrow> signal \<Rightarrow> 'st \<Rightarrow> 'st py_result"
    and recorded :: "'st \<Rightarrow> string \<Rightarrow> signal list"
    and gate :: "string \<Rightarrow> 'st \<Rightarrow> bool"
    and limit :: "'st \<Rightarrow> real"
    and inv :: "'st \<Rightarrow> bool"
  assumes add_total: "inv st \<Longrightarrow> \<exists>st'. add now sig st = Inr st'"
    and add_inv: "inv st \<Longrightarrow> add now sig st = Inr st' \<Longrightarrow> inv st'"
    and add_limit: "inv st \<Longrightarrow> add now sig st = Inr st' \<Longrightarrow> limit st' = limit st"
    and add_own: "inv st \<Longrightarrow> add now sig st = Inr st' \<Longrightarrow>
          recorded st' (subject sig) = recorded st (subject sig) @ [sig]"
    and add_other: "inv st \<Longrightarrow> add now sig st = Inr st' \<Longrightarrow> s \<noteq> subject sig \<Longrightarrow>
          recorded st' s = recorded st s \<or> recorded st' s = []"
    and gate_iff: "inv st \<Longrightarrow> gate s st \<longleftrightarrow> recorded st s \<noteq> []
          \<and> limit st \<le> sum_list (map effective_weight (recorded st s)) \<and> corroborated (recorded st s)"
begin

fun feed :: "real \<Rightarrow> signal list \<Rightarrow> 'st \<Rightarrow> 'st py_result" where
  "feed now [] st = Inr st"
| "feed now (x # xs) st = bind_res (add now x st) (feed now xs)"

lemma feed_total: "inv st \<Longrightarrow> \<exists>st'. feed now xs st = Inr st' \<and> inv st' \<and> limit st' = limit st"
proof (induction xs arbitrary: st)
  case (Cons x xs)
  from add_total[OF Cons.prems] obtain st1 where st1: "add now x st = Inr st1" by blast
  with Cons.IH[OF add_inv[OF Cons.prems st1]] add_limit[OF Cons.prems st1] show ?case by simp
qed simp

lemma feed_recorded:
  assumes "inv st" and "feed now xs st = Inr st'" and "y \<in> set (recorded st' s)"
  shows "y \<in> set (recorded st s) \<or> y \<in> set xs \<and> subject y = s"
  using assms
proof (induction xs arbitrary: st)
  case (Cons x xs)
  from Cons.prems(2) obtain st1 where st1: "add now x st = Inr st1" and f: "feed now xs st1 = Inr st'"
    by (auto simp: bind_res_Inr_iff)
  note i1 = add_inv[OF Cons.prems(1) st1]
  from Cons.IH[OF i1 f Cons.prems(3)] show ?case
    using add_own[OF Cons.prems(1) st1] add_other[OF Cons.prems(1) st1, of s]
    by (cases "s = subject x") auto
qed simp

lemma feed_same_subject:
  assumes "inv st" and "feed now xs st = Inr st'" and "\<forall>x \<in> set xs. subject x = s"
  shows "recorded st' s = recorded st s @ xs"
  using assms
proof (induction xs arbitrary: st)
  case (Cons x xs)
  from Cons.prems(2) obtain st1 where st1: "add now x st = Inr st1" and f: "feed now xs st1 = Inr st'"
    by (auto simp: bind_res_Inr_iff)
  from Cons.IH[OF add_inv[OF Cons.prems(1) st1] f] add_own[OF Cons.prems(1) st1] Cons.prems(3)
  show ?case by simp
qed simp

lemma gate_of_feed:
  assumes "inv st" and "feed now xs st = Inr st'" and "\<forall>x \<in> set xs. subject x = s"
    and "recorded st s = []"
  shows "gate s st' \<longleftrightarrow> xs \<noteq> [] \<and> limit st \<le> sum_list (map effective_weight xs) \<and> corroborated xs"
proof -
  obtain st2 where "feed now xs st = Inr st2" "inv st2" "limit st2 = limit st"
    using feed_total[OF assms(1)] by blast
  with assms(2) have "inv st'" "limit st' = limit st" by simp_all
  with gate_iff[of st' s] feed_same_subject[OF assms(1-3)] assms(4) show ?thesis by simp
qed

lemma gate_needs_corroboration:
  assumes "inv st" and "feed now xs st = Inr st'" and "gate s st'"
  shows "corroborated (recorded st s) \<or> corroborated (filter (\<lambda>x. subject x = s) xs)"
proof -
  obtain st2 where "feed now xs st = Inr st2" "inv st2" using feed_total[OF assms(1)] by blast
  with assms(2) have "inv st'" by simp
  with assms(3) have "corroborated (recorded st' s)" by (simp add: gate_iff)
  then show ?thesis
    using feed_recorded[OF assms(1,2)] by (fastforce simp: corroborated_def)
qed

lemma gate_single:
  assumes "inv st" and "recorded st (subject x) = []" and "add now x st = Inr st'"
    and "effective_weight x < limit st"
  shows "\<not> gate (subject x) st'"
  using assms add_inv[OF assms(1,3)] add_limit[OF assms(1,3)] add_own[OF assms(1,3)]
  by (simp add: gate_iff)

end

definition scorer_add :: "real \<Rightarrow> signal \<Rightarrow> scorer \<Rightarrow> scorer py_result" where
  "scorer_add now sig sc = bind_res (add_signal now sig sc) (\<lambda>r. Inr (snd r))"

definition recorded_signals :: "scorer \<Rightarrow> string \<Rightarrow> signal list" where
  "recorded_signals sc s = (case scorer_get s sc of None \<Rightarrow> [] | Some ss \<Rightarrow> signals ss)"

lemma scorer_add_Inr: "scorer_add now sig sc = Inr sc' \<longleftrightarrow> (\<exists>ss. add_signal now sig sc = Inr (ss, sc'))"
  by (auto simp: scorer_add_def bind_res_Inr_iff)

lemma add_signal_own:
  assumes "scorer_inv sc" and "add_signal now sig sc = Inr (ss, sc')"
  shows "recorded_signals sc' (subject sig) = recorded_signals sc (subject sig) @ [sig]"
proof -
  from assms(2) obtain sc1 where ev: "evict_oldest (subject sig) sc = Inr sc1"
    and ss: "ss = subject_add sig (subject_or_new now (subject sig) sc1)"
    by (auto simp: add_signal_def bind_res_Inr_iff Let_def)
  show ?thesis
    using add_signal_lookup[OF assms(2)] evict_oldest_inv(4)[OF assms(1) ev]
    by (auto simp: recorded_signals_def scorer_get_def ss subject_or_new_def subject_add_def
        new_subject_def split: option.split)
qed

lemma add_signal_other:
  assumes "add_signal now sig sc = Inr (ss, sc')" and "s \<noteq> subject sig"
  shows "scorer_get s sc' = scorer_get s sc \<or> scorer_get s sc' = None"
proof -
  from assms(1) obtain sc1 where ev: "evict_oldest (subject sig) sc = Inr sc1"
    and sc': "sc' = sc1\<lparr>subj_map := AList.update (subject sig) ss (subj_map sc1)\<rparr>"
    by (auto simp: add_signal_def bind_res_Inr_iff Let_def)
  from ev have "map_of (subj_map sc1) s = map_of (subj_map sc) s \<or> map_of (subj_map sc1) s = None"
    by (cases rule: evict_oldest_cases) auto
  with assms(2) show ?thesis by (simp add: scorer_get_def sc')
qed

lemma should_respond_recorded:
  assumes "scorer_inv sc"
  shows "should_respond s sc \<longleftrightarrow> recorded_signals sc s \<noteq> []
     \<and> threshold sc \<le> sum_list (map effective_weight (recorded_signals sc s))
     \<and> corroborated (recorded_signals sc s)"
  using should_respond_sum[OF assms, of s]
  by (auto simp: recorded_signals_def scorer_get_def corroborated_def split: option.splits)

interpretation sg: response_gate scorer_add recorded_signals should_respond threshold scorer_inv
proof unfold_locales
  fix st now sig st' s
  assume i: "scorer_inv st"
  show "\<exists>st'. scorer_add now sig st = Inr st'"
    using add_signal_total[OF i, of now sig] by (auto simp: scorer_add_def)
  show "should_respond s st \<longleftrightarrow> recorded_signals st s \<noteq> []
      \<and> threshold st \<le> sum_list (map effective_weight (recorded_signals st s))
      \<and> corroborated (recorded_signals st s)"
    by (rule should_respond_recorded[OF i])
  assume a: "scorer_add now sig st = Inr st'"
  then obtain ss where ss: "add_signal now sig st = Inr (ss, st')" by (auto simp: scorer_add_Inr)
  show "scorer_inv st'" by (rule add_signal_inv[OF i ss])
  show "threshold st' = threshold st" using add_signal_params[OF ss] by simp
  show "recorded_signals st' (subject sig) = recorded_signals st (subject sig) @ [sig]"
    by (rule add_signal_own[OF i ss])
  assume "s \<noteq> subject sig"
  from add_signal_other[OF ss this]
  show "recorded_signals st' s = recorded_signals st s \<or> recorded_signals st' s = []"
    by (auto simp: recorded_signals_def)
qed


section \<open>Properties\<close>

text \<open>C4: In every state the scorer can reach, the number of tracked subjects is within the
  configured capacity, and the score of each subject is the sum of the weights of the signals
  recorded for it, all of which are about that subject.\<close>

theorem scorer_consistent:
  assumes "scorer_reach th ttl m sc" and "0 < m"
  shows "int (length (scorer_subjects sc)) \<le> m \<and>
    (\<forall>s ss. scorer_get s sc = Some ss \<longrightarrow>
       total ss = sum_list (map effective_weight (signals ss)) \<and> (\<forall>x \<in> set (signals ss). subject x = s))"
  using scorer_invD[OF scorer_reach_inv[OF assms]] scorer_reach_params[OF assms(1)]
  by (auto simp: scorer_subjects_def scorer_get_def subject_inv_def)

definition sample_signal :: "string \<Rightarrow> string \<Rightarrow> signal" where
  "sample_signal k s = mk_signal 5 k s ''seen'' ''test'' None None"

definition sample_scorer :: scorer where
  "sample_scorer =
     default_scorer\<lparr>subj_map := [(''pid:7'', subject_add (sample_signal ''cpu_sustained'' ''pid:7'')
        (new_subject 5 ''pid:7''))]\<rparr>"

lemma sample_add:
  "add_signal 5 (sample_signal ''cpu_sustained'' ''pid:7'') default_scorer =
     Inr (subject_add (sample_signal ''cpu_sustained'' ''pid:7'') (new_subject 5 ''pid:7''), sample_scorer)"
  by (simp add: add_signal_def evict_oldest_def default_scorer_def new_scorer_def sample_signal_def
      subject_or_new_def mk_signal_def sample_scorer_def Let_def)

lemma sample_reach: "scorer_reach 80 600 10000 sample_scorer"
  unfolding default_scorer_def[symmetric]
  by (rule reach_step[OF reach_new[of 80 600 10000, folded default_scorer_def] step_add[OF sample_add]])

theorem scorer_consistent_witness:
  "scorer_reach 80 600 10000 sample_scorer \<and> int (length (scorer_subjects sample_scorer)) \<le> 10000"
  using scorer_consistent[OF sample_reach] sample_reach by simp

text \<open>C1: In every reachable state, the scorer asks for a response exactly when the weights of the
  subject's recorded signals add up to the threshold and at least one of these signals is not a
  weak DLL signal: a non-DLL signal or a reflective mapping.\<close>

theorem should_respond_decision:
  assumes "scorer_reach th ttl m sc" and "0 < m"
  shows "should_respond s sc \<longleftrightarrow>
    (\<exists>ss. scorer_get s sc = Some ss \<and> th \<le> sum_list (map effective_weight (signals ss)) \<and>
       (\<exists>x \<in> set (signals ss). \<not> startswith (kind x) ''dll_'' \<or> kind x = ''dll_reflective''))"
  using should_respond_sum[OF scorer_reach_inv[OF assms], of s] scorer_reach_params[OF assms(1)]
  by (simp add: scorer_get_def corroborated_def is_dll_kind_def)

theorem should_respond_decision_witness: "\<not> should_respond ''pid:7'' sample_scorer"
  using should_respond_decision[OF sample_reach, of "''pid:7''"]
  by (simp add: sample_scorer_def scorer_get_def subject_add_def sample_signal_def new_subject_def
      mk_signal_def effective_weight_def weights_def)

text \<open>One signal on a subject without history never causes a response when its weight is below
  the threshold: no single weak signal suffices.\<close>

lemma single_weak_signal_never_responds:
  assumes "scorer_reach th ttl m sc" and "0 < m" and "scorer_get (subject sig) sc = None"
    and "effective_weight sig < th" and "add_signal now sig sc = Inr (ss, sc')"
  shows "\<not> should_respond (subject sig) sc'"
proof -
  have "recorded_signals sc (subject sig) = []" using assms(3) by (simp add: recorded_signals_def)
  moreover have "scorer_add now sig sc = Inr sc'" using assms(5) by (auto simp: scorer_add_Inr)
  ultimately show ?thesis
    using sg.gate_single[OF scorer_reach_inv[OF assms(1,2)]] assms(4) scorer_reach_params[OF assms(1)]
    by simp
qed

lemma single_weak_signal_never_responds_witness: "\<not> should_respond ''pid:7'' sample_scorer"
proof -
  have "subject (sample_signal ''cpu_sustained'' ''pid:7'') = ''pid:7''"
    by (simp add: sample_signal_def mk_signal_def)
  moreover have "\<not> should_respond (subject (sample_signal ''cpu_sustained'' ''pid:7'')) sample_scorer"
    by (rule single_weak_signal_never_responds[OF reach_new[of 80 600 10000] _ _ _
        sample_add[unfolded default_scorer_def]])
      (simp_all add: scorer_get_def new_scorer_def sample_signal_def mk_signal_def
        effective_weight_def weights_def)
  ultimately show ?thesis by simp
qed

text \<open>Image loads that are not reflective mappings never cause a response on their own: however
  many cross-process, unsigned or abnormal-host loads are scored, if a subject has no corroborating
  signal before them, the scorer does not respond to it after them.\<close>

lemma dll_loads_alone_never_respond:
  assumes "scorer_inv sc" and "\<not> corroborated (recorded_signals sc s)"
    and "\<forall>x \<in> set xs. \<exists>now c ps hs rep. \<not> reflective c \<and> x \<in> set (fst (score_dll_load now c ps hs rep))"
    and "response_gate.feed scorer_add now xs sc = Inr sc'"
  shows "\<not> should_respond s sc'"
proof
  assume "should_respond s sc'"
  then have "corroborated (filter (\<lambda>x. subject x = s) xs)"
    using sg.gate_needs_corroboration[OF assms(1,4)] assms(2) by blast
  then obtain x where x: "x \<in> set xs" "\<not> is_dll_kind (kind x) \<or> kind x = ''dll_reflective''"
    by (auto simp: corroborated_def)
  with assms(3) obtain t c ps hs rep where c: "\<not> reflective c"
    "x \<in> set (fst (score_dll_load t c ps hs rep))" by blast
  then have "kind x \<in> set (map kind (fst (score_dll_load t c ps hs rep)))" by simp
  then have "kind x \<in> {''dll_cross_process'', ''dll_abnormal_host'', ''dll_unsigned''}"
    using c(1) by (auto simp: score_dll_load_kinds dll_kinds_def split: if_splits)
  with x(2) show False by (auto simp: is_dll_kind_def startswith_iff)
qed

definition sample_load :: dll_load_context where
  "sample_load =
     \<lparr>dll_hash = Some ''ab'', publisher = None, loader_pid = VInt 4, target_pid = Some 7,
      loader_image = VNone, dll_path = Some ''x.dll'', signed = VBool False, reflective = False,
      host_normally_injected = False, has_cpu_anomaly = False, has_network_anomaly = False\<rparr>"

lemma dll_loads_alone_never_respond_witness:
  "\<exists>sc'. response_gate.feed scorer_add 5
      (fst (score_dll_load 5 sample_load {} {} \<lparr>clean_loads = [], clean_threshold = 20\<rparr>))
      default_scorer = Inr sc' \<and> \<not> should_respond ''pid:7'' sc'"
proof -
  let ?xs = "fst (score_dll_load 5 sample_load {} {} \<lparr>clean_loads = [], clean_threshold = 20\<rparr>)"
  have i: "scorer_inv default_scorer" by (simp add: default_scorer_def scorer_inv_new)
  obtain sc' where f: "response_gate.feed scorer_add 5 ?xs default_scorer = Inr sc'"
    using sg.feed_total[OF i] by blast
  have "\<not> should_respond ''pid:7'' sc'"
  proof (rule dll_loads_alone_never_respond[OF i _ _ f])
    show "\<not> corroborated (recorded_signals default_scorer ''pid:7'')"
      by (simp add: recorded_signals_def scorer_get_def default_scorer_def new_scorer_def corroborated_def)
    have "\<not> reflective sample_load" by (simp add: sample_load_def)
    then show "\<forall>x \<in> set ?xs. \<exists>now c ps hs rep. \<not> reflective c \<and> x \<in> set (fst (score_dll_load now c ps hs rep))"
      by blast
  qed
  with f show ?thesis by blast
qed

text \<open>A process exit clears the scores of that process and of no other: after \<open>reset_pid p\<close>
  the subjects of \<open>p\<close>, with or without a start time, have no score, and the subjects of any
  other process keep theirs, also when one pid is a decimal prefix of the other.\<close>

lemma reset_pid_exact:
  "scorer_get (format_pid_subject q st) (reset_pid p sc) =
     (if q = p then None else scorer_get (format_pid_subject q st) sc)"
  using pid_subject_prefix[of q "show_int _" p] pid_subject_no_prefix[of q p]
  by (cases st) (auto simp: scorer_get_def reset_pid_lookup format_pid_subject_def show_int_sep_neq)

text \<open>Time decay only lowers scores: when no recorded signal has a negative weight override,
  a subject the scorer would not respond to is not responded to after decay, and every signal
  that decay keeps is younger than the time to live.\<close>

lemma decay_never_escalates:
  assumes "scorer_inv sc" and "\<forall>x \<in> set (recorded_signals sc s). 0 \<le> effective_weight x"
    and "decay (Some ttl) now sc = (pruned, sc')" and "should_respond s sc'"
  shows "should_respond s sc \<and> (\<forall>x \<in> set (recorded_signals sc' s). x \<in> set (recorded_signals sc s))"
proof -
  have inv': "scorer_inv sc'" using decay_inv[OF assms(1), of "Some ttl" now] assms(3) by simp
  have sc': "subj_map sc' = filter (\<lambda>p. \<not> dead_subject (snd p))
      (map (\<lambda>(k, ss). (k, decay_subject now (now - ttl) ss)) (subj_map sc))" "threshold sc' = threshold sc"
    using assms(3) by (auto simp: decay_def Let_def)
  from assms(4) obtain ss' where ss': "map_of (subj_map sc') s = Some ss'"
    by (auto simp: should_respond_iff)
  then have "(s, ss') \<in> set (subj_map sc')" by (rule map_of_SomeD)
  then obtain ss where ss: "(s, ss) \<in> set (subj_map sc)" "ss' = decay_subject now (now - ttl) ss"
    by (auto simp: sc')
  have get: "map_of (subj_map sc) s = Some ss"
    using ss(1) scorer_invD(1)[OF assms(1)] by simp
  have sub: "\<exists>P. signals ss' = filter P (signals ss)"
    by (auto simp: ss(2) decay_subject_def Let_def intro: exI[of _ "\<lambda>_. True"])
  then obtain P where P: "signals ss' = filter P (signals ss)" by blast
  have rec: "recorded_signals sc s = signals ss" "recorded_signals sc' s = signals ss'"
    using get ss' by (simp_all add: recorded_signals_def scorer_get_def)
  have "sum_list (map effective_weight (filter P xs)) \<le> sum_list (map effective_weight xs)"
    if "\<forall>x \<in> set xs. 0 \<le> effective_weight x" for xs
    using that by (induction xs) auto
  then have "sum_list (map effective_weight (signals ss')) \<le> sum_list (map effective_weight (signals ss))"
    using assms(2) unfolding rec P by blast
  then show ?thesis
    using assms(4) P rec sc'(2)
    unfolding should_respond_recorded[OF assms(1)] should_respond_recorded[OF inv']
    by (auto simp: corroborated_def)
qed

definition alert_scorer :: scorer where
  "alert_scorer =
     default_scorer\<lparr>subj_map := [(''pid:7'', subject_add (sample_signal ''yara_match'' ''pid:7'')
        (new_subject 5 ''pid:7''))]\<rparr>"

lemma decay_never_escalates_witness:
  "should_respond ''pid:7'' (snd (decay (Some 600) 100 alert_scorer)) \<and> should_respond ''pid:7'' alert_scorer"
proof -
  have i: "scorer_inv alert_scorer"
    by (simp add: alert_scorer_def default_scorer_def new_scorer_def scorer_inv_def subject_inv_def
        subject_add_def new_subject_def sample_signal_def mk_signal_def is_dll_kind_def startswith_def)
  have r: "should_respond ''pid:7'' (snd (decay (Some 600) 100 alert_scorer))"
    by (simp add: alert_scorer_def default_scorer_def new_scorer_def should_respond_def decay_def
        decay_subject_def dead_subject_def subject_add_def new_subject_def sample_signal_def mk_signal_def
        effective_weight_def weights_def is_dll_kind_def startswith_def)
  have "should_respond ''pid:7'' alert_scorer"
    by (rule conjunct1[OF decay_never_escalates[OF i _ prod.collapse[symmetric] r]])
      (simp add: alert_scorer_def recorded_signals_def scorer_get_def subject_add_def new_subject_def
        sample_signal_def mk_signal_def effective_weight_def weights_def)
  with r show ?thesis by blast
qed

end
