(* ===== verification/StaticClassifier.thy ===== *)
theory StaticClassifier
  imports NativeCore VirusTotal Scoring Schema
begin

text \<open>
  \<open>engine/static_classifier.py\<close>: PE features, the model that judges them, and the classifier that turns a
  written file into signals. \<open>pefile\<close>, YARA, scikit-learn's forest, LightGBM's models and the pair of EMBER
  extractor and booster are parameters: functions on bytes or feature vectors, \<open>None\<close> where a call
  raises. The two methods of the model that call each other take the stack depth that is left; \<open>None\<close> is
  a \<open>RecursionError\<close>. The lemmas show that the depth does not matter. The ellipsis of the reasons is the
  character \<open>0x85\<close>.
\<close>

section \<open>Entropy\<close>

definition tally :: "bytes \<Rightarrow> (char, nat) dict" where
  \<comment> \<open>\<open>Counter(data)\<close>\<close>
  "tally d =
     foldl (\<lambda>m c. AList.update c (Suc (case map_of m c of None \<Rightarrow> 0 | Some n \<Rightarrow> n)) m) [] d"

definition counter_entropy :: "bytes \<Rightarrow> real" where
  "counter_entropy d =
     (if d = [] then 0
      else - sum_list (map (\<lambda>c. real c / real (length d) * log 2 (real c / real (length d)))
                        (filter (\<lambda>c. 0 < c) (map snd (tally d)))))"

definition file_entropy :: "(bytes \<Rightarrow> real) option \<Rightarrow> bytes \<Rightarrow> real" where
  \<comment> \<open>\<open>_file_entropy\<close>; \<open>None\<close> when the native core cannot be imported\<close>
  "file_entropy core d =
     (if d = [] then 0 else case core of Some f \<Rightarrow> f d | None \<Rightarrow> counter_entropy d)"

section \<open>PE features\<close>

record pe_section_info =
  sec_name :: bytes
  sec_entropy :: real
  sec_raw :: int

record pe_info =
  \<comment> \<open>what \<open>pefile\<close> tells of a parsed file; \<open>None\<close> where the attribute is missing\<close>
  pe_secs :: "pe_section_info list"
  pe_imports :: "nat list option"
  pe_exports :: "nat option"
  pe_debug :: bool
  pe_security :: bool
  pe_entry :: "int option"

record pe_features =
  f_size :: int
  f_sections :: int
  f_entry :: int
  f_entropy :: real
  f_debug :: bool
  f_signature :: bool
  f_imports :: int
  f_exports :: int
  f_suspicious :: int
  f_avg_entropy :: real
  f_max_entropy :: real
  f_min_raw :: int

definition to_vector :: "pe_features \<Rightarrow> real list" where
  "to_vector f =
     [of_int (f_size f), of_int (f_sections f), of_int (f_entry f), f_entropy f,
      if f_debug f then 1 else 0, if f_signature f then 1 else 0, of_int (f_imports f),
      of_int (f_exports f), of_int (f_suspicious f), f_avg_entropy f, f_max_entropy f,
      of_int (f_min_raw f)]"

definition suspicious_section_names :: "string list" where
  "suspicious_section_names =
     [''.packed'', ''UPX0'', ''UPX1'', ''UPX2'', ''.themida'', ''.vmp0'', ''.vmp1'', ''.aspack'',
      ''.adata'', ''.petite'']"

definition section_label :: "bytes \<Rightarrow> string" where
  \<comment> \<open>a byte above 127 stays, which keeps the label out of the list as the replacement does\<close>
  "section_label n = strip (rev (dropWhile (\<lambda>c. c = CHR 0x00) (rev n)))"

definition max_of :: "real list \<Rightarrow> real" where
  "max_of xs = (if xs = [] then 0 else Max (set xs))"

definition min_of :: "int list \<Rightarrow> int" where
  "min_of xs = (if xs = [] then 0 else Min (set xs))"

record static_env =
  se_trust :: trust_env
  se_native :: "native_lib option"
  se_core :: "(bytes \<Rightarrow> real) option"
  se_sha :: "bytes \<Rightarrow> string"
  se_pefile :: "bytes \<Rightarrow> pe_info option"
  se_vt :: vt_env
  se_now :: real

definition se_os :: "static_env \<Rightarrow> os" where
  "se_os env = file_os (se_trust env)"

definition signature_present ::
  "static_env \<Rightarrow> fs \<Rightarrow> string \<Rightarrow> pe_info \<Rightarrow> verdict_cache \<Rightarrow> bool \<times> verdict_cache" where
  "signature_present env s p pe cache =
     (if is_file (se_os env) p s
      then case verify_pe_signature (se_trust env) s p cache of
             (Inl e, cache') \<Rightarrow> (pe_security pe, cache')
           | (Inr v, cache') \<Rightarrow> (is_signed v \<and> is_valid v, cache')
      else (pe_security pe, cache))"

definition features_of :: "static_env \<Rightarrow> bytes \<Rightarrow> pe_info \<Rightarrow> bool \<Rightarrow> pe_features" where
  "features_of env d pe has_sig =
     (let secs = pe_secs pe; ents = map sec_entropy secs in
      \<lparr>f_size = int (length d), f_sections = int (length secs),
       f_entry = (case pe_entry pe of None \<Rightarrow> 0 | Some e \<Rightarrow> e),
       f_entropy = file_entropy (se_core env) d, f_debug = pe_debug pe, f_signature = has_sig,
       f_imports = (case pe_imports pe of None \<Rightarrow> 0 | Some xs \<Rightarrow> int (sum_list xs)),
       f_exports = (case pe_exports pe of None \<Rightarrow> 0 | Some n \<Rightarrow> int n),
       f_suspicious =
         int (length (filter (\<lambda>x. section_label (sec_name x) \<in> set suspicious_section_names) secs)),
       f_avg_entropy = (if ents = [] then 0 else sum_list ents / real (length ents)),
       f_max_entropy = max_of ents, f_min_raw = min_of (map sec_raw secs)\<rparr>)"

definition extract_pe_features ::
  "static_env \<Rightarrow> fs \<Rightarrow> string \<Rightarrow> bytes option \<Rightarrow> verdict_cache \<Rightarrow> pe_features option \<times> verdict_cache" where
  "extract_pe_features env s p data cache =
     (case (case data of
              Some d \<Rightarrow> Some d
            | None \<Rightarrow>
                if is_file (se_os env) p s
                then (case read_bytes (se_os env) p s of Inl e \<Rightarrow> None | Inr d \<Rightarrow> Some d)
                else None) of
        None \<Rightarrow> (None, cache)
      | Some d \<Rightarrow>
          if length d < 2 \<or> take 2 d \<noteq> ''MZ'' then (None, cache)
          else case se_pefile env d of
                 None \<Rightarrow> (None, cache)
               | Some pe \<Rightarrow>
                   (case signature_present env s p pe cache of
                      (sg, cache') \<Rightarrow> (Some (features_of env d pe sg), cache')))"

section \<open>The model\<close>

definition get_resource_dir ::
  "char list \<Rightarrow> install \<Rightarrow> (string \<Rightarrow> bool) \<Rightarrow> string \<Rightarrow> string \<Rightarrow> string" where
  \<comment> \<open>\<open>here\<close> is the package directory, two levels above the module\<close>
  "get_resource_dir sp i ex here sub =
     (let frozen_dirs =
            (if frozen i
             then (case meipass i of
                     None \<Rightarrow> []
                   | Some m \<Rightarrow> [path_join sp (path_join sp m ''sentinel'') sub, path_join sp m sub])
                  @ [path_join sp (path_join sp (path_join sp (exe_dir i) ''_internal'') ''sentinel'') sub,
                     path_join sp (path_join sp (exe_dir i) ''_internal'') sub,
                     path_join sp (path_join sp (exe_dir i) ''sentinel'') sub,
                     path_join sp (exe_dir i) sub]
             else []);
          candidates = frozen_dirs @ [path_join sp here sub]
      in case find ex candidates of Some c \<Rightarrow> c | None \<Rightarrow> List.last candidates)"

definition baseline :: "real list list" where
  "baseline =
     [[201728, 6, 0x1000, 6.12, 1, 1, 85, 0, 0, 5.82, 6.54, 512],
      [120320, 5, 0x2000, 5.91, 1, 1, 42, 0, 0, 5.51, 6.22, 512],
      [4500000, 8, 0x3000, 6.42, 1, 1, 320, 5, 0, 6.02, 6.81, 1024],
      [2900000, 7, 0x1000, 6.35, 1, 1, 200, 10, 0, 5.94, 6.63, 4096],
      [100864, 5, 0x1000, 5.74, 1, 1, 35, 0, 0, 5.21, 6.01, 512],
      [8500000, 9, 0x1000, 7.02, 0, 1, 50, 0, 0, 6.51, 7.23, 2048],
      [45056, 4, 0x1000, 5.43, 0, 0, 20, 0, 0, 4.82, 5.51, 512],
      [15360, 3, 0x2000, 4.52, 1, 1, 5, 0, 0, 3.21, 4.81, 512],
      [12000000, 10, 0x1000, 6.52, 1, 1, 450, 20, 0, 6.21, 6.94, 4096],
      [51200, 5, 0x1000, 5.82, 1, 1, 30, 0, 0, 5.31, 6.12, 512],
      [750000, 6, 0x15000, 6.45, 1, 1, 12, 1400, 0, 6.10, 6.72, 1024],
      [1600000, 7, 0x21000, 6.38, 1, 1, 25, 950, 0, 5.95, 6.68, 1024],
      [2100000, 8, 0x30000, 6.55, 1, 1, 5, 2200, 0, 6.20, 6.85, 2048],
      [85000, 3, 0x14000, 7.82, 0, 0, 4, 0, 2, 7.20, 7.95, 256],
      [142000, 3, 0x22000, 7.91, 0, 0, 2, 0, 2, 7.40, 7.98, 512],
      [45000, 2, 0x400, 7.94, 0, 0, 0, 0, 0, 7.80, 7.99, 1024]]"

record forest =
  outlier :: "real list \<Rightarrow> bool"
  sample_score :: "real list \<Rightarrow> real"

record learn_env =
  fit_forest :: "real list list \<Rightarrow> forest"
  dataset :: "real list list option"    \<comment> \<open>\<open>None\<close>: no dataset file, or it does not load\<close>

record pe_model =
  iforest :: forest
  lgbm :: "(real list \<Rightarrow> real option) option"
  ember :: "(bytes \<Rightarrow> real option) option"
  fitted :: bool
  metadata :: "(string, pyval) dict"

definition fit :: "learn_env \<Rightarrow> real list list option \<Rightarrow> pe_model \<Rightarrow> pe_model" where
  "fit le vectors m =
     (let given = (case vectors of None \<Rightarrow> [] | Some v \<Rightarrow> v);
          d1 = (if given = [] then (case dataset le of None \<Rightarrow> [] | Some v \<Rightarrow> v) else given);
          d2 = (if d1 = [] then baseline else d1)
      in m\<lparr>iforest := fit_forest le d2, fitted := True\<rparr>)"

definition ensure_fitted :: "learn_env \<Rightarrow> pe_model \<Rightarrow> pe_model" where
  "ensure_fitted le m = (if fitted m then m else fit le None m)"

subsection \<open>Loading\<close>

record joblib_dict =
  b_metadata :: "(string, pyval) dict option"
  b_lgbm :: "(real list \<Rightarrow> real option) option"
  b_iforest :: "forest option"
  b_model :: "forest option"

datatype artifact =
    LoadFails
  | Booster "bytes \<Rightarrow> real option"
  | JoblibDict joblib_dict
  | JoblibForest forest
  | OtherObject

definition ember_metadata :: "(string, pyval) dict" where
  "ember_metadata =
     [(''dataset_samples'', VInt 3200000),
      (''model_source'', VStr ''EMBER2024 (Robert J. Joyce et al., ACM SIGKDD 2025)''),
      (''roc_auc'', VFloat 0.9912), (''challenge_roc_auc'', VFloat 0.9643)]"

definition path_suffix :: "char list \<Rightarrow> string \<Rightarrow> string" where
  \<comment> \<open>\<open>Path(p).suffix\<close>\<close>
  "path_suffix sp p =
     (let n = path_name sp p;
          ext = rev (takeWhile (\<lambda>c. c \<noteq> CHR ''.'') (rev n));
          stem_len = length n - length ext - 1
      in if CHR ''.'' \<in> set n \<and> ext \<noteq> [] \<and> 0 < stem_len then CHR ''.'' # ext else [])"

definition load_ember :: "learn_env \<Rightarrow> artifact \<Rightarrow> pe_model \<Rightarrow> bool \<times> pe_model" where
  "load_ember le a m =
     (case ember m of
        Some b \<Rightarrow> (False, m)
      | None \<Rightarrow>
          (case a of
             Booster b \<Rightarrow>
               (True, m\<lparr>ember := Some b, iforest := fit_forest le baseline, fitted := True,
                        metadata := ember_metadata\<rparr>)
           | _ \<Rightarrow> (False, m)))"

definition load_joblib :: "artifact \<Rightarrow> pe_model \<Rightarrow> bool \<times> pe_model" where
  "load_joblib a m =
     (if lgbm m \<noteq> None then (False, m)
      else case a of
             JoblibDict b \<Rightarrow>
               (let m1 = (case b_metadata b of None \<Rightarrow> m | Some md \<Rightarrow> m\<lparr>metadata := md\<rparr>) in
                case b_lgbm b of
                  Some l \<Rightarrow>
                    (let m2 = m1\<lparr>lgbm := Some l\<rparr> in
                     case b_iforest b of
                       None \<Rightarrow> (False, m2)
                     | Some f \<Rightarrow> (True, m2\<lparr>iforest := f, fitted := True\<rparr>))
                | None \<Rightarrow>
                    (case b_model b of
                       None \<Rightarrow> (False, m1)
                     | Some f \<Rightarrow> (True, m1\<lparr>iforest := f, fitted := True\<rparr>)))
           | JoblibForest f \<Rightarrow> (True, m\<lparr>iforest := f, fitted := True\<rparr>)
           | _ \<Rightarrow> (False, m))"

definition candidate_paths :: "char list \<Rightarrow> string option \<Rightarrow> string \<Rightarrow> string \<Rightarrow> string list" where
  \<comment> \<open>\<open>data_dir\<close> as resolved at run time, \<open>own\<close> beside the module\<close>
  "candidate_paths sp model_path data_dir own =
     (case model_path of
        Some p \<Rightarrow> [p]
      | None \<Rightarrow>
          concat (map (\<lambda>n. [path_join sp data_dir n, path_join sp own n])
            [''pe_model_ember.model'', ''pe_model_v2.joblib'', ''pe_model.joblib'']))"

fun load_pretrained ::
  "char list \<Rightarrow> learn_env \<Rightarrow> (string \<Rightarrow> artifact option) \<Rightarrow> string list \<Rightarrow> pe_model \<Rightarrow> bool \<times> pe_model" where
  \<comment> \<open>the third argument gives what a path loads, \<open>None\<close> where it does not exist\<close>
  "load_pretrained sp le disk [] m = (False, m)"
| "load_pretrained sp le disk (p # ps) m =
     (case disk p of
        None \<Rightarrow> load_pretrained sp le disk ps m
      | Some a \<Rightarrow>
          (case (if path_suffix sp p = ''.model'' \<or> contains (lower (path_name sp p)) ''ember''
                 then load_ember le a m else load_joblib a m) of
             (b, m1) \<Rightarrow>
               (case load_pretrained sp le disk ps m1 of (b', m2) \<Rightarrow> (b \<or> b', m2))))"

definition new_pe_model ::
  "char list \<Rightarrow> learn_env \<Rightarrow> (string \<Rightarrow> artifact option) \<Rightarrow> string list \<Rightarrow> pe_model" where
  \<comment> \<open>the forest before fitting is never consulted\<close>
  "new_pe_model sp le disk ps =
     snd (load_pretrained sp le disk ps
       \<lparr>iforest = \<lparr>outlier = (\<lambda>v. False), sample_score = (\<lambda>v. 0)\<rparr>, lgbm = None, ember = None,
        fitted = False, metadata = []\<rparr>)"

subsection \<open>Judging\<close>

definition exempt :: "pe_features \<Rightarrow> bool" where
  "exempt f = (f_signature f \<and> f_suspicious f = 0)"

definition ember_applies :: "pe_model \<Rightarrow> bytes option \<Rightarrow> bool" where
  "ember_applies m data \<longleftrightarrow> ember m \<noteq> None \<and> (\<exists>d. data = Some d \<and> 128 \<le> length d)"

definition ember_answer :: "pe_model \<Rightarrow> bytes option \<Rightarrow> real option" where
  \<comment> \<open>the extractor and the booster on the raw bytes; \<open>None\<close> when either raises\<close>
  "ember_answer m data =
     (case (ember m, data) of (Some b, Some d) \<Rightarrow> b d | _ \<Rightarrow> None)"

definition lgbm_answer :: "pe_model \<Rightarrow> pe_features \<Rightarrow> real option" where
  "lgbm_answer m f = (case lgbm m of None \<Rightarrow> None | Some l \<Rightarrow> l (to_vector f))"

fun predict_malware_probability :: "nat \<Rightarrow> pe_model \<Rightarrow> pe_features \<Rightarrow> bytes option \<Rightarrow> real option"
and is_suspicious :: "nat \<Rightarrow> pe_model \<Rightarrow> pe_features \<Rightarrow> bytes option \<Rightarrow> bool option" where
  "predict_malware_probability 0 m f data = None"
| "predict_malware_probability (Suc n) m f data =
     (case (if ember_applies m data then ember_answer m data else None) of
        Some p \<Rightarrow> Some p
      | None \<Rightarrow>
          (case lgbm_answer m f of
             Some p \<Rightarrow> Some (if exempt f then min p 0.15 else p)
           | None \<Rightarrow>
               (case is_suspicious n m f data of
                  None \<Rightarrow> None
                | Some b \<Rightarrow> Some (if b then 0.85 else 0.05))))"
| "is_suspicious 0 m f data = None"
| "is_suspicious (Suc n) m f data =
     (if exempt f then Some False
      else case (if ember_applies m data then predict_malware_probability n m f data else None) of
             Some p \<Rightarrow> Some (1/2 \<le> p)
           | None \<Rightarrow>
               (case lgbm_answer m f of
                  Some p \<Rightarrow> Some (1/2 \<le> p)
                | None \<Rightarrow> Some (outlier (iforest m) (to_vector f))))"

definition anomaly_score :: "pe_model \<Rightarrow> pe_features \<Rightarrow> real" where
  "anomaly_score m f = sample_score (iforest m) (to_vector f)"

record threat =
  is_malware :: bool
  malware_probability :: real
  threat_anomaly :: real
  model_version :: string

definition predict_threat :: "nat \<Rightarrow> pe_model \<Rightarrow> pe_features \<Rightarrow> bytes option \<Rightarrow> threat option" where
  "predict_threat n m f data =
     (case predict_malware_probability n m f data of
        None \<Rightarrow> None
      | Some p \<Rightarrow>
          (case is_suspicious n m f data of
             None \<Rightarrow> None
           | Some b \<Rightarrow>
               Some \<lparr>is_malware = (1/2 \<le> p \<or> b), malware_probability = p,
                     threat_anomaly = anomaly_score m f,
                     model_version = (if ember m \<noteq> None then ''EMBER2024 (3.2M samples)''
                                      else if lgbm m \<noteq> None then ''2.0.0'' else ''1.0.0'')\<rparr>))"

section \<open>The classifier\<close>

type_synonym yara = "bytes \<Rightarrow> string list option"

record classifier =
  cl_vt :: "vt_client option"
  cl_model :: pe_model
  cl_checked :: "string set"
  cl_yara :: "yara option"
  cl_sigs :: verdict_cache

record yara_env =
  yara_available :: bool
  yar_files :: "string \<Rightarrow> string list"
  yara_compile :: "(string, string) dict \<Rightarrow> yara option"

definition path_stem :: "char list \<Rightarrow> string \<Rightarrow> string" where
  "path_stem sp p =
     (let n = path_name sp p in take (length n - length (path_suffix sp p)) n)"

definition yara_rules_dir ::
  "char list \<Rightarrow> install \<Rightarrow> (string \<Rightarrow> bool) \<Rightarrow> string \<Rightarrow> string option \<Rightarrow> string" where
  "yara_rules_dir sp i ex here given =
     (case given of
        Some d \<Rightarrow> d
      | None \<Rightarrow>
          (let d = path_join sp (get_resource_dir sp i ex here ''config'') ''rules'' in
           if ex d then d else path_join sp (path_join sp here ''config'') ''rules''))"

definition load_yara_rules :: "char list \<Rightarrow> yara_env \<Rightarrow> string \<Rightarrow> yara option" where
  \<comment> \<open>from the directory \<open>yara_rules_dir\<close>\<close>
  "load_yara_rules sp ye d =
     (if \<not> yara_available ye \<or> yar_files ye d = [] then None
      else yara_compile ye
             (foldl (\<lambda>m f. AList.update (path_stem sp f) f m) [] (yar_files ye d)))"

definition yara_scan :: "yara option \<Rightarrow> bytes \<Rightarrow> string list" where
  "yara_scan y d =
     (case y of
        None \<Rightarrow> []
      | Some match_data \<Rightarrow> (case match_data d of None \<Rightarrow> [] | Some names \<Rightarrow> names))"

definition new_classifier :: "vt_client option \<Rightarrow> pe_model \<Rightarrow> yara option \<Rightarrow> classifier" where
  "new_classifier vt m y =
     \<lparr>cl_vt = vt, cl_model = m, cl_checked = {}, cl_yara = y, cl_sigs = []\<rparr>"

definition clear_hash :: "string \<Rightarrow> classifier \<Rightarrow> classifier" where
  "clear_hash h c = c\<lparr>cl_checked := cl_checked c - {lower h}\<rparr>"

definition read_and_hash :: "static_env \<Rightarrow> fs \<Rightarrow> string \<Rightarrow> (string \<times> bytes) option" where
  "read_and_hash env s p =
     (case read_bytes (se_os env) p s of
        Inl e \<Rightarrow> None
      | Inr d \<Rightarrow>
          (case fast_sha256 (se_native env) (se_sha env) (se_os env) s p of
             None \<Rightarrow> Some (se_sha env d, d)
           | Some h \<Rightarrow> Some (h, d)))"

definition lure_exts :: "string list" where
  "lure_exts =
     [''.pdf'', ''.doc'', ''.docx'', ''.xls'', ''.xlsx'', ''.ppt'', ''.pptx'', ''.txt'', ''.rtf'',
      ''.jpg'', ''.jpeg'', ''.png'', ''.gif'', ''.mp3'', ''.mp4'', ''.zip'', ''.rar'']"

definition runnable_exts :: "string list" where
  "runnable_exts =
     [''.exe'', ''.dll'', ''.sys'', ''.scr'', ''.bat'', ''.cmd'', ''.ps1'', ''.vbs'', ''.js'', ''.hta'']"

definition masquerade_exts :: "string list" where
  "masquerade_exts =
     [''.pdf'', ''.doc'', ''.docx'', ''.xls'', ''.xlsx'', ''.ppt'', ''.pptx'', ''.txt'', ''.rtf'',
      ''.jpg'', ''.jpeg'', ''.png'', ''.gif'', ''.bmp'', ''.mp3'', ''.mp4'', ''.wav'', ''.avi'',
      ''.zip'', ''.rar'', ''.7z'', ''.tar'', ''.gz'', ''.iso'', ''.dat'', ''.bin'']"

definition double_extension :: "string list \<Rightarrow> string list \<Rightarrow> string \<Rightarrow> bool" where
  "double_extension final penultimate name =
     (let parts = split_on (\<lambda>c. c = CHR ''.'') (lower name); n = length parts
      in 3 \<le> n \<and> CHR ''.'' # parts ! (n - 1) \<in> set final
         \<and> CHR ''.'' # parts ! (n - 2) \<in> set penultimate)"

definition ellipsis :: string where "ellipsis = [CHR 0x85]"

definition file_subject :: "string \<Rightarrow> string" where
  "file_subject sha = ''file:'' @ take 16 sha"

definition file_signal :: "static_env \<Rightarrow> string \<Rightarrow> string \<Rightarrow> string \<Rightarrow> string \<Rightarrow> signal" where
  "file_signal env k sha eng why = mk_signal (se_now env) k (file_subject sha) why eng None None"

definition yara_signals :: "static_env \<Rightarrow> string \<Rightarrow> string \<Rightarrow> string list \<Rightarrow> signal list" where
  "yara_signals env sha name hits =
     map (\<lambda>r. file_signal env ''yara_match'' sha ''yara_scanner''
            (''YARA rule '' @ [CHR 0x27] @ r @ [CHR 0x27] @ '' matched '' @ name @ '' ('' @ take 16 sha
             @ ellipsis @ '')'')) hits"

definition show_opt_int :: "int option \<Rightarrow> string" where
  "show_opt_int x = (case x of None \<Rightarrow> ''None'' | Some i \<Rightarrow> show_int i)"

definition vt_signal :: "static_env \<Rightarrow> string \<Rightarrow> string \<Rightarrow> hash_verdict \<Rightarrow> signal" where
  "vt_signal env sha name v =
     file_signal env ''vt_positive'' sha ''static_classifier''
       (''VirusTotal: '' @ show_opt_int (hv_positives v) @ ''/'' @ show_opt_int (hv_total v)
        @ '' detections for '' @ name @ '' ('' @ take 16 sha @ ellipsis @ '')'')"

definition double_signal :: "static_env \<Rightarrow> string \<Rightarrow> string \<Rightarrow> signal" where
  "double_signal env sha name =
     file_signal env ''pe_double_extension'' sha ''static_classifier''
       (''deceptive double extension detected in '' @ [CHR 0x27] @ name @ [CHR 0x27])"

definition masquerade_signal :: "static_env \<Rightarrow> string \<Rightarrow> string \<Rightarrow> string \<Rightarrow> signal" where
  "masquerade_signal env sha name ext =
     file_signal env ''pe_masquerade'' sha ''static_classifier''
       (''executable PE binary masquerading with non-executable extension '' @ [CHR 0x27] @ ext
        @ [CHR 0x27] @ '' in '' @ name)"

definition show_bool :: "bool \<Rightarrow> string" where
  "show_bool b = (if b then ''True'' else ''False'')"

definition pe_signal :: "static_env \<Rightarrow> string \<Rightarrow> string \<Rightarrow> pe_features \<Rightarrow> real \<Rightarrow> signal" where
  "pe_signal env sha name f score =
     file_signal env ''vt_unknown_suspicious_pe'' sha ''static_classifier''
       (''suspicious PE features in '' @ name @ '' (anomaly_score='' @ fmt_fixed 3 score
        @ '', sections='' @ show_int (f_sections f) @ '', entropy='' @ fmt_fixed 2 (f_entropy f)
        @ '', imports='' @ show_int (f_imports f) @ '', signed='' @ show_bool (f_signature f)
        @ '', suspicious_sections='' @ show_int (f_suspicious f) @ '')'')"

definition vt_check ::
  "static_env \<Rightarrow> fs \<Rightarrow> string \<Rightarrow> string \<Rightarrow> classifier
    \<Rightarrow> (hash_verdict option py_result \<times> classifier) option" where
  \<comment> \<open>the verdict of the lookup; \<open>None\<close> inside for no client, an exempt file or no answer\<close>
  "vt_check env s p sha c =
     (case cl_vt c of
        None \<Rightarrow> Some (Inr None, c)
      | Some v \<Rightarrow>
          (case is_eligible_for_vt_lookup (se_trust env) s (PathArg p) False None (cl_sigs c) of
             (ok, cache) \<Rightarrow>
               if \<not> ok then Some (Inr None, c\<lparr>cl_sigs := cache\<rparr>)
               else case lookup (se_vt env) sha v of
                      None \<Rightarrow> None
                    | Some (r, v') \<Rightarrow> Some (r, c\<lparr>cl_sigs := cache, cl_vt := Some v'\<rparr>)))"

definition pe_check ::
  "static_env \<Rightarrow> learn_env \<Rightarrow> nat \<Rightarrow> fs \<Rightarrow> string \<Rightarrow> string \<Rightarrow> bytes \<Rightarrow> classifier
    \<Rightarrow> signal list \<times> classifier" where
  "pe_check env le depth s p sha d c =
     (case extract_pe_features env s p (Some d) (cl_sigs c) of
        (fo, cache) \<Rightarrow>
          let c1 = c\<lparr>cl_sigs := cache\<rparr>; name = path_name (seps (se_os env)) p;
              ext = lower (path_suffix (seps (se_os env)) p)
          in case fo of
               None \<Rightarrow> ([], c1)
             | Some f \<Rightarrow>
                 if ext \<in> set masquerade_exts then ([masquerade_signal env sha name ext], c1)
                 else
                   let m = ensure_fitted le (cl_model c1); c2 = c1\<lparr>cl_model := m\<rparr>
                   in if is_suspicious depth m f (Some d) = Some True \<and> \<not> exempt f
                      then ([pe_signal env sha name f (anomaly_score m f)], c2)
                      else ([], c2))"

definition event_path :: "event \<Rightarrow> string option py_result" where
  \<comment> \<open>\<open>event.image_path or event.extra.get('path')\<close>; \<open>Path\<close> of a value that is not text raises\<close>
  "event_path e =
     (case val_or (case image_path e of None \<Rightarrow> VNone | Some p \<Rightarrow> VStr p) (dict_get (extra e) ''path'') of
        VStr q \<Rightarrow> Inr (if q = [] then None else Some q)
      | v \<Rightarrow> if truthy v then Inl TypeError else Inr None)"

definition local_checks ::
  "static_env \<Rightarrow> learn_env \<Rightarrow> nat \<Rightarrow> fs \<Rightarrow> string \<Rightarrow> string \<Rightarrow> bytes \<Rightarrow> classifier
    \<Rightarrow> signal list \<times> classifier" where
  "local_checks env le depth s p sha d c =
     (let name = path_name (seps (se_os env)) p in
      if double_extension runnable_exts lure_exts name then ([double_signal env sha name], c)
      else pe_check env le depth s p sha d c)"

definition examine ::
  "static_env \<Rightarrow> learn_env \<Rightarrow> nat \<Rightarrow> fs \<Rightarrow> string \<Rightarrow> string \<Rightarrow> bytes \<Rightarrow> classifier
    \<Rightarrow> (signal list py_result \<times> classifier) option" where
  \<comment> \<open>the checks of a file whose hash is new\<close>
  "examine env le depth s p sha d c =
     (let name = path_name (seps (se_os env)) p; hits = yara_scan (cl_yara c) d in
      if hits \<noteq> [] then Some (Inr (yara_signals env sha name hits), c)
      else case vt_check env s p sha c of
             None \<Rightarrow> None
           | Some (Inl e, c1) \<Rightarrow> Some (Inl e, c1)
           | Some (Inr v, c1) \<Rightarrow>
               (case map_option hv_verdict v of
                  Some vd \<Rightarrow>
                    if vd = ''malicious'' then Some (Inr [vt_signal env sha name (the v)], c1)
                    else if vd = ''clean'' then Some (Inr [], c1)
                    else Some (apfst Inr (local_checks env le depth s p sha d c1))
                | None \<Rightarrow> Some (apfst Inr (local_checks env le depth s p sha d c1))))"

definition classify_file_event ::
  "static_env \<Rightarrow> learn_env \<Rightarrow> nat \<Rightarrow> fs \<Rightarrow> event \<Rightarrow> classifier
    \<Rightarrow> (signal list py_result \<times> classifier) option" where
  "classify_file_event env le depth s e c =
     (if event_type e \<noteq> ''file_write'' \<or> source e \<noteq> ''fs'' then Some (Inr [], c)
      else case event_path e of
             Inl x \<Rightarrow> Some (Inl x, c)
           | Inr None \<Rightarrow> Some (Inr [], c)
           | Inr (Some p) \<Rightarrow>
               if \<not> is_file (se_os env) p s then Some (Inr [], c)
               else case read_and_hash env s p of
                      None \<Rightarrow> Some (Inr [], c)
                    | Some (sha, d) \<Rightarrow>
                        if sha \<in> cl_checked c then Some (Inr [], c)
                        else examine env le depth s p sha d
                               (c\<lparr>cl_checked := insert sha (cl_checked c)\<rparr>))"

section \<open>Lemmas on the entropies\<close>

lemma tally_snoc:
  "tally (d @ [c]) =
     AList.update c (Suc (case map_of (tally d) c of None \<Rightarrow> 0 | Some n \<Rightarrow> n)) (tally d)"
  by (simp add: tally_def)

lemma wf_tally: "wf_dict (tally d)"
  by (induction d rule: rev_induct) (simp_all add: tally_snoc, simp add: tally_def)

lemma tally_lookup: "map_of (tally d) c = (if c \<in> set d then Some (count_list d c) else None)"
proof (induction d rule: rev_induct)
  case Nil
  then show ?case by (simp add: tally_def)
next
  case (snoc b d)
  then show ?case by (auto simp: tally_snoc count_list_0_iff)
qed

lemma tally_keys: "set (keys (tally d)) = set d"
proof (induction d rule: rev_induct)
  case (snoc c d)
  show ?case by (simp only: tally_snoc keys_update snoc.IH) simp
qed (simp add: tally_def)

lemma sum_tally: "sum_list (map g (map snd (tally d))) = (\<Sum>c \<in> set d. g (count_list d c))"
proof -
  have eq: "map snd (tally d) = map (count_list d) (keys (tally d))"
  proof (rule nth_equalityI)
    fix i assume i: "i < length (map snd (tally d))"
    then have m: "tally d ! i \<in> set (tally d)" by simp
    obtain c n where cn: "tally d ! i = (c, n)" by fastforce
    have "map_of (tally d) c = Some n"
      using wf_tally m cn by (auto intro: map_of_is_SomeI)
    then show "map snd (tally d) ! i = map (count_list d) (keys (tally d)) ! i"
      using i cn by (auto simp: tally_lookup split: if_splits)
  qed simp
  have "sum_list (map g (map snd (tally d))) = sum_list (map (\<lambda>c. g (count_list d c)) (keys (tally d)))"
    by (simp only: eq map_map comp_def)
  also have "\<dots> = (\<Sum>c \<in> set (keys (tally d)). g (count_list d c))"
    by (rule sum_list_distinct_conv_sum_set) (rule wf_tally)
  finally show ?thesis by (simp only: tally_keys)
qed

lemma counter_entropy_eq: "counter_entropy d = byte_entropy d"
proof (cases "d = []")
  case False
  have "0 < n" if "n \<in> set (map snd (tally d))" for n
  proof -
    from that obtain c where "(c, n) \<in> set (tally d)" by auto
    then have "map_of (tally d) c = Some n" using wf_tally by (auto intro: map_of_is_SomeI)
    then show ?thesis by (auto simp: tally_lookup count_list_0_iff split: if_splits intro: gr0I)
  qed
  then have "filter (\<lambda>c. 0 < c) (map snd (tally d)) = map snd (tally d)" by (simp add: filter_id_conv)
  then show ?thesis
    using False sum_tally[of "entropy_term (length d)" d]
    by (simp add: counter_entropy_def byte_entropy_def entropy_term_def[abs_def] Let_def)
qed (simp add: counter_entropy_def)

section \<open>Lemmas on the model\<close>

definition deep_answer :: "pe_model \<Rightarrow> bytes option \<Rightarrow> real option" where
  "deep_answer m data = (if ember_applies m data then ember_answer m data else None)"

lemma is_suspicious_forest:
  assumes "deep_answer m data = None" "lgbm_answer m f = None"
  shows "is_suspicious (Suc n) m f data = Some (\<not> exempt f \<and> outlier (iforest m) (to_vector f))"
proof (induction n rule: less_induct)
  case (less n)
  have e: "(if ember_applies m data then ember_answer m data else None) = None"
    using assms(1) by (simp add: deep_answer_def)
  show ?case
  proof (cases n)
    case (Suc k)
    show ?thesis
    proof (cases k)
      case (Suc j)
      then show ?thesis using less[of j] \<open>n = Suc k\<close> assms e by (auto simp del: less)
    qed (use assms e Suc in auto)
  qed (use assms e in auto)
qed

lemma is_suspicious_deep:
  "is_suspicious (Suc (Suc n)) m f data =
     Some (\<not> exempt f \<and>
       (case deep_answer m data of
          Some p \<Rightarrow> 1/2 \<le> p
        | None \<Rightarrow> (case lgbm_answer m f of
                     Some p \<Rightarrow> 1/2 \<le> p
                   | None \<Rightarrow> outlier (iforest m) (to_vector f))))"
proof (cases "deep_answer m data = None \<and> lgbm_answer m f = None")
  case True
  then show ?thesis by (simp add: is_suspicious_forest del: is_suspicious.simps)
next
  case False
  then show ?thesis by (auto simp: deep_answer_def split: option.splits if_splits)
qed

lemma predict_deep:
  "predict_malware_probability (Suc (Suc n)) m f data =
     Some (case deep_answer m data of
             Some p \<Rightarrow> p
           | None \<Rightarrow> (case lgbm_answer m f of
                        Some p \<Rightarrow> if exempt f then min p 0.15 else p
                      | None \<Rightarrow> if \<not> exempt f \<and> outlier (iforest m) (to_vector f) then 0.85 else 0.05))"
proof (cases "deep_answer m data = None \<and> lgbm_answer m f = None")
  case True
  then show ?thesis
    using is_suspicious_forest[of m data f n] by (simp add: deep_answer_def del: is_suspicious.simps)
next
  case False
  then show ?thesis by (auto simp: deep_answer_def split: option.splits if_splits)
qed

section \<open>Lemmas on the classifier\<close>

lemmas signal_defs = file_signal_def mk_signal_def yara_signals_def vt_signal_def double_signal_def
  masquerade_signal_def pe_signal_def

lemma local_checks_signals:
  assumes "local_checks env le n s p sha d c = (xs, c')"
  shows "xs = [] \<or> (\<exists>x. xs = [x] \<and> subject x = file_subject sha \<and> weight x = None
    \<and> kind x \<in> {''pe_double_extension'', ''pe_masquerade'', ''vt_unknown_suspicious_pe''})"
  using assms
  by (auto simp: local_checks_def pe_check_def signal_defs Let_def split: if_splits prod.splits option.splits)

lemma apfst_Inr_iff: "apfst Inr r = (y, c) \<longleftrightarrow> (\<exists>xs. r = (xs, c) \<and> y = Inr xs)"
  by (cases r) auto

lemma examine_cases:
  assumes "examine env le n s p sha d c = Some (Inr xs, c')"
  shows "xs = yara_signals env sha (path_name (seps (se_os env)) p) (yara_scan (cl_yara c) d) \<or> xs = []
    \<or> (\<exists>x. xs = [vt_signal env sha (path_name (seps (se_os env)) p) x])
    \<or> (\<exists>c1. local_checks env le n s p sha d c1 = (xs, c'))"
  using assms
  by (auto simp: examine_def apfst_Inr_iff Let_def split: if_splits option.splits sum.splits)

definition classification :: "string \<Rightarrow> signal list \<Rightarrow> bool" where
  \<comment> \<open>the shape of an answer: YARA matches, or one other signal, of the file's subject\<close>
  "classification sha xs \<longleftrightarrow>
     (\<forall>x \<in> set xs. subject x = file_subject sha \<and> weight x = None) \<and>
     ((\<forall>x \<in> set xs. kind x = ''yara_match'')
      \<or> (\<exists>x. xs = [x] \<and>
           kind x \<in> {''pe_double_extension'', ''pe_masquerade'', ''vt_unknown_suspicious_pe'', ''vt_positive''}))"

lemma examine_signals:
  assumes "examine env le n s p sha d c = Some (Inr xs, c')"
  shows "classification sha xs"
  using examine_cases[OF assms]
proof (elim disjE exE)
  fix c1 assume "local_checks env le n s p sha d c1 = (xs, c')"
  from local_checks_signals[OF this] show ?thesis by (auto simp: classification_def)
qed (simp_all add: classification_def signal_defs)

lemma classify_signals:
  assumes "classify_file_event env le n s e c = Some (Inr xs, c')"
  shows "\<exists>sha. classification sha xs"
proof -
  have "xs = [] \<or> (\<exists>p sha d c1. examine env le n s p sha d c1 = Some (Inr xs, c'))"
    using assms by (auto simp: classify_file_event_def split: if_splits sum.splits option.splits)
  moreover have "classification [] []" by (simp add: classification_def)
  ultimately show ?thesis using examine_signals by blast
qed

lemma vt_check_checked: "vt_check env s p sha c = Some (r, c') \<Longrightarrow> cl_checked c' = cl_checked c"
  by (auto simp: vt_check_def split: option.splits prod.splits if_splits)

lemma local_checks_checked: "local_checks env le n s p sha d c = (xs, c') \<Longrightarrow> cl_checked c' = cl_checked c"
  by (auto simp: local_checks_def pe_check_def Let_def split: option.splits prod.splits if_splits)

lemma examine_checked: "examine env le n s p sha d c = Some (r, c') \<Longrightarrow> cl_checked c' = cl_checked c"
  by (auto simp: examine_def Let_def apfst_def map_prod_def split: option.splits prod.splits if_splits sum.splits
      dest: vt_check_checked local_checks_checked)

section \<open>Histories\<close>

fun classify_run ::
  "(static_env \<times> learn_env \<times> nat \<times> fs \<times> event) list \<Rightarrow> classifier \<Rightarrow> classifier option" where
  \<comment> \<open>a sequence of events, whatever each answers or raises\<close>
  "classify_run [] c = Some c"
| "classify_run ((env, le, n, s, e) # qs) c =
     (case classify_file_event env le n s e c of
        None \<Rightarrow> None
      | Some (r, c1) \<Rightarrow> classify_run qs c1)"

lemma classify_checked_mono:
  "classify_file_event env le n s e c = Some (r, c') \<Longrightarrow> cl_checked c \<subseteq> cl_checked c'"
  by (auto simp: classify_file_event_def split: if_splits sum.splits option.splits
      dest!: examine_checked)

lemma classify_run_mono: "classify_run qs c = Some c' \<Longrightarrow> cl_checked c \<subseteq> cl_checked c'"
proof (induction qs arbitrary: c)
  case (Cons q qs)
  obtain env le n s e where q: "q = (env, le, n, s, e)" by (metis prod.exhaust)
  obtain r c1 where f: "classify_file_event env le n s e c = Some (r, c1)" "classify_run qs c1 = Some c'"
    using Cons.prems q by (auto split: option.splits)
  from classify_checked_mono[OF f(1)] Cons.IH[OF f(2)] show ?case by blast
qed simp

definition file_digest :: "static_env \<Rightarrow> fs \<Rightarrow> event \<Rightarrow> string option" where
  \<comment> \<open>the hash of the file that a file event names\<close>
  "file_digest env s e =
     (if event_type e = ''file_write'' \<and> source e = ''fs''
      then case event_path e of
             Inr (Some p) \<Rightarrow>
               if is_file (se_os env) p s then map_option fst (read_and_hash env s p) else None
           | _ \<Rightarrow> None
      else None)"

lemma classify_marks:
  assumes "classify_file_event env le n s e c = Some (r, c')" "file_digest env s e = Some sha"
  shows "sha \<in> cl_checked c'"
  using assms
  by (auto simp: classify_file_event_def file_digest_def split: if_splits sum.splits option.splits
      dest!: examine_checked)

lemma classify_skips:
  assumes "file_digest env s e = Some sha" "sha \<in> cl_checked c"
  shows "classify_file_event env le n s e c = Some (Inr [], c)"
  using assms
  by (auto simp: classify_file_event_def file_digest_def split: if_splits sum.splits option.splits)

section \<open>Properties\<close>

text \<open>The classifier's own entropy routine, over a counter, agrees with the native core's Python
  routine, over a table of 256 counts, on all data.\<close>

lemma entropies_agree: "file_entropy None d = fast_entropy None d"
  by (simp add: file_entropy_def fast_entropy_sum counter_entropy_eq)

text \<open>C18: although the model's two methods call each other, each answers at every stack depth from two
  on, and the answer does not depend on the depth: the EMBER probability where it can be computed, else
  LightGBM's, capped for signed files without packer sections, else the forest's verdict; a signed file
  without packer sections is never suspicious.\<close>

theorem model_verdict:
  assumes "2 \<le> n"
  shows "predict_malware_probability n m f data =
      Some (case deep_answer m data of
             Some p \<Rightarrow> p
           | None \<Rightarrow> (case lgbm_answer m f of
                        Some p \<Rightarrow> if exempt f then min p 0.15 else p
                      | None \<Rightarrow> if \<not> exempt f \<and> outlier (iforest m) (to_vector f) then 0.85 else 0.05))
    \<and> is_suspicious n m f data =
      Some (\<not> exempt f \<and>
       (case deep_answer m data of
          Some p \<Rightarrow> 1/2 \<le> p
        | None \<Rightarrow> (case lgbm_answer m f of
                     Some p \<Rightarrow> 1/2 \<le> p
                   | None \<Rightarrow> outlier (iforest m) (to_vector f))))"
proof -
  obtain k where "n = Suc (Suc k)" using assms by (metis add_2_eq_Suc le_Suc_ex)
  then show ?thesis using predict_deep[of k m f data] is_suspicious_deep[of k m f data] by blast
qed

text \<open>The answer to one file event, fed to a scorer with the default threshold that has recorded
  nothing for the file, lets it respond exactly when the answer is a YARA match, a double extension or a
  disguised executable: neither a VirusTotal verdict nor an anomalous PE header suffices alone.\<close>

lemma file_verdict_alone:
  assumes "classify_file_event env le n st e c = Some (Inr xs, c')" "x \<in> set xs"
    and "scorer_inv sc" "threshold sc = 80" "recorded_signals sc (subject x) = []"
    and "response_gate.feed scorer_add now xs sc = Inr sc'"
  shows "should_respond (subject x) sc' \<longleftrightarrow>
    kind x \<in> {''yara_match'', ''pe_double_extension'', ''pe_masquerade''}"
proof -
  obtain sha where cl: "classification sha xs" using classify_signals[OF assms(1)] by blast
  then have s: "\<forall>y \<in> set xs. subject y = subject x" using assms(2) by (simp add: classification_def)
  have g: "should_respond (subject x) sc' \<longleftrightarrow>
      80 \<le> sum_list (map effective_weight xs) \<and> corroborated xs"
    using sg.gate_of_feed[OF assms(3,6) s assms(5)] assms(2,4) by auto
  show ?thesis
  proof (cases "\<forall>y \<in> set xs. kind y = ''yara_match''")
    case True
    then have w: "map effective_weight xs = replicate (length xs) 85"
      using cl by (intro replicate_eqI)
        (auto simp: classification_def effective_weight_def weights_def)
    have "1 \<le> length xs" using assms(2) by (cases xs) auto
    then have "80 \<le> sum_list (map effective_weight xs)" by (simp add: w sum_list_replicate)
    moreover have "corroborated xs"
      using True assms(2) by (auto simp: corroborated_def is_dll_kind_def startswith_def)
    ultimately show ?thesis using g True assms(2) by simp
  next
    case False
    then have xs: "xs = [x]" "weight x = None"
      "kind x \<in> {''pe_double_extension'', ''pe_masquerade'', ''vt_unknown_suspicious_pe'', ''vt_positive''}"
      using cl assms(2) by (auto simp: classification_def)
    have ef: "effective_weight x = (case map_of weights (kind x) of Some w \<Rightarrow> w | None \<Rightarrow> 0)"
      using xs(2) by (simp add: effective_weight_def)
    have co: "corroborated [x]" using xs(3)
      by (elim insertE) (simp_all add: corroborated_def is_dll_kind_def startswith_def)
    show ?thesis unfolding g xs(1) using co ef xs(3)
      by (elim insertE) (simp_all add: weights_def)
  qed
qed

text \<open>After an event was classified, whatever the answer, no later event about a file with the same
  hash is examined again: it gives no signals, changes nothing and asks no service.\<close>

lemma content_examined_once:
  assumes "classify_file_event env le n s e c = Some (r, c1)" "file_digest env s e = Some sha"
    and "classify_run qs c1 = Some c2" "file_digest env' s' e' = Some sha"
  shows "classify_file_event env' le' n' s' e' c2 = Some (Inr [], c2)"
proof (rule classify_skips[OF assms(4)])
  show "sha \<in> cl_checked c2"
    using classify_marks[OF assms(1,2)] classify_run_mono[OF assms(3)] by blast
qed

section \<open>Witnesses\<close>

definition demo_model :: pe_model where
  "demo_model =
     \<lparr>iforest = \<lparr>outlier = (\<lambda>v. True), sample_score = (\<lambda>v. 0)\<rparr>, lgbm = None,
      ember = Some (\<lambda>d. None), fitted = True, metadata = []\<rparr>"

definition demo_features :: pe_features where
  "demo_features =
     \<lparr>f_size = 200, f_sections = 1, f_entry = 0, f_entropy = 7, f_debug = False, f_signature = False,
      f_imports = 0, f_exports = 0, f_suspicious = 1, f_avg_entropy = 7, f_max_entropy = 7,
      f_min_raw = 1\<rparr>"

definition demo_senv :: static_env where
  "demo_senv =
     \<lparr>se_trust = win_env 0, se_native = None, se_core = None, se_sha = (\<lambda>d. CHR ''h'' # d),
      se_pefile = (\<lambda>d. None), se_vt = demo_vt_env, se_now = 5\<rparr>"

definition demo_learn :: learn_env where
  "demo_learn = \<lparr>fit_forest = (\<lambda>v. \<lparr>outlier = (\<lambda>x. True), sample_score = (\<lambda>x. 0)\<rparr>), dataset = None\<rparr>"

definition lure_fs :: fs where
  "lure_fs = one_file ''a.pdf.exe'' ''MZ''"

definition lure_event :: event where
  "lure_event =
     \<lparr>timestamp = ''2026-01-01T00:00:00+00:00'', source = ''fs'', event_type = ''file_write'', pid = None,
      parent_pid = None, image_path = Some ''a.pdf.exe'', command_line = None, hash_sha256 = None,
      extra = []\<rparr>"

definition lure_class :: classifier where
  "lure_class = new_classifier None demo_model None"

lemma lure_name:
  "path_name [CHR 0x5C] ''a.pdf.exe'' = ''a.pdf.exe''"
  "double_extension runnable_exts lure_exts ''a.pdf.exe''"
  by code_simp+

lemma lure_file:
  "is_file (se_os demo_senv) ''a.pdf.exe'' lure_fs"
  "read_and_hash demo_senv lure_fs ''a.pdf.exe'' = Some (''hMZ'', ''MZ'')"
  "seps (se_os demo_senv) = [CHR 0x5C]"
  by (simp_all add: demo_senv_def lure_fs_def one_file_def win_env_def se_os_def file_defs
      read_and_hash_def fast_sha256_def python_sha256_def)

lemma lure_path: "event_path lure_event = Inr (Some ''a.pdf.exe'')"
  by (simp add: event_path_def lure_event_def val_or_def dict_get_def)

lemma lure_digest: "file_digest demo_senv lure_fs lure_event = Some ''hMZ''"
  unfolding file_digest_def lure_path by (simp add: lure_file) (simp add: lure_event_def)

lemma lure_classified:
  "classify_file_event demo_senv demo_learn 2 lure_fs lure_event lure_class =
     Some (Inr [double_signal demo_senv ''hMZ'' ''a.pdf.exe''], lure_class\<lparr>cl_checked := {''hMZ''}\<rparr>)"
proof -
  have "source lure_event = ''fs''" "event_type lure_event = ''file_write''"
    by (simp_all add: lure_event_def)
  then show ?thesis
    by (simp add: classify_file_event_def lure_path lure_file examine_def local_checks_def lure_name
        vt_check_def yara_scan_def lure_class_def new_classifier_def)
qed

theorem model_verdict_witness:
  "predict_malware_probability 2 demo_model demo_features (Some (replicate 200 (CHR 0x00))) = Some 0.85
    \<and> is_suspicious 2 demo_model demo_features (Some (replicate 200 (CHR 0x00))) = Some True"
  using model_verdict[of 2 demo_model demo_features "Some (replicate 200 (CHR 0x00))"]
  by (simp add: deep_answer_def ember_applies_def ember_answer_def lgbm_answer_def demo_model_def
      exempt_def demo_features_def)

lemma file_verdict_alone_witness:
  "\<exists>sc'. response_gate.feed scorer_add 5 [double_signal demo_senv ''hMZ'' ''a.pdf.exe''] default_scorer = Inr sc'
    \<and> should_respond ''file:hMZ'' sc'"
proof -
  let ?x = "double_signal demo_senv ''hMZ'' ''a.pdf.exe''"
  have i: "scorer_inv default_scorer" by (simp add: default_scorer_def scorer_inv_new)
  have x: "subject ?x = ''file:hMZ''" "kind ?x = ''pe_double_extension''"
    by (simp_all add: double_signal_def signal_defs file_subject_def)
  have r: "threshold default_scorer = 80" "recorded_signals default_scorer (subject ?x) = []"
    by (simp_all add: default_scorer_def new_scorer_def recorded_signals_def scorer_get_def)
  obtain sc' where f: "response_gate.feed scorer_add 5 [?x] default_scorer = Inr sc'"
    using sg.feed_total[OF i] by blast
  from file_verdict_alone[OF lure_classified _ i r f] x f show ?thesis by auto
qed

lemma content_examined_once_witness:
  "classify_file_event demo_senv demo_learn 2 lure_fs lure_event (lure_class\<lparr>cl_checked := {''hMZ''}\<rparr>)
     = Some (Inr [], lure_class\<lparr>cl_checked := {''hMZ''}\<rparr>)"
  by (rule content_examined_once[OF lure_classified lure_digest _ lure_digest, of "[]"]) simp

end
