(* ===== verification/MemoryScanner.thy ===== *)
theory MemoryScanner
  imports NativeCore Scoring
begin

text \<open>
  \<open>engine/memory_scanner.py\<close>: the search for injected code in the memory of other processes, on Windows by
  \<open>VirtualQueryEx\<close>, on Linux by \<open>/proc\<close> and on macOS by the maps of \<open>psutil\<close>. What these answer is a
  parameter. The Windows loop goes on until the query fails or the address space ends; it is a partial
  function, and its lemmas show that it returns as long as a query answers with the region that holds the
  address. The other lemmas say which regions are reported and which never are.
\<close>

unbundle bit_operations_syntax

section \<open>Regions\<close>

definition mem_commit :: int where "mem_commit = 0x1000"
definition mem_private :: int where "mem_private = 0x20000"
definition page_execute_readwrite :: int where "page_execute_readwrite = 0x40"

definition executable_protections :: "int list" where
  "executable_protections = [0x10, 0x20, 0x40, 0x80]"

record region =
  base_address :: int
  rsize :: int
  rstate :: int
  protect :: int
  mem_type :: int

definition is_executable :: "region \<Rightarrow> bool" where
  "is_executable r = (protect r AND 0xFF \<in> set executable_protections)"

definition is_private :: "region \<Rightarrow> bool" where
  "is_private r = (mem_type r = mem_private)"

definition is_unbacked_executable :: "region \<Rightarrow> bool" where
  "is_unbacked_executable r = (rstate r = mem_commit \<and> is_private r \<and> is_executable r)"

section \<open>Threats\<close>

record mem_threat =
  th_pid :: int
  th_process :: string
  th_base :: int
  th_size :: int
  th_type :: string
  th_desc :: string
  th_confidence :: real
  th_protection :: int
  th_sample :: bytes

fun hex_lower :: "nat \<Rightarrow> string" where
  \<comment> \<open>\<open>f'{n:x}'\<close>\<close>
  "hex_lower n =
     (let d = (\<lambda>k. if k < 10 then char_of (48 + k) else char_of (87 + k)) in
      if n < 16 then [d n] else hex_lower (n div 16) @ [d (n mod 16)])"

declare hex_lower.simps [simp del]

definition kind_map :: "(string \<times> string) list" where
  "kind_map =
     [(''unbacked_executable'', ''memory_unbacked_exec''), (''shellcode_signature'', ''memory_shellcode''),
      (''reflective_pe'', ''memory_shellcode''), (''process_hollowing'', ''memory_hollowing'')]"

definition to_signal :: "real \<Rightarrow> mem_threat \<Rightarrow> signal" where
  "to_signal now t =
     mk_signal now
       (case map_of kind_map (th_type t) of None \<Rightarrow> ''memory_unbacked_exec'' | Some k \<Rightarrow> k)
       (''pid:'' @ show_int (th_pid t))
       (th_type t @ '': '' @ th_desc t @ '' at 0x'' @
        (if th_base t < 0 then CHR ''-'' # hex_lower (nat (- th_base t)) else hex_lower (nat (th_base t)))
        @ '' in '' @ th_process t @ '' (pid '' @ show_int (th_pid t) @ '')'')
       ''memory_scanner'' None None"

section \<open>Signatures\<close>

definition known_jit_names :: "string list" where
  "known_jit_names =
     [''powershell.exe'', ''pwsh.exe'', ''chrome.exe'', ''msedge.exe'', ''firefox.exe'', ''brave.exe'',
      ''python.exe'', ''pythonw.exe'', ''node.exe'', ''code.exe'', ''devenv.exe'', ''java.exe'',
      ''javaw.exe'', ''slack.exe'', ''discord.exe'', ''teams.exe'', ''spotify.exe'',
      ''robloxplayerbeta.exe'', ''roblox.exe'']"

definition posix_jit_names :: "string list" where
  "posix_jit_names =
     [''python3'', ''python'', ''node'', ''java'', ''dotnet'', ''mono'', ''chromium'', ''chrome'',
      ''firefox'', ''brave-browser'']"

definition managed_module_patterns :: "string list" where
  "managed_module_patterns =
     [''clr.dll'', ''clrjit.dll'', ''coreclr.dll'', ''mscorwks.dll'', ''mscoreei.dll'', ''mscoree.dll'',
      ''mono.dll'', ''mono-2.0-bdwgc.dll'', ''monosgen-2.0.dll'', ''v8.dll'', ''node.dll'', ''jvm.dll'']"

definition managed_lib_parts :: "string list" where
  "managed_lib_parts =
     [''clrjit'', ''coreclr'', ''mscorlib'', ''libmonosgen'', ''libcoreclr'', ''libjvm'', ''libv8'', ''libnode'']"

definition shellcode_patterns :: "(bytes \<times> string) list" where
  "shellcode_patterns =
     [([CHR 0xFC, CHR 0x48, CHR 0x83, CHR 0xE4, CHR 0xF0, CHR 0xE8],
       ''Metasploit x64 reverse stager (cld; and rsp, -16; call)''),
      ([CHR 0xFC, CHR 0xE8, CHR 0x82, CHR 0x00, CHR 0x00, CHR 0x00, CHR 0x60],
       ''Metasploit x86 reverse stager (cld; call; pushad)''),
      ([CHR 0xFC, CHR 0xE8, CHR 0x89, CHR 0x00, CHR 0x00, CHR 0x00, CHR 0x60],
       ''Cobalt Strike / Metasploit x86 stager (cld; call; pushad)''),
      ([CHR 0xFC, CHR 0x48, CHR 0x89, CHR 0xE5, CHR 0x48, CHR 0x81, CHR 0xEC],
       ''Cobalt Strike Beacon x64 stager prologue''),
      ([CHR 0x65, CHR 0x48, CHR 0x8B, CHR 0x04, CHR 0x25, CHR 0x60, CHR 0x00, CHR 0x00, CHR 0x00],
       ''x64 shellcode PEB resolution (mov rax, gs:[0x60])''),
      ([CHR 0x65, CHR 0x48, CHR 0x8B, CHR 0x1C, CHR 0x25, CHR 0x60, CHR 0x00, CHR 0x00, CHR 0x00],
       ''x64 shellcode PEB resolution (mov rbx, gs:[0x60])''),
      ([CHR 0x65, CHR 0x48, CHR 0x8B, CHR 0x14, CHR 0x25, CHR 0x60, CHR 0x00, CHR 0x00, CHR 0x00],
       ''x64 shellcode PEB resolution (mov rdx, gs:[0x60])''),
      ([CHR 0x65, CHR 0x48, CHR 0x8B, CHR 0x0C, CHR 0x25, CHR 0x60, CHR 0x00, CHR 0x00, CHR 0x00],
       ''x64 shellcode PEB resolution (mov rcx, gs:[0x60])''),
      ([CHR 0x65, CHR 0x48, CHR 0x8B, CHR 0x34, CHR 0x25, CHR 0x60, CHR 0x00, CHR 0x00, CHR 0x00],
       ''x64 shellcode PEB resolution (mov rsi, gs:[0x60])''),
      ([CHR 0x65, CHR 0x48, CHR 0x8B, CHR 0x3C, CHR 0x25, CHR 0x60, CHR 0x00, CHR 0x00, CHR 0x00],
       ''x64 shellcode PEB resolution (mov rdi, gs:[0x60])''),
      ([CHR 0x65, CHR 0x48, CHR 0x8B, CHR 0x40, CHR 0x60],
       ''x64 compact shellcode PEB resolution (gs:[rax+0x60])''),
      ([CHR 0x65, CHR 0x48, CHR 0x8B, CHR 0x52, CHR 0x60],
       ''x64 compact shellcode PEB resolution (gs:[rdx+0x60])''),
      ([CHR 0x64, CHR 0xA1, CHR 0x30, CHR 0x00, CHR 0x00, CHR 0x00],
       ''x86 shellcode PEB resolution (mov eax, fs:[0x30])''),
      ([CHR 0x64, CHR 0x8B, CHR 0x15, CHR 0x30, CHR 0x00, CHR 0x00, CHR 0x00],
       ''x86 shellcode PEB resolution (mov edx, fs:[0x30])''),
      ([CHR 0x64, CHR 0x8B, CHR 0x0D, CHR 0x30, CHR 0x00, CHR 0x00, CHR 0x00],
       ''x86 shellcode PEB resolution (mov ecx, fs:[0x30])''),
      ([CHR 0x64, CHR 0x8B, CHR 0x1D, CHR 0x30, CHR 0x00, CHR 0x00, CHR 0x00],
       ''x86 shellcode PEB resolution (mov ebx, fs:[0x30])''),
      ([CHR 0x64, CHR 0x8B, CHR 0x35, CHR 0x30, CHR 0x00, CHR 0x00, CHR 0x00],
       ''x86 shellcode PEB resolution (mov esi, fs:[0x30])''),
      ([CHR 0x66, CHR 0x81, CHR 0xCA, CHR 0xFF, CHR 0x0F, CHR 0x42, CHR 0x52, CHR 0x6A, CHR 0x02, CHR 0x58, CHR 0xCD, CHR 0x2E],
       ''Windows NtAccessCheckAndAuditAlarm Syscall egghunter''),
      (replicate 16 (CHR 0x90),
       ''Unbacked execution NOP sled (>= 16 consecutive NOPs)'')]"

section \<open>The scanner\<close>

datatype host = Windows | Linux | MacOS | OtherHost

record mac_map =
  mm_addr :: string
  mm_path :: string
  mm_perms :: string

record mem_env =
  host :: host
  path_seps :: "char list"
  module_maps :: "int \<Rightarrow> string list option"   \<comment> \<open>\<open>psutil\<close>'s mapped paths, \<open>None\<close> where it raises\<close>
  kernel32 :: bool
  open_process :: "int \<Rightarrow> bool"
  query_region :: "int \<Rightarrow> int \<Rightarrow> region option"
  read_memory :: "int \<Rightarrow> int \<Rightarrow> int \<Rightarrow> bytes"
  maps_lines :: "int \<Rightarrow> string list option"
  open_mem :: "int \<Rightarrow> bool"
  read_at :: "int \<Rightarrow> int \<Rightarrow> int \<Rightarrow> bytes option"
  mac_maps :: "int \<Rightarrow> mac_map list option"

type_synonym pid_cache = "(int, bool) dict"

definition managed_module :: "char list \<Rightarrow> string \<Rightarrow> bool" where
  "managed_module sp p =
     (p \<noteq> [] \<and>
      (let n = lower (path_name sp p) in
       n \<in> set managed_module_patterns \<or> (\<exists>k \<in> set managed_lib_parts. contains n k)))"

definition is_managed_process :: "mem_env \<Rightarrow> int \<Rightarrow> string \<Rightarrow> pid_cache \<Rightarrow> bool \<times> pid_cache" where
  "is_managed_process env p name cache =
     (if lower name \<in> set known_jit_names \<or> lower name \<in> set posix_jit_names then (True, cache)
      else case map_of cache p of
             Some b \<Rightarrow> (b, cache)
           | None \<Rightarrow>
               (let b = (case module_maps env p of
                           None \<Rightarrow> False
                         | Some ms \<Rightarrow> (\<exists>m \<in> set ms. managed_module (path_seps env) m))
                in (b, AList.update p b cache)))"

definition check_reflective_pe :: "bytes \<Rightarrow> bool" where
  "check_reflective_pe d =
     (if length d < 0x40 \<or> \<not> startswith d ''MZ'' then False
      else
        let e = le_int 0x3C 0x40 d in
        if 0x40 \<le> e \<and> e \<le> min (int (length d) - 4) 0x1000
           \<and> slice (nat e) (nat e + 4) d = pe_magic
        then
          if e + 6 \<le> int (length d)
          then le_int (nat e + 4) (nat e + 6) d \<in> {0x014C, 0x8664, 0xAA64}
          else True
        else False)"

definition check_elf_in_memory :: "bytes \<Rightarrow> bool" where
  "check_elf_in_memory d =
     (16 \<le> length d \<and> take 4 d = [CHR 0x7F, CHR ''E'', CHR ''L'', CHR ''F'']
      \<and> (d ! 4 = CHR 0x01 \<or> d ! 4 = CHR 0x02))"

definition shellcode_hit :: "bool \<Rightarrow> bytes \<Rightarrow> string option" where
  \<comment> \<open>the description of the first pattern found; a managed process may read its own environment block\<close>
  "shellcode_hit jit d =
     (case find (\<lambda>(pat, desc). \<not> (jit \<and> contains desc ''PEB resolution'') \<and> contains d pat)
             shellcode_patterns of
        None \<Rightarrow> None
      | Some (pat, desc) \<Rightarrow> Some desc)"

definition mk_threat ::
  "int \<Rightarrow> string \<Rightarrow> int \<Rightarrow> int \<Rightarrow> string \<Rightarrow> string \<Rightarrow> real \<Rightarrow> int \<Rightarrow> bytes \<Rightarrow> mem_threat" where
  "mk_threat p name b sz ty desc conf prot sample =
     \<lparr>th_pid = p, th_process = name, th_base = b, th_size = sz, th_type = ty, th_desc = desc,
      th_confidence = conf, th_protection = prot, th_sample = take 32 sample\<rparr>"

definition shellcode_threats ::
  "int \<Rightarrow> string \<Rightarrow> int \<Rightarrow> int \<Rightarrow> int \<Rightarrow> bool \<Rightarrow> bytes \<Rightarrow> mem_threat list" where
  "shellcode_threats p name b sz prot jit sample =
     (case shellcode_hit jit sample of
        None \<Rightarrow> []
      | Some desc \<Rightarrow>
          [mk_threat p name b sz ''shellcode_signature'' (''Shellcode signature detected: '' @ desc) 0.95
             prot sample])"

subsection \<open>Windows\<close>

definition read_memory_bytes_win :: "mem_env \<Rightarrow> int \<Rightarrow> int \<Rightarrow> int \<Rightarrow> bytes" where
  "read_memory_bytes_win env p a n =
     (if \<not> kernel32 env \<or> n \<le> 0 then [] else take (nat n) (read_memory env p a n))"

definition region_threats :: "mem_env \<Rightarrow> int \<Rightarrow> string \<Rightarrow> bool \<Rightarrow> region \<Rightarrow> mem_threat list" where
  "region_threats env p name jit r =
     (let b = base_address r; sz = rsize r; prot = protect r;
          sample = read_memory_bytes_win env p b (min sz 1024)
      in (if check_reflective_pe sample
          then [mk_threat p name b sz ''reflective_pe''
                  ''Reflective DLL injected into unbacked private memory (embedded verified PE header)''
                  0.98 prot sample]
          else [])
         @ shellcode_threats p name b sz prot jit sample
         @ (if \<not> jit \<and> prot AND (0x40 OR 0x80) \<noteq> 0
            then [mk_threat p name b sz ''unbacked_executable''
                    ''Anomalous PAGE_EXECUTE_READWRITE unbacked private memory in non-JIT process''
                    0.80 prot sample]
            else []))"

partial_function (option) scan_regions ::
  "mem_env \<Rightarrow> int \<Rightarrow> string \<Rightarrow> bool \<Rightarrow> int \<Rightarrow> int \<Rightarrow> int \<Rightarrow> mem_threat list \<Rightarrow> mem_threat list option" where
  "scan_regions env p name jit cap seen a acc =
     (case query_region env p a of
        None \<Rightarrow> Some acc
      | Some r \<Rightarrow>
          let hit = is_unbacked_executable r;
              acc' = (if hit then acc @ region_threats env p name jit r else acc);
              seen' = (if hit then seen + rsize r else seen);
              a' = base_address r + rsize r
          in if hit \<and> cap \<noteq> 0 \<and> seen' \<ge> cap then Some acc'
             else if a' \<ge> 0x7FFFFFFF0000 \<or> rsize r = 0 then Some acc'
             else scan_regions env p name jit cap seen' a' acc')"

definition scan_process_regions ::
  "mem_env \<Rightarrow> int \<Rightarrow> string \<Rightarrow> int \<Rightarrow> pid_cache \<Rightarrow> (mem_threat list \<times> pid_cache) option" where
  "scan_process_regions env p name cap cache =
     (case is_managed_process env p name cache of
        (jit, cache') \<Rightarrow>
          map_option (\<lambda>ts. (ts, cache')) (scan_regions env p name jit cap 0 0 []))"

definition scan_process_windows ::
  "mem_env \<Rightarrow> int \<Rightarrow> string \<Rightarrow> int \<Rightarrow> pid_cache \<Rightarrow> (mem_threat list \<times> pid_cache) option" where
  "scan_process_windows env p name cap cache =
     (if \<not> kernel32 env \<or> \<not> open_process env p then Some ([], cache)
      else scan_process_regions env p name cap cache)"

subsection \<open>Linux\<close>

definition is_hex_lower :: "char \<Rightarrow> bool" where
  "is_hex_lower c = (is_digit c \<or> (97 \<le> (of_char c :: nat) \<and> (of_char c :: nat) \<le> 102))"

definition hex_val :: "char \<Rightarrow> int" where
  "hex_val c =
     (let n = (of_char c :: int) in if n \<le> 57 then n - 48 else if n \<le> 70 then n - 55 else n - 87)"

definition read_hex :: "string \<Rightarrow> int" where
  "read_hex s = foldl (\<lambda>n c. 16 * n + hex_val c) 0 s"

definition is_perm :: "char \<Rightarrow> bool" where
  \<comment> \<open>the class of word characters and the hyphen, on ASCII\<close>
  "is_perm c =
     (let n = (of_char c :: nat) in
      is_digit c \<or> (65 \<le> n \<and> n \<le> 90) \<or> (97 \<le> n \<and> n \<le> 122) \<or> n = 95 \<or> n = 45)"

definition span_of :: "(char \<Rightarrow> bool) \<Rightarrow> string \<Rightarrow> (string \<times> string) option" where
  \<comment> \<open>a non-empty run of the class, and the rest\<close>
  "span_of q s = (if takeWhile q s = [] then None else Some (takeWhile q s, dropWhile q s))"

record maps_entry =
  me_start :: int
  me_end :: int
  me_perms :: string
  me_inode :: int
  me_path :: string

definition parse_maps_line :: "string \<Rightarrow> maps_entry option" where
  \<comment> \<open>the regular expression: neighbouring groups have disjoint characters, so it never backtracks\<close>
  "parse_maps_line line =
     Option.bind (span_of is_hex_lower (strip line)) (\<lambda>(a, r1).
     Option.bind (if startswith r1 ''-'' then span_of is_hex_lower (tl r1) else None) (\<lambda>(b, r2).
     Option.bind (span_of is_space r2) (\<lambda>(w1, r3).
     Option.bind (span_of is_perm r3) (\<lambda>(perms, r4).
     Option.bind (span_of is_space r4) (\<lambda>(w2, r5).
     Option.bind (span_of is_hex_lower r5) (\<lambda>(off, r6).
     Option.bind (span_of is_space r6) (\<lambda>(w3, r7).
     Option.bind (span_of (\<lambda>c. \<not> is_space c) r7) (\<lambda>(dev, r8).
     Option.bind (span_of is_space r8) (\<lambda>(w4, r9).
     Option.bind (span_of is_digit r9) (\<lambda>(inode, r10).
       Some \<lparr>me_start = read_hex a, me_end = read_hex b, me_perms = perms,
             me_inode = int (read_nat inode), me_path = strip r10\<rparr>))))))))))"

definition candidate_entry :: "maps_entry \<Rightarrow> bool" where
  "candidate_entry m \<longleftrightarrow>
     CHR ''x'' \<in> set (me_perms m) \<and> CHR ''p'' \<in> set (me_perms m)
     \<and> me_inode m = 0 \<and> \<not> startswith (me_path m) ''[''"

definition entry_size :: "maps_entry \<Rightarrow> int" where
  "entry_size m = me_end m - me_start m"

definition entry_threats :: "int \<Rightarrow> string \<Rightarrow> bool \<Rightarrow> maps_entry \<Rightarrow> bytes \<Rightarrow> mem_threat list" where
  "entry_threats p name jit m sample =
     (let b = me_start m; sz = entry_size m in
      (if check_reflective_pe sample
       then [mk_threat p name b sz ''reflective_pe''
               ''PE header in anonymous executable memory (possible injected Windows payload)''
               0.95 page_execute_readwrite sample]
       else [])
      @ (if check_elf_in_memory sample
         then [mk_threat p name b sz ''reflective_pe''
                 ''ELF header in anonymous executable memory (possible reflective ELF injection)''
                 0.95 page_execute_readwrite sample]
         else [])
      @ shellcode_threats p name b sz page_execute_readwrite jit sample
      @ (if \<not> jit \<and> CHR ''w'' \<in> set (me_perms m)
         then [mk_threat p name b sz ''unbacked_executable''
                 ''Anomalous RWX anonymous memory region in non-JIT process''
                 0.80 page_execute_readwrite sample]
         else []))"

fun scan_lines ::
  "mem_env \<Rightarrow> int \<Rightarrow> string \<Rightarrow> bool \<Rightarrow> int \<Rightarrow> int \<Rightarrow> string list \<Rightarrow> mem_threat list" where
  "scan_lines env p name jit cap seen [] = []"
| "scan_lines env p name jit cap seen (l # ls) =
     (case parse_maps_line l of
        None \<Rightarrow> scan_lines env p name jit cap seen ls
      | Some m \<Rightarrow>
          if \<not> candidate_entry m then scan_lines env p name jit cap seen ls
          else case read_at env p (me_start m) (min (entry_size m) 1024) of
                 None \<Rightarrow> scan_lines env p name jit cap seen ls
               | Some sample \<Rightarrow>
                   if sample = [] then scan_lines env p name jit cap seen ls
                   else entry_threats p name jit m sample @
                        (if cap \<noteq> 0 \<and> seen + entry_size m \<ge> cap then []
                         else scan_lines env p name jit cap (seen + entry_size m) ls))"

definition scan_process_linux ::
  "mem_env \<Rightarrow> int \<Rightarrow> string \<Rightarrow> int \<Rightarrow> pid_cache \<Rightarrow> mem_threat list \<times> pid_cache" where
  "scan_process_linux env p name cap cache =
     (case is_managed_process env p name cache of
        (jit, cache') \<Rightarrow>
          ((case maps_lines env p of
              None \<Rightarrow> []
            | Some ls \<Rightarrow> if open_mem env p then scan_lines env p name jit cap 0 ls else []), cache'))"

subsection \<open>macOS\<close>

fun hex_digits_ok :: "string \<Rightarrow> bool" where
  "hex_digits_ok [] = False"
| "hex_digits_ok [c] = is_hex_lower (char_lower c)"
| "hex_digits_ok (c # d # s) =
     (is_hex_lower (char_lower c) \<and> (if d = CHR ''_'' then s \<noteq> [] \<and> hex_digits_ok s else hex_digits_ok (d # s)))"

definition parse_hex :: "string \<Rightarrow> int option" where
  \<comment> \<open>\<open>int(s, 16)\<close>\<close>
  "parse_hex s =
     (let t = strip s;
          neg = startswith t ''-'';
          u = (if startswith t ''-'' \<or> startswith t ''+'' then tl t else t);
          v = (if startswith (lower u) ''0x'' then drop 2 u else u);
          w = (if startswith (lower u) ''0x'' \<and> startswith v ''_'' then tl v else v)
      in if hex_digits_ok w
         then (let n = read_hex (filter (\<lambda>c. c \<noteq> CHR ''_'') w) in Some (if neg then - n else n))
         else None)"

definition addr_range :: "string \<Rightarrow> (int \<times> int) option" where
  "addr_range s =
     (if CHR ''-'' \<notin> set s then None
      else let a = takeWhile (\<lambda>c. c \<noteq> CHR ''-'') s; b = tl (dropWhile (\<lambda>c. c \<noteq> CHR ''-'') s)
           in case (parse_hex a, parse_hex b) of
                (Some x, Some y) \<Rightarrow> Some (x, y)
              | _ \<Rightarrow> None)"

fun scan_mac_maps ::
  "int \<Rightarrow> string \<Rightarrow> bool \<Rightarrow> int \<Rightarrow> int \<Rightarrow> mac_map list \<Rightarrow> mem_threat list" where
  "scan_mac_maps p name jit cap seen [] = []"
| "scan_mac_maps p name jit cap seen (m # ms) =
     (case addr_range (mm_addr m) of
        None \<Rightarrow> scan_mac_maps p name jit cap seen ms
      | Some (a, b) \<Rightarrow>
          if \<not> (CHR ''x'' \<in> set (mm_perms m) \<and> (mm_path m = [] \<or> startswith (mm_path m) ''[''))
          then scan_mac_maps p name jit cap seen ms
          else
            (if \<not> jit \<and> CHR ''w'' \<in> set (mm_perms m)
             then [mk_threat p name a (b - a) ''unbacked_executable''
                     ''Anomalous RWX anonymous memory region in non-JIT process''
                     0.75 page_execute_readwrite []]
             else [])
            @ (if cap \<noteq> 0 \<and> seen + (b - a) \<ge> cap then []
               else scan_mac_maps p name jit cap (seen + (b - a)) ms))"

definition scan_process_macos ::
  "mem_env \<Rightarrow> int \<Rightarrow> string \<Rightarrow> int \<Rightarrow> pid_cache \<Rightarrow> mem_threat list \<times> pid_cache" where
  "scan_process_macos env p name cap cache =
     (case is_managed_process env p name cache of
        (jit, cache') \<Rightarrow>
          ((case mac_maps env p of None \<Rightarrow> [] | Some ms \<Rightarrow> scan_mac_maps p name jit cap 0 ms), cache'))"

subsection \<open>All processes\<close>

definition max_scan_default :: int where
  "max_scan_default = 100 * 1024 * 1024"

definition scan_process ::
  "mem_env \<Rightarrow> int \<Rightarrow> string option \<Rightarrow> int \<Rightarrow> pid_cache \<Rightarrow> (mem_threat list \<times> pid_cache) option" where
  "scan_process env p name cap cache =
     (if p \<le> 4 then Some ([], cache)
      else
        let n = (case name of None \<Rightarrow> ''pid_'' @ show_int p
                 | Some n \<Rightarrow> if n = [] then ''pid_'' @ show_int p else n)
        in case host env of
             Windows \<Rightarrow> scan_process_windows env p n cap cache
           | Linux \<Rightarrow> Some (scan_process_linux env p n cap cache)
           | MacOS \<Rightarrow> Some (scan_process_macos env p n cap cache)
           | OtherHost \<Rightarrow> Some ([], cache))"

definition skip_process :: "mem_env \<Rightarrow> string list \<Rightarrow> int option \<Rightarrow> string option \<Rightarrow> bool" where
  \<comment> \<open>\<open>filter_names\<close> is the empty list where none are given\<close>
  "skip_process env names p name =
     (case (p, name) of
        (Some p', Some n) \<Rightarrow>
          p' \<le> (if host env = Windows then 4 else 1) \<or> p' = 0 \<or> n = []
          \<or> (names \<noteq> [] \<and> lower n \<notin> set (map lower names))
      | _ \<Rightarrow> True)"

fun scan_all_processes ::
  "mem_env \<Rightarrow> string list \<Rightarrow> (int option \<times> string option) list \<Rightarrow> pid_cache
    \<Rightarrow> (mem_threat list \<times> pid_cache) option" where
  "scan_all_processes env names [] cache = Some ([], cache)"
| "scan_all_processes env names ((p, name) # ps) cache =
     (if skip_process env names p name then scan_all_processes env names ps cache
      else case scan_process env (the p) name max_scan_default cache of
             None \<Rightarrow> None
           | Some (ts, cache1) \<Rightarrow>
               (case scan_all_processes env names ps cache1 of
                  None \<Rightarrow> None
                | Some (us, cache2) \<Rightarrow> Some (ts @ us, cache2)))"

section \<open>The Windows loop\<close>

definition space_end :: int where
  "space_end = 0x7FFFFFFF0000"

definition answers_own_region :: "mem_env \<Rightarrow> int \<Rightarrow> bool" where
  \<comment> \<open>a query answers with a region that holds the address\<close>
  "answers_own_region env p \<longleftrightarrow>
     (\<forall>a r. query_region env p a = Some r \<longrightarrow> base_address r \<le> a \<and> a < base_address r + rsize r)"

lemma scan_regions_returns:
  assumes "answers_own_region env p"
  shows "\<exists>ts. scan_regions env p name jit cap seen a acc = Some ts"
proof (induction "nat (space_end - a)" arbitrary: a seen acc rule: less_induct)
  case less
  show ?case
  proof (cases "query_region env p a")
    case None
    then show ?thesis by (simp add: scan_regions.simps[of env p name jit cap seen a])
  next
    case (Some r)
    then have g: "a < base_address r + rsize r" using assms by (auto simp: answers_own_region_def)
    show ?thesis
    proof (cases "base_address r + rsize r \<ge> space_end")
      case True
      then show ?thesis
        by (simp add: scan_regions.simps[of env p name jit cap seen a] Some space_end_def Let_def)
    next
      case False
      then have "nat (space_end - (base_address r + rsize r)) < nat (space_end - a)" using g by simp
      note IH = less[OF this]
      show ?thesis
        using IH False
        by (simp add: scan_regions.simps[of env p name jit cap seen a] Some Let_def split: if_splits)
    qed
  qed
qed

fun contiguous :: "int \<Rightarrow> region list \<Rightarrow> bool" where
  \<comment> \<open>regions of positive size, one after the other from an address on, below the end of the space\<close>
  "contiguous a [] = True"
| "contiguous a (r # rs) =
     (base_address r = a \<and> 0 < rsize r \<and> a < space_end \<and> contiguous (a + rsize r) rs)"

definition region_at :: "region list \<Rightarrow> int \<Rightarrow> region option" where
  "region_at rs a = find (\<lambda>r. base_address r \<le> a \<and> a < base_address r + rsize r) rs"

lemma contiguous_bases: "contiguous a rs \<Longrightarrow> r \<in> set rs \<Longrightarrow> a \<le> base_address r"
proof (induction rs arbitrary: a)
  case (Cons x xs)
  then show ?case by fastforce
qed simp

lemma contiguous_append:
  "contiguous a (xs @ ys) \<longleftrightarrow> contiguous a xs \<and> contiguous (a + sum_list (map rsize xs)) ys"
  by (induction xs arbitrary: a) (auto simp: add.assoc)

lemma contiguous_ends:
  "contiguous a xs \<Longrightarrow> r \<in> set xs \<Longrightarrow> base_address r + rsize r \<le> a + sum_list (map rsize xs)"
proof (induction xs arbitrary: a)
  case (Cons x xs)
  have "0 \<le> sum_list (map rsize xs)" if "contiguous b xs" for b
    using that by (induction xs arbitrary: b) auto
  with Cons show ?case by fastforce
qed simp

lemma contiguous_sizes: "contiguous a rs \<Longrightarrow> \<forall>r \<in> set rs. 0 \<le> rsize r"
  by (induction rs arbitrary: a) auto

lemma find_append: "find P (xs @ ys) = (case find P xs of None \<Rightarrow> find P ys | Some x \<Rightarrow> Some x)"
  by (induction xs) auto

lemma region_at_next:
  assumes "contiguous a (xs @ r # ys)"
  shows "region_at (xs @ r # ys) (a + sum_list (map rsize xs)) = Some r"
proof -
  let ?b = "a + sum_list (map rsize xs)"
  have r: "base_address r = ?b" "0 < rsize r" "contiguous a xs"
    using assms by (simp_all add: contiguous_append)
  have "find (\<lambda>r. base_address r \<le> ?b \<and> ?b < base_address r + rsize r) xs = None"
    using contiguous_ends[OF r(3)] by (fastforce simp: find_None_iff)
  then show ?thesis using r
    by (simp add: region_at_def find_append)
qed

lemma region_at_end:
  assumes "contiguous a xs"
  shows "region_at xs (a + sum_list (map rsize xs)) = None"
  using contiguous_ends[OF assms] by (fastforce simp: region_at_def find_None_iff)

definition report :: "mem_env \<Rightarrow> int \<Rightarrow> string \<Rightarrow> bool \<Rightarrow> region \<Rightarrow> mem_threat list" where
  "report env p name jit r =
     (if is_unbacked_executable r then region_threats env p name jit r else [])"

definition unbacked_total :: "region list \<Rightarrow> int" where
  "unbacked_total rs = sum_list (map rsize (filter is_unbacked_executable rs))"

lemma scan_regions_layout:
  assumes "contiguous 0 (xs @ ys)" and "query_region env p = region_at (xs @ ys)"
    and "cap = 0 \<or> seen + unbacked_total ys < cap"
  shows "scan_regions env p name jit cap seen (sum_list (map rsize xs)) acc
    = Some (acc @ concat (map (report env p name jit) ys))"
  using assms
proof (induction ys arbitrary: xs seen acc)
  case Nil
  then show ?case
    using region_at_end[of 0 xs]
    by (simp add: scan_regions.simps[of env p name jit cap seen "sum_list (map rsize xs)"])
next
  case (Cons r ys)
  let ?a = "sum_list (map rsize xs)"
  have q: "query_region env p ?a = Some r" using region_at_next[of 0 xs r ys] Cons.prems by simp
  have c: "base_address r = ?a" "0 < rsize r" "contiguous (?a + rsize r) ys"
    using Cons.prems(1) by (simp_all add: contiguous_append)
  have nn: "0 \<le> unbacked_total ys"
    using contiguous_sizes[OF c(3)] by (auto simp: unbacked_total_def intro!: sum_list_nonneg)
  define seen' where "seen' = (if is_unbacked_executable r then seen + rsize r else seen)"
  define acc' where "acc' = acc @ report env p name jit r"
  have cap: "cap = 0 \<or> seen' + unbacked_total ys < cap"
    using Cons.prems(3) by (auto simp: seen'_def unbacked_total_def)
  have lay: "contiguous 0 ((xs @ [r]) @ ys)" "query_region env p = region_at ((xs @ [r]) @ ys)"
    using Cons.prems(1,2) by simp_all
  have IH: "scan_regions env p name jit cap seen' (?a + rsize r) acc'
      = Some (acc' @ concat (map (report env p name jit) ys))"
    using Cons.IH[OF lay cap, of acc'] by simp
  have fin: "ys = []" if "?a + rsize r \<ge> space_end" using c(3) that by (cases ys) auto
  have "\<not> (cap \<noteq> 0 \<and> cap \<le> seen')" using cap nn by auto
  then show ?case
    using IH fin c(2)
    by (auto simp: scan_regions.simps[of env p name jit cap seen ?a] q c(1) Let_def seen'_def acc'_def
        report_def[of env p name jit r] space_end_def)
qed

section \<open>Parsing a line of the maps\<close>

lemma span_of_append:
  assumes "xs \<noteq> []" "\<forall>c \<in> set xs. q c" "ys = [] \<or> \<not> q (hd ys)"
  shows "span_of q (xs @ ys) = Some (xs, ys)"
proof -
  have "takeWhile q (xs @ ys) = xs" "dropWhile q (xs @ ys) = ys"
    using assms by (cases ys; auto simp: takeWhile_append2 dropWhile_append2)+
  then show ?thesis using assms(1) by (simp add: span_of_def)
qed

definition hex_char :: "nat \<Rightarrow> char" where
  "hex_char k = (if k < 10 then char_of (48 + k) else char_of (87 + k))"

lemma hex_char_facts:
  "k < 16 \<Longrightarrow> is_hex_lower (hex_char k)" "k < 16 \<Longrightarrow> hex_val (hex_char k) = int k"
proof -
  have e: "(of_char (hex_char k) :: nat) = (if k < 10 then 48 + k else 87 + k)" if "k < 16"
    using that by (simp add: hex_char_def of_char_char_of_small)
  then have i: "(of_char (hex_char k) :: int) = (if k < 10 then 48 + int k else 87 + int k)" if "k < 16"
    using that by (metis (no_types) of_nat_add of_nat_numeral of_nat_of_char)
  show "k < 16 \<Longrightarrow> is_hex_lower (hex_char k)" using e by (auto simp: is_hex_lower_def is_digit_def)
  show "k < 16 \<Longrightarrow> hex_val (hex_char k) = int k" using i by (auto simp: hex_val_def Let_def)
qed

lemma hex_lower_rec:
  "hex_lower n = (if n < 16 then [hex_char n] else hex_lower (n div 16) @ [hex_char (n mod 16)])"
  by (subst hex_lower.simps) (simp add: hex_char_def Let_def)

lemma hex_lower_chars: "c \<in> set (hex_lower n) \<Longrightarrow> is_hex_lower c"
proof (induction n rule: hex_lower.induct)
  case (1 n)
  then show ?case
    using hex_char_facts(1)[of n] hex_char_facts(1)[of "n mod 16"]
    by (subst (asm) (2) hex_lower_rec) (auto split: if_splits)
qed

lemma hex_lower_ne [simp]: "hex_lower n \<noteq> []"
  by (subst hex_lower_rec) simp

lemma read_hex_snoc: "read_hex (s @ [c]) = 16 * read_hex s + hex_val c"
  by (simp add: read_hex_def)

lemma read_hex_lower [simp]: "read_hex (hex_lower n) = int n"
proof (induction n rule: hex_lower.induct)
  case (1 n)
  show ?case
  proof (cases "n < 16")
    case True
    then show ?thesis
      by (subst hex_lower_rec) (simp add: read_hex_def hex_char_facts)
  next
    case False
    have "int n = 16 * int (n div 16) + int (n mod 16)"
      by (metis mult_div_mod_eq of_nat_add of_nat_mult of_nat_numeral)
    with False 1 show ?thesis
      by (subst hex_lower_rec) (simp add: read_hex_snoc hex_char_facts)
  qed
qed

definition maps_line :: "nat \<Rightarrow> nat \<Rightarrow> string \<Rightarrow> nat \<Rightarrow> string \<Rightarrow> nat \<Rightarrow> string \<Rightarrow> string" where
  \<comment> \<open>a line as the kernel writes it: range, permissions, offset, device, inode and path\<close>
  "maps_line a b perms off dev inode path =
     hex_lower a @ ''-'' @ hex_lower b @ '' '' @ perms @ '' '' @ hex_lower off @ '' '' @ dev @ '' ''
     @ show_nat inode @ path"

lemma not_hex_space: "\<not> is_hex_lower (CHR '' '')" "\<not> is_hex_lower (CHR ''-'')" "\<not> is_space (CHR ''-'')"
  "\<not> is_perm (CHR '' '')" "is_space (CHR '' '')"
  by (simp_all add: is_hex_lower_def is_digit_def is_space_def is_perm_def)

lemma hex_not_space: "is_hex_lower c \<Longrightarrow> \<not> is_space c"
  by (auto simp: is_hex_lower_def is_digit_def is_space_def Let_def)

lemma hd_hex: "is_hex_lower (hd (hex_lower n))"
  by (rule hex_lower_chars[of _ n]) simp

lemma perm_not_space: "is_perm c \<Longrightarrow> \<not> is_space c"
  by (auto simp: is_perm_def is_digit_def is_space_def Let_def)

lemma span_of_space: "q = is_space \<Longrightarrow> s = [] \<or> \<not> is_space (hd s) \<Longrightarrow> span_of q (CHR '' '' # s) = Some ('' '', s)"
  using span_of_append[of "'' ''" is_space s] not_hex_space by simp

lemma strip_id:
  assumes "s \<noteq> []" "\<not> is_space (hd s)" "\<not> is_space (List.last s)"
  shows "strip s = s"
proof -
  have "dropWhile is_space s = s" using assms(1,2) by (cases s) auto
  moreover have "dropWhile is_space (rev s) = rev s"
    using assms(1,3) by (cases s rule: rev_cases) auto
  ultimately show ?thesis by (simp add: strip_def)
qed

lemma parse_maps_line_kernel:
  assumes "perms \<noteq> []" "\<forall>c \<in> set perms. is_perm c" "dev \<noteq> []" "\<forall>c \<in> set dev. \<not> is_space c"
    and "path = [] \<or> \<not> is_digit (hd path) \<and> \<not> is_space (List.last path)"
  shows "parse_maps_line (maps_line a b perms off dev inode path) =
    Some \<lparr>me_start = int a, me_end = int b, me_perms = perms, me_inode = int inode, me_path = strip path\<rparr>"
proof -
  let ?l = "maps_line a b perms off dev inode path"
  have "hd ?l = hd (hex_lower a)" by (simp add: maps_line_def)
  then have h: "\<not> is_space (hd ?l)" using hd_hex hex_not_space by metis
  have "List.last ?l = (if path = [] then List.last (show_nat inode) else List.last path)"
    by (simp add: maps_line_def)
  moreover have "is_digit (List.last (show_nat inode))" by (rule show_nat_digits[of _ inode]) simp
  ultimately have l: "\<not> is_space (List.last ?l)" using assms(5) is_digit_not_space by auto
  have st: "strip ?l = ?l" by (rule strip_id[OF _ h l]) (simp add: maps_line_def)
  have sp: "span_of is_hex_lower (hex_lower n @ c # s) = Some (hex_lower n, c # s)"
    if "c = CHR '' '' \<or> c = CHR ''-''" for n c s
    using that by (intro span_of_append) (auto simp: hex_lower_chars not_hex_space)
  have hs: "span_of is_space (CHR '' '' # hex_lower n @ s) = Some ('' '', hex_lower n @ s)" for n s
    using hd_hex[of n] hex_not_space by (intro span_of_space) simp_all
  have ps: "span_of is_space (CHR '' '' # perms @ s) = Some ('' '', perms @ s)" for s
    using assms(1,2) perm_not_space by (intro span_of_space) simp_all
  have pp: "span_of is_perm (perms @ CHR '' '' # s) = Some (perms, CHR '' '' # s)" for s
    using assms(1,2) by (intro span_of_append) (auto simp: not_hex_space)
  have ds: "span_of is_space (CHR '' '' # dev @ s) = Some ('' '', dev @ s)" for s
    using assms(3,4) by (intro span_of_space) simp_all
  have dd: "span_of (\<lambda>c. \<not> is_space c) (dev @ CHR '' '' # s) = Some (dev, CHR '' '' # s)" for s
    using assms(3,4) by (intro span_of_append) (auto simp: not_hex_space)
  have ns: "span_of is_space (CHR '' '' # show_nat n @ s) = Some ('' '', show_nat n @ s)" for n s
    using show_nat_digits[of "hd (show_nat n)" n] is_digit_not_space by (intro span_of_space) simp_all
  have nn: "span_of is_digit (show_nat inode @ path) = Some (show_nat inode, path)"
    using assms(5) show_nat_digits by (intro span_of_append) auto
  show ?thesis
    unfolding parse_maps_line_def st unfolding maps_line_def
    by (simp add: sp hs ps pp ds dd ns nn startswith_def)
qed

section \<open>What may be reported\<close>

definition known_threat :: "bool \<Rightarrow> mem_threat \<Rightarrow> bool" where
  "known_threat jit t \<longleftrightarrow>
     th_type t \<in> {''reflective_pe'', ''shellcode_signature'', ''unbacked_executable''}
     \<and> \<not> (jit \<and> th_type t = ''unbacked_executable'')"

lemma mk_threat_simps [simp]:
  "th_type (mk_threat p n b z ty d c pr s) = ty" "th_pid (mk_threat p n b z ty d c pr s) = p"
  by (simp_all add: mk_threat_def)

definition all_known :: "int \<Rightarrow> bool \<Rightarrow> mem_threat list \<Rightarrow> bool" where
  "all_known p jit ts \<longleftrightarrow> (\<forall>t \<in> set ts. known_threat jit t \<and> th_pid t = p)"

lemma all_known_simps [simp]:
  "all_known p jit []"
  "all_known p jit (xs @ ys) \<longleftrightarrow> all_known p jit xs \<and> all_known p jit ys"
  "all_known p jit [mk_threat p n b z ty d c pr s] \<longleftrightarrow>
     ty \<in> {''reflective_pe'', ''shellcode_signature'', ''unbacked_executable''}
     \<and> \<not> (jit \<and> ty = ''unbacked_executable'')"
  by (auto simp: all_known_def known_threat_def)

lemma shellcode_threats_known [simp]: "all_known p jit (shellcode_threats p n b z pr jit s)"
  by (simp add: shellcode_threats_def split: option.split)

lemma region_threats_known [simp]: "all_known p jit (region_threats env p n jit r)"
  by (simp add: region_threats_def Let_def)

lemma entry_threats_known [simp]: "all_known p jit (entry_threats p n jit m s)"
  by (simp add: entry_threats_def Let_def)

lemma scan_lines_known: "all_known p jit (scan_lines env p n jit cap seen ls)"
  by (induction ls arbitrary: seen) (auto split: option.splits if_splits)

lemma scan_mac_maps_known: "all_known p jit (scan_mac_maps p n jit cap seen ms)"
  by (induction ms arbitrary: seen) (auto split: option.splits prod.splits if_splits)

lemma scan_regions_known:
  assumes "scan_regions env p n jit cap seen a acc = Some ts" and "all_known p jit acc"
  shows "all_known p jit ts"
proof -
  have "all_known p jit acc \<longrightarrow> all_known p jit ts"
  proof (rule scan_regions.raw_induct[OF _ assms(1), where P = "\<lambda>env p n jit cap seen a acc ts.
      all_known p jit acc \<longrightarrow> all_known p jit ts"])
    fix f env p n jit cap seen a acc ts
    assume IH: "\<And>env p n jit cap seen a acc ts. f env p n jit cap seen a acc = Some ts \<Longrightarrow>
        all_known p jit acc \<longrightarrow> all_known p jit ts"
      and st: "(case query_region env p a of
        None \<Rightarrow> Some acc
      | Some r \<Rightarrow>
          let hit = is_unbacked_executable r;
              acc' = (if hit then acc @ region_threats env p n jit r else acc);
              seen' = (if hit then seen + rsize r else seen);
              a' = base_address r + rsize r
          in if hit \<and> cap \<noteq> 0 \<and> seen' \<ge> cap then Some acc'
             else if a' \<ge> 0x7FFFFFFF0000 \<or> rsize r = 0 then Some acc'
             else f env p n jit cap seen' a' acc') = Some ts"
    show "all_known p jit acc \<longrightarrow> all_known p jit ts"
    proof (cases "query_region env p a")
      case None
      with st show ?thesis by simp
    next
      case (Some r)
      have ok: "all_known p jit acc \<Longrightarrow> all_known p jit (acc @ region_threats env p n jit r)" by simp
      from st show ?thesis using ok IH unfolding Some
        by (auto simp: Let_def simp del: all_known_simps(2) split: if_splits)
    qed
  qed
  with assms(2) show ?thesis by blast
qed

lemma scan_process_known:
  assumes "scan_process env p name cap cache = Some (ts, cache')" "t \<in> set ts"
  shows "th_pid t = p \<and> (\<exists>jit n. known_threat jit t
    \<and> jit = fst (is_managed_process env p n cache)
    \<and> n = (case name of None \<Rightarrow> ''pid_'' @ show_int p
           | Some n \<Rightarrow> if n = [] then ''pid_'' @ show_int p else n))"
proof -
  define n where "n = (case name of None \<Rightarrow> ''pid_'' @ show_int p
           | Some n \<Rightarrow> if n = [] then ''pid_'' @ show_int p else n)"
  define jit where "jit = fst (is_managed_process env p n cache)"
  have "all_known p jit ts"
    using assms(1) scan_regions_known[of env p n jit cap 0 0 "[]" ts] scan_lines_known scan_mac_maps_known
    by (auto simp: scan_process_def n_def[symmetric] scan_process_windows_def scan_process_regions_def
        scan_process_linux_def scan_process_macos_def Let_def jit_def
        split: if_splits host.splits option.splits prod.splits)
  with assms(2) show ?thesis by (auto simp: all_known_def n_def jit_def)
qed

section \<open>Properties\<close>

text \<open>On Windows, when a query of an address answers with a region that holds it, the scan of a
  process returns, whatever the regions, the memory and the limit.\<close>

lemma windows_scan_returns:
  assumes "answers_own_region env p"
  shows "\<exists>r. scan_process_windows env p name cap cache = Some r"
  using scan_regions_returns[OF assms, of name _ cap 0 0 "[]"]
  by (auto simp: scan_process_windows_def scan_process_regions_def split: prod.splits)

text \<open>C19: when the address space consists of contiguous regions and the limit is not reached, the scan
  of a process that can be opened examines every region: it reports exactly the threats of the committed,
  private, executable regions, in the order of their addresses.\<close>

theorem windows_scan_complete:
  assumes "contiguous 0 rs" "query_region env p = region_at rs" "cap = 0 \<or> unbacked_total rs < cap"
    and "kernel32 env" "open_process env p"
  shows "scan_process_windows env p name cap cache =
    Some (concat (map (region_threats env p name (fst (is_managed_process env p name cache)))
                      (filter is_unbacked_executable rs)),
          snd (is_managed_process env p name cache))"
proof -
  have "concat (map (report env p name jit) rs)
      = concat (map (region_threats env p name jit) (filter is_unbacked_executable rs))" for jit
    by (induction rs) (simp_all add: report_def)
  then show ?thesis
    using scan_regions_layout[of "[]" rs env p cap 0 name "fst (is_managed_process env p name cache)" "[]"] assms
    by (simp add: scan_process_windows_def scan_process_regions_def case_prod_beta)
qed

text \<open>Every threat that a scan reports names the scanned process and is a reflective image, a
  shellcode signature or unbacked executable memory, never a hollowed process; unbacked memory alone is
  not reported of a managed process; and the signal of a threat lets a scorer with the default threshold
  that has recorded nothing for the process respond exactly when the threat is not mere unbacked
  memory.\<close>

lemma memory_threats_scored:
  assumes "scan_process env p (Some n) cap cache = Some (ts, cache')" "t \<in> set ts" "n \<noteq> []"
    and "scorer_inv sc" "threshold sc = 80" "recorded_signals sc (''pid:'' @ show_int p) = []"
    and "scorer_add now (to_signal now t) sc = Inr sc'"
  shows "th_pid t = p
    \<and> th_type t \<in> {''reflective_pe'', ''shellcode_signature'', ''unbacked_executable''}
    \<and> (th_type t = ''unbacked_executable'' \<longrightarrow> \<not> fst (is_managed_process env p n cache))
    \<and> (should_respond (''pid:'' @ show_int p) sc' \<longleftrightarrow> th_type t \<noteq> ''unbacked_executable'')"
proof -
  have k: "th_pid t = p" "known_threat (fst (is_managed_process env p n cache)) t"
    using scan_process_known[OF assms(1,2)] assms(3) by auto
  let ?x = "to_signal now t"
  have s: "subject ?x = ''pid:'' @ show_int p" using k(1) by (simp add: to_signal_def mk_signal_def)
  have f: "response_gate.feed scorer_add now [?x] sc = Inr sc'"
    using assms(7) sg.feed.simps by simp
  have g: "should_respond (''pid:'' @ show_int p) sc' \<longleftrightarrow>
      80 \<le> effective_weight ?x \<and> corroborated [?x]"
    using sg.gate_of_feed[OF assms(4) f, of "''pid:'' @ show_int p"] assms(5,6) s by simp
  have w: "(80 \<le> effective_weight ?x \<and> corroborated [?x]) \<longleftrightarrow> th_type t \<noteq> ''unbacked_executable''"
    using k(2)
    by (auto simp: to_signal_def mk_signal_def effective_weight_def weights_def kind_map_def known_threat_def
        corroborated_def is_dll_kind_def startswith_def)
  show ?thesis using k g w by (auto simp: known_threat_def)
qed

text \<open>A line of the process maps in the kernel's format is read back: the addresses, the permissions,
  the inode and the path without surrounding space.\<close>

lemma maps_line_round_trip:
  assumes "perms \<noteq> []" "\<forall>c \<in> set perms. is_perm c" "dev \<noteq> []" "\<forall>c \<in> set dev. \<not> is_space c"
    and "path = [] \<or> \<not> is_digit (hd path) \<and> \<not> is_space (List.last path)"
  shows "parse_maps_line (maps_line a b perms off dev inode path) =
    Some \<lparr>me_start = int a, me_end = int b, me_perms = perms, me_inode = int inode, me_path = strip path\<rparr>"
  by (rule parse_maps_line_kernel) (use assms in blast)+

section \<open>Witnesses\<close>

definition demo_region :: region where
  "demo_region =
     \<lparr>base_address = 0, rsize = 4096, rstate = 0x1000, protect = 0x40, mem_type = 0x20000\<rparr>"

definition demo_mem :: mem_env where
  "demo_mem =
     \<lparr>host = Windows, path_seps = [CHR 0x5C], module_maps = (\<lambda>p. None), kernel32 = True,
      open_process = (\<lambda>p. True), query_region = (\<lambda>p. region_at [demo_region]),
      read_memory = (\<lambda>p a n. replicate 16 (CHR 0x90)), maps_lines = (\<lambda>p. None), open_mem = (\<lambda>p. False),
      read_at = (\<lambda>p a n. None), mac_maps = (\<lambda>p. None)\<rparr>"

lemma demo_own: "answers_own_region demo_mem 9"
  by (auto simp: answers_own_region_def demo_mem_def region_at_def)

definition linux_mem :: mem_env where
  "linux_mem = demo_mem\<lparr>host := Linux,
     maps_lines := (\<lambda>p. Some [maps_line 4096 8192 ''rwxp'' 0 ''00:00'' 0 []]), open_mem := (\<lambda>p. True),
     read_at := (\<lambda>p a n. Some (replicate 16 (CHR 0x90)))\<rparr>"

lemma windows_scan_returns_witness:
  "\<exists>r. scan_process_windows demo_mem 9 ''evil.exe'' 1 [] = Some r"
  by (rule windows_scan_returns[OF demo_own])

theorem windows_scan_complete_witness:
  "scan_process_windows demo_mem 9 ''evil.exe'' 0 [] =
     Some (region_threats demo_mem 9 ''evil.exe'' False demo_region, [(9, False)])"
proof -
  have m: "is_managed_process demo_mem 9 ''evil.exe'' [] = (False, [(9, False)])" by code_simp
  have u: "is_unbacked_executable demo_region" by code_simp
  have c: "contiguous 0 [demo_region]" by code_simp
  have "query_region demo_mem 9 = region_at [demo_region]" "kernel32 demo_mem" "open_process demo_mem 9"
    by (simp_all add: demo_mem_def)
  from windows_scan_complete[OF c this(1) _ this(2,3), of 0 "''evil.exe''" "[]"] show ?thesis
    by (simp add: m u)
qed

lemma shellcode_hit_None:
  "shellcode_hit jit d = None \<longleftrightarrow>
     (\<forall>(pat, desc) \<in> set shellcode_patterns. (jit \<and> contains desc ''PEB resolution'') \<or> \<not> contains d pat)"
proof -
  have "shellcode_hit jit d = None \<longleftrightarrow>
      find (\<lambda>(pat, desc). \<not> (jit \<and> contains desc ''PEB resolution'') \<and> contains d pat)
        shellcode_patterns = None"
    unfolding shellcode_hit_def by (simp split: option.split)
  then show ?thesis by (simp only: find_None_iff) blast
qed

lemma nop_sled_found: "shellcode_hit False (replicate 16 (CHR 0x90)) \<noteq> None"
proof -
  have "(replicate 16 (CHR 0x90), ''Unbacked execution NOP sled (>= 16 consecutive NOPs)'') \<in> set shellcode_patterns"
    by (simp add: shellcode_patterns_def)
  then show ?thesis by (auto simp: shellcode_hit_None contains_def)
qed

lemma linux_scan:
  "\<exists>t. scan_process linux_mem 9 (Some ''evil'') 0 [] =
     Some ([t, mk_threat 9 ''evil'' 4096 4096 ''unbacked_executable''
              ''Anomalous RWX anonymous memory region in non-JIT process'' 0.80 64
              (replicate 16 (CHR 0x90))], [(9, False)])
    \<and> th_type t = ''shellcode_signature''"
proof -
  obtain desc where hit: "shellcode_hit False (replicate 16 (CHR 0x90)) = Some desc"
    using nop_sled_found by blast
  have l: "parse_maps_line (maps_line 4096 8192 ''rwxp'' 0 ''00:00'' 0 [])
      = Some \<lparr>me_start = 4096, me_end = 8192, me_perms = ''rwxp'', me_inode = 0, me_path = []\<rparr>"
    using parse_maps_line_kernel[of "''rwxp''" "''00:00''" "[]" 4096 8192 0 0]
    by (simp add: is_perm_def is_space_def is_digit_def strip_def)
  have "lower ''evil'' = ''evil''" by code_simp
  then have m: "is_managed_process linux_mem 9 ''evil'' [] = (False, [(9, False)])"
    by (simp add: is_managed_process_def known_jit_names_def posix_jit_names_def linux_mem_def demo_mem_def)
  have n: "\<not> check_reflective_pe (replicate 16 (CHR 0x90))" "\<not> check_elf_in_memory (replicate 16 (CHR 0x90))"
    by code_simp+
  have e: "host linux_mem = Linux" "maps_lines linux_mem 9 = Some [maps_line 4096 8192 ''rwxp'' 0 ''00:00'' 0 []]"
    "open_mem linux_mem 9" "read_at linux_mem p a k = Some (replicate 16 (CHR 0x90))" for p a k
    by (simp_all add: linux_mem_def)
  define nops where "nops = replicate 16 (CHR 0x90)"
  have "nops \<noteq> []" by (simp add: nops_def)
  then show ?thesis
    using n hit e(4) unfolding nops_def[symmetric]
    by (simp add: scan_process_def scan_process_linux_def m e(1-3) l candidate_entry_def startswith_def
        entry_threats_def shellcode_threats_def entry_size_def page_execute_readwrite_def Let_def)
qed

lemma memory_threats_scored_witness:
  "\<exists>t sc'. th_type t = ''shellcode_signature'' \<and> scorer_add 5 (to_signal 5 t) default_scorer = Inr sc'
    \<and> should_respond ''pid:9'' sc'"
proof -
  obtain t u where r: "scan_process linux_mem 9 (Some ''evil'') 0 [] = Some ([t, u], [(9, False)])"
    and t: "th_type t = ''shellcode_signature''"
    using linux_scan by blast
  have i: "scorer_inv default_scorer" by (simp add: default_scorer_def scorer_inv_new)
  have n: "''pid:'' @ show_int 9 = ''pid:9''" by code_simp
  have e: "threshold default_scorer = 80" "recorded_signals default_scorer (''pid:'' @ show_int 9) = []"
    by (simp_all add: default_scorer_def new_scorer_def recorded_signals_def scorer_get_def)
  obtain sc' where a: "scorer_add 5 (to_signal 5 t) default_scorer = Inr sc'"
    using sg.add_total[OF i] by blast
  have "should_respond (''pid:'' @ show_int 9) sc'"
    using memory_threats_scored[OF r _ _ i e a] t by auto
  with a t show ?thesis unfolding n by blast
qed

lemma maps_line_round_trip_witness:
  "parse_maps_line (maps_line 4096 8192 ''r-xp'' 0 ''00:00'' 7 ''  /bin/ls'')
    = Some \<lparr>me_start = 4096, me_end = 8192, me_perms = ''r-xp'', me_inode = 7, me_path = strip ''  /bin/ls''\<rparr>"
  using maps_line_round_trip[of "''r-xp''" "''00:00''" "''  /bin/ls''" 4096 8192 0 7]
  by (simp add: is_perm_def is_space_def is_digit_def)

end
