(* ===== verification/PortableSensors.thy ===== *)
theory PortableSensors
  imports Sensors StaticClassifier MemoryScanner
begin

text \<open>
  The sensors for Linux and macOS: \<open>sensors/audit_sensor.py\<close>, \<open>sensors/journald_sensor.py\<close>,
  \<open>sensors/fanotify_sensor.py\<close>, \<open>sensors/fsevents_sensor.py\<close> and \<open>sensors/macos_log_sensor.py\<close>. All five
  give the constructor of events the keywords \<open>severity\<close> and \<open>description\<close>, which it does not have. The
  patterns of the code are regular expressions here, with a language that the search is shown to decide.
\<close>

unbundle bit_operations_syntax

section \<open>Events with other keywords\<close>

definition keyword_event :: "(string, pyval) dict \<Rightarrow> event py_result" where
  \<comment> \<open>\<open>Event(**kw)\<close>: a keyword that is no field is a TypeError\<close>
  "keyword_event kw = (if set (keys kw) \<subseteq> set known_fields then make_event kw else Inl TypeError)"

definition emit :: "(string, pyval) dict \<Rightarrow> bus \<Rightarrow> bus py_result" where
  "emit kw b = bind_res (keyword_event kw) (\<lambda>e. Inr (snd (publish e b)))"

definition sensor_kw ::
  "string \<Rightarrow> string \<Rightarrow> string \<Rightarrow> string \<Rightarrow> string \<Rightarrow> (string, pyval) dict \<Rightarrow> (string, pyval) dict" where
  \<comment> \<open>the keywords that all five sensors use\<close>
  "sensor_kw now src et sev desc x =
     [(''timestamp'', VStr now), (''source'', VStr src), (''event_type'', VStr et),
      (''severity'', VStr sev), (''description'', VStr desc), (''extra'', VDict x)]"

section \<open>Patterns\<close>

datatype rx = Word string | Some_of "char \<Rightarrow> bool" | Any_of "char \<Rightarrow> bool" | Then rx rx | Or rx rx

fun run_rests :: "(char \<Rightarrow> bool) \<Rightarrow> string \<Rightarrow> string list" where
  "run_rests P [] = []"
| "run_rests P (c # s) = (if P c then s # run_rests P s else [])"

fun rests :: "rx \<Rightarrow> string \<Rightarrow> string list" where
  \<comment> \<open>what may be left of a text after a match at its start, without regard to case\<close>
  "rests (Word w) s = (if lower (take (length w) s) = lower w then [drop (length w) s] else [])"
| "rests (Some_of P) s = run_rests P s"
| "rests (Any_of P) s = s # run_rests P s"
| "rests (Then r q) s = concat (map (rests q) (rests r s))"
| "rests (Or r q) s = rests r s @ rests q s"

fun search :: "rx \<Rightarrow> string \<Rightarrow> bool" where
  "search r [] = (rests r [] \<noteq> [])"
| "search r (c # s) = (rests r (c # s) \<noteq> [] \<or> search r s)"

fun lang :: "rx \<Rightarrow> string set" where
  "lang (Word w) = {u. lower u = lower w}"
| "lang (Some_of P) = {u. u \<noteq> [] \<and> list_all P u}"
| "lang (Any_of P) = {u. list_all P u}"
| "lang (Then r q) = {u @ v | u v. u \<in> lang r \<and> v \<in> lang q}"
| "lang (Or r q) = lang r \<union> lang q"

definition word_char :: "char \<Rightarrow> bool" where
  \<comment> \<open>the class w of Python's patterns, for characters below 256\<close>
  "word_char c =
     (let n = (of_char c :: nat) in
        is_digit c \<or> (65 \<le> n \<and> n \<le> 90) \<or> (97 \<le> n \<and> n \<le> 122) \<or> n = 95
        \<or> n \<in> {170, 178, 179, 181, 185, 186, 188, 189, 190} \<or> (192 \<le> n \<and> n \<noteq> 215 \<and> n \<noteq> 247))"

definition all_digits :: "string \<Rightarrow> bool" where
  \<comment> \<open>\<open>isdigit\<close>, which also accepts the superscripts that \<open>int\<close> refuses\<close>
  "all_digits s \<longleftrightarrow> s \<noteq> [] \<and> list_all (\<lambda>c. is_digit c \<or> (of_char c :: nat) \<in> {178, 179, 185}) s"

fun first_match :: "(rx \<times> string \<times> string) list \<Rightarrow> string \<Rightarrow> (string \<times> string) option" where
  "first_match [] s = None"
| "first_match ((r, x) # ps) s = (if search r s then Some x else first_match ps s)"

section \<open>The audit log\<close>

definition audit_types :: "string list" where
  "audit_types =
     [''SYSCALL'', ''EXECVE'', ''CWD'', ''PATH'', ''PROCTITLE'', ''SOCKADDR'', ''USER_AUTH'', ''USER_LOGIN'',
      ''USER_START'', ''ANOM_PROMISCUOUS'']"

fun audit_type :: "string \<Rightarrow> string option" where
  "audit_type [] = None"
| "audit_type (c # s) =
     (let w = takeWhile word_char (drop 5 (c # s)) in
      if startswith (c # s) ''type='' \<and> w \<noteq> [] then Some w else audit_type s)"

definition digits_then :: "char \<Rightarrow> string \<Rightarrow> (string \<times> string) option" where
  "digits_then z s =
     (let d = takeWhile is_digit s; r = dropWhile is_digit s in
      if d \<noteq> [] \<and> r \<noteq> [] \<and> hd r = z then Some (d, tl r) else None)"

definition msg_here :: "string \<Rightarrow> nat option" where
  "msg_here s =
     (if startswith s ''msg=audit(''
      then Option.bind (digits_then CHR ''.'' (drop 10 s)) (\<lambda>(_, r).
           Option.bind (digits_then CHR '':'' r) (\<lambda>(_, r).
           map_option (read_nat \<circ> fst) (digits_then CHR '')'' r)))
      else None)"

fun audit_serial_of :: "string \<Rightarrow> nat option" where
  "audit_serial_of [] = None"
| "audit_serial_of (c # s) =
     (case msg_here (c # s) of Some n \<Rightarrow> Some n | None \<Rightarrow> audit_serial_of s)"

definition kv_value :: "string \<Rightarrow> (string \<times> string) option" where
  \<comment> \<open>the value at the start of a text, and what follows it\<close>
  "kv_value s =
     (case s of
        [] \<Rightarrow> None
      | c # r \<Rightarrow>
          if c = CHR 0x22 \<and> CHR 0x22 \<in> set r
          then Some (c # takeWhile (\<lambda>d. d \<noteq> CHR 0x22) r @ [CHR 0x22], tl (dropWhile (\<lambda>d. d \<noteq> CHR 0x22) r))
          else if is_space c then None
          else Some (takeWhile (\<lambda>d. \<not> is_space d) s, dropWhile (\<lambda>d. \<not> is_space d) s))"

lemma kv_value_shorter: "kv_value s = Some (v, t) \<Longrightarrow> length t \<le> length s"
  using length_dropWhile_le[of "\<lambda>d. d \<noteq> CHR 0x22" "tl s"] length_dropWhile_le[of "\<lambda>d. \<not> is_space d" s]
  by (auto simp: kv_value_def split: list.splits if_splits)

definition pair_here :: "string \<Rightarrow> ((string \<times> string) \<times> string) option" where
  "pair_here s =
     (let k = takeWhile word_char s; r = dropWhile word_char s in
      if k \<noteq> [] \<and> r \<noteq> [] \<and> hd r = CHR ''='' then map_option (\<lambda>(v, t). ((k, v), t)) (kv_value (tl r)) else None)"

lemma pair_here_shorter: "pair_here (c # s) = Some (kv, t) \<Longrightarrow> length t \<le> length s"
  using length_dropWhile_le[of word_char "c # s"]
  by (auto simp: pair_here_def Let_def split: if_splits dest!: kv_value_shorter)

function key_values :: "string \<Rightarrow> (string \<times> string) list" where
  "key_values [] = []"
| "key_values (c # s) =
     (case pair_here (c # s) of None \<Rightarrow> key_values s | Some (kv, t) \<Rightarrow> kv # key_values t)"
  by pat_completeness auto
termination
  by (relation "measure length") (auto dest: pair_here_shorter)

definition unquote :: "string \<Rightarrow> string" where
  "unquote v = rev (dropWhile (\<lambda>c. c = CHR 0x22) (rev (dropWhile (\<lambda>c. c = CHR 0x22) v)))"

definition audit_fields :: "string \<Rightarrow> (string, string) dict" where
  "audit_fields line = foldl (\<lambda>d (k, v). AList.update k (unquote v) d) [] (key_values line)"

definition get_or :: "(string, string) dict \<Rightarrow> string \<Rightarrow> string \<Rightarrow> string" where
  "get_or d k x = (case map_of d k of None \<Rightarrow> x | Some v \<Rightarrow> v)"

definition digits_or :: "int \<Rightarrow> (string \<Rightarrow> string) \<Rightarrow> string \<Rightarrow> int py_result" where
  \<comment> \<open>\<open>int(s) if f(s).isdigit() else n\<close>\<close>
  "digits_or n f s = (if all_digits (f s) then parse_int s else Inr n)"

definition emit_process_create :: "string \<Rightarrow> (string, string) dict \<Rightarrow> string \<Rightarrow> bus \<Rightarrow> bus py_result" where
  "emit_process_create now fs raw b =
     (let exe = get_or fs ''exe'' ''unknown''; p = get_or fs ''pid'' ''0''; pp = get_or fs ''ppid'' ''0'';
          u = get_or fs ''uid'' ''-1''; comm = get_or fs ''comm'' ''unknown''
      in bind_res (digits_or 0 id p) (\<lambda>pi.
         bind_res (digits_or 0 id pp) (\<lambda>ppi.
         bind_res (digits_or (-1) (dropWhile (\<lambda>c. c = CHR ''-'')) u) (\<lambda>ui.
           emit (sensor_kw now ''audit'' ''process_create'' ''info''
                  (''Process created: '' @ comm @ '' (pid='' @ p @ '')'')
                  [(''exe'', VStr exe), (''pid'', VInt pi), (''ppid'', VInt ppi), (''uid'', VInt ui),
                   (''comm'', VStr comm), (''raw'', VStr (take 500 raw))]) b))))"

definition emit_auth_event :: "string \<Rightarrow> string \<Rightarrow> (string, string) dict \<Rightarrow> bus \<Rightarrow> bus py_result" where
  "emit_auth_event now ty fs b =
     (let user = get_or fs ''acct'' (get_or fs ''uid'' ''unknown''); res = get_or fs ''res'' ''unknown'';
          term = get_or fs ''terminal'' []
      in emit (sensor_kw now ''audit'' ''auth_event'' (if res \<noteq> ''success'' then ''warning'' else ''info'')
                (ty @ '': user='' @ user @ '' result='' @ res)
                [(''audit_type'', VStr ty), (''user'', VStr user), (''result'', VStr res),
                 (''terminal'', VStr term)]) b)"

definition emit_file_access :: "string \<Rightarrow> (string, string) dict \<Rightarrow> bus \<Rightarrow> bus py_result" where
  "emit_file_access now fs b =
     (let n = get_or fs ''name'' [] in
      if n \<in> {[], ''.'', ''/''} then Inr b
      else emit (sensor_kw now ''audit'' ''file_access'' ''info'' (''File accessed: '' @ n)
                  [(''path'', VStr n), (''mode'', VStr (get_or fs ''mode'' [])),
                   (''ouid'', VStr (get_or fs ''ouid'' []))]) b)"

record audit_sensor =
  au_bus :: bus
  au_serial :: nat

definition audit_dispatch :: "string \<Rightarrow> string \<Rightarrow> string \<Rightarrow> (string, string) dict \<Rightarrow> bus \<Rightarrow> bus py_result" where
  "audit_dispatch now ty line fs b =
     (if ty = ''EXECVE'' then emit_process_create now fs line b
      else if ty = ''SYSCALL'' \<and> map_of fs ''syscall'' \<in> {Some ''59'', Some ''322''}
      then emit_process_create now fs line b
      else if ty \<in> {''USER_AUTH'', ''USER_LOGIN'', ''USER_START''} then emit_auth_event now ty fs b
      else if ty = ''PATH'' then emit_file_access now fs b
      else Inr b)"

definition process_audit_line ::
  "string \<Rightarrow> string \<Rightarrow> audit_sensor \<Rightarrow> audit_sensor \<times> py_exc option" where
  "process_audit_line now line st =
     (case audit_type line of
        None \<Rightarrow> (st, None)
      | Some ty \<Rightarrow>
          if ty \<notin> set audit_types then (st, None)
          else
            let seen = (case audit_serial_of line of None \<Rightarrow> False | Some n \<Rightarrow> n \<le> au_serial st);
                st1 = (case audit_serial_of line of None \<Rightarrow> st | Some n \<Rightarrow> st\<lparr>au_serial := n\<rparr>)
            in if seen then (st, None)
               else case audit_dispatch now ty line (audit_fields line) (au_bus st1) of
                      Inl e \<Rightarrow> (st1, Some e)
                    | Inr b \<Rightarrow> (st1\<lparr>au_bus := b\<rparr>, None))"

fun audit_loop :: "(string \<times> string) list \<Rightarrow> audit_sensor \<Rightarrow> audit_sensor \<times> py_exc option" where
  \<comment> \<open>the thread, over the times and lines it reads: an exception is logged and ends it\<close>
  "audit_loop [] st = (st, None)"
| "audit_loop ((now, line) # ls) st =
     (case process_audit_line now (strip line) st of
        (st1, Some e) \<Rightarrow> (st1, Some e)
      | (st1, None) \<Rightarrow> audit_loop ls st1)"

section \<open>The journal\<close>

definition security_units :: "string list" where
  "security_units =
     [''sshd'', ''sudo'', ''su'', ''login'', ''passwd'', ''systemd-logind'', ''polkitd'', ''pkexec'', ''ufw'', ''iptables'',
      ''nftables'', ''firewalld'', ''apt'', ''apt-get'', ''dpkg'', ''dnf'', ''yum'', ''rpm'', ''cron'', ''at'', ''anacron'']"

definition any_word :: "string list \<Rightarrow> rx" where
  "any_word ws = foldr (\<lambda>w r. Or (Word w) r) (butlast ws) (Word (last ws))"

definition security_patterns :: "(rx \<times> string \<times> string) list" where
  "security_patterns =
     [(Word ''Failed password'', ''auth_failure'', ''warning''),
      (Then (Word ''Accepted '') (any_word [''password'', ''publickey'']), ''auth_success'', ''info''),
      (Word ''authentication failure'', ''auth_failure'', ''warning''),
      (Word ''session opened'', ''session_open'', ''info''),
      (Word ''session closed'', ''session_close'', ''info''),
      (Word ''COMMAND='', ''sudo_command'', ''info''),
      (Then (any_word [''Started'', ''Stopped'', ''Failed'']) (Some_of is_space), ''service_event'', ''info''),
      (Then (any_word [''install'', ''remove'', ''upgrade'', ''purge'']) (Some_of is_space), ''package_event'', ''info''),
      (any_word [''BLOCK'', ''DROP'', ''REJECT''], ''firewall_event'', ''warning''),
      (any_word [''segfault'', ''coredump'', ''oom-kill''], ''crash_event'', ''critical'')]"

definition matches_security_pattern :: "string \<Rightarrow> bool" where
  "matches_security_pattern s \<longleftrightarrow> list_ex (\<lambda>(r, _). search r s) security_patterns"

definition classify_journal :: "string \<Rightarrow> string \<times> string" where
  "classify_journal s =
     (case first_match security_patterns s of None \<Rightarrow> (''system_event'', ''info'') | Some x \<Rightarrow> x)"

function replace_str :: "string \<Rightarrow> string \<Rightarrow> string \<Rightarrow> string" where
  \<comment> \<open>\<open>s.replace(a, b)\<close> for a text \<open>a\<close> that is not empty\<close>
  "replace_str a b [] = []"
| "replace_str a b (c # s) =
     (if a \<noteq> [] \<and> startswith (c # s) a then b @ replace_str a b (drop (length a) (c # s))
      else c # replace_str a b s)"
  by pat_completeness auto
termination
  by (relation "measure (\<lambda>(a, b, s). length s)") (auto simp: neq_Nil_conv)

definition journal_source :: "(string, pyval) dict \<Rightarrow> string" where
  "journal_source entry =
     (let sid = py_str (dict_get_or entry ''SYSLOG_IDENTIFIER'' (VStr []));
          u = py_str (dict_get_or entry ''_SYSTEMD_UNIT'' (VStr []))
      in if sid \<noteq> [] then sid else replace_str ''.service'' [] u)"

definition process_journal_entry :: "string \<Rightarrow> pyval \<Rightarrow> bus \<Rightarrow> bus py_result" where
  "process_journal_entry now v b =
     (case v of
        VDict entry \<Rightarrow>
          let msg = py_str (dict_get_or entry ''MESSAGE'' (VStr []));
              p = dict_get_or entry ''_PID'' (VInt 0);
              src = journal_source entry
          in if src \<notin> set security_units \<and> \<not> matches_security_pattern msg then Inr b
             else (case classify_journal msg of
                     (et, sev) \<Rightarrow>
                       bind_res (if all_digits (py_str p) then to_int p else Inr 0) (\<lambda>pi.
                         emit (sensor_kw now ''journald'' et sev (''['' @ src @ ''] '' @ take 300 msg)
                                [(''syslog_identifier'', VStr (py_str (dict_get_or entry ''SYSLOG_IDENTIFIER'' (VStr [])))),
                                 (''unit'', VStr (py_str (dict_get_or entry ''_SYSTEMD_UNIT'' (VStr [])))),
                                 (''pid'', VInt pi), (''message'', VStr (take 1000 msg))]) b))
      | _ \<Rightarrow> Inl AttributeError)"

definition process_plain_journal :: "string \<Rightarrow> string \<Rightarrow> bus \<Rightarrow> bus py_result" where
  "process_plain_journal now line b =
     (if \<not> matches_security_pattern line then Inr b
      else case classify_journal line of
             (et, sev) \<Rightarrow>
               emit (sensor_kw now ''journald'' et sev (take 300 line) [(''raw'', VStr (take 1000 line))]) b)"

datatype log_line = Json pyval | Plain string

definition journal_line :: "string \<Rightarrow> log_line \<Rightarrow> bus \<Rightarrow> bus py_result" where
  \<comment> \<open>a line of \<open>journalctl\<close>, as \<open>json.loads\<close> reads it when it can\<close>
  "journal_line now l b =
     (case l of Json v \<Rightarrow> process_journal_entry now v b | Plain s \<Rightarrow> process_plain_journal now (strip s) b)"

fun run_until_error :: "('a \<Rightarrow> bus \<Rightarrow> bus py_result) \<Rightarrow> 'a list \<Rightarrow> bus \<Rightarrow> bus \<times> py_exc option" where
  \<comment> \<open>a thread's loop inside one \<open>try\<close>: the first exception ends it\<close>
  "run_until_error f [] b = (b, None)"
| "run_until_error f (x # xs) b = (case f x b of Inl e \<Rightarrow> (b, Some e) | Inr b' \<Rightarrow> run_until_error f xs b')"

definition monitor_journalctl :: "(string \<times> log_line) list \<Rightarrow> bus \<Rightarrow> bus \<times> py_exc option" where
  "monitor_journalctl ls b = run_until_error (\<lambda>(now, l). journal_line now l) ls b"

definition monitor_native :: "(string \<times> pyval) list \<Rightarrow> (string \<times> log_line) list \<Rightarrow> bus \<Rightarrow> bus \<times> py_exc option" where
  \<comment> \<open>the entries of the journal reader, and the lines of \<open>journalctl\<close>, to which a failure falls back\<close>
  "monitor_native es ls b =
     (case run_until_error (\<lambda>(now, v). process_journal_entry now v) es b of
        (b', None) \<Rightarrow> (b', None)
      | (b', Some e) \<Rightarrow> monitor_journalctl ls b')"

section \<open>The unified log\<close>

definition numbered_process :: "rx \<Rightarrow> rx" where
  "numbered_process r =
     Then (Word ''process'') (Then (Some_of is_space) (Then (Some_of is_digit) (Then (Some_of is_space) r)))"

definition authentication :: "rx \<Rightarrow> rx" where
  "authentication r = Then (any_word [''authentication'', ''login'']) (Then (Some_of is_space) r)"

definition macos_patterns :: "(rx \<times> string \<times> string) list" where
  "macos_patterns =
     [(Then (Word ''exec'') (Then (Any_of word_char) (Then (Some_of is_space) (Then (Word ''of'') (Some_of is_space)))),
       ''process_create'', ''info''),
      (numbered_process (any_word [''started'', ''launched'']), ''process_create'', ''info''),
      (numbered_process (any_word [''exited'', ''terminated'']), ''process_exit'', ''info''),
      (authentication (any_word [''success'', ''accepted'']), ''auth_success'', ''info''),
      (authentication (any_word [''fail'', ''denied'', ''reject'']), ''auth_failure'', ''warning''),
      (Word ''sudo'', ''sudo_command'', ''info''),
      (Then (Word ''sandbox'') (Then (Some_of is_space) (Word ''violation'')), ''sandbox_violation'', ''warning''),
      (any_word [''gatekeeper'', ''notarization'', ''quarantine''], ''gatekeeper_event'', ''warning''),
      (any_word [''denied'', ''blocked'', ''rejected''], ''security_block'', ''warning''),
      (Then (Word ''connection'') (Then (Some_of is_space) (any_word [''to'', ''from''])), ''network_event'', ''info''),
      (any_word [''keychain'', ''certificate''], ''keychain_event'', ''info'')]"

definition classify_macos :: "string \<Rightarrow> string \<times> string" where
  "classify_macos s = (case first_match macos_patterns s of None \<Rightarrow> (''unknown'', ''info'') | Some x \<Rightarrow> x)"

definition process_log_entry :: "string \<Rightarrow> pyval \<Rightarrow> bus \<Rightarrow> bus py_result" where
  "process_log_entry now v b =
     (case v of
        VDict entry \<Rightarrow>
          let msg = dict_get_or entry ''eventMessage'' (VStr []);
              sub = dict_get_or entry ''subsystem'' (VStr []);
              cat = dict_get_or entry ''category'' (VStr [])
          in if \<not> truthy msg then Inr b
             else (case msg of
                     VStr m \<Rightarrow>
                       (case classify_macos m of
                          (et, sev) \<Rightarrow>
                            if et = ''unknown'' then Inr b
                            else emit (sensor_kw now ''macos_log'' et sev
                                   (''['' @ py_str sub @ ''/'' @ py_str cat @ ''] '' @ take 300 m)
                                   [(''subsystem'', sub), (''category'', cat),
                                    (''process'', dict_get_or entry ''processImagePath'' (VStr [])),
                                    (''pid'', dict_get_or entry ''processID'' (VInt 0)),
                                    (''message'', VStr (take 1000 m))]) b)
                   | _ \<Rightarrow> Inl TypeError)
      | _ \<Rightarrow> Inl AttributeError)"

definition process_plain_macos :: "string \<Rightarrow> string \<Rightarrow> bus \<Rightarrow> bus py_result" where
  "process_plain_macos now line b =
     (case classify_macos line of
        (et, sev) \<Rightarrow>
          if et = ''unknown'' then Inr b
          else emit (sensor_kw now ''macos_log'' et sev (take 300 line) [(''raw'', VStr (take 1000 line))]) b)"

definition macos_line :: "string \<Rightarrow> log_line \<Rightarrow> bus \<Rightarrow> bus py_result" where
  "macos_line now l b =
     (case l of
        Json v \<Rightarrow> process_log_entry now v b
      | Plain s \<Rightarrow> if strip s = [] then Inr b else process_plain_macos now (strip s) b)"

definition monitor_log_stream :: "(string \<times> log_line) list \<Rightarrow> bus \<Rightarrow> bus \<times> py_exc option" where
  "monitor_log_stream ls b = run_until_error (\<lambda>(now, l). macos_line now l) ls b"

section \<open>The watched folders of macOS\<close>

definition macos_exec_exts :: "string list" where
  "macos_exec_exts =
     [''.app'', ''.pkg'', ''.dmg'', ''.command'', ''.sh'', ''.dylib'', ''.kext'', ''.bundle'', ''.framework'',
      ''.workflow'', ''.action'', ''.plugin'']"

definition fsevents_kw ::
  "fs_env \<Rightarrow> (string \<Rightarrow> bool) \<Rightarrow> string \<Rightarrow> string \<Rightarrow> string \<Rightarrow> fs \<Rightarrow> (string, pyval) dict" where
  \<comment> \<open>\<open>quar\<close> tells whether \<open>xattr\<close> lists the quarantine attribute\<close>
  "fsevents_kw env quar p et act s =
     (let ext = lower (path_suffix ''/'' p); q = quar p; ex = ext \<in> set macos_exec_exts;
          sev = (if q \<and> ex then ''high'' else if ex then ''warning'' else ''info'');
          app = (ext = ''.app'' \<and> act = ''created'');
          x = [(''path'', VStr p), (''action'', VStr act), (''extension'', VStr ext), (''quarantine_flag'', VBool q)];
          x' = (if ex then
                  (case read_bytes (fe_os env) p s of
                     Inl e \<Rightarrow> x
                   | Inr d \<Rightarrow> x @ [(''entropy'',
                       VFloat (round_to 4 (shannon_entropy (fe_native env) (take max_sample d))))])
                else x)
      in sensor_kw (fe_now env) ''fsevents'' (if app then ''app_bundle_created'' else et)
           (if app then ''warning'' else sev) (act @ '': '' @ path_name ''/'' p) x')"

fun fsevents_handle :: "fs_env \<Rightarrow> (string \<Rightarrow> bool) \<Rightarrow> fs \<Rightarrow> bool \<Rightarrow> fs_notice \<Rightarrow> bus \<Rightarrow> bus py_result" where
  "fsevents_handle env quar s True n b = Inr b"
| "fsevents_handle env quar s False (Created p) b = emit (fsevents_kw env quar p ''file_write'' ''created'' s) b"
| "fsevents_handle env quar s False (Modified p) b = emit (fsevents_kw env quar p ''file_modify'' ''modified'' s) b"
| "fsevents_handle env quar s False (Moved p q) b = emit (fsevents_kw env quar q ''file_write'' ''moved'' s) b"
| "fsevents_handle env quar s False (Deleted p) b = Inr b"

section \<open>Notifications of the Linux kernel\<close>

record fan_meta =
  fm_len :: "32 word"
  fm_vers :: "8 word"
  fm_reserved :: "8 word"
  fm_metalen :: "16 word"
  fm_mask :: "64 word"
  fm_fd :: "32 word"
  fm_pid :: "32 word"

definition encode_meta :: "fan_meta \<Rightarrow> bytes" where
  "encode_meta m =
     le_bytes 4 (unat (fm_len m)) @ le_bytes 1 (unat (fm_vers m)) @ le_bytes 1 (unat (fm_reserved m))
     @ le_bytes 2 (unat (fm_metalen m)) @ le_bytes 8 (unat (fm_mask m)) @ le_bytes 4 (unat (fm_fd m))
     @ le_bytes 4 (unat (fm_pid m))"

definition parse_meta :: "bytes \<Rightarrow> fan_meta" where
  \<comment> \<open>\<open>FanotifyEventMetadata.from_buffer_copy\<close>\<close>
  "parse_meta d =
     \<lparr>fm_len = of_nat (le_nat (field 0 4 d)), fm_vers = of_nat (le_nat (field 4 1 d)),
      fm_reserved = of_nat (le_nat (field 5 1 d)), fm_metalen = of_nat (le_nat (field 6 2 d)),
      fm_mask = of_nat (le_nat (field 8 8 d)), fm_fd = of_nat (le_nat (field 16 4 d)),
      fm_pid = of_nat (le_nat (field 20 4 d))\<rparr>"

record fan_env =
  fa_now :: string
  fa_link :: "int \<Rightarrow> string option"
  fa_comm :: "int \<Rightarrow> string option"

definition fan_event_type :: "64 word \<Rightarrow> string" where
  "fan_event_type m =
     (if m AND 0x1000 \<noteq> 0 then ''file_exec'' else if m AND 0x8 \<noteq> 0 then ''file_write''
      else if m AND 0x2 \<noteq> 0 then ''file_modify'' else if m AND 0x20 \<noteq> 0 then ''file_open'' else ''file_access'')"

definition emit_fan :: "fan_env \<Rightarrow> string \<Rightarrow> fan_meta \<Rightarrow> bus \<Rightarrow> bus py_result" where
  "emit_fan env p m b =
     (let et = fan_event_type (fm_mask m);
          name = (case fa_comm env (sint (fm_pid m)) of None \<Rightarrow> [] | Some t \<Rightarrow> strip t)
      in emit (sensor_kw (fa_now env) ''fanotify'' et ''info'' (et @ '': '' @ p)
                [(''path'', VStr p), (''pid'', VInt (sint (fm_pid m))), (''process'', VStr name),
                 (''mask'', VStr (''0x'' @ hex_lower (unat (fm_mask m))))]) b)"

function fan_events :: "fan_env \<Rightarrow> bytes \<Rightarrow> bus \<Rightarrow> int list \<Rightarrow> (bus \<times> int list) \<times> py_exc option" where
  \<comment> \<open>\<open>_process_events\<close> on what is left of the buffer; the list holds the descriptors closed so far\<close>
  "fan_events env buf b cls =
     (if length buf < 24 then ((b, cls), None)
      else
        let m = parse_meta (take 24 buf); fd = sint (fm_fd m); rest = drop (unat (fm_len m)) buf in
        if fm_len m < 24 then ((b, cls), None)
        else if fd < 0 then fan_events env rest b cls
        else (case fa_link env fd of
                None \<Rightarrow> fan_events env rest b (cls @ [fd])
              | Some p \<Rightarrow>
                  (case emit_fan env p m b of
                     Inl e \<Rightarrow> ((b, cls @ [fd]), Some e)
                   | Inr b' \<Rightarrow> fan_events env rest b' (cls @ [fd]))))"
  by pat_completeness auto

termination
  by (relation "measure (\<lambda>(env, buf, b, cls). length buf)") (auto simp: word_less_nat_alt)

declare fan_events.simps [simp del]

fun fan_read_loop ::
  "fan_env \<Rightarrow> bytes option list \<Rightarrow> bus \<Rightarrow> int list \<Rightarrow> (bus \<times> int list) \<times> py_exc option" where
  \<comment> \<open>\<open>_read_loop\<close>: \<open>None\<close> is an OSError of the read, which ends the loop, as does an exception\<close>
  "fan_read_loop env [] b cls = ((b, cls), None)"
| "fan_read_loop env (None # rs) b cls = ((b, cls), None)"
| "fan_read_loop env (Some buf # rs) b cls =
     (if buf = [] then fan_read_loop env rs b cls
      else case fan_events env buf b cls of
             (st, Some e) \<Rightarrow> (st, Some e)
           | ((b', cls'), None) \<Rightarrow> fan_read_loop env rs b' cls')"

section \<open>What a pattern matches\<close>

lemma run_rests_iff: "t \<in> set (run_rests P s) \<longleftrightarrow> (\<exists>u. u \<noteq> [] \<and> list_all P u \<and> s = u @ t)"
proof (induction s)
  case (Cons c s)
  have "(\<exists>u. u \<noteq> [] \<and> list_all P u \<and> c # s = u @ t)
      \<longleftrightarrow> P c \<and> (s = t \<or> (\<exists>u. u \<noteq> [] \<and> list_all P u \<and> s = u @ t))"
    by (auto simp: Cons_eq_append_conv)
  then show ?case using Cons.IH by auto
qed simp

lemma rests_iff: "t \<in> set (rests r s) \<longleftrightarrow> (\<exists>u \<in> lang r. s = u @ t)"
proof (induction r arbitrary: s t)
  case (Word w)
  show ?case
  proof
    assume "t \<in> set (rests (Word w) s)"
    then have "lower (take (length w) s) = lower w" "t = drop (length w) s" by (auto split: if_splits)
    then show "\<exists>u \<in> lang (Word w). s = u @ t" by (intro bexI[of _ "take (length w) s"]) simp_all
  next
    assume "\<exists>u \<in> lang (Word w). s = u @ t"
    then obtain u where u: "lower u = lower w" "s = u @ t" by auto
    then have "length u = length w" by (metis length_map lower_def)
    then show "t \<in> set (rests (Word w) s)" using u by simp
  qed
next
  case (Some_of P)
  then show ?case by (auto simp: run_rests_iff)
next
  case (Any_of P)
  have "(\<exists>u. list_all P u \<and> s = u @ t) \<longleftrightarrow> s = t \<or> (\<exists>u. u \<noteq> [] \<and> list_all P u \<and> s = u @ t)"
    by (metis append_Nil list.pred_inject(1))
  then show ?case by (auto simp: run_rests_iff)
next
  case (Then r q)
  then show ?case by (auto) (metis append.assoc)
qed auto

lemma rests_nonempty: "rests r s \<noteq> [] \<longleftrightarrow> (\<exists>u b. s = u @ b \<and> u \<in> lang r)"
proof -
  have "rests r s \<noteq> [] \<longleftrightarrow> (\<exists>t. t \<in> set (rests r s))" by (cases "rests r s") auto
  then show ?thesis by (auto simp: rests_iff)
qed

lemma search_meaning: "search r s \<longleftrightarrow> (\<exists>a u b. s = a @ u @ b \<and> u \<in> lang r)"
proof (induction s)
  case Nil
  show ?case unfolding search.simps rests_nonempty by auto
next
  case (Cons c s)
  have "(\<exists>a u b. c # s = a @ u @ b \<and> u \<in> lang r)
      \<longleftrightarrow> (\<exists>u b. c # s = u @ b \<and> u \<in> lang r) \<or> (\<exists>a u b. s = a @ u @ b \<and> u \<in> lang r)"
    (is "?l \<longleftrightarrow> ?m \<or> ?n")
  proof
    assume ?l
    then obtain a u b where "c # s = a @ u @ b" "u \<in> lang r" by blast
    then show "?m \<or> ?n" by (cases a) auto
  next
    assume "?m \<or> ?n"
    then show ?l
    proof
      assume ?m
      then show ?l by (metis append_Nil)
    next
      assume ?n
      then show ?l by (metis append_Cons)
    qed
  qed
  then show ?case using Cons.IH unfolding search.simps rests_nonempty by simp
qed

section \<open>What the sensors publish\<close>

lemma emit_raises [simp]: "emit (sensor_kw now src et sev desc x) b = Inl TypeError"
  by (simp add: emit_def keyword_event_def sensor_kw_def known_fields_def)

lemma run_until_error_same:
  "(\<And>x b b'. f x b = Inr b' \<Longrightarrow> b' = b) \<Longrightarrow> fst (run_until_error f xs b) = b"
  by (induction xs arbitrary: b) (auto split: sum.split)

lemma bind_res_raises: "(\<And>x. f x = Inl e) \<Longrightarrow> bind_res r f \<noteq> Inr b"
  by (cases r) simp_all

lemma emit_process_create_raises: "emit_process_create now fs raw b \<noteq> Inr b'"
  unfolding emit_process_create_def Let_def by (auto simp: bind_res_Inr_iff)

lemma audit_dispatch_same: "audit_dispatch now ty line fs b = Inr b' \<Longrightarrow> b' = b"
  by (auto simp: audit_dispatch_def emit_process_create_raises emit_auth_event_def emit_file_access_def Let_def
      split: if_splits)

lemma process_audit_line_same: "au_bus (fst (process_audit_line now line st)) = au_bus st"
  by (auto simp: process_audit_line_def Let_def split: option.split sum.split dest: audit_dispatch_same)

lemma audit_loop_same: "au_bus (fst (audit_loop ls st)) = au_bus st"
proof (induction ls st rule: audit_loop.induct)
  case (2 now line ls st)
  obtain st1 r where p: "process_audit_line now (strip line) st = (st1, r)" by fastforce
  then show ?case
    using 2 process_audit_line_same[of now "strip line" st] by (cases r) (auto simp: p)
qed simp

lemma journal_entry_same: "process_journal_entry now v b = Inr b' \<Longrightarrow> b' = b"
  unfolding process_journal_entry_def Let_def
  by (auto simp: bind_res_Inr_iff split: pyval.splits if_splits prod.splits)

lemma journal_line_same: "journal_line now l b = Inr b' \<Longrightarrow> b' = b"
  by (auto simp: journal_line_def process_plain_journal_def dest: journal_entry_same
      split: log_line.splits if_splits prod.splits)

lemma monitor_native_same: "fst (monitor_native es ls b) = b"
proof -
  have a: "fst (run_until_error (\<lambda>(now, v). process_journal_entry now v) es b) = b"
    by (rule run_until_error_same) (auto dest: journal_entry_same)
  have "fst (monitor_journalctl ls b) = b"
    unfolding monitor_journalctl_def by (rule run_until_error_same) (auto dest: journal_line_same)
  then show ?thesis using a by (auto simp: monitor_native_def split: prod.split option.split)
qed

lemma macos_line_same: "macos_line now l b = Inr b' \<Longrightarrow> b' = b"
  by (auto simp: macos_line_def process_plain_macos_def process_log_entry_def Let_def
      split: log_line.splits if_splits prod.splits pyval.splits)

lemma monitor_log_stream_same: "fst (monitor_log_stream ls b) = b"
  unfolding monitor_log_stream_def by (rule run_until_error_same) (auto dest: macos_line_same)

lemma fsevents_same: "fsevents_handle env quar s d n b = Inr b' \<Longrightarrow> b' = b"
  by (cases d; cases n) (simp_all add: fsevents_kw_def Let_def)

lemma fan_events_same: "fst (fst (fan_events env buf b cls)) = b"
  by (induction env buf b cls rule: fan_events.induct)
    (subst fan_events.simps, auto simp: Let_def emit_fan_def split: option.split)

lemma fan_read_loop_same: "fst (fst (fan_read_loop env rs b cls)) = b"
proof (induction env rs b cls rule: fan_read_loop.induct)
  case (3 env buf rs b cls)
  obtain b1 c r where f: "fan_events env buf b cls = ((b1, c), r)" by (metis prod.collapse)
  then have "b1 = b" using fan_events_same[of env buf b cls] by simp
  then show ?case using 3 f by (cases r) auto
qed simp_all

text \<open>C29: whatever they observe, the audit, journal, unified-log, file-event and fanotify sensors publish no event.\<close>

theorem portable_sensors_publish_nothing:
  "au_bus (fst (audit_loop ls st)) = au_bus st \<and> fst (monitor_native es js b) = b
   \<and> fst (monitor_log_stream ms b) = b
   \<and> (case fsevents_handle env quar s d n b of Inl e \<Rightarrow> True | Inr b' \<Rightarrow> b' = b)
   \<and> fst (fst (fan_read_loop fenv reads b cls)) = b"
  by (simp add: audit_loop_same monitor_native_same monitor_log_stream_same fan_read_loop_same
      split: sum.split) (blast dest: fsevents_same)

text \<open>The journal sensor's thread, reading plain lines, ends with a TypeError exactly when some line has a
  part in the language of a security pattern, and runs on otherwise.\<close>

lemma journal_thread_ends:
  "monitor_journalctl (map (\<lambda>l. (now, Plain l)) ls) b =
     (b, if list_ex (\<lambda>l. list_ex (\<lambda>(r, _). \<exists>a u c. strip l = a @ u @ c \<and> u \<in> lang r) security_patterns) ls
         then Some TypeError else None)"
proof (induction ls)
  case (Cons l ls)
  have m: "matches_security_pattern s
      \<longleftrightarrow> list_ex (\<lambda>(r, _). \<exists>a u c. s = a @ u @ c \<and> u \<in> lang r) security_patterns" for s
    by (simp add: matches_security_pattern_def search_meaning)
  have "journal_line now (Plain l) b = (if matches_security_pattern (strip l) then Inl TypeError else Inr b)"
    by (simp add: journal_line_def process_plain_journal_def split: prod.split)
  then show ?case using Cons.IH by (simp add: monitor_journalctl_def m)
qed (simp add: monitor_journalctl_def)

lemma same_serial_ignored:
  assumes "\<forall>x \<in> set ls. audit_serial_of (strip x) = Some n" "n \<le> au_serial st"
  shows "audit_loop (map (Pair now) ls) st = (st, None)"
  using assms
proof (induction ls)
  case (Cons x ls)
  then have "process_audit_line now (strip x) st = (st, None)"
    by (simp add: process_audit_line_def Let_def split: option.split)
  then show ?case using Cons by simp
qed simp

text \<open>Of the audit records that share a serial number, as all records of one event do, only the first has an
  effect.\<close>

lemma first_audit_record_only:
  assumes "audit_type (strip l) = Some ty" "ty \<in> set audit_types"
    and "list_all (\<lambda>x. audit_serial_of (strip x) = Some n) (l # ls)"
  shows "audit_loop (map (Pair now) (l # ls)) st = audit_loop [(now, l)] st"
proof -
  have n: "audit_serial_of (strip l) = Some n" "\<forall>x \<in> set ls. audit_serial_of (strip x) = Some n"
    using assms(3) by (simp_all add: list_all_iff)
  obtain st1 r where p: "process_audit_line now (strip l) st = (st1, r)" by fastforce
  have "n \<le> au_serial st1"
    using p assms(1,2) n(1) by (auto simp: process_audit_line_def Let_def split: if_splits sum.splits)
  from same_serial_ignored[OF n(2) this] show ?thesis by (cases r) (simp_all add: p)
qed

lemma first_audit_record_only_witness:
  "audit_loop (map (Pair ''now'') [''type=CWD msg=audit(1.2:7): cwd='', ''type=PATH msg=audit(1.2:7): name=a''])
     \<lparr>au_bus = new_bus 10 5, au_serial = 0\<rparr>
   = audit_loop [(''now'', ''type=CWD msg=audit(1.2:7): cwd='')] \<lparr>au_bus = new_bus 10 5, au_serial = 0\<rparr>"
proof -
  have "audit_type (strip ''type=CWD msg=audit(1.2:7): cwd='') = Some ''CWD''" "''CWD'' \<in> set audit_types"
    "list_all (\<lambda>x. audit_serial_of (strip x) = Some 7)
       [''type=CWD msg=audit(1.2:7): cwd='', ''type=PATH msg=audit(1.2:7): name=a'']"
    by code_simp+
  from first_audit_record_only[OF this] show ?thesis .
qed

section \<open>A buffer of notifications\<close>

lemma le_word:
  "LENGTH('a :: len) = 8 * n \<Longrightarrow> (of_nat (le_nat (le_bytes n (unat (w :: 'a word)))) :: 'a word) = w"
  using unsigned_less[of w, where 'a=nat] by (simp add: le_nat_bytes power_mult)

lemma parse_encode_meta: "parse_meta (encode_meta m @ rest) = m"
  by (cases m)
    (simp add: parse_meta_def encode_meta_def field_skip field_here le_word del: le_bytes.simps One_nat_def)

fun fan_outcome :: "fan_env \<Rightarrow> fan_meta list \<Rightarrow> int list \<times> py_exc option" where
  \<comment> \<open>the descriptors that are closed, and whether the thread dies\<close>
  "fan_outcome env [] = ([], None)"
| "fan_outcome env (m # ms) =
     (if sint (fm_fd m) < 0 then fan_outcome env ms
      else case fa_link env (sint (fm_fd m)) of
             Some p \<Rightarrow> ([sint (fm_fd m)], Some TypeError)
           | None \<Rightarrow> (case fan_outcome env ms of (cs, r) \<Rightarrow> (sint (fm_fd m) # cs, r)))"

text \<open>A buffer of whole notifications is parsed record by record; every descriptor that comes before the first
  file whose name can be found is closed, and that one too, at which the thread dies; later ones stay open.\<close>

lemma fan_buffer_outcome:
  assumes "list_all (\<lambda>m. fm_len m = 24) ms"
  shows "fan_events env (concat (map encode_meta ms)) b cls =
    ((b, cls @ fst (fan_outcome env ms)), snd (fan_outcome env ms))"
  using assms
proof (induction ms arbitrary: cls)
  case (Cons m ms)
  have l: "length (encode_meta m) = 24" by (simp add: encode_meta_def)
  have d: "parse_meta (encode_meta m) = m" using parse_encode_meta[of m "[]"] by simp
  have f: "fm_len m = 24" using Cons.prems by simp
  show ?case
    by (subst fan_events.simps)
      (use Cons f in \<open>simp add: l d Let_def emit_fan_def split: option.split prod.split\<close>)
qed (simp add: fan_events.simps)

lemma fan_buffer_outcome_witness:
  "fan_events \<lparr>fa_now = [], fa_link = (\<lambda>f. None), fa_comm = (\<lambda>p. None)\<rparr>
     (concat (map encode_meta [\<lparr>fm_len = 24, fm_vers = 3, fm_reserved = 0, fm_metalen = 24, fm_mask = 8,
        fm_fd = 7, fm_pid = 1\<rparr>])) (new_bus 10 5) [] = ((new_bus 10 5, [7]), None)"
  by (subst fan_buffer_outcome) simp_all

end
