(* ===== verification/KernelBridge.thy ===== *)
theory KernelBridge
  imports Messages Authenticode
begin

text \<open>
  \<open>kernel/bridge.py\<close>: the hash blocklist and the bridge to the minifilter. What the driver and Windows
  answer is a record of parameters: whether \<open>fltlib.dll\<close> loads, the \<open>HRESULT\<close> of each call (the foreign
  functions are declared with \<open>restype = HRESULT\<close>, so a negative one raises), replies and messages, the
  long form of a path and the device of a drive. Every operation also returns the commands it sent with
  their outcome. The contract of a set of blocked items is the locale \<open>block_set\<close>, which both the hash
  blocklist and the driver's path table meet.
\<close>

section \<open>The contract of a block set\<close>

locale block_set =
  fixes put :: "'k \<Rightarrow> 's \<Rightarrow> 's"
    and del :: "'k \<Rightarrow> 's \<Rightarrow> 's"
    and blocked :: "'k \<Rightarrow> 's \<Rightarrow> bool"
    and empty :: "'s"
  assumes blocked_empty: "\<not> blocked k empty"
    and blocked_put: "blocked j (put k s) \<longleftrightarrow> j = k \<or> blocked j s"
    and blocked_del: "blocked j (del k s) \<longleftrightarrow> j \<noteq> k \<and> blocked j s"
begin

fun history :: "(bool \<times> 'k) list \<Rightarrow> 's \<Rightarrow> 's" where
  "history [] s = s"
| "history ((add, k) # ops) s = history ops (if add then put k s else del k s)"

lemma history_blocked:
  "blocked k (history ops s) \<longleftrightarrow>
     (case filter (\<lambda>op. snd op = k) ops of
        [] \<Rightarrow> blocked k s
      | x # xs \<Rightarrow> fst (List.last (x # xs)))"
proof (induction ops arbitrary: s)
  case (Cons op ops)
  obtain a j where op: "op = (a, j)" by (cases op)
  show ?case
    using Cons.IH[of "if a then put j s else del j s"] op
    by (auto simp: blocked_put blocked_del split: list.splits)
qed simp

end

section \<open>The hash blocklist\<close>

record block_record =
  br_hash :: string
  br_time :: real
  br_reason :: string
  br_meta :: "(string, pyval) dict"

type_synonym hash_blocks = "(string, block_record) dict"

definition is_sha256_text :: "string \<Rightarrow> bool" where
  "is_sha256_text s \<longleftrightarrow> length s = 64 \<and> (\<forall>c \<in> set s. c \<in> set ''0123456789abcdef'')"

definition hash_bytes :: "(bytes \<Rightarrow> string) \<Rightarrow> bytes \<Rightarrow> string" where
  "hash_bytes sha d = lower (sha d)"

definition hash_file :: "(bytes \<Rightarrow> string) \<Rightarrow> os \<Rightarrow> fs \<Rightarrow> string \<Rightarrow> string option" where
  \<comment> \<open>\<open>compute_sha256\<close> of a path: none for a missing or unreadable file\<close>
  "hash_file sha os s p = (case read_bytes os p s of Inl e \<Rightarrow> None | Inr d \<Rightarrow> Some (hash_bytes sha d))"

definition identify :: "(bytes \<Rightarrow> string) \<Rightarrow> os \<Rightarrow> fs \<Rightarrow> string \<Rightarrow> string option" where
  "identify sha os s ident =
     (let clean = lower (strip ident)
      in if is_sha256_text clean then Some clean
         else case hash_file sha os s ident of
                None \<Rightarrow> None | Some h \<Rightarrow> if h = [] then None else Some h)"

definition put_hash :: "block_record \<Rightarrow> string \<Rightarrow> hash_blocks \<Rightarrow> hash_blocks" where
  "put_hash r h bl = AList.update h (r\<lparr>br_hash := h\<rparr>) bl"

definition add_hash ::
  "(bytes \<Rightarrow> string) \<Rightarrow> os \<Rightarrow> fs \<Rightarrow> real \<Rightarrow> string \<Rightarrow> string \<Rightarrow> (string, pyval) dict \<Rightarrow> hash_blocks
    \<Rightarrow> string option \<times> hash_blocks" where
  "add_hash sha os s now ident reason meta bl =
     (case identify sha os s ident of
        None \<Rightarrow> (None, bl)
      | Some h \<Rightarrow>
          (Some h, put_hash \<lparr>br_hash = h, br_time = now, br_reason = reason, br_meta = meta\<rparr> h bl))"

definition remove_hash ::
  "(bytes \<Rightarrow> string) \<Rightarrow> os \<Rightarrow> fs \<Rightarrow> string \<Rightarrow> hash_blocks \<Rightarrow> bool \<times> hash_blocks" where
  "remove_hash sha os s ident bl =
     (case identify sha os s ident of
        None \<Rightarrow> (False, bl)
      | Some h \<Rightarrow> if h \<in> set (keys bl) then (True, AList.delete h bl) else (False, bl))"

definition lookup_hash :: "string option \<Rightarrow> hash_blocks \<Rightarrow> bool \<times> block_record option" where
  "lookup_hash h bl =
     (case h of
        None \<Rightarrow> (False, None)
      | Some x \<Rightarrow> (case map_of bl x of None \<Rightarrow> (False, None) | Some r \<Rightarrow> (True, Some r)))"

definition is_blocked ::
  "(bytes \<Rightarrow> string) \<Rightarrow> os \<Rightarrow> fs \<Rightarrow> string \<Rightarrow> hash_blocks \<Rightarrow> bool \<times> block_record option" where
  "is_blocked sha os s ident bl = lookup_hash (identify sha os s ident) bl"

definition is_blocked_bytes ::
  "(bytes \<Rightarrow> string) \<Rightarrow> bytes \<Rightarrow> hash_blocks \<Rightarrow> bool \<times> block_record option" where
  "is_blocked_bytes sha d bl =
     lookup_hash (if hash_bytes sha d = [] then None else Some (hash_bytes sha d)) bl"

definition get_blocked_hashes :: "hash_blocks \<Rightarrow> block_record list" where
  "get_blocked_hashes bl = map snd bl"

definition blocklist_len :: "hash_blocks \<Rightarrow> nat" where
  "blocklist_len bl = length bl"

definition blocklist_clear :: "hash_blocks \<Rightarrow> hash_blocks" where
  "blocklist_clear bl = []"

section \<open>Paths of the driver\<close>

record driver_env =
  has_windll :: bool
  long_path :: "string \<Rightarrow> string option"
  dos_device :: "string \<Rightarrow> string option"
  fltlib_loads :: bool
  connect_hr :: int
  send_hr :: "command \<Rightarrow> int"
  status_hr :: int
  status_reply :: "32 word \<times> 32 word \<times> 32 word"
  get_message_hr :: int
  get_message_buf :: bytes

definition nt_sep :: "char \<Rightarrow> bool" where
  "nt_sep c \<longleftrightarrow> c = CHR 0x5C \<or> c = CHR ''/''"

definition split_drive :: "string \<Rightarrow> string \<times> string" where
  \<comment> \<open>\<open>os.path.splitdrive\<close> for drive letters\<close>
  "split_drive p = (case p of a # b # r \<Rightarrow> if b = CHR '':'' then ([a, b], r) else ([], p) | _ \<Rightarrow> ([], p))"

definition split_path :: "string \<Rightarrow> string \<times> string" where
  \<comment> \<open>\<open>os.path.split\<close>\<close>
  "split_path p =
     (let (drive, rest) = split_drive p;
          tail = rev (takeWhile (\<lambda>c. \<not> nt_sep c) (rev rest));
          head = take (length rest - length tail) rest;
          root = (if head \<noteq> [] \<and> nt_sep (hd head) then [hd head] else []);
          body = drop (length root) head
      in (drive @ root @ rev (dropWhile nt_sep (rev body)), tail))"

definition join_path :: "string \<Rightarrow> string \<Rightarrow> string" where
  \<comment> \<open>\<open>os.path.join\<close> with a plain name\<close>
  "join_path a b =
     (if a = [] \<or> nt_sep (List.last a) \<or> snd (split_drive a) = [] then a @ b else a @ [CHR 0x5C] @ b)"

definition dos_to_nt_path :: "driver_env \<Rightarrow> string \<Rightarrow> string" where
  "dos_to_nt_path env path =
     (if path = [] then path
      else if startswith path ([CHR 0x5C] @ ''Device'' @ [CHR 0x5C] @ ''HarddiskVolume'') \<or>
              startswith path [CHR 0x5C, CHR ''?'', CHR ''?'', CHR 0x5C, CHR 0x5C] then path
      else if \<not> has_windll env then path
      else
        let p = (case long_path env path of
                   Some l \<Rightarrow> l
                 | None \<Rightarrow>
                     (let (parent, name) = split_path path
                      in if parent \<noteq> []
                         then join_path (case long_path env parent of Some l \<Rightarrow> l | None \<Rightarrow> parent) name
                         else path));
            (drive, rest) = split_drive p
        in if drive \<noteq> []
           then (case dos_device env drive of Some d \<Rightarrow> d @ rest | None \<Rightarrow> p) else p)"

section \<open>The bridge\<close>

record bridge =
  port_name :: string
  handle :: bool
  connected :: bool
  blocked_paths :: "(string, string) dict"
  hash_blocklist :: hash_blocks

definition new_bridge :: "string \<Rightarrow> bridge" where
  "new_bridge port =
     \<lparr>port_name = port, handle = False, connected = False, blocked_paths = [], hash_blocklist = []\<rparr>"

type_synonym sent = "(command \<times> bool) list"

definition hresult :: "int \<Rightarrow> int py_result" where
  \<comment> \<open>a foreign function with \<open>restype = HRESULT\<close>: a failure code raises \<open>OSError\<close>\<close>
  "hresult hr = (if hr < 0 then Inl OSError else Inr hr)"

definition connect :: "driver_env \<Rightarrow> bridge \<Rightarrow> bool py_result \<times> bridge" where
  "connect env b =
     (if connected b then (Inr True, b)
      else if \<not> fltlib_loads env then (Inr False, b)
      else case hresult (connect_hr env) of
             Inl e \<Rightarrow> (Inl e, b)
           | Inr hr \<Rightarrow>
               if hr \<noteq> 0 then (Inr False, b) else (Inr True, b\<lparr>handle := True, connected := True\<rparr>))"

definition disconnect :: "bridge \<Rightarrow> bridge" where
  "disconnect b = b\<lparr>handle := False, connected := False\<rparr>"

definition send_command :: "driver_env \<Rightarrow> 32 word \<Rightarrow> string \<Rightarrow> bool py_result \<times> sent" where
  "send_command env t target =
     (let c = \<lparr>cmd_type = t, cmd_path = take (sentinel_max_path - 1) target\<rparr>
      in case hresult (send_hr env c) of
           Inl e \<Rightarrow> (Inl e, [(c, False)])
         | Inr hr \<Rightarrow> (Inr (hr = 0), [(c, hr = 0)]))"

definition add_block ::
  "(bytes \<Rightarrow> string) \<Rightarrow> trust_env \<Rightarrow> fs \<Rightarrow> real \<Rightarrow> driver_env \<Rightarrow> bool \<Rightarrow> string \<Rightarrow> bridge \<times> verdict_cache
    \<Rightarrow> bool py_result \<times> (bridge \<times> verdict_cache) \<times> sent" where
  "add_block sha te s now env force path st =
     (case st of (b, cache) \<Rightarrow>
        case verify_pe_signature te s path cache of (sig, cache1) \<Rightarrow>
          if (case sig of Inl e \<Rightarrow> False
              | Inr v \<Rightarrow> is_signed v \<and> is_valid v \<and> is_microsoft v \<and> \<not> force)
          then (Inr False, (b, cache1), [])
          else
            let b1 = b\<lparr>hash_blocklist :=
                   snd (add_hash sha (file_os te) s now path ''kernel_block'' [] (hash_blocklist b))\<rparr>
            in if \<not> connected b then (Inr False, (b1, cache1), [])
               else
                 let nt = dos_to_nt_path env path;
                     b2 = b1\<lparr>blocked_paths := AList.update nt nt (AList.update path nt (blocked_paths b1))\<rparr>
                 in case send_command env msg_add_block nt of
                      (r, sent) \<Rightarrow> (r, (b2, cache1), sent))"

definition remove_block ::
  "(bytes \<Rightarrow> string) \<Rightarrow> os \<Rightarrow> fs \<Rightarrow> driver_env \<Rightarrow> string \<Rightarrow> bridge \<Rightarrow> bool py_result \<times> bridge \<times> sent" where
  "remove_block sha os s env path b =
     (let b1 = b\<lparr>hash_blocklist := snd (remove_hash sha os s path (hash_blocklist b))\<rparr>
      in if \<not> connected b then (Inr False, b1, [])
         else
           let nt = (case map_of (blocked_paths b) path of
                       Some q \<Rightarrow> if q = [] then dos_to_nt_path env path else q
                     | None \<Rightarrow> dos_to_nt_path env path);
               b2 = b1\<lparr>blocked_paths := AList.delete nt (AList.delete path (blocked_paths b))\<rparr>
           in case send_command env msg_remove_block nt of
                (Inl e, sent) \<Rightarrow> (Inl e, b2, sent)
              | (Inr ok, sent) \<Rightarrow>
                  if nt \<noteq> path then
                    (case send_command env msg_remove_block path of
                       (Inl e, sent2) \<Rightarrow> (Inl e, b2, sent @ sent2)
                     | (Inr ok2, sent2) \<Rightarrow> (Inr ok, b2, sent @ sent2))
                  else (Inr ok, b2, sent))"

definition check_file_blocked ::
  "(bytes \<Rightarrow> string) \<Rightarrow> os \<Rightarrow> fs \<Rightarrow> driver_env \<Rightarrow> string \<Rightarrow> bridge \<Rightarrow> bool \<times> string" where
  "check_file_blocked sha os s env path b =
     (if path \<in> set (keys (blocked_paths b)) \<or> dos_to_nt_path env path \<in> set (keys (blocked_paths b))
      then (True, ''driver_path'')
      else case is_blocked sha os s path (hash_blocklist b) of
             (True, Some r) \<Rightarrow> (True, ''hash_blocklist:'' @ br_reason r)
           | (True, None) \<Rightarrow> (True, ''hash_blocklist:hash_match'')
           | (False, x) \<Rightarrow> (False, ''clean''))"

definition get_status :: "driver_env \<Rightarrow> bridge \<Rightarrow> (string \<times> 32 word) list py_result" where
  "get_status env b =
     (if \<not> connected b then Inr []
      else bind_res (hresult (status_hr env)) (\<lambda>hr.
        if hr \<noteq> 0 then Inr []
        else case status_reply env of
               (st, cnt, tot) \<Rightarrow> Inr [(''blocklist_count'', cnt), (''blocks_total'', tot)]))"

definition poll_events :: "driver_env \<Rightarrow> bridge \<Rightarrow> block_event list py_result" where
  "poll_events env b =
     (if \<not> connected b then Inr []
      else bind_res (hresult (get_message_hr env)) (\<lambda>hr.
        if hr = 0 then Inr [decode_get_message (get_message_buf env)] else Inr []))"


section \<open>The hash blocklist meets the contract\<close>

lemma keys_delete: "set (keys (AList.delete k d)) = set (keys d) - {k}"
  by (induction d) auto

interpretation hb: block_set "put_hash r" AList.delete "\<lambda>h bl. h \<in> set (keys bl)" "[] :: hash_blocks"
  for r :: block_record
  by unfold_locales (auto simp: put_hash_def keys_update keys_delete simp del: set_map)

text \<open>The commands sent, as the driver is documented to treat them: a table of blocked paths.\<close>

fun table_after :: "sent \<Rightarrow> string set \<Rightarrow> string set" where
  "table_after [] T = T"
| "table_after ((c, ok) # cs) T =
     table_after cs (if \<not> ok then T
       else if cmd_type c = msg_add_block then insert (cmd_path c) T
       else if cmd_type c = msg_remove_block then T - {cmd_path c} else T)"

interpretation dt: block_set insert "\<lambda>p T. T - {p}" "(\<in>)" "{} :: string set"
  by unfold_locales auto

lemma lookup_hash_iff: "fst (lookup_hash (Some h) bl) \<longleftrightarrow> h \<in> set (keys bl)"
proof -
  have "h \<in> set (keys bl) \<longleftrightarrow> map_of bl h \<noteq> None" by (simp add: map_of_eq_None_iff)
  then show ?thesis by (auto simp: lookup_hash_def split: option.split)
qed

lemma identify_sha [simp]: "is_sha256_text h \<Longrightarrow> lower (strip h) = h \<Longrightarrow> identify sha os s h = Some h"
  by (simp add: identify_def)

lemma identify_file:
  assumes "\<not> is_sha256_text (lower (strip p))" and "read_bytes os p s = Inr d" and "sha d \<noteq> []"
  shows "identify sha os s p = Some (hash_bytes sha d)"
  using assms by (simp add: identify_def hash_file_def hash_bytes_def lower_def Let_def)

lemma add_hash_keys:
  "add_hash sha os s now p why meta bl = (Some h, bl') \<Longrightarrow>
     identify sha os s p = Some h \<and> set (keys bl') = insert h (set (keys bl))"
  by (auto simp: add_hash_def put_hash_def keys_update simp del: set_map split: option.splits)

lemma remove_hash_keys:
  "identify sha os s p = Some h \<Longrightarrow> set (keys (snd (remove_hash sha os s p bl))) = set (keys bl) - {h}"
  by (auto simp: remove_hash_def keys_delete simp del: set_map)

fun hash_run ::
  "(bytes \<Rightarrow> string) \<Rightarrow> os \<Rightarrow> fs \<Rightarrow> (bool \<times> string) list \<Rightarrow> hash_blocks \<Rightarrow> hash_blocks" where
  "hash_run sha os s [] bl = bl"
| "hash_run sha os s ((add, h) # ops) bl =
     hash_run sha os s ops
       (if add then snd (add_hash sha os s 0 h [] [] bl) else snd (remove_hash sha os s h bl))"

definition sha_texts :: "(bool \<times> string) list \<Rightarrow> bool" where
  "sha_texts ops \<longleftrightarrow> (\<forall>(a, h) \<in> set ops. is_sha256_text h \<and> lower (strip h) = h)"

definition plain_record :: block_record where
  "plain_record = \<lparr>br_hash = [], br_time = 0, br_reason = [], br_meta = []\<rparr>"

lemma hash_run_history:
  "sha_texts ops \<Longrightarrow> hash_run sha os s ops bl = hb.history plain_record ops bl"
proof (induction ops arbitrary: bl)
  case (Cons op ops)
  obtain a h where op: "op = (a, h)" by (cases op)
  have h: "identify sha os s h = Some h" and so: "sha_texts ops"
    using Cons.prems op by (auto simp: sha_texts_def)
  have "snd (add_hash sha os s 0 h [] [] bl) = put_hash plain_record h bl"
    by (simp add: add_hash_def h put_hash_def plain_record_def)
  moreover have "snd (remove_hash sha os s h bl) = AList.delete h bl"
    by (simp add: remove_hash_def h delete_idem)
  ultimately show ?case
    unfolding op hash_run.simps hb.history.simps using Cons.IH[OF so] by simp
qed simp

section \<open>The driver's table\<close>

definition accepts_removals :: "driver_env \<Rightarrow> bool" where
  "accepts_removals env \<longleftrightarrow> (\<forall>c. cmd_type c = msg_remove_block \<longrightarrow> send_hr env c = 0)"

definition short :: "string \<Rightarrow> bool" where
  "short p \<longleftrightarrow> length p < sentinel_max_path"

inductive bridge_step :: "bridge \<times> string set \<Rightarrow> bridge \<times> string set \<Rightarrow> bool" where
  step_connect: "connect env b = (r, b') \<Longrightarrow> bridge_step (b, T) (b', T)"
| step_disconnect: "bridge_step (b, T) (disconnect b, T)"
| step_add: "add_block sha te s now env force p (b, cache) = (r, (b', cache'), sent) \<Longrightarrow>
     short (dos_to_nt_path env p) \<Longrightarrow> bridge_step (b, T) (b', table_after sent T)"
| step_remove: "remove_block sha os s env p b = (r, b', sent) \<Longrightarrow> accepts_removals env \<Longrightarrow>
     short p \<Longrightarrow> short (dos_to_nt_path env p) \<Longrightarrow> bridge_step (b, T) (b', table_after sent T)"

inductive_cases bridge_stepE: "bridge_step st st'"

inductive bridge_reach :: "bridge \<times> string set \<Rightarrow> bool" where
  reach_new: "bridge_reach (new_bridge port, {})"
| reach_step: "bridge_reach st \<Longrightarrow> bridge_step st st' \<Longrightarrow> bridge_reach st'"

definition table_inv :: "bridge \<times> string set \<Rightarrow> bool" where
  "table_inv st \<longleftrightarrow> (case st of (b, T) \<Rightarrow>
     T \<subseteq> set (keys (blocked_paths b)) \<and> (\<forall>v \<in> set (map snd (blocked_paths b)). short v))"

lemma take_short: "short p \<Longrightarrow> take (sentinel_max_path - Suc 0) p = p"
  by (simp add: short_def sentinel_max_path_def)

lemma msg_types [simp]: "msg_add_block \<noteq> msg_remove_block" "msg_remove_block \<noteq> msg_add_block"
  by (simp_all add: msg_add_block_def msg_remove_block_def)

lemma send_add:
  assumes "short nt" and "send_command env msg_add_block nt = (r, sent)"
  shows "table_after sent T \<subseteq> insert nt T"
proof -
  obtain ok where "sent = [(\<lparr>cmd_type = msg_add_block, cmd_path = nt\<rparr>, ok)]"
    using assms by (cases "hresult (send_hr env \<lparr>cmd_type = msg_add_block, cmd_path = nt\<rparr>)")
      (auto simp: send_command_def take_short)
  then show ?thesis by auto
qed

lemma send_remove:
  assumes "accepts_removals env" and "short nt"
  shows "send_command env msg_remove_block nt = (Inr True, [(\<lparr>cmd_type = msg_remove_block, cmd_path = nt\<rparr>, True)])"
  using assms(1) by (simp add: send_command_def take_short[OF assms(2)] accepts_removals_def hresult_def)

lemma snd_update: "set (map snd (AList.update k v d)) \<subseteq> insert v (set (map snd d))"
  using set_update_subset[of k v d] by force

lemma snd_delete: "set (map snd (AList.delete k d)) \<subseteq> set (map snd d)"
  using set_delete_subset[of k d] by force

lemma table_after_append [simp]: "table_after (a @ b) T = table_after b (table_after a T)"
  by (induction a arbitrary: T) auto

lemma add_block_table:
  assumes a: "add_block sha te s now env force p (b, cache) = (r, (b', cache'), sent)"
    and sh: "short (dos_to_nt_path env p)" and i: "table_inv (b, T)"
  shows "table_inv (b', table_after sent T)"
proof (cases "sent = []")
  case True
  have "set (keys (blocked_paths b)) \<subseteq> set (keys (blocked_paths b'))
      \<and> set (map snd (blocked_paths b')) \<subseteq> insert (dos_to_nt_path env p) (set (map snd (blocked_paths b)))"
    using a True snd_update
    by (auto simp: add_block_def Let_def keys_update send_command_def simp del: set_map
        split: prod.splits if_splits sum.splits)
  with i sh True show ?thesis by (auto simp: table_inv_def simp del: set_map)
next
  case False
  let ?nt = "dos_to_nt_path env p"
  from a False have bp: "blocked_paths b' = AList.update ?nt ?nt (AList.update p ?nt (blocked_paths b))"
    and snt: "send_command env msg_add_block ?nt = (r, sent)"
    by (auto simp: add_block_def Let_def split: prod.splits if_splits)
  have "set (map snd (blocked_paths b')) \<subseteq> insert ?nt (set (map snd (blocked_paths b)))"
    unfolding bp using snd_update[of ?nt ?nt "AList.update p ?nt (blocked_paths b)"]
      snd_update[of p ?nt "blocked_paths b"] by blast
  moreover have "table_after sent T \<subseteq> set (keys (blocked_paths b'))"
    using send_add[OF sh snt, of T] i
    by (auto simp: bp keys_update table_inv_def simp del: set_map)
  ultimately show ?thesis using i sh by (auto simp: table_inv_def simp del: set_map)
qed

lemma remove_block_table:
  assumes r: "remove_block sha os s env p b = (r, b', sent)" and acc: "accepts_removals env"
    and sh: "short p" "short (dos_to_nt_path env p)" and i: "table_inv (b, T)"
  shows "table_inv (b', table_after sent T)"
proof (cases "connected b")
  case False
  with r i show ?thesis by (auto simp: remove_block_def table_inv_def Let_def)
next
  case True
  define nt where "nt = (case map_of (blocked_paths b) p of
      Some q \<Rightarrow> if q = [] then dos_to_nt_path env p else q | None \<Rightarrow> dos_to_nt_path env p)"
  have snt: "short nt"
  proof (cases "map_of (blocked_paths b) p")
    case None
    with sh show ?thesis by (simp add: nt_def)
  next
    case (Some q)
    then have "q \<in> set (map snd (blocked_paths b))" by (force dest: map_of_SomeD)
    with i have "short q" by (auto simp: table_inv_def simp del: set_map)
    with Some sh show ?thesis by (simp add: nt_def)
  qed
  have bp: "blocked_paths b' = AList.delete nt (AList.delete p (blocked_paths b))"
    and T: "table_after sent T \<subseteq> T - {nt, p}"
  proof -
    note r' = r[unfolded remove_block_def Let_def, folded nt_def]
    have "b' = b\<lparr>hash_blocklist := snd (remove_hash sha os s p (hash_blocklist b)),
            blocked_paths := AList.delete nt (AList.delete p (blocked_paths b))\<rparr>
        \<and> sent = (if nt \<noteq> p
            then [(\<lparr>cmd_type = msg_remove_block, cmd_path = nt\<rparr>, True),
                  (\<lparr>cmd_type = msg_remove_block, cmd_path = p\<rparr>, True)]
            else [(\<lparr>cmd_type = msg_remove_block, cmd_path = nt\<rparr>, True)])"
      using r' True unfolding send_remove[OF acc snt] send_remove[OF acc sh(1)]
      by (cases "nt = p") simp_all
    then have b': "b' = b\<lparr>hash_blocklist := snd (remove_hash sha os s p (hash_blocklist b)),
            blocked_paths := AList.delete nt (AList.delete p (blocked_paths b))\<rparr>"
      and sn: "sent = (if nt \<noteq> p
            then [(\<lparr>cmd_type = msg_remove_block, cmd_path = nt\<rparr>, True),
                  (\<lparr>cmd_type = msg_remove_block, cmd_path = p\<rparr>, True)]
            else [(\<lparr>cmd_type = msg_remove_block, cmd_path = nt\<rparr>, True)])" by blast+
    show "blocked_paths b' = AList.delete nt (AList.delete p (blocked_paths b))"
      unfolding b' by simp
    show "table_after sent T \<subseteq> T - {nt, p}" unfolding sn by (cases "nt = p") auto
  qed
  have "set (map snd (blocked_paths b')) \<subseteq> set (map snd (blocked_paths b))"
    unfolding bp by (rule subset_trans[OF snd_delete snd_delete])
  moreover have "set (keys (blocked_paths b')) = set (keys (blocked_paths b)) - {nt, p}"
    unfolding bp by (auto simp: keys_delete simp del: set_map)
  ultimately show ?thesis using i T by (auto simp: table_inv_def simp del: set_map)
qed

lemma table_inv_reach: "bridge_reach st \<Longrightarrow> table_inv st"
proof (induction rule: bridge_reach.induct)
  case (reach_new port)
  then show ?case by (simp add: table_inv_def new_bridge_def)
next
  case (reach_step st st')
  from reach_step.hyps(2) reach_step.IH show ?case
  proof (cases rule: bridge_step.cases)
    case (step_connect env b r b' T)
    with reach_step.IH show ?thesis
      by (auto simp: table_inv_def connect_def split: if_splits sum.splits)
  next
    case step_disconnect
    with reach_step.IH show ?thesis by (simp add: table_inv_def disconnect_def)
  next
    case step_add
    with reach_step.IH show ?thesis using add_block_table by blast
  next
    case step_remove
    with reach_step.IH show ?thesis using remove_block_table by blast
  qed
qed

section \<open>Properties\<close>

text \<open>A validly signed Microsoft binary is never blocked without force: the request is refused, nothing is
  sent to the driver and the bridge is unchanged.\<close>
lemma microsoft_binaries_not_blocked:
  assumes "verify_pe_signature te s p cache = (Inr v, cache')"
    and "is_signed v" and "is_valid v" and "is_microsoft v"
  shows "add_block sha te s now env False p (b, cache) = (Inr False, (b, cache'), [])"
  using assms by (simp add: add_block_def)

text \<open>C8: once a readable file that is not a valid Microsoft binary has been blocked, its contents are blocked
  under every name: any other path with the same bytes is reported, and so are the bytes themselves,
  whether or not the driver is connected.\<close>
theorem blocked_content_found_everywhere:
  assumes "\<forall>d. sha d \<noteq> []"
    and "verify_pe_signature te s p cache = (Inr v, cache1)"
    and "\<not> (is_signed v \<and> is_valid v \<and> is_microsoft v)"
    and "\<not> is_sha256_text (lower (strip p))" and "read_bytes (file_os te) p s = Inr d"
    and "add_block sha te s now env force p (b, cache) = (r, (b', cache'), sent)"
    and "\<not> is_sha256_text (lower (strip q))" and "read_bytes os2 q s2 = Inr d"
  shows "fst (check_file_blocked sha os2 s2 env2 q b') \<and> fst (is_blocked_bytes sha d (hash_blocklist b'))"
proof -
  have ne: "sha d \<noteq> []" using assms(1) by simp
  have id: "identify sha (file_os te) s p = Some (hash_bytes sha d)"
    by (rule identify_file[where sha = sha, OF assms(4,5) ne])
  have "hash_blocklist b' = snd (add_hash sha (file_os te) s now p ''kernel_block'' [] (hash_blocklist b))"
    using assms(2,3,6) by (auto simp: add_block_def Let_def split: prod.splits if_splits)
  then have mem: "hash_bytes sha d \<in> set (keys (hash_blocklist b'))"
    by (simp add: add_hash_def id put_hash_def keys_update del: set_map)
  have q: "identify sha os2 s2 q = Some (hash_bytes sha d)"
    by (rule identify_file[where sha = sha, OF assms(7,8) ne])
  have "fst (is_blocked sha os2 s2 q (hash_blocklist b'))"
    using mem by (simp add: is_blocked_def q lookup_hash_iff)
  moreover have "fst (is_blocked_bytes sha d (hash_blocklist b'))"
    using mem ne by (simp add: is_blocked_bytes_def lookup_hash_iff hash_bytes_def lower_def)
  ultimately show ?thesis
    by (auto simp: check_file_blocked_def split: prod.splits option.splits)
qed

text \<open>Blocking a path and removing the block again, with the driver connected and accepting removals and
  the file readable at removal, leaves the path unblocked on both layers.\<close>
lemma unblock_after_block:
  assumes "\<forall>d. sha d \<noteq> []" and "connected b"
    and "verify_pe_signature te s p cache = (Inr v, cache1)"
    and "\<not> (is_signed v \<and> is_valid v \<and> is_microsoft v)" and "dos_to_nt_path env p \<noteq> []"
    and "add_block sha te s now env force p (b, cache) = (r, (b', cache'), sent)"
    and "\<not> is_sha256_text (lower (strip p))" and "read_bytes os2 p s2 = Inr d"
    and "accepts_removals env" and "remove_block sha os2 s2 env p b' = (r2, b'', sent2)"
  shows "r2 = Inr True \<and> check_file_blocked sha os2 s2 env p b'' = (False, ''clean'')"
proof -
  let ?nt = "dos_to_nt_path env p"
  have ne: "sha d \<noteq> []" using assms(1) by simp
  have b': "connected b'" "blocked_paths b' = AList.update ?nt ?nt (AList.update p ?nt (blocked_paths b))"
    using assms(2,3,4,6) by (auto simp: add_block_def Let_def split: prod.splits if_splits)
  have m: "map_of (blocked_paths b') p = Some ?nt" by (simp add: b')
  have ok: "send_command env msg_remove_block q =
      (Inr True, [(\<lparr>cmd_type = msg_remove_block, cmd_path = take (sentinel_max_path - 1) q\<rparr>, True)])" for q
    using assms(9) by (simp add: send_command_def accepts_removals_def hresult_def)
  have e: "r2 = Inr True \<and> blocked_paths b'' = AList.delete ?nt (AList.delete p (blocked_paths b'))
      \<and> hash_blocklist b'' = snd (remove_hash sha os2 s2 p (hash_blocklist b'))"
    using assms(10) assms(5) unfolding remove_block_def Let_def m option.case ok
    by (cases "?nt = p") (auto simp: b'(1))
  have id: "identify sha os2 s2 p = Some (hash_bytes sha d)"
    by (rule identify_file[where sha = sha, OF assms(7,8) ne])
  have "\<not> fst (is_blocked sha os2 s2 p (hash_blocklist b''))"
    unfolding is_blocked_def id lookup_hash_iff
    using e remove_hash_keys[OF id, of "hash_blocklist b'"] by simp
  moreover have "p \<notin> set (keys (blocked_paths b''))" "?nt \<notin> set (keys (blocked_paths b''))"
    using e by (simp_all add: keys_delete del: set_map)
  ultimately show ?thesis
    using e by (auto simp: check_file_blocked_def split: prod.splits)
qed

text \<open>Whatever sequence of connections, blocks and removals the bridge goes through, with failing blocks but
  accepted removals, the driver blocks no path that the bridge does not know as blocked.\<close>
lemma driver_table_known:
  assumes "bridge_reach (b, T)"
  shows "T \<subseteq> set (keys (blocked_paths b))
    \<and> (\<forall>p \<in> T. check_file_blocked sha os s env p b = (True, ''driver_path''))"
  using table_inv_reach[OF assms] by (auto simp: table_inv_def check_file_blocked_def)

text \<open>After any sequence of additions and removals of digests, a digest is reported as blocked exactly when
  the last operation on it added it.\<close>
lemma hash_blocklist_history:
  assumes "sha_texts ops" and "is_sha256_text h" and "lower (strip h) = h"
  shows "fst (is_blocked sha os s h (hash_run sha os s ops [])) \<longleftrightarrow>
     (case filter (\<lambda>op. snd op = h) ops of [] \<Rightarrow> False | x # xs \<Rightarrow> fst (List.last (x # xs)))"
  unfolding is_blocked_def identify_sha[OF assms(2,3)] lookup_hash_iff hash_run_history[OF assms(1)]
    hb.history_blocked
  by (simp split: list.split)

text \<open>When the file cannot be read at the moment of the removal, as while the driver denies access to it, its
  digest stays blocked.\<close>

lemma removal_of_unreadable_file_keeps_hash:
  assumes "\<not> is_sha256_text (lower (strip p))" and "read_bytes os p s = Inl e"
  shows "hash_blocklist (fst (snd (remove_block sha os s env p b))) = hash_blocklist b"
proof -
  have "remove_hash sha os s p bl = (False, bl)" for bl
    using assms by (simp add: remove_hash_def identify_def hash_file_def Let_def)
  then show ?thesis by (auto simp: remove_block_def Let_def split: sum.splits prod.splits)
qed

text \<open>A refused connection is reported by an exception, not by \<open>False\<close>.\<close>

lemma refused_connection_raises:
  assumes "\<not> connected b" and "fltlib_loads env" and "connect_hr env < 0"
  shows "connect env b = (Inl OSError, b)"
  using assms by (simp add: connect_def hresult_def)

section \<open>Witnesses\<close>

definition sample_driver :: driver_env where
  "sample_driver =
     \<lparr>has_windll = False, long_path = (\<lambda>p. None), dos_device = (\<lambda>p. None), fltlib_loads = True,
      connect_hr = 0, send_hr = (\<lambda>c. 0), status_hr = 0, status_reply = (0, 0, 0),
      get_message_hr = 0, get_message_buf = []\<rparr>"

definition sample_bridge :: bridge where
  "sample_bridge = (new_bridge sentinel_port_name)\<lparr>connected := True, handle := True\<rparr>"

definition unsigned_env :: trust_env where
  "unsigned_env = win_env trust_e_nosignature"

lemma unsigned_verdict:
  "verify_pe_signature unsigned_env (one_file ''evil'' ''x'') ''evil'' []
     = (Inr (status_verdict ''evil'' trust_e_nosignature),
        cache_put (''evil'', 5) (status_verdict ''evil'' trust_e_nosignature) [])"
  by (simp add: verify_pe_signature_def fresh_verdict_def unsigned_env_def win_env_def one_file_def
      mtime_of_def)

lemma unsigned_not_ms: "\<not> is_signed (status_verdict p trust_e_nosignature)"
  by (simp add: status_verdict_def trust_e_nosignature_def)

definition sample_add :: "bool py_result \<times> (bridge \<times> verdict_cache) \<times> sent" where
  "sample_add = add_block (\<lambda>d. CHR ''h'' # d) unsigned_env (one_file ''evil'' ''x'') 0 sample_driver False
     ''evil'' (sample_bridge, [])"

lemma sample_add_eq:
  "add_block (\<lambda>d. CHR ''h'' # d) unsigned_env (one_file ''evil'' ''x'') 0 sample_driver False ''evil''
     (sample_bridge, []) = (fst sample_add, (fst (fst (snd sample_add)), snd (fst (snd sample_add))),
     snd (snd sample_add))"
  by (simp add: sample_add_def)

lemma sample_names: "\<not> is_sha256_text (lower (strip ''evil''))" "\<not> is_sha256_text (lower (strip ''copy''))"
  by code_simp+

lemma sample_reads:
  "read_bytes (file_os unsigned_env) ''evil'' (one_file ''evil'' ''x'') = Inr ''x''"
  "read_bytes (file_os unsigned_env) ''copy'' (one_file ''copy'' ''x'') = Inr ''x''"
  by (simp_all add: unsigned_env_def win_env_def one_file_def file_defs)

lemma microsoft_binaries_not_blocked_witness:
  "fst (add_block (\<lambda>d. d) (win_env 0) (one_file ([CHR 0x5C] @ ''windows'' @ [CHR 0x5C] @ ''a'') []) 0
     sample_driver False ([CHR 0x5C] @ ''windows'' @ [CHR 0x5C] @ ''a'') (sample_bridge, [])) = Inr False"
proof -
  let ?p = "[CHR 0x5C] @ ''windows'' @ [CHR 0x5C] @ ''a''"
  have v: "verify_pe_signature (win_env 0) (one_file ?p []) ?p []
      = (Inr (status_verdict ?p 0), cache_put (?p, 5) (status_verdict ?p 0) [])"
    by (simp add: verify_pe_signature_def fresh_verdict_def win_env_def one_file_def mtime_of_def)
  have m: "is_signed (status_verdict ?p 0)" "is_valid (status_verdict ?p 0)" "is_microsoft (status_verdict ?p 0)"
    by code_simp+
  from microsoft_binaries_not_blocked[OF v m] show ?thesis by simp
qed

theorem blocked_content_found_everywhere_witness:
  "fst (check_file_blocked (\<lambda>d. CHR ''h'' # d) (file_os unsigned_env) (one_file ''copy'' ''x'') sample_driver
     ''copy'' (fst (fst (snd sample_add))))"
  using blocked_content_found_everywhere[OF _ unsigned_verdict _ sample_names(1) sample_reads(1)
      sample_add_eq sample_names(2) sample_reads(2)] unsigned_not_ms by blast

lemma unblock_after_block_witness:
  "fst (remove_block (\<lambda>d. CHR ''h'' # d) (file_os unsigned_env) (one_file ''evil'' ''x'') sample_driver ''evil''
     (fst (fst (snd sample_add)))) = Inr True"
proof -
  let ?r = "remove_block (\<lambda>d. CHR ''h'' # d) (file_os unsigned_env) (one_file ''evil'' ''x'') sample_driver ''evil''
     (fst (fst (snd sample_add)))"
  have eq: "?r = (fst ?r, fst (snd ?r), snd (snd ?r))" by simp
  have c: "connected sample_bridge" by (simp add: sample_bridge_def)
  have n: "dos_to_nt_path sample_driver ''evil'' \<noteq> []"
    by (simp add: dos_to_nt_path_def sample_driver_def)
  have a: "accepts_removals sample_driver" by (simp add: accepts_removals_def sample_driver_def)
  from unblock_after_block[OF _ c unsigned_verdict _ n sample_add_eq sample_names(1) sample_reads(1) a eq]
  show ?thesis using unsigned_not_ms by simp
qed

lemma driver_table_known_witness:
  "''evil'' \<in> set (keys (blocked_paths (fst (fst (snd sample_add)))))"
proof -
  have "connect sample_driver (new_bridge sentinel_port_name) = (Inr True, sample_bridge)"
    by (simp add: connect_def sample_driver_def hresult_def new_bridge_def sample_bridge_def)
  note c = reach_step[OF reach_new step_connect[OF this]]
  have "short (dos_to_nt_path sample_driver ''evil'')"
    by (simp add: short_def dos_to_nt_path_def sample_driver_def sentinel_max_path_def)
  note r = reach_step[OF c step_add[OF sample_add_eq this]]
  have "snd (snd sample_add) = [(\<lparr>cmd_type = msg_add_block, cmd_path = ''evil''\<rparr>, True)]"
    using unsigned_not_ms unsigned_verdict
    by (simp add: sample_add_def add_block_def Let_def send_command_def sample_bridge_def dos_to_nt_path_def
        sample_driver_def hresult_def sentinel_max_path_def startswith_def)
  then have "''evil'' \<in> table_after (snd (snd sample_add)) {}" by simp
  with driver_table_known[OF r] show ?thesis by blast
qed

lemma hash_blocklist_history_witness:
  "fst (is_blocked (\<lambda>d. d) (file_os unsigned_env) (one_file ''a'' []) (replicate 64 (CHR ''a''))
     (hash_run (\<lambda>d. d) (file_os unsigned_env) (one_file ''a'' []) [(True, replicate 64 (CHR ''a''))] []))"
proof -
  have h: "is_sha256_text (replicate 64 (CHR ''a''))"
    "lower (strip (replicate 64 (CHR ''a''))) = replicate 64 (CHR ''a'')"
    by code_simp+
  then have "sha_texts [(True, replicate 64 (CHR ''a''))]" by (simp add: sha_texts_def)
  from hash_blocklist_history[OF this h] show ?thesis by simp
qed

end
