(* ===== verification/Quarantine.thy ===== *)
theory Quarantine
  imports KernelBridge
begin

text \<open>
  \<open>response/quarantine_store.py\<close>: the vault of isolated files and its table of records. Adding copies a
  file into the vault, removes the original and strips the copy's permissions; restoring copies it back
  and marks the record; deleting removes the copy. A record's decision is pending, restored or deleted.
  Whether SQLite accepts a statement, the fresh id, the time and the outcomes of file operations are
  parameters. The table keeps its rows in insertion order; the JSON column is the list of signals itself.
\<close>

section \<open>Records and the table\<close>

definition pending_text :: string where "pending_text = ''pending''"
definition restored_text :: string where "restored_text = ''restored''"
definition deleted_text :: string where "deleted_text = ''deleted''"

record qrecord =
  q_id :: string
  q_subject :: string
  q_original :: string
  q_path :: string
  q_sha :: string
  q_reason :: string
  q_score :: real
  q_time :: string
  q_signals :: "pyval list"
  q_decision :: string
  q_notes :: string
  q_decided :: "real option"

record qstore =
  quarantine_dir :: string
  rows :: "qrecord list"

record qenv =
  q_os :: os
  q_sha_of :: "bytes \<Rightarrow> string"
  db_ok :: bool
  clock_text :: string
  clock :: real

definition new_qstore :: "qenv \<Rightarrow> string \<Rightarrow> fs \<Rightarrow> string + (qstore \<times> fs)" where
  "new_qstore env dir s =
     (case make_dirs (q_os env) dir s of
        Inl e \<Rightarrow> Inl e | Inr s' \<Rightarrow> Inr (\<lparr>quarantine_dir = dir, rows = []\<rparr>, s'))"

section \<open>Adding\<close>

definition sha256_of :: "qenv \<Rightarrow> string \<Rightarrow> fs \<Rightarrow> string" where
  "sha256_of env p s = (case read_bytes (q_os env) p s of Inl e \<Rightarrow> [] | Inr d \<Rightarrow> q_sha_of env d)"

definition exec_bits :: int where "exec_bits = 73"      \<comment> \<open>octal 111\<close>
definition write_bits :: int where "write_bits = 146"   \<comment> \<open>octal 222\<close>

unbundle bit_operations_syntax

definition set_deny_exec :: "os \<Rightarrow> string \<Rightarrow> bool \<Rightarrow> fs \<Rightarrow> fs" where
  \<comment> \<open>the access-control entry against execution, on Windows, by either of the two ways\<close>
  "set_deny_exec os p b s =
     (case find_file os p s of
        None \<Rightarrow> s
      | Some (c, f) \<Rightarrow> if ace_ok os c then put_file c (f\<lparr>deny_exec := b\<rparr>) s else s)"

definition strip_execute :: "os \<Rightarrow> string \<Rightarrow> fs \<Rightarrow> fs" where
  "strip_execute os p s =
     (let s1 = (case chmod os p (\<lambda>m. m AND NOT exec_bits) s of
                  Inl e \<Rightarrow> s
                | Inr s1 \<Rightarrow> (case chmod os p (\<lambda>m. m AND NOT write_bits) s1 of Inl e \<Rightarrow> s1 | Inr s2 \<Rightarrow> s2))
      in set_deny_exec os p True s1)"

definition copy2 :: "os \<Rightarrow> string \<Rightarrow> string \<Rightarrow> fs \<Rightarrow> bool \<times> fs" where
  \<comment> \<open>\<open>shutil.copy2\<close>: contents, then permission bits; whether it succeeded, and the result\<close>
  "copy2 os src dest s =
     (case find_file os src s of
        None \<Rightarrow> (False, s)
      | Some (c, f) \<Rightarrow>
          (case read_bytes os src s of
             Inl e \<Rightarrow> (False, s)
           | Inr d \<Rightarrow>
               (case write_bytes os dest d s of
                  Inl e \<Rightarrow> (False, s)
                | Inr s1 \<Rightarrow>
                    (case chmod os dest (\<lambda>m. mode f) s1 of Inl e \<Rightarrow> (False, s1) | Inr s2 \<Rightarrow> (True, s2)))))"

definition vault_path :: "qenv \<Rightarrow> string \<Rightarrow> string \<Rightarrow> qstore \<Rightarrow> string" where
  "vault_path env entry_id src st =
     path_join (seps (q_os env)) (quarantine_dir st)
       (entry_id @ ''_'' @ path_name (seps (q_os env)) src)"

definition isolate :: "os \<Rightarrow> string \<Rightarrow> string \<Rightarrow> fs \<Rightarrow> bool \<times> fs" where
  \<comment> \<open>copy, remove the original, strip; whether it succeeded, and the file system left behind\<close>
  "isolate os src dest s =
     (case copy2 os src dest s of
        (False, s1) \<Rightarrow> (False, s1)
      | (True, s1) \<Rightarrow>
          (case unlink os src s1 of
             Inl e \<Rightarrow> (False, s1)
           | Inr s2 \<Rightarrow> (True, strip_execute os dest s2)))"

definition discard :: "os \<Rightarrow> string \<Rightarrow> fs \<Rightarrow> string + fs" where
  \<comment> \<open>\<open>if dest.exists(): dest.unlink(missing_ok=True)\<close>\<close>
  "discard os dest s = (if path_exists os dest s then unlink os dest s else Inr s)"

definition add ::
  "qenv \<Rightarrow> string \<Rightarrow> string \<Rightarrow> string \<Rightarrow> string \<Rightarrow> real \<Rightarrow> pyval list \<Rightarrow> qstore \<times> fs
    \<Rightarrow> qrecord option py_result \<times> qstore \<times> fs" where
  "add env entry_id src subj why sc sigs st =
     (case st of (q, s) \<Rightarrow>
        if \<not> is_file (q_os env) src s then (Inr None, q, s)
        else
          let dest = vault_path env entry_id src q; h = sha256_of env src s
          in case isolate (q_os env) src dest s of
               (False, s1) \<Rightarrow>
                 (case discard (q_os env) dest s1 of
                    Inl e \<Rightarrow> (Inl OSError, q, s1) | Inr s2 \<Rightarrow> (Inr None, q, s2))
             | (True, s1) \<Rightarrow>
                 let r = \<lparr>q_id = entry_id, q_subject = subj,
                          q_original = the (resolve (q_os env) src), q_path = dest, q_sha = h,
                          q_reason = why, q_score = sc, q_time = clock_text env, q_signals = sigs,
                          q_decision = pending_text, q_notes = [], q_decided = None\<rparr>
                 in if db_ok env \<and> entry_id \<notin> set (map q_id (rows q))
                    then (Inr (Some r), q\<lparr>rows := rows q @ [r]\<rparr>, s1)
                    else case discard (q_os env) dest s1 of
                           Inl e \<Rightarrow> (Inl OSError, q, s1) | Inr s2 \<Rightarrow> (Inr None, q, s2))"

section \<open>Queries\<close>

definition get :: "string \<Rightarrow> qstore \<Rightarrow> qrecord option" where
  "get i q = find (\<lambda>r. q_id r = i) (rows q)"

fun text_le :: "string \<Rightarrow> string \<Rightarrow> bool" where
  "text_le [] t = True"
| "text_le (a # s) [] = False"
| "text_le (a # s) (b # t) =
     (let x = (of_char a :: nat); y = of_char b in x < y \<or> x = y \<and> text_le s t)"

fun insert_by_time :: "qrecord \<Rightarrow> qrecord list \<Rightarrow> qrecord list" where
  \<comment> \<open>\<open>ORDER BY timestamp DESC\<close>, equal times in the order of the rows\<close>
  "insert_by_time r [] = [r]"
| "insert_by_time r (x # xs) =
     (if text_le (q_time x) (q_time r) then r # x # xs else x # insert_by_time r xs)"

definition list_rows :: "string option \<Rightarrow> qstore \<Rightarrow> qrecord list" where
  "list_rows d q =
     foldr insert_by_time
       (case d of None \<Rightarrow> rows q | Some x \<Rightarrow> filter (\<lambda>r. q_decision r = x) (rows q)) []"

definition list_pending :: "qstore \<Rightarrow> qrecord list" where
  "list_pending q = list_rows (Some pending_text) q"

definition list_all_rows :: "qstore \<Rightarrow> qrecord list" where
  "list_all_rows q = list_rows None q"

definition count :: "string option \<Rightarrow> qstore \<Rightarrow> nat" where
  "count d q =
     (case d of None \<Rightarrow> length (rows q) | Some x \<Rightarrow> length (filter (\<lambda>r. q_decision r = x) (rows q)))"

definition is_restored :: "string \<Rightarrow> qstore \<Rightarrow> bool" where
  "is_restored h q \<longleftrightarrow>
     h \<noteq> [] \<and> (\<exists>r \<in> set (rows q). q_sha r = h \<and> q_decision r = restored_text)"

section \<open>Decisions\<close>

definition decide :: "qenv \<Rightarrow> string \<Rightarrow> string \<Rightarrow> string \<Rightarrow> qstore \<Rightarrow> qstore py_result" where
  "decide env i d notes q =
     (if db_ok env then
        Inr (q\<lparr>rows := map (\<lambda>r. if q_id r = i
               then r\<lparr>q_decision := d, q_notes := notes, q_decided := Some (clock env)\<rparr> else r) (rows q)\<rparr>)
      else Inl DatabaseError)"

definition copy_data :: "os \<Rightarrow> string \<Rightarrow> string \<Rightarrow> fs \<Rightarrow> string + fs" where
  \<comment> \<open>\<open>shutil.copyfile\<close>\<close>
  "copy_data os src dest s =
     (case read_bytes os src s of Inl e \<Rightarrow> Inl e | Inr d \<Rightarrow> write_bytes os dest d s)"

definition unlock :: "os \<Rightarrow> string \<Rightarrow> fs \<Rightarrow> fs" where
  \<comment> \<open>write and execute permission on the restored file; every failure is ignored\<close>
  "unlock os dest s =
     (case chmod os dest (\<lambda>m. m OR 128 OR 64) s of
        Inl e \<Rightarrow> s | Inr s1 \<Rightarrow> set_deny_exec os dest False s1)"

definition unblock_original ::
  "(bytes \<Rightarrow> string) \<Rightarrow> os \<Rightarrow> fs \<Rightarrow> driver_env \<Rightarrow> string \<Rightarrow> bridge option \<Rightarrow> bridge option" where
  "unblock_original sha os s denv p kb =
     (case kb of
        None \<Rightarrow> None
      | Some b \<Rightarrow> if p = [] then Some b else Some (fst (snd (remove_block sha os s denv p b))))"

definition restore ::
  "qenv \<Rightarrow> driver_env \<Rightarrow> string \<Rightarrow> string \<Rightarrow> qstore \<times> fs \<times> bridge option
    \<Rightarrow> string option py_result \<times> qstore \<times> fs \<times> bridge option" where
  "restore env denv i notes st =
     (case st of (q, s, kb) \<Rightarrow>
        case get i q of
          None \<Rightarrow> (Inr None, st)
        | Some r \<Rightarrow>
            if q_decision r = deleted_text then (Inr None, st)
            else if \<not> is_file (q_os env) (q_path r) s then (Inr None, st)
            else
              let kb1 = unblock_original (q_sha_of env) (q_os env) s denv (q_original r) kb;
                  dest = q_original r
              in case make_dirs (q_os env) (parent_of (seps (q_os env)) dest) s of
                   Inl e \<Rightarrow> (Inr None, q, s, kb1)
                 | Inr s1 \<Rightarrow>
                     (case copy_data (q_os env) (q_path r) dest s1 of
                        Inl e \<Rightarrow> (Inr None, q, s1, kb1)
                      | Inr s2 \<Rightarrow>
                          let s3 = unlock (q_os env) dest s2
                          in case decide env i restored_text notes q of
                               Inl x \<Rightarrow> (Inl x, q, s3, kb1)
                             | Inr q1 \<Rightarrow> (Inr (Some dest), q1, s3, kb1)))"

definition delete ::
  "qenv \<Rightarrow> string \<Rightarrow> string \<Rightarrow> qstore \<times> fs \<Rightarrow> bool py_result \<times> qstore \<times> fs" where
  "delete env i notes st =
     (case st of (q, s) \<Rightarrow>
        case get i q of
          None \<Rightarrow> (Inr False, st)
        | Some r \<Rightarrow>
            (case (if path_exists (q_os env) (q_path r) s
                   then (case chmod (q_os env) (q_path r) (\<lambda>m. m OR 128) s of
                           Inl e \<Rightarrow> Inl s
                         | Inr s1 \<Rightarrow>
                             (case unlink (q_os env) (q_path r) s1 of Inl e \<Rightarrow> Inl s1 | Inr s2 \<Rightarrow> Inr s2))
                   else Inr s) of
               Inl s1 \<Rightarrow> (Inr False, q, s1)
             | Inr s1 \<Rightarrow>
                 (case decide env i deleted_text notes q of
                    Inl x \<Rightarrow> (Inl x, q, s1)
                  | Inr q1 \<Rightarrow> (Inr True, q1, s1))))"


section \<open>Effects on contents\<close>

lemma bytes_at_deny [simp]: "bytes_at (set_deny_exec os p b s) = bytes_at s"
  by (auto simp: set_deny_exec_def bytes_at_def put_file_def find_file_def fun_eq_iff split: option.splits)

lemma bytes_at_strip [simp]: "bytes_at (strip_execute os p s) = bytes_at s"
  using chmod_contents by (auto simp: strip_execute_def Let_def split: sum.splits)

lemma copy2_contents:
  assumes "copy2 os src dest s = (ok, s')" and "resolve os src = Some c" and "resolve os dest = Some v"
  shows "bytes_at s' = bytes_at s \<and> \<not> ok \<or> (\<exists>d. bytes_at s c = Some d \<and> bytes_at s' = (bytes_at s)(v \<mapsto> d)
     \<and> read_bytes os src s = Inr d)"
proof -
  have w: "write_bytes os dest d s = Inr s1 \<Longrightarrow> bytes_at s1 = (bytes_at s)(v \<mapsto> d)" for d s1
    using write_bytes_contents[OF _ assms(3)] .
  have r: "read_bytes os src s = Inr d \<Longrightarrow> bytes_at s c = Some d" for d
    using read_bytes_at[OF _ assms(2)] .
  show ?thesis
    using assms(1) w r chmod_contents
    by (auto simp: copy2_def split: option.splits sum.splits)
qed

lemma unlink_exact:
  assumes "unlink os p s = Inr s'" and "resolve os p = Some c" and "\<not> is_link os p"
  shows "bytes_at s' = (bytes_at s)(c := None)"
  using assms by (auto simp: file_defs fun_eq_iff split: option.splits)

lemma isolate_contents:
  assumes i: "isolate os src dest s = (ok, s')" and c: "resolve os src = Some c"
    and v: "resolve os dest = Some v" and l: "\<not> is_link os src" and ne: "v \<noteq> c"
  shows "if ok then \<exists>d. bytes_at s c = Some d \<and> bytes_at s' = (bytes_at s)(v \<mapsto> d, c := None)
             \<and> read_bytes os src s = Inr d
         else \<forall>p. p = v \<or> bytes_at s' p = bytes_at s p"
proof -
  obtain ok1 s1 where cp: "copy2 os src dest s = (ok1, s1)" by fastforce
  note e = copy2_contents[OF cp c v]
  show ?thesis
  proof (cases ok1)
    case False
    with i cp have "\<not> ok" "s' = s1" by (auto simp: isolate_def)
    with e show ?thesis by (auto split: if_splits)
  next
    case True
    with e obtain d where d: "bytes_at s c = Some d" "bytes_at s1 = (bytes_at s)(v \<mapsto> d)"
      "read_bytes os src s = Inr d" by auto
    show ?thesis
    proof (cases "unlink os src s1")
      case (Inl x)
      with i cp True have "\<not> ok" "s' = s1" by (auto simp: isolate_def)
      with d show ?thesis by simp
    next
      case (Inr s2)
      with i cp True have o: "ok" "s' = strip_execute os dest s2" by (auto simp: isolate_def)
      have "bytes_at s2 = (bytes_at s1)(c := None)" by (rule unlink_exact[OF Inr c l])
      with o d show ?thesis by simp
    qed
  qed
qed

lemma discard_contents:
  assumes "discard os dest s = Inr s'" and "resolve os dest = Some v" and "\<not> is_link os dest"
  shows "bytes_at s' = (bytes_at s)(v := None)"
proof (cases "path_exists os dest s")
  case True
  with assms unlink_exact[OF _ assms(2,3)] show ?thesis by (simp add: discard_def)
next
  case False
  with assms show ?thesis by (auto simp: discard_def path_exists_def bytes_at_def fun_eq_iff)
qed

section \<open>What adding does\<close>

definition sane :: "(string \<Rightarrow> string option) \<Rightarrow> (bytes \<Rightarrow> string) \<Rightarrow> qenv \<Rightarrow> bool" where
  \<comment> \<open>one resolution of paths and one digest throughout; resolved paths resolve to themselves\<close>
  "sane R sha env \<longleftrightarrow>
     resolve (q_os env) = R \<and> q_sha_of env = sha \<and> (\<forall>p c. R p = Some c \<longrightarrow> R c = Some c)"

lemma add_cases:
  assumes a: "add env i src subj why sc sigs (q, s) = (r, q', s')" and e: "sane R sha env"
    and c: "R src = Some c" and v: "R (vault_path env i src q) = Some v"
    and l: "\<not> is_link (q_os env) src" "\<not> is_link (q_os env) (vault_path env i src q)" and ne: "v \<noteq> c"
  obtains (added) d rec where "r = Inr (Some rec)" "q' = q\<lparr>rows := rows q @ [rec]\<rparr>"
      "bytes_at s c = Some d" "bytes_at s' = (bytes_at s)(v \<mapsto> d, c := None)"
      "q_sha rec = sha d" "q_path rec = vault_path env i src q" "q_original rec = c" "q_id rec = i"
      "q_decision rec = pending_text" "i \<notin> set (map q_id (rows q))" "db_ok env"
  | (not_added) "q' = q" "\<forall>p. p = v \<or> bytes_at s' p = bytes_at s p" "\<forall>rec. r \<noteq> Inr (Some rec)"
  | (db_failed) "q' = q" "\<not> (db_ok env \<and> i \<notin> set (map q_id (rows q)))" "\<forall>rec. r \<noteq> Inr (Some rec)"
      "\<forall>p. p = v \<or> p = c \<or> bytes_at s' p = bytes_at s p"
      "bytes_at s' c = None"
proof -
  let ?os = "q_os env" and ?dest = "vault_path env i src q"
  have rs: "resolve ?os src = Some c" "resolve ?os ?dest = Some v" "q_sha_of env = sha"
    using e c v by (auto simp: sane_def)
  show thesis
  proof (cases "is_file ?os src s")
    case False
    with a have "q' = q" "s' = s" "r = Inr None" by (auto simp: add_def)
    then show thesis by (intro not_added) auto
  next
    case True
    obtain ok s1 where iso: "isolate ?os src ?dest s = (ok, s1)" by fastforce
    note ic = isolate_contents[OF iso rs(1,2) l(1) ne]
    have disc: "discard ?os ?dest s1 = Inr s2 \<Longrightarrow> bytes_at s2 = (bytes_at s1)(v := None)" for s2
      by (rule discard_contents[OF _ rs(2) l(2)])
    show thesis
    proof (cases ok)
      case False
      have "q' = q \<and> (\<forall>rec. r \<noteq> Inr (Some rec)) \<and> (\<forall>p. p = v \<or> bytes_at s' p = bytes_at s p)"
        using a True iso False ic disc
        by (cases "discard ?os ?dest s1") (auto simp: add_def Let_def)
      then show thesis by (intro not_added) auto
    next
      case ok: True
      with ic obtain d where d: "bytes_at s c = Some d" "bytes_at s1 = (bytes_at s)(v \<mapsto> d, c := None)"
        "read_bytes ?os src s = Inr d" by auto
      show thesis
      proof (cases "db_ok env \<and> i \<notin> set (map q_id (rows q))")
        case db: True
        define rec where "rec = \<lparr>q_id = i, q_subject = subj, q_original = c, q_path = ?dest, q_sha = sha d,
            q_reason = why, q_score = sc, q_time = clock_text env, q_signals = sigs,
            q_decision = pending_text, q_notes = [], q_decided = None\<rparr>"
        have "r = Inr (Some rec) \<and> q' = q\<lparr>rows := rows q @ [rec]\<rparr> \<and> s' = s1"
          using a True iso ok db rs d(3)
          by (auto simp: add_def Let_def rec_def sha256_of_def simp del: set_map)
        then show thesis
          using d db by (intro added[of rec d]) (auto simp: rec_def)
      next
        case db: False
        have "q' = q \<and> (\<forall>rec. r \<noteq> Inr (Some rec)) \<and>
            (\<forall>p. p = v \<or> p = c \<or> bytes_at s' p = bytes_at s p) \<and> bytes_at s' c = None"
          using a True iso ok db d(2) disc ne
          by (cases "discard ?os ?dest s1") (auto simp: add_def Let_def simp del: set_map)
        then show thesis using db by (intro db_failed) auto
      qed
    qed
  qed
qed

section \<open>The vault over time\<close>

definition vault_of :: "(string \<Rightarrow> string option) \<Rightarrow> qstore \<Rightarrow> string set" where
  "vault_of R q = {v. \<exists>p \<in> set (map q_path (rows q)). R p = Some v}"

definition vault_ok ::
  "(string \<Rightarrow> string option) \<Rightarrow> (bytes \<Rightarrow> string) \<Rightarrow> qstore \<times> fs \<Rightarrow> bool" where
  "vault_ok R sha st \<longleftrightarrow> (case st of (q, s) \<Rightarrow>
     distinct (map q_id (rows q)) \<and>
     (\<forall>r \<in> set (rows q). \<exists>v. R (q_path r) = Some v \<and> R (q_original r) = Some (q_original r) \<and>
        q_original r \<notin> vault_of R q \<and>
        (\<forall>r2 \<in> set (rows q). R (q_path r2) = Some v \<longrightarrow> q_id r2 = q_id r) \<and>
        (q_decision r \<noteq> deleted_text \<longrightarrow> (\<exists>d. bytes_at s v = Some d \<and> sha d = q_sha r))))"

text \<open>
  The steps of a vault: its operations, under any outcomes of file operations and of the database, and
  anything other programs do outside the vault. A deletion is taken to be recorded by the database.
\<close>

inductive vault_step ::
  "(string \<Rightarrow> string option) \<Rightarrow> (bytes \<Rightarrow> string) \<Rightarrow> qstore \<times> fs \<Rightarrow> qstore \<times> fs \<Rightarrow> bool"
  for R :: "string \<Rightarrow> string option" and sha :: "bytes \<Rightarrow> string" where
  v_add: "add env i src subj why sc sigs (q, s) = (r, q', s') \<Longrightarrow> sane R sha env \<Longrightarrow>
     R src = Some c \<Longrightarrow> c \<notin> vault_of R q \<Longrightarrow> R (vault_path env i src q) = Some v \<Longrightarrow>
     v \<notin> vault_of R q \<Longrightarrow> v \<notin> q_original ` set (rows q) \<Longrightarrow> v \<noteq> c \<Longrightarrow>
     \<not> is_link (q_os env) src \<Longrightarrow> \<not> is_link (q_os env) (vault_path env i src q) \<Longrightarrow>
     vault_step R sha (q, s) (q', s')"
| v_restore: "restore env denv i notes (q, s, kb) = (r, q', s', kb') \<Longrightarrow> sane R sha env \<Longrightarrow>
     vault_step R sha (q, s) (q', s')"
| v_delete: "delete env i notes (q, s) = (r, q', s') \<Longrightarrow> sane R sha env \<Longrightarrow> db_ok env \<Longrightarrow>
     (\<And>p. \<not> is_link (q_os env) p) \<Longrightarrow> vault_step R sha (q, s) (q', s')"
| v_other: "(\<And>v. v \<in> vault_of R q \<Longrightarrow> bytes_at s' v = bytes_at s v) \<Longrightarrow>
     vault_step R sha (q, s) (q, s')"

inductive_cases vault_stepE: "vault_step R sha st st'"

inductive vault_reach ::
  "(string \<Rightarrow> string option) \<Rightarrow> (bytes \<Rightarrow> string) \<Rightarrow> qstore \<times> fs \<Rightarrow> bool"
  for R :: "string \<Rightarrow> string option" and sha :: "bytes \<Rightarrow> string" where
  vault_new: "new_qstore env dir s0 = Inr (q, s) \<Longrightarrow> vault_reach R sha (q, s)"
| vault_more: "vault_reach R sha st \<Longrightarrow> vault_step R sha st st' \<Longrightarrow> vault_reach R sha st'"

lemma get_mem: "get i q = Some r \<Longrightarrow> r \<in> set (rows q) \<and> q_id r = i"
  by (auto simp: get_def find_Some_iff)

lemma get_unique: "distinct (map q_id (rows q)) \<Longrightarrow> r \<in> set (rows q) \<Longrightarrow> get (q_id r) q = Some r"
proof -
  have "distinct (map q_id xs) \<Longrightarrow> r \<in> set xs \<Longrightarrow> find (\<lambda>x. q_id x = q_id r) xs = Some r" for xs
    by (induction xs) (auto simp: image_iff)
  then show "distinct (map q_id (rows q)) \<Longrightarrow> r \<in> set (rows q) \<Longrightarrow> get (q_id r) q = Some r"
    by (simp add: get_def)
qed

lemma decide_rows:
  assumes "decide env i d notes q = Inr q'"
  shows "rows q' = map (\<lambda>r. if q_id r = i
      then r\<lparr>q_decision := d, q_notes := notes, q_decided := Some (clock env)\<rparr> else r) (rows q)"
    "map q_id (rows q') = map q_id (rows q)" "map q_path (rows q') = map q_path (rows q)"
    "map q_original (rows q') = map q_original (rows q)" "map q_sha (rows q') = map q_sha (rows q)"
  using assms by (auto simp: decide_def split: if_splits)

lemma vault_of_decide:
  assumes "decide env i d notes q = Inr q'"
  shows "vault_of R q' = vault_of R q"
  unfolding vault_of_def decide_rows(3)[OF assms] ..

lemma vault_of_mem: "r \<in> set (rows q) \<Longrightarrow> R (q_path r) = Some v \<Longrightarrow> v \<in> vault_of R q"
  by (auto simp: vault_of_def)

lemma vault_ok_row:
  assumes "vault_ok R sha (q, s)" and "r \<in> set (rows q)"
  obtains v where "R (q_path r) = Some v" "R (q_original r) = Some (q_original r)"
    "q_original r \<notin> vault_of R q" "v \<in> vault_of R q"
    "\<And>r2. r2 \<in> set (rows q) \<Longrightarrow> R (q_path r2) = Some v \<Longrightarrow> q_id r2 = q_id r"
    "q_decision r \<noteq> deleted_text \<Longrightarrow> \<exists>d. bytes_at s v = Some d \<and> sha d = q_sha r"
proof -
  from assms obtain v where v: "R (q_path r) = Some v \<and> R (q_original r) = Some (q_original r) \<and>
        q_original r \<notin> vault_of R q \<and>
        (\<forall>r2 \<in> set (rows q). R (q_path r2) = Some v \<longrightarrow> q_id r2 = q_id r) \<and>
        (q_decision r \<noteq> deleted_text \<longrightarrow> (\<exists>d. bytes_at s v = Some d \<and> sha d = q_sha r))"
    unfolding vault_ok_def prod.case by meson
  then have "v \<in> vault_of R q" using vault_of_mem[OF assms(2)] by simp
  with v show thesis by (intro that[of v]) simp_all
qed

lemma vault_okI:
  assumes "distinct (map q_id (rows q))"
    and "\<And>r. r \<in> set (rows q) \<Longrightarrow> \<exists>v. R (q_path r) = Some v \<and> R (q_original r) = Some (q_original r) \<and>
        q_original r \<notin> vault_of R q \<and>
        (\<forall>r2 \<in> set (rows q). R (q_path r2) = Some v \<longrightarrow> q_id r2 = q_id r) \<and>
        (q_decision r \<noteq> deleted_text \<longrightarrow> (\<exists>d. bytes_at s v = Some d \<and> sha d = q_sha r))"
  shows "vault_ok R sha (q, s)"
  unfolding vault_ok_def prod.case using assms by simp

lemma vault_ok_frame:
  assumes ok: "vault_ok R sha (q, s)" and f: "\<And>v. v \<in> vault_of R q \<Longrightarrow> bytes_at s' v = bytes_at s v"
  shows "vault_ok R sha (q, s')"
proof (rule vault_okI)
  show "distinct (map q_id (rows q))" using ok by (simp add: vault_ok_def)
  fix r assume "r \<in> set (rows q)"
  from ok this obtain v where v: "R (q_path r) = Some v" "R (q_original r) = Some (q_original r)"
    "q_original r \<notin> vault_of R q" "v \<in> vault_of R q"
    "\<And>r2. r2 \<in> set (rows q) \<Longrightarrow> R (q_path r2) = Some v \<Longrightarrow> q_id r2 = q_id r"
    "q_decision r \<noteq> deleted_text \<Longrightarrow> \<exists>d. bytes_at s v = Some d \<and> sha d = q_sha r"
    by (rule vault_ok_row) blast
  with f[OF v(4)] show "\<exists>v. R (q_path r) = Some v \<and> R (q_original r) = Some (q_original r) \<and>
        q_original r \<notin> vault_of R q \<and>
        (\<forall>r2 \<in> set (rows q). R (q_path r2) = Some v \<longrightarrow> q_id r2 = q_id r) \<and>
        (q_decision r \<noteq> deleted_text \<longrightarrow> (\<exists>d. bytes_at s' v = Some d \<and> sha d = q_sha r))"
    by (intro exI[of _ v]) simp
qed

lemma vault_ok_decide:
  assumes ok: "vault_ok R sha (q, s)" and d: "decide env i d notes q = Inr q'"
    and del: "\<And>r v. r \<in> set (rows q) \<Longrightarrow> R (q_path r) = Some v \<Longrightarrow> q_id r \<noteq> i \<or> d \<noteq> deleted_text \<Longrightarrow>
        (q_id r = i \<Longrightarrow> q_decision r \<noteq> deleted_text) \<Longrightarrow> bytes_at s' v = bytes_at s v"
    and nd: "\<And>r. r \<in> set (rows q) \<Longrightarrow> q_id r = i \<Longrightarrow> d \<noteq> deleted_text \<Longrightarrow> q_decision r \<noteq> deleted_text"
  shows "vault_ok R sha (q', s')"
proof -
  note rw = decide_rows[OF d] and vo = vault_of_decide[OF d, of R]
  have "\<exists>v. R (q_path r') = Some v \<and> R (q_original r') = Some (q_original r') \<and>
        q_original r' \<notin> vault_of R q' \<and>
        (\<forall>r2 \<in> set (rows q'). R (q_path r2) = Some v \<longrightarrow> q_id r2 = q_id r') \<and>
        (q_decision r' \<noteq> deleted_text \<longrightarrow> (\<exists>d. bytes_at s' v = Some d \<and> sha d = q_sha r'))"
    if r': "r' \<in> set (rows q')" for r'
  proof -
    from r' obtain r where r: "r \<in> set (rows q)" and e: "r' = (if q_id r = i
      then r\<lparr>q_decision := d, q_notes := notes, q_decided := Some (clock env)\<rparr> else r)"
      by (auto simp: rw(1))
    have same: "q_path r' = q_path r" "q_original r' = q_original r" "q_id r' = q_id r" "q_sha r' = q_sha r"
      by (simp_all add: e)
    from ok r obtain v where v: "R (q_path r) = Some v" "R (q_original r) = Some (q_original r)"
      "q_original r \<notin> vault_of R q"
      "\<And>r2. r2 \<in> set (rows q) \<Longrightarrow> R (q_path r2) = Some v \<Longrightarrow> q_id r2 = q_id r"
      "q_decision r \<noteq> deleted_text \<Longrightarrow> \<exists>d. bytes_at s v = Some d \<and> sha d = q_sha r"
      by (rule vault_ok_row) blast
    have u: "\<forall>r2 \<in> set (rows q'). R (q_path r2) = Some v \<longrightarrow> q_id r2 = q_id r"
      using v(4) by (auto simp: rw(1))
    have "\<exists>d. bytes_at s' v = Some d \<and> sha d = q_sha r" if n: "q_decision r' \<noteq> deleted_text"
    proof (cases "q_id r = i")
      case True
      with n e have d1: "d \<noteq> deleted_text" by simp
      with nd r True have d2: "q_decision r \<noteq> deleted_text" by blast
      with del[OF r v(1)] True d1 have "bytes_at s' v = bytes_at s v" by blast
      with v(5) d2 show ?thesis by simp
    next
      case False
      with n e have "q_decision r \<noteq> deleted_text" by simp
      with del[OF r v(1)] False v(5) show ?thesis by simp
    qed
    with v u show ?thesis by (intro exI[of _ v]) (simp add: same vo)
  qed
  moreover have "distinct (map q_id (rows q'))" using ok rw(2) by (simp add: vault_ok_def)
  ultimately show ?thesis by (intro vault_okI)
qed

lemma vault_of_add: "rows q' = rows q @ [rec] \<Longrightarrow> R (q_path rec) = Some v \<Longrightarrow>
    vault_of R q' = insert v (vault_of R q)"
  by (auto simp: vault_of_def)

lemma vault_ok_add:
  assumes a: "add env i src subj why sc sigs (q, s) = (r, q', s')" and e: "sane R sha env"
    and c: "R src = Some c" "c \<notin> vault_of R q" and v: "R (vault_path env i src q) = Some v"
    "v \<notin> vault_of R q" "v \<notin> q_original ` set (rows q)" "v \<noteq> c"
    and l: "\<not> is_link (q_os env) src" "\<not> is_link (q_os env) (vault_path env i src q)"
    and ok: "vault_ok R sha (q, s)"
  shows "vault_ok R sha (q', s')"
  using a e c(1) v(1) l v(4)
proof (cases rule: add_cases)
  case not_added
  have "bytes_at s' w = bytes_at s w" if "w \<in> vault_of R q" for w using not_added(2) v(2) that by metis
  with ok not_added(1) show ?thesis by (simp add: vault_ok_frame)
next
  case db_failed
  have "bytes_at s' w = bytes_at s w" if "w \<in> vault_of R q" for w
    using db_failed(4) v(2) c(2) that by metis
  with ok db_failed(1) show ?thesis by (simp add: vault_ok_frame)
next
  case (added d rec)
  have rq: "rows q' = rows q @ [rec]" using added(2) by simp
  have rp: "R (q_path rec) = Some v" using added(6) v(1) by simp
  note vo = vault_of_add[where R = R, OF rq rp]
  have keep: "bytes_at s' w = bytes_at s w" if "w \<in> vault_of R q" for w
    using added(4) that v(2) c(2) by auto
  show ?thesis
  proof (rule vault_okI)
    show "distinct (map q_id (rows q'))"
      using ok added(8,10) by (simp add: rq vault_ok_def)
    fix x assume "x \<in> set (rows q')"
    then consider (old) "x \<in> set (rows q)" | (new) "x = rec" by (auto simp: rq)
    then show "\<exists>w. R (q_path x) = Some w \<and> R (q_original x) = Some (q_original x) \<and>
        q_original x \<notin> vault_of R q' \<and>
        (\<forall>r2 \<in> set (rows q'). R (q_path r2) = Some w \<longrightarrow> q_id r2 = q_id x) \<and>
        (q_decision x \<noteq> deleted_text \<longrightarrow> (\<exists>d. bytes_at s' w = Some d \<and> sha d = q_sha x))"
    proof cases
      case old
      with ok obtain w where w: "R (q_path x) = Some w" "R (q_original x) = Some (q_original x)"
        "q_original x \<notin> vault_of R q" "w \<in> vault_of R q"
        "\<And>r2. r2 \<in> set (rows q) \<Longrightarrow> R (q_path r2) = Some w \<Longrightarrow> q_id r2 = q_id x"
        "q_decision x \<noteq> deleted_text \<Longrightarrow> \<exists>d. bytes_at s w = Some d \<and> sha d = q_sha x"
        by (rule vault_ok_row) blast
      have "q_original x \<notin> vault_of R q'" using w(3) v(3) old by (auto simp: vo)
      moreover have "\<forall>r2 \<in> set (rows q'). R (q_path r2) = Some w \<longrightarrow> q_id r2 = q_id x"
        using w(4,5) v(2) rp by (auto simp: rq)
      ultimately show ?thesis using w keep[OF w(4)] by (intro exI[of _ w]) simp
    next
      case new
      have "R c = Some c" using e c(1) by (auto simp: sane_def)
      moreover have "\<forall>r2 \<in> set (rows q'). R (q_path r2) = Some v \<longrightarrow> q_id r2 = q_id rec"
        using v(2) vault_of_mem[of _ q R v] by (auto simp: rq)
      moreover have "bytes_at s' v = Some d" using added(4) v(4) by simp
      ultimately show ?thesis
        using new rp added(5,7) c(2) v(4) by (intro exI[of _ v]) (simp add: vo)
    qed
  qed
qed

lemma copy_data_contents:
  assumes "copy_data os src dest s = Inr s'" and "resolve os src = Some v" and "resolve os dest = Some c"
  shows "\<exists>d. bytes_at s v = Some d \<and> bytes_at s' = (bytes_at s)(c \<mapsto> d)"
  using assms read_bytes_at[OF _ assms(2)] write_bytes_contents[OF _ assms(3)]
  by (auto simp: copy_data_def split: sum.splits)

lemma bytes_at_unlock [simp]: "bytes_at (unlock os p s) = bytes_at s"
  using chmod_contents by (auto simp: unlock_def split: sum.splits)

lemma restore_cases:
  assumes a: "restore env denv i notes (q, s, kb) = (r, q', s', kb')" and e: "sane R sha env"
    and ok: "vault_ok R sha (q, s)"
  obtains (refused) "q' = q" "s' = s" "r = Inr None"
  | (tried) rec where "get i q = Some rec" "q_decision rec \<noteq> deleted_text" "q' = q"
      "\<forall>p. p = q_original rec \<or> bytes_at s' p = bytes_at s p"
      "r = Inr None \<or> \<not> db_ok env"
  | (restored) rec v d where "get i q = Some rec" "q_decision rec \<noteq> deleted_text"
      "R (q_path rec) = Some v" "bytes_at s v = Some d"
      "bytes_at s' = (bytes_at s)(q_original rec \<mapsto> d)" "r = Inr (Some (q_original rec))"
      "decide env i restored_text notes q = Inr q'"
proof -
  let ?os = "q_os env"
  show thesis
  proof (cases "\<exists>rec. get i q = Some rec \<and> q_decision rec \<noteq> deleted_text \<and> is_file ?os (q_path rec) s")
    case False
    then have "q' = q \<and> s' = s \<and> r = Inr None"
      using a by (auto simp: restore_def split: option.splits if_splits)
    then show thesis using refused by blast
  next
    case True
    then obtain rec where g: "get i q = Some rec" "q_decision rec \<noteq> deleted_text" "is_file ?os (q_path rec) s"
      by blast
    from ok get_mem[OF g(1)] obtain v where v: "R (q_path rec) = Some v"
      "R (q_original rec) = Some (q_original rec)"
      by (metis vault_ok_row)
    have rs: "resolve ?os (q_path rec) = Some v" "resolve ?os (q_original rec) = Some (q_original rec)"
      using v e by (simp_all add: sane_def)
    show thesis
    proof (cases "make_dirs ?os (parent_of (seps ?os) (q_original rec)) s")
      case (Inl x)
      with a g have "q' = q" "s' = s" "r = Inr None" by (simp_all add: restore_def Let_def)
      then show thesis by (rule refused)
    next
      case s1: (Inr s1)
      have b1: "bytes_at s1 = bytes_at s" by (rule make_dirs_contents[OF s1])
      show thesis
      proof (cases "copy_data ?os (q_path rec) (q_original rec) s1")
        case (Inl x)
        with a g s1 have "q' = q" "s' = s1" "r = Inr None" by (simp_all add: restore_def Let_def)
        with g b1 show thesis by (intro tried[of rec]) simp_all
      next
        case s2: (Inr s2)
        from copy_data_contents[OF s2 rs] b1 obtain d where d: "bytes_at s v = Some d"
          "bytes_at s2 = (bytes_at s)(q_original rec \<mapsto> d)" by auto
        show thesis
        proof (cases "decide env i restored_text notes q")
          case (Inl x)
          with a g s1 s2 have "q' = q" "s' = unlock ?os (q_original rec) s2"
            by (simp_all add: restore_def Let_def)
          moreover have "\<not> db_ok env" using Inl by (simp add: decide_def split: if_splits)
          ultimately show thesis using g d by (intro tried[of rec]) simp_all
        next
          case (Inr q1)
          with a g s1 s2 have "q' = q1" "s' = unlock ?os (q_original rec) s2"
            "r = Inr (Some (q_original rec))"
            by (simp_all add: restore_def Let_def)
          with g v d Inr show thesis by (intro restored[of rec v d]) simp_all
        qed
      qed
    qed
  qed
qed

lemma vault_ok_restore:
  assumes a: "restore env denv i notes (q, s, kb) = (r, q', s', kb')" and e: "sane R sha env"
    and ok: "vault_ok R sha (q, s)"
  shows "vault_ok R sha (q', s')"
  using a e ok
proof (cases rule: restore_cases)
  case refused
  with ok show ?thesis by simp
next
  case (tried rec)
  from ok get_mem[OF tried(1)] have "q_original rec \<notin> vault_of R q" by (metis vault_ok_row)
  then have "bytes_at s' w = bytes_at s w" if "w \<in> vault_of R q" for w using tried(4) that by metis
  with ok tried(3) show ?thesis by (simp add: vault_ok_frame)
next
  case (restored rec v d)
  have m: "rec \<in> set (rows q)" "q_id rec = i" using get_mem[OF restored(1)] by simp_all
  from ok m(1) have o: "q_original rec \<notin> vault_of R q" by (metis vault_ok_row)
  have keep: "bytes_at s' w = bytes_at s w" if "w \<in> vault_of R q" for w
    using restored(5) o that by auto
  show ?thesis
  proof (rule vault_ok_decide[OF ok restored(7)])
    fix x w assume "x \<in> set (rows q)" "R (q_path x) = Some w"
    then show "bytes_at s' w = bytes_at s w" using keep vault_of_mem by blast
  next
    fix x assume x: "x \<in> set (rows q)" "q_id x = i"
    have "distinct (map q_id (rows q))" using ok by (simp add: vault_ok_def)
    from get_unique[OF this x(1)] x(2) restored(1) have "x = rec" by simp
    with restored(2) show "q_decision x \<noteq> deleted_text" by simp
  qed
qed

lemma vault_ok_delete:
  assumes a: "delete env i notes (q, s) = (r, q', s')" and e: "sane R sha env" and db: "db_ok env"
    and l: "\<And>p. \<not> is_link (q_os env) p" and ok: "vault_ok R sha (q, s)"
  shows "vault_ok R sha (q', s')"
proof (cases "get i q")
  case None
  with a ok show ?thesis by (simp add: delete_def)
next
  case (Some rec)
  let ?os = "q_os env"
  have m: "rec \<in> set (rows q)" "q_id rec = i" using get_mem[OF Some] by simp_all
  from ok m(1) obtain v where v: "R (q_path rec) = Some v"
    "\<And>r2. r2 \<in> set (rows q) \<Longrightarrow> R (q_path r2) = Some v \<Longrightarrow> q_id r2 = q_id rec"
    by (metis vault_ok_row)
  have rs: "resolve ?os (q_path rec) = Some v" using v e by (simp add: sane_def)
  define fsres where "fsres = (if path_exists ?os (q_path rec) s
                   then (case chmod ?os (q_path rec) (\<lambda>m. m OR 128) s of
                           Inl e \<Rightarrow> Inl s
                         | Inr s1 \<Rightarrow>
                             (case unlink ?os (q_path rec) s1 of Inl e \<Rightarrow> Inl s1 | Inr s2 \<Rightarrow> Inr s2))
                   else Inr s)"
  have fr: "case fsres of Inl s1 \<Rightarrow> bytes_at s1 = bytes_at s
      | Inr s1 \<Rightarrow> \<forall>p. p = v \<or> bytes_at s1 p = bytes_at s p"
    using chmod_contents unlink_exact[OF _ rs l]
    by (auto simp: fsres_def split: sum.splits)
  have a': "(case fsres of Inl s1 \<Rightarrow> (Inr False, q, s1)
             | Inr s1 \<Rightarrow>
                 (case decide env i deleted_text notes q of
                    Inl x \<Rightarrow> (Inl x, q, s1) | Inr q1 \<Rightarrow> (Inr True, q1, s1))) = (r, q', s')"
    using a Some by (simp add: delete_def fsres_def)
  show ?thesis
  proof (cases fsres)
    case (Inl s1)
    with a' have "q' = q" "s' = s1" by simp_all
    with ok fr Inl show ?thesis by (auto intro: vault_ok_frame)
  next
    case (Inr s1)
    obtain q1 where q1: "decide env i deleted_text notes q = Inr q1" using db by (simp add: decide_def)
    with a' Inr have r: "q' = q1" "s' = s1" by simp_all
    show ?thesis unfolding r
    proof (rule vault_ok_decide[OF ok q1])
      fix x w assume x: "x \<in> set (rows q)" "R (q_path x) = Some w" "q_id x \<noteq> i \<or> deleted_text \<noteq> deleted_text"
      then have "w \<noteq> v" using v(2) m(2) by auto
      with fr Inr show "bytes_at s1 w = bytes_at s w" by auto
    qed simp
  qed
qed

lemma vault_ok_reach: "vault_reach R sha st \<Longrightarrow> vault_ok R sha st"
proof (induction rule: vault_reach.induct)
  case (vault_new env dir s0 q s)
  then show ?case by (auto simp: new_qstore_def vault_ok_def split: sum.splits)
next
  case (vault_more st st')
  from vault_more.hyps(2) vault_more.IH show ?case
  proof (cases rule: vault_step.cases)
    case v_add
    with vault_more.IH show ?thesis using vault_ok_add by blast
  next
    case v_restore
    with vault_more.IH show ?thesis using vault_ok_restore by blast
  next
    case v_delete
    with vault_more.IH show ?thesis using vault_ok_delete by blast
  next
    case v_other
    with vault_more.IH show ?thesis using vault_ok_frame by blast
  qed
qed

section \<open>Permissions\<close>

lemma strip_execute_effect:
  assumes "resolve os p = Some v" and "files s v = Some f" and "chmod_err os v = None"
  shows "\<exists>g. files (strip_execute os p s) v = Some g \<and> mode g AND exec_bits = 0 \<and> mode g AND write_bits = 0
    \<and> (ace_ok os v \<longrightarrow> deny_exec g) \<and> content g = content f"
proof -
  have bits: "((m AND NOT exec_bits) AND NOT write_bits) AND exec_bits = 0"
    "((m AND NOT exec_bits) AND NOT write_bits) AND write_bits = 0" for m :: int
    by (auto simp: bit_eq_iff bit_simps)
  obtain s1 where s1: "chmod os p (\<lambda>m. m AND NOT exec_bits) s = Inr s1"
    "files s1 v = Some (f\<lparr>mode := mode f AND NOT exec_bits\<rparr>)"
    using assms by (simp add: chmod_def find_file_def put_file_def)
  obtain s2 where s2: "chmod os p (\<lambda>m. m AND NOT write_bits) s1 = Inr s2"
    "files s2 v = Some (f\<lparr>mode := (mode f AND NOT exec_bits) AND NOT write_bits\<rparr>)"
    using assms s1(2) by (simp add: chmod_def find_file_def put_file_def)
  have e: "strip_execute os p s = set_deny_exec os p True s2"
    by (simp add: strip_execute_def s1(1) s2(1))
  show ?thesis
    unfolding e using assms(1) s2(2) bits[of "mode f"]
    by (auto simp: set_deny_exec_def find_file_def put_file_def)
qed

section \<open>Properties\<close>


text \<open>C10: restoring a record that was not deleted, after any history, when the file operations and the database
  work, puts bytes with the recorded digest at the original path, keeps the isolated copy, marks the
  record restored and makes its digest known as restored.\<close>
theorem restore_gives_back:
  assumes "vault_reach R sha (q, s)" and "sane R sha env" and "get i q = Some rec"
    and "q_decision rec \<noteq> deleted_text" and "db_ok env" and "q_sha rec \<noteq> []"
    and "\<forall>c. read_err (q_os env) c = None" and "\<forall>c a. write_err (q_os env) c a = None"
    and "\<forall>c. mkdir_err (q_os env) c = None" and "\<forall>p. R p \<noteq> None"
  shows "\<exists>q' s' kb' d v. restore env denv i notes (q, s, kb) = (Inr (Some (q_original rec)), q', s', kb')
    \<and> bytes_at s' (q_original rec) = Some d \<and> sha d = q_sha rec
    \<and> R (q_path rec) = Some v \<and> bytes_at s' v = Some d \<and> is_restored (q_sha rec) q'"
proof -
  let ?os = "q_os env"
  have ok: "vault_ok R sha (q, s)" by (rule vault_ok_reach[OF assms(1)])
  have m: "rec \<in> set (rows q)" "q_id rec = i" using get_mem[OF assms(3)] by simp_all
  from ok m(1) obtain v where v: "R (q_path rec) = Some v" "R (q_original rec) = Some (q_original rec)"
    "q_original rec \<notin> vault_of R q" "v \<in> vault_of R q"
    "\<exists>d. bytes_at s v = Some d \<and> sha d = q_sha rec"
    by (rule vault_ok_row) (use assms(4) in blast)
  then obtain d where d: "bytes_at s v = Some d" "sha d = q_sha rec" by blast
  have rs: "resolve ?os = R" using assms(2) by (simp add: sane_def)
  obtain f where f: "files s v = Some f" "content f = d" using d by (auto simp: bytes_at_def)
  have isf: "is_file ?os (q_path rec) s" using f v by (simp add: is_file_def find_file_def rs)
  obtain c0 where c0: "R (parent_of (seps ?os) (q_original rec)) = Some c0" using assms(10) by blast
  let ?s1 = "s\<lparr>dirs := insert c0 (dirs s)\<rparr>"
  have s1: "make_dirs ?os (parent_of (seps ?os) (q_original rec)) s = Inr ?s1"
    using assms(9) by (simp add: make_dirs_def rs c0)
  have rd: "read_bytes ?os (q_path rec) ?s1 = Inr d"
    using f v assms(7) by (simp add: read_bytes_def find_file_def rs)
  obtain s2 where s2: "copy_data ?os (q_path rec) (q_original rec) ?s1 = Inr s2"
    using rd assms(8) v(2) by (simp add: copy_data_def write_bytes_def rs Let_def)
  have b2: "bytes_at s2 = (bytes_at s)(q_original rec \<mapsto> d)"
    using copy_data_contents[OF s2, of v "q_original rec"] v make_dirs_contents[OF s1] d
    by (auto simp: rs)
  obtain q' where q': "decide env i restored_text notes q = Inr q'" using assms(5) by (simp add: decide_def)
  have e: "restore env denv i notes (q, s, kb) = (Inr (Some (q_original rec)), q', unlock ?os (q_original rec) s2,
      unblock_original (q_sha_of env) ?os s denv (q_original rec) kb)"
    using assms(3,4) isf s1 s2 q' by (simp add: restore_def Let_def)
  have "is_restored (q_sha rec) q'"
    using m assms(6) decide_rows(1)[OF q'] unfolding is_restored_def
    by (intro conjI bexI[of _ "rec\<lparr>q_decision := restored_text, q_notes := notes, q_decided := Some (clock env)\<rparr>"])
       (auto intro!: image_eqI[of _ _ rec])
  then show ?thesis
    using e b2 d v by (intro exI[of _ q'] exI[of _ "unlock ?os (q_original rec) s2"]
        exI[of _ "unblock_original (q_sha_of env) ?os s denv (q_original rec) kb"] exI[of _ d] exI[of _ v])
      auto
qed

text \<open>An addition that gives a record has moved exactly the file: its bytes are in the vault and nowhere at
  the original place, no other file has changed, and the record names the resolved original path and
  the digest of the bytes. An addition that gives no record, when the database would have accepted it,
  leaves every file outside the vault path as it was.\<close>
lemma quarantine_moves_file:
  assumes "sane R sha env" and "R src = Some c" and "R (vault_path env i src q) = Some v" and "v \<noteq> c"
    and "\<not> is_link (q_os env) src" and "\<not> is_link (q_os env) (vault_path env i src q)"
    and "add env i src subj why sc sigs (q, s) = (r, q', s')"
  shows "case r of
      Inr (Some rec) \<Rightarrow> \<exists>d. bytes_at s c = Some d \<and> bytes_at s' = (bytes_at s)(v \<mapsto> d, c := None)
        \<and> q_original rec = c \<and> q_sha rec = sha d \<and> q_decision rec = pending_text
        \<and> rows q' = rows q @ [rec]
    | r' \<Rightarrow> q' = q \<and> ((\<forall>p. p = v \<or> bytes_at s' p = bytes_at s p)
        \<or> \<not> (db_ok env \<and> i \<notin> set (map q_id (rows q))))"
  using assms(7,1,2,3,5,6,4)
proof (cases rule: add_cases)
  case (added d rec)
  then show ?thesis by simp
next
  case not_added
  then show ?thesis by (auto split: sum.split option.split)
next
  case db_failed
  then show ?thesis by (auto simp del: set_map split: sum.split option.split)
qed

text \<open>When the database refuses the row after the file has been moved, the isolated copy is removed as well:
  the file's bytes are at neither place.\<close>

lemma refused_row_loses_file:
  assumes "sane R sha env" and "R src = Some c" and "R (vault_path env i src q) = Some v" and "v \<noteq> c"
    and "\<not> is_link (q_os env) src" and "\<not> is_link (q_os env) (vault_path env i src q)"
    and "isolate (q_os env) src (vault_path env i src q) s = (True, s1)" and "\<not> db_ok env"
    and "discard (q_os env) (vault_path env i src q) s1 = Inr s2" and "is_file (q_os env) src s"
  shows "add env i src subj why sc sigs (q, s) = (Inr None, q, s2)
    \<and> bytes_at s2 c = None \<and> bytes_at s2 v = None"
proof -
  have rs: "resolve (q_os env) src = Some c" "resolve (q_os env) (vault_path env i src q) = Some v"
    using assms(1-3) by (simp_all add: sane_def)
  have "bytes_at s2 = (bytes_at s1)(v := None)" by (rule discard_contents[OF assms(9) rs(2) assms(6)])
  moreover have "bytes_at s1 c = None"
    using isolate_contents[OF assms(7) rs assms(5,4)] assms(4) by auto
  ultimately show ?thesis using assms(7-10) by (auto simp: add_def Let_def)
qed

section \<open>A vault with one file\<close>

definition demo_env :: qenv where
  "demo_env = \<lparr>q_os = \<lparr>seps = ''/'', resolve = Some, is_link = \<lambda>p. False, read_err = \<lambda>p. None,
     write_err = \<lambda>p a. None, unlink_err = \<lambda>p. None, mkdir_err = \<lambda>p. None, chmod_err = \<lambda>p. None,
     attr_api = True, attr_ok = \<lambda>p. True, ace_ok = \<lambda>p. True\<rparr>,
     q_sha_of = \<lambda>d. CHR ''h'' # d, db_ok = True, clock_text = ''now'', clock = 7\<rparr>"

definition demo_files :: fs where
  "demo_files = \<lparr>files = [''/a/x'' \<mapsto> new_file\<lparr>content := ''MZ''\<rparr>], dirs = {''/q''}\<rparr>"

definition demo_vault :: qstore where
  "demo_vault = \<lparr>quarantine_dir = ''/q'', rows = []\<rparr>"

definition demo_row :: qrecord where
  "demo_row = \<lparr>q_id = ''i'', q_subject = ''pid:1'', q_original = ''/a/x'', q_path = ''/q/i_x'',
     q_sha = ''hMZ'', q_reason = ''why'', q_score = 90, q_time = ''now'', q_signals = [],
     q_decision = pending_text, q_notes = [], q_decided = None\<rparr>"

definition demo_isolated :: fs where
  "demo_isolated =
     snd (snd (add demo_env ''i'' ''/a/x'' ''pid:1'' ''why'' 90 [] (demo_vault, demo_files)))"

lemma demo_env_simps [simp]:
  "seps (q_os demo_env) = ''/''" "resolve (q_os demo_env) = Some" "is_link (q_os demo_env) p = False"
  "read_err (q_os demo_env) p = None" "write_err (q_os demo_env) p a = None"
  "unlink_err (q_os demo_env) p = None" "mkdir_err (q_os demo_env) p = None"
  "chmod_err (q_os demo_env) p = None" "ace_ok (q_os demo_env) p = True"
  "q_sha_of demo_env d = CHR ''h'' # d" "db_ok demo_env = True" "clock_text demo_env = ''now''"
  by (simp_all add: demo_env_def)

lemma demo_vault_simps [simp]: "rows demo_vault = []" "quarantine_dir demo_vault = ''/q''"
  by (simp_all add: demo_vault_def)

lemma demo_path [simp]: "vault_path demo_env ''i'' ''/a/x'' demo_vault = ''/q/i_x''"
  by code_simp

lemma demo_add:
  "add demo_env ''i'' ''/a/x'' ''pid:1'' ''why'' 90 [] (demo_vault, demo_files) =
     (Inr (Some demo_row), demo_vault\<lparr>rows := [demo_row]\<rparr>, demo_isolated)"
proof -
  obtain s where i: "isolate (q_os demo_env) ''/a/x'' ''/q/i_x'' demo_files = (True, s)"
    by (simp add: isolate_def copy2_def demo_files_def file_defs new_file_def)
  have h: "is_file (q_os demo_env) ''/a/x'' demo_files" "sha256_of demo_env ''/a/x'' demo_files = ''hMZ''"
    by (simp_all add: demo_files_def sha256_of_def read_bytes_def is_file_def find_file_def new_file_def)
  have "add demo_env ''i'' ''/a/x'' ''pid:1'' ''why'' 90 [] (demo_vault, demo_files) =
     (Inr (Some demo_row), demo_vault\<lparr>rows := [demo_row]\<rparr>, s)"
    by (simp add: add_def i h demo_row_def Let_def)
  then show ?thesis by (simp add: demo_isolated_def)
qed

lemma demo_sane: "sane Some (q_sha_of demo_env) demo_env"
  by (simp add: sane_def)

lemma demo_reach: "vault_reach Some (q_sha_of demo_env) (demo_vault\<lparr>rows := [demo_row]\<rparr>, demo_isolated)"
proof (rule vault_more)
  show "vault_reach Some (q_sha_of demo_env) (demo_vault, demo_files)"
    by (rule vault_new[of demo_env "''/q''" demo_files])
      (simp add: new_qstore_def make_dirs_def demo_vault_def demo_files_def)
  show "vault_step Some (q_sha_of demo_env) (demo_vault, demo_files)
      (demo_vault\<lparr>rows := [demo_row]\<rparr>, demo_isolated)"
    by (rule v_add[OF demo_add demo_sane, where c = "''/a/x''" and v = "''/q/i_x''"])
      (simp_all add: vault_of_def)
qed

lemma quarantine_moves_file_witness:
  "bytes_at demo_isolated ''/q/i_x'' = Some ''MZ'' \<and> bytes_at demo_isolated ''/a/x'' = None"
  using quarantine_moves_file[OF demo_sane _ _ _ _ _ demo_add, of "''/a/x''" "''/q/i_x''"]
  by (auto simp: demo_files_def bytes_at_def new_file_def)


theorem restore_gives_back_witness:
  "\<forall>denv. \<exists>q' s' kb'. restore demo_env denv ''i'' ''fp'' (demo_vault\<lparr>rows := [demo_row]\<rparr>, demo_isolated, None)
      = (Inr (Some ''/a/x''), q', s', kb')
    \<and> (\<exists>d. bytes_at s' ''/a/x'' = Some d \<and> CHR ''h'' # d = ''hMZ'') \<and> is_restored ''hMZ'' q'"
proof
  fix denv
  show "\<exists>q' s' kb'. restore demo_env denv ''i'' ''fp'' (demo_vault\<lparr>rows := [demo_row]\<rparr>, demo_isolated, None)
      = (Inr (Some ''/a/x''), q', s', kb')
    \<and> (\<exists>d. bytes_at s' ''/a/x'' = Some d \<and> CHR ''h'' # d = ''hMZ'') \<and> is_restored ''hMZ'' q'"
    using restore_gives_back[OF demo_reach demo_sane, of "''i''" demo_row denv "''fp''" None]
    by (auto simp: get_def demo_row_def pending_text_def deleted_text_def)
qed

end
