(* ===== verification/Platform.thy ===== *)
theory Platform
  imports Authenticode StaticClassifier Quarantine
begin

text \<open>
  The platform layer: \<open>platform/__init__.py\<close>, the defaults of each system; \<open>platform/signature.py\<close>, signature
  verdicts by the system's own tools; \<open>platform/service_runner.py\<close>, the installation of the service. What a
  program answers when it is run is a parameter. The lemmas show what a verdict promises, what it does not
  depend on, and what installing leaves behind.
\<close>

section \<open>Defaults\<close>

datatype platform = Windows | Linux | MacOS | Other string

definition default_dirs :: "platform \<Rightarrow> string \<times> string \<times> string" where
  \<comment> \<open>the installation, data and log directories\<close>
  "default_dirs pf =
     (case pf of
        Windows \<Rightarrow>
          (''C:'' @ [CHR 0x5C] @ ''Program Files'' @ [CHR 0x5C] @ ''Sentinel Antivirus'',
           ''C:'' @ [CHR 0x5C] @ ''ProgramData'' @ [CHR 0x5C] @ ''Sentinel'',
           ''C:'' @ [CHR 0x5C] @ ''ProgramData'' @ [CHR 0x5C] @ ''Sentinel'' @ [CHR 0x5C] @ ''logs'')
      | MacOS \<Rightarrow> (''/usr/local/sentinel'', ''/Library/Application Support/Sentinel'', ''/Library/Logs/Sentinel'')
      | _ \<Rightarrow> (''/opt/sentinel'', ''/var/lib/sentinel'', ''/var/log/sentinel''))"

definition get_default_watch_dirs :: "platform \<Rightarrow> (string \<Rightarrow> string) \<Rightarrow> string option \<Rightarrow> string list" where
  \<comment> \<open>\<open>at_home\<close> appends to the home directory; \<open>xdg\<close> is what \<open>xdg-user-dir\<close> prints, if it runs\<close>
  "get_default_watch_dirs pf at_home xdg =
     (case pf of
        Windows \<Rightarrow> [at_home ''Downloads'', at_home ''Desktop'',
                    ''C:'' @ [CHR 0x5C] @ ''Windows'' @ [CHR 0x5C] @ ''Temp'']
      | Linux \<Rightarrow>
          let ds = [at_home ''Downloads'', at_home ''Desktop'', ''/tmp''] in
          (case xdg of
             None \<Rightarrow> ds
           | Some t \<Rightarrow> if strip t \<noteq> [] \<and> strip t \<notin> set ds then ds @ [strip t] else ds)
      | MacOS \<Rightarrow> [at_home ''Downloads'', at_home ''Desktop'', ''/tmp'']
      | Other n \<Rightarrow> [at_home ''Downloads'', ''/tmp''])"

definition get_executable_extensions :: "platform \<Rightarrow> string set" where
  "get_executable_extensions pf =
     set [''.py'', ''.sh'', ''.pl'', ''.rb'']
     \<union> set (case pf of
              Windows \<Rightarrow>
                [''.exe'', ''.dll'', ''.sys'', ''.scr'', ''.cpl'', ''.drv'', ''.ocx'', ''.bat'', ''.cmd'', ''.ps1'',
                 ''.vbs'', ''.vbe'', ''.js'', ''.jse'', ''.wsf'', ''.wsh'', ''.hta'', ''.msi'', ''.msp'', ''.com'', ''.pif'']
            | Linux \<Rightarrow>
                [''.so'', ''.ko'', ''.elf'', ''.bin'', ''.run'', ''.appimage'', ''.deb'', ''.rpm'', ''.snap'', ''.flatpak'']
            | MacOS \<Rightarrow> [''.app'', ''.dylib'', ''.kext'', ''.pkg'', ''.dmg'', ''.bundle'']
            | Other n \<Rightarrow> [])"

definition get_system_ignore_folders :: "platform \<Rightarrow> string set" where
  "get_system_ignore_folders pf =
     set [''.git'', ''.svn'', ''__pycache__'', ''node_modules'', ''.venv'', ''venv'']
     \<union> set (case pf of
              Windows \<Rightarrow>
                [''$recycle.bin'', ''system volume information'', ''$windows.~bt'', ''$windows.~ws'', ''$winreagent'',
                 ''recovery'']
            | Linux \<Rightarrow> [''proc'', ''sys'', ''dev'', ''run'', ''snap'', ''lost+found'', ''.Trash-1000'']
            | MacOS \<Rightarrow> [''.Spotlight-V100'', ''.fseventsd'', ''.Trashes'', ''.vol'', ''Volumes'']
            | Other n \<Rightarrow> [])"

section \<open>Running programs\<close>

datatype run_result = Ran int string string | NoProgram | RunTimeout string | RunFails string

record sig_env =
  sg_platform :: platform
  sg_trust :: trust_env
  sg_run :: "string list \<Rightarrow> run_result"
  sg_signify :: "bytes \<Rightarrow> bool option"
  sg_text :: "py_exc \<Rightarrow> string"

abbreviation sg_os :: "sig_env \<Rightarrow> os" where
  "sg_os env \<equiv> file_os (sg_trust env)"

section \<open>Signatures\<close>

record sig_verdict =
  sv_signed :: bool
  sv_valid :: bool
  sv_trusted :: bool
  sv_vendor :: bool
  sv_code :: int
  sv_text :: string

definition unsigned_verdict :: "int \<Rightarrow> string \<Rightarrow> sig_verdict" where
  "unsigned_verdict code txt1 =
     \<lparr>sv_signed = False, sv_valid = False, sv_trusted = False, sv_vendor = False, sv_code = code, sv_text = txt1\<rparr>"

definition full_verdict :: "bool \<Rightarrow> string \<Rightarrow> sig_verdict" where
  "full_verdict vendor txt1 =
     \<lparr>sv_signed = True, sv_valid = True, sv_trusted = True, sv_vendor = vendor, sv_code = 0, sv_text = txt1\<rparr>"

definition verify_windows :: "sig_env \<Rightarrow> fs \<Rightarrow> string \<Rightarrow> verdict_cache \<Rightarrow> sig_verdict \<times> verdict_cache" where
  "verify_windows env s p cache =
     (case verify_pe_signature (sg_trust env) s p cache of
        (Inl e, c) \<Rightarrow> (unsigned_verdict (- 1) (sg_text env e), c)
      | (Inr v, c) \<Rightarrow>
          (\<lparr>sv_signed = is_signed v, sv_valid = is_valid v, sv_trusted = is_trusted v, sv_vendor = is_microsoft v,
            sv_code = error_code v, sv_text = error_description v\<rparr>, c))"

definition is_elf :: "os \<Rightarrow> fs \<Rightarrow> string \<Rightarrow> bool" where
  "is_elf os s p =
     (case read_bytes os p s of Inl e \<Rightarrow> False | Inr d \<Rightarrow> take 4 d = CHR 0x7F # ''ELF'')"

definition verify_dpkg :: "sig_env \<Rightarrow> string \<Rightarrow> sig_verdict" where
  "verify_dpkg env p =
     (case sg_run env [''dpkg-sig'', ''--verify'', p] of
        Ran rc out err \<Rightarrow>
          if rc = 0 \<and> contains out ''GOODSIG'' then full_verdict True ''Valid dpkg signature''
          else (unsigned_verdict rc (if strip out \<noteq> [] then strip out else strip err))
                 \<lparr>sv_signed := \<not> contains out ''NOSIG''\<rparr>
      | NoProgram \<Rightarrow> unsigned_verdict (- 1) ''dpkg-sig not installed''
      | RunTimeout e \<Rightarrow> unsigned_verdict (- 1) e
      | RunFails e \<Rightarrow> unsigned_verdict (- 1) e)"

definition verify_rpm :: "sig_env \<Rightarrow> string \<Rightarrow> sig_verdict" where
  "verify_rpm env p =
     (case sg_run env [''rpm'', ''--checksig'', p] of
        Ran rc out err \<Rightarrow>
          if rc = 0 \<and> (contains (lower out) ''pgp'' \<or> contains (lower out) ''gpg'')
          then full_verdict True ''Valid RPM GPG signature''
          else unsigned_verdict rc (strip out)
      | NoProgram \<Rightarrow> unsigned_verdict (- 1) ''rpm not installed''
      | RunTimeout e \<Rightarrow> unsigned_verdict (- 1) e
      | RunFails e \<Rightarrow> unsigned_verdict (- 1) e)"

fun package_of :: "sig_env \<Rightarrow> string list list \<Rightarrow> string \<Rightarrow> string option" where
  \<comment> \<open>the first program that knows the path, and the package it names\<close>
  "package_of env [] p = None"
| "package_of env (cmd # cmds) p =
     (case sg_run env (cmd @ [p]) of
        Ran rc out err \<Rightarrow>
          if rc = 0 \<and> strip out \<noteq> []
          then Some (if CHR '':'' \<in> set out then takeWhile (\<lambda>c. c \<noteq> CHR '':'') (strip out) else strip out)
          else package_of env cmds p
      | _ \<Rightarrow> package_of env cmds p)"

definition verify_elf_package_membership :: "sig_env \<Rightarrow> string \<Rightarrow> sig_verdict" where
  "verify_elf_package_membership env p =
     (case package_of env [[''dpkg'', ''-S''], [''rpm'', ''-qf'']] p of
        Some pkg \<Rightarrow> full_verdict True (''Distro package: '' @ pkg)
      | None \<Rightarrow> unsigned_verdict 0 ''ELF binary not part of a known distro package'')"

definition verify_pe_with_signify :: "sig_env \<Rightarrow> fs \<Rightarrow> string \<Rightarrow> sig_verdict" where
  \<comment> \<open>\<open>sg_signify\<close> tells whether the library finds signed data; \<open>None\<close>: it is missing or raises\<close>
  "verify_pe_with_signify env s p =
     (case read_bytes (sg_os env) p s of
        Inr d \<Rightarrow>
          if sg_signify env d = Some True
          then (full_verdict False ''Authenticode signature present (trust not verified on Linux)'')\<lparr>sv_trusted := False\<rparr>
          else unsigned_verdict 0 ''No verifiable signature''
      | Inl e \<Rightarrow> unsigned_verdict 0 ''No verifiable signature'')"

definition verify_linux :: "sig_env \<Rightarrow> fs \<Rightarrow> string \<Rightarrow> sig_verdict" where
  "verify_linux env s p =
     (let ext = lower (path_suffix (seps (sg_os env)) p) in
      if ext = ''.deb'' then verify_dpkg env p
      else if ext = ''.rpm'' then verify_rpm env p
      else if is_elf (sg_os env) s p then verify_elf_package_membership env p
      else if ext \<in> {''.exe'', ''.dll'', ''.sys'', ''.scr''} then verify_pe_with_signify env s p
      else unsigned_verdict 0 ''No signature mechanism for this file type on Linux'')"

definition authority_of :: "string \<Rightarrow> string" where
  \<comment> \<open>what follows the first \<open>Authority=\<close> at the start of a line\<close>
  "authority_of err =
     (case find (\<lambda>l. startswith l ''Authority='') (split_on (\<lambda>c. c \<in> {CHR 0x0A, CHR 0x0B, CHR 0x0C, CHR 0x0D, CHR 0x1C, CHR 0x1D, CHR 0x1E, CHR 0x85}) err) of
        None \<Rightarrow> []
      | Some l \<Rightarrow> drop 10 l)"

definition verify_macos :: "sig_env \<Rightarrow> string \<Rightarrow> sig_verdict" where
  "verify_macos env p =
     (case sg_run env [''codesign'', ''--verify'', ''--deep'', ''--strict'', p] of
        Ran rc out err \<Rightarrow>
          if rc = 0 then
            (case sg_run env [''codesign'', ''-dvv'', p] of
               Ran rc2 out2 err2 \<Rightarrow>
                 full_verdict (contains (lower err2) ''apple'' \<or> contains (lower err2) ''software signing'')
                   (if authority_of err2 \<noteq> [] then ''Valid signature: '' @ authority_of err2
                    else ''Valid code signature'')
             | NoProgram \<Rightarrow> unsigned_verdict (- 1) ''codesign command not found''
             | RunTimeout e \<Rightarrow> unsigned_verdict (- 1) e
             | RunFails e \<Rightarrow> unsigned_verdict (- 1) e)
          else if contains (lower (strip err)) ''not signed'' then unsigned_verdict rc ''Not code signed''
          else (unsigned_verdict rc (strip err))\<lparr>sv_signed := True\<rparr>
      | NoProgram \<Rightarrow> unsigned_verdict (- 1) ''codesign command not found''
      | RunTimeout e \<Rightarrow> unsigned_verdict (- 1) e
      | RunFails e \<Rightarrow> unsigned_verdict (- 1) e)"

definition verify_signature ::
  "sig_env \<Rightarrow> fs \<Rightarrow> string \<Rightarrow> verdict_cache \<Rightarrow> sig_verdict py_result \<times> verdict_cache" where
  "verify_signature env s p cache =
     (case resolve (sg_os env) p of
        None \<Rightarrow> (Inl OSError, cache)
      | Some c \<Rightarrow>
          if files s c = None then (Inr (unsigned_verdict (- 1) ''File not found''), cache)
          else (case sg_platform env of
                  Windows \<Rightarrow> (case verify_windows env s c cache of (v, k) \<Rightarrow> (Inr v, k))
                | Linux \<Rightarrow> (Inr (verify_linux env s c), cache)
                | MacOS \<Rightarrow> (Inr (verify_macos env c), cache)
                | Other n \<Rightarrow> (Inr (unsigned_verdict (- 2) (''Unsupported platform: '' @ n)), cache)))"

section \<open>Installing the service\<close>

definition text_lines :: "string list \<Rightarrow> string" where
  "text_lines ls = concat (map (\<lambda>l. l @ [CHR 0x0A]) ls)"

record manager =
  sm_platform :: platform
  sm_install :: string
  sm_data :: string
  sm_log :: string
  sm_python :: string

definition new_service_manager :: "platform \<Rightarrow> string \<Rightarrow> string \<Rightarrow> string \<Rightarrow> string \<Rightarrow> string \<Rightarrow> manager" where
  \<comment> \<open>\<open>py\<close> is \<open>sys.executable\<close>\<close>
  "new_service_manager pf py inst dat lg python =
     (case default_dirs pf of
        (i, d, l) \<Rightarrow>
          \<lparr>sm_platform = pf, sm_install = (if inst = [] then i else inst), sm_data = (if dat = [] then d else dat),
           sm_log = (if lg = [] then l else lg), sm_python = (if python = [] then py else python)\<rparr>)"

definition systemd_unit :: "manager \<Rightarrow> string" where
  "systemd_unit m = text_lines
     [''[Unit]'', ''Description=Sentinel Antivirus Core Detection Service'',
      ''Documentation=https://github.com/mukti-sys/sentinel-antivirus'', ''After=network.target auditd.service'',
      ''Wants=auditd.service'', [], ''[Service]'', ''Type=simple'',
      ''ExecStart='' @ sm_python m @ '' -m sentinel.service --standalone'',
      ''WorkingDirectory='' @ sm_install m, ''Restart=on-failure'', ''RestartSec=5'', ''StandardOutput=journal'',
      ''StandardError=journal'', ''SyslogIdentifier=sentinel'', [], ''# Security hardening'', ''ProtectSystem=strict'',
      ''ReadWritePaths='' @ sm_data m @ '' /var/run/sentinel'', ''ProtectHome=read-only'', ''NoNewPrivileges=false'',
      ''CapabilityBoundingSet=CAP_SYS_ADMIN CAP_SYS_PTRACE CAP_DAC_READ_SEARCH CAP_NET_ADMIN'',
      ''AmbientCapabilities=CAP_SYS_ADMIN CAP_SYS_PTRACE CAP_DAC_READ_SEARCH'', [], ''[Install]'',
      ''WantedBy=multi-user.target'']"

definition plist_key :: "string \<Rightarrow> string \<Rightarrow> string" where
  "plist_key tag x = ''<'' @ tag @ ''>'' @ x @ ''</'' @ tag @ ''>''"

definition launchd_plist :: "manager \<Rightarrow> string" where
  "launchd_plist m = text_lines
     [''<?xml version='' @ [CHR 0x22] @ ''1.0'' @ [CHR 0x22] @ '' encoding='' @ [CHR 0x22] @ ''UTF-8'' @ [CHR 0x22] @ ''?>'',
      ''<!DOCTYPE plist PUBLIC '' @ [CHR 0x22] @ ''-//Apple//DTD PLIST 1.0//EN'' @ [CHR 0x22],
      ''  '' @ [CHR 0x22] @ ''http://www.apple.com/DTDs/PropertyList-1.0.dtd'' @ [CHR 0x22] @ ''>'',
      ''<plist version='' @ [CHR 0x22] @ ''1.0'' @ [CHR 0x22] @ ''>'', ''<dict>'',
      ''    '' @ plist_key ''key'' ''Label'', ''    '' @ plist_key ''string'' ''com.sentinel.antivirus'', [],
      ''    '' @ plist_key ''key'' ''ProgramArguments'', ''    <array>'',
      ''        '' @ plist_key ''string'' (sm_python m), ''        '' @ plist_key ''string'' ''-m'',
      ''        '' @ plist_key ''string'' ''sentinel.service'', ''        '' @ plist_key ''string'' ''--standalone'',
      ''    </array>'', [], ''    '' @ plist_key ''key'' ''WorkingDirectory'',
      ''    '' @ plist_key ''string'' (sm_install m), [], ''    '' @ plist_key ''key'' ''RunAtLoad'', ''    <true/>'', [],
      ''    '' @ plist_key ''key'' ''KeepAlive'', ''    <dict>'', ''        '' @ plist_key ''key'' ''SuccessfulExit'',
      ''        <false/>'', ''    </dict>'', [], ''    '' @ plist_key ''key'' ''StandardOutPath'',
      ''    '' @ plist_key ''string'' (sm_log m @ ''/sentinel.log''), [],
      ''    '' @ plist_key ''key'' ''StandardErrorPath'',
      ''    '' @ plist_key ''string'' (sm_log m @ ''/sentinel.err.log''), ''</dict>'', ''</plist>'']"

record install_env =
  in_os :: os
  in_home :: string
  in_python :: string
  in_run :: "string list \<Rightarrow> run_result"

definition run_cmd :: "install_env \<Rightarrow> string list \<Rightarrow> bool" where
  "run_cmd env cmd = (case in_run env cmd of Ran rc out err \<Rightarrow> rc = 0 | _ \<Rightarrow> False)"

definition unit_path :: string where
  "unit_path = ''/etc/systemd/system/sentinel.service''"

definition plist_path :: "install_env \<Rightarrow> string" where
  "plist_path env =
     path_join (seps (in_os env)) (path_join (seps (in_os env)) (path_join (seps (in_os env)) (in_home env) ''Library'')
       ''LaunchAgents'') ''com.sentinel.antivirus.plist''"

definition service_start :: "install_env \<Rightarrow> manager \<Rightarrow> bool \<times> string list list" where
  \<comment> \<open>the answer and the commands that were run\<close>
  "service_start env m =
     (case sm_platform m of
        Windows \<Rightarrow> let c = [''sc'', ''start'', ''SentinelCoreSvc''] in (run_cmd env c, [c])
      | Linux \<Rightarrow> let c = [''systemctl'', ''start'', ''sentinel''] in (run_cmd env c, [c])
      | MacOS \<Rightarrow> let c = [''launchctl'', ''load'', plist_path env] in (run_cmd env c, [c])
      | Other n \<Rightarrow> (False, []))"

definition service_stop :: "install_env \<Rightarrow> manager \<Rightarrow> bool \<times> string list list" where
  "service_stop env m =
     (case sm_platform m of
        Windows \<Rightarrow> let c = [''sc'', ''stop'', ''SentinelCoreSvc''] in (run_cmd env c, [c])
      | Linux \<Rightarrow> let c = [''systemctl'', ''stop'', ''sentinel''] in (run_cmd env c, [c])
      | MacOS \<Rightarrow> let c = [''launchctl'', ''unload'', plist_path env] in (run_cmd env c, [c])
      | Other n \<Rightarrow> (False, []))"

definition service_status :: "install_env \<Rightarrow> manager \<Rightarrow> string" where
  "service_status env m =
     (case sm_platform m of
        Windows \<Rightarrow>
          (case in_run env [''sc'', ''query'', ''SentinelCoreSvc''] of
             Ran rc out err \<Rightarrow>
               if contains out ''RUNNING'' then ''running'' else if contains out ''STOPPED'' then ''stopped'' else ''unknown''
           | _ \<Rightarrow> ''unknown'')
      | Linux \<Rightarrow>
          (case in_run env [''systemctl'', ''is-active'', ''sentinel''] of Ran rc out err \<Rightarrow> strip out | _ \<Rightarrow> ''unknown'')
      | MacOS \<Rightarrow>
          (case in_run env [''launchctl'', ''list'', ''com.sentinel.antivirus''] of
             Ran rc out err \<Rightarrow> if rc = 0 then ''running'' else ''stopped''
           | _ \<Rightarrow> ''unknown'')
      | Other n \<Rightarrow> ''unknown'')"

definition install_systemd :: "install_env \<Rightarrow> manager \<Rightarrow> fs \<Rightarrow> bool \<times> string list list \<times> fs" where
  "install_systemd env m s =
     (case write_bytes (in_os env) unit_path (systemd_unit m) s of
        Inl e \<Rightarrow> (False, [], s)
      | Inr s' \<Rightarrow> (True, [[''systemctl'', ''daemon-reload''], [''systemctl'', ''enable'', ''sentinel'']], s'))"

definition uninstall_systemd :: "install_env \<Rightarrow> fs \<Rightarrow> bool \<times> string list list \<times> fs" where
  "uninstall_systemd env s =
     (let cs = [[''systemctl'', ''stop'', ''sentinel''], [''systemctl'', ''disable'', ''sentinel'']] in
      case unlink (in_os env) unit_path s of
        Inl e \<Rightarrow> (False, cs, s)
      | Inr s' \<Rightarrow> (True, cs @ [[''systemctl'', ''daemon-reload'']], s'))"

definition install_launchd :: "install_env \<Rightarrow> manager \<Rightarrow> fs \<Rightarrow> bool \<times> string list list \<times> fs" where
  "install_launchd env m s =
     (case make_dirs (in_os env) (parent_of (seps (in_os env)) (plist_path env)) s of
        Inl e \<Rightarrow> (False, [], s)
      | Inr s1 \<Rightarrow>
          (case write_bytes (in_os env) (plist_path env) (launchd_plist m) s1 of
             Inl e \<Rightarrow> (False, [], s1)
           | Inr s2 \<Rightarrow> (True, [], s2)))"

definition uninstall_launchd :: "install_env \<Rightarrow> manager \<Rightarrow> fs \<Rightarrow> bool \<times> string list list \<times> fs" where
  "uninstall_launchd env m s =
     (case unlink (in_os env) (plist_path env) s of
        Inl e \<Rightarrow> (False, snd (service_stop env m), s)
      | Inr s' \<Rightarrow> (True, snd (service_stop env m), s'))"

definition install_service :: "install_env \<Rightarrow> manager \<Rightarrow> fs \<Rightarrow> bool \<times> string list list \<times> fs" where
  "install_service env m s =
     (case sm_platform m of
        Windows \<Rightarrow> let c = [in_python env, ''-m'', ''sentinel.service'', ''install''] in (run_cmd env c, [c], s)
      | Linux \<Rightarrow> install_systemd env m s
      | MacOS \<Rightarrow> install_launchd env m s
      | Other n \<Rightarrow> (False, [], s))"

definition uninstall_service :: "install_env \<Rightarrow> manager \<Rightarrow> fs \<Rightarrow> bool \<times> string list list \<times> fs" where
  "uninstall_service env m s =
     (case sm_platform m of
        Windows \<Rightarrow>
          let c = [in_python env, ''-m'', ''sentinel.service'', ''remove'']
          in (run_cmd env c, [[in_python env, ''-m'', ''sentinel.service'', ''stop''], c], s)
      | Linux \<Rightarrow> uninstall_systemd env s
      | MacOS \<Rightarrow> uninstall_launchd env m s
      | Other n \<Rightarrow> (False, [], s))"

section \<open>What a verdict promises\<close>

definition ordered :: "sig_verdict \<Rightarrow> bool" where
  "ordered v \<longleftrightarrow> (\<not> sv_vendor v \<or> sv_trusted v) \<and> (\<not> sv_trusted v \<or> sv_valid v) \<and> (\<not> sv_valid v \<or> sv_signed v)"

definition ordered_cache :: "verdict_cache \<Rightarrow> bool" where
  "ordered_cache c \<longleftrightarrow>
     (\<forall>v \<in> snd ` set c. is_trusted v = is_valid v \<and> (\<not> is_valid v \<or> is_signed v) \<and> (\<not> is_microsoft v \<or> is_valid v))"

lemma ordered_verdicts [simp]:
  "ordered (unsigned_verdict n x)" "ordered (full_verdict b x)" "ordered ((unsigned_verdict n x)\<lparr>sv_signed := b\<rparr>)"
  "ordered ((full_verdict False x)\<lparr>sv_trusted := False\<rparr>)"
  by (simp_all add: ordered_def unsigned_verdict_def full_verdict_def)

lemma fresh_verdict_ordered:
  "is_trusted (fresh_verdict env c) = is_valid (fresh_verdict env c)
   \<and> (\<not> is_valid (fresh_verdict env c) \<or> is_signed (fresh_verdict env c))
   \<and> (\<not> is_microsoft (fresh_verdict env c) \<or> is_valid (fresh_verdict env c))"
  using status_verdict_facts by (auto simp: fresh_verdict_def no_verdict_def split: sum.split)

lemma ordered_cache_put:
  "ordered_cache k \<Longrightarrow> ordered_cache (cache_put x (fresh_verdict env c) k)"
  using fresh_verdict_ordered[of env c] set_update_subset[of x "fresh_verdict env c"]
  by (fastforce simp: ordered_cache_def cache_put_def)

lemma verify_pe_ordered:
  assumes "ordered_cache k" "verify_pe_signature env s p k = (r, k')"
  shows "ordered_cache k' \<and> (\<forall>v. r = Inr v \<longrightarrow> is_trusted v = is_valid v \<and> (\<not> is_valid v \<or> is_signed v)
    \<and> (\<not> is_microsoft v \<or> is_valid v))"
proof (cases "resolve (file_os env) p")
  case (Some c)
  show ?thesis
  proof (cases "map_of k (c, mtime_of env c)")
    case None
    then show ?thesis
      using assms Some fresh_verdict_ordered[of env c] ordered_cache_put[OF assms(1)]
      by (auto simp: verify_pe_signature_def Let_def no_verdict_def split: if_splits)
  next
    case (Some v)
    then have "v \<in> snd ` set k" by (force dest: map_of_SomeD)
    then show ?thesis
      using assms Some \<open>resolve (file_os env) p = _\<close>
      by (auto simp: verify_pe_signature_def Let_def no_verdict_def ordered_cache_def split: if_splits)
  qed
qed (use assms in \<open>auto simp: verify_pe_signature_def\<close>)

lemma tool_verdicts_ordered [simp]:
  "ordered (verify_dpkg env c)" "ordered (verify_rpm env c)" "ordered (verify_elf_package_membership env c)"
  "ordered (verify_pe_with_signify env s c)" "ordered (verify_macos env c)"
  by (simp_all add: verify_dpkg_def verify_rpm_def verify_elf_package_membership_def verify_pe_with_signify_def
      verify_macos_def split: run_result.split option.split sum.split)

lemma verify_linux_ordered [simp]: "ordered (verify_linux env s c)"
  by (simp add: verify_linux_def Let_def)

text \<open>On every system, whatever its tools answer, a verdict that trusts the vendor is trusted, a trusted one is
  valid, and a valid one is signed; and the cache of verdicts keeps this.\<close>

lemma signature_verdict_ordered:
  assumes "ordered_cache k" "verify_signature env s p k = (r, k')"
  shows "ordered_cache k' \<and> (case r of Inl e \<Rightarrow> True | Inr v \<Rightarrow> ordered v)"
proof -
  have w: "ordered_cache kk \<and> ordered v" if "verify_windows env s c k = (v, kk)" for c v kk
  proof -
    obtain q q' where q: "verify_pe_signature (sg_trust env) s c k = (q, q')" by fastforce
    show ?thesis
      using that verify_pe_ordered[OF assms(1) q] q
      by (auto simp: verify_windows_def ordered_def unsigned_verdict_def split: sum.splits)
  qed
  show ?thesis
  proof (cases "resolve (sg_os env) p")
    case None
    then show ?thesis using assms by (auto simp: verify_signature_def)
  next
    case (Some c)
    obtain v kk where v: "verify_windows env s c k = (v, kk)" by fastforce
    show ?thesis
      using assms Some w[OF v] v
      by (cases "sg_platform env"; cases "files s c") (auto simp: verify_signature_def)
  qed
qed

lemma elf_read:
  assumes "resolve (sg_os env) c = Some c" "files s c = Some f" "read_err (sg_os env) c = None"
  shows "is_elf (sg_os env) s c \<longleftrightarrow> take 4 (content f) = CHR 0x7F # ''ELF''"
  using assms by (simp add: is_elf_def read_bytes_def find_file_def)


lemma vendor_from_path:
  assumes "sg_platform env = MacOS" "resolve (sg_os env) p = Some c" "files s c = Some f"
    and "sg_run env [''codesign'', ''--verify'', ''--deep'', ''--strict'', c] = Ran 0 out err"
    and "sg_run env [''codesign'', ''-dvv'', c] = Ran rc2 out2 (''Executable='' @ c @ err2)"
    and "contains (lower c) ''apple''"
  shows "\<exists>v. verify_signature env s p k = (Inr v, k) \<and> sv_vendor v"
proof -
  obtain a b where "lower c = a @ ''apple'' @ b" using assms(6) by (auto simp: contains_iff)
  then have "lower (''Executable='' @ c @ err2) = (lower ''Executable='' @ a) @ ''apple'' @ (b @ lower err2)"
    by (simp add: lower_def)
  then have "contains (lower (''Executable='' @ c @ err2)) ''apple''" unfolding contains_iff by blast
  then show ?thesis using assms(1-5) by (simp add: verify_signature_def verify_macos_def full_verdict_def)
qed

section \<open>What installing leaves behind\<close>

definition service_file :: "install_env \<Rightarrow> manager \<Rightarrow> string" where
  "service_file env m = (if sm_platform m = Linux then unit_path else plist_path env)"

definition service_text :: "manager \<Rightarrow> string" where
  "service_text m = (if sm_platform m = Linux then systemd_unit m else launchd_plist m)"

text \<open>Installing on Linux or macOS writes the service's file and no other; uninstalling then removes it and leaves
  everything else as it was before.\<close>

lemma install_then_uninstall:
  assumes "sm_platform m \<in> {Linux, MacOS}" "install_service env m s = (True, cs, s1)"
    and "resolve (in_os env) (service_file env m) = Some c" "\<not> is_link (in_os env) (service_file env m)"
    and "unlink_err (in_os env) c = None"
  shows "bytes_at s1 = (bytes_at s)(c \<mapsto> service_text m)
    \<and> (\<exists>cs' s2. uninstall_service env m s1 = (True, cs', s2) \<and> bytes_at s2 = (bytes_at s)(c := None))"
proof -
  have w: "bytes_at t' = (bytes_at t)(c \<mapsto> d) \<and> files t' c \<noteq> None"
    if "write_bytes (in_os env) (service_file env m) d t = Inr t'" for d t t'
    using that assms(3) by (auto simp: write_bytes_def Let_def put_file_def bytes_at_def fun_eq_iff split: option.splits)
  have i: "bytes_at s1 = (bytes_at s)(c \<mapsto> service_text m) \<and> files s1 c \<noteq> None"
  proof (cases "sm_platform m = Linux")
    case True
    then show ?thesis
      using assms(2) w[of "systemd_unit m" s]
      by (auto simp: install_service_def install_systemd_def service_file_def service_text_def split: sum.splits)
  next
    case False
    then have mac: "sm_platform m = MacOS" using assms(1) by simp
    then obtain t where t: "make_dirs (in_os env) (parent_of (seps (in_os env)) (plist_path env)) s = Inr t"
      "write_bytes (in_os env) (plist_path env) (launchd_plist m) t = Inr s1"
      using assms(2) by (auto simp: install_service_def install_launchd_def split: sum.splits)
    then show ?thesis
      using w[of "launchd_plist m" t s1] make_dirs_contents[OF t(1)] mac
      by (simp add: service_file_def service_text_def)
  qed
  let ?s2 = "s1\<lparr>files := (files s1)(c := None)\<rparr>"
  have u: "unlink (in_os env) (service_file env m) s1 = Inr ?s2"
    using assms(3-5) i by (auto simp: unlink_def find_file_def)
  have "bytes_at ?s2 = (bytes_at s)(c := None)" using i by (auto simp: bytes_at_def fun_eq_iff)
  moreover have "\<exists>cs'. uninstall_service env m s1 = (True, cs', ?s2)"
    using assms(1) u
    by (auto simp: uninstall_service_def uninstall_systemd_def uninstall_launchd_def service_file_def Let_def)
  ultimately show ?thesis using i by blast
qed

section \<open>Witnesses\<close>

definition demo_sig_env :: "platform \<Rightarrow> sig_env" where
  "demo_sig_env pf =
     \<lparr>sg_platform = pf, sg_trust = win_env 0,
      sg_run = (\<lambda>cmd. if cmd = [''dpkg'', ''-S'', ''/bin/ls''] then Ran 0 ''coreutils: /bin/ls'' [] else NoProgram),
      sg_signify = (\<lambda>d. None), sg_text = (\<lambda>e. [])\<rparr>"

lemma signature_verdict_ordered_witness:
  "case fst (verify_signature (demo_sig_env Windows) (one_file ''a'' []) ''a'' []) of Inl e \<Rightarrow> True | Inr v \<Rightarrow> ordered v"
proof -
  have "ordered_cache []" by (simp add: ordered_cache_def)
  from signature_verdict_ordered[OF this surjective_pairing] show ?thesis by blast
qed


end
