(* ===== verification/Json.thy ===== *)
theory Json
  imports Prelude
begin

text \<open>
  The parts of Python's \<open>json\<close> that the messages between the service and its clients rest on: \<open>dumps\<close>
  with its default separators and ASCII escapes, and \<open>loads\<close>. A value without floats, whose dicts have
  distinct keys, is read back as it was, and its text has only printable ASCII characters, so that a
  newline ends a message. The reader's recursion takes fuel, twice the length of the text, which the round
  trip shows to be enough for every text that the printer gives.
\<close>

section \<open>Printing\<close>

definition json_hex :: "nat \<Rightarrow> char" where
  "json_hex d = (if d < 10 then char_of (48 + d) else char_of (87 + d))"

definition json_escape :: "char \<Rightarrow> string" where
  "json_escape c =
     (let n = (of_char c :: nat) in
      if n = 0x22 \<or> n = 0x5C then [CHR 0x5C, c]
      else if n = 10 then [CHR 0x5C, CHR ''n''] else if n = 13 then [CHR 0x5C, CHR ''r'']
      else if n = 9 then [CHR 0x5C, CHR ''t''] else if n = 8 then [CHR 0x5C, CHR ''b'']
      else if n = 12 then [CHR 0x5C, CHR ''f'']
      else if n < 32 \<or> 126 < n
      then [CHR 0x5C, CHR ''u'', CHR ''0'', CHR ''0'', json_hex (n div 16), json_hex (n mod 16)]
      else [c])"

definition json_string :: "string \<Rightarrow> string" where
  "json_string s = CHR 0x22 # concat (map json_escape s) @ [CHR 0x22]"

fun json_dumps :: "pyval \<Rightarrow> string" where
  "json_dumps VNone = ''null''"
| "json_dumps (VBool b) = (if b then ''true'' else ''false'')"
| "json_dumps (VInt i) = show_int i"
| "json_dumps (VFloat x) = float_str x"
| "json_dumps (VStr s) = json_string s"
| "json_dumps (VList xs) = CHR 0x5B # join '', '' (map json_dumps xs) @ [CHR 0x5D]"
| "json_dumps (VDict d) =
     CHR 0x7B # join '', '' (map (\<lambda>p. json_string (fst p) @ '': '' @ json_dumps (snd p)) d) @ [CHR 0x7D]"

section \<open>Reading\<close>

definition json_space :: "char \<Rightarrow> bool" where
  "json_space c \<longleftrightarrow> c \<in> {CHR 0x20, CHR 0x09, CHR 0x0A, CHR 0x0D}"

definition skip :: "string \<Rightarrow> string" where
  "skip s = dropWhile json_space s"

definition unhex :: "char \<Rightarrow> nat option" where
  "unhex c =
     (let n = (of_char c :: nat) in
      if 48 \<le> n \<and> n \<le> 57 then Some (n - 48) else if 97 \<le> n \<and> n \<le> 102 then Some (n - 87)
      else if 65 \<le> n \<and> n \<le> 70 then Some (n - 55) else None)"

definition unhex4 :: "string \<Rightarrow> (char \<times> string) option" where
  \<comment> \<open>the four digits of a character; those of 256 and more are outside the model's text\<close>
  "unhex4 s =
     (case s of
        a # b # c # d # r \<Rightarrow>
          (case (unhex a, unhex b, unhex c, unhex d) of
             (Some 0, Some 0, Some x, Some y) \<Rightarrow> Some (char_of (16 * x + y), r)
           | _ \<Rightarrow> None)
      | _ \<Rightarrow> None)"

definition unescape :: "char \<Rightarrow> char option" where
  "unescape e =
     map_of [(CHR 0x22, CHR 0x22), (CHR 0x5C, CHR 0x5C), (CHR ''/'', CHR ''/''), (CHR ''b'', CHR 0x08),
       (CHR ''f'', CHR 0x0C), (CHR ''n'', CHR 0x0A), (CHR ''r'', CHR 0x0D), (CHR ''t'', CHR 0x09)] e"

definition json_char :: "string \<Rightarrow> (char \<times> string) option" where
  \<comment> \<open>one character of a string, which does not start with the closing quote\<close>
  "json_char s =
     (case s of
        [] \<Rightarrow> None
      | c # t \<Rightarrow>
          if c = CHR 0x5C then
            (case t of
               [] \<Rightarrow> None
             | e # r \<Rightarrow>
                 (case unescape e of
                    Some d \<Rightarrow> Some (d, r)
                  | None \<Rightarrow> if e = CHR ''u'' then unhex4 r else None))
          else if (of_char c :: nat) < 32 then None else Some (c, t))"

lemma json_char_shorter: "json_char s = Some (c, r) \<Longrightarrow> length r < length s"
  by (auto simp: json_char_def unhex4_def split: list.splits option.splits if_splits nat.splits)

function json_chars :: "string \<Rightarrow> (string \<times> string) option" where
  "json_chars s =
     (if s = [] then None
      else if hd s = CHR 0x22 then Some ([], tl s)
      else case json_char s of
             None \<Rightarrow> None
           | Some (c, r) \<Rightarrow> map_option (\<lambda>(u, q). (c # u, q)) (json_chars r))"
  by pat_completeness auto
termination
  by (relation "measure length") (auto dest: json_char_shorter)

declare json_chars.simps [simp del]

definition int_part :: "string \<Rightarrow> string" where
  "int_part t = (if t \<noteq> [] \<and> hd t = CHR ''0'' then ''0'' else takeWhile is_digit t)"

definition frac_part :: "string \<Rightarrow> string" where
  "frac_part r = (if r \<noteq> [] \<and> hd r = CHR ''.'' then takeWhile is_digit (tl r) else [])"

definition exp_part :: "string \<Rightarrow> (real \<times> string) option" where
  \<comment> \<open>the power of ten and what follows it\<close>
  "exp_part r =
     (if r = [] \<or> hd r \<notin> {CHR ''e'', CHR ''E''} then None
      else
        let q = tl r; neg = (q \<noteq> [] \<and> hd q = CHR ''-'');
            t = (if q \<noteq> [] \<and> hd q \<in> {CHR ''-'', CHR ''+''} then tl q else q);
            e = takeWhile is_digit t; n = read_nat e
        in if e = [] then None else Some (if neg then 1 / 10 ^ n else 10 ^ n, dropWhile is_digit t))"

definition json_number :: "string \<Rightarrow> (pyval \<times> string) option" where
  \<comment> \<open>without NaN and the infinities, which are no real numbers\<close>
  "json_number s =
     (let neg = (s \<noteq> [] \<and> hd s = CHR ''-''); t = (if neg then tl s else s);
          d = int_part t; r = drop (length d) t; f = frac_part r;
          q = (if f = [] then r else drop (Suc (length f)) r);
          m = real (read_nat d) + real (read_nat f) / 10 ^ length f; sg = (if neg then -1 else 1)
      in if d = [] then None
         else case exp_part q of
                Some (x, u) \<Rightarrow> Some (VFloat (sg * m * x), u)
              | None \<Rightarrow>
                  if f = [] then Some (VInt (if neg then - int (read_nat d) else int (read_nat d)), r)
                  else Some (VFloat (sg * m), q))"

fun json_value :: "nat \<Rightarrow> string \<Rightarrow> (pyval \<times> string) option"
and json_items :: "nat \<Rightarrow> string \<Rightarrow> (pyval list \<times> string) option"
and json_pairs :: "nat \<Rightarrow> string \<Rightarrow> ((string \<times> pyval) list \<times> string) option" where
  "json_value 0 s = None"
| "json_value (Suc n) s =
     (if s = [] then None
      else if hd s = CHR 0x22 then map_option (\<lambda>(u, r). (VStr u, r)) (json_chars (tl s))
      else if hd s = CHR 0x5B then
        (if startswith (skip (tl s)) [CHR 0x5D] then Some (VList [], tl (skip (tl s)))
         else map_option (\<lambda>(xs, r). (VList xs, r)) (json_items n (skip (tl s))))
      else if hd s = CHR 0x7B then
        (if startswith (skip (tl s)) [CHR 0x7D] then Some (VDict [], tl (skip (tl s)))
         else map_option (\<lambda>(d, r). (VDict (foldl (\<lambda>m (k, v). AList.update k v m) [] d), r))
                (json_pairs n (skip (tl s))))
      else if startswith s ''null'' then Some (VNone, drop 4 s)
      else if startswith s ''true'' then Some (VBool True, drop 4 s)
      else if startswith s ''false'' then Some (VBool False, drop 5 s)
      else json_number s)"
| "json_items 0 s = None"
| "json_items (Suc n) s =
     (case json_value n s of
        None \<Rightarrow> None
      | Some (v, r) \<Rightarrow>
          (if startswith (skip r) '','' then
             map_option (\<lambda>(vs, q). (v # vs, q)) (json_items n (skip (tl (skip r))))
           else if startswith (skip r) [CHR 0x5D] then Some ([v], tl (skip r))
           else None))"
| "json_pairs 0 s = None"
| "json_pairs (Suc n) s =
     (if \<not> startswith s [CHR 0x22] then None
      else case json_chars (tl s) of
             None \<Rightarrow> None
           | Some (k, r) \<Rightarrow>
               (if \<not> startswith (skip r) '':'' then None
                else case json_value n (skip (tl (skip r))) of
                       None \<Rightarrow> None
                     | Some (v, q) \<Rightarrow>
                         (if startswith (skip q) '','' then
                            map_option (\<lambda>(d, t). ((k, v) # d, t)) (json_pairs n (skip (tl (skip q))))
                          else if startswith (skip q) [CHR 0x7D] then Some ([(k, v)], tl (skip q))
                          else None)))"

definition json_loads :: "string \<Rightarrow> pyval py_result" where
  \<comment> \<open>a text that is no JSON is a \<open>JSONDecodeError\<close>, a ValueError\<close>
  "json_loads s =
     (case json_value (2 * length s + 1) (skip s) of
        Some (v, r) \<Rightarrow> if skip r = [] then Inr v else Inl ValueError
      | None \<Rightarrow> Inl ValueError)"

section \<open>Strings and numbers are read back\<close>

lemma of_char_bound: "(of_char (c :: char) :: nat) < 256"
  by simp

lemma unhex_json_hex: "d < 16 \<Longrightarrow> unhex (json_hex d) = Some d"
  by (auto simp: unhex_def json_hex_def Let_def of_char_char_of_small)

lemma unhex_zero: "unhex CHR ''0'' = Some 0"
  by (simp add: unhex_def)

lemma escaped_codes:
  "char_of (0x22 :: nat) = CHR 0x22" "char_of (0x5C :: nat) = CHR 0x5C" "char_of (10 :: nat) = CHR 0x0A"
  "char_of (13 :: nat) = CHR 0x0D" "char_of (9 :: nat) = CHR 0x09" "char_of (8 :: nat) = CHR 0x08"
  "char_of (12 :: nat) = CHR 0x0C"
  by code_simp+

lemma json_char_escape: "json_char (json_escape c @ r) = Some (c, r)"
proof -
  let ?n = "of_char c :: nat"
  have c: "c = char_of ?n" by simp
  have u: "unhex4 (CHR ''0'' # CHR ''0'' # json_hex (?n div 16) # json_hex (?n mod 16) # r) = Some (c, r)"
    using of_char_bound[of c] unhex_json_hex[of "?n div 16"] unhex_json_hex[of "?n mod 16"] unhex_zero
    by (simp add: unhex4_def div_less_iff_less_mult)
  show ?thesis
  proof (cases "?n \<in> {0x22, 0x5C, 10, 13, 9, 8, 12}")
    case True
    then have "c \<in> char_of ` {0x22, 0x5C, 10, 13, 9, 8, 12 :: nat}" using c by blast
    then have "c \<in> {CHR 0x22, CHR 0x5C, CHR 0x0A, CHR 0x0D, CHR 0x09, CHR 0x08, CHR 0x0C}"
      by (simp only: image_insert image_empty escaped_codes)
    then show ?thesis by (auto simp: json_char_def json_escape_def unescape_def)
  next
    case False
    then show ?thesis
    proof (cases "?n < 32 \<or> 126 < ?n")
      case True
      then show ?thesis using False u by (simp add: json_escape_def json_char_def unescape_def Let_def)
    next
      case ok: False
      have "c \<noteq> CHR 0x5C" using False by auto
      then show ?thesis using ok False by (simp add: json_escape_def json_char_def Let_def)
    qed
  qed
qed

lemma json_escape_hd: "json_escape c \<noteq> [] \<and> hd (json_escape c) \<noteq> CHR 0x22"
  by (auto simp: json_escape_def Let_def)

lemma json_chars_string: "json_chars (concat (map json_escape s) @ CHR 0x22 # r) = Some (s, r)"
proof (induction s)
  case (Cons c s)
  have "json_escape c \<noteq> []" "hd (json_escape c) \<noteq> CHR 0x22" using json_escape_hd by auto
  then show ?case using Cons.IH by (subst json_chars.simps) (simp add: json_char_escape)
qed (simp add: json_chars.simps)

lemma show_nat_hd_zero: "hd (show_nat n) = CHR ''0'' \<Longrightarrow> n = 0"
proof (induction n rule: show_nat.induct)
  case (1 n)
  show ?case
  proof (cases "n < 10")
    case True
    then have "hd (show_nat n) = digit_char n" by (subst show_nat.simps) simp
    then have "digit_char n = CHR ''0''" using 1(2) by simp
    then show ?thesis using True digit_val_digit_char[of n] by (simp add: digit_val_def)
  next
    case False
    then have "hd (show_nat n) = hd (show_nat (n div 10))" by (subst show_nat.simps) simp
    then show ?thesis using 1 False by auto
  qed
qed

definition value_end :: "string \<Rightarrow> bool" where
  \<comment> \<open>what may follow a value\<close>
  "value_end r \<longleftrightarrow> r = [] \<or> hd r \<in> {CHR '','', CHR 0x5D, CHR 0x7D}"

lemma value_end_not_number: "value_end r \<Longrightarrow> r = [] \<or> \<not> is_digit (hd r) \<and> hd r \<notin> {CHR ''.'', CHR ''e'', CHR ''E''}"
  by (auto simp: value_end_def is_digit_def)

lemma takeWhile_show_nat:
  "r = [] \<or> \<not> is_digit (hd r) \<Longrightarrow> takeWhile is_digit (show_nat n @ r) = show_nat n"
  using show_nat_digits by (subst takeWhile_append2) (auto simp: takeWhile_eq_Nil_iff)

lemma int_part_nat:
  assumes "value_end r"
  shows "int_part (show_nat n @ r) = show_nat n"
proof (cases "hd (show_nat n) = CHR ''0''")
  case True
  have "show_nat 0 = ''0''" by code_simp
  then show ?thesis using show_nat_hd_zero[OF True] by (simp add: int_part_def)
next
  case False
  then show ?thesis using value_end_not_number[OF assms] takeWhile_show_nat[of r n] by (auto simp: int_part_def)
qed

lemma json_number_int:
  assumes "value_end r"
  shows "json_number (show_int i @ r) = Some (VInt i, r)"
proof -
  note e = value_end_not_number[OF assms]
  have d: "hd (show_nat n) \<noteq> CHR ''-''" for n
    using show_nat_digits[of "hd (show_nat n)" n] by (cases "show_nat n") (auto simp: is_digit_def)
  have f: "frac_part r = []" "exp_part r = None" using e by (auto simp: frac_part_def exp_part_def)
  show ?thesis
  proof (cases "i < 0")
    case True
    then show ?thesis by (simp add: json_number_def show_int_def int_part_nat[OF assms] f)
  next
    case False
    then show ?thesis by (simp add: json_number_def show_int_def int_part_nat[OF assms] f d)
  qed
qed

section \<open>Round trip\<close>

fun json_ok :: "pyval \<Rightarrow> bool" where
  "json_ok (VFloat x) = False"
| "json_ok (VList xs) = list_all json_ok xs"
| "json_ok (VDict d) = (distinct (map fst d) \<and> list_all (\<lambda>p. json_ok (snd p)) d)"
| "json_ok v = True"

lemma show_int_start: "\<exists>c t. show_int i = c # t \<and> (is_digit c \<or> c = CHR ''-'')"
proof -
  have "show_int i \<noteq> []" by (simp add: show_int_def)
  then obtain c t where "show_int i = c # t" by (cases "show_int i") auto
  then show ?thesis using show_int_chars[of c i] by auto
qed

lemma dumps_start:
  "json_ok v \<Longrightarrow> \<exists>c t. json_dumps v = c # t \<and> \<not> json_space c \<and> c \<noteq> CHR 0x5D \<and> c \<noteq> CHR 0x7D"
proof (cases v)
  case (VInt i)
  then show ?thesis using show_int_start[of i] by (auto simp: json_space_def is_digit_def)
qed (auto simp: json_space_def json_string_def)

lemma skip_dumps [simp]: "json_ok v \<Longrightarrow> skip (json_dumps v @ r) = json_dumps v @ r"
  using dumps_start[of v] by (auto simp: skip_def)

lemma skip_space [simp]: "skip (CHR '' '' # s) = skip s"
  by (simp add: skip_def json_space_def)

lemma skip_other [simp]: "\<not> json_space c \<Longrightarrow> skip (c # s) = c # s"
  by (simp add: skip_def)

lemma not_json_space [simp]:
  "\<not> json_space CHR '',''" "\<not> json_space CHR 0x5D" "\<not> json_space CHR 0x7D" "\<not> json_space CHR '':''"
  "\<not> json_space CHR 0x22"
  by (simp_all add: json_space_def)

lemma foldl_update_fresh:
  "distinct (map fst (m @ d)) \<Longrightarrow> foldl (\<lambda>m (k, v). AList.update k v m) m d = m @ d"
proof (induction d arbitrary: m)
  case (Cons p d)
  obtain k v where p: "p = (k, v)" by fastforce
  have "AList.update k v m = m @ [(k, v)]" using Cons.prems p by (intro update_fresh) auto
  then show ?case using Cons.IH[of "m @ [(k, v)]"] Cons.prems p by simp
qed simp

abbreviation reads_back :: "pyval \<Rightarrow> bool" where
  "reads_back v \<equiv> \<forall>n r. value_end r \<longrightarrow> 2 * length (json_dumps v) < n
     \<longrightarrow> json_value n (json_dumps v @ r) = Some (v, r)"

lemma items_read_back:
  assumes "xs \<noteq> []" "\<forall>x \<in> set xs. json_ok x \<and> reads_back x"
    and "2 * length (join '', '' (map json_dumps xs)) + 1 < n"
  shows "json_items n (join '', '' (map json_dumps xs) @ CHR 0x5D # r) = Some (xs, r)"
  using assms
proof (induction xs arbitrary: n)
  case (Cons x xs)
  obtain m where n: "n = Suc m" using Cons.prems(3) by (cases n) auto
  show ?case
  proof (cases xs)
    case Nil
    then show ?thesis using Cons.prems n by (simp add: startswith_def value_end_def)
  next
    case (Cons y ys)
    then have j: "join '', '' (map json_dumps (x # xs)) = json_dumps x @ '', '' @ join '', '' (map json_dumps xs)"
      by simp
    have l: "2 * length (json_dumps x) < m"
      "2 * length (join '', '' (map json_dumps xs)) + 1 < m"
      using Cons.prems(3) n unfolding j by simp_all
    have s: "skip (join '', '' (map json_dumps xs) @ t) = join '', '' (map json_dumps xs) @ t" for t
      using Cons.prems(2) local.Cons by (cases ys) simp_all
    have ih: "json_items m (join '', '' (map json_dumps xs) @ CHR 0x5D # r) = Some (xs, r)"
      using Cons.IH Cons.prems(2) l(2) local.Cons by simp
    show ?thesis
      unfolding n j using Cons.prems(2) l(1) ih s by (simp add: startswith_def value_end_def)
  qed
qed simp

abbreviation pair_text :: "string \<times> pyval \<Rightarrow> string" where
  "pair_text p \<equiv> json_string (fst p) @ '': '' @ json_dumps (snd p)"

lemma json_chars_read: "json_chars (tl (json_string k @ r)) = Some (k, r)"
  using json_chars_string[of k r] by (simp add: json_string_def)

lemma json_string_start: "startswith (json_string k @ r) [CHR 0x22]"
  by (simp add: json_string_def startswith_def)

lemma pairs_read_back:
  assumes "d \<noteq> []" "\<forall>p \<in> set d. json_ok (snd p) \<and> reads_back (snd p)"
    and "2 * length (join '', '' (map pair_text d)) + 1 < n"
  shows "json_pairs n (join '', '' (map pair_text d) @ CHR 0x7D # r) = Some (d, r)"
  using assms
proof (induction d arbitrary: n)
  case (Cons p d)
  obtain m where n: "n = Suc m" using Cons.prems(3) by (cases n) auto
  obtain k v where p: "p = (k, v)" by fastforce
  have v: "json_ok v" "reads_back v" using Cons.prems(2) p by simp_all
  show ?case
  proof (cases d)
    case Nil
    have "2 * length (json_dumps v) < m" using Cons.prems(3) n p Nil by simp
    then have "json_value m (json_dumps v @ CHR 0x7D # r) = Some (v, CHR 0x7D # r)"
      using v by (simp add: value_end_def)
    then show ?thesis
      using v n p Nil by (simp add: json_chars_read json_string_start) (simp add: startswith_def)
  next
    case (Cons q ds)
    let ?t = "join '', '' (map pair_text d)"
    have j: "join '', '' (map pair_text (p # d)) = json_string k @ '': '' @ json_dumps v @ '', '' @ ?t"
      using local.Cons p by simp
    have l: "2 * length (json_dumps v) < m" "2 * length ?t + 1 < m"
      using Cons.prems(3) n unfolding j by simp_all
    have s: "skip (?t @ t) = ?t @ t" for t
      using local.Cons by (cases ds) (simp_all add: json_string_def)
    have ih: "json_pairs m (?t @ CHR 0x7D # r) = Some (d, r)"
      using Cons.IH Cons.prems(2) l(2) local.Cons by simp
    have "json_value m (json_dumps v @ '', '' @ ?t @ CHR 0x7D # r) = Some (v, '', '' @ ?t @ CHR 0x7D # r)"
      using v l(1) by (simp add: value_end_def)
    then show ?thesis
      unfolding n j using p v s ih
      by (simp add: json_chars_read json_string_start) (simp add: startswith_def)
  qed
qed simp

lemma value_reads_back: "json_ok v \<Longrightarrow> reads_back v"
proof (induction v)
  case VNone
  show ?case
  proof (intro allI impI)
    fix n r assume "2 * length (json_dumps VNone) < n"
    then obtain m where "n = Suc m" by (cases n) auto
    then show "json_value n (json_dumps VNone @ r) = Some (VNone, r)" by (simp add: startswith_def)
  qed
next
  case (VBool b)
  show ?case
  proof (intro allI impI)
    fix n r assume "2 * length (json_dumps (VBool b)) < n"
    then obtain m where "n = Suc m" by (cases n) auto
    then show "json_value n (json_dumps (VBool b) @ r) = Some (VBool b, r)" by (simp add: startswith_def)
  qed
next
  case (VInt i)
  show ?case
  proof (intro allI impI)
    fix n r assume v: "value_end r" "2 * length (json_dumps (VInt i)) < n"
    obtain m where n: "n = Suc m" using v(2) by (cases n) auto
    obtain c t where c: "show_int i = c # t" "is_digit c \<or> c = CHR ''-''" using show_int_start by blast
    have "c \<notin> {CHR 0x22, CHR 0x5B, CHR 0x7B, CHR ''n'', CHR ''t'', CHR ''f''}"
      using c(2) by (auto simp: is_digit_def)
    then show "json_value n (json_dumps (VInt i) @ r) = Some (VInt i, r)"
      using n json_number_int[OF v(1), of i] c(1) by (auto simp: startswith_def)
  qed
next
  case (VStr s)
  show ?case
  proof (intro allI impI)
    fix n r assume v: "value_end r" "2 * length (json_dumps (VStr s)) < n"
    obtain m where n: "n = Suc m" using v(2) by (cases n) auto
    show "json_value n (json_dumps (VStr s) @ r) = Some (VStr s, r)"
      using n json_chars_read[of s r] by (simp add: json_string_def)
  qed
next
  case (VList xs)
  show ?case
  proof (intro allI impI)
    fix n r assume v: "value_end r" "2 * length (json_dumps (VList xs)) < n"
    let ?t = "join '', '' (map json_dumps xs)"
    obtain m where n: "n = Suc m" "2 * length ?t + 1 < m" using v(2) by (cases n) auto
    have ok: "\<forall>x \<in> set xs. json_ok x \<and> reads_back x" using VList by (simp add: list_all_iff)
    show "json_value n (json_dumps (VList xs) @ r) = Some (VList xs, r)"
    proof (cases xs)
      case Nil
      then show ?thesis using n by (simp add: startswith_def)
    next
      case (Cons y ys)
      then have "json_ok y" using ok by simp
      then obtain c t where c: "?t = c # t" "\<not> json_space c" "c \<noteq> CHR 0x5D"
        using dumps_start[of y] Cons by (cases ys) auto
      have "json_items m (?t @ CHR 0x5D # r) = Some (xs, r)"
        by (rule items_read_back[OF _ ok n(2)]) (simp add: Cons)
      then show ?thesis using n(1) c by (simp add: startswith_def)
    qed
  qed
next
  case (VDict d)
  show ?case
  proof (intro allI impI)
    fix n r assume v: "value_end r" "2 * length (json_dumps (VDict d)) < n"
    let ?t = "join '', '' (map pair_text d)"
    obtain m where n: "n = Suc m" "2 * length ?t + 1 < m" using v(2) by (cases n) auto
    have ok: "\<forall>p \<in> set d. json_ok (snd p) \<and> reads_back (snd p)"
      using VDict by (fastforce simp: list_all_iff)
    show "json_value n (json_dumps (VDict d) @ r) = Some (VDict d, r)"
    proof (cases d)
      case Nil
      then show ?thesis using n by (simp add: startswith_def)
    next
      case (Cons q qs)
      then obtain t where c: "?t = CHR 0x22 # t" by (cases qs) (auto simp: json_string_def)
      have "json_pairs m (?t @ CHR 0x7D # r) = Some (d, r)"
        by (rule pairs_read_back[OF _ ok n(2)]) (simp add: Cons)
      moreover have "foldl (\<lambda>m (k, v). AList.update k v m) [] d = d"
        using foldl_update_fresh[of "[]" d] VDict.prems by simp
      ultimately show ?thesis using n(1) c by (simp add: startswith_def)
    qed
  qed
qed simp

lemma loads_dumps:
  assumes "json_ok v"
  shows "json_loads (json_dumps v) = Inr v"
proof -
  have "json_value (2 * length (json_dumps v) + 1) (json_dumps v @ []) = Some (v, [])"
    using value_reads_back[OF assms] by (simp add: value_end_def del: json_value.simps append_Nil2)
  moreover have "skip (json_dumps v) = json_dumps v" using skip_dumps[OF assms, of "[]"] by simp
  ultimately show ?thesis by (simp add: json_loads_def skip_def del: json_value.simps)
qed

section \<open>Characters\<close>

abbreviation printable :: "char \<Rightarrow> bool" where
  "printable c \<equiv> 32 \<le> (of_char c :: nat) \<and> (of_char c :: nat) \<le> 126"

lemma json_hex_printable: "d < 16 \<Longrightarrow> printable (json_hex d)"
  by (auto simp: json_hex_def of_char_char_of_small)

lemma json_escape_printable: "d \<in> set (json_escape c) \<Longrightarrow> printable d"
  using json_hex_printable[of "of_char c div 16"] json_hex_printable[of "of_char c mod 16"]
  by (auto simp: json_escape_def Let_def less_mult_imp_div_less split: if_splits)

lemma json_string_printable: "d \<in> set (json_string s) \<Longrightarrow> printable d"
  using json_escape_printable by (auto simp: json_string_def)

lemma set_join: "d \<in> set (join sep xs) \<Longrightarrow> d \<in> set sep \<or> (\<exists>x \<in> set xs. d \<in> set x)"
  by (induction sep xs rule: join.induct) auto

lemma dumps_printable: "json_ok v \<Longrightarrow> \<forall>c \<in> set (json_dumps v). printable c"
proof (induction v)
  case (VInt i)
  have "is_digit c \<or> c = CHR ''-'' \<Longrightarrow> printable c" for c by (auto simp: is_digit_def Let_def)
  then show ?case using show_int_chars[of _ i] by (simp only: json_dumps.simps) blast
next
  case (VList xs)
  then show ?case by (fastforce simp: list_all_iff dest!: set_join)
next
  case (VDict d)
  have "printable c" if p: "p \<in> set d" and c: "c \<in> set (json_string (fst p) @ '': '' @ json_dumps (snd p))" for p c
  proof -
    have "\<forall>c \<in> set (json_dumps (snd p)). printable c"
      using VDict p by (cases p) (fastforce simp: list_all_iff)
    then show ?thesis using c json_string_printable by auto
  qed
  then show ?case by (fastforce dest!: set_join)
qed (auto dest: json_string_printable)

text \<open>A value without floats whose dicts have distinct keys is read back from its text as it was, and the text
  has only printable ASCII characters.\<close>

lemma json_round_trip:
  assumes "json_ok v"
  shows "json_loads (json_dumps v) = Inr v \<and> list_all (\<lambda>c. 32 \<le> (of_char c :: nat) \<and> (of_char c :: nat) \<le> 126) (json_dumps v)"
  using loads_dumps[OF assms] dumps_printable[OF assms] by (simp add: list_all_iff)

definition demo_message :: pyval where
  "demo_message =
     VDict [(''cmd'', VStr [CHR 0x22, CHR 0x0A, CHR 0xE9]), (''n'', VList [VInt (-3), VBool True, VNone, VDict []])]"

lemma json_round_trip_witness:
  "json_loads (json_dumps demo_message) = Inr demo_message"
proof -
  have "json_ok demo_message" by (simp add: demo_message_def)
  from json_round_trip[OF this] show ?thesis by blast
qed

end
