(* ===== verification/Ipc.thy ===== *)
theory Ipc
  imports Json Files
begin

text \<open>
  The two transports between the service and its clients: \<open>platform/ipc.py\<close>, a Unix socket with a line
  of JSON each way, and \<open>ipc.py\<close>, a Windows named pipe with a JSON message each way. What the system
  calls answer is a parameter, as is the command handler of the server. The lemmas show that a client is
  given what the handler answers, however the stream is split, and when a server stops to serve.
\<close>

section \<open>Text as bytes\<close>

definition encode_char :: "char \<Rightarrow> bytes" where
  "encode_char c =
     (let n = (of_char c :: nat) in if n < 128 then [c] else [char_of (192 + n div 64), char_of (128 + n mod 64)])"

definition encode_utf8 :: "string \<Rightarrow> bytes" where
  "encode_utf8 s = concat (map encode_char s)"

fun decode_utf8 :: "bytes \<Rightarrow> string py_result" where
  \<comment> \<open>\<open>UnicodeDecodeError\<close> is a ValueError; characters from 256 on are outside the model's text\<close>
  "decode_utf8 [] = Inr []"
| "decode_utf8 (c # s) =
     (let n = (of_char c :: nat) in
      if n < 128 then bind_res (decode_utf8 s) (\<lambda>t. Inr (c # t))
      else case s of
             [] \<Rightarrow> Inl ValueError
           | d # r \<Rightarrow>
               let m = (of_char d :: nat) in
               if (n = 194 \<or> n = 195) \<and> 128 \<le> m \<and> m < 192
               then bind_res (decode_utf8 r) (\<lambda>t. Inr (char_of ((n - 192) * 64 + (m - 128)) # t))
               else Inl ValueError)"

definition newline :: char where
  "newline = CHR 0x0A"

type_synonym 's handler = "pyval \<Rightarrow> 's \<Rightarrow> pyval py_result \<times> 's"

definition status_error :: "string \<Rightarrow> pyval" where
  "status_error msg = VDict [(''status'', VStr ''error''), (''message'', VStr msg)]"

section \<open>Unix sockets\<close>

datatype recv = Data bytes | Fails py_exc

fun recv_line :: "recv list \<Rightarrow> bytes \<Rightarrow> bytes py_result" where
  \<comment> \<open>the loop over \<open>recv\<close>: no data is the end of the stream\<close>
  "recv_line [] d = Inr d"
| "recv_line (Fails e # rs) d = Inl e"
| "recv_line (Data c # rs) d =
     (if c = [] then Inr d else if newline \<in> set (d @ c) then Inr (d @ c) else recv_line rs (d @ c))"

definition handle_client ::
  "(py_exc \<Rightarrow> string) \<Rightarrow> 's handler \<Rightarrow> recv list \<Rightarrow> bool \<Rightarrow> bool \<Rightarrow> 's \<Rightarrow> bytes option \<times> 's" where
  \<comment> \<open>what is sent back; the Booleans tell whether sending the answer and sending an error succeed\<close>
  "handle_client etext h rs w1 w2 st =
     (let err = (\<lambda>e. if w2 then Some (encode_utf8 (json_dumps (status_error (etext e)) @ [newline])) else None) in
      case recv_line rs [] of
        Inl e \<Rightarrow> (err e, st)
      | Inr d \<Rightarrow>
          if d = [] then (None, st)
          else case bind_res (decode_utf8 d) (\<lambda>t. json_loads (strip t)) of
                 Inl e \<Rightarrow> (err e, st)
               | Inr req \<Rightarrow>
                   (case h req st of
                      (Inl e, st') \<Rightarrow> (err e, st')
                    | (Inr resp, st') \<Rightarrow>
                        (if w1 then Some (encode_utf8 (json_dumps resp @ [newline])) else err OSError, st')))"

datatype accepted = Client "recv list" bool bool | NoClient | Broken

fun accept_loop ::
  "(py_exc \<Rightarrow> string) \<Rightarrow> 's handler \<Rightarrow> accepted list \<Rightarrow> 's \<Rightarrow> bytes option list \<times> 's" where
  \<comment> \<open>an accept times out (\<open>NoClient\<close>) or fails with an OSError (\<open>Broken\<close>); a client's thread runs at once\<close>
  "accept_loop etext h [] st = ([], st)"
| "accept_loop etext h (Client rs w1 w2 # as) st =
     (case handle_client etext h rs w1 w2 st of
        (out, st1) \<Rightarrow> (case accept_loop etext h as st1 of (outs, st2) \<Rightarrow> (out # outs, st2)))"
| "accept_loop etext h (NoClient # as) st = accept_loop etext h as st"
| "accept_loop etext h (Broken # as) st = ([], st)"

record unix_server =
  us_path :: string
  us_socket :: bool
  us_running :: bool

definition new_unix_server :: "string \<Rightarrow> string \<Rightarrow> unix_server" where
  "new_unix_server std p = \<lparr>us_path = (if p = [] then std else p), us_socket = False, us_running = False\<rparr>"

definition unix_start :: "os \<Rightarrow> bool \<Rightarrow> unix_server \<Rightarrow> fs \<Rightarrow> (unix_server \<times> fs) py_result" where
  \<comment> \<open>the Boolean tells whether the socket can be bound\<close>
  "unix_start os ok v s =
     (let p = us_path v in
      case make_dirs os (parent_of (seps os) p) s of
        Inl e \<Rightarrow> Inl OSError
      | Inr s1 \<Rightarrow>
          (case (if path_exists os p s1 then unlink os p s1 else Inr s1) of
             Inl e \<Rightarrow> Inl OSError
           | Inr s2 \<Rightarrow>
               if \<not> ok then Inl OSError
               else (case write_bytes os p [] s2 of
                       Inl e \<Rightarrow> Inl OSError
                     | Inr s3 \<Rightarrow>
                         (case chmod os p (\<lambda>m. 432) s3 of
                            Inl e \<Rightarrow> Inl OSError
                          | Inr s4 \<Rightarrow> Inr (v\<lparr>us_socket := True, us_running := True\<rparr>, s4)))))"

definition unix_stop :: "os \<Rightarrow> unix_server \<Rightarrow> fs \<Rightarrow> unix_server \<times> fs" where
  "unix_stop os v s =
     (v\<lparr>us_running := False\<rparr>, case unlink os (us_path v) s of Inl e \<Rightarrow> s | Inr s' \<Rightarrow> s')"

datatype client_error = NotRunning | TimedOut | EmptyResponse | IpcFailed | Raised py_exc

datatype connect_result = Connects | Refused | ConnectTimesOut | ConnectFails py_exc

definition client_payload :: "pyval \<Rightarrow> bytes" where
  "client_payload cmd = encode_utf8 (json_dumps cmd @ [newline])"

definition send_command ::
  "connect_result \<Rightarrow> client_error option \<Rightarrow> recv list \<Rightarrow> client_error + pyval" where
  \<comment> \<open>\<open>sent\<close> is how sending the payload fails, if it does; \<open>Fails OSError\<close> of a receipt is a timeout\<close>
  "send_command con sent rs =
     (case con of
        Refused \<Rightarrow> Inl NotRunning
      | ConnectTimesOut \<Rightarrow> Inl TimedOut
      | ConnectFails e \<Rightarrow> Inl (Raised e)
      | Connects \<Rightarrow>
          (case sent of
             Some e \<Rightarrow> Inl e
           | None \<Rightarrow>
               (case recv_line rs [] of
                  Inl e \<Rightarrow> Inl (if e = OSError then TimedOut else Raised e)
                | Inr d \<Rightarrow>
                    if d = [] then Inl EmptyResponse
                    else case bind_res (decode_utf8 d) (\<lambda>t. json_loads (strip t)) of
                           Inl e \<Rightarrow> Inl (Raised e)
                         | Inr v \<Rightarrow> Inr v)))"

definition unix_ping :: "client_error + pyval \<Rightarrow> client_error + pyval" where
  \<comment> \<open>of the answer of \<open>send_command\<close>: only the module's own error is caught\<close>
  "unix_ping r =
     (case r of
        Inl (Raised e) \<Rightarrow> Inl (Raised e)
      | Inl e \<Rightarrow> Inr (VBool False)
      | Inr (VDict d) \<Rightarrow> Inr (dict_get_or d ''pong'' (VBool False))
      | Inr v \<Rightarrow> Inl (Raised AttributeError))"

section \<open>Named pipes\<close>

record pipe_call =
  pc_stop :: bool
  pc_connect :: bool
  pc_read :: "bytes option"
  pc_stopped :: bool
  pc_write :: bool

datatype loop_end = Goes_on | Ends | Dies py_exc

definition answer_call :: "(py_exc \<Rightarrow> string) \<Rightarrow> 's handler \<Rightarrow> bytes \<Rightarrow> 's \<Rightarrow> pyval \<times> 's \<times> loop_end" where
  \<comment> \<open>the response to a message, if the loop does not die\<close>
  "answer_call etext h raw st =
     (case bind_res (decode_utf8 raw) json_loads of
        Inl e \<Rightarrow> (status_error (''invalid JSON: '' @ etext e), st, Goes_on)
      | Inr (VDict d) \<Rightarrow>
          if dict_get d ''cmd'' = VStr ''__shutdown__''
          then (VDict [(''status'', VStr ''ok''), (''shutdown'', VBool True)], st, Ends)
          else (case h (VDict d) st of
                  (Inl e, st') \<Rightarrow> (status_error (etext e), st', Goes_on)
                | (Inr resp, st') \<Rightarrow> (resp, st', Goes_on))
      | Inr v \<Rightarrow> (VNone, st, Dies AttributeError))"

definition listen_once ::
  "(py_exc \<Rightarrow> string) \<Rightarrow> 's handler \<Rightarrow> pipe_call \<Rightarrow> 's \<Rightarrow> bytes option \<times> 's \<times> loop_end" where
  \<comment> \<open>one iteration of \<open>_listen_loop\<close>; \<open>pc_stop\<close> and \<open>pc_stopped\<close> are the stop event before and after the wait\<close>
  "listen_once etext h c st =
     (if pc_stop c then (None, st, Ends)
      else if \<not> pc_connect c then (None, st, if pc_stopped c then Ends else Goes_on)
      else case pc_read c of
             None \<Rightarrow> (None, st, Goes_on)
           | Some raw \<Rightarrow>
               if pc_stopped c then (None, st, Ends)
               else (case answer_call etext h raw st of
                       (resp, st', Dies e) \<Rightarrow> (None, st', Dies e)
                     | (resp, st', q) \<Rightarrow>
                         (if pc_write c then Some (encode_utf8 (json_dumps resp)) else None, st', q)))"

record 's pipe_server =
  ps_running :: bool
  ps_listens :: bool
  ps_state :: 's
  ps_sent :: "bytes list"

definition new_pipe_server :: "'s \<Rightarrow> 's pipe_server" where
  "new_pipe_server st = \<lparr>ps_running = False, ps_listens = False, ps_state = st, ps_sent = []\<rparr>"

definition pipe_start :: "bool \<Rightarrow> bool \<Rightarrow> 's pipe_server \<Rightarrow> bool \<times> 's pipe_server" where
  \<comment> \<open>\<open>win32\<close> tells whether pywin32 is there, \<open>made\<close> whether the thread can create the pipe\<close>
  "pipe_start win32 made v =
     (if \<not> win32 then (False, v)
      else if ps_running v then (True, v)
      else (True, v\<lparr>ps_running := True, ps_listens := made\<rparr>))"

definition pipe_stop :: "'s pipe_server \<Rightarrow> 's pipe_server" where
  "pipe_stop v = (if ps_running v then v\<lparr>ps_running := False, ps_listens := False\<rparr> else v)"

definition pipe_serve ::
  "(py_exc \<Rightarrow> string) \<Rightarrow> 's handler \<Rightarrow> pipe_call \<Rightarrow> 's pipe_server \<Rightarrow> 's pipe_server" where
  "pipe_serve etext h c v =
     (if \<not> ps_listens v then v
      else case listen_once etext h c (ps_state v) of
             (out, st, q) \<Rightarrow>
               v\<lparr>ps_state := st, ps_sent := ps_sent v @ (case out of None \<Rightarrow> [] | Some x \<Rightarrow> [x]),
                 ps_listens := (q = Goes_on)\<rparr>)"

datatype pipe_op = Start bool | Call pipe_call

fun pipe_run ::
  "(py_exc \<Rightarrow> string) \<Rightarrow> 's handler \<Rightarrow> pipe_op list \<Rightarrow> 's pipe_server \<Rightarrow> 's pipe_server" where
  "pipe_run etext h [] v = v"
| "pipe_run etext h (Start made # ops) v = pipe_run etext h ops (snd (pipe_start True made v))"
| "pipe_run etext h (Call c # ops) v = pipe_run etext h ops (pipe_serve etext h c v)"

definition default_handler :: "real \<Rightarrow> 's handler" where
  "default_handler now req st =
     (case req of
        VDict d \<Rightarrow>
          (Inr (if dict_get d ''cmd'' = VStr ''ping''
                then VDict [(''status'', VStr ''ok''), (''pong'', VBool True), (''time'', VFloat now)]
                else status_error (''unknown command: '' @ py_str (dict_get d ''cmd''))), st)
      | _ \<Rightarrow> (Inl AttributeError, st))"

datatype pipe_answer = Answer bytes | PipeError int | OtherError

fun pipe_send :: "real \<Rightarrow> (pipe_answer \<times> real) list \<Rightarrow> (client_error + pyval) option" where
  \<comment> \<open>\<open>send\<close> over the answers of \<open>CallNamedPipe\<close> and the clock after each; \<open>None\<close>: it still waits\<close>
  "pipe_send deadline [] = None"
| "pipe_send deadline ((Answer d, t) # as) =
     Some (case bind_res (decode_utf8 d) json_loads of Inl e \<Rightarrow> Inl IpcFailed | Inr v \<Rightarrow> Inr v)"
| "pipe_send deadline ((OtherError, t) # as) = Some (Inl IpcFailed)"
| "pipe_send deadline ((PipeError n, t) # as) =
     (if n \<in> {2, 231} \<and> t < deadline then pipe_send deadline as else Some (Inl IpcFailed))"

definition is_service_running :: "client_error + pyval \<Rightarrow> bool" where
  "is_service_running r =
     (case r of
        Inr (VDict d) \<Rightarrow> dict_get d ''status'' = VStr ''ok'' \<and> dict_get d ''pong'' = VBool True
      | _ \<Rightarrow> False)"

definition client_command :: "string \<Rightarrow> string option \<Rightarrow> pyval" where
  "client_command c target =
     VDict ((''cmd'', VStr c) # (case target of None \<Rightarrow> [] | Some t \<Rightarrow> [(''target'', VStr t)]))"

section \<open>Lemmas on text\<close>

lemma quarter: "128 \<le> n \<Longrightarrow> n < 256 \<Longrightarrow> n div 64 = 2 \<or> n div 64 = (3 :: nat)"
  using div_le_mono[of 128 n 64] less_mult_imp_div_less[of n 4 64] by auto

lemma decode_encode: "decode_utf8 (encode_utf8 s @ r) = bind_res (decode_utf8 r) (\<lambda>t. Inr (s @ t))"
proof (induction s)
  case Nil
  then show ?case by (cases "decode_utf8 r") (simp_all add: encode_utf8_def)
next
  case (Cons c s)
  let ?n = "of_char c :: nat"
  have b: "?n < 256" by simp
  show ?case
  proof (cases "?n < 128")
    case True
    then show ?thesis using Cons.IH by (cases "decode_utf8 r") (simp_all add: encode_utf8_def encode_char_def)
  next
    case False
    let ?k = "192 + ?n div 64" and ?m = "128 + ?n mod 64"
    have d: "?k = 194 \<or> ?k = 195" using quarter[of ?n] False b by auto
    have m: "128 \<le> ?m" "?m < 192" by simp_all
    have kc: "of_char (char_of ?k :: char) = ?k" using d by (intro of_char_char_of_small) auto
    have mc: "of_char (char_of ?m :: char) = ?m" using m(2) by (intro of_char_char_of_small) simp
    have v: "(?k - 192) * 64 + (?m - 128) = ?n" by simp
    have e: "encode_char c = [char_of ?k, char_of ?m]" using False by (simp add: encode_char_def Let_def)
    have "decode_utf8 (encode_char c @ q) = bind_res (decode_utf8 q) (\<lambda>t. Inr (c # t))" for q
      unfolding e append_Cons append_Nil decode_utf8.simps list.case Let_def kc mc v using d m by (simp only: if_True if_False not_less) simp
    then show ?thesis using Cons.IH by (cases "decode_utf8 r") (simp_all add: encode_utf8_def)
  qed
qed

lemma decode_encode_all [simp]: "decode_utf8 (encode_utf8 s) = Inr s"
  using decode_encode[of s "[]"] by simp

lemma encode_ascii: "(\<forall>c \<in> set s. (of_char c :: nat) < 128) \<Longrightarrow> encode_utf8 s = s"
  by (induction s) (simp_all add: encode_utf8_def encode_char_def)

lemma encode_message:
  assumes "json_ok v"
  shows "encode_utf8 (json_dumps v @ [newline]) = json_dumps v @ [newline]" "newline \<notin> set (json_dumps v)"
proof -
  have "(of_char c :: nat) < 128" if "c \<in> set (json_dumps v)" for c
    using dumps_printable[OF assms] that by fastforce
  then show "encode_utf8 (json_dumps v @ [newline]) = json_dumps v @ [newline]"
    by (intro encode_ascii) (auto simp: newline_def)
  show "newline \<notin> set (json_dumps v)" using dumps_printable[OF assms] by (auto simp: newline_def)
qed

lemma dumps_ends:
  assumes "json_ok v"
  shows "json_dumps v \<noteq> []" "\<not> is_space (hd (json_dumps v))" "\<not> is_space (last (json_dumps v))"
proof -
  show n: "json_dumps v \<noteq> []" using dumps_start[OF assms] by auto
  then have p: "printable (hd (json_dumps v))" using dumps_printable[OF assms] by simp
  have "hd (json_dumps v) \<noteq> CHR '' ''" using dumps_start[OF assms] by (auto simp: json_space_def)
  moreover have sp: "c = CHR '' ''" if "is_space c" "printable c" for c
  proof -
    have "(of_char c :: nat) = of_char (CHR '' '')" using that by (auto simp: is_space_def Let_def)
    then show ?thesis by (simp only: of_char_eq_iff)
  qed
  ultimately show "\<not> is_space (hd (json_dumps v))" using p by blast
  show "\<not> is_space (last (json_dumps v))"
  proof (cases v)
    case (VInt i)
    have "last (show_int i) \<in> set (show_int i)" using n VInt by simp
    then show ?thesis using VInt show_int_no_space[of "last (show_int i)" i] by simp
  qed (use assms in \<open>auto simp: is_space_def json_string_def\<close>)
qed

lemma strip_message:
  assumes "json_ok v"
  shows "strip (json_dumps v @ [newline]) = json_dumps v" "strip (json_dumps v) = json_dumps v"
proof -
  obtain c t where c: "json_dumps v = c # t" "\<not> is_space c"
    using dumps_ends(1,2)[OF assms] by (cases "json_dumps v") auto
  obtain u d where d: "json_dumps v = u @ [d]" "\<not> is_space d"
    using dumps_ends(1,3)[OF assms] by (cases "json_dumps v" rule: rev_cases) auto
  have n: "is_space newline" by (simp add: is_space_def newline_def)
  have l: "dropWhile is_space (json_dumps v @ r) = json_dumps v @ r" for r using c by simp
  show "strip (json_dumps v @ [newline]) = json_dumps v" unfolding strip_def l using d n by simp
  show "strip (json_dumps v) = json_dumps v" unfolding strip_def using l[of "[]"] d by simp
qed

lemma recv_line_chunks:
  assumes "concat cs = d @ [newline]" "newline \<notin> set d" "newline \<notin> set acc" "[] \<notin> set cs"
  shows "recv_line (map Data cs @ rest) acc = Inr (acc @ d @ [newline])"
  using assms
proof (induction cs arbitrary: acc d)
  case (Cons c cs)
  show ?case
  proof (cases "newline \<in> set c")
    case True
    have "concat cs = []"
    proof (rule ccontr)
      assume "concat cs \<noteq> []"
      then have "c @ butlast (concat cs) = d" using Cons.prems(1)
        by (metis butlast_append butlast_snoc concat.simps(2))
      then show False using True Cons.prems(2) by auto
    qed
    then have "cs = []" using Cons.prems(4) by (cases cs) auto
    then show ?thesis using True Cons.prems by auto
  next
    case False
    then have "concat cs \<noteq> []" using Cons.prems(1) by (metis append_Nil2 concat.simps(2) in_set_conv_decomp)
    then obtain e where e: "concat cs = e @ [newline]" "d = c @ e"
      using Cons.prems(1) by (cases "concat cs" rule: rev_cases) auto
    have "recv_line (map Data cs @ rest) (acc @ c) = Inr ((acc @ c) @ e @ [newline])"
      by (rule Cons.IH[OF e(1)]) (use Cons.prems e(2) False in auto)
    then show ?thesis using Cons.prems False e(2) by auto
  qed
qed simp

lemma recv_message:
  assumes "json_ok v" "concat cs = json_dumps v @ [newline]" "[] \<notin> set cs"
  shows "recv_line (map Data cs @ rest) [] = Inr (json_dumps v @ [newline])"
  using recv_line_chunks[OF assms(2) encode_message(2)[OF assms(1)] _ assms(3)] by simp

lemma decode_message:
  assumes "json_ok v"
  shows "bind_res (decode_utf8 (json_dumps v @ [newline])) (\<lambda>t. json_loads (strip t)) = Inr v"
    "bind_res (decode_utf8 (encode_utf8 (json_dumps v))) json_loads = Inr v"
  using decode_encode_all[of "json_dumps v @ [newline]"] strip_message(1)[OF assms] loads_dumps[OF assms]
  by (simp_all add: encode_message(1)[OF assms])

section \<open>What a client is given\<close>

text \<open>Over the socket, however the two lines are split into pieces and whatever follows the first, the handler
  is given the client's command and the client the handler's answer.\<close>

lemma unix_exchange:
  assumes "json_ok cmd" "h cmd st = (Inr resp, st')" "json_ok resp"
    and "concat cs = client_payload cmd" "[] \<notin> set cs"
    and "concat ds = encode_utf8 (json_dumps resp @ [newline])" "[] \<notin> set ds"
  shows "handle_client etext h (map Data cs @ rest) True w2 st
      = (Some (encode_utf8 (json_dumps resp @ [newline])), st')
    \<and> send_command Connects None (map Data ds) = Inr resp"
proof -
  have c: "recv_line (map Data cs @ rest) [] = Inr (json_dumps cmd @ [newline])"
    by (rule recv_message[OF assms(1) _ assms(5)])
      (use assms(4) in \<open>simp add: client_payload_def encode_message(1)[OF assms(1)]\<close>)
  have r: "recv_line (map Data ds) [] = Inr (json_dumps resp @ [newline])"
    using recv_message[OF assms(3) _ assms(7), of "[]"] assms(6) by (simp add: encode_message(1)[OF assms(3)])
  show ?thesis
    using decode_message(1)[OF assms(1)] decode_message(1)[OF assms(3)] assms(2)
    by (simp add: handle_client_def send_command_def c r Let_def)
qed

definition demo_ping :: pyval where
  "demo_ping = VDict [(''cmd'', VStr ''ping'')]"

definition demo_pong :: pyval where
  "demo_pong = VDict [(''status'', VStr ''ok''), (''pong'', VBool True)]"

lemma unix_exchange_witness:
  "send_command Connects None [Data (json_dumps demo_pong), Data [newline]] = Inr demo_pong
   \<and> unix_ping (Inr demo_pong) = Inr (VBool True)"
proof -
  have o: "json_ok demo_ping" "json_ok demo_pong" by (simp_all add: demo_ping_def demo_pong_def)
  have "concat [json_dumps demo_pong, [newline]] = encode_utf8 (json_dumps demo_pong @ [newline])"
    by (simp add: encode_message(1)[OF o(2)])
  moreover have "[] \<notin> set [json_dumps demo_pong, [newline]]" using dumps_ends(1)[OF o(2)] by auto
  moreover have "concat [client_payload demo_ping] = client_payload demo_ping"
    "[] \<notin> set [client_payload demo_ping]"
    by (simp_all add: client_payload_def encode_message(1)[OF o(1)])
  ultimately have "send_command Connects None (map Data [json_dumps demo_pong, [newline]]) = Inr demo_pong"
    using unix_exchange[OF o(1) _ o(2), of "\<lambda>c s. (Inr demo_pong, s)" "()" "()"] by blast
  then show ?thesis by (simp add: unix_ping_def demo_pong_def dict_get_or_def)
qed

text \<open>Over the pipe, a listening server sends for an object whose command is not the shutdown command exactly
  what the handler answers, as the client reads it, and goes on listening.\<close>

lemma pipe_exchange:
  assumes "ps_listens v" "json_ok (VDict d)" "dict_get d ''cmd'' \<noteq> VStr ''__shutdown__''"
    and "h (VDict d) (ps_state v) = (Inr resp, st')" "json_ok resp"
    and "\<not> pc_stop c" "pc_connect c" "pc_read c = Some (encode_utf8 (json_dumps (VDict d)))"
    and "\<not> pc_stopped c" "pc_write c"
  shows "\<exists>out. pipe_serve etext h c v = v\<lparr>ps_state := st', ps_sent := ps_sent v @ [out], ps_listens := True\<rparr>
    \<and> (\<forall>dl t rest. pipe_send dl ((Answer out, t) # rest) = Some (Inr resp))"
proof -
  have "answer_call etext h (encode_utf8 (json_dumps (VDict d))) (ps_state v) = (resp, st', Goes_on)"
    using assms(3,4) decode_message(2)[OF assms(2)] by (simp add: answer_call_def)
  then have "listen_once etext h c (ps_state v) = (Some (encode_utf8 (json_dumps resp)), st', Goes_on)"
    using assms(6-10) by (simp add: listen_once_def)
  then have "pipe_serve etext h c v = v\<lparr>ps_state := st',
      ps_sent := ps_sent v @ [encode_utf8 (json_dumps resp)], ps_listens := True\<rparr>"
    using assms(1) by (simp add: pipe_serve_def)
  moreover have "pipe_send dl ((Answer (encode_utf8 (json_dumps resp)), t) # rest) = Some (Inr resp)" for dl t rest
    using decode_message(2)[OF assms(5)] by simp
  ultimately show ?thesis by blast
qed

locale answering =
  fixes h :: "'s handler"
  assumes answers: "json_ok (VDict d) \<Longrightarrow> \<exists>resp st'. h (VDict d) st = (Inr resp, st') \<and> json_ok resp"
begin

lemma answered_over_socket:
  assumes "json_ok (VDict d)"
  shows "\<exists>resp st'. h (VDict d) st = (Inr resp, st') \<and> json_ok resp
    \<and> (\<forall>cs rest w2. concat cs = client_payload (VDict d) \<longrightarrow> [] \<notin> set cs \<longrightarrow>
         handle_client etext h (map Data cs @ rest) True w2 st
           = (Some (encode_utf8 (json_dumps resp @ [newline])), st'))
    \<and> (\<forall>ds. concat ds = encode_utf8 (json_dumps resp @ [newline]) \<longrightarrow> [] \<notin> set ds \<longrightarrow>
         send_command Connects None (map Data ds) = Inr resp)"
proof -
  obtain resp st' where r: "h (VDict d) st = (Inr resp, st')" "json_ok resp" using answers[OF assms] by blast
  have c: "concat [client_payload (VDict d)] = client_payload (VDict d)" "[] \<notin> set [client_payload (VDict d)]"
    by (simp_all add: client_payload_def encode_message(1)[OF assms] del: json_dumps.simps)
  let ?out = "encode_utf8 (json_dumps resp @ [newline])"
  have o: "concat [?out] = ?out" "[] \<notin> set [?out]" by (simp_all add: encode_message(1)[OF r(2)] del: json_dumps.simps)
  note ex = unix_exchange[where cmd = "VDict d" and h = h and st = st and resp = resp and st' = st', OF assms r]
  show ?thesis using r ex[OF _ _ o] ex[OF c] by blast
qed

lemma answered_over_pipe:
  assumes "json_ok (VDict d)" "dict_get d ''cmd'' \<noteq> VStr ''__shutdown__''" "ps_listens v"
    and "\<not> pc_stop c" "pc_connect c" "pc_read c = Some (encode_utf8 (json_dumps (VDict d)))"
    and "\<not> pc_stopped c" "pc_write c"
  shows "\<exists>resp st' out. h (VDict d) (ps_state v) = (Inr resp, st')
    \<and> pipe_serve etext h c v = v\<lparr>ps_state := st', ps_sent := ps_sent v @ [out], ps_listens := True\<rparr>
    \<and> (\<forall>dl t rest. pipe_send dl ((Answer out, t) # rest) = Some (Inr resp))"
proof -
  obtain resp st' where r: "h (VDict d) (ps_state v) = (Inr resp, st')" "json_ok resp"
    using answers[OF assms(1)] by blast
  have "\<exists>out. pipe_serve etext h c v = v\<lparr>ps_state := st', ps_sent := ps_sent v @ [out], ps_listens := True\<rparr>
      \<and> (\<forall>dl t rest. pipe_send dl ((Answer out, t) # rest) = Some (Inr resp))"
    by (rule pipe_exchange[where d = d and resp = resp and h = h and st' = st']) (fact assms r)+
  then show ?thesis using r(1) by blast
qed

end

definition demo_pipe_call :: pipe_call where
  "demo_pipe_call = \<lparr>pc_stop = False, pc_connect = True, pc_read = Some (encode_utf8 (json_dumps demo_ping)),
     pc_stopped = False, pc_write = True\<rparr>"

lemma pipe_exchange_witness:
  "\<exists>out. ps_sent (pipe_serve (\<lambda>e. []) (\<lambda>c s. (Inr demo_pong, s)) demo_pipe_call
       \<lparr>ps_running = True, ps_listens = True, ps_state = (), ps_sent = []\<rparr>) = [out]
     \<and> pipe_send 0 [(Answer out, 0)] = Some (Inr demo_pong)"
proof -
  let ?v = "\<lparr>ps_running = True, ps_listens = True, ps_state = (), ps_sent = []\<rparr>"
  have "\<exists>out. pipe_serve (\<lambda>e. []) (\<lambda>c s. (Inr demo_pong, s)) demo_pipe_call ?v
       = ?v\<lparr>ps_state := (), ps_sent := ps_sent ?v @ [out], ps_listens := True\<rparr>
     \<and> (\<forall>dl t rest. pipe_send dl ((Answer out, t) # rest) = Some (Inr demo_pong))"
    by (rule pipe_exchange[where d = "[(''cmd'', VStr ''ping'')]"])
      (simp_all add: demo_ping_def demo_pong_def demo_pipe_call_def dict_get_def)
  then show ?thesis by auto
qed

section \<open>When the pipe server stops to serve\<close>

definition ends_pipe :: "pipe_call \<Rightarrow> bool" where
  \<comment> \<open>what ends the listening loop besides the stop event: any client's shutdown command or value that is no object\<close>
  "ends_pipe c \<longleftrightarrow>
     (case pc_read c of
        None \<Rightarrow> False
      | Some raw \<Rightarrow>
          (case bind_res (decode_utf8 raw) json_loads of
             Inl e \<Rightarrow> False
           | Inr (VDict d) \<Rightarrow> dict_get d ''cmd'' = VStr ''__shutdown__''
           | Inr v \<Rightarrow> True))"

lemma answer_call_ends:
  "snd (snd (answer_call etext h raw st)) \<noteq> Goes_on \<longleftrightarrow>
     (case bind_res (decode_utf8 raw) json_loads of
        Inl e \<Rightarrow> False | Inr (VDict d) \<Rightarrow> dict_get d ''cmd'' = VStr ''__shutdown__'' | Inr v \<Rightarrow> True)"
  by (auto simp: answer_call_def split: sum.split pyval.split prod.split)

lemma listen_once_ends:
  "snd (snd (listen_once etext h c st)) \<noteq> Goes_on \<longleftrightarrow>
     pc_stop c \<or> pc_connect c \<and> pc_read c \<noteq> None \<and> pc_stopped c \<or> \<not> pc_connect c \<and> pc_stopped c
     \<or> pc_connect c \<and> ends_pipe c"
proof (cases "pc_read c")
  case (Some raw)
  show ?thesis
    using answer_call_ends[of etext h raw st] Some
    by (cases "answer_call etext h raw st") (auto simp: listen_once_def ends_pipe_def split: loop_end.splits)
qed (auto simp: listen_once_def ends_pipe_def)

lemma dead_pipe: "\<not> ps_listens v \<Longrightarrow> ps_running v \<Longrightarrow> pipe_run etext h ops v = v"
proof (induction ops)
  case (Cons op ops)
  then show ?case by (cases op) (simp_all add: pipe_start_def pipe_serve_def)
qed simp

text \<open>While the server is not told to stop, the pipe's loop goes on after every message but two kinds, which
  any client can send: the shutdown command, and JSON that is no object. After one of these no later message is
  ever answered, and starting the server again changes nothing, since it still counts as running.\<close>

lemma pipe_dies_for_good:
  assumes "ps_listens v" "ps_running v" "\<not> pc_stop c" "\<not> pc_stopped c" "pc_connect c"
  shows "if ends_pipe c then pipe_run etext h (Call c # ops) v = pipe_serve etext h c v
      \<and> \<not> ps_listens (pipe_serve etext h c v)
    else ps_listens (pipe_serve etext h c v)"
proof -
  have l: "ps_listens (pipe_serve etext h c v) \<longleftrightarrow> \<not> ends_pipe c"
    using listen_once_ends[of etext h c "ps_state v"] assms
    by (cases "listen_once etext h c (ps_state v)") (auto simp: pipe_serve_def)
  moreover have "ps_running (pipe_serve etext h c v)"
    using assms by (simp add: pipe_serve_def split: prod.split)
  ultimately show ?thesis using dead_pipe[of "pipe_serve etext h c v" etext h ops] by simp
qed

definition demo_null_call :: pipe_call where
  "demo_null_call = \<lparr>pc_stop = False, pc_connect = True, pc_read = Some ''null'', pc_stopped = False, pc_write = True\<rparr>"

lemma pipe_dies_for_good_witness:
  "ps_sent (pipe_run (\<lambda>e. []) (\<lambda>c s. (Inr demo_pong, s)) [Call demo_null_call, Start True, Call demo_pipe_call]
      \<lparr>ps_running = True, ps_listens = True, ps_state = (), ps_sent = []\<rparr>) = []"
proof -
  let ?v = "\<lparr>ps_running = True, ps_listens = True, ps_state = (), ps_sent = []\<rparr>"
  let ?h = "\<lambda>c s. (Inr demo_pong, s)"
  have n: "bind_res (decode_utf8 ''null'') json_loads = Inr VNone" by code_simp
  then have e: "ends_pipe demo_null_call" by (simp add: ends_pipe_def demo_null_call_def)
  have "if ends_pipe demo_null_call
    then pipe_run (\<lambda>e. []) ?h (Call demo_null_call # [Start True, Call demo_pipe_call]) ?v
        = pipe_serve (\<lambda>e. []) ?h demo_null_call ?v \<and> \<not> ps_listens (pipe_serve (\<lambda>e. []) ?h demo_null_call ?v)
    else ps_listens (pipe_serve (\<lambda>e. []) ?h demo_null_call ?v)"
    by (rule pipe_dies_for_good) (simp_all add: demo_null_call_def)
  then have "pipe_run (\<lambda>e. []) ?h [Call demo_null_call, Start True, Call demo_pipe_call] ?v
      = pipe_serve (\<lambda>e. []) ?h demo_null_call ?v" using e by simp
  moreover have "ps_sent (pipe_serve (\<lambda>e. []) ?h demo_null_call ?v) = []"
    using n by (simp add: pipe_serve_def listen_once_def answer_call_def demo_null_call_def)
  ultimately show ?thesis by simp
qed

end
