(* ===== verification/EmberStrings.thy ===== *)
theory EmberStrings
  imports StaticClassifier Ipc "HOL-Library.Char_ord" "HOL-Library.List_Lexorder"
begin

text \<open>
  The strings of a file, from \<open>engine/ember_extractor.py\<close>: the runs of printable bytes, their statistics
  and the 77 patterns they are searched for. A pattern of \<open>re\<close> is a term of \<open>rx\<close>; \<open>ends\<close> gives the
  positions at which it can stop, so that \<open>re.search\<close> is whether some start has an end. The lemmas show
  which runs are found, that the patterns have slots of their own and that a slot holds the number of
  strings its pattern occurs in.
\<close>

section \<open>Regular expressions\<close>

datatype rx =
    Eps | One "char \<Rightarrow> bool" | Boundary | Seq rx rx | Alt rx rx
  | Rep nat "nat option" rx \<comment> \<open>at least so many times, at most so many; \<open>None\<close> for no bound\<close>

definition is_word :: "char \<Rightarrow> bool" where
  "is_word c = (let n = (of_char c :: nat) in
     (48 \<le> n \<and> n \<le> 57) \<or> (65 \<le> n \<and> n \<le> 90) \<or> n = 95 \<or> (97 \<le> n \<and> n \<le> 122))"

definition word_boundary :: "string \<Rightarrow> nat \<Rightarrow> bool" where
  "word_boundary s i \<longleftrightarrow>
     (0 < i \<and> i \<le> length s \<and> is_word (s ! (i - 1))) \<noteq> (i < length s \<and> is_word (s ! i))"

primrec ends :: "rx \<Rightarrow> string \<Rightarrow> nat \<Rightarrow> nat list" where
  "ends Eps s i = [i]"
| "ends (One p) s i = (if i < length s \<and> p (s ! i) then [Suc i] else [])"
| "ends Boundary s i = (if word_boundary s i then [i] else [])"
| "ends (Seq a b) s i = concat (map (ends b s) (ends a s i))"
| "ends (Alt a b) s i = ends a s i @ ends b s i"
| "ends (Rep lo hi a) s i =
     concat (map (\<lambda>k. ((\<lambda>js. remdups (concat (map (ends a s) js))) ^^ k) [i])
       [lo..<Suc (case hi of None \<Rightarrow> length s | Some h \<Rightarrow> h)])"

definition rx_search :: "rx \<Rightarrow> string \<Rightarrow> bool" where
  "rx_search r s = list_ex (\<lambda>i. ends r s i \<noteq> []) [0..<Suc (length s)]"

definition lit :: "string \<Rightarrow> rx" where
  "lit s = foldr (\<lambda>x r. Seq (One (\<lambda>c. c = x)) r) s Eps"

definition ilit :: "string \<Rightarrow> rx" where
  \<comment> \<open>\<open>re.IGNORECASE\<close>; the strings searched hold ASCII only\<close>
  "ilit s = foldr (\<lambda>x r. Seq (One (\<lambda>c. char_lower c = char_lower x)) r) s Eps"

definition alts :: "rx list \<Rightarrow> rx" where
  "alts rs = (case rs of [] \<Rightarrow> Eps | r # rest \<Rightarrow> foldl Alt r rest)"

definition between :: "char \<Rightarrow> char \<Rightarrow> char \<Rightarrow> bool" where
  "between a b c \<longleftrightarrow> (of_char a :: nat) \<le> of_char c \<and> (of_char c :: nat) \<le> of_char b"

section \<open>The patterns\<close>

definition digit :: "char \<Rightarrow> rx" where
  "digit up_to = One (between CHR ''0'' up_to)"

definition hex_digit :: rx where
  "hex_digit = One (\<lambda>c. between CHR ''A'' CHR ''F'' c \<or> between CHR ''a'' CHR ''f'' c \<or> between CHR ''0'' CHR ''9'' c)"

definition url_rx :: rx where
  "url_rx =
     Seq Boundary (Seq (alts (map lit [''http'', ''https'', ''ftp''])) (Seq (lit ''://'')
       (Rep 1 None (One (\<lambda>c. between CHR ''a'' CHR ''z'' c \<or> between CHR ''A'' CHR ''Z'' c
          \<or> between CHR ''0'' CHR ''9'' c \<or> c \<in> set (''-._~:?#[]@!$&()*+,;='' @ [CHR 0x27]))))))"

definition octet_rx :: rx where
  "octet_rx =
     alts [Seq (lit ''25'') (digit CHR ''5''),
           Seq (lit ''2'') (Seq (digit CHR ''4'') (digit CHR ''9'')),
           Seq (Rep 0 (Some 1) (digit CHR ''1'')) (Seq (digit CHR ''9'') (Rep 0 (Some 1) (digit CHR ''9'')))]"

definition ipv4_rx :: rx where
  "ipv4_rx = Seq Boundary (Seq (Rep 3 (Some 3) (Seq octet_rx (lit ''.''))) (Seq octet_rx Boundary))"

definition ipv6_rx :: rx where
  "ipv6_rx =
     (let h = Rep 1 (Some 4) hex_digit; hc = Seq h (lit '':'') in
      alts [Seq Boundary (Seq (Rep 7 (Some 7) hc) (Seq h Boundary)),
            Seq Boundary (Seq (Rep 1 (Some 7) hc) (Seq (lit '':'') Boundary)),
            Seq Boundary (Seq (lit '':'') (Seq h (Seq (Rep 1 (Some 6) (Seq (lit '':'') h)) Boundary)))])"

definition mac_rx :: rx where
  "mac_rx =
     (let two = Rep 2 (Some 2) hex_digit in
      Seq Boundary (Seq (Rep 5 (Some 5) (Seq two (One (\<lambda>c. c = CHR '':'' \<or> c = CHR ''-''))))
        (Seq two Boundary)))"

definition btc_rx :: rx where
  "btc_rx =
     Seq (One (\<lambda>c. c = CHR ''1'' \<or> c = CHR ''3''))
       (Rep 25 (Some 34) (One (\<lambda>c. between CHR ''a'' CHR ''k'' c \<or> between CHR ''m'' CHR ''z'' c
          \<or> between CHR ''A'' CHR ''H'' c \<or> between CHR ''J'' CHR ''N'' c \<or> between CHR ''P'' CHR ''Z'' c
          \<or> between CHR ''1'' CHR ''9'' c)))"

definition base64_rx :: rx where
  \<comment> \<open>the plus sign of the alphabet is a repetition of the nine before it\<close>
  "base64_rx =
     Seq (lit ''ABCDEFGHIJKLMNOPQRSTUVWXYZabcdefghijklmnopqrstuvwxyz012345678'')
       (Seq (Rep 1 None (lit ''9'')) (lit ''/''))"

definition regexes :: "(string, rx) dict" where
  "regexes =
     [(''url'', url_rx), (''ipv4_addr'', ipv4_rx), (''ipv6_addr'', ipv6_rx), (''mac_addr'', mac_rx),
      (''email_addr'', mac_rx) \<comment> \<open>the pattern of \<open>mac_addr\<close>, as in the code\<close>, (''btc_wallet'', btc_rx), (''file_path'', Seq Boundary (lit ''C:/'')),
      (''dos_msg'', lit ''!This program ''),
      (''registry_key'', Seq Boundary (alts (map lit [''KHEY_'', ''KHLM'', ''HKCU'']))),
      (''/dev/'', lit ''/dev/''), (''/proc/'', lit ''/proc/''), (''/bin/'', lit ''/bin/''),
      (''/usr/'', lit ''/usr/''), (''/tmp/'', lit ''/tmp/''), (''/URI'', lit ''/URI''),
      (''/FlateDecode'', lit ''/FlateDecode''), (''/EmbeddedFile'', lit ''/EmbeddedFile''),
      (''html'', ilit ''html''), (''javascript'', ilit ''javascript''), (''<script'', ilit ''<script''),
      (''.click('', Seq (One (\<lambda>c. c \<noteq> CHR 0x0A)) (ilit ''click'')),
      (''onlick'', ilit ''onclick''), (''powershell'', ilit ''powershell''),
      (''Invoke-Expression'', lit ''Invoke-Expression''), (''Invoke-Command'', lit ''Invoke-Command''),
      (''Start-process'', lit ''Start-process''), (''get'', ilit ''GET /''),
      (''post'', ilit ''POST /''), (''http'', ilit ''HTTP/''), (''http://'', ilit ''http://''),
      (''https://'', ilit ''https://''), (''ftp'', ilit ''ftp:''), (''useragent'', ilit ''User-Agent''),
      (''cookie'', ilit ''cookie''), (''internet'', ilit ''internet''),
      (''download'', ilit ''download''), (''connect'', ilit ''connect''), (''base64'', ilit ''base64''),
      (''base64string'', base64_rx),
      (''crypt'', lit ''crypt''), (''encode'', ilit ''encode''), (''decode'', ilit ''decode''),
      (''cache'', ilit ''cache''), (''certificate'', ilit ''certificate''),
      (''clipboard'', ilit ''clipboard''), (''command'', ilit ''command''),
      (''create'', ilit ''create''), (''debug'', ilit ''debug''), (''delete'', ilit ''delete''),
      (''desktop'', ilit ''desktop''), (''directory'', ilit ''directory''), (''disk'', ilit ''disk''),
      (''environment'', ilit ''environment''), (''enum'', ilit ''enum''), (''exit'', ilit ''exit''),
      (''file'', ilit ''file''), (''hostname'', ilit ''hostname''), (''install'', ilit ''install''),
      (''hidden'', ilit ''hidden''), (''keyboard'', ilit ''keyboard''), (''memory'', ilit ''memory''),
      (''module'', ilit ''module''), (''mutex'', ilit ''mutex''), (''password'', ilit ''password''),
      (''privilege'', ilit ''privilege''), (''process'', ilit ''process''),
      (''remote'', ilit ''remote''), (''resource'', ilit ''resource''),
      (''security'', ilit ''security''), (''service'', ilit ''service''), (''shell'', ilit ''shell''),
      (''snapshot'', ilit ''snapshot''), (''system'', ilit ''system''), (''thread'', ilit ''thread''),
      (''token'', ilit ''token''), (''wallet'', ilit ''wallet''), (''window'', ilit ''window'')]"

definition index_of :: "'a \<Rightarrow> 'a list \<Rightarrow> nat option" where
  "index_of x xs = (let n = length (takeWhile (\<lambda>y. y \<noteq> x) xs) in if n < length xs then Some n else None)"

definition regex_idx :: "string \<Rightarrow> nat option" where
  \<comment> \<open>\<open>regex_idxs\<close>\<close>
  "regex_idx k = index_of k (sort (map fst regexes))"

section \<open>Printable runs\<close>

definition printable :: "char \<Rightarrow> bool" where
  "printable = between CHR 0x20 CHR 0x7F"

function printable_runs :: "bytes \<Rightarrow> bytes list" where
  \<comment> \<open>\<open>_allstrings.findall\<close>\<close>
  "printable_runs [] = []"
| "printable_runs (c # s) =
     (if printable c
      then (let r = c # takeWhile printable s in
            (if 5 \<le> length r then [r] else []) @ printable_runs (dropWhile printable s))
      else printable_runs s)"
  by pat_completeness auto
termination
  by (relation "measure length") (auto simp: le_imp_less_Suc length_dropWhile_le)

section \<open>Counting\<close>

definition bincount :: "nat \<Rightarrow> nat list \<Rightarrow> nat list" where
  \<comment> \<open>\<open>np.bincount(xs, minlength=n)\<close>\<close>
  "bincount n xs = map (count_list xs) [0..<max n (foldr (\<lambda>x m. max (Suc x) m) xs 0)]"

definition share_entropy :: "nat \<Rightarrow> nat list \<Rightarrow> real" where
  \<comment> \<open>\<open>p = c / total\<close>, \<open>np.sum(-p[wh] * np.log2(p[wh]))\<close> over the counts that are not zero\<close>
  "share_entropy n c =
     sum_list (map (\<lambda>k. - (real k / real n) * log 2 (real k / real n)) (filter (\<lambda>k. k \<noteq> 0) c))"

record strings_raw =
  num_strings :: nat
  av_length :: real
  printable_dist :: "nat list"
  printables :: nat
  str_entropy :: real
  string_counts :: "(string, nat) dict"

definition bump :: "(string, nat) dict \<Rightarrow> string \<Rightarrow> (string, nat) dict" where
  "bump m k = AList.update k (Suc (case map_of m k of None \<Rightarrow> 0 | Some n \<Rightarrow> n)) m"

definition count_patterns :: "(string, nat) dict \<Rightarrow> string \<Rightarrow> (string, nat) dict" where
  "count_patterns m s = foldl (\<lambda>m' (k, r). if rx_search r s then bump m' k else m') m regexes"

definition raw_strings :: "bytes \<Rightarrow> strings_raw" where
  "raw_strings d =
     (let ss = printable_runs d;
          c = bincount 96 (map (\<lambda>b. of_char b - 32) (concat ss));
          csum = sum_list c;
          counts = sort_key fst (foldl count_patterns [] ss) in
      if ss \<noteq> []
      then \<lparr>num_strings = length ss,
            av_length = real (sum_list (map length ss)) / real (length ss),
            printable_dist = c, printables = csum, str_entropy = share_entropy csum c,
            string_counts = counts\<rparr>
      else \<lparr>num_strings = 0, av_length = 0, printable_dist = replicate 96 0, printables = 0,
            str_entropy = 0, string_counts = counts\<rparr>)"

fun put_counts :: "real list \<Rightarrow> (string, nat) dict \<Rightarrow> real list py_result" where
  "put_counts v [] = Inr v"
| "put_counts v ((k, n) # rest) =
     (case regex_idx k of None \<Rightarrow> Inl KeyError | Some i \<Rightarrow> put_counts (v[i := real n]) rest)"

definition process_strings :: "strings_raw \<Rightarrow> real list py_result" where
  "process_strings r =
     bind_res (put_counts (replicate (length regexes) 0) (string_counts r))
       (\<lambda>counts.
          let divisor = (if 0 < printables r then real (printables r) else 1) in
          Inr ([real (num_strings r), av_length r, real (printables r)]
               @ map (\<lambda>k. real k / divisor) (printable_dist r)
               @ [str_entropy r] @ counts))"

section \<open>Which runs are found\<close>

definition run_in :: "bytes \<Rightarrow> bytes \<Rightarrow> bool" where
  \<comment> \<open>a maximal run of printable bytes, five at least\<close>
  "run_in d r \<longleftrightarrow>
     (\<exists>a b. d = a @ r @ b \<and> list_all printable r \<and> 5 \<le> length r
        \<and> (a = [] \<or> \<not> printable (last a)) \<and> (b = [] \<or> \<not> printable (hd b)))"

lemma run_in_I:
  "d = a @ r @ b \<Longrightarrow> list_all printable r \<Longrightarrow> 5 \<le> length r \<Longrightarrow> a = [] \<or> \<not> printable (last a)
    \<Longrightarrow> b = [] \<or> \<not> printable (hd b) \<Longrightarrow> run_in d r"
  unfolding run_in_def by blast

lemma run_in_skip:
  assumes "\<not> printable c"
  shows "run_in (c # s) r \<longleftrightarrow> run_in s r"
proof
  assume "run_in (c # s) r"
  then obtain a b where d: "c # s = a @ r @ b" "list_all printable r" "5 \<le> length r"
    "a = [] \<or> \<not> printable (last a)" "b = [] \<or> \<not> printable (hd b)"
    unfolding run_in_def by blast
  have "a \<noteq> []" using d(1-3) assms by (cases r) auto
  then obtain a' where a: "a = c # a'" "s = a' @ r @ b" using d(1) by (cases a) auto
  then have "a' = [] \<or> \<not> printable (last a')" using d(4) by (cases a') auto
  then show "run_in s r" using a(2) d(2,3,5) by (rule_tac run_in_I)
next
  assume "run_in s r"
  then obtain a b where d: "s = a @ r @ b" "list_all printable r" "5 \<le> length r"
    "a = [] \<or> \<not> printable (last a)" "b = [] \<or> \<not> printable (hd b)"
    unfolding run_in_def by blast
  have "c # s = (c # a) @ r @ b" using d(1) by simp
  moreover have "\<not> printable (last (c # a))" using d(4) assms by (cases a) auto
  ultimately show "run_in (c # s) r" using d(2,3,5) by (rule_tac run_in_I) auto
qed

lemma takeWhile_run:
  "list_all P r \<Longrightarrow> b = [] \<or> \<not> P (hd b) \<Longrightarrow> takeWhile P (r @ b) = r"
  by (induction r) (cases b; simp)+

lemma rest_of_run: "dropWhile P s = [] \<or> \<not> P (hd (dropWhile P s))"
  using hd_dropWhile by blast

lemma run_in_take:
  assumes "printable c"
  shows "run_in (c # s) r \<longleftrightarrow>
           (r = c # takeWhile printable s \<and> 5 \<le> length r) \<or> run_in (dropWhile printable s) r"
    (is "_ \<longleftrightarrow> (r = ?w \<and> _) \<or> run_in ?s r")
proof
  have ws: "c # s = ?w @ ?s" by simp
  have w: "list_all printable ?w" using assms by (auto simp: list_all_iff dest: set_takeWhileD)
  {
    assume "run_in (c # s) r"
    then obtain a b where d: "c # s = a @ r @ b" "list_all printable r" "5 \<le> length r"
      "a = [] \<or> \<not> printable (last a)" "b = [] \<or> \<not> printable (hd b)"
      unfolding run_in_def by blast
    show "(r = ?w \<and> 5 \<le> length r) \<or> run_in ?s r"
    proof (cases "a = []")
      case True
      then have "takeWhile printable (c # s) = r" using d(1) takeWhile_run[OF d(2,5)] by simp
      then show ?thesis using assms d(3) by simp
    next
      case False
      then have l: "\<not> printable (last a)" using d(4) by simp
      have "a @ (r @ b) = ?w @ ?s" by (rule trans[OF d(1)[symmetric] ws])
      then have "\<exists>us. a = ?w @ us \<and> us @ (r @ b) = ?s \<or> a @ us = ?w \<and> r @ b = us @ ?s"
        by (rule append_eq_append_conv2[THEN iffD1])
      then obtain us where "a = ?w @ us \<and> us @ r @ b = ?s \<or> a @ us = ?w" by auto
      moreover have "a @ us \<noteq> ?w"
      proof
        assume "a @ us = ?w"
        then have "last a \<in> set ?w" using False by (metis UnCI last_in_set set_append)
        then show False using w l by (auto simp: list_all_iff)
      qed
      ultimately have u: "a = ?w @ us" "?s = us @ r @ b" by auto
      have "us \<noteq> []"
      proof
        assume "us = []"
        then have "last a \<in> set ?w" using u(1) False last_in_set by (metis append_Nil2)
        then show False using w l by (auto simp: list_all_iff)
      qed
      then have "us = [] \<or> \<not> printable (last us)" using u(1) l by simp
      then show ?thesis using u(2) d(2,3,5) by (blast intro: run_in_I)
    qed
  }
  {
    assume "(r = ?w \<and> 5 \<le> length r) \<or> run_in ?s r"
    then show "run_in (c # s) r"
    proof
      assume r: "r = ?w \<and> 5 \<le> length r"
      then have "c # s = [] @ r @ ?s" using ws by simp
      then show ?thesis using r w rest_of_run by (blast intro: run_in_I)
    next
      assume "run_in ?s r"
      then obtain a b where d: "?s = a @ r @ b" "list_all printable r" "5 \<le> length r"
        "a = [] \<or> \<not> printable (last a)" "b = [] \<or> \<not> printable (hd b)"
        unfolding run_in_def by blast
      have "a \<noteq> []" using d(1-3) rest_of_run[of printable s] by (cases r) auto
      then have "\<not> printable (last (?w @ a))" using d(4) by simp
      moreover have "c # s = (?w @ a) @ r @ b" using ws d(1) by simp
      ultimately show ?thesis using d(2,3,5) by (blast intro: run_in_I)
    qed
  }
qed

lemma printable_runs_exact: "r \<in> set (printable_runs d) \<longleftrightarrow> run_in d r"
proof (induction d rule: printable_runs.induct)
  case 1
  then show ?case by (auto simp: run_in_def)
next
  case (2 c s)
  show ?case
  proof (cases "printable c")
    case True
    have "r \<in> set (printable_runs (c # s)) \<longleftrightarrow>
      (r = c # takeWhile printable s \<and> 5 \<le> length r) \<or> r \<in> set (printable_runs (dropWhile printable s))"
      using True by (auto simp: Let_def)
    then show ?thesis using "2.IH"(1)[OF True refl] run_in_take[OF True] by (simp only:)
  next
    case False
    then show ?thesis using "2.IH"(2)[OF False] run_in_skip[OF False] by (simp only: printable_runs.simps if_False)
  qed
qed

lemma printable_runs_ascii:
  "s \<in> set (printable_runs d) \<Longrightarrow> c \<in> set s \<Longrightarrow> 32 \<le> (of_char c :: nat) \<and> (of_char c :: nat) \<le> 127"
  unfolding printable_runs_exact run_in_def by (auto simp: list_all_iff printable_def between_def)

section \<open>What a slot of the vector holds\<close>

lemma length_regexes: "length regexes = 77"
  by (simp add: regexes_def)

lemma distinct_regexes: "distinct (map fst regexes)"
  by (simp add: regexes_def)

lemma index_of_Some:
  assumes "index_of x xs = Some i"
  shows "i < length xs" "xs ! i = x"
  using assms nth_length_takeWhile[of "\<lambda>y. y \<noteq> x" xs]
  by (auto simp: index_of_def Let_def split: if_splits)

lemma index_of_mem: "x \<in> set xs \<Longrightarrow> \<exists>i. index_of x xs = Some i"
  by (induction xs) (auto simp: index_of_def Let_def split: if_splits)

lemma index_of_inj: "index_of x xs = Some i \<Longrightarrow> index_of y xs = Some i \<Longrightarrow> x = y"
  using index_of_Some(2) by metis

lemma regex_idx_known: "k \<in> set (map fst regexes) \<Longrightarrow> \<exists>i. regex_idx k = Some i"
  unfolding regex_idx_def by (rule index_of_mem) simp

lemma regex_idx_less: "regex_idx k = Some i \<Longrightarrow> i < 77"
  using index_of_Some(1)[of k "sort (map fst regexes)" i] by (simp add: regex_idx_def length_regexes)

lemma foldr_max_le: "list_all (\<lambda>x. x < n) xs \<Longrightarrow> foldr (\<lambda>x m. max (Suc x) m) xs 0 \<le> n"
  by (induction xs) auto

lemma foldr_max_ge: "x \<in> set xs \<Longrightarrow> x < foldr (\<lambda>x m. max (Suc x) m) xs 0"
  by (induction xs) auto

lemma length_bincount: "list_all (\<lambda>x. x < n) xs \<Longrightarrow> length (bincount n xs) = n"
  using foldr_max_le[of n xs] by (simp add: bincount_def max_absorb1)

lemma nth_bincount: "i < length (bincount n xs) \<Longrightarrow> bincount n xs ! i = count_list xs i"
  by (simp add: bincount_def)

lemma sum_bincount: "sum_list (bincount n xs) = length xs"
proof -
  let ?m = "max n (foldr (\<lambda>x m. max (Suc x) m) xs 0)"
  have "set xs \<subseteq> {0..<?m}"
  proof
    fix x assume "x \<in> set xs"
    then have "x < foldr (\<lambda>x m. max (Suc x) m) xs 0" by (rule foldr_max_ge)
    then show "x \<in> {0..<?m}" by simp
  qed
  then have "sum (count_list xs) {0..<?m} = length xs" by (rule sum_count_set) simp
  then show ?thesis by (simp add: bincount_def interv_sum_list_conv_sum_set_nat)
qed

definition seen :: "(string, nat) dict \<Rightarrow> string \<Rightarrow> nat" where
  "seen m k = (case map_of m k of None \<Rightarrow> 0 | Some n \<Rightarrow> n)"

lemma seen_bump: "seen (bump m k) k' = (if k' = k then Suc (seen m k) else seen m k')"
  by (simp add: seen_def bump_def update_conv')

lemma keys_bump: "set (keys (bump m k)) = insert k (set (keys m))" "distinct (keys m) \<Longrightarrow> distinct (keys (bump m k))"
  using dom_update[of k _ m] by (auto simp: bump_def distinct_update dom_map_of_conv_image_fst)

lemma pattern_step:
  "distinct (map fst rs) \<Longrightarrow>
   seen (foldl (\<lambda>m' (k, r). if rx_search r s then bump m' k else m') m rs) k
     = seen m k + (case map_of rs k of Some r \<Rightarrow> if rx_search r s then 1 else 0 | None \<Rightarrow> 0)"
proof (induction rs arbitrary: m)
  case (Cons x rs)
  obtain k1 r1 where x: "x = (k1, r1)" by (cases x)
  have "map_of rs k1 = None" using Cons.prems x by (simp add: map_of_eq_None_iff)
  then show ?case using Cons.IH Cons.prems x by (auto simp: seen_bump split: option.split)
qed simp

lemma pattern_keys:
  "set (keys (foldl (\<lambda>m' (k, r). if rx_search r s then bump m' k else m') m rs)) \<subseteq> set (keys m) \<union> set (map fst rs)"
  "distinct (keys m) \<Longrightarrow> distinct (keys (foldl (\<lambda>m' (k, r). if rx_search r s then bump m' k else m') m rs))"
proof (induction rs arbitrary: m)
  case (Cons x rs)
  {
    case 1
    obtain k1 r1 where x: "x = (k1, r1)" by (cases x)
    have "set (keys (if rx_search r1 s then bump m k1 else m)) \<subseteq> insert k1 (set (keys m))"
      using keys_bump(1)[of m k1] by auto
    then show ?case using Cons.IH(1)[of "if rx_search r1 s then bump m k1 else m"]
      unfolding x foldl_Cons list.map set_simps prod.case fst_conv by blast
  next
    case 2
    then show ?case using Cons.IH(2) by (cases x) (simp add: keys_bump(2))
  }
qed simp_all

lemma counts_seen:
  "map_of regexes k = Some r \<Longrightarrow> seen (foldl count_patterns m ss) k = seen m k + length (filter (rx_search r) ss)"
  by (induction ss arbitrary: m)
     (auto simp: count_patterns_def pattern_step[OF distinct_regexes])

lemma counts_keys:
  "set (keys (foldl count_patterns m ss)) \<subseteq> set (keys m) \<union> set (map fst regexes)"
  "distinct (keys m) \<Longrightarrow> distinct (keys (foldl count_patterns m ss))"
proof (induction ss arbitrary: m)
  case (Cons s ss)
  {
    case 1
    then show ?case using Cons.IH(1)[of "count_patterns m s"] pattern_keys(1)[of s m regexes]
      by (simp add: count_patterns_def) blast
  next
    case 2
    then show ?case using Cons.IH(2)[of "count_patterns m s"] pattern_keys(2)[of m s regexes]
      by (simp add: count_patterns_def)
  }
qed simp_all

lemma put_counts_known:
  "\<lbrakk>set (keys items) \<subseteq> set (map fst regexes); distinct (keys items)\<rbrakk> \<Longrightarrow>
   \<exists>w. put_counts v items = Inr w \<and> length w = length v
     \<and> (\<forall>k i. regex_idx k = Some i \<longrightarrow> i < length v \<longrightarrow>
          w ! i = (case map_of items k of Some n \<Rightarrow> real n | None \<Rightarrow> v ! i))"
proof (induction items arbitrary: v)
  case Nil
  then show ?case by simp
next
  case (Cons x items)
  obtain k n where x: "x = (k, n)" by (cases x)
  then have "k \<in> set (map fst regexes)" using Cons.prems(1) by simp
  then obtain j where j: "regex_idx k = Some j" using regex_idx_known by blast
  obtain w where w: "put_counts (v[j := real n]) items = Inr w" "length w = length v"
    "\<And>k' i. regex_idx k' = Some i \<Longrightarrow> i < length v \<Longrightarrow>
       w ! i = (case map_of items k' of Some n \<Rightarrow> real n | None \<Rightarrow> v[j := real n] ! i)"
    using Cons.IH[of "v[j := real n]"] Cons.prems by auto
  have "w ! i = (case map_of (x # items) k' of Some n \<Rightarrow> real n | None \<Rightarrow> v ! i)"
    if i: "regex_idx k' = Some i" "i < length v" for k' i
  proof (cases "k' = k")
    case True
    then have "i = j" using i(1) j by simp
    moreover have "map_of items k = None" using Cons.prems(2) x by (simp add: map_of_eq_None_iff)
    ultimately show ?thesis using w(3)[OF i] True x i(2) by simp
  next
    case False
    then have "i \<noteq> j" using i(1) j index_of_inj unfolding regex_idx_def by metis
    then show ?thesis using w(3)[OF i] False x by (simp split: option.split)
  qed
  then show ?case using w(1,2) x j by simp
qed

lemma raw_counts:
  "string_counts (raw_strings d) = sort_key fst (foldl count_patterns [] (printable_runs d))"
  by (simp add: raw_strings_def Let_def)

lemma distinct_keys_sort: "distinct (map fst m) \<Longrightarrow> distinct (map fst (sort_key f m))"
  by (metis distinct_map distinct_sort inj_on_subset set_sort subset_refl)

lemma map_of_sort: "distinct (map fst m) \<Longrightarrow> map_of (sort_key f m) = map_of m"
  by (intro map_of_eqI ext) (auto simp: map_of_eq_None_iff image_iff distinct_keys_sort)

lemma length_dist: "length (printable_dist (raw_strings d)) = 96"
proof -
  have "list_all (\<lambda>x. x < 96) (map (\<lambda>b. of_char b - 32 :: nat) (concat (printable_runs d)))"
    using printable_runs_ascii[of _ d] by (fastforce simp: list_all_iff)
  then show ?thesis using length_bincount by (simp add: raw_strings_def Let_def)
qed

lemma process_strings_shape:
  "\<exists>v w. process_strings (raw_strings d) = Inr v \<and> v = take 100 v @ w \<and> length v = 177 \<and> length w = 77
     \<and> (\<forall>k r. map_of regexes k = Some r \<longrightarrow> (\<exists>i < 77. regex_idx k = Some i
            \<and> w ! i = real (length (filter (rx_search r) (printable_runs d)))))"
proof -
  let ?ss = "printable_runs d" and ?z = "replicate (length regexes) (0 :: real)"
  let ?m = "foldl count_patterns [] ?ss"
  have di: "distinct (keys ?m)" using counts_keys(2)[of "[]" ?ss] by simp
  have "set (keys (sort_key fst ?m)) \<subseteq> set (map fst regexes)"
    using counts_keys(1)[of "[]" ?ss] by simp
  then obtain w where w: "put_counts ?z (string_counts (raw_strings d)) = Inr w" "length w = 77"
    "\<And>k i. regex_idx k = Some i \<Longrightarrow> i < 77 \<Longrightarrow>
       w ! i = (case map_of ?m k of Some n \<Rightarrow> real n | None \<Rightarrow> ?z ! i)"
    using put_counts_known[of "sort_key fst ?m" ?z] distinct_keys_sort[OF di]
    by (auto simp: raw_counts length_regexes map_of_sort[OF di])
  have slot: "\<exists>i < 77. regex_idx k = Some i \<and> w ! i = real (length (filter (rx_search r) ?ss))"
    if r: "map_of regexes k = Some r" for k r
  proof -
    have "k \<in> set (map fst regexes)" using map_of_SomeD[OF r] by force
    then obtain i where i: "regex_idx k = Some i" "i < 77" using regex_idx_known regex_idx_less by blast
    have "w ! i = real (seen ?m k)"
      using w(3)[OF i] i(2) by (simp add: seen_def length_regexes split: option.split)
    then show ?thesis using counts_seen[OF r, of "[]" ?ss] i by (simp add: seen_def)
  qed
  let ?r = "raw_strings d"
  let ?div = "if 0 < printables ?r then real (printables ?r) else 1"
  let ?pre = "[real (num_strings ?r), av_length ?r, real (printables ?r)]
    @ map (\<lambda>k. real k / ?div) (printable_dist ?r) @ [str_entropy ?r]"
  have "process_strings ?r = Inr (?pre @ w)" by (simp add: process_strings_def w(1))
  moreover have "length ?pre = 100" by (simp add: length_dist)
  ultimately show ?thesis using w(2) slot
    by (intro exI[of _ "?pre @ w"] exI[of _ w]) simp
qed

text \<open>C34: The strings part of the feature vector never fails and always has 177 numbers, whatever bytes
  the file holds; and each of the 77 patterns has a slot of its own that holds the number of printable runs
  in which the pattern occurs.\<close>
theorem string_slots:
  "case process_strings (raw_strings d) of
     Inl e \<Rightarrow> False
   | Inr v \<Rightarrow> length v = 177
       \<and> list_all (\<lambda>(k, r). case regex_idx k of
             None \<Rightarrow> False
           | Some i \<Rightarrow> i < 77 \<and> v ! (100 + i) = real (length (filter (rx_search r) (printable_runs d)))) regexes"
proof -
  obtain v w where v: "process_strings (raw_strings d) = Inr v" "v = take 100 v @ w" "length v = 177"
    "length w = 77"
    "\<And>k r. map_of regexes k = Some r \<Longrightarrow> \<exists>i < 77. regex_idx k = Some i
            \<and> w ! i = real (length (filter (rx_search r) (printable_runs d)))"
    using process_strings_shape by blast
  have "v ! (100 + i) = w ! i" for i
    using v(2,3) nth_append_length_plus[of "take 100 v" w i] by simp
  moreover have "map_of regexes k = Some r" if "(k, r) \<in> set regexes" for k r
    using that distinct_regexes by simp
  ultimately show ?thesis using v(1,3,5) by (fastforce simp: list_all_iff)
qed

section \<open>Patterns without special characters\<close>

lemma ends_chars:
  "ends (foldr (\<lambda>x r. Seq (One (\<lambda>c. f c = f x)) r) p Eps) t i
     = (if map f (take (length p) (drop i t)) = map f p \<and> i + length p \<le> max i (length t) then [i + length p] else [])"
proof (induction p arbitrary: i)
  case (Cons x p)
  show ?case
  proof (cases "i < length t")
    case True
    then have "drop i t = t ! i # drop (Suc i) t" by (rule Cons_nth_drop_Suc[symmetric])
    then show ?thesis using Cons.IH[of "Suc i"] True by (auto simp: max_def)
  qed simp
qed simp

lemma search_chars:
  "rx_search (foldr (\<lambda>x r. Seq (One (\<lambda>c. f c = f x)) r) p Eps) t \<longleftrightarrow> sublist (map f p) (map f t)"
proof
  assume "rx_search (foldr (\<lambda>x r. Seq (One (\<lambda>c. f c = f x)) r) p Eps) t"
  then obtain i where i: "map f (take (length p) (drop i t)) = map f p"
    by (auto simp: rx_search_def list_ex_iff ends_chars simp del: upt_Suc split: if_splits)
  have "map f t = map f (take i t) @ map f (take (length p) (drop i t)) @ map f (drop (length p) (drop i t))"
    by (metis append_take_drop_id map_append)
  then show "sublist (map f p) (map f t)" unfolding i sublist_def by blast
next
  assume "sublist (map f p) (map f t)"
  then obtain u v where uv: "map f t = u @ map f p @ v" by (auto simp: sublist_def)
  let ?i = "length u"
  have l: "length t = length u + length p + length v" using arg_cong[OF uv, of length] by simp
  have "map f (take (length p) (drop ?i t)) = take (length p) (drop ?i (map f t))"
    by (simp add: take_map drop_map)
  then have "map f (take (length p) (drop ?i t)) = map f p" by (simp add: uv)
  then have "ends (foldr (\<lambda>x r. Seq (One (\<lambda>c. f c = f x)) r) p Eps) t ?i \<noteq> []"
    using l by (simp add: ends_chars max_def)
  then show "rx_search (foldr (\<lambda>x r. Seq (One (\<lambda>c. f c = f x)) r) p Eps) t"
    using l by (auto simp: rx_search_def list_ex_iff simp del: upt_Suc intro!: bexI[of _ ?i])
qed

lemma search_lit: "rx_search (lit p) t \<longleftrightarrow> contains t p"
  using search_chars[of id p t] by (simp add: lit_def contains_def)

lemma search_ilit: "rx_search (ilit p) t \<longleftrightarrow> contains (lower t) (lower p)"
  using search_chars[of char_lower p t] by (simp add: ilit_def contains_def lower_def)

section \<open>Findings on the patterns\<close>

lemma email_counts_macs: "map_of regexes ''email_addr'' = map_of regexes ''mac_addr''"
  by (simp add: regexes_def)

lemma email_not_found: "\<not> rx_search mac_rx ''write to bob@example.com now''"
  by code_simp

lemma base64_alphabet_not_found:
  "\<not> rx_search base64_rx
      ''ABCDEFGHIJKLMNOPQRSTUVWXYZabcdefghijklmnopqrstuvwxyz0123456789+/''"
  by code_simp

end
