(* ===== verification/EmberPe.thy ===== *)
theory EmberPe
  imports EmberStrings
begin

text \<open>
  The features of a parsed PE file, from \<open>engine/ember_extractor.py\<close>: headers, sections, imports,
  exports, data directories, the rich header, signatures and the parser's warnings. What \<open>pefile\<close>
  and \<open>signify\<close> tell of a file are records; scikit-learn's \<open>FeatureHasher\<close> is a parameter. An empty
  raw object, for a file that is no PE, is \<open>None\<close> or the empty list. Single precision is read as
  real numbers.
\<close>

unbundle bit_operations_syntax

section \<open>What the libraries tell\<close>

record pe_section =
  ps_name :: bytes
  ps_raw_size :: int
  ps_virtual_size :: int
  ps_entropy :: real
  ps_chars :: int
  ps_flags :: "(string \<times> bool) list" \<comment> \<open>\<open>section_characteristics\<close> and whether the section has them\<close>
  ps_contains :: "int \<Rightarrow> bool" \<comment> \<open>\<open>contains_rva\<close>\<close>

record file_header =
  fh_time :: int
  fh_machine :: int
  fh_sections :: int
  fh_symbols :: int
  fh_optional_size :: int
  fh_symbol_table :: int
  fh_dict :: "(string \<times> bool) list" \<comment> \<open>\<open>__dict__\<close>, each value as a condition reads it\<close>

record optional_header =
  oh_subsystem :: int
  oh_magic :: int
  oh_major_image :: int
  oh_minor_image :: int
  oh_major_linker :: int
  oh_minor_linker :: int
  oh_major_os :: int
  oh_minor_os :: int
  oh_major_sub :: int
  oh_minor_sub :: int
  oh_code :: int
  oh_headers :: int
  oh_image :: int
  oh_initialized :: int
  oh_uninitialized :: int
  oh_stack_reserve :: int
  oh_stack_commit :: int
  oh_heap_reserve :: int
  oh_heap_commit :: int
  oh_entry :: int
  oh_code_base :: int
  oh_image_base :: int
  oh_alignment :: int
  oh_checksum :: int
  oh_rvas :: int
  oh_dict :: "(string \<times> bool) list"

type_synonym symbol = "bytes option \<times> int option" \<comment> \<open>name and ordinal\<close>

record pe_file =
  pf_header :: file_header
  pf_optional :: optional_header
  pf_dos :: "(string, int option) dict" \<comment> \<open>\<open>DOS_HEADER.dump_dict()\<close>, the \<open>Value\<close> of each member\<close>
  pf_sections :: "pe_section list"
  pf_overlay :: "bytes option"
  pf_imports :: "(bytes \<times> symbol list) list option"
  pf_exports :: "symbol list option"
  pf_directories :: "(string \<times> int \<times> int) list"
  pf_relocs :: bool
  pf_dynamic_relocs :: bool
  pf_rich :: "int list option"
  pf_warnings :: "string list"

record hashers =
  hash_pairs :: "nat \<Rightarrow> (string \<times> real) list \<Rightarrow> real list" \<comment> \<open>\<open>input_type="pair"\<close>\<close>
  hash_words :: "nat \<Rightarrow> bool \<Rightarrow> string list \<Rightarrow> real list" \<comment> \<open>with \<open>alternate_sign\<close> or not\<close>

section \<open>Sections\<close>

fun decode_ignore :: "bytes \<Rightarrow> string" where
  \<comment> \<open>\<open>decode(errors="ignore")\<close>; characters from 256 on are outside the model's text\<close>
  "decode_ignore [] = []"
| "decode_ignore (c # s) =
     (let n = (of_char c :: nat) in
      if n < 128 then c # decode_ignore s
      else case s of
             [] \<Rightarrow> []
           | d # r \<Rightarrow>
               let m = (of_char d :: nat) in
               if (n = 194 \<or> n = 195) \<and> 128 \<le> m \<and> m < 192
               then char_of ((n - 192) * 64 + (m - 128)) # decode_ignore r
               else decode_ignore s)"

definition section_name :: "pe_section \<Rightarrow> string" where
  "section_name s =
     (let drop_nul = dropWhile (\<lambda>c. c = CHR 0x00) in
      lower (decode_ignore (rev (drop_nul (rev (drop_nul (ps_name s)))))))"

fun first_executable :: "string \<Rightarrow> pe_section list \<Rightarrow> string" where
  \<comment> \<open>the loop that runs while the name is empty\<close>
  "first_executable entry [] = entry"
| "first_executable entry (s # ss) =
     (if entry = [] then first_executable (if 0 < ps_chars s AND 0x20000000 then section_name s else entry) ss
      else entry)"

definition entry_section :: "pe_file \<Rightarrow> string" where
  "entry_section pe =
     first_executable
       (foldl (\<lambda>e s. if ps_contains s (oh_entry (pf_optional pe)) then section_name s else e) [] (pf_sections pe))
       (pf_sections pe)"

record section_raw =
  sr_name :: string
  sr_size :: int
  sr_entropy :: real
  sr_vsize :: int
  sr_size_ratio :: real
  sr_vsize_ratio :: real
  sr_props :: "string list"

record sections_raw =
  ss_entry :: string
  ss_sections :: "section_raw list"
  ss_overlay_size :: nat
  ss_overlay_ratio :: real
  ss_overlay_entropy :: real

definition entropy_loop :: "bytes \<Rightarrow> real" where
  \<comment> \<open>the loop over \<open>Counter(data).values()\<close>\<close>
  "entropy_loop d =
     foldl (\<lambda>e x. let p = real x / real (length d) in e - p * log 2 p) 0 (map snd (tally d))"

definition raw_section :: "nat \<Rightarrow> pe_section \<Rightarrow> section_raw" where
  "raw_section n s =
     \<lparr>sr_name = section_name s, sr_size = ps_raw_size s, sr_entropy = ps_entropy s,
      sr_vsize = ps_virtual_size s, sr_size_ratio = of_int (ps_raw_size s) / real n,
      sr_vsize_ratio = of_int (ps_raw_size s) / of_int (max (ps_virtual_size s) 1),
      sr_props = map (\<lambda>(k, v). drop 10 k) (filter snd (ps_flags s))\<rparr>"

definition raw_sections :: "bytes \<Rightarrow> pe_file option \<Rightarrow> sections_raw option" where
  "raw_sections d pe =
     (case pe of
        None \<Rightarrow> None
      | Some p \<Rightarrow>
          let base = \<lparr>ss_entry = entry_section p, ss_sections = map (raw_section (length d)) (pf_sections p),
                      ss_overlay_size = 0, ss_overlay_ratio = 0, ss_overlay_entropy = 0\<rparr> in
          Some (case pf_overlay p of
                  None \<Rightarrow> base
                | Some ov \<Rightarrow> base\<lparr>ss_overlay_size := length ov,
                                ss_overlay_ratio := real (length ov) / real (length d),
                                ss_overlay_entropy := entropy_loop ov\<rparr>))"

definition process_sections :: "hashers \<Rightarrow> sections_raw option \<Rightarrow> real list" where
  "process_sections h raw =
     (case raw of
        None \<Rightarrow> replicate 224 0
      | Some r \<Rightarrow>
          let ss = ss_sections r;
              entropies = map sr_entropy ss @ [ss_overlay_entropy r] @ [0];
              ratios = map sr_size_ratio ss @ [ss_overlay_ratio r] @ [0];
              vratios = map sr_vsize_ratio ss @ [0];
              general =
                [real (length ss),
                 real (length (filter (\<lambda>s. sr_size s = 0) ss)),
                 real (length (filter (\<lambda>s. sr_name s = []) ss)),
                 real (length (filter (\<lambda>s. ''MEM_READ'' \<in> set (sr_props s) \<and> ''MEM_EXECUTE'' \<in> set (sr_props s)) ss)),
                 real (length (filter (\<lambda>s. ''MEM_WRITE'' \<in> set (sr_props s)) ss)),
                 Max (set entropies), Min (set entropies), Max (set ratios), Min (set ratios),
                 Max (set vratios), Min (set vratios)] in
          general
          @ hash_pairs h 50 (map (\<lambda>s. (sr_name s, of_int (sr_size s))) ss)
          @ hash_pairs h 50 (map (\<lambda>s. (sr_name s, of_int (sr_vsize s))) ss)
          @ hash_pairs h 50 (map (\<lambda>s. (sr_name s, sr_entropy s)) ss)
          @ hash_words h 50 True (concat (map (\<lambda>s. map (\<lambda>p. sr_name s @ '':'' @ p) (sr_props s)) ss))
          @ hash_words h 10 True [ss_entry r]
          @ [real (ss_overlay_size r), ss_overlay_ratio r, ss_overlay_entropy r])"

section \<open>Imports and exports\<close>

fun add_symbols :: "string \<Rightarrow> symbol list \<Rightarrow> string list \<Rightarrow> string list py_result" where
  \<comment> \<open>a name is clipped after 10000 characters; a symbol with neither name nor ordinal is skipped\<close>
  "add_symbols by_ordinal [] acc = Inr acc"
| "add_symbols by_ordinal ((name, ord) # rest) acc =
     (case name of
        Some (c # n) \<Rightarrow>
          bind_res (decode_utf8 (c # n)) (\<lambda>t. add_symbols by_ordinal rest (acc @ [take 10000 t]))
      | _ \<Rightarrow> (case ord of
                Some i \<Rightarrow> add_symbols by_ordinal rest (acc @ [by_ordinal @ show_int i])
              | None \<Rightarrow> add_symbols by_ordinal rest acc))"

fun add_imports ::
  "(bytes \<times> symbol list) list \<Rightarrow> (string, string list) dict \<Rightarrow> (string, string list) dict py_result" where
  \<comment> \<open>a library met again replaces what was read of it\<close>
  "add_imports [] m = Inr m"
| "add_imports ((dll, libs) # rest) m =
     bind_res (decode_utf8 dll) (\<lambda>name.
       bind_res (add_symbols (name @ '':ordinal'') libs []) (\<lambda>fs.
         add_imports rest (AList.update name fs m)))"

definition raw_imports :: "pe_file option \<Rightarrow> (string, string list) dict py_result" where
  "raw_imports pe =
     (case pe of
        None \<Rightarrow> Inr []
      | Some p \<Rightarrow> (case pf_imports p of None \<Rightarrow> Inr [] | Some es \<Rightarrow> add_imports es []))"

definition process_imports :: "hashers \<Rightarrow> (string, string list) dict \<Rightarrow> real list" where
  "process_imports h raw =
     (if raw = [] then replicate 1282 0
      else
        let libraries = remdups (map (\<lambda>(l, fs). lower l) raw);
            imports = concat (map (\<lambda>(l, fs). map (\<lambda>e. lower l @ '':'' @ e) fs) raw) in
        [real (length imports), real (length libraries)]
        @ hash_words h 256 False libraries @ hash_words h 1024 False imports)"

definition raw_exports :: "pe_file option \<Rightarrow> string list py_result" where
  "raw_exports pe =
     (case pe of
        None \<Rightarrow> Inr []
      | Some p \<Rightarrow> (case pf_exports p of None \<Rightarrow> Inr [] | Some es \<Rightarrow> add_symbols ''ordinal'' es []))"

definition process_exports :: "hashers \<Rightarrow> string list \<Rightarrow> real list" where
  "process_exports h raw =
     (if raw = [] then replicate 129 0
      else let v = hash_words h 128 True raw in real (length v) # v)"

section \<open>Headers\<close>

definition machine_types :: "string list" where
  "machine_types =
     map ((@) ''IMAGE_FILE_MACHINE_'')
      [''UNKNOWN'', ''I386'', ''R3000'', ''R4000'', ''R10000'', ''WCEMIPSV2'', ''ALPHA'', ''SH3'',
      ''SH3DSP'', ''SH3E'', ''SH4'', ''SH5'', ''ARM'', ''THUMB'', ''ARMNT'', ''AM33'', ''POWERPC'',
      ''POWERPCFP'', ''IA64'', ''MIPS16'', ''ALPHA64'', ''AXP64'', ''MIPSFPU'', ''MIPSFPU16'',
      ''TRICORE'', ''CEF'', ''EBC'', ''RISCV32'', ''RISCV64'', ''RISCV128'', ''LOONGARCH32'',
      ''LOONGARCH64'', ''AMD64'', ''M32R'', ''ARM64'', ''CEE'']"

definition subsystem_types :: "string list" where
  "subsystem_types =
     map ((@) ''IMAGE_SUBSYSTEM_'')
      [''UNKNOWN'', ''NATIVE'', ''WINDOWS_GUI'', ''WINDOWS_CUI'', ''OS2_CUI'', ''POSIX_CUI'',
      ''NATIVE_WINDOWS'', ''WINDOWS_CE_GUI'', ''EFI_APPLICATION'', ''EFI_BOOT_SERVICE_DRIVER'',
      ''EFI_RUNTIME_DRIVER'', ''EFI_ROM'', ''XBOX'', ''WINDOWS_BOOT_APPLICATION'']"

definition image_characteristics :: "string list" where
  "image_characteristics =
     [''RELOCS_STRIPPED'', ''EXECUTABLE_IMAGE'', ''LINE_NUMS_STRIPPED'', ''LOCAL_SYMS_STRIPPED'',
     ''AGGRESIVE_WS_TRIM'', ''LARGE_ADDRESS_AWARE'', ''16BIT_MACHINE'', ''BYTES_REVERSED_LO'',
     ''32BIT_MACHINE'', ''DEBUG_STRIPPED'', ''REMOVABLE_RUN_FROM_SWAP'', ''NET_RUN_FROM_SWAP'',
     ''SYSTEM'', ''DLL'', ''UP_SYSTEM_ONLY'', ''BYTES_REVERSED_HI'']"

definition dll_characteristics :: "string list" where
  "dll_characteristics =
     [''HIGH_ENTROPY_VA'', ''DYNAMIC_BASE'', ''FORCE_INTEGRITY'', ''NX_COMPAT'', ''NO_ISOLATION'',
     ''NO_SEH'', ''NO_BIND'', ''APPCONTAINER'', ''WDM_DRIVER'', ''GUARD_CF'',
     ''TERMINAL_SERVER_AWARE'']"

definition dos_members :: "string list" where
  "dos_members =
     [''e_magic'', ''e_cblp'', ''e_cp'', ''e_crlc'', ''e_cparhdr'', ''e_minalloc'', ''e_maxalloc'',
     ''e_ss'', ''e_sp'', ''e_csum'', ''e_ip'', ''e_cs'', ''e_lfarlc'', ''e_ovno'', ''e_oemid'',
     ''e_oeminfo'', ''e_lfanew'']"

record header_raw =
  hr_time :: int
  hr_machine :: string
  hr_sections :: int
  hr_symbols :: int
  hr_optional_size :: int
  hr_symbol_table :: int
  hr_chars :: "string list"
  hr_subsystem :: string
  hr_magic :: int
  hr_major_image :: int
  hr_minor_image :: int
  hr_major_linker :: int
  hr_minor_linker :: int
  hr_major_os :: int
  hr_minor_os :: int
  hr_major_sub :: int
  hr_minor_sub :: int
  hr_code :: int
  hr_headers :: int
  hr_image :: int
  hr_initialized :: int
  hr_uninitialized :: int
  hr_stack_reserve :: int
  hr_stack_commit :: int
  hr_heap_reserve :: int
  hr_heap_commit :: int
  hr_entry :: int
  hr_code_base :: int
  hr_image_base :: int
  hr_alignment :: int
  hr_checksum :: int
  hr_rvas :: int
  hr_data_base :: int
  hr_dll_chars :: "string list"
  hr_dos :: "(string, int) dict"

fun dos_values :: "(string, int option) dict \<Rightarrow> string list \<Rightarrow> (string, int) dict py_result" where
  "dos_values dump [] = Inr []"
| "dos_values dump (m # ms) =
     (case map_of dump m of
        None \<Rightarrow> Inl KeyError
      | Some v \<Rightarrow> bind_res (dos_values dump ms)
                    (\<lambda>rest. Inr ((m, case v of Some i \<Rightarrow> i | None \<Rightarrow> 0) # rest)))"

definition set_names :: "string \<Rightarrow> (string \<times> bool) list \<Rightarrow> string list" where
  \<comment> \<open>the names with the given start whose value is set, without that start\<close>
  "set_names start items = map (\<lambda>(k, v). drop (length start) k) (filter (\<lambda>(k, v). startswith k start \<and> v) items)"

definition raw_header ::
  "(int \<Rightarrow> string option) \<Rightarrow> (int \<Rightarrow> string option) \<Rightarrow> pe_file option \<Rightarrow> header_raw option py_result" where
  \<comment> \<open>the tables \<open>MACHINE_TYPE\<close> and \<open>SUBSYSTEM_TYPE\<close> of \<open>pefile\<close> come first\<close>
  "raw_header machine_type subsystem_type pe =
     (case pe of
        None \<Rightarrow> Inr None
      | Some p \<Rightarrow>
          let f = pf_header p; opt = pf_optional p in
          bind_res (dos_values (pf_dos p) dos_members) (\<lambda>dos.
            Inr (Some
              \<lparr>hr_time = fh_time f,
               hr_machine = (case machine_type (fh_machine f) of
                               Some m \<Rightarrow> m | None \<Rightarrow> ''IMAGE_FILE_MACHINE_UNKNOWN''),
               hr_sections = fh_sections f, hr_symbols = fh_symbols f,
               hr_optional_size = fh_optional_size f, hr_symbol_table = fh_symbol_table f,
               hr_chars = set_names ''IMAGE_FILE_'' (fh_dict f),
               hr_subsystem = (case subsystem_type (oh_subsystem opt) of
                                 Some m \<Rightarrow> m | None \<Rightarrow> ''IMAGE_SUBSYSTEM_UNKNOWN''),
               hr_magic = oh_magic opt, hr_major_image = oh_major_image opt,
               hr_minor_image = oh_minor_image opt, hr_major_linker = oh_major_linker opt,
               hr_minor_linker = oh_minor_linker opt, hr_major_os = oh_major_os opt,
               hr_minor_os = oh_minor_os opt, hr_major_sub = oh_major_sub opt,
               hr_minor_sub = oh_minor_sub opt, hr_code = oh_code opt, hr_headers = oh_headers opt,
               hr_image = oh_image opt, hr_initialized = oh_initialized opt,
               hr_uninitialized = oh_uninitialized opt, hr_stack_reserve = oh_stack_reserve opt,
               hr_stack_commit = oh_stack_commit opt, hr_heap_reserve = oh_heap_reserve opt,
               hr_heap_commit = oh_heap_commit opt, hr_entry = oh_entry opt,
               hr_code_base = oh_code_base opt, hr_image_base = oh_image_base opt,
               hr_alignment = oh_alignment opt, hr_checksum = oh_checksum opt, hr_rvas = oh_rvas opt,
               hr_data_base = 0,
               hr_dll_chars = set_names ''IMAGE_DLLCHARACTERISTICS_'' (oh_dict opt),
               hr_dos = dos\<rparr>)))"

definition category :: "string \<Rightarrow> string list \<Rightarrow> real" where
  \<comment> \<open>\<open>dict.get(name, 0)\<close> of a table that numbers the list\<close>
  "category name table = (case index_of name table of Some i \<Rightarrow> real i | None \<Rightarrow> 0)"

fun dos_row :: "(string, int) dict \<Rightarrow> string list \<Rightarrow> real list py_result" where
  "dos_row dos [] = Inr []"
| "dos_row dos (m # ms) =
     (case map_of dos m of
        None \<Rightarrow> Inl KeyError
      | Some i \<Rightarrow> bind_res (dos_row dos ms) (\<lambda>rest. Inr (of_int i # rest)))"

definition process_header :: "header_raw option \<Rightarrow> real list py_result" where
  "process_header raw =
     (case raw of
        None \<Rightarrow> Inr (replicate 74 0)
      | Some r \<Rightarrow>
          bind_res (dos_row (hr_dos r) dos_members) (\<lambda>dos.
            Inr (map of_int [hr_time r, hr_sections r, hr_symbols r, hr_optional_size r, hr_symbol_table r]
              @ [category (hr_machine r) machine_types, category (hr_subsystem r) subsystem_types]
              @ map of_int
                 [hr_major_image r, hr_minor_image r, hr_major_linker r, hr_minor_linker r,
                  hr_major_os r, hr_minor_os r, hr_major_sub r, hr_minor_sub r, hr_code r,
                  hr_headers r, hr_image r, hr_initialized r, hr_uninitialized r, hr_stack_reserve r,
                  hr_stack_commit r, hr_heap_reserve r, hr_heap_commit r, hr_entry r, hr_code_base r,
                  hr_image_base r, hr_alignment r, hr_checksum r, hr_rvas r]
              @ map (\<lambda>c. if c \<in> set (hr_chars r) then 1 else 0) image_characteristics
              @ map (\<lambda>c. if c \<in> set (hr_dll_chars r) then 1 else 0) dll_characteristics
              @ dos)))"

section \<open>Data directories and the rich header\<close>

definition name_order :: "string list" where
  "name_order =
     [''EXPORT'', ''IMPORT'', ''RESOURCE'', ''EXCEPTION'', ''SECURITY'', ''BASERELOC'', ''DEBUG'',
     ''COPYRIGHT'', ''GLOBALPTR'', ''TLS'', ''LOAD_CONFIG'', ''BOUND_IMPORT'', ''IAT'',
     ''DELAY_IMPORT'', ''COM_DESCRIPTOR'', ''RESERVED'']"

function remove_all :: "string \<Rightarrow> string \<Rightarrow> string" where
  \<comment> \<open>\<open>s.replace(p, "")\<close>\<close>
  "remove_all p s =
     (if s = [] then []
      else if p \<noteq> [] \<and> startswith s p then remove_all p (drop (length p) s)
      else hd s # remove_all p (tl s))"
  by pat_completeness auto
termination
  by (relation "measure (\<lambda>(p, s). length s)") auto

type_synonym directories_raw = "(bool \<times> bool) \<times> (string \<times> int \<times> int) list"

definition raw_directories :: "pe_file option \<Rightarrow> directories_raw option" where
  "raw_directories pe =
     (case pe of
        None \<Rightarrow> None
      | Some p \<Rightarrow>
          Some ((pf_relocs p, pf_dynamic_relocs p),
                map (\<lambda>(name, sz, va). (remove_all ''IMAGE_DIRECTORY_ENTRY_'' name, sz, va)) (pf_directories p)))"

fun put_directories :: "real list \<Rightarrow> (string \<times> int \<times> int) list \<Rightarrow> real list py_result" where
  "put_directories v [] = Inr v"
| "put_directories v ((name, sz, va) # rest) =
     (case index_of name name_order of
        None \<Rightarrow> Inl ValueError
      | Some i \<Rightarrow> put_directories (v[2 * i := of_int sz, 2 * i + 1 := of_int va]) rest)"

definition process_directories :: "directories_raw option \<Rightarrow> real list py_result" where
  \<comment> \<open>the loop over \<open>range(1, len(raw_obj) - 1)\<close> leaves out the last entry\<close>
  "process_directories raw =
     (case raw of
        None \<Rightarrow> Inr (replicate 34 0)
      | Some ((relocs, dynamic), ds) \<Rightarrow>
          bind_res (put_directories (replicate (2 * length name_order + 2) 0) (butlast ds))
            (\<lambda>v. Inr (v[length v - 2 := of_bool relocs, length v - 1 := of_bool dynamic])))"

definition raw_rich :: "pe_file option \<Rightarrow> int list" where
  "raw_rich pe = (case pe of None \<Rightarrow> [] | Some p \<Rightarrow> (case pf_rich p of Some vs \<Rightarrow> vs | None \<Rightarrow> []))"

fun in_pairs :: "int list \<Rightarrow> (string \<times> real) list" where
  "in_pairs (a # b # rest) = (show_int a, of_int b) # in_pairs rest"
| "in_pairs _ = []"

definition process_rich :: "hashers \<Rightarrow> int list \<Rightarrow> real list" where
  "process_rich h raw =
     (if raw = [] then replicate 33 0 else real (length raw div 2) # hash_pairs h 32 (in_pairs raw))"

section \<open>Signatures\<close>

record signed_data =
  sd_program :: "string option"
  sd_signing_time :: "real option" \<comment> \<open>of the countersigner, when there is one\<close>
  sd_certificates :: "(string \<times> string) list" \<comment> \<open>issuer and subject\<close>

datatype sig_failure = Signer_info_error | Parse_error | Fails py_exc

datatype signed_item = Item signed_data | Broken sig_failure \<comment> \<open>its signer info cannot be read\<close>

record auth_raw =
  au_certs :: nat
  au_self_signed :: nat
  au_no_name :: nat
  au_no_counter :: nat
  au_parse_error :: nat
  au_depth :: nat
  au_latest :: real
  au_diff :: real

definition new_auth :: auth_raw where
  "new_auth =
     \<lparr>au_certs = 0, au_self_signed = 0, au_no_name = 0, au_no_counter = 0, au_parse_error = 0, au_depth = 0,
      au_latest = 0, au_diff = 0\<rparr>"

definition auth_item :: "int \<Rightarrow> signed_data \<Rightarrow> auth_raw \<Rightarrow> auth_raw" where
  "auth_item pe_time sd r =
     (let r1 = (if sd_program sd = None then r\<lparr>au_no_name := 1\<rparr> else r);
          r2 = (case sd_signing_time sd of
                  Some t \<Rightarrow>
                    (if au_latest r1 \<le> t then r1\<lparr>au_latest := t\<rparr> else r1)\<lparr>au_diff := t - of_int pe_time\<rparr>
                | None \<Rightarrow> r1\<lparr>au_no_counter := 1\<rparr>);
          certs = sd_certificates sd;
          r3 = (if au_depth r2 < length certs then r2\<lparr>au_depth := length certs\<rparr> else r2) in
      if list_ex (\<lambda>(issuer, subject). issuer = subject) (butlast certs) then r3\<lparr>au_self_signed := 1\<rparr> else r3)"

fun auth_loop :: "int \<Rightarrow> signed_item list \<Rightarrow> sig_failure option \<Rightarrow> auth_raw \<Rightarrow> auth_raw \<times> sig_failure option" where
  "auth_loop pe_time [] failure r = (r, failure)"
| "auth_loop pe_time (it # rest) failure r =
     (let r1 = r\<lparr>au_certs := Suc (au_certs r)\<rparr> in
      case it of
        Item sd \<Rightarrow> auth_loop pe_time rest failure (auth_item pe_time sd r1)
      | Broken e \<Rightarrow> (r1, Some e))"

definition raw_auth ::
  "(signed_item list \<times> sig_failure option) option \<Rightarrow> pe_file option \<Rightarrow> auth_raw option py_result" where
  \<comment> \<open>what \<open>SignedPEFile\<close> yields of the file and how it ends; \<open>None\<close> without the class\<close>
  "raw_auth signed_datas pe =
     (case (pe, signed_datas) of
        (Some p, Some (items, failure)) \<Rightarrow>
          (case auth_loop (fh_time (pf_header p)) items failure new_auth of
             (r, None) \<Rightarrow> Inr (Some r)
           | (r, Some e) \<Rightarrow>
               if e \<in> {Signer_info_error, Parse_error, Fails ValueError, Fails KeyError}
               then Inr (Some (r\<lparr>au_parse_error := 1\<rparr>))
               else case e of Fails x \<Rightarrow> Inl x | _ \<Rightarrow> Inl ValueError)
      | _ \<Rightarrow> Inr None)"

definition process_auth :: "auth_raw option \<Rightarrow> real list" where
  "process_auth raw =
     (case raw of
        None \<Rightarrow> replicate 8 0
      | Some r \<Rightarrow>
          map real [au_certs r, au_self_signed r, au_no_name r, au_no_counter r, au_parse_error r, au_depth r]
          @ [au_latest r, au_diff r])"

section \<open>Warnings of the parser\<close>

definition default_warnings :: "string list" where
  "default_warnings =
     [''AddressOfEntryPoint lies outside the sections' boundaries...'',
      ''Bad RVA in relocation data...'',
      ''Byte 0x...'',
      ''Corrupt header...'',
      ''Damaged Import Table information...'',
      ''Don't know how to parse LOAD_CONFIG information for non-PE32...'',
      ''Error, too many imported symbols...'',
      ''Error parsing a resource directory data entry...'',
      ''Error parsing export directory at RVA...'',
      ''Error parsing resource of type RT_STRING at...'',
      ''Error parsing StringFileInfo/VarFileInfo struct...'',
      ''Error parsing the Delay import directory...'',
      ''Error parsing the Delay import directory at RVA...'',
      ''Error parsing the import directory at RVA...'',
      ''Error parsing the import directory. Invalid Import data at RVA...'',
      ''Error parsing the import table. Entries go beyond bounds...'',
      ''Error parsing the import table. AddressOfData overlaps with THUNK_DATA for THUNK at RVA...'',
      ''Error parsing the import table. Invalid data at RVA...'',
      ''Error parsing the resources directory. Excessively nested table depth...'',
      ''Error parsing the resources directory. The directory contains...'',
      ''Error parsing the resources directory. The file contains at least...'',
      ''Error parsing the resources directory. Entry...'',
      ''Error parsing the resources directory, attempting to read entry name. Entry names overlap...'',
      ''Error parsing the resources directory, attempting to read entry name. Can't read unicode string at offset...'',
      ''Error parsing the version information, attempting to read OffsetToData with RVA...'',
      ''Error parsing the version information, attempting to read VS_VERSION_INFO string...'',
      ''Error parsing the version information, attempting to read VarFileInfo Var string...'',
      ''Error parsing the version information, attempting to read StringFileInfo string...'',
      ''Error parsing the version information, attempting to read StringTable string...'',
      ''Error parsing the version information, attempting to read StringTable Key string...'',
      ''Error parsing the version information, to read StringTable Value string...'',
      ''Excessive number of imports...'',
      ''Export directory contains more than 10 repeated entries...'',
      ''Failed parsing FunctionEntry of UNWIND_INFO at...'',
      ''Failed rendering pascal string, attempting to read from RVA 0x...'',
      ''Failed rendering unicode string, attempting to read from RVA 0x...'',
      ''Failed to process directory...'',
      ''FunctionEntry of UNWIND_INFO at...'',
      ''If SectionAlignment...'',
      ''If FileAlignment > 0x200 it should be a power of 2. Value...'',
      ''Imported symbols contain entries typical of packed executables...'',
      ''Invalid bdd dynamic relocation...'',
      ''Invalid bdd info...'',
      ''Invalid debug information...'',
      ''Invalid function override header...'',
      ''Invalid function override info...'',
      ''Invalid IMAGE_DYNAMIC_RELOCATION_TABLE information...'',
      ''Invalid LOAD_CONFIG information...'',
      ''Invalid relocation information. Can't read...'',
      ''Invalid relocation information. SizeOfBlock too large...'',
      ''Invalid relocation information. VirtualAddress outside...'',
      ''Invalid resources directory. Can't read...'',
      ''Invalid resources directory. Can't parse directory data at RVA...'',
      ''Invalid TLS information. Can't read...'',
      ''Invalid type 0x...'',
      ''Invalid VS_VERSION_INFO block...'',
      ''No parsing available for IMAGE_DYNAMIC_RELOCATION_TABLE...'',
      ''Overlapping offsets in relocation data...'',
      ''Possibly corrupt file. AddressOfEntryPoint lies outside the file...'',
      ''Relocating image but PE does not have (or pefile cannot parse) a DIRECTORY_ENTRY_BASERELOC...'',
      ''Resource size...'',
      ''Rich Header is malformed...'',
      ''Rich Header is not in Microsoft format, possibly malformed...'',
      ''RVA AddressOfFunctions in the export directory points to an invalid...'',
      ''RVA AddressOfNames in the export directory points to an invalid...'',
      ''RVA of IMAGE_BOUND_IMPORT_DESCRIPTOR points...'',
      ''SizeOfHeaders is smaller than AddressOfEntryPoint...'',
      ''Suspicious flags set for section...'',
      ''Suspicious NumberOfRvaAndSizes in the Optional Header...'',
      ''Suspicious value found parsing section...'',
      ''The Bound Imports directory exists but can't be parsed...'',
      ''Too many warnings parsing section. Aborting...'',
      ''Too many errors parsing the Delay import directory...'',
      ''Too many errors parsing the import directory...'',
      ''Too many sections...'',
      ''Unknown UNWIND_CODE at...'',
      ''Unsupported version of UNWIND_INFO...'',
      ''...Contents are null-bytes.'',
      ''...No data in the file (is this corkami's virtsectblXP?).'',
      ''...PointerToRawData points beyond the end of the file.'',
      ''...PointerToRawData should normally be a multiple of FileAlignment, this might imply the file is trying to confuse tools which parse this incorrectly.'',
      ''...SizeOfRawData is larger than file.'',
      ''...VirtualSize is extremely large > 256MiB'',
      ''...VirtualAddress is beyond 0x10000000'',
      ''...symbol entries. Assuming corrupt.'',
      ''...ordinal entries. Assuming corrupt.'',
      ''...Assuming corrupt.'']"

record warn_config =
  wc_suffixes :: "string list" \<comment> \<open>a set, in the order in which it is iterated\<close>
  wc_prefixes :: "string list"
  wc_ids :: "(string, nat) dict"

definition is_suffix_line :: "string \<Rightarrow> bool" where
  "is_suffix_line l = startswith l ''...''"

definition warning_lines :: "string list option \<Rightarrow> string list" where
  \<comment> \<open>the lines of the given file unless all are blank; \<open>None\<close> when there is no file\<close>
  "warning_lines given =
     (case given of
        None \<Rightarrow> default_warnings
      | Some ls \<Rightarrow>
          let kept = filter (\<lambda>l. l \<noteq> []) (map strip ls) in if kept \<noteq> [] then kept else default_warnings)"

definition new_warnings :: "(string set \<Rightarrow> string list) \<Rightarrow> string list option \<Rightarrow> warn_config" where
  \<comment> \<open>\<open>PEFormatWarnings.__init__\<close>; the order of a set of texts varies with the process\<close>
  "new_warnings set_order given =
     (let ls = map strip (warning_lines given) in
      \<lparr>wc_suffixes = set_order (set (map (drop 3) (filter is_suffix_line ls))),
       wc_prefixes = set_order (set (map (\<lambda>l. take (length l - 3) l) (filter (\<lambda>l. \<not> is_suffix_line l) ls))),
       wc_ids = foldl (\<lambda>m (i, l). AList.update l i m) [] (enumerate 0 ls)\<rparr>)"

definition normal_warning :: "warn_config \<Rightarrow> string \<Rightarrow> string option" where
  "normal_warning c w =
     (case find (\<lambda>suf. endswith w suf) (wc_suffixes c) of
        Some suf \<Rightarrow> Some (''...'' @ suf)
      | None \<Rightarrow> (case find (\<lambda>pre. startswith w pre) (wc_prefixes c) of
                  Some pre \<Rightarrow> Some (pre @ ''...'')
                | None \<Rightarrow> None))"

definition raw_warnings :: "warn_config \<Rightarrow> pe_file option \<Rightarrow> string list" where
  "raw_warnings c pe =
     (case pe of
        None \<Rightarrow> []
      | Some p \<Rightarrow> sort (remdups (List.map_filter (normal_warning c) (pf_warnings p))))"

fun mark_warnings :: "warn_config \<Rightarrow> string list \<Rightarrow> real list \<Rightarrow> real list py_result" where
  "mark_warnings c [] ids = Inr ids"
| "mark_warnings c (w # ws) ids =
     (case map_of (wc_ids c) w of
        None \<Rightarrow> Inl KeyError
      | Some i \<Rightarrow> if i < length ids then mark_warnings c ws (ids[i := 1]) else Inl IndexError)"

definition process_warnings :: "warn_config \<Rightarrow> string list \<Rightarrow> real list py_result" where
  "process_warnings c raw =
     (if raw = [] then Inr (replicate 88 0)
      else bind_res (mark_warnings c raw (replicate 88 0)) (\<lambda>ids. Inr (ids[87 := real (length raw)])))"

section \<open>Lengths\<close>

definition proper_hashers :: "hashers \<Rightarrow> bool" where
  \<comment> \<open>\<open>FeatureHasher(n)\<close> makes rows of \<open>n\<close> numbers\<close>
  "proper_hashers h \<longleftrightarrow>
     (\<forall>n ps. length (hash_pairs h n ps) = n) \<and> (\<forall>n sign ws. length (hash_words h n sign ws) = n)"

lemma proper_lengths:
  assumes "proper_hashers h"
  shows "length (hash_pairs h n ps) = n" "length (hash_words h n sign ws) = n"
  using assms by (simp_all add: proper_hashers_def)

lemma length_sections: "proper_hashers h \<Longrightarrow> length (process_sections h r) = 224"
  by (simp add: process_sections_def Let_def proper_lengths split: option.split)

lemma length_imports: "proper_hashers h \<Longrightarrow> length (process_imports h r) = 1282"
  by (simp add: process_imports_def Let_def proper_lengths)

lemma length_exports: "proper_hashers h \<Longrightarrow> length (process_exports h r) = 129"
  by (simp add: process_exports_def Let_def proper_lengths)

lemma exports_constant: "proper_hashers h \<Longrightarrow> r \<noteq> [] \<Longrightarrow> hd (process_exports h r) = 128"
  by (simp add: process_exports_def Let_def proper_lengths)

lemma length_rich: "proper_hashers h \<Longrightarrow> length (process_rich h r) = 33"
  by (simp add: process_rich_def proper_lengths)

lemma length_auth: "length (process_auth r) = 8"
  by (simp add: process_auth_def split: option.split)

lemma length_dos_row: "dos_row dos ms = Inr v \<Longrightarrow> length v = length ms"
  by (induction ms arbitrary: v) (auto simp: bind_res_Inr_iff split: option.splits)

lemma length_header: "process_header r = Inr v \<Longrightarrow> length v = 74"
  by (auto simp: process_header_def bind_res_Inr_iff image_characteristics_def dll_characteristics_def
        dos_members_def dest!: length_dos_row split: option.splits)

lemma length_put_directories: "put_directories v ds = Inr w \<Longrightarrow> length w = length v"
  by (induction v ds rule: put_directories.induct) (auto split: option.splits)

lemma length_directories: "process_directories r = Inr v \<Longrightarrow> length v = 34"
  by (auto simp: process_directories_def bind_res_Inr_iff name_order_def
        dest!: length_put_directories split: option.splits)

lemma length_mark_warnings: "mark_warnings c ws ids = Inr v \<Longrightarrow> length v = length ids"
  by (induction c ws ids rule: mark_warnings.induct) (auto split: option.splits if_splits)

lemma length_warnings: "process_warnings c r = Inr v \<Longrightarrow> length v = 88"
  by (auto simp: process_warnings_def bind_res_Inr_iff dest!: length_mark_warnings split: if_splits)

section \<open>Headers and directories\<close>

lemma dos_values_keys: "dos_values dump ms = Inr dos \<Longrightarrow> map fst dos = ms"
  by (induction ms arbitrary: dos) (auto simp: bind_res_Inr_iff split: option.splits)

lemma dos_row_known: "set ms \<subseteq> set (map fst dos) \<Longrightarrow> \<exists>v. dos_row dos ms = Inr v"
proof (induction ms)
  case (Cons m ms)
  then obtain i v where "map_of dos m = Some i" "dos_row dos ms = Inr v"
    by (cases "map_of dos m") (auto simp: map_of_eq_None_iff)
  then show ?case by simp
qed simp

lemma header_never_fails_late:
  assumes "raw_header mt st pe = Inr r"
  shows "\<exists>v. process_header r = Inr v \<and> length v = 74"
proof (cases r)
  case None
  then show ?thesis by (simp add: process_header_def)
next
  case (Some hr)
  then have "map fst (hr_dos hr) = dos_members"
    using assms dos_values_keys
    by (auto simp: raw_header_def Let_def bind_res_Inr_iff split: option.splits)
  then obtain v where "dos_row (hr_dos hr) dos_members = Inr v"
    using dos_row_known[of dos_members "hr_dos hr"] by auto
  then have "\<exists>v. process_header r = Inr v" using Some by (simp add: process_header_def)
  then show ?thesis using length_header by blast
qed

lemma put_directories_other:
  "\<lbrakk>put_directories v ds = Inr w; name_order ! k \<notin> fst ` set ds\<rbrakk>
    \<Longrightarrow> w ! (2 * k) = v ! (2 * k) \<and> w ! (2 * k + 1) = v ! (2 * k + 1)"
proof (induction v ds rule: put_directories.induct)
  case (2 v name sz va rest)
  then obtain i where i: "index_of name name_order = Some i"
    "put_directories (v[2 * i := of_int sz, 2 * i + 1 := of_int va]) rest = Inr w"
    by (auto split: option.splits)
  then have "i \<noteq> k" using index_of_Some(2)[OF i(1)] "2.prems"(2) by auto
  moreover have "2 * i \<noteq> 2 * k + 1" "2 * i + 1 \<noteq> 2 * k" by presburger+
  ultimately show ?case using "2.IH"[OF i] "2.prems"(2) by simp
qed simp

text \<open>The last entry of the directory table never reaches the vector: its two slots stay zero.\<close>

lemma last_directory_dropped:
  assumes "process_directories (Some (b, ds @ [(name_order ! k, sz, va)])) = Inr v" "k < 16"
    and "name_order ! k \<notin> fst ` set ds"
  shows "v ! (2 * k) = 0" "v ! (2 * k + 1) = 0"
proof -
  have n: "length name_order = 16" by (simp add: name_order_def)
  obtain r d where b: "b = (r, d)" by (cases b)
  obtain w where w: "put_directories (replicate 34 0) ds = Inr w"
    "v = w[length w - 2 := of_bool r, length w - 1 := of_bool d]"
    using assms(1) by (auto simp: process_directories_def b n bind_res_Inr_iff)
  have "length w = 34" using length_put_directories[OF w(1)] by simp
  then show "v ! (2 * k) = 0" "v ! (2 * k + 1) = 0"
    using put_directories_other[OF w(1) assms(3)] assms(2) w(2) by simp_all
qed

section \<open>Warnings have slots\<close>

definition good_lines :: "string list \<Rightarrow> bool" where
  \<comment> \<open>every line is a suffix or a prefix, and there are no more than the slots\<close>
  "good_lines ls \<longleftrightarrow> list_all (\<lambda>l. is_suffix_line l \<or> endswith l ''...'') ls \<and> length ls \<le> 88"

lemma default_lines_good: "good_lines (map strip default_warnings)"
  by code_simp

lemma warning_ids:
  "map_of (foldl (\<lambda>m (i, l). AList.update l i m) m0 (enumerate k ls)) w = Some i
     \<Longrightarrow> map_of m0 w = Some i \<or> i < k + length ls"
  "w \<in> set ls \<Longrightarrow> \<exists>i. map_of (foldl (\<lambda>m (i, l). AList.update l i m) m0 (enumerate k ls)) w = Some i"
  "map_of m0 w \<noteq> None \<Longrightarrow> \<exists>i. map_of (foldl (\<lambda>m (i, l). AList.update l i m) m0 (enumerate k ls)) w = Some i"
proof (induction ls arbitrary: m0 k)
  case (Cons l ls)
  {
    case 1
    then show ?case using Cons.IH(1)[of "AList.update l k m0" "Suc k"] by (auto split: if_splits)
  next
    case 2
    then show ?case using Cons.IH(2,3)[of "AList.update l k m0" "Suc k"] by (cases "w = l") auto
  next
    case 3
    then show ?case using Cons.IH(3)[of "AList.update l k m0" "Suc k"] by (cases "w = l") auto
  }
qed simp_all

definition fair_order :: "(string set \<Rightarrow> string list) \<Rightarrow> bool" where
  \<comment> \<open>the iteration of a set meets its elements and no others\<close>
  "fair_order set_order \<longleftrightarrow> (\<forall>S. finite S \<longrightarrow> set (set_order S) = S)"

lemma find_mem: "find P xs = Some x \<Longrightarrow> x \<in> set xs"
  by (auto simp: find_Some_iff)

lemma normal_warning_known:
  assumes "fair_order ord" "good_lines (map strip (warning_lines given))"
    and "normal_warning (new_warnings ord given) w = Some t"
  shows "t \<in> set (map strip (warning_lines given))"
proof -
  let ?ls = "map strip (warning_lines given)" and ?c = "new_warnings ord given"
  have suf: "set (wc_suffixes ?c) = drop 3 ` {l \<in> set ?ls. is_suffix_line l}"
    and pre: "set (wc_prefixes ?c) = (\<lambda>l. take (length l - 3) l) ` {l \<in> set ?ls. \<not> is_suffix_line l}"
    using assms(1) by (simp_all add: new_warnings_def Let_def fair_order_def)
  from assms(3) consider
      s where "s \<in> set (wc_suffixes ?c)" "t = ''...'' @ s"
    | p where "p \<in> set (wc_prefixes ?c)" "t = p @ ''...''"
    by (auto simp: normal_warning_def dest: find_mem split: option.splits)
  then show ?thesis
  proof cases
    case 1
    then obtain l where "l \<in> set ?ls" "is_suffix_line l" "s = drop 3 l" using suf by auto
    then have "t = l" using 1(2) by (auto simp: is_suffix_line_def startswith_def prefix_def)
    then show ?thesis using \<open>l \<in> set ?ls\<close> by simp
  next
    case 2
    then obtain l where l: "l \<in> set ?ls" "\<not> is_suffix_line l" "p = take (length l - 3) l" using pre by auto
    then have "endswith l ''...''" using assms(2) by (auto simp: good_lines_def list_all_iff)
    then have "t = l" using l(3) 2(2) by (auto simp: endswith_def suffix_def)
    then show ?thesis using l(1) by simp
  qed
qed

lemma mark_known:
  "list_all (\<lambda>w. \<exists>i < length ids. map_of (wc_ids c) w = Some i) ws \<Longrightarrow> \<exists>v. mark_warnings c ws ids = Inr v"
  by (induction ws arbitrary: ids) auto

lemma warnings_never_fail:
  assumes "fair_order ord" "good_lines (map strip (warning_lines given))"
  shows "\<exists>v. process_warnings (new_warnings ord given) (raw_warnings (new_warnings ord given) pe) = Inr v
             \<and> length v = 88"
proof -
  let ?c = "new_warnings ord given" and ?ls = "map strip (warning_lines given)"
  have "\<exists>i < 88. map_of (wc_ids ?c) w = Some i" if "w \<in> set (raw_warnings ?c pe)" for w
  proof -
    have "\<exists>u. normal_warning ?c u = Some w"
      using that by (cases pe) (auto simp: raw_warnings_def map_filter_def)
    then obtain u where "normal_warning ?c u = Some w" by blast
    then have "w \<in> set ?ls" using normal_warning_known[OF assms] by blast
    then obtain i where "map_of (wc_ids ?c) w = Some i"
      using warning_ids(2)[where ls = ?ls and ?m0.0 = "[]" and k = 0] by (auto simp: new_warnings_def Let_def)
    moreover from this have "i < 88"
      using warning_ids(1)[where ls = ?ls and ?m0.0 = "[]" and k = 0 and w = w and i = i] assms(2)
      by (auto simp: new_warnings_def Let_def good_lines_def)
    ultimately show ?thesis by blast
  qed
  then have "\<exists>v. mark_warnings ?c (raw_warnings ?c pe) (replicate 88 0) = Inr v"
    by (intro mark_known) (simp add: list_all_iff)
  then have "\<exists>v. process_warnings ?c (raw_warnings ?c pe) = Inr v" by (auto simp: process_warnings_def)
  then show ?thesis using length_warnings by blast
qed

text \<open>The texts of two suffixes end alike: which slot a warning gets depends on the order of a set.\<close>

definition packed_warning :: string where
  "packed_warning = ''Export directory has too many symbol entries. Assuming corrupt.''"

lemma slot_depends_on_order:
  "normal_warning \<lparr>wc_suffixes = [''symbol entries. Assuming corrupt.'', ''Assuming corrupt.''],
     wc_prefixes = [], wc_ids = []\<rparr> packed_warning
   \<noteq> normal_warning \<lparr>wc_suffixes = [''Assuming corrupt.'', ''symbol entries. Assuming corrupt.''],
     wc_prefixes = [], wc_ids = []\<rparr> packed_warning"
  by code_simp

end
