(* ===== verification/EmberFeatures.thy ===== *)
theory EmberFeatures
  imports EmberPe
begin

text \<open>
  \<open>engine/ember_extractor.py\<close>: the facts on the whole file, the two byte histograms and the extractor
  that joins the twelve groups of features into one vector. A number of the vector is \<open>None\<close> where the
  code computes NaN, a histogram divided by a sum of zero. NumPy's operations on arrays are read as it
  documents them, single precision as real numbers. The lemmas show that the entropy of a block
  always falls into one of the sixteen rows, what the histograms sum to, and that an extraction that
  returns gives 2568 numbers.
\<close>

type_synonym vec = "real option list"

section \<open>The whole file\<close>

record general_raw =
  gr_size :: nat
  gr_entropy :: real
  gr_is_pe :: nat
  gr_start :: "nat list"

definition byte_at :: "bytes \<Rightarrow> nat \<Rightarrow> nat" where
  "byte_at d i = of_char (d ! i)"

definition raw_general :: "bytes \<Rightarrow> pe_file option \<Rightarrow> general_raw py_result" where
  \<comment> \<open>the first byte is read without a guard\<close>
  "raw_general d pe =
     (if d = [] then Inl IndexError
      else Inr \<lparr>gr_size = length d, gr_entropy = entropy_loop d, gr_is_pe = (if pe = None then 0 else 1),
                gr_start = byte_at d 0 # map (\<lambda>i. if i < length d then byte_at d i else 0) [1, 2, 3]\<rparr>)"

definition process_general :: "general_raw \<Rightarrow> real list" where
  "process_general r = [real (gr_size r), gr_entropy r, real (gr_is_pe r)] @ map real (gr_start r)"

section \<open>Histograms\<close>

definition raw_histogram :: "bytes \<Rightarrow> nat list" where
  "raw_histogram d = bincount 256 (map of_char d)"

definition normalized :: "nat list \<Rightarrow> vec" where
  "normalized counts =
     (let n = sum_list counts in map (\<lambda>k. if n = 0 then None else Some (real k / real n)) counts)"

definition entropy_bin_counts :: "nat \<Rightarrow> bytes \<Rightarrow> int \<times> nat list" where
  \<comment> \<open>the shares are taken of the window, also when the block is shorter\<close>
  "entropy_bin_counts window block =
     (let c = bincount 16 (map (\<lambda>b. of_char b div 16) block);
          h = share_entropy window c * 2;
          bin = (if h * 2 < 0 then - \<lfloor>- (h * 2)\<rfloor> else \<lfloor>h * 2\<rfloor>) in
      (if bin = 16 then 15 else bin, c))"

definition row_of :: "int \<Rightarrow> nat option" where
  \<comment> \<open>which of sixteen rows an index means; a negative one counts from the end\<close>
  "row_of i = (if 0 \<le> i \<and> i < 16 then Some (nat i) else if - 16 \<le> i \<and> i < 0 then Some (nat (16 + i)) else None)"

definition add_block :: "nat \<Rightarrow> nat list list \<Rightarrow> bytes \<Rightarrow> nat list list py_result" where
  "add_block window output block =
     (case entropy_bin_counts window block of
        (bin, c) \<Rightarrow>
          (case row_of bin of
             None \<Rightarrow> Inl IndexError
           | Some i \<Rightarrow> Inr (output[i := map2 (+) (output ! i) c])))"

fun add_blocks :: "nat \<Rightarrow> nat list list \<Rightarrow> bytes list \<Rightarrow> nat list list py_result" where
  "add_blocks window output [] = Inr output"
| "add_blocks window output (b # bs) = bind_res (add_block window output b) (\<lambda>out'. add_blocks window out' bs)"

definition file_blocks :: "nat \<Rightarrow> nat \<Rightarrow> bytes \<Rightarrow> bytes list" where
  \<comment> \<open>every \<open>step\<close>-th of the windows of the file, or the file when it is shorter than one\<close>
  "file_blocks step window d =
     (if length d < window then [d]
      else map (\<lambda>i. take window (drop (i * step) d)) [0..<Suc ((length d - window) div step)])"

definition raw_byte_entropy :: "nat \<Rightarrow> nat \<Rightarrow> bytes \<Rightarrow> nat list py_result" where
  "raw_byte_entropy step window d =
     bind_res (add_blocks window (replicate 16 (replicate 16 0)) (file_blocks step window d))
       (\<lambda>output. Inr (concat output))"

section \<open>The extractor\<close>

datatype feature =
    GeneralFileInfo | ByteHistogram | ByteEntropyHistogram | StringExtractor | HeaderFileInfo | SectionInfo
  | ImportsInfo | ExportsInfo | DataDirectories | RichHeader | AuthenticodeSignature | PEFormatWarnings

fun feature_name :: "feature \<Rightarrow> string" where
  "feature_name GeneralFileInfo = ''general''"
| "feature_name ByteHistogram = ''histogram''"
| "feature_name ByteEntropyHistogram = ''byteentropy''"
| "feature_name StringExtractor = ''strings''"
| "feature_name HeaderFileInfo = ''header''"
| "feature_name SectionInfo = ''section''"
| "feature_name ImportsInfo = ''imports''"
| "feature_name ExportsInfo = ''exports''"
| "feature_name DataDirectories = ''datadirectories''"
| "feature_name RichHeader = ''richheader''"
| "feature_name AuthenticodeSignature = ''authenticode''"
| "feature_name PEFormatWarnings = ''pefilewarnings''"

fun feature_dim :: "feature \<Rightarrow> nat" where
  "feature_dim GeneralFileInfo = 3 + 4"
| "feature_dim ByteHistogram = 256"
| "feature_dim ByteEntropyHistogram = 256"
| "feature_dim StringExtractor = 5 + 96 + 76"
| "feature_dim HeaderFileInfo = 74"
| "feature_dim SectionInfo = 11 + 50 + 50 + 50 + 50 + 10 + 3"
| "feature_dim ImportsInfo = 2 + 256 + 1024"
| "feature_dim ExportsInfo = 1 + 128"
| "feature_dim DataDirectories = 16 * 2 + 2"
| "feature_dim RichHeader = 1 + 32"
| "feature_dim AuthenticodeSignature = 8"
| "feature_dim PEFormatWarnings = 87 + 1"

definition all_features :: "(string, feature) dict" where
  "all_features =
     [(''GeneralFileInfo'', GeneralFileInfo), (''ByteHistogram'', ByteHistogram),
      (''ByteEntropyHistogram'', ByteEntropyHistogram), (''StringExtractor'', StringExtractor),
      (''HeaderFileInfo'', HeaderFileInfo), (''SectionInfo'', SectionInfo), (''ImportsInfo'', ImportsInfo),
      (''ExportsInfo'', ExportsInfo), (''DataDirectories'', DataDirectories), (''RichHeader'', RichHeader),
      (''AuthenticodeSignature'', AuthenticodeSignature), (''PEFormatWarnings'', PEFormatWarnings)]"

record extractor =
  ex_features :: "feature list"
  ex_warnings :: warn_config
  ex_dim :: nat

datatype pe_outcome = Parsed pe_file | Format_error | Parser_fails py_exc

record ember_env =
  em_hashers :: hashers
  em_parse :: "bytes \<Rightarrow> pe_outcome"
  em_machine :: "int \<Rightarrow> string option"
  em_subsystem :: "int \<Rightarrow> string option"
  em_signed :: "bytes \<Rightarrow> (signed_item list \<times> sig_failure option) option"
  em_sha256 :: "bytes \<Rightarrow> string"
  em_set_order :: "string set \<Rightarrow> string list"
  em_warning_file :: "string list option" \<comment> \<open>the lines of \<open>pefile_warnings.txt\<close>, when it is there\<close>

definition new_extractor :: "ember_env \<Rightarrow> string list option \<Rightarrow> extractor" where
  \<comment> \<open>\<open>selected\<close>: the features that the given file names with a value; \<open>None\<close> without a file\<close>
  "new_extractor env selected =
     (let fs = map snd (filter (\<lambda>(n, f). case selected of None \<Rightarrow> True | Some ns \<Rightarrow> n \<in> set ns) all_features) in
      \<lparr>ex_features = fs, ex_warnings = new_warnings (em_set_order env) (em_warning_file env),
       ex_dim = sum_list (map feature_dim fs)\<rparr>)"

datatype raw_obj =
    Sha256 string | Raw_general general_raw | Raw_counts "nat list" | Raw_strings strings_raw
  | Raw_header "header_raw option" | Raw_sections "sections_raw option"
  | Raw_imports "(string, string list) dict" | Raw_exports "string list"
  | Raw_directories "directories_raw option" | Raw_rich "int list" | Raw_auth "auth_raw option"
  | Raw_warnings "string list"

definition wrap :: "('a \<Rightarrow> 'b) \<Rightarrow> 'a py_result \<Rightarrow> 'b py_result" where
  "wrap f r = bind_res r (\<lambda>x. Inr (f x))"

fun raw_feature :: "ember_env \<Rightarrow> extractor \<Rightarrow> bytes \<Rightarrow> pe_file option \<Rightarrow> feature \<Rightarrow> raw_obj py_result" where
  "raw_feature env ex d pe GeneralFileInfo = wrap Raw_general (raw_general d pe)"
| "raw_feature env ex d pe ByteHistogram = Inr (Raw_counts (raw_histogram d))"
| "raw_feature env ex d pe ByteEntropyHistogram = wrap Raw_counts (raw_byte_entropy 1024 2048 d)"
| "raw_feature env ex d pe StringExtractor = Inr (Raw_strings (raw_strings d))"
| "raw_feature env ex d pe HeaderFileInfo = wrap Raw_header (raw_header (em_machine env) (em_subsystem env) pe)"
| "raw_feature env ex d pe SectionInfo = Inr (Raw_sections (raw_sections d pe))"
| "raw_feature env ex d pe ImportsInfo = wrap Raw_imports (raw_imports pe)"
| "raw_feature env ex d pe ExportsInfo = wrap Raw_exports (raw_exports pe)"
| "raw_feature env ex d pe DataDirectories = Inr (Raw_directories (raw_directories pe))"
| "raw_feature env ex d pe RichHeader = Inr (Raw_rich (raw_rich pe))"
| "raw_feature env ex d pe AuthenticodeSignature = wrap Raw_auth (raw_auth (em_signed env d) pe)"
| "raw_feature env ex d pe PEFormatWarnings = Inr (Raw_warnings (raw_warnings (ex_warnings ex) pe))"

definition process_feature :: "ember_env \<Rightarrow> extractor \<Rightarrow> feature \<Rightarrow> raw_obj \<Rightarrow> vec py_result" where
  "process_feature env ex f raw =
     (case f of
        GeneralFileInfo \<Rightarrow> (case raw of Raw_general r \<Rightarrow> Inr (map Some (process_general r)) | _ \<Rightarrow> Inl TypeError)
      | ByteHistogram \<Rightarrow> (case raw of Raw_counts c \<Rightarrow> Inr (normalized c) | _ \<Rightarrow> Inl TypeError)
      | ByteEntropyHistogram \<Rightarrow> (case raw of Raw_counts c \<Rightarrow> Inr (normalized c) | _ \<Rightarrow> Inl TypeError)
      | StringExtractor \<Rightarrow> (case raw of Raw_strings r \<Rightarrow> wrap (map Some) (process_strings r) | _ \<Rightarrow> Inl TypeError)
      | HeaderFileInfo \<Rightarrow> (case raw of Raw_header r \<Rightarrow> wrap (map Some) (process_header r) | _ \<Rightarrow> Inl TypeError)
      | SectionInfo \<Rightarrow> (case raw of Raw_sections r \<Rightarrow> Inr (map Some (process_sections (em_hashers env) r)) | _ \<Rightarrow> Inl TypeError)
      | ImportsInfo \<Rightarrow> (case raw of Raw_imports r \<Rightarrow> Inr (map Some (process_imports (em_hashers env) r)) | _ \<Rightarrow> Inl TypeError)
      | ExportsInfo \<Rightarrow> (case raw of Raw_exports r \<Rightarrow> Inr (map Some (process_exports (em_hashers env) r)) | _ \<Rightarrow> Inl TypeError)
      | DataDirectories \<Rightarrow> (case raw of Raw_directories r \<Rightarrow> wrap (map Some) (process_directories r) | _ \<Rightarrow> Inl TypeError)
      | RichHeader \<Rightarrow> (case raw of Raw_rich r \<Rightarrow> Inr (map Some (process_rich (em_hashers env) r)) | _ \<Rightarrow> Inl TypeError)
      | AuthenticodeSignature \<Rightarrow> (case raw of Raw_auth r \<Rightarrow> Inr (map Some (process_auth r)) | _ \<Rightarrow> Inl TypeError)
      | PEFormatWarnings \<Rightarrow> (case raw of Raw_warnings r \<Rightarrow> wrap (map Some) (process_warnings (ex_warnings ex) r) | _ \<Rightarrow> Inl TypeError))"

definition parse_file :: "ember_env \<Rightarrow> bytes \<Rightarrow> pe_file option py_result" where
  "parse_file env d =
     (case em_parse env d of
        Parsed pe \<Rightarrow> Inr (Some pe)
      | Format_error \<Rightarrow> Inr None
      | Parser_fails e \<Rightarrow> if e = AttributeError then Inr None else Inl e)"

fun raw_all ::
  "ember_env \<Rightarrow> extractor \<Rightarrow> bytes \<Rightarrow> pe_file option \<Rightarrow> feature list \<Rightarrow> (string, raw_obj) dict py_result" where
  "raw_all env ex d pe [] = Inr []"
| "raw_all env ex d pe (f # fs) =
     bind_res (raw_feature env ex d pe f) (\<lambda>r.
       bind_res (raw_all env ex d pe fs) (\<lambda>rest. Inr ((feature_name f, r) # rest)))"

definition raw_features :: "ember_env \<Rightarrow> extractor \<Rightarrow> bytes \<Rightarrow> (string, raw_obj) dict py_result" where
  "raw_features env ex d =
     bind_res (parse_file env d) (\<lambda>pe.
       bind_res (raw_all env ex d pe (ex_features ex)) (\<lambda>rest.
         Inr ((''sha256'', Sha256 (em_sha256 env d)) # rest)))"

fun process_all ::
  "ember_env \<Rightarrow> extractor \<Rightarrow> (string, raw_obj) dict \<Rightarrow> feature list \<Rightarrow> vec py_result" where
  "process_all env ex raw [] = Inr []"
| "process_all env ex raw (f # fs) =
     (case map_of raw (feature_name f) of
        None \<Rightarrow> Inl KeyError
      | Some r \<Rightarrow> bind_res (process_feature env ex f r) (\<lambda>v.
                    bind_res (process_all env ex raw fs) (\<lambda>rest. Inr (v @ rest))))"

definition process_raw_features :: "ember_env \<Rightarrow> extractor \<Rightarrow> (string, raw_obj) dict \<Rightarrow> vec py_result" where
  \<comment> \<open>\<open>np.hstack\<close> of no array at all is a ValueError\<close>
  "process_raw_features env ex raw =
     (if ex_features ex = [] then Inl ValueError else process_all env ex raw (ex_features ex))"

definition feature_vector :: "ember_env \<Rightarrow> extractor \<Rightarrow> bytes \<Rightarrow> vec py_result" where
  "feature_vector env ex d = bind_res (raw_features env ex d) (process_raw_features env ex)"

definition get_ember_extractor :: "ember_env \<Rightarrow> extractor option \<Rightarrow> extractor" where
  \<comment> \<open>the instance of the module, made at the first call\<close>
  "get_ember_extractor env cached = (case cached of Some e \<Rightarrow> e | None \<Rightarrow> new_extractor env None)"

definition extract_ember_vector ::
  "ember_env \<Rightarrow> bytes \<Rightarrow> extractor option \<Rightarrow> vec py_result \<times> extractor option" where
  "extract_ember_vector env d cached =
     (let ex = get_ember_extractor env cached in (feature_vector env ex d, Some ex))"

definition ember_score :: "ember_env \<Rightarrow> (vec \<Rightarrow> real option) \<Rightarrow> bytes \<Rightarrow> real option" where
  \<comment> \<open>the extractor and the booster in \<open>predict_malware_probability\<close>; what either raises is caught\<close>
  "ember_score env booster d =
     (case feature_vector env (get_ember_extractor env None) d of Inl e \<Rightarrow> None | Inr v \<Rightarrow> booster v)"

section \<open>The entropy of a block\<close>

lemma ln2_bounds: "1 / 2 \<le> ln (2 :: real)"
  using ln_le_minus_one[of "1 / 2 :: real"] by (simp add: ln_div)

definition share_bound :: "nat \<Rightarrow> nat \<Rightarrow> real" where
  "share_bound n k = (1 / 16 - real k / real n) / ln 2 + 4 * (real k / real n)"

lemma entropy_term_bound:
  assumes "0 < (p :: real)"
  shows "- p * log 2 p \<le> (1 / 16 - p) / ln 2 + 4 * p"
proof -
  have "ln (1 / (16 * p)) \<le> 1 / (16 * p) - 1" using assms by (intro ln_le_minus_one) simp
  then have "p * ln (1 / (16 * p)) \<le> p * (1 / (16 * p) - 1)" using assms by (intro mult_left_mono) simp_all
  also have "\<dots> = 1 / 16 - p" using assms by (simp add: field_simps)
  finally have "p * (- ln 16 - ln p) \<le> 1 / 16 - p" using assms by (simp add: ln_div ln_mult)
  then have "- p * ln p \<le> (1 / 16 - p) + p * ln 16" by (simp add: algebra_simps)
  then have "- p * ln p / ln 2 \<le> ((1 / 16 - p) + p * ln 16) / ln 2"
    by (rule divide_right_mono) simp
  moreover have "ln (16 :: real) = 4 * ln 2" using ln_realpow[of "2 :: real" 4] by simp
  ultimately show ?thesis by (simp add: log_def add_divide_distrib)
qed

lemma share_term_le:
  "0 < k \<Longrightarrow> 0 < n \<Longrightarrow> - (real k / real n) * log 2 (real k / real n) \<le> share_bound n k"
  unfolding share_bound_def by (rule entropy_term_bound) simp

lemma share_term_ge:
  assumes "k \<le> n"
  shows "0 \<le> - (real k / real n) * log 2 (real k / real n)"
proof (cases "k = 0")
  case False
  then have "log 2 (real k / real n) \<le> 0" using assms by simp
  then have "(real k / real n) * log 2 (real k / real n) \<le> 0" by (intro mult_nonneg_nonpos) simp_all
  then show ?thesis by (simp only: mult_minus_left neg_0_le_iff_le)
qed simp

lemma share_entropy_le_bounds:
  "0 < n \<Longrightarrow> share_entropy n c \<le> sum_list (map (share_bound n) c)"
proof (induction c)
  case (Cons k c)
  have "0 \<le> share_bound n 0" by (simp add: share_bound_def)
  then show ?case using Cons share_term_le[of k n] by (cases "k = 0") (auto simp: share_entropy_def)
qed (simp add: share_entropy_def)

lemma sum_share_bound:
  "sum_list (map (share_bound n) c)
     = (real (length c) / 16 - real (sum_list c) / real n) / ln 2 + 4 * (real (sum_list c) / real n)"
  by (induction c) (simp_all add: share_bound_def add_divide_distrib diff_divide_distrib)

lemma share_entropy_le:
  assumes "0 < n" "sum_list c \<le> n" "length c \<le> 16"
  shows "share_entropy n c \<le> 4"
proof -
  let ?s = "real (sum_list c) / real n"
  have s: "?s \<le> 1" using assms by simp
  have "share_entropy n c \<le> (real (length c) / 16 - ?s) / ln 2 + 4 * ?s"
    using share_entropy_le_bounds[OF assms(1)] sum_share_bound by metis
  also have "\<dots> \<le> (1 - ?s) / ln 2 + 4 * ?s"
    using assms(3) by (intro add_right_mono divide_right_mono diff_right_mono) simp_all
  also have "\<dots> \<le> 4"
  proof -
    have "(1 - ?s) / ln 2 \<le> (1 - ?s) / (1 / 2)" using s ln2_bounds by (intro divide_left_mono) simp_all
    then show ?thesis using s by simp
  qed
  finally show ?thesis .
qed

lemma share_entropy_ge: "sum_list c \<le> n \<Longrightarrow> 0 \<le> share_entropy n c"
proof (induction c)
  case (Cons k c)
  then show ?case using share_term_ge[of k n] by (auto simp: share_entropy_def)
qed (simp add: share_entropy_def)

lemma nibble_counts:
  "length (bincount 16 (map (\<lambda>b. of_char b div 16) block)) = 16"
  "sum_list (bincount 16 (map (\<lambda>b. of_char b div 16) block)) = length block"
proof -
  have "(of_char b :: nat) div 16 < 16" for b
    by (rule less_mult_imp_div_less) simp
  then show "length (bincount 16 (map (\<lambda>b. of_char b div 16) block)) = 16"
    by (intro length_bincount) (simp add: list_all_iff)
qed (simp add: sum_bincount)

lemma entropy_bin_range:
  assumes "0 < window" "length block \<le> window"
  shows "0 \<le> fst (entropy_bin_counts window block) \<and> fst (entropy_bin_counts window block) < 16"
proof -
  let ?c = "bincount 16 (map (\<lambda>b. of_char b div 16) block)"
  let ?h = "share_entropy window ?c * 2 * 2"
  have "0 \<le> ?h" "?h \<le> 16"
    using share_entropy_ge[of ?c window] share_entropy_le[of window ?c] assms nibble_counts by simp_all
  then have r: "0 \<le> \<lfloor>?h\<rfloor>" "\<lfloor>?h\<rfloor> \<le> 16" by (simp_all add: floor_le_iff)
  have capped: "0 \<le> (if k = 16 then 15 else k) \<and> (if k = 16 then 15 else k) < 16" if "0 \<le> k" "k \<le> 16" for k :: int
    using that by auto
  have e: "fst (entropy_bin_counts window block) = (if \<lfloor>?h\<rfloor> = 16 then 15 else \<lfloor>?h\<rfloor>)"
    unfolding entropy_bin_counts_def Let_def fst_conv using \<open>0 \<le> ?h\<close> by (simp only: if_False not_less[symmetric])
  show ?thesis unfolding e by (rule capped[OF r])
qed

section \<open>What the byte histograms sum to\<close>

definition grid :: "nat list list \<Rightarrow> bool" where
  "grid m \<longleftrightarrow> length m = 16 \<and> (\<forall>r \<in> set m. length r = 16)"

lemma grid_update: "grid m \<Longrightarrow> length r = 16 \<Longrightarrow> grid (m[i := r])"
  using set_update_subset_insert[of m i r] by (auto simp: grid_def)

lemma sum_map2: "length a = length b \<Longrightarrow> sum_list (map2 (+) a b) = sum_list a + (sum_list b :: nat)"
  by (induction a b rule: list_induct2) simp_all

lemma sum_concat_update:
  "i < length m \<Longrightarrow> sum_list (concat (m[i := r])) + sum_list (m ! i) = sum_list (concat m) + (sum_list r :: nat)"
  by (induction m arbitrary: i) (auto split: nat.split)

lemma add_block_ok:
  assumes "0 < window" "length block \<le> window" "grid m"
  shows "\<exists>m'. add_block window m block = Inr m' \<and> grid m'
             \<and> sum_list (concat m') = sum_list (concat m) + length block"
proof -
  obtain bin c where e: "entropy_bin_counts window block = (bin, c)" by fastforce
  have c: "length c = 16" "sum_list c = length block"
    using e nibble_counts[of block] by (auto simp: entropy_bin_counts_def Let_def)
  have b: "0 \<le> bin" "bin < 16" using entropy_bin_range[OF assms(1,2)] e by simp_all
  let ?i = "nat bin"
  have i: "?i < length m" using b assms(3) by (simp add: grid_def)
  then have l: "length (m ! ?i) = 16" using assms(3) by (simp add: grid_def)
  let ?m = "m[?i := map2 (+) (m ! ?i) c]"
  have "length (map2 (+) (m ! ?i) c) = 16" using c(1) l by simp
  then have "grid ?m" by (rule grid_update[OF assms(3)])
  moreover have "sum_list (concat ?m) = sum_list (concat m) + length block"
    using sum_concat_update[OF i, of "map2 (+) (m ! ?i) c"] sum_map2[of "m ! ?i" c] l c by simp
  ultimately show ?thesis using b by (simp add: add_block_def e row_of_def)
qed

lemma add_blocks_ok:
  "\<lbrakk>0 < window; list_all (\<lambda>b. length b \<le> window) bs; grid m\<rbrakk> \<Longrightarrow>
   \<exists>m'. add_blocks window m bs = Inr m' \<and> grid m'
      \<and> sum_list (concat m') = sum_list (concat m) + sum_list (map length bs)"
proof (induction bs arbitrary: m)
  case (Cons b bs)
  have b: "length b \<le> window" "list_all (\<lambda>b. length b \<le> window) bs" using Cons.prems(2) by simp_all
  obtain m1 where m1: "add_block window m b = Inr m1" "grid m1"
    "sum_list (concat m1) = sum_list (concat m) + length b"
    using add_block_ok[OF Cons.prems(1) b(1) Cons.prems(3)] by blast
  obtain m2 where "add_blocks window m1 bs = Inr m2" "grid m2"
    "sum_list (concat m2) = sum_list (concat m1) + sum_list (map length bs)"
    using Cons.IH[OF Cons.prems(1) b(2) m1(2)] by blast
  then show ?case using m1(1,3) by simp
qed simp

lemma length_grid: "grid m \<Longrightarrow> length (concat m) = 256"
proof -
  assume g: "grid m"
  then have "map length m = replicate 16 16" by (intro replicate_eqI) (auto simp: grid_def)
  then show ?thesis by (simp add: length_concat sum_list_replicate)
qed

definition block_bytes :: "bytes \<Rightarrow> nat" where
  \<comment> \<open>how many bytes the blocks of a file hold, those of overlaps twice\<close>
  "block_bytes d = (if length d < 2048 then length d else 2048 * Suc ((length d - 2048) div 1024))"

lemma block_lengths:
  "list_all (\<lambda>b. length b \<le> 2048) (file_blocks 1024 2048 d)"
  "sum_list (map length (file_blocks 1024 2048 d)) = block_bytes d"
proof -
  show "list_all (\<lambda>b. length b \<le> 2048) (file_blocks 1024 2048 d)"
    by (simp add: file_blocks_def list_all_iff)
  show "sum_list (map length (file_blocks 1024 2048 d)) = block_bytes d"
  proof (cases "length d < 2048")
    case False
    let ?n = "Suc ((length d - 2048) div 1024)"
    have "length (take 2048 (drop (i * 1024) d)) = 2048" if "i < ?n" for i
    proof -
      have "i * 1024 \<le> (length d - 2048) div 1024 * 1024" using that by simp
      also have "\<dots> \<le> length d - 2048" by simp
      finally show ?thesis using False by simp
    qed
    then have "map length (file_blocks 1024 2048 d) = map (\<lambda>i. 2048) [0..<?n]"
      using False by (simp add: file_blocks_def del: upt_Suc)
    then show ?thesis using False by (simp add: block_bytes_def map_replicate_const sum_list_replicate del: upt_Suc)
  qed (simp add: file_blocks_def block_bytes_def)
qed

lemma byte_entropy_counts:
  "\<exists>c. raw_byte_entropy 1024 2048 d = Inr c \<and> length c = 256 \<and> sum_list c = block_bytes d"
proof -
  let ?z = "replicate 16 (replicate 16 (0 :: nat))"
  have "grid ?z" by (simp add: grid_def)
  then obtain m where "add_blocks 2048 ?z (file_blocks 1024 2048 d) = Inr m" "grid m"
    "sum_list (concat m) = sum_list (concat ?z) + sum_list (map length (file_blocks 1024 2048 d))"
    using add_blocks_ok[of 2048 "file_blocks 1024 2048 d" ?z] block_lengths(1) by auto
  moreover have "sum_list (concat ?z) = 0" by (simp add: sum_list_replicate)
  ultimately show ?thesis using length_grid block_lengths(2) by (simp add: raw_byte_entropy_def)
qed

section \<open>The vector\<close>

lemma length_histogram: "length (raw_histogram d) = 256"
proof -
  have "(of_char c :: nat) < 256" for c by simp
  then show ?thesis unfolding raw_histogram_def by (intro length_bincount) (simp add: list_all_iff)
qed

lemma sum_histogram: "sum_list (raw_histogram d) = length d"
  by (simp add: raw_histogram_def sum_bincount)

lemma length_normalized [simp]: "length (normalized c) = length c"
  by (simp add: normalized_def Let_def)

lemma normalized_positive:
  assumes "0 < sum_list c"
  shows "normalized c = map (\<lambda>k. Some (real k / real (sum_list c))) c"
proof -
  have "sum_list c \<noteq> 0" using assms by (rule gr_implies_not0)
  then show ?thesis by (simp only: normalized_def Let_def if_False)
qed

lemma normalized_number: "0 < sum_list c \<Longrightarrow> None \<notin> set (normalized c)"
  by (auto simp: normalized_positive)

lemma normalized_shares:
  assumes "0 < sum_list c"
  shows "sum_list (map the (normalized c)) = 1"
proof -
  have "sum_list (map (\<lambda>k. real k / t) ks) = real (sum_list ks) / t" for t ks
    by (induction ks) (simp_all add: add_divide_distrib)
  moreover have "sum_list (map the (normalized c)) = sum_list (map (\<lambda>k. real k / real (sum_list c)) c)"
    unfolding normalized_positive[OF assms] by (simp only: map_map comp_def option.sel)
  ultimately have "sum_list (map the (normalized c)) = real (sum_list c) / real (sum_list c)" by simp
  moreover have "real (sum_list c) \<noteq> 0" using gr_implies_not0[OF assms] by (simp only: of_nat_eq_0_iff not_False_eq_True)
  ultimately show ?thesis using divide_self by metis
qed

lemma block_bytes_pos: "d \<noteq> [] \<Longrightarrow> 0 < block_bytes d"
  by (simp add: block_bytes_def)

lemma wrap_Inr: "wrap f r = Inr y \<longleftrightarrow> (\<exists>x. r = Inr x \<and> y = f x)"
  by (auto simp: wrap_def bind_res_Inr_iff)

text \<open>What a group of features makes of a file it has read.\<close>

lemma feature_length:
  assumes "proper_hashers (em_hashers env)" "raw_feature env ex d pe f = Inr r"
    and "process_feature env ex f r = Inr v"
  shows "length v = feature_dim f"
proof (cases f)
  case GeneralFileInfo
  then show ?thesis using assms
    by (auto simp: wrap_Inr raw_general_def process_feature_def process_general_def split: if_splits)
next
  case ByteEntropyHistogram
  then show ?thesis using assms byte_entropy_counts[of d] by (auto simp: wrap_Inr process_feature_def)
next
  case StringExtractor
  then show ?thesis using assms process_strings_shape[of d] by (auto simp: wrap_Inr process_feature_def)
next
  case HeaderFileInfo
  then obtain x y where "process_header x = Inr y" "v = map Some y"
    using assms by (auto simp: wrap_Inr process_feature_def)
  then show ?thesis using HeaderFileInfo length_header by simp
next
  case DataDirectories
  then obtain x y where "process_directories x = Inr y" "v = map Some y"
    using assms by (auto simp: wrap_Inr process_feature_def)
  then show ?thesis using DataDirectories length_directories by simp
next
  case PEFormatWarnings
  then obtain c x y where "process_warnings c x = Inr y" "v = map Some y"
    using assms by (auto simp: wrap_Inr process_feature_def)
  then show ?thesis using PEFormatWarnings length_warnings by simp
qed (use assms in \<open>auto simp: wrap_Inr process_feature_def length_histogram length_sections length_imports
  length_exports length_rich length_auth\<close>)

lemma feature_numbers:
  assumes "d \<noteq> []" "raw_feature env ex d pe f = Inr r" "process_feature env ex f r = Inr v"
  shows "None \<notin> set v"
proof (cases f)
  case ByteHistogram
  then show ?thesis using assms normalized_number[of "raw_histogram d"]
    by (auto simp: process_feature_def sum_histogram)
next
  case ByteEntropyHistogram
  then show ?thesis using assms byte_entropy_counts[of d] block_bytes_pos[of d] normalized_number
    by (auto simp: wrap_Inr process_feature_def)
qed (use assms in \<open>auto simp: wrap_Inr process_feature_def\<close>)

lemma feature_names_differ: "feature_name f = feature_name g \<Longrightarrow> f = g"
  by (cases f; cases g) simp_all

lemma no_feature_is_hash: "feature_name f \<noteq> ''sha256''"
  by (cases f) simp_all

lemma raw_all_entry:
  "raw_all env ex d pe fs = Inr raw \<Longrightarrow> f \<in> set fs
    \<Longrightarrow> \<exists>r. map_of raw (feature_name f) = Some r \<and> raw_feature env ex d pe f = Inr r"
proof (induction fs arbitrary: raw)
  case (Cons g fs)
  then obtain r rest where r: "raw_feature env ex d pe g = Inr r" "raw_all env ex d pe fs = Inr rest"
    "raw = (feature_name g, r) # rest"
    by (auto simp: bind_res_Inr_iff)
  show ?case
  proof (cases "f = g")
    case False
    then have "feature_name g \<noteq> feature_name f" using feature_names_differ by metis
    then show ?thesis using Cons.IH[OF r(2)] Cons.prems(2) r(3) False by simp
  qed (use r in simp)
qed simp

lemma process_all_shape:
  assumes "proper_hashers (em_hashers env)"
    and "\<And>f. f \<in> set fs \<Longrightarrow> \<exists>r. map_of raw (feature_name f) = Some r \<and> raw_feature env ex d pe f = Inr r"
    and "process_all env ex raw fs = Inr v"
  shows "length v = sum_list (map feature_dim fs) \<and> (d \<noteq> [] \<longrightarrow> None \<notin> set v)"
  using assms(2,3)
proof (induction fs arbitrary: v)
  case (Cons f fs)
  obtain r where r: "map_of raw (feature_name f) = Some r" "raw_feature env ex d pe f = Inr r"
    using Cons.prems(1) by fastforce
  then obtain a b where ab: "process_feature env ex f r = Inr a" "process_all env ex raw fs = Inr b" "v = a @ b"
    using Cons.prems(2) by (auto simp: bind_res_Inr_iff)
  have "length b = sum_list (map feature_dim fs) \<and> (d \<noteq> [] \<longrightarrow> None \<notin> set b)"
    using Cons.IH[OF _ ab(2)] Cons.prems(1) by simp
  then show ?case using feature_length[OF assms(1) r(2) ab(1)] feature_numbers[OF _ r(2) ab(1)] ab(3) by simp
qed simp

lemma vector_shape:
  assumes "proper_hashers (em_hashers env)" "feature_vector env ex d = Inr v"
  shows "length v = sum_list (map feature_dim (ex_features ex)) \<and> (d \<noteq> [] \<longrightarrow> None \<notin> set v)"
proof -
  obtain pe raw where raw: "raw_all env ex d pe (ex_features ex) = Inr raw"
    "process_all env ex ((''sha256'', Sha256 (em_sha256 env d)) # raw) (ex_features ex) = Inr v"
    using assms(2)
    by (auto simp: feature_vector_def raw_features_def process_raw_features_def bind_res_Inr_iff split: if_splits)
  let ?raw = "(''sha256'', Sha256 (em_sha256 env d)) # raw"
  have "\<exists>r. map_of ?raw (feature_name f) = Some r \<and> raw_feature env ex d pe f = Inr r"
    if "f \<in> set (ex_features ex)" for f
    using raw_all_entry[OF raw(1) that] no_feature_is_hash[of f] by auto
  then show ?thesis using process_all_shape[OF assms(1) _ raw(2)] by blast
qed

lemma default_dim: "sum_list (map feature_dim (map snd all_features)) = 2568"
  by (simp add: all_features_def)

lemma default_features: "ex_features (new_extractor env None) = map snd all_features"
  by (simp add: new_extractor_def)

section \<open>Files that are no PE\<close>

lemma raw_plain:
  assumes "d \<noteq> []"
  shows "\<exists>r. raw_feature env ex d None f = Inr r"
  using assms byte_entropy_counts[of d]
  by (cases f) (auto simp: wrap_def raw_general_def raw_header_def raw_imports_def raw_exports_def raw_auth_def)

lemma process_plain:
  assumes "d \<noteq> []" "raw_feature env ex d None f = Inr r"
  shows "\<exists>v. process_feature env ex f r = Inr v"
proof (cases f)
  case StringExtractor
  then show ?thesis using assms process_strings_shape[of d] by (auto simp: wrap_def process_feature_def)
qed (use assms in \<open>auto simp: wrap_def process_feature_def raw_general_def raw_header_def raw_imports_def
  raw_exports_def raw_auth_def raw_directories_def raw_warnings_def process_header_def
  process_directories_def process_warnings_def bind_res_Inr_iff\<close>)

lemma raw_all_plain: "d \<noteq> [] \<Longrightarrow> \<exists>raw. raw_all env ex d None fs = Inr raw"
proof (induction fs)
  case (Cons f fs)
  then obtain r raw where "raw_feature env ex d None f = Inr r" "raw_all env ex d None fs = Inr raw"
    using raw_plain by metis
  then show ?case by simp
qed simp

lemma process_all_plain:
  assumes "d \<noteq> []"
    and "\<And>f. f \<in> set fs \<Longrightarrow> \<exists>r. map_of raw (feature_name f) = Some r \<and> raw_feature env ex d None f = Inr r"
  shows "\<exists>v. process_all env ex raw fs = Inr v"
  using assms(2)
proof (induction fs)
  case (Cons f fs)
  obtain r where r: "map_of raw (feature_name f) = Some r" "raw_feature env ex d None f = Inr r"
    using Cons.prems by fastforce
  obtain a where "process_feature env ex f r = Inr a" using process_plain[OF assms(1) r(2)] by blast
  moreover obtain b where "process_all env ex raw fs = Inr b" using Cons by auto
  ultimately show ?case using r(1) by simp
qed simp

lemma plain_vector:
  assumes "d \<noteq> []" "parse_file env d = Inr None" "ex_features ex \<noteq> []"
  shows "\<exists>v. feature_vector env ex d = Inr v"
proof -
  obtain raw where raw: "raw_all env ex d None (ex_features ex) = Inr raw" using raw_all_plain[OF assms(1)] by blast
  let ?raw = "(''sha256'', Sha256 (em_sha256 env d)) # raw"
  have "\<exists>r. map_of ?raw (feature_name f) = Some r \<and> raw_feature env ex d None f = Inr r"
    if "f \<in> set (ex_features ex)" for f
    using raw_all_entry[OF raw that] no_feature_is_hash[of f] by auto
  then obtain v where "process_all env ex ?raw (ex_features ex) = Inr v"
    using process_all_plain[OF assms(1)] by blast
  then show ?thesis using assms(2,3) raw by (simp add: feature_vector_def raw_features_def process_raw_features_def)
qed

text \<open>C32: Every file that is not empty and is no PE file gets a feature vector, and whatever file an
  extraction returns for, the vector has exactly 2568 entries, the dimension the extractor announces and the
  booster was trained with, none of them NaN. A hasher that makes rows of the length asked for is all this
  needs of the libraries.\<close>
theorem vector_has_2568_numbers:
  assumes "proper_hashers (em_hashers env)" "d \<noteq> []"
  shows "ex_dim (new_extractor env None) = 2568
    \<and> (case feature_vector env (new_extractor env None) d of
           Inl e \<Rightarrow> parse_file env d \<noteq> Inr None
         | Inr v \<Rightarrow> length v = 2568 \<and> None \<notin> set v)"
proof -
  let ?ex = "new_extractor env None"
  have "ex_dim ?ex = 2568" using default_dim by (simp add: new_extractor_def)
  moreover have "ex_features ?ex \<noteq> []" by (simp add: default_features all_features_def)
  then have "parse_file env d \<noteq> Inr None" if "feature_vector env ?ex d = Inl e" for e
    using plain_vector[OF assms(2)] that by fastforce
  moreover have "length v = 2568 \<and> None \<notin> set v" if "feature_vector env ?ex d = Inr v" for v
    using vector_shape[OF assms(1) that] default_features default_dim assms(2) by metis
  ultimately show ?thesis by (simp split: sum.split)
qed

text \<open>C33: The byte and entropy histogram never leaves its sixteen rows: for every file the entropy of every
  block has a row, the histogram is returned with 256 counts, and the counts add up to the bytes of the
  blocks, each window counted in full.\<close>
theorem byte_entropy_histogram_total:
  "case raw_byte_entropy 1024 2048 d of
     Inl e \<Rightarrow> False
   | Inr c \<Rightarrow> length c = 256
       \<and> sum_list c = (if length d < 2048 then length d else 2048 * Suc ((length d - 2048) div 1024))"
  using byte_entropy_counts[of d] by (auto simp: block_bytes_def)

section \<open>The model's score\<close>

lemma empty_file_raises:
  "parse_file env [] = Inr pe \<Longrightarrow> feature_vector env (new_extractor env None) [] = Inl IndexError"
  by (simp add: feature_vector_def raw_features_def default_features all_features_def raw_general_def wrap_def)

text \<open>The classifier's answer on EMBER features: a file that is no PE is scored by the booster on 2568
  numbers, as soon as it has the 128 bytes the classifier asks for.\<close>

lemma classifier_scores_vector:
  assumes "proper_hashers (em_hashers env)" "parse_file env d = Inr None" "128 \<le> length d"
    and "ember m = Some (ember_score env booster)"
  shows "ember_applies m (Some d)
    \<and> (\<exists>v. length v = 2568 \<and> None \<notin> set v \<and> ember_answer m (Some d) = booster v)"
proof -
  let ?ex = "new_extractor env None"
  have d: "d \<noteq> []" using assms(3) by auto
  obtain v where v: "feature_vector env ?ex d = Inr v"
    using plain_vector[OF d assms(2), of ?ex] by (auto simp: default_features all_features_def)
  then have "length v = 2568 \<and> None \<notin> set v"
    using vector_shape[OF assms(1) v] default_features default_dim d by metis
  then show ?thesis using assms(3,4) v
    by (auto simp: ember_applies_def ember_answer_def ember_score_def get_ember_extractor_def)
qed

section \<open>Witnesses\<close>

definition demo_ember :: ember_env where
  "demo_ember =
     \<lparr>em_hashers = \<lparr>hash_pairs = (\<lambda>n ps. replicate n 0), hash_words = (\<lambda>n sign ws. replicate n 0)\<rparr>,
      em_parse = (\<lambda>d. Format_error), em_machine = (\<lambda>i. None), em_subsystem = (\<lambda>i. None),
      em_signed = (\<lambda>d. None), em_sha256 = (\<lambda>d. []), em_set_order = (\<lambda>S. []), em_warning_file = None\<rparr>"

lemma demo_proper: "proper_hashers (em_hashers demo_ember)"
  by (simp add: proper_hashers_def demo_ember_def)

theorem vector_has_2568_numbers_witness:
  "\<exists>v. feature_vector demo_ember (new_extractor demo_ember None) ''plain text'' = Inr v
     \<and> length v = 2568 \<and> None \<notin> set v"
proof -
  have p: "parse_file demo_ember ''plain text'' = Inr None" by (simp add: parse_file_def demo_ember_def)
  show ?thesis
    using vector_has_2568_numbers[OF demo_proper, of "''plain text''"] p by (auto split: sum.splits)
qed

end
