(* ===== verification/VirtualMemory.thy ===== *)
theory VirtualMemory
  imports Messages
begin

text \<open>
  \<open>VirtualMemory\<close> of \<open>sandbox/emulator.py\<close>: a sparse address space of pages of 4096 bytes, created on
  demand. Addresses are Python integers, unbounded and possibly negative. The contract of a byte
  store is the locale \<open>byte_store\<close>; the paged memory is an interpretation of it, through the abstraction
  \<open>byte_at\<close> that reads every address, zero where no page exists.
\<close>

unbundle bit_operations_syntax

section \<open>State and operations\<close>

record vmem =
  is_64bit :: bool
  vmask :: int
  pages :: "int \<rightharpoonup> bytes"
  permissions :: "int \<rightharpoonup> string"
  written_pages :: "int set"

definition new_vmem :: "bool \<Rightarrow> vmem" where
  "new_vmem b = \<lparr>is_64bit = b, vmask = (if b then 0xFFFFFFFFFFFFFFFF else 0xFFFFFFFF),
     pages = Map.empty, permissions = Map.empty, written_pages = {}\<rparr>"

definition page_base :: "int \<Rightarrow> int" where
  "page_base a = a AND NOT 0xFFF"

definition page_off :: "int \<Rightarrow> nat" where
  "page_off a = nat (a AND 0xFFF)"

definition num_pages :: "int \<Rightarrow> nat" where
  "num_pages sz = nat (max 1 ((sz + 0xFFF) div 0x1000))"

definition zero_page :: bytes where
  "zero_page = replicate 4096 (CHR 0x00)"

definition add_page :: "string \<Rightarrow> int \<Rightarrow> vmem \<Rightarrow> vmem" where
  "add_page prot p m =
     (if pages m p = None
      then m\<lparr>pages := (pages m)(p \<mapsto> zero_page), permissions := (permissions m)(p \<mapsto> prot)\<rparr>
      else m)"

definition alloc :: "int \<Rightarrow> int \<Rightarrow> string \<Rightarrow> vmem \<Rightarrow> vmem" where
  "alloc addr sz prot m =
     fold (\<lambda>i. add_page prot (page_base addr + int i * 0x1000)) [0..<num_pages sz] m"

function vm_write_bytes :: "int \<Rightarrow> bytes \<Rightarrow> vmem \<Rightarrow> vmem" where
  "vm_write_bytes addr data m =
     (if data = [] then m
      else
        let p = page_base addr;
            m1 = (if pages m p = None then alloc p 4096 ''RWX'' m else m);
            off = page_off addr;
            n = min (length data) (4096 - off);
            pg = the (pages m1 p);
            m2 = m1\<lparr>pages := (pages m1)(p \<mapsto> take off pg @ take n data @ drop (off + n) pg),
                    written_pages := insert p (written_pages m1)\<rparr>
        in vm_write_bytes (addr + int n) (drop n data) m2)"
  by pat_completeness auto

lemma and_low12: "(a :: int) AND 0xFFF = a mod 4096"
  using take_bit_eq_mask[of 12 a] by (simp add: take_bit_eq_mod mask_eq_exp_minus_1)

lemma page_off_mod: "page_off a = nat (a mod 4096)"
  by (simp add: page_off_def and_low12)

lemma page_off_less [simp]: "page_off a < 4096"
  by (simp add: page_off_mod nat_less_iff)

termination vm_write_bytes
  by (relation "measure (\<lambda>(a, d, m). length d)") (auto simp: Let_def)

declare vm_write_bytes.simps [simp del]

function vm_read_bytes :: "vmem \<Rightarrow> int \<Rightarrow> nat \<Rightarrow> bytes" where
  "vm_read_bytes m addr sz =
     (if sz = 0 then []
      else
        let p = page_base addr; off = page_off addr; n = min sz (4096 - off)
        in (case pages m p of
              None \<Rightarrow> replicate n (CHR 0x00)
            | Some pg \<Rightarrow> take n (drop off pg))
           @ vm_read_bytes m (addr + int n) (sz - n))"
  by pat_completeness auto

termination vm_read_bytes
  by (relation "measure (\<lambda>(m, a, n). n)") (auto simp: Let_def)

declare vm_read_bytes.simps [simp del]

definition write_u32 :: "int \<Rightarrow> int \<Rightarrow> vmem \<Rightarrow> vmem" where
  "write_u32 addr v m = vm_write_bytes addr (le_bytes 4 (nat (v AND 0xFFFFFFFF))) m"

definition read_u32 :: "vmem \<Rightarrow> int \<Rightarrow> int" where
  "read_u32 m addr = int (le_nat (vm_read_bytes m addr 4))"

definition write_u64 :: "int \<Rightarrow> int \<Rightarrow> vmem \<Rightarrow> vmem" where
  "write_u64 addr v m = vm_write_bytes addr (le_bytes 8 (nat (v AND 0xFFFFFFFFFFFFFFFF))) m"

definition read_u64 :: "vmem \<Rightarrow> int \<Rightarrow> int" where
  "read_u64 m addr = int (le_nat (vm_read_bytes m addr 8))"

definition get_modified_buffers :: "vmem \<Rightarrow> bytes list" where
  "get_modified_buffers m =
     filter (\<lambda>pg. \<exists>b \<in> set pg. b \<noteq> CHR 0x00)
       (map (\<lambda>p. the (pages m p)) (sorted_list_of_set (written_pages m)))"

section \<open>Pages\<close>

lemma and_not_minus: "(a :: int) AND NOT b = a - (a AND b)"
proof -
  have "a - (a AND b) = a AND NOT (a AND b)"
    by (rule disjunctive_diff) (simp add: bit_and_iff)
  also have "\<dots> = a AND NOT b" by (auto simp: bit_eq_iff bit_simps)
  finally show ?thesis ..
qed

lemma page_base_mod: "page_base a = a - a mod 4096"
  using and_not_minus[of a "0xFFF"] and_low12[of a] by (simp add: page_base_def del: and_minus_numerals)

lemma page_split: "a = page_base a + int (page_off a)"
  by (simp add: page_base_mod page_off_mod)

lemma page_base_idem [simp]: "page_base (page_base a) = page_base a"
  by (simp add: page_base_mod)

lemma page_base_aligned [simp]: "page_base a mod 4096 = 0"
  by (simp add: page_base_mod)

lemma page_base_step [simp]: "page_base (page_base a + int i * 4096) = page_base a + int i * 4096"
  by (simp add: page_base_mod)

lemma same_page: "page_off a + k < 4096 \<Longrightarrow>
    page_base (a + int k) = page_base a \<and> page_off (a + int k) = page_off a + k"
proof -
  assume "page_off a + k < 4096"
  then have "(a + int k) mod 4096 = a mod 4096 + int k"
    by (subst mod_add_left_eq[symmetric]) (simp add: page_off_mod mod_pos_pos_trivial)
  then show ?thesis by (simp add: page_base_mod page_off_mod nat_add_distrib)
qed

lemma on_page: "page_base x = page_base a \<Longrightarrow> x = a + (int (page_off x) - int (page_off a))"
  using page_split[of x] page_split[of a] by simp

definition vmem_ok :: "vmem \<Rightarrow> bool" where
  \<comment> \<open>pages are aligned and full, each has a protection, and written pages exist\<close>
  "vmem_ok m \<longleftrightarrow>
     (\<forall>p pg. pages m p = Some pg \<longrightarrow> length pg = 4096 \<and> p mod 4096 = 0) \<and>
     dom (permissions m) = dom (pages m) \<and>
     written_pages m \<subseteq> dom (pages m) \<and> finite (written_pages m)"

definition byte_at :: "vmem \<Rightarrow> int \<Rightarrow> char" where
  "byte_at m a = (case pages m (page_base a) of None \<Rightarrow> CHR 0x00 | Some pg \<Rightarrow> pg ! page_off a)"

lemma zero_page_simps [simp]: "length zero_page = 4096" "i < 4096 \<Longrightarrow> zero_page ! i = CHR 0x00"
  by (simp_all add: zero_page_def)

lemma vmem_ok_add_page [inv_intros]: "vmem_ok m \<Longrightarrow> p mod 4096 = 0 \<Longrightarrow> vmem_ok (add_page prot p m)"
  by (auto simp: vmem_ok_def add_page_def)

lemma byte_at_add_page [simp]: "byte_at (add_page prot p m) = byte_at m"
  by (auto simp: byte_at_def add_page_def fun_eq_iff split: option.splits)

lemma written_add_page [simp]: "written_pages (add_page prot p m) = written_pages m"
  by (simp add: add_page_def)

lemma add_pages:
  assumes "\<forall>p \<in> set ps. p mod 4096 = 0"
  shows "(vmem_ok m \<longrightarrow> vmem_ok (fold (add_page prot) ps m))
    \<and> byte_at (fold (add_page prot) ps m) = byte_at m
    \<and> written_pages (fold (add_page prot) ps m) = written_pages m
    \<and> (\<forall>p. pages m p \<noteq> None \<longrightarrow> pages (fold (add_page prot) ps m) p = pages m p)"
  using assms
proof (induction ps arbitrary: m)
  case (Cons q ps)
  have "pages m p \<noteq> None \<Longrightarrow> pages (add_page prot q m) p = pages m p" for p
    by (auto simp: add_page_def)
  moreover have "vmem_ok m \<Longrightarrow> vmem_ok (add_page prot q m)" using Cons.prems by (simp add: vmem_ok_add_page)
  ultimately show ?case using Cons.IH[of "add_page prot q m"] Cons.prems by auto
qed simp

lemma alloc_pages:
  "alloc a sz prot m = fold (add_page prot) (map (\<lambda>i. page_base a + int i * 0x1000) [0..<num_pages sz]) m"
  by (simp add: alloc_def fold_map o_def)

lemma page_base_aligned_step: "(page_base a + int i * 4096) mod 4096 = 0"
  by (simp add: page_base_mod mod_add_right_eq mod_diff_left_eq)

lemma alloc_ok [inv_intros]: "vmem_ok m \<Longrightarrow> vmem_ok (alloc a sz prot m)"
  and byte_at_alloc [simp]: "byte_at (alloc a sz prot m) = byte_at m"
  and written_alloc [simp]: "written_pages (alloc a sz prot m) = written_pages m"
  and pages_alloc: "pages m p \<noteq> None \<Longrightarrow> pages (alloc a sz prot m) p = pages m p"
  using add_pages[of "map (\<lambda>i. page_base a + int i * 0x1000) [0..<num_pages sz]" m prot]
    page_base_aligned_step[of a]
  unfolding alloc_pages by (auto simp del: mod_0_imp_dvd)

lemma alloc_page: "page_base p = p \<Longrightarrow> pages m p = None \<Longrightarrow> pages (alloc p 4096 prot m) p = Some zero_page"
  by (simp add: alloc_def num_pages_def add_page_def)

section \<open>A byte store\<close>

locale byte_store =
  fixes peek :: "'m \<Rightarrow> int \<Rightarrow> char"
    and wr :: "int \<Rightarrow> bytes \<Rightarrow> 'm \<Rightarrow> 'm"
    and rd :: "'m \<Rightarrow> int \<Rightarrow> nat \<Rightarrow> bytes"
    and ok :: "'m \<Rightarrow> bool"
  assumes ok_wr: "ok m \<Longrightarrow> ok (wr a d m)"
    and peek_wr: "ok m \<Longrightarrow>
      peek (wr a d m) x = (if a \<le> x \<and> x < a + int (length d) then d ! nat (x - a) else peek m x)"
    and rd_peek: "ok m \<Longrightarrow> rd m a n = map (\<lambda>i. peek m (a + int i)) [0..<n]"
begin

lemma length_rd: "ok m \<Longrightarrow> length (rd m a n) = n"
  by (simp add: rd_peek)

lemma rd_wr_same: "ok m \<Longrightarrow> rd (wr a d m) a (length d) = d"
  by (auto simp: rd_peek ok_wr peek_wr intro!: nth_equalityI)

lemma rd_wr_apart:
  assumes "ok m" and "b + int n \<le> a \<or> a + int (length d) \<le> b"
  shows "rd (wr a d m) b n = rd m b n"
  using assms by (auto simp: rd_peek ok_wr peek_wr)

lemma rd_wr_number: "ok m \<Longrightarrow> le_nat (rd (wr a (le_bytes n v) m) a n) = v mod 256 ^ n"
  using rd_wr_same[of m a "le_bytes n v"] by (simp add: le_nat_bytes)

lemma wr_twice: "ok m \<Longrightarrow> peek (wr (a + int (length d)) e (wr a d m)) = peek (wr a (d @ e) m)"
proof
  fix x
  assume "ok m"
  moreover have "nat (x - (a + int (length d))) = nat (x - a) - length d"
    if "a + int (length d) \<le> x" using that by linarith
  ultimately show "peek (wr (a + int (length d)) e (wr a d m)) x = peek (wr a (d @ e) m) x"
    by (auto simp: peek_wr ok_wr nth_append)
qed

lemma rd_split: "ok m \<Longrightarrow> rd m a (n + k) = rd m a n @ rd m (a + int n) k"
  by (auto simp: rd_peek nth_append intro!: nth_equalityI arg_cong[of _ _ "peek m"])

end

section \<open>The paged memory is a byte store\<close>

definition put_chunk :: "int \<Rightarrow> nat \<Rightarrow> bytes \<Rightarrow> vmem \<Rightarrow> vmem" where
  \<comment> \<open>one iteration of \<open>write_bytes\<close>\<close>
  "put_chunk a n d m =
     (let p = page_base a; m1 = (if pages m p = None then alloc p 4096 ''RWX'' m else m)
      in m1\<lparr>pages := (pages m1)(p \<mapsto> take (page_off a) (the (pages m1 p)) @ take n d
               @ drop (page_off a + n) (the (pages m1 p))),
            written_pages := insert p (written_pages m1)\<rparr>)"

lemma write_bytes_step:
  "vm_write_bytes a d m =
     (if d = [] then m
      else let n = min (length d) (4096 - page_off a)
           in vm_write_bytes (a + int n) (drop n d) (put_chunk a n d m))"
  by (subst vm_write_bytes.simps) (simp add: Let_def put_chunk_def)

lemma page_ready:
  assumes "vmem_ok m" and "m1 = (if pages m (page_base a) = None then alloc (page_base a) 4096 ''RWX'' m else m)"
  shows "vmem_ok m1" "byte_at m1 = byte_at m" "\<exists>pg. pages m1 (page_base a) = Some pg \<and> length pg = 4096"
proof -
  show ok: "vmem_ok m1" using assms by (auto intro: alloc_ok)
  show "byte_at m1 = byte_at m" using assms(2) by simp
  obtain pg where "pages m1 (page_base a) = Some pg"
    using assms(2) alloc_page[of "page_base a" m] by (cases "pages m (page_base a)") auto
  with ok show "\<exists>pg. pages m1 (page_base a) = Some pg \<and> length pg = 4096" by (auto simp: vmem_ok_def)
qed

lemma put_chunk_ok:
  assumes "vmem_ok m" and "page_off a + n \<le> 4096" and "n \<le> length d"
  shows "vmem_ok (put_chunk a n d m)"
proof -
  define m1 where "m1 = (if pages m (page_base a) = None then alloc (page_base a) 4096 ''RWX'' m else m)"
  note r = page_ready[OF assms(1) m1_def]
  then obtain pg where "pages m1 (page_base a) = Some pg" "length pg = 4096" by blast
  then show ?thesis
    using r(1) assms(2,3) unfolding put_chunk_def m1_def[symmetric] Let_def
    by (auto simp: vmem_ok_def)
qed

lemma byte_at_put_chunk:
  assumes "vmem_ok m" and "page_off a + n \<le> 4096" and "n \<le> length d"
  shows "byte_at (put_chunk a n d m) x =
    (if a \<le> x \<and> x < a + int n then d ! nat (x - a) else byte_at m x)"
proof -
  define m1 where "m1 = (if pages m (page_base a) = None then alloc (page_base a) 4096 ''RWX'' m else m)"
  note r = page_ready[OF assms(1) m1_def]
  then obtain pg where pg: "pages m1 (page_base a) = Some pg" "length pg = 4096" by blast
  have e: "byte_at (put_chunk a n d m) x =
      (if page_base x = page_base a
       then (take (page_off a) pg @ take n d @ drop (page_off a + n) pg) ! page_off x else byte_at m1 x)"
    using pg unfolding put_chunk_def m1_def[symmetric] Let_def by (simp add: byte_at_def)
  show ?thesis
  proof (cases "page_base x = page_base a")
    case True
    from on_page[OF True] have x: "x = a + (int (page_off x) - int (page_off a))" .
    have "byte_at m x = pg ! page_off x" using r(2) pg True by (simp add: byte_at_def flip: r(2))
    moreover have "a \<le> x \<longleftrightarrow> page_off a \<le> page_off x" "x < a + int n \<longleftrightarrow> page_off x < page_off a + n"
      "page_off a \<le> page_off x \<Longrightarrow> nat (x - a) = page_off x - page_off a"
      using x by linarith+
    ultimately show ?thesis
      using e True pg(2) assms(2,3) by (auto simp: nth_append min_def)
  next
    case False
    have "\<not> (a \<le> x \<and> x < a + int n)"
    proof
      assume "a \<le> x \<and> x < a + int n"
      moreover from this have "page_off a + nat (x - a) < 4096" using assms(2) by linarith
      ultimately show False using same_page[of a "nat (x - a)"] False by simp
    qed
    with e False r(2) show ?thesis by auto
  qed
qed

lemma write_bytes_ok:
  "vmem_ok m \<Longrightarrow> vmem_ok (vm_write_bytes a d m) \<and> (\<forall>x. byte_at (vm_write_bytes a d m) x =
     (if a \<le> x \<and> x < a + int (length d) then d ! nat (x - a) else byte_at m x))"
proof (induction "length d" arbitrary: a d m rule: less_induct)
  case less
  show ?case
  proof (cases "d = []")
    case True
    then show ?thesis using less.prems by (auto simp: vm_write_bytes.simps)
  next
    case False
    let ?n = "min (length d) (4096 - page_off a)"
    have n: "page_off a + ?n \<le> 4096" "?n \<le> length d" "0 < ?n"
      using False page_off_less[of a] unfolding length_greater_0_conv[symmetric] by linarith+
    have ok: "vmem_ok (put_chunk a ?n d m)" by (rule put_chunk_ok[OF less.prems n(1,2)])
    note c = byte_at_put_chunk[OF less.prems n(1,2)]
    have shorter: "length (drop ?n d) < length d" using n False by simp
    note IH = less.hyps[OF shorter ok, of "a + int ?n"]
    have "vm_write_bytes a d m = vm_write_bytes (a + int ?n) (drop ?n d) (put_chunk a ?n d m)"
      using False by (subst write_bytes_step) (simp add: Let_def)
    moreover have "drop ?n d ! nat (x - (a + int ?n)) = d ! nat (x - a)" if "a + int ?n \<le> x" "x < a + int (length d)" for x
    proof -
      have "?n + nat (x - (a + int ?n)) = nat (x - a)" using that(1) by linarith
      then show ?thesis using n(2) by (simp add: nth_drop)
    qed
    moreover have "int (length (drop ?n d)) = int (length d) - int ?n" using n(2) by (simp add: of_nat_diff)
    ultimately show ?thesis using IH c n(2) by (simp del: length_drop drop_drop)
  qed
qed

lemma upt_pieces: "k \<le> n \<Longrightarrow> [0..<n] = [0..<k] @ map (\<lambda>i. k + i) [0..<n - k]"
  by (rule nth_equalityI) (auto simp: nth_append)

lemma read_bytes_at_each:
  "vmem_ok m \<Longrightarrow> vm_read_bytes m a n = map (\<lambda>i. byte_at m (a + int i)) [0..<n]"
proof (induction n arbitrary: a rule: less_induct)
  case (less n)
  show ?case
  proof (cases "n = 0")
    case True
    then show ?thesis by (simp add: vm_read_bytes.simps)
  next
    case False
    let ?k = "min n (4096 - page_off a)"
    have k: "0 < ?k" "?k \<le> n" "page_off a + ?k \<le> 4096" using False page_off_less[of a] by linarith+
    have "(case pages m (page_base a) of None \<Rightarrow> replicate ?k (CHR 0x00)
           | Some pg \<Rightarrow> take ?k (drop (page_off a) pg)) = map (\<lambda>i. byte_at m (a + int i)) [0..<?k]" (is "?chunk = _")
    proof (rule nth_equalityI)
      have l: "pages m (page_base a) = Some pg \<Longrightarrow> length pg = 4096" for pg
        using less.prems by (simp add: vmem_ok_def)
      then show len: "length ?chunk = length (map (\<lambda>i. byte_at m (a + int i)) [0..<?k])"
        using k by (auto split: option.split)
      fix i assume "i < length ?chunk"
      with len have i: "i < ?k" by simp
      then have "page_off a + i < 4096" using k(3) by linarith
      from same_page[OF this] show "?chunk ! i = map (\<lambda>i. byte_at m (a + int i)) [0..<?k] ! i"
        using i l by (auto simp: byte_at_def split: option.split)
    qed
    moreover have "n - ?k < n" using k False by simp
    note less.IH[OF this less.prems, of "a + int ?k"]
    moreover have "[0..<n] = [0..<?k] @ map (\<lambda>i. ?k + i) [0..<n - ?k]"
      using k(2) by (rule upt_pieces)
    ultimately show ?thesis using False
      by (subst vm_read_bytes.simps) (simp add: Let_def o_def add.assoc)
  qed
qed

interpretation vm: byte_store byte_at vm_write_bytes vm_read_bytes vmem_ok
  using write_bytes_ok read_bytes_at_each by unfold_locales auto

section \<open>Histories\<close>

lemma new_vmem_ok [inv_intros, simp]: "vmem_ok (new_vmem b)"
  by (simp add: vmem_ok_def new_vmem_def)

lemma byte_at_new [simp]: "byte_at (new_vmem b) = (\<lambda>a. CHR 0x00)"
  by (simp add: byte_at_def new_vmem_def fun_eq_iff)

datatype mem_op = OAlloc int int string | OWrite int bytes

fun mem_step :: "mem_op \<Rightarrow> vmem \<Rightarrow> vmem" where
  "mem_step (OAlloc a sz prot) m = alloc a sz prot m"
| "mem_step (OWrite a d) m = vm_write_bytes a d m"

fun flat_step :: "mem_op \<Rightarrow> (int \<Rightarrow> char) \<Rightarrow> int \<Rightarrow> char" where
  \<comment> \<open>the specification: a memory without pages\<close>
  "flat_step (OAlloc a sz prot) f = f"
| "flat_step (OWrite a d) f = (\<lambda>x. if a \<le> x \<and> x < a + int (length d) then d ! nat (x - a) else f x)"

lemma mem_history:
  "vmem_ok m \<Longrightarrow> vmem_ok (fold mem_step ops m) \<and> byte_at (fold mem_step ops m) = fold flat_step ops (byte_at m)"
proof (induction ops arbitrary: m)
  case (Cons op ops)
  have "vmem_ok (mem_step op m) \<and> byte_at (mem_step op m) = flat_step op (byte_at m)"
    using Cons.prems by (cases op) (auto simp: alloc_ok vm.ok_wr vm.peek_wr fun_eq_iff)
  with Cons.IH[of "mem_step op m"] show ?case by simp
qed simp

text \<open>C12: the paged memory refines a flat one: after any sequence of allocations and writes, of any size,
  crossing pages or not, at any address, reading any range gives what the last writes to it stored and
  zero where nothing was written.\<close>
theorem memory_is_flat:
  "vm_read_bytes (fold mem_step ops (new_vmem b)) a n =
     map (\<lambda>i. fold flat_step ops (\<lambda>x. CHR 0x00) (a + int i)) [0..<n]"
  using mem_history[OF new_vmem_ok, of ops b] by (simp add: vm.rd_peek)

lemma low_mask: "nat (v AND (2 ^ k - 1)) = nat (v mod 2 ^ k)" for v :: int
  using take_bit_eq_mask[of k v] by (simp add: take_bit_eq_mod mask_eq_exp_minus_1)

lemma read_write_u32: "vmem_ok m \<Longrightarrow> read_u32 (write_u32 a v m) a = v mod 2 ^ 32"
  using low_mask[of v 32] by (simp add: read_u32_def write_u32_def vm.rd_wr_number)

lemma read_write_u64: "vmem_ok m \<Longrightarrow> read_u64 (write_u64 a v m) a = v mod 2 ^ 64"
  using low_mask[of v 64] by (simp add: read_u64_def write_u64_def vm.rd_wr_number)

lemma write_number_ok [inv_intros]:
  "vmem_ok m \<Longrightarrow> vmem_ok (write_u32 a v m)" "vmem_ok m \<Longrightarrow> vmem_ok (write_u64 a v m)"
  by (simp_all add: write_u32_def write_u64_def vm.ok_wr)

lemma write_marks_page: "data \<noteq> [] \<Longrightarrow> page_base a \<in> written_pages (vm_write_bytes a data m)"
  and written_grow: "written_pages m \<subseteq> written_pages (vm_write_bytes a data m)"
proof -
  show g: "written_pages m \<subseteq> written_pages (vm_write_bytes a data m)" for a data m
  proof (induction "length data" arbitrary: a data m rule: less_induct)
    case less
    let ?n = "min (length data) (4096 - page_off a)"
    have "written_pages m \<subseteq> written_pages (put_chunk a ?n data m)"
      by (auto simp: put_chunk_def Let_def)
    moreover have "data \<noteq> [] \<Longrightarrow> length (drop ?n data) < length data"
      using page_off_less[of a] by (simp del: page_off_less)
    moreover note less[of "drop ?n data" "put_chunk a ?n data m" "a + int ?n"]
    ultimately have "data \<noteq> [] \<Longrightarrow> written_pages m \<subseteq>
        written_pages (vm_write_bytes (a + int ?n) (drop ?n data) (put_chunk a ?n data m))"
      using order_trans by blast
    then show ?case by (subst write_bytes_step) (simp add: Let_def)
  qed
  show "data \<noteq> [] \<Longrightarrow> page_base a \<in> written_pages (vm_write_bytes a data m)"
    using g by (subst write_bytes_step) (force simp: put_chunk_def Let_def)
qed

end
