(* ===== verification/RuleEngine.thy ===== *)
theory RuleEngine
  imports Schema Scoring
begin

text \<open>
  \<open>engine/rule_engine.py\<close>: the Sigma subset. A rule names selections, each a conjunction of
  field tests on the event, and a boolean condition over them that a recursive-descent parser
  evaluates while it reads. YAML files are parsed outside; a rule file is the list of its
  documents. Fields of the event are looked up by the names of the schema; names of methods of
  the event class, which Python's \<open>hasattr\<close> also finds, are not modelled.
\<close>

section \<open>Fields and values\<close>

definition lookup_field :: "event \<Rightarrow> string \<Rightarrow> pyval" where
  "lookup_field e f =
     (case map_of (to_dict e) f of
        Some v \<Rightarrow> v
      | None \<Rightarrow>
          if f = ''image'' then of_opt_str (image_path e)
          else dict_get (extra e) f)"

definition match_value :: "pyval \<Rightarrow> pyval \<Rightarrow> string \<Rightarrow> bool py_result" where
  "match_value actual expected modifier =
     (if actual = VNone then Inr False
      else let a = lower (py_str actual); x = lower (py_str expected)
      in if modifier = ''equals'' then Inr (a = x)
         else if modifier = ''endswith'' then Inr (endswith a x)
         else if modifier = ''startswith'' then Inr (startswith a x)
         else if modifier = ''contains'' then Inr (contains a x)
         else Inl RuleSyntaxError)"

definition parse_key :: "string \<Rightarrow> string \<times> string" where
  "parse_key k =
     (if CHR ''|'' \<in> set k then
        (strip (takeWhile (\<lambda>c. c \<noteq> CHR ''|'') k), strip (tl (dropWhile (\<lambda>c. c \<noteq> CHR ''|'') k)))
      else (strip k, ''equals''))"

section \<open>Selections\<close>

record selection =
  criteria :: "(string \<times> string \<times> pyval) list"
  always_false :: bool

definition make_selection :: "(string, pyval) dict \<Rightarrow> selection" where
  "make_selection d =
     \<lparr>criteria = map (\<lambda>(k, v). (fst (parse_key k), snd (parse_key k), v)) d, always_false = False\<rparr>"

fun any_match :: "pyval \<Rightarrow> pyval list \<Rightarrow> string \<Rightarrow> bool py_result" where
  "any_match actual [] m = Inr False"
| "any_match actual (x # xs) m =
     bind_res (match_value actual x m) (\<lambda>b. if b then Inr True else any_match actual xs m)"

definition criterion_holds :: "event \<Rightarrow> string \<times> string \<times> pyval \<Rightarrow> bool py_result" where
  "criterion_holds e c =
     (case c of (field, modifier, expected) \<Rightarrow>
        (case expected of
           VList xs \<Rightarrow> any_match (lookup_field e field) xs modifier
         | _ \<Rightarrow> match_value (lookup_field e field) expected modifier))"

fun all_criteria :: "event \<Rightarrow> (string \<times> string \<times> pyval) list \<Rightarrow> bool py_result" where
  "all_criteria e [] = Inr True"
| "all_criteria e (c # cs) =
     bind_res (criterion_holds e c) (\<lambda>b. if b then all_criteria e cs else Inr False)"

definition matches :: "selection \<Rightarrow> event \<Rightarrow> bool py_result" where
  "matches s e = (if always_false s then Inr False else all_criteria e (criteria s))"

section \<open>Conditions\<close>

definition ident_start :: "char \<Rightarrow> bool" where
  "ident_start c =
     (let n = (of_char c :: nat) in (65 \<le> n \<and> n \<le> 90) \<or> n = 95 \<or> (97 \<le> n \<and> n \<le> 122))"

definition ident_char :: "char \<Rightarrow> bool" where
  "ident_char c \<longleftrightarrow> ident_start c \<or> is_digit c"

function tokenize :: "string \<Rightarrow> string list" where
  \<comment> \<open>\<open>findall\<close> of the token pattern: parentheses and maximal identifiers, \<open>and\<close>, \<open>or\<close> and \<open>not\<close>
     being identifiers too; every other character is skipped\<close>
  "tokenize [] = []"
| "tokenize (c # s) =
     (if c = CHR ''('' \<or> c = CHR '')'' then [c] # tokenize s
      else if ident_start c then (c # takeWhile ident_char s) # tokenize (dropWhile ident_char s)
      else tokenize s)"
  by pat_completeness auto
termination
  by (relation "measure length") (auto simp: less_Suc_eq_le length_dropWhile_le)

type_synonym env = "string \<Rightarrow> bool py_result option"
type_synonym parsed = "(bool \<times> string list) py_result option"

text \<open>
  The parser reads tokens and returns the value with the tokens left. \<open>None\<close> is running out of
  fuel, which \<open>eval_condition_total\<close> below excludes for the fuel that \<open>eval_condition\<close> gives.
\<close>

definition peek_is :: "string list \<Rightarrow> string \<Rightarrow> bool" where
  "peek_is ts t = (case ts of [] \<Rightarrow> False | x # _ \<Rightarrow> x = t)"

datatype nonterm = NOr | NOrLoop bool | NAnd | NAndLoop bool | NNot | NAtom

fun pbind :: "parsed \<Rightarrow> (bool \<Rightarrow> string list \<Rightarrow> parsed) \<Rightarrow> parsed" where
  "pbind None f = None"
| "pbind (Some (Inl x)) f = Some (Inl x)"
| "pbind (Some (Inr (v, r))) f = f v r"

fun parse :: "nat \<Rightarrow> nonterm \<Rightarrow> env \<Rightarrow> string list \<Rightarrow> parsed" where
  \<comment> \<open>\<open>NOr\<close>, \<open>NAnd\<close>, \<open>NNot\<close> and \<open>NAtom\<close> are the methods \<open>_parse_or\<close>, \<open>_parse_and\<close>, \<open>_parse_not\<close>
     and \<open>_parse_atom\<close>; the loop nonterminals are their \<open>while\<close> loops with the value so far\<close>
  "parse 0 nt env ts = None"
| "parse (Suc n) NOr env ts = pbind (parse n NAnd env ts) (\<lambda>v r. parse n (NOrLoop v) env r)"
| "parse (Suc n) (NOrLoop v) env ts =
     (if peek_is ts ''or''
      then pbind (parse n NAnd env (tl ts)) (\<lambda>w r. parse n (NOrLoop (v \<or> w)) env r)
      else Some (Inr (v, ts)))"
| "parse (Suc n) NAnd env ts = pbind (parse n NNot env ts) (\<lambda>v r. parse n (NAndLoop v) env r)"
| "parse (Suc n) (NAndLoop v) env ts =
     (if peek_is ts ''and''
      then pbind (parse n NNot env (tl ts)) (\<lambda>w r. parse n (NAndLoop (v \<and> w)) env r)
      else Some (Inr (v, ts)))"
| "parse (Suc n) NNot env ts =
     (if peek_is ts ''not'' then pbind (parse n NNot env (tl ts)) (\<lambda>v r. Some (Inr (\<not> v, r)))
      else parse n NAtom env ts)"
| "parse (Suc n) NAtom env ts =
     (if peek_is ts ''('' then
        pbind (parse n NOr env (tl ts)) (\<lambda>v r.
          if peek_is r '')'' then Some (Inr (v, tl r)) else Some (Inl RuleSyntaxError))
      else case ts of
        [] \<Rightarrow> Some (Inl RuleSyntaxError)
      | t # r \<Rightarrow>
          (case env t of
             None \<Rightarrow> Some (Inl RuleSyntaxError)
           | Some (Inl x) \<Rightarrow> Some (Inl x)
           | Some (Inr b) \<Rightarrow> Some (Inr (b, r))))"

definition eval_condition :: "env \<Rightarrow> string list \<Rightarrow> bool py_result option" where
  "eval_condition env ts =
     (case parse (4 * length ts + 4) NOr env ts of
        None \<Rightarrow> None
      | Some (Inl x) \<Rightarrow> Some (Inl x)
      | Some (Inr (v, r)) \<Rightarrow> if r = [] then Some (Inr v) else Some (Inl RuleSyntaxError))"

section \<open>Rules\<close>

record rule =
  title :: pyval
  rule_id :: pyval
  status :: pyval
  level :: pyval
  description :: pyval
  category :: pyval
  selections :: "(string, selection) dict"
  external_hooks :: "string list"
  condition :: "string list"

fun attr_dict :: "pyval \<Rightarrow> (string, pyval) dict py_result" where
  \<comment> \<open>a value whose \<open>get\<close> is called must be a dict\<close>
  "attr_dict (VDict d) = Inr d"
| "attr_dict _ = Inl AttributeError"

fun detection_dict :: "pyval \<Rightarrow> (string, pyval) dict py_result" where
  \<comment> \<open>the test \<open>\"condition\" not in detection\<close>, then \<open>items()\<close>\<close>
  "detection_dict (VDict d) =
     (if map_of d ''condition'' = None then Inl RuleSyntaxError else Inr d)"
| "detection_dict (VList xs) = (if VStr ''condition'' \<in> set xs then Inl AttributeError else Inl RuleSyntaxError)"
| "detection_dict (VStr s) = (if contains s ''condition'' then Inl AttributeError else Inl RuleSyntaxError)"
| "detection_dict _ = Inl TypeError"

definition named_selection :: "pyval \<Rightarrow> selection" where
  \<comment> \<open>a value that is not a dict is an external hook, registered as always false\<close>
  "named_selection v = (case v of VDict d \<Rightarrow> make_selection d | _ \<Rightarrow> \<lparr>criteria = [], always_false = True\<rparr>)"

definition is_hook :: "pyval \<Rightarrow> bool" where
  "is_hook v = (case v of VDict d \<Rightarrow> False | _ \<Rightarrow> True)"

definition condition_tokens :: "pyval \<Rightarrow> string list" where
  "condition_tokens v = (let s = py_str v in tokenize (if s = [] then ''selection'' else s))"

definition make_rule :: "pyval \<Rightarrow> rule py_result" where
  "make_rule docv =
     bind_res (attr_dict docv) (\<lambda>doc.
     bind_res (attr_dict (dict_get_or doc ''logsource'' (VDict []))) (\<lambda>ls.
     bind_res (detection_dict (dict_get_or doc ''detection'' (VDict []))) (\<lambda>det.
       let named = filter (\<lambda>p. fst p \<noteq> ''condition'') det
       in Inr \<lparr>title = dict_get_or doc ''title'' (VStr ''untitled rule''),
               rule_id = dict_get_or doc ''id'' (VStr ''sentinel-unknown''),
               status = dict_get_or doc ''status'' (VStr ''experimental''),
               level = dict_get_or doc ''level'' (VStr ''low''),
               description = dict_get_or doc ''description'' (VStr ''''),
               category = dict_get ls ''category'',
               selections = map (\<lambda>(k, v). (k, named_selection v)) named,
               external_hooks = map fst (filter (\<lambda>p. is_hook (snd p)) named),
               condition = condition_tokens (dict_get det ''condition'')\<rparr>)))"

definition rule_signal_kind :: "rule \<Rightarrow> string" where
  "rule_signal_kind r =
     (let l = lower (py_str (level r))
      in if l = ''high'' then ''rule_match_high''
         else if l = ''medium'' then ''rule_match_medium''
         else ''rule_match_low'')"

definition applies_to :: "rule \<Rightarrow> event \<Rightarrow> bool" where
  "applies_to r e = (category r = VNone \<or> category r = VStr (event_type e))"

definition rule_env :: "rule \<Rightarrow> event \<Rightarrow> env" where
  "rule_env r e = (\<lambda>name. map_option (\<lambda>s. matches s e) (map_of (selections r) name))"

definition subject_of :: "event \<Rightarrow> string" where
  "subject_of e =
     (case pid e of
        Some p \<Rightarrow> ''pid:'' @ show_int p
      | None \<Rightarrow> if nonempty (image_path e) then ''path:'' @ the (image_path e) else ''unknown'')"

definition rule_signal :: "real \<Rightarrow> rule \<Rightarrow> event \<Rightarrow> signal" where
  "rule_signal now r e =
     mk_signal now (rule_signal_kind r) (subject_of e)
       (py_str (title r) @ '' ['' @ py_str (rule_id r) @ ''] (level='' @ py_str (level r) @ '')'')
       ''rule_engine'' None None"

definition rule_match :: "real \<Rightarrow> rule \<Rightarrow> event \<Rightarrow> signal option py_result" where
  \<comment> \<open>a \<open>RuleSyntaxError\<close> is passed on, any other exception is logged and is no match\<close>
  "rule_match now r e =
     (if \<not> applies_to r e then Inr None
      else case eval_condition (rule_env r e) (condition r) of
          Some (Inr True) \<Rightarrow> Inr (Some (rule_signal now r e))
        | Some (Inl RuleSyntaxError) \<Rightarrow> Inl RuleSyntaxError
        | _ \<Rightarrow> Inr None)"

fun make_rules :: "pyval list \<Rightarrow> rule list py_result" where
  "make_rules [] = Inr []"
| "make_rules (d # ds) =
     bind_res (make_rule d) (\<lambda>r. bind_res (make_rules ds) (\<lambda>rs. Inr (r # rs)))"

definition rule_docs :: "pyval list \<Rightarrow> pyval list" where
  "rule_docs docs =
     concat (map (\<lambda>d. if \<not> truthy d then []
                      else case d of VList xs \<Rightarrow> filter truthy xs | _ \<Rightarrow> [d]) docs)"

definition load_rule_file :: "pyval list \<Rightarrow> rule list py_result" where
  "load_rule_file docs = make_rules (rule_docs docs)"

type_synonym rule_engine = "rule list"

fun engine_from_files :: "pyval list list \<Rightarrow> rule_engine py_result" where
  \<comment> \<open>\<open>from_dir\<close> on the documents of each rule file, in the order of the sorted names\<close>
  "engine_from_files [] = Inr []"
| "engine_from_files (f # fs) =
     (case load_rule_file f of
        Inl RuleSyntaxError \<Rightarrow> engine_from_files fs
      | Inl x \<Rightarrow> Inl x
      | Inr rs \<Rightarrow> bind_res (engine_from_files fs) (\<lambda>rest. Inr (rs @ rest)))"

fun engine_match :: "real \<Rightarrow> rule_engine \<Rightarrow> event \<Rightarrow> signal list" where
  "engine_match now [] e = []"
| "engine_match now (r # rs) e =
     (case rule_match now r e of
        Inr (Some s) \<Rightarrow> s # engine_match now rs e
      | _ \<Rightarrow> engine_match now rs e)"

definition engine_len :: "rule_engine \<Rightarrow> nat" where
  "engine_len rs = length rs"

definition engine_truthy :: "rule_engine \<Rightarrow> bool" where
  \<comment> \<open>the truth value of an object with \<open>__len__\<close>\<close>
  "engine_truthy rs \<longleftrightarrow> engine_len rs \<noteq> 0"


section \<open>The parser returns\<close>

lemma pbind_Some:
  "pbind p f = Some x \<longleftrightarrow>
     (\<exists>e. p = Some (Inl e) \<and> x = Inl e) \<or> (\<exists>v r. p = Some (Inr (v, r)) \<and> f v r = Some x)"
  by (cases "(p, f)" rule: pbind.cases) auto

lemma peek_is_simps [simp]:
  "peek_is [] t = False" "peek_is (x # xs) t = (x = t)"
  by (simp_all add: peek_is_def)

lemma peek_is_Cons: "peek_is ts t \<longleftrightarrow> (\<exists>r. ts = t # r)"
  by (cases ts) auto

fun is_loop :: "nonterm \<Rightarrow> bool" where
  "is_loop (NOrLoop v) = True"
| "is_loop (NAndLoop v) = True"
| "is_loop _ = False"

fun need :: "nonterm \<Rightarrow> nat \<Rightarrow> nat" where
  \<comment> \<open>fuel that is enough for so many tokens\<close>
  "need NOr k = 4 * k + 4"
| "need (NOrLoop v) k = 4 * k + 1"
| "need NAnd k = 4 * k + 3"
| "need (NAndLoop v) k = 4 * k + 1"
| "need NNot k = 4 * k + 2"
| "need NAtom k = 4 * k + 1"

lemma parse_progress:
  "parse n nt env ts = Some (Inr (v, r)) \<Longrightarrow> length r + (if is_loop nt then 0 else 1) \<le> length ts"
proof (induction n nt env ts arbitrary: v r rule: parse.induct)
  case (7 n env ts)
  then show ?case
    by (cases ts) (fastforce simp: pbind_Some peek_is_Cons split: if_splits option.splits sum.splits)+
qed (fastforce simp: pbind_Some peek_is_Cons split: if_splits)+

lemma parse_enough: "need nt (length ts) \<le> n \<Longrightarrow> \<exists>x. parse n nt env ts = Some x"
proof (induction n nt env ts rule: parse.induct)
  case (1 nt env ts)
  then show ?case by (cases nt) auto
next
  case (2 n env ts)
  from 2 obtain x where x: "parse n NAnd env ts = Some x" by auto
  show ?case
  proof (cases x)
    case (Inr p)
    with x 2 parse_progress[of n NAnd env ts "fst p" "snd p"] show ?thesis by (cases p) auto
  qed (use x in simp)
next
  case (3 n v env ts)
  show ?case
  proof (cases "peek_is ts ''or''")
    case True
    then obtain us where ts: "ts = ''or'' # us" by (auto simp: peek_is_Cons)
    with 3 obtain x where x: "parse n NAnd env us = Some x" by auto
    show ?thesis
    proof (cases x)
      case (Inr p)
      with x ts 3 parse_progress[of n NAnd env us "fst p" "snd p"] show ?thesis by (cases p) auto
    qed (use x ts in simp)
  qed simp
next
  case (4 n env ts)
  from 4 obtain x where x: "parse n NNot env ts = Some x" by auto
  show ?case
  proof (cases x)
    case (Inr p)
    with x 4 parse_progress[of n NNot env ts "fst p" "snd p"] show ?thesis by (cases p) auto
  qed (use x in simp)
next
  case (5 n v env ts)
  show ?case
  proof (cases "peek_is ts ''and''")
    case True
    then obtain us where ts: "ts = ''and'' # us" by (auto simp: peek_is_Cons)
    with 5 obtain x where x: "parse n NNot env us = Some x" by auto
    show ?thesis
    proof (cases x)
      case (Inr p)
      with x ts 5 parse_progress[of n NNot env us "fst p" "snd p"] show ?thesis by (cases p) auto
    qed (use x ts in simp)
  qed simp
next
  case (6 n env ts)
  show ?case
  proof (cases "peek_is ts ''not''")
    case True
    then obtain us where ts: "ts = ''not'' # us" by (auto simp: peek_is_Cons)
    with 6 obtain x where "parse n NNot env us = Some x" by auto
    with ts show ?thesis by (cases x) auto
  qed (use 6 in simp)
next
  case (7 n env ts)
  show ?case
  proof (cases "peek_is ts ''(''")
    case True
    then obtain us where ts: "ts = ''('' # us" by (auto simp: peek_is_Cons)
    with 7 obtain x where "parse n NOr env us = Some x" by auto
    with ts show ?thesis by (cases x) auto
  qed (auto split: list.split option.split sum.split)
qed

lemma pbind_mono:
  assumes "pbind p f = Some x" and "\<And>y. p = Some y \<Longrightarrow> p' = Some y"
    and "\<And>v r y. f v r = Some y \<Longrightarrow> g v r = Some y"
  shows "pbind p' g = Some x"
  using assms(1) by (cases "(p, f)" rule: pbind.cases) (auto dest!: assms(2) intro: assms(3))

lemma parse_mono: "parse n nt env ts = Some x \<Longrightarrow> n \<le> m \<Longrightarrow> parse m nt env ts = Some x"
proof (induction n arbitrary: nt ts x m)
  case (Suc n)
  from Suc.prems(2) obtain k where m: "m = Suc k" and k: "n \<le> k" by (cases m) auto
  have IH: "parse n nt env ts = Some x \<Longrightarrow> parse k nt env ts = Some x" for nt ts x
    using Suc.IH k by blast
  show ?case
  proof (cases nt)
    case NOr
    with Suc.prems(1) m show ?thesis by simp (erule pbind_mono; rule IH)
  next
    case (NOrLoop v)
    with Suc.prems(1) m show ?thesis by (cases "peek_is ts ''or''"; simp) (erule pbind_mono; rule IH)
  next
    case NAnd
    with Suc.prems(1) m show ?thesis by simp (erule pbind_mono; rule IH)
  next
    case (NAndLoop v)
    with Suc.prems(1) m show ?thesis by (cases "peek_is ts ''and''"; simp) (erule pbind_mono; rule IH)
  next
    case NNot
    with Suc.prems(1) m show ?thesis
      by (cases "peek_is ts ''not''"; simp add: IH) (erule pbind_mono; simp add: IH)
  next
    case NAtom
    with Suc.prems(1) m show ?thesis
      by (cases "peek_is ts ''(''"; simp) (erule pbind_mono; simp add: IH)
  qed
qed simp

lemma eval_condition_total: "\<exists>r. eval_condition env ts = Some r"
  using parse_enough[of NOr ts "4 * length ts + 4" env]
  by (auto simp: eval_condition_def split: sum.split)

lemma eval_condition_parse:
  "parse n NOr env ts = Some (Inr (v, [])) \<Longrightarrow> eval_condition env ts = Some (Inr v)"
proof -
  assume a: "parse n NOr env ts = Some (Inr (v, []))"
  obtain x where x: "parse (4 * length ts + 4) NOr env ts = Some x"
    using parse_enough[of NOr ts "4 * length ts + 4" env] by auto
  have "x = Inr (v, [])"
    using parse_mono[OF a, of "max n (4 * length ts + 4)"] parse_mono[OF x, of "max n (4 * length ts + 4)"]
    by simp
  with x show ?thesis by (simp add: eval_condition_def)
qed

section \<open>The parser computes the meaning of a condition\<close>

datatype cond = Sel string | CNot cond | CAnd cond cond | COr cond cond

fun toks :: "nat \<Rightarrow> cond \<Rightarrow> string list" where
  \<comment> \<open>the text of a condition with the parentheses its context needs: level 0 in a disjunction,
     1 in a conjunction, 2 under a negation\<close>
  "toks l (Sel s) = [s]"
| "toks l (CNot c) = ''not'' # toks 2 c"
| "toks l (CAnd a b) =
     (let t = toks 1 a @ ''and'' # toks 2 b in if l \<le> 1 then t else ''('' # t @ ['')''])"
| "toks l (COr a b) =
     (let t = toks 0 a @ ''or'' # toks 1 b in if l = 0 then t else ''('' # t @ ['')''])"

fun cond_val :: "(string \<Rightarrow> bool) \<Rightarrow> cond \<Rightarrow> bool" where
  "cond_val f (Sel s) = f s"
| "cond_val f (CNot c) = (\<not> cond_val f c)"
| "cond_val f (CAnd a b) = (cond_val f a \<and> cond_val f b)"
| "cond_val f (COr a b) = (cond_val f a \<or> cond_val f b)"

fun names :: "cond \<Rightarrow> string set" where
  "names (Sel s) = {s}"
| "names (CNot c) = names c"
| "names (CAnd a b) = names a \<union> names b"
| "names (COr a b) = names a \<union> names b"

definition yields :: "nonterm \<Rightarrow> env \<Rightarrow> string list \<Rightarrow> bool \<Rightarrow> string list \<Rightarrow> bool" where
  "yields nt env ts v r \<longleftrightarrow> (\<exists>n. parse n nt env ts = Some (Inr (v, r)))"

lemma yieldsI: "parse n nt env ts = Some (Inr (v, r)) \<Longrightarrow> yields nt env ts v r"
  by (auto simp: yields_def)

lemma yields_two:
  assumes "yields nt env ts v r" and "yields nt' env' ts' v' r'"
  obtains n where "parse n nt env ts = Some (Inr (v, r))" "parse n nt' env' ts' = Some (Inr (v', r'))"
proof -
  from assms obtain n m where nm: "parse n nt env ts = Some (Inr (v, r))" "parse m nt' env' ts' = Some (Inr (v', r'))"
    by (auto simp: yields_def)
  show thesis
    by (rule that[OF parse_mono[OF nm(1) max.cobounded1] parse_mono[OF nm(2) max.cobounded2]])
qed

lemma yields_or:
  assumes "yields NAnd env ts v r" and "yields (NOrLoop v) env r w q"
  shows "yields NOr env ts w q"
proof -
  from yields_two[OF assms] obtain n where "parse n NAnd env ts = Some (Inr (v, r))"
    "parse n (NOrLoop v) env r = Some (Inr (w, q))" .
  then show ?thesis by (intro yieldsI[of "Suc n"]) simp
qed

lemma yields_and:
  assumes "yields NNot env ts v r" and "yields (NAndLoop v) env r w q"
  shows "yields NAnd env ts w q"
proof -
  from yields_two[OF assms] obtain n where "parse n NNot env ts = Some (Inr (v, r))"
    "parse n (NAndLoop v) env r = Some (Inr (w, q))" .
  then show ?thesis by (intro yieldsI[of "Suc n"]) simp
qed

lemma yields_or_more:
  assumes "yields NAnd env ts u r" and "yields (NOrLoop (v \<or> u)) env r w q"
  shows "yields (NOrLoop v) env (''or'' # ts) w q"
proof -
  from yields_two[OF assms] obtain n where "parse n NAnd env ts = Some (Inr (u, r))"
    "parse n (NOrLoop (v \<or> u)) env r = Some (Inr (w, q))" .
  then show ?thesis by (intro yieldsI[of "Suc n"]) simp
qed

lemma yields_and_more:
  assumes "yields NNot env ts u r" and "yields (NAndLoop (v \<and> u)) env r w q"
  shows "yields (NAndLoop v) env (''and'' # ts) w q"
proof -
  from yields_two[OF assms] obtain n where "parse n NNot env ts = Some (Inr (u, r))"
    "parse n (NAndLoop (v \<and> u)) env r = Some (Inr (w, q))" .
  then show ?thesis by (intro yieldsI[of "Suc n"]) simp
qed

lemma yields_or_stop: "\<not> peek_is ts ''or'' \<Longrightarrow> yields (NOrLoop v) env ts v ts"
  by (rule yieldsI[of 1]) simp

lemma yields_and_stop: "\<not> peek_is ts ''and'' \<Longrightarrow> yields (NAndLoop v) env ts v ts"
  by (rule yieldsI[of 1]) simp

lemma yields_not: "yields NNot env ts v r \<Longrightarrow> yields NNot env (''not'' # ts) (\<not> v) r"
proof -
  assume "yields NNot env ts v r"
  then obtain n where "parse n NNot env ts = Some (Inr (v, r))" by (auto simp: yields_def)
  then show ?thesis by (intro yieldsI[of "Suc n"]) simp
qed

lemma yields_paren: "yields NOr env ts v ('')'' # r) \<Longrightarrow> yields NNot env (''('' # ts) v r"
proof -
  assume "yields NOr env ts v ('')'' # r)"
  then obtain n where "parse n NOr env ts = Some (Inr (v, '')'' # r))" by (auto simp: yields_def)
  then show ?thesis by (intro yieldsI[of "Suc (Suc n)"]) simp
qed

lemma yields_sel:
  "env s = Some (Inr b) \<Longrightarrow> s \<noteq> ''('' \<Longrightarrow> s \<noteq> ''not'' \<Longrightarrow> yields NNot env (s # r) b r"
  by (rule yieldsI[of 2]) (simp add: numeral_2_eq_2)

lemma yields_levels:
  assumes not: "\<And>r. yields NNot env (t @ r) v r"
  shows "yields (NAndLoop v) env r w q \<Longrightarrow> yields NAnd env (t @ r) w q"
    and "yields (NOrLoop v) env r w q \<Longrightarrow> \<not> peek_is r ''and'' \<Longrightarrow> yields NOr env (t @ r) w q"
  using yields_and[OF not] yields_or[OF yields_and[OF not yields_and_stop]] by blast+

definition names_ok :: "env \<Rightarrow> (string \<Rightarrow> bool) \<Rightarrow> cond \<Rightarrow> bool" where
  "names_ok env f c \<longleftrightarrow> (\<forall>s \<in> names c. env s = Some (Inr (f s)) \<and> s \<noteq> ''('' \<and> s \<noteq> ''not'')"

lemma names_ok_simps [simp]:
  "names_ok env f (Sel s) \<longleftrightarrow> env s = Some (Inr (f s)) \<and> s \<noteq> ''('' \<and> s \<noteq> ''not''"
  "names_ok env f (CNot c) \<longleftrightarrow> names_ok env f c"
  "names_ok env f (CAnd a b) \<longleftrightarrow> names_ok env f a \<and> names_ok env f b"
  "names_ok env f (COr a b) \<longleftrightarrow> names_ok env f a \<and> names_ok env f b"
  by (auto simp: names_ok_def)

lemma parse_cond:
  "names_ok env f c \<Longrightarrow>
     (\<forall>r. yields NNot env (toks 2 c @ r) (cond_val f c) r)
   \<and> (\<forall>r w q. yields (NAndLoop (cond_val f c)) env r w q \<longrightarrow> yields NAnd env (toks 1 c @ r) w q)
   \<and> (\<forall>r w q. yields (NOrLoop (cond_val f c)) env r w q \<longrightarrow> \<not> peek_is r ''and'' \<longrightarrow>
        yields NOr env (toks 0 c @ r) w q)"
proof (induction c)
  case (Sel s)
  then have n: "yields NNot env ([s] @ r) (f s) r" for r by (simp add: yields_sel)
  show ?case using n yields_levels[OF n] by simp
next
  case (CNot c)
  then have n: "yields NNot env ((''not'' # toks 2 c) @ r) (\<not> cond_val f c) r" for r
    by (simp add: yields_not)
  show ?case using n yields_levels[OF n] by simp
next
  case (CAnd a b)
  let ?t = "toks 1 a @ ''and'' # toks 2 b" and ?v = "cond_val f a \<and> cond_val f b"
  have and_a: "yields (NAndLoop (cond_val f a)) env r w q \<Longrightarrow> yields NAnd env (toks 1 a @ r) w q" for r w q
    using CAnd by simp
  have not_b: "yields NNot env (toks 2 b @ r) (cond_val f b) r" for r using CAnd by simp
  have two: "yields (NAndLoop ?v) env r w q \<Longrightarrow> yields NAnd env (?t @ r) w q" for r w q
    using and_a[OF yields_and_more[OF not_b]] by simp
  have three: "yields (NOrLoop ?v) env r w q \<Longrightarrow> \<not> peek_is r ''and'' \<Longrightarrow> yields NOr env (?t @ r) w q" for r w q
    by (rule yields_or[OF two[OF yields_and_stop]])
  have "yields NOr env (?t @ '')'' # r) ?v ('')'' # r)" for r
    by (rule three[OF yields_or_stop]) simp_all
  then have "yields NNot env (''('' # ?t @ '')'' # r) ?v r" for r by (rule yields_paren)
  with two three show ?case by (simp add: Let_def)
next
  case (COr a b)
  let ?t = "toks 0 a @ ''or'' # toks 1 b" and ?v = "cond_val f a \<or> cond_val f b"
  have and_b: "\<not> peek_is r ''and'' \<Longrightarrow> yields NAnd env (toks 1 b @ r) (cond_val f b) r" for r
    using COr yields_and_stop by simp
  have three: "yields (NOrLoop ?v) env r w q \<Longrightarrow> \<not> peek_is r ''and'' \<Longrightarrow> yields NOr env (?t @ r) w q" for r w q
    using COr yields_or_more[OF and_b, of r "cond_val f a" w q] by simp
  have "yields NOr env (?t @ '')'' # r) ?v ('')'' # r)" for r
    by (rule three[OF yields_or_stop]) simp_all
  then have n: "yields NNot env ((''('' # ?t @ ['')'']) @ r) ?v r" for r by (simp add: yields_paren)
  show ?case using n yields_levels(1)[OF n] three by (simp add: Let_def)
qed

lemma eval_toks:
  assumes "names_ok env f c"
  shows "eval_condition env (toks 0 c) = Some (Inr (cond_val f c))"
proof -
  have "yields NOr env (toks 0 c @ []) (cond_val f c) []"
    using parse_cond[OF assms] yields_or_stop[of "[]" "cond_val f c" env] by (simp del: append_Nil2)
  then show ?thesis by (auto simp: yields_def intro: eval_condition_parse)
qed


section \<open>Tokens of a printed condition\<close>

definition ident :: "string \<Rightarrow> bool" where
  "ident s = (case s of [] \<Rightarrow> False | c # r \<Rightarrow> ident_start c \<and> list_all ident_char r)"

definition tok_ok :: "string \<Rightarrow> bool" where
  "tok_ok t \<longleftrightarrow> t = ''('' \<or> t = '')'' \<or> ident t"

lemma ident_start_not_paren: "ident_start c \<Longrightarrow> c \<noteq> CHR ''('' \<and> c \<noteq> CHR '')'' \<and> c \<noteq> CHR '' ''"
  by (auto simp: ident_start_def Let_def)

lemma space_not_ident [simp]: "\<not> ident_char (CHR '' '')" "\<not> ident_start (CHR '' '')"
  by (simp_all add: ident_char_def ident_start_def is_digit_def Let_def)

lemma tokenize_ident:
  assumes "ident t"
  shows "tokenize (t @ CHR '' '' # s) = t # tokenize s" and "tokenize t = [t]"
proof -
  from assms obtain c r where t: "t = c # r" "ident_start c" "list_all ident_char r"
    by (auto simp: ident_def split: list.splits)
  then have all: "\<forall>x \<in> set r. ident_char x" by (simp add: list_all_iff)
  then have w: "takeWhile ident_char (r @ CHR '' '' # s) = r" "dropWhile ident_char (r @ CHR '' '' # s) = CHR '' '' # s"
    "takeWhile ident_char r = r" "dropWhile ident_char r = []"
    by (simp_all add: takeWhile_append2 dropWhile_append2 takeWhile_eq_all_conv)
  from t ident_start_not_paren[of c] show "tokenize (t @ CHR '' '' # s) = t # tokenize s" "tokenize t = [t]"
    by (simp_all add: w)
qed

lemma tokenize_tok:
  assumes "tok_ok t"
  shows "tokenize (t @ CHR '' '' # s) = t # tokenize s" and "tokenize t = [t]"
  using assms tokenize_ident by (auto simp: tok_ok_def)

lemma tokenize_join: "\<forall>t \<in> set ts. tok_ok t \<Longrightarrow> tokenize (join '' '' ts) = ts"
  by (induction "'' ''" ts rule: join.induct) (simp_all add: tokenize_tok)

lemma keyword_ident: "ident ''and''" "ident ''or''" "ident ''not''"
  by (simp_all add: ident_def ident_char_def ident_start_def Let_def)

lemma tok_ok_simps [simp]:
  "tok_ok ''(''" "tok_ok '')''" "tok_ok ''and''" "tok_ok ''or''" "tok_ok ''not''" "ident s \<Longrightarrow> tok_ok s"
  by (simp_all add: tok_ok_def keyword_ident)

lemma toks_ok: "\<forall>s \<in> names c. ident s \<Longrightarrow> \<forall>t \<in> set (toks l c). tok_ok t"
  by (induction c arbitrary: l) (simp_all add: Let_def ball_Un)

definition cond_text :: "cond \<Rightarrow> string" where
  "cond_text c = join '' '' (toks 0 c)"

lemma condition_tokens_text:
  assumes "\<forall>s \<in> names c. ident s"
  shows "condition_tokens (VStr (cond_text c)) = toks 0 c"
proof -
  have tk: "tokenize (cond_text c) = toks 0 c"
    unfolding cond_text_def by (rule tokenize_join) (use toks_ok[OF assms] in blast)
  have "toks 0 c \<noteq> []" by (cases c) (simp_all add: Let_def)
  with tk have "cond_text c \<noteq> []" by (metis tokenize.simps(1))
  with tk show ?thesis by (simp add: condition_tokens_def)
qed

section \<open>Matching\<close>

definition rule_fires :: "rule \<Rightarrow> event \<Rightarrow> bool" where
  "rule_fires r e \<longleftrightarrow>
     applies_to r e \<and> eval_condition (rule_env r e) (condition r) = Some (Inr True)"

lemma rule_match_fires:
  "rule_match now r e = Inr (Some s) \<longleftrightarrow> rule_fires r e \<and> s = rule_signal now r e"
  by (auto simp: rule_match_def rule_fires_def split: option.splits sum.splits bool.splits py_exc.splits)

lemma rule_match_cases:
  "rule_match now r e = Inr (Some (rule_signal now r e)) \<and> rule_fires r e
   \<or> (rule_match now r e = Inr None \<or> rule_match now r e = Inl RuleSyntaxError) \<and> \<not> rule_fires r e"
  by (auto simp: rule_match_def rule_fires_def split: option.splits sum.splits bool.splits py_exc.splits)

lemma rule_signal_weight:
  "effective_weight (rule_signal now r e) =
     (if lower (py_str (level r)) = ''high'' then 40
      else if lower (py_str (level r)) = ''medium'' then 20 else 10)"
  by (simp add: rule_signal_def mk_signal_def effective_weight_def rule_signal_kind_def weights_def Let_def)

section \<open>Properties\<close>

text \<open>The condition evaluator terminates: on every token list, however malformed, it returns a
  truth value or an exception, so one rule never hangs the engine.\<close>

lemma condition_evaluation_returns: "\<exists>r. eval_condition env ts = Some r"
  by (rule eval_condition_total)

text \<open>C3: The condition evaluator computes the meaning of the condition: for every boolean
  expression over selections, its text, with parentheses only where precedence needs them, is
  evaluated to the value of the expression; \<open>not\<close> binds tighter than \<open>and\<close>, and \<open>and\<close> than \<open>or\<close>.\<close>

theorem condition_meaning:
  assumes "\<forall>s \<in> names c. ident s \<and> s \<noteq> ''not'' \<and> env s = Some (Inr (f s))"
  shows "eval_condition env (condition_tokens (VStr (cond_text c))) = Some (Inr (cond_val f c))"
proof -
  have "\<not> ident ''(''" by (simp add: ident_def ident_start_def Let_def)
  then have "names_ok env f c" using assms by (auto simp: names_ok_def)
  then show ?thesis using condition_tokens_text assms eval_toks by simp
qed

theorem condition_meaning_witness:
  "eval_condition (\<lambda>s. Some (Inr (s = ''a''))) (condition_tokens (VStr ''a and not ( b or c )''))
     = Some (Inr True)"
proof -
  let ?c = "CAnd (Sel ''a'') (CNot (COr (Sel ''b'') (Sel ''c'')))"
  have "eval_condition (\<lambda>s. Some (Inr (s = ''a''))) (condition_tokens (VStr (cond_text ?c)))
      = Some (Inr (cond_val (\<lambda>s. s = ''a'') ?c))"
    by (rule condition_meaning) (simp add: ident_def ident_start_def Let_def)
  then show ?thesis by (simp add: cond_text_def Let_def)
qed

text \<open>Matching an event against the engine gives exactly one signal per firing rule, in rule
  order: a rule fires when its category is the event's type and its condition holds. A rule that is
  malformed never stops the others.\<close>

lemma engine_match_exact:
  "engine_match now rs e = map (\<lambda>r. rule_signal now r e) (filter (\<lambda>r. rule_fires r e) rs)"
proof (induction rs)
  case (Cons r rs)
  with rule_match_cases[of now r e] show ?case by auto
qed simp

text \<open>An external hook never weakens a rule in the rule engine: a rule whose condition is
  \<open>selection and not <hook>\<close> has the value of its selection, since the allowlist or reputation
  check behind the hook is applied by the scoring engine.\<close>

lemma hook_never_weakens:
  assumes "make_rule (VDict [(''detection'', VDict [(''selection'', VDict d), (h, v),
             (''condition'', VStr (''selection and not '' @ h))])]) = Inr r"
    and "is_hook v" and "ident h" and "h \<noteq> ''selection''" and "h \<noteq> ''not''" and "h \<noteq> ''condition''"
    and "matches (make_selection d) e = Inr b"
  shows "eval_condition (rule_env r e) (condition r) = Some (Inr b)"
proof -
  let ?c = "CAnd (Sel ''selection'') (CNot (Sel h))"
  have idn: "\<forall>s \<in> names ?c. ident s"
    using assms(3) by (simp add: ident_def ident_char_def ident_start_def Let_def)
  have tx: "''selection and not '' @ h = cond_text ?c" by (simp add: cond_text_def Let_def)
  from assms(1,6) have r: "condition r = condition_tokens (VStr (''selection and not '' @ h))"
    "selections r = [(''selection'', make_selection d), (h, named_selection v)]"
    by (auto simp: make_rule_def dict_get_def dict_get_or_def named_selection_def)
  have hk: "matches (named_selection v) e = Inr False"
    using assms(2) by (cases v) (simp_all add: named_selection_def matches_def is_hook_def)
  have "names_ok (rule_env r e) (\<lambda>s. s = ''selection'' \<and> b) ?c"
    using assms(3,4,5,7) hk
    by (auto simp: rule_env_def r ident_def ident_start_def Let_def)
  then have "eval_condition (rule_env r e) (toks 0 ?c) = Some (Inr b)"
    using eval_toks assms(4) by fastforce
  then show ?thesis unfolding r(1) tx condition_tokens_text[OF idn] .
qed

definition hook_rule_doc :: pyval where
  "hook_rule_doc =
     VDict [(''detection'', VDict [(''selection'', VDict [(''event_type'', VStr ''file_write'')]),
       (''allow'', VBool True), (''condition'', VStr (''selection and not '' @ ''allow''))])]"

lemma hook_never_weakens_witness:
  "\<exists>r. make_rule hook_rule_doc = Inr r \<and>
     eval_condition (rule_env r sample_event) (condition r) = Some (Inr True)"
proof -
  obtain r where r: "make_rule hook_rule_doc = Inr r"
    by (simp add: make_rule_def hook_rule_doc_def dict_get_or_def)
  have m: "matches (make_selection [(''event_type'', VStr ''file_write'')]) sample_event = Inr True"
    by code_simp
  have "eval_condition (rule_env r sample_event) (condition r) = Some (Inr True)"
    by (rule hook_never_weakens[OF r[unfolded hook_rule_doc_def] _ _ _ _ _ m])
      (simp_all add: is_hook_def ident_def ident_char_def ident_start_def Let_def)
  with r show ?thesis by blast
qed

end
