(* ===== verification/Emulator.thy ===== *)
theory Emulator
  imports VirtualMemory RuleEngine
begin

text \<open>
  \<open>sandbox/emulator.py\<close>: the instruction and API emulator. Registers are Python integers in a record;
  the interpreter runs at most \<open>max_instructions\<close> steps, so its loop is a recursion on that number. The
  readings of the clock are a function of their position in the run; the parser of PE files (the package
  \<open>pefile\<close>) is a parameter that gives the header fields and sections the code reads, or none when it
  raises.
\<close>

section \<open>API hashes\<close>

definition ror13_step :: "int \<Rightarrow> int \<Rightarrow> int" where
  "ror13_step h c =
     (((drop_bit 13 h OR ((push_bit (32 - 13) h) AND 0xFFFFFFFF)) AND 0xFFFFFFFF) + c) AND 0xFFFFFFFF"

definition ror13 :: "string \<Rightarrow> int" where
  "ror13 name = foldl (\<lambda>h ch. ror13_step h (int (of_char ch))) 0 name"

definition target_apis :: "string list" where
  "target_apis =
    [''LoadLibraryA'', ''LoadLibraryW'', ''LoadLibraryExA'', ''LoadLibraryExW'',
     ''GetProcAddress'', ''VirtualAlloc'', ''VirtualAllocEx'', ''VirtualProtect'',
     ''VirtualProtectEx'', ''WriteProcessMemory'', ''CreateProcessA'', ''CreateProcessW'',
     ''CreateRemoteThread'', ''QueueUserAPC'', ''WinExec'', ''ExitProcess'',
     ''TerminateProcess'', ''IsDebuggerPresent'', ''CheckRemoteDebuggerPresent'',
     ''Sleep'', ''SleepEx'', ''GetTickCount'', ''QueryPerformanceCounter'',
     ''URLDownloadToFileA'', ''InternetOpenA'', ''InternetConnectA'',
     ''HttpOpenRequestA'', ''HttpSendRequestA'', ''NtUnmapViewOfSection'']"

definition known_api_ror13_hashes :: "int \<rightharpoonup> string" where
  \<comment> \<open>a dictionary comprehension: a later entry replaces an earlier one with the same hash\<close>
  "known_api_ror13_hashes = map_of (rev (map (\<lambda>api. (ror13 api, api)) target_apis))"

section \<open>Results\<close>

record api_call =
  api_name :: string
  arguments :: "pyval list"
  return_value :: int
  api_category :: string
  call_time :: real

record emu_result =
  target_path :: string
  instructions_executed :: nat
  duration_seconds :: real
  api_calls :: "api_call list"
  evasion_techniques :: "string list"
  rwx_allocations :: nat
  unpacked_payload_sizes :: "nat list"
  unpacked_yara_matches :: "string list"
  threat_reasons :: "string list"
  is_suspicious :: bool
  is_malicious :: bool
  risk_score :: real
  emu_error :: "string option"

definition new_result :: "string \<Rightarrow> emu_result" where
  "new_result p = \<lparr>target_path = p, instructions_executed = 0, duration_seconds = 0, api_calls = [],
     evasion_techniques = [], rwx_allocations = 0, unpacked_payload_sizes = [],
     unpacked_yara_matches = [], threat_reasons = [], is_suspicious = False, is_malicious = False,
     risk_score = 0, emu_error = None\<rparr>"

definition summarize :: "(real \<Rightarrow> real) \<Rightarrow> emu_result \<Rightarrow> (string, pyval) dict" where
  \<comment> \<open>the first argument is Python's rounding to two decimals\<close>
  "summarize round2 r =
    [(''target'', VStr (target_path r)),
     (''instructions'', VInt (int (instructions_executed r))),
     (''duration_ms'', VFloat (round2 (duration_seconds r * 1000))),
     (''api_calls_count'', VInt (int (length (api_calls r)))),
     (''evasion_count'', VInt (int (length (evasion_techniques r)))),
     (''rwx_allocs'', VInt (int (rwx_allocations r))),
     (''unpacked_yara'', VList (map VStr (unpacked_yara_matches r))),
     (''threat_reasons'', VList (map VStr (threat_reasons r))),
     (''risk_score'', VFloat (risk_score r)),
     (''is_suspicious'', VBool (is_suspicious r)),
     (''is_malicious'', VBool (is_malicious r))]"

section \<open>Registers and state of a run\<close>

record regs =
  eax :: int
  ebx :: int
  ecx :: int
  edx :: int
  esi :: int
  edi :: int
  esp :: int
  ebp :: int
  eip :: int
  eflags :: int

definition init_regs :: "int \<Rightarrow> int \<Rightarrow> regs" where
  "init_regs sp ip = \<lparr>eax = 0, ebx = 0, ecx = 0, edx = 0, esi = 0, edi = 0, esp = sp, ebp = sp,
     eip = ip, eflags = 0x246\<rparr>"

definition set_reg32 :: "nat \<Rightarrow> int \<Rightarrow> regs \<Rightarrow> regs" where
  \<comment> \<open>\<open>regs[reg_names_32[n]] = v\<close>\<close>
  "set_reg32 n v r =
     (if n = 0 then r\<lparr>eax := v\<rparr> else if n = 1 then r\<lparr>ecx := v\<rparr> else if n = 2 then r\<lparr>edx := v\<rparr>
      else if n = 3 then r\<lparr>ebx := v\<rparr> else if n = 4 then r\<lparr>esp := v\<rparr> else if n = 5 then r\<lparr>ebp := v\<rparr>
      else if n = 6 then r\<lparr>esi := v\<rparr> else r\<lparr>edi := v\<rparr>)"

record run_state =
  rs_regs :: regs
  rs_vm :: vmem
  rs_result :: emu_result
  rs_written :: nat
  rs_reads :: nat   \<comment> \<open>readings of the clock so far\<close>

datatype flow = Break | Continue

definition read_clock :: "(nat \<Rightarrow> real) \<Rightarrow> run_state \<Rightarrow> real \<times> run_state" where
  "read_clock clk s = (clk (rs_reads s), s\<lparr>rs_reads := Suc (rs_reads s)\<rparr>)"

definition add_evasion :: "string \<Rightarrow> run_state \<Rightarrow> run_state" where
  "add_evasion t s =
     s\<lparr>rs_result := (rs_result s)\<lparr>evasion_techniques := evasion_techniques (rs_result s) @ [t]\<rparr>\<rparr>"

definition add_reason :: "string \<Rightarrow> run_state \<Rightarrow> run_state" where
  "add_reason t s = s\<lparr>rs_result := (rs_result s)\<lparr>threat_reasons := threat_reasons (rs_result s) @ [t]\<rparr>\<rparr>"

definition set_eax :: "int \<Rightarrow> run_state \<Rightarrow> run_state" where
  "set_eax v s = s\<lparr>rs_regs := (rs_regs s)\<lparr>eax := v\<rparr>\<rparr>"

definition jump :: "int \<Rightarrow> run_state \<Rightarrow> run_state" where
  \<comment> \<open>\<open>regs["eip"] += d\<close>\<close>
  "jump d s = s\<lparr>rs_regs := (rs_regs s)\<lparr>eip := eip (rs_regs s) + d\<rparr>\<rparr>"

section \<open>API calls\<close>

definition api_kind :: "string \<Rightarrow> string" where
  "api_kind n =
     (if n \<in> {''IsDebuggerPresent'', ''CheckRemoteDebuggerPresent''} then ''anti_debug''
      else if n \<in> {''Sleep'', ''SleepEx''} then ''timing''
      else if n \<in> {''VirtualAlloc'', ''VirtualAllocEx''} then ''memory''
      else if n \<in> {''WriteProcessMemory'', ''CreateRemoteThread'', ''NtUnmapViewOfSection''} then ''injection''
      else ''general'')"

definition api_effect :: "string \<Rightarrow> run_state \<Rightarrow> run_state" where
  "api_effect n s =
     (if n \<in> {''IsDebuggerPresent'', ''CheckRemoteDebuggerPresent''}
      then set_eax 0 (add_evasion (''AntiDebug:'' @ n) s)
      else if n \<in> {''Sleep'', ''SleepEx''} then set_eax 0 (add_evasion ''TimingEvasion:Sleep'' s)
      else if n \<in> {''VirtualAlloc'', ''VirtualAllocEx''}
      then add_reason ''Allocated executable memory (VirtualAlloc)''
             (set_eax 0x20000000
               (s\<lparr>rs_result := (rs_result s)\<lparr>rwx_allocations := rwx_allocations (rs_result s) + 1\<rparr>\<rparr>))
      else if n \<in> {''WriteProcessMemory'', ''CreateRemoteThread'', ''NtUnmapViewOfSection''}
      then set_eax 1 (add_reason (''Process Injection primitive called: '' @ n) s)
      else s)"

definition handle_api_call :: "(nat \<Rightarrow> real) \<Rightarrow> string \<Rightarrow> run_state \<Rightarrow> run_state" where
  "handle_api_call clk n s =
     (case read_clock clk (api_effect n s) of (t, s1) \<Rightarrow>
        s1\<lparr>rs_result := (rs_result s1)\<lparr>api_calls := api_calls (rs_result s1) @
            [\<lparr>api_name = n, arguments = [], return_value = eax (rs_regs s1),
              api_category = api_kind n, call_time = t\<rparr>]\<rparr>\<rparr>)"

section \<open>One instruction\<close>

definition byte_of :: "bytes \<Rightarrow> nat \<Rightarrow> nat" where
  "byte_of ops i = of_char (ops ! i)"

definition u32_of :: "bytes \<Rightarrow> nat \<Rightarrow> int" where
  "u32_of ops i = int (le_nat (take 4 (drop i ops)))"

definition signed :: "nat \<Rightarrow> int \<Rightarrow> int" where
  "signed k x = (if x < 2 ^ (k - 1) then x else x - 2 ^ k)"

definition py_int :: "real \<Rightarrow> int" where
  \<comment> \<open>\<open>int\<close> of a float truncates\<close>
  "py_int x = (if 0 \<le> x then \<lfloor>x\<rfloor> else \<lceil>x\<rceil>)"

definition rdtsc :: "(nat \<Rightarrow> real) \<Rightarrow> run_state \<Rightarrow> run_state" where
  "rdtsc clk s =
     (case read_clock clk (add_evasion ''AntiAnalysis:RDTSCTimingCheck'' s) of (t, s1) \<Rightarrow>
        jump 2 (s1\<lparr>rs_regs := (rs_regs s1)\<lparr>eax := py_int (t * 1000) AND 0xFFFFFFFF, edx := 0\<rparr>\<rparr>))"

definition peb_access :: "bytes \<Rightarrow> bool" where
  "peb_access ops \<longleftrightarrow>
     byte_of ops 0 = 0x64 \<and> byte_of ops 1 = 0xA1 \<and>
       take 4 (drop 2 ops) = [CHR 0x30, CHR 0x00, CHR 0x00, CHR 0x00] \<or>
     byte_of ops 0 = 0x65 \<and> byte_of ops 1 = 0x48 \<and>
       take 5 (drop 2 ops) = [CHR 0x8B, CHR 0x04, CHR 0x25, CHR 0x60, CHR 0x00]"

definition mov8 :: "bytes \<Rightarrow> run_state \<Rightarrow> run_state" where
  "mov8 ops s =
     (let r = rs_regs s; v = int (byte_of ops 1);
          r1 = (if byte_of ops 0 = 0xB0 then r\<lparr>eax := (eax r AND NOT 0xFF) OR v\<rparr>
                else if byte_of ops 0 = 0xB1 then r\<lparr>ecx := (ecx r AND NOT 0xFF) OR v\<rparr> else r)
      in jump 2 (s\<lparr>rs_regs := r1\<rparr>))"

definition ror13_pattern :: "bytes \<Rightarrow> bool" where
  "ror13_pattern ops \<longleftrightarrow>
     byte_of ops 0 = 0xC1 \<and> byte_of ops 2 = 0x0D \<or>
     byte_of ops 0 = 0x48 \<and> byte_of ops 1 = 0xC1 \<and> byte_of ops 3 = 0x0D"

definition resolve_hash :: "(nat \<Rightarrow> real) \<Rightarrow> run_state \<Rightarrow> run_state" where
  "resolve_hash clk s =
     (case known_api_ror13_hashes (eax (rs_regs s) AND 0xFFFFFFFF) of
        None \<Rightarrow> s
      | Some n \<Rightarrow> handle_api_call clk n (add_evasion (''ApiHashing:ROR13('' @ n @ '')'') s))"

definition stosb :: "run_state \<Rightarrow> run_state" where
  "stosb s =
     (let r = rs_regs s
      in jump 1
          (if edi r \<noteq> 0
           then s\<lparr>rs_vm := vm_write_bytes (edi r) [char_of (nat (eax r AND 0xFF))] (rs_vm s),
                  rs_regs := r\<lparr>edi := edi r + 1\<rparr>, rs_written := rs_written s + 1\<rparr>
           else s))"

definition stosd :: "run_state \<Rightarrow> run_state" where
  "stosd s =
     (let r = rs_regs s
      in jump 1
          (if edi r \<noteq> 0
           then s\<lparr>rs_vm := write_u32 (edi r) (eax r AND 0xFFFFFFFF) (rs_vm s),
                  rs_regs := r\<lparr>edi := edi r + 4\<rparr>, rs_written := rs_written s + 4\<rparr>
           else s))"

definition call_near :: "bool \<Rightarrow> bytes \<Rightarrow> run_state \<Rightarrow> run_state" where
  "call_near x64 ops s =
     (let r = rs_regs s; ip = eip r;
          target = (ip + 5 + signed 32 (u32_of ops 1)) AND 0xFFFFFFFFFFFFFFFF;
          sp = esp r - (if x64 then 8 else 4)
      in s\<lparr>rs_regs := r\<lparr>eip := target, esp := sp\<rparr>,
           rs_vm := (if x64 then write_u64 sp (ip + 5) (rs_vm s) else write_u32 sp (ip + 5) (rs_vm s))\<rparr>)"

definition ret_near :: "bool \<Rightarrow> run_state \<Rightarrow> flow \<times> run_state" where
  "ret_near x64 s =
     (let r = rs_regs s;
          ra = (if x64 then read_u64 (rs_vm s) (esp r) else read_u32 (rs_vm s) (esp r));
          s1 = s\<lparr>rs_regs := r\<lparr>esp := esp r + (if x64 then 8 else 4), eip := ra\<rparr>\<rparr>
      in (if ra = 0 \<or> ra > 0xFFFFFFFFFFFF then Break else Continue, s1))"

definition step_len :: "nat \<Rightarrow> int" where
  "step_len b =
     (if 0x50 \<le> b \<and> b \<le> 0x5F then 1
      else if b = 0x83 \<or> b = 0x80 then 3
      else if b = 0x81 then 6
      else 2)"

definition skip_instruction :: "nat \<Rightarrow> run_state \<Rightarrow> run_state" where
  "skip_instruction b s = jump (step_len b) (if b = 0x31 \<or> b = 0x33 then set_eax 0 s else s)"

definition exec :: "(nat \<Rightarrow> real) \<Rightarrow> bool \<Rightarrow> run_state \<Rightarrow> flow \<times> run_state" where
  "exec clk x64 s =
     (let ops = vm_read_bytes (rs_vm s) (eip (rs_regs s)) 15; b0 = byte_of ops 0; b1 = byte_of ops 1
      in if ops = [] \<or> ops = replicate (length ops) (CHR 0x00) then (Break, s)
         else if b0 = 0x0F \<and> b1 = 0x31 then (Continue, rdtsc clk s)
         else if peb_access ops
         then (Continue, jump (if b0 = 0x64 then 6 else 9)
                 (set_eax 0x7FFDF000 (add_evasion ''AntiAnalysis:DirectPEBWalk'' s)))
         else if 0xB8 \<le> b0 \<and> b0 \<le> 0xBF
         then (Continue, jump 5 (s\<lparr>rs_regs := set_reg32 (b0 - 0xB8) (u32_of ops 1) (rs_regs s)\<rparr>))
         else if 0xB0 \<le> b0 \<and> b0 \<le> 0xB7 then (Continue, mov8 ops s)
         else
           let s = (if ror13_pattern ops then resolve_hash clk s else s)
           in if b0 = 0xAA then (Continue, stosb s)
              else if b0 = 0xAB then (Continue, stosd s)
              else if b0 = 0xE8 then (Continue, call_near x64 ops s)
              else if b0 = 0xC3 then ret_near x64 s
              else if b0 = 0x90 then (Continue, jump 1 s)
              else if b0 = 0xEB then (Continue, jump (2 + signed 8 (int b1)) s)
              else if b0 = 0xE9 then (Continue, jump (5 + signed 32 (u32_of ops 1)) s)
              else (Continue, skip_instruction b0 s))"

section \<open>The interpreter\<close>

record emulator =
  max_instructions :: int
  max_seconds :: real
  enable_yara_rescan :: bool
  emu_rules :: "rule_engine option"

definition new_emulator :: "int \<Rightarrow> real \<Rightarrow> bool \<Rightarrow> bool \<Rightarrow> emulator" where
  \<comment> \<open>the last argument: whether the rule engine could be imported\<close>
  "new_emulator n secs rescan avail =
     \<lparr>max_instructions = n, max_seconds = secs, enable_yara_rescan = rescan,
      emu_rules = (if rescan \<and> avail then Some [] else None)\<rparr>"

fun steps_loop :: "(nat \<Rightarrow> real) \<Rightarrow> emulator \<Rightarrow> real \<Rightarrow> bool \<Rightarrow> nat \<Rightarrow> nat \<Rightarrow> run_state \<Rightarrow> nat \<times> run_state"
where
  \<comment> \<open>the number of iterations still allowed, and the number of steps made\<close>
  "steps_loop clk em start x64 0 n s = (n, s)"
| "steps_loop clk em start x64 (Suc k) n s =
     (case read_clock clk s of (t, s1) \<Rightarrow>
        if t - start > max_seconds em
        then (n, add_evasion ''ExecutionTimeout:LongRunningLoop'' s1)
        else case exec clk x64 s1 of
               (Break, s2) \<Rightarrow> (Suc n, s2)
             | (Continue, s2) \<Rightarrow> steps_loop clk em start x64 k (Suc n) s2)"

definition run_interpreter ::
  "(nat \<Rightarrow> real) \<Rightarrow> emulator \<Rightarrow> real \<Rightarrow> bool \<Rightarrow> run_state \<Rightarrow> run_state" where
  "run_interpreter clk em start x64 s =
     (case steps_loop clk em start x64 (nat (max_instructions em)) 0 (s\<lparr>rs_written := 0\<rparr>) of (n, s1) \<Rightarrow>
        let res = (rs_result s1)\<lparr>instructions_executed := n\<rparr>
        in s1\<lparr>rs_result := (if rs_written s1 > 64
              then res\<lparr>unpacked_payload_sizes := unpacked_payload_sizes res @ [rs_written s1]\<rparr> else res)\<rparr>)"

section \<open>Loading\<close>

record pe_section =
  sec_va :: int
  sec_data :: bytes
  sec_vsize :: int
  sec_chars :: int

record pe_image =
  pe_magic :: int
  image_base :: int
  entry_rva :: int
  size_of_headers :: nat
  pe_sections :: "pe_section list"

definition start_state :: "vmem \<Rightarrow> regs \<Rightarrow> emu_result \<Rightarrow> nat \<Rightarrow> run_state" where
  "start_state m r res n = \<lparr>rs_regs = r, rs_vm = m, rs_result = res, rs_written = 0, rs_reads = n\<rparr>"

definition section_prot :: "int \<Rightarrow> string" where
  "section_prot ch =
     (if ch AND 0x20000000 \<noteq> 0 \<and> ch AND 0x80000000 \<noteq> 0 then ''RWX''
      else if ch AND 0x20000000 \<noteq> 0 then ''RX'' else ''RW'')"

definition map_section :: "int \<Rightarrow> pe_section \<Rightarrow> vmem \<Rightarrow> vmem" where
  "map_section base sec m =
     (let va = base + sec_va sec;
          vsize = (if sec_vsize sec \<noteq> 0 then sec_vsize sec else int (length (sec_data sec)));
          m1 = alloc va vsize (section_prot (sec_chars sec)) m
      in if sec_data sec \<noteq> [] then vm_write_bytes va (sec_data sec) m1 else m1)"

definition setup_virtual_peb :: "int \<Rightarrow> int \<Rightarrow> bool \<Rightarrow> vmem \<Rightarrow> vmem" where
  "setup_virtual_peb peb base x64 m =
     (let m1 = vm_write_bytes (peb + 2) [CHR 0x00] (alloc peb 4096 ''R'' m)
      in if x64 then write_u64 (peb + 0x10) base m1 else write_u32 (peb + 0x08) base m1)"

definition load_pe :: "bytes \<Rightarrow> pe_image \<Rightarrow> vmem \<times> regs" where
  "load_pe data pe =
     (let x64 = (pe_magic pe = 0x20B); base = image_base pe;
          m1 = vm_write_bytes base (take (size_of_headers pe) data)
                 (alloc base (int (size_of_headers pe)) ''R'' (new_vmem x64));
          m2 = fold (map_section base) (pe_sections pe) m1;
          m3 = alloc 0xF0000 0x20000 ''RW'' m2;
          sp = 0xF0000 + 0x20000 - 0x1000
      in (setup_virtual_peb (if x64 then 0x7FFD0000 else 0x7FFDF000) base x64 m3,
          init_regs sp (base + entry_rva pe)))"

definition load_shellcode :: "bytes \<Rightarrow> vmem \<times> regs" where
  "load_shellcode data =
     (let m1 = vm_write_bytes 0x10000000 data
                 (alloc 0x10000000 (int (length data) + 0x10000) ''RWX'' (new_vmem True))
      in (alloc 0x20000000 0x10000 ''RW'' m1, init_regs (0x20000000 + 0x8000) 0x10000000))"

definition elf_entry :: "bytes \<Rightarrow> bool \<Rightarrow> int" where
  "elf_entry data x64 =
     (let e = (if x64 \<and> length data \<ge> 32 then int (le_nat (take 8 (drop 24 data)))
               else if \<not> x64 \<and> length data \<ge> 28 then int (le_nat (take 4 (drop 24 data)))
               else 0x400000)
      in if e = 0 then 0x400000 else e)"

definition load_elf :: "bytes \<Rightarrow> (bool \<times> vmem \<times> regs) py_result" where
  "load_elf data =
     (if length data \<le> 4 then Inl IndexError
      else
        let x64 = (byte_of data 4 = 2);
            m1 = vm_write_bytes 0x400000 data (alloc 0x400000 (int (length data)) ''RWX'' (new_vmem x64))
        in Inr (x64, alloc 0x7FFF0000 0x10000 ''RW'' m1,
                init_regs (0x7FFF0000 + 0x8000) (elf_entry data x64)))"

section \<open>The emulator\<close>

record emu_env =
  e_clock :: "nat \<Rightarrow> real"
  e_os :: os
  parse_pe :: "bytes \<Rightarrow> pe_image option"

definition emulate_shellcode :: "emu_env \<Rightarrow> emulator \<Rightarrow> real \<Rightarrow> bytes \<Rightarrow> emu_result \<Rightarrow> run_state" where
  "emulate_shellcode env em start data res =
     (case load_shellcode data of (m, r) \<Rightarrow>
        run_interpreter (e_clock env) em start True (start_state m r res 1))"

definition emulate_pe :: "emu_env \<Rightarrow> emulator \<Rightarrow> real \<Rightarrow> bytes \<Rightarrow> emu_result \<Rightarrow> run_state" where
  "emulate_pe env em start data res =
     (case parse_pe env data of
        None \<Rightarrow> emulate_shellcode env em start data res
      | Some pe \<Rightarrow>
          (case load_pe data pe of (m, r) \<Rightarrow>
             run_interpreter (e_clock env) em start (pe_magic pe = 0x20B) (start_state m r res 1)))"

definition emulate_elf :: "emu_env \<Rightarrow> emulator \<Rightarrow> real \<Rightarrow> bytes \<Rightarrow> emu_result \<Rightarrow> run_state py_result" where
  "emulate_elf env em start data res =
     (case load_elf data of
        Inl x \<Rightarrow> Inl x
      | Inr (x64, m, r) \<Rightarrow> Inr (run_interpreter (e_clock env) em start x64 (start_state m r res 1)))"

definition scan_bytes :: "rule_engine \<Rightarrow> bytes \<Rightarrow> string list py_result" where
  \<comment> \<open>the class \<open>RuleEngine\<close> has no such method\<close>
  "scan_bytes eng buf = Inl AttributeError"

definition add_hits :: "string list \<Rightarrow> emu_result \<Rightarrow> emu_result" where
  "add_hits hits res =
     foldl (\<lambda>r h. if h \<in> set (unpacked_yara_matches r) then r
                  else r\<lparr>unpacked_yara_matches := unpacked_yara_matches r @ [h]\<rparr>) res hits"

definition rescan :: "emulator \<Rightarrow> run_state \<Rightarrow> emu_result \<Rightarrow> emu_result" where
  "rescan em s res =
     (case emu_rules em of
        None \<Rightarrow> res
      | Some eng \<Rightarrow>
          if engine_truthy eng \<and> (unpacked_payload_sizes res \<noteq> [] \<or> rwx_allocations res \<noteq> 0)
          then foldl (\<lambda>r buf.
                 if length buf \<ge> 64
                 then (case scan_bytes eng buf of Inl x \<Rightarrow> r | Inr hits \<Rightarrow> add_hits hits r)
                 else r) res (get_modified_buffers (rs_vm s))
          else res)"

definition yara_reason :: "emu_result \<Rightarrow> string" where
  "yara_reason r = ''Unpacked memory matched YARA signature(s): '' @ join '', '' (unpacked_yara_matches r)"

definition evasion_reason :: "emu_result \<Rightarrow> string" where
  "evasion_reason r = ''Anti-analysis evasion detected: '' @ join '', '' (take 3 (evasion_techniques r))"

definition risk_points :: "emu_result \<Rightarrow> real" where
  "risk_points r =
     (if unpacked_yara_matches r \<noteq> [] then 85 else 0)
     + (if \<exists>c \<in> set (api_calls r). api_category c = ''injection'' then 45 else 0)
     + (if unpacked_payload_sizes r \<noteq> [] then 35 else 0)
     + (if rwx_allocations r > 0 then 25 else 0)
     + (if evasion_techniques r \<noteq> [] then min 40 (real (length (evasion_techniques r)) * 20) else 0)"

definition risk_reasons :: "emu_result \<Rightarrow> string list" where
  "risk_reasons r =
     (if unpacked_yara_matches r \<noteq> [] then [yara_reason r] else [])
     @ (if unpacked_payload_sizes r \<noteq> []
        then [''Self-decrypting unpacking routine detected (wrote payload to memory)''] else [])
     @ (if evasion_techniques r \<noteq> [] then [evasion_reason r] else [])"

definition evaluate_risk :: "emu_result \<Rightarrow> emu_result" where
  "evaluate_risk r =
     (let sc = min 100 (risk_points r)
      in r\<lparr>threat_reasons := threat_reasons r @ risk_reasons r, risk_score := sc,
          is_suspicious := (sc \<ge> 20 \<or> length (evasion_techniques r) > 0 \<or> rwx_allocations r > 0
             \<or> length (unpacked_payload_sizes r) > 0),
          is_malicious := (sc \<ge> 75 \<or> unpacked_yara_matches r \<noteq> [])\<rparr>)"

definition finish :: "emu_env \<Rightarrow> emulator \<Rightarrow> real \<Rightarrow> run_state \<Rightarrow> emu_result" where
  "finish env em start s =
     (case read_clock (e_clock env) s of (t, s1) \<Rightarrow>
        evaluate_risk (rescan em s1 ((rs_result s1)\<lparr>duration_seconds := max 0.001 (t - start)\<rparr>)))"

definition emulate_data :: "emu_env \<Rightarrow> emulator \<Rightarrow> bytes \<Rightarrow> emu_result \<Rightarrow> emu_result py_result" where
  "emulate_data env em data res =
     (let start = e_clock env 0
      in if data = [] then Inr (res\<lparr>emu_error := Some ''Empty file''\<rparr>)
         else if startswith data ''MZ'' then Inr (finish env em start (emulate_pe env em start data res))
         else if startswith data (CHR 0x7F # ''ELF'')
         then bind_res (emulate_elf env em start data res) (\<lambda>s. Inr (finish env em start s))
         else Inr (finish env em start (emulate_shellcode env em start data res)))"

definition emulate ::
  "emu_env \<Rightarrow> emulator \<Rightarrow> fs \<Rightarrow> string \<Rightarrow> bytes option \<Rightarrow> emu_result py_result" where
  \<comment> \<open>\<open>Path.resolve\<close> raises on a loop of links\<close>
  "emulate env em s file_path raw =
     (case resolve (e_os env) file_path of
        None \<Rightarrow> Inl OSError
      | Some path \<Rightarrow>
          let res = new_result path
          in case raw of
               Some data \<Rightarrow> emulate_data env em data res
             | None \<Rightarrow>
                 if \<not> is_file (e_os env) path s
                 then Inr (res\<lparr>emu_error := Some (''File not found: '' @ path)\<rparr>)
                 else (case read_bytes (e_os env) path s of
                         Inl e \<Rightarrow> Inr (res\<lparr>emu_error := Some (''Read failed: '' @ e)\<rparr>)
                       | Inr data \<Rightarrow> emulate_data env em data res))"

section \<open>Hashes\<close>

definition rotr13 :: "32 word \<Rightarrow> char \<Rightarrow> 32 word" where
  "rotr13 w ch = word_rotr 13 w + of_nat (of_char ch)"

lemma low32: "(x :: int) AND 0xFFFFFFFF = take_bit 32 x"
  using take_bit_eq_mask[of 32 x] by (simp add: mask_eq_exp_minus_1)

lemma rotation: "(drop_bit 13 (uint w) OR (push_bit 19 (uint w) AND 0xFFFFFFFF)) AND 0xFFFFFFFF
    = uint (word_rotr 13 (w :: 32 word))"
proof (rule bit_eqI)
  fix n
  have "n + 13 < (32 :: nat) \<Longrightarrow> (n + 13) mod 32 = n + 13" by simp
  moreover have "n < 32 \<Longrightarrow> \<not> n + 13 < 32 \<Longrightarrow> (n + 13) mod 32 = n - 19"
    by (simp add: mod_if)
  ultimately show "bit ((drop_bit 13 (uint w) OR (push_bit 19 (uint w) AND 0xFFFFFFFF)) AND 0xFFFFFFFF) n
      = bit (uint (word_rotr 13 w)) n"
    unfolding low32
    by (cases "n + 13 < 32")
      (auto simp: bit_simps bit_word_rotr_iff not_less bit_uint_iff add.commute dest: bit_imp_le_length)
qed


lemma ror13_step_word: "ror13_step (uint w) (int (of_char ch)) = uint (rotr13 w ch)"
proof -
  have n: "32 - 13 = (19 :: nat)" by simp
  have "ror13_step (uint w) (int (of_char ch)) = (uint (word_rotr 13 w) + int (of_char ch)) mod 2 ^ 32"
    unfolding ror13_step_def n rotation unfolding low32 take_bit_eq_mod ..
  also have "\<dots> = uint (rotr13 w ch)"
    unfolding rotr13_def uint_word_ariths(1) unsigned_of_nat of_nat_take_bit take_bit_eq_mod
    by (simp add: zmod_int mod_add_right_eq)
  finally show ?thesis .
qed

lemma ror13_words: "ror13 name = uint (foldl rotr13 0 name)"
proof -
  have "foldl (\<lambda>h ch. ror13_step h (int (of_char ch))) (uint w) s = uint (foldl rotr13 w s)" for w s
    by (induction s arbitrary: w) (simp_all add: ror13_step_word)
  from this[of 0 name] show ?thesis by (simp add: ror13_def)
qed

lemma api_hash_values [simp]:
  "ror13 ''LoadLibraryA'' = 3960360590"
  "ror13 ''LoadLibraryW'' = 3960360612"
  "ror13 ''LoadLibraryExA'' = 122922236"
  "ror13 ''LoadLibraryExW'' = 122922258"
  "ror13 ''GetProcAddress'' = 2081291434"
  "ror13 ''VirtualAlloc'' = 2444216916"
  "ror13 ''VirtualAllocEx'' = 1847235996"
  "ror13 ''VirtualProtect'' = 2034681371"
  "ror13 ''VirtualProtectEx'' = 1406764886"
  "ror13 ''WriteProcessMemory'' = 3627903649"
  "ror13 ''CreateProcessA'' = 380894834"
  "ror13 ''CreateProcessW'' = 380894856"
  "ror13 ''CreateRemoteThread'' = 1925029085"
  "ror13 ''QueueUserAPC'' = 494900603"
  "ror13 ''WinExec'' = 243990168"
  "ror13 ''ExitProcess'' = 1944246398"
  "ror13 ''TerminateProcess'' = 2025175427"
  "ror13 ''IsDebuggerPresent'' = 2741880438"
  "ror13 ''CheckRemoteDebuggerPresent'' = 1135574400"
  "ror13 ''Sleep'' = 3677178288"
  "ror13 ''SleepEx'' = 3447352494"
  "ror13 ''GetTickCount'' = 4153539363"
  "ror13 ''QueryPerformanceCounter'' = 3933925723"
  "ror13 ''URLDownloadToFileA'' = 1882135094"
  "ror13 ''InternetOpenA'' = 1474839593"
  "ror13 ''InternetConnectA'' = 508291086"
  "ror13 ''HttpOpenRequestA'' = 4158551711"
  "ror13 ''HttpSendRequestA'' = 770096797"
  "ror13 ''NtUnmapViewOfSection'' = 4061149136"
  by (simp_all add: ror13_def ror13_step_def)

text \<open>The API hash is the usual one, a 32-bit word rotated right by thirteen bits and increased by each
  character with wrap-around, and the table of known hashes has no collisions: the hash of every tracked
  API finds that API.\<close>
lemma api_hashes_resolve:
  "ror13 name = uint (foldl (\<lambda>w ch. word_rotr 13 w + of_nat (of_char ch)) (0 :: 32 word) name)
    \<and> map known_api_ror13_hashes (map ror13 target_apis) = map Some target_apis"
  using ror13_words[of name]
  by (simp add: rotr13_def[abs_def] known_api_ror13_hashes_def target_apis_def)

section \<open>What a run records\<close>

definition res_ok :: "emu_result \<Rightarrow> bool" where
  "res_ok r \<longleftrightarrow> unpacked_yara_matches r = [] \<and> emu_error r = None \<and>
     (\<forall>c \<in> set (api_calls r). api_name c \<in> set target_apis \<and> api_category c = api_kind (api_name c)) \<and>
     rwx_allocations r = length (filter (\<lambda>c. api_category c = ''memory'') (api_calls r))"

lemma result_unchanged [simp]:
  "rs_result (jump d s) = rs_result s" "rs_result (set_eax v s) = rs_result s"
  "rs_result (mov8 ops s) = rs_result s" "rs_result (stosb s) = rs_result s"
  "rs_result (stosd s) = rs_result s" "rs_result (call_near x64 ops s) = rs_result s"
  "rs_result (snd (ret_near x64 s)) = rs_result s" "rs_result (skip_instruction b s) = rs_result s"
  by (simp_all add: jump_def set_eax_def mov8_def stosb_def stosd_def call_near_def ret_near_def
      skip_instruction_def Let_def)

lemma res_ok_evasion [simp]: "res_ok (rs_result (add_evasion t s)) = res_ok (rs_result s)"
  by (simp add: res_ok_def add_evasion_def)

lemma res_ok_rdtsc [simp]: "res_ok (rs_result (rdtsc clk s)) = res_ok (rs_result s)"
  by (simp add: rdtsc_def read_clock_def res_ok_def add_evasion_def jump_def)

lemma known_api_tracked: "known_api_ror13_hashes h = Some n \<Longrightarrow> n \<in> set target_apis"
  by (auto simp: known_api_ror13_hashes_def dest!: map_of_SomeD)

lemma api_kind_memory: "api_kind n = ''memory'' \<longleftrightarrow> n = ''VirtualAlloc'' \<or> n = ''VirtualAllocEx''"
  by (auto simp: api_kind_def)

lemma api_effect_result [simp]:
  "api_calls (rs_result (api_effect n s)) = api_calls (rs_result s)"
  "unpacked_yara_matches (rs_result (api_effect n s)) = unpacked_yara_matches (rs_result s)"
  "emu_error (rs_result (api_effect n s)) = emu_error (rs_result s)"
  "rwx_allocations (rs_result (api_effect n s)) =
     rwx_allocations (rs_result s) + (if api_kind n = ''memory'' then 1 else 0)"
  unfolding api_kind_memory
  by (simp_all add: api_effect_def add_evasion_def add_reason_def set_eax_def)

lemma res_ok_api:
  assumes "res_ok (rs_result s)" and "n \<in> set target_apis"
  shows "res_ok (rs_result (handle_api_call clk n s))"
proof -
  have "api_calls (rs_result (handle_api_call clk n s)) = api_calls (rs_result s) @
      [\<lparr>api_name = n, arguments = [], return_value = eax (rs_regs (api_effect n s)),
        api_category = api_kind n, call_time = clk (rs_reads (api_effect n s))\<rparr>]"
    by (simp add: handle_api_call_def read_clock_def)
  moreover have "rwx_allocations (rs_result (handle_api_call clk n s)) =
      rwx_allocations (rs_result s) + (if api_kind n = ''memory'' then 1 else 0)"
    "unpacked_yara_matches (rs_result (handle_api_call clk n s)) = unpacked_yara_matches (rs_result s)"
    "emu_error (rs_result (handle_api_call clk n s)) = emu_error (rs_result s)"
    by (simp_all add: handle_api_call_def read_clock_def)
  ultimately show ?thesis using assms by (simp add: res_ok_def)
qed

lemma res_ok_resolve: "res_ok (rs_result s) \<Longrightarrow> res_ok (rs_result (resolve_hash clk s))"
  by (auto simp: resolve_hash_def known_api_tracked intro!: res_ok_api split: option.split)

lemma res_ok_exec: "res_ok (rs_result s) \<Longrightarrow> res_ok (rs_result (snd (exec clk x64 s)))"
  unfolding exec_def Let_def using res_ok_resolve[of s clk] by (simp split: if_split)

lemma loop_keeps:
  "res_ok (rs_result s) \<Longrightarrow> steps_loop clk em start x64 k n s = (n', s') \<Longrightarrow>
     res_ok (rs_result s') \<and> n' \<le> n + k"
proof (induction k arbitrary: n s)
  case (Suc k)
  let ?s1 = "snd (read_clock clk s)"
  have r: "rs_result ?s1 = rs_result s" by (simp add: read_clock_def)
  obtain f s2 where e: "exec clk x64 ?s1 = (f, s2)" by fastforce
  have "res_ok (rs_result s2)" using res_ok_exec[of ?s1 clk x64] Suc.prems(1) r e by simp
  with Suc.prems Suc.IH[of s2 "Suc n"] e r show ?case
    by (auto simp: read_clock_def split: if_splits flow.splits)
qed simp

lemma run_interpreter_keeps:
  assumes "res_ok (rs_result s)"
  shows "res_ok (rs_result (run_interpreter clk em start x64 s))"
    "instructions_executed (rs_result (run_interpreter clk em start x64 s)) \<le> nat (max_instructions em)"
proof -
  obtain n s1 where l: "steps_loop clk em start x64 (nat (max_instructions em)) 0 (s\<lparr>rs_written := 0\<rparr>) = (n, s1)"
    by fastforce
  have "res_ok (rs_result s1) \<and> n \<le> nat (max_instructions em)"
    using loop_keeps[OF _ l] assms by simp
  then show "res_ok (rs_result (run_interpreter clk em start x64 s))"
    "instructions_executed (rs_result (run_interpreter clk em start x64 s)) \<le> nat (max_instructions em)"
    by (auto simp: run_interpreter_def l Let_def res_ok_def)
qed

lemma rescan_nothing [simp]: "rescan em s r = r"
proof -
  have "foldl (\<lambda>r buf. if length buf \<ge> 64 then (case scan_bytes eng buf of Inl x \<Rightarrow> r | Inr hits \<Rightarrow> add_hits hits r) else r)
      r bufs = r" for eng bufs
    by (induction bufs) (simp_all add: scan_bytes_def)
  then show ?thesis by (simp add: rescan_def split: option.split)
qed

definition evidence :: "emu_result \<Rightarrow> nat" where
  \<comment> \<open>how many kinds of evidence a result holds\<close>
  "evidence r =
     (if \<exists>c \<in> set (api_calls r). api_category c = ''injection'' then 1 else 0)
     + (if unpacked_payload_sizes r \<noteq> [] then 1 else 0)
     + (if rwx_allocations r > 0 then 1 else 0)
     + (if evasion_techniques r \<noteq> [] then 1 else 0)"

lemma risk_verdict:
  assumes "unpacked_yara_matches r = []" and "r' = evaluate_risk r"
  shows "0 \<le> risk_score r' \<and> risk_score r' \<le> 100"
    "is_malicious r' \<Longrightarrow> is_suspicious r' \<and> evidence r' \<ge> 2"
    "is_suspicious r' \<longleftrightarrow> evidence r' \<ge> 1"
    "unpacked_yara_matches r' = []" "instructions_executed r' = instructions_executed r"
    "api_calls r' = api_calls r" "rwx_allocations r' = rwx_allocations r" "emu_error r' = emu_error r"
proof -
  let ?p = "risk_points r"
  define inj where "inj = (\<exists>c \<in> set (api_calls r). api_category c = ''injection'')"
  define ev where "ev = min 40 (real (length (evasion_techniques r)) * 20)"
  have p: "?p = (if inj then 45 else 0) + (if unpacked_payload_sizes r \<noteq> [] then 35 else 0)
      + (if rwx_allocations r > 0 then 25 else 0) + (if evasion_techniques r \<noteq> [] then ev else 0)"
    using assms(1) by (simp add: risk_points_def inj_def ev_def)
  have ev: "0 \<le> ev" "ev \<le> 40" "evasion_techniques r \<noteq> [] \<Longrightarrow> 20 \<le> ev"
    by (auto simp: ev_def min_def) (cases "evasion_techniques r"; simp)
  have e: "evidence r' = (if inj then 1 else 0) + (if unpacked_payload_sizes r \<noteq> [] then 1 else 0)
      + (if rwx_allocations r > 0 then 1 else 0) + (if evasion_techniques r \<noteq> [] then 1 else 0)"
    using assms(2) by (simp add: evidence_def evaluate_risk_def Let_def inj_def)
  show "0 \<le> risk_score r' \<and> risk_score r' \<le> 100"
    using p ev assms(2) by (simp add: evaluate_risk_def Let_def)
  show "is_malicious r' \<Longrightarrow> is_suspicious r' \<and> evidence r' \<ge> 2"
    using p ev e assms by (auto simp: evaluate_risk_def Let_def split: if_splits)
  show "is_suspicious r' \<longleftrightarrow> evidence r' \<ge> 1"
    using p ev e assms by (auto simp: evaluate_risk_def Let_def split: if_splits)
  show "unpacked_yara_matches r' = []" "instructions_executed r' = instructions_executed r"
    "api_calls r' = api_calls r" "rwx_allocations r' = rwx_allocations r" "emu_error r' = emu_error r"
    using assms by (simp_all add: evaluate_risk_def Let_def)
qed

section \<open>The emulator as a whole\<close>

lemma finish_result:
  assumes "res_ok (rs_result s)" and "instructions_executed (rs_result s) \<le> n"
  shows "instructions_executed (finish env em start s) \<le> n \<and> 0 \<le> risk_score (finish env em start s)
    \<and> risk_score (finish env em start s) \<le> 100
    \<and> (is_suspicious (finish env em start s) \<longleftrightarrow> 1 \<le> evidence (finish env em start s))
    \<and> (is_malicious (finish env em start s) \<longrightarrow> 2 \<le> evidence (finish env em start s))
    \<and> res_ok (finish env em start s)"
proof -
  let ?r = "(rs_result s)\<lparr>duration_seconds := max 0.001 (e_clock env (rs_reads s) - start)\<rparr>"
  have f: "finish env em start s = evaluate_risk ?r" by (simp add: finish_def read_clock_def)
  have "unpacked_yara_matches ?r = []" using assms(1) by (simp add: res_ok_def)
  note v = risk_verdict[OF this f]
  have "res_ok (finish env em start s)"
    using assms(1) v(4,6,7,8) by (simp add: res_ok_def)
  with v assms(2) show ?thesis by simp
qed

definition result_good :: "nat \<Rightarrow> emu_result \<Rightarrow> bool" where
  "result_good n r \<longleftrightarrow> instructions_executed r \<le> n \<and> 0 \<le> risk_score r \<and> risk_score r \<le> 100
     \<and> (is_suspicious r \<longleftrightarrow> 1 \<le> evidence r) \<and> (is_malicious r \<longrightarrow> 2 \<le> evidence r)
     \<and> unpacked_yara_matches r = []
     \<and> (\<forall>c \<in> set (api_calls r). api_name c \<in> set target_apis \<and> api_category c = api_kind (api_name c))
     \<and> rwx_allocations r = length (filter (\<lambda>c. api_category c = ''memory'') (api_calls r))"

lemma finish_good:
  assumes "res_ok (rs_result s)"
  shows "result_good (nat (max_instructions em)) (finish env em start (run_interpreter clk em start x64 s))"
  using finish_result[OF run_interpreter_keeps[OF assms]] unfolding result_good_def res_ok_def by blast

lemma new_result_ok [simp]: "res_ok (new_result p)" "res_ok (rs_result (start_state m r (new_result p) n))"
  by (simp_all add: res_ok_def new_result_def start_state_def)

lemma new_result_good: "result_good n (new_result p)" "result_good n (new_result p\<lparr>emu_error := e\<rparr>)"
  by (simp_all add: result_good_def new_result_def evidence_def)

lemma emulate_data_good:
  assumes "emulate_data env em data (new_result p) = Inr r"
  shows "result_good (nat (max_instructions em)) r"
  using assms
  by (auto simp: emulate_data_def Let_def emulate_pe_def emulate_shellcode_def emulate_elf_def bind_res_Inr_iff
      finish_good new_result_good split: if_splits option.splits prod.splits sum.splits)

lemma emulate_good:
  assumes "emulate env em s p raw = Inr r"
  shows "result_good (nat (max_instructions em)) r"
  using assms
  by (auto simp: emulate_def Let_def new_result_good dest: emulate_data_good
      split: if_splits option.splits sum.splits)

section \<open>Steps on given code\<close>

lemma ops_at:
  assumes "vmem_ok m"
  shows "length (vm_read_bytes m a 15) = 15"
    and "i < 15 \<Longrightarrow> vm_read_bytes m a 15 ! i = byte_at m (a + int i)"
    and "i < 15 \<Longrightarrow> byte_of (vm_read_bytes m a 15) i = of_char (byte_at m (a + int i))"
    and "i + k \<le> 15 \<Longrightarrow> take k (drop i (vm_read_bytes m a 15)) = map (\<lambda>j. byte_at m (a + int (i + j))) [0..<k]"
  using assms by (auto simp: vm.rd_peek byte_of_def intro!: nth_equalityI)

lemma not_zeros:
  assumes "vmem_ok m" and "byte_at m a \<noteq> CHR 0x00"
  shows "\<not> (vm_read_bytes m a 15 = [] \<or>
     vm_read_bytes m a 15 = replicate (length (vm_read_bytes m a 15)) (CHR 0x00))"
proof -
  have "vm_read_bytes m a 15 ! 0 = byte_at m a" using ops_at(2)[OF assms(1), of 0 a] by simp
  moreover have "length (vm_read_bytes m a 15) = 15" by (rule ops_at(1)[OF assms(1)])
  ultimately show ?thesis using assms(2) by (metis length_0_conv nth_replicate zero_less_numeral zero_neq_numeral)
qed

lemma exec_simple:
  assumes "vmem_ok (rs_vm s)" and "of_char (byte_at (rs_vm s) (eip (rs_regs s))) = b"
    and "(b :: nat) \<in> {0x90, 0xAA, 0xAB, 0xC3, 0xE8, 0xE9, 0xEB}"
  shows "exec clk x64 s =
    (let ops = vm_read_bytes (rs_vm s) (eip (rs_regs s)) 15
     in if b = 0xAA then (Continue, stosb s)
        else if b = 0xAB then (Continue, stosd s)
        else if b = 0xE8 then (Continue, call_near x64 ops s)
        else if b = 0xC3 then ret_near x64 s
        else if b = 0x90 then (Continue, jump 1 s)
        else if b = 0xEB then (Continue, jump (2 + signed 8 (int (byte_of ops 1))) s)
        else (Continue, jump (5 + signed 32 (u32_of ops 1)) s))"
proof -
  let ?ops = "vm_read_bytes (rs_vm s) (eip (rs_regs s)) 15"
  have b: "byte_of ?ops 0 = b"
    using ops_at(3)[OF assms(1), of 0 "eip (rs_regs s)"] assms(2) by simp
  have nz: "\<not> (?ops = [] \<or> ?ops = replicate (length ?ops) (CHR 0x00))"
    by (rule not_zeros[OF assms(1)]) (use assms(2,3) in auto)
  have "\<not> peb_access ?ops" "\<not> ror13_pattern ?ops" using b assms(3) by (auto simp: peb_access_def ror13_pattern_def)
  with b nz assms(3) show ?thesis unfolding exec_def Let_def by auto
qed

lemma low64: "(x :: int) AND 0xFFFFFFFFFFFFFFFF = x mod 18446744073709551616"
  using take_bit_eq_mask[of 64 x] by (simp add: take_bit_eq_mod mask_eq_exp_minus_1)

text \<open>A call followed by a return at its target comes back to the next instruction with the stack pointer
  restored, when the return address is one the interpreter accepts and the pushed address does not
  overwrite the target; memory outside the pushed eight bytes and the other registers are unchanged.\<close>
lemma call_returns:
  assumes "vmem_ok (rs_vm s)" and "byte_at (rs_vm s) (eip (rs_regs s)) = CHR 0xE8"
    and "t = (eip (rs_regs s) + 5 + signed 32 (u32_of (vm_read_bytes (rs_vm s) (eip (rs_regs s)) 15) 1)) mod 2 ^ 64"
    and "byte_at (rs_vm s) t = CHR 0xC3" and "t < esp (rs_regs s) - 8 \<or> esp (rs_regs s) \<le> t"
    and "0 < eip (rs_regs s) + 5" and "eip (rs_regs s) + 5 \<le> 0xFFFFFFFFFFFF"
  shows "\<exists>s1 s2. exec clk True s = (Continue, s1) \<and> eip (rs_regs s1) = t
    \<and> exec clk True s1 = (Continue, s2)
    \<and> rs_regs s2 = (rs_regs s)\<lparr>eip := eip (rs_regs s) + 5\<rparr> \<and> rs_result s2 = rs_result s
    \<and> (\<forall>x. x < esp (rs_regs s) - 8 \<or> esp (rs_regs s) \<le> x \<longrightarrow> byte_at (rs_vm s2) x = byte_at (rs_vm s) x)"
proof -
  let ?ip = "eip (rs_regs s)" and ?sp = "esp (rs_regs s) - 8"
  let ?ops = "vm_read_bytes (rs_vm s) ?ip 15"
  define s1 where "s1 = call_near True ?ops s"
  have e1: "exec clk True s = (Continue, s1)"
    using exec_simple[of s 232 clk True] assms(1,2) by (simp add: s1_def)
  have s1: "eip (rs_regs s1) = t" "esp (rs_regs s1) = ?sp" "rs_vm s1 = write_u64 ?sp (?ip + 5) (rs_vm s)"
    "rs_regs s1 = (rs_regs s)\<lparr>eip := t, esp := ?sp\<rparr>" "rs_result s1 = rs_result s"
    by (simp_all add: s1_def call_near_def Let_def assms(3) low64)
  have ok: "vmem_ok (rs_vm s1)" using assms(1) s1(3) by (simp add: write_number_ok)
  have far: "x < ?sp \<or> esp (rs_regs s) \<le> x \<Longrightarrow> byte_at (rs_vm s1) x = byte_at (rs_vm s) x" for x
    using assms(1) s1(3) by (auto simp: write_u64_def vm.peek_wr)
  have "byte_at (rs_vm s1) (eip (rs_regs s1)) = CHR 0xC3" using far[of t] assms(4,5) s1(1) by auto
  then have e2: "exec clk True s1 = ret_near True s1"
    using exec_simple[of s1 195 clk True] ok by simp
  have "read_u64 (rs_vm s1) ?sp = (?ip + 5) mod 2 ^ 64"
    using read_write_u64[OF assms(1)] s1(3) by simp
  also have "\<dots> = ?ip + 5" using assms(6,7) by (simp add: mod_pos_pos_trivial)
  finally have "ret_near True s1 = (Continue, s1\<lparr>rs_regs := (rs_regs s)\<lparr>eip := ?ip + 5\<rparr>\<rparr>)"
    using assms(6,7) s1(2,4) by (simp add: ret_near_def Let_def)
  with e1 e2 s1(1,5) far show ?thesis by auto
qed

text \<open>A two-byte jump to itself.\<close>

lemma self_jump_step:
  assumes "vmem_ok (rs_vm s)" and "byte_at (rs_vm s) (eip (rs_regs s)) = CHR 0xEB"
    and "byte_at (rs_vm s) (eip (rs_regs s) + 1) = CHR 0xFE"
  shows "exec clk x64 s = (Continue, s)"
  using exec_simple[of s 235 clk x64] assms ops_at(3)[OF assms(1), of 1 "eip (rs_regs s)"]
  by (simp add: jump_def signed_def)

lemma self_jump_loop:
  assumes "vmem_ok (rs_vm s)" and "byte_at (rs_vm s) (eip (rs_regs s)) = CHR 0xEB"
    and "byte_at (rs_vm s) (eip (rs_regs s) + 1) = CHR 0xFE"
    and "\<forall>i. clk i - start \<le> max_seconds em"
  shows "steps_loop clk em start x64 k n s = (n + k, s\<lparr>rs_reads := rs_reads s + k\<rparr>)"
  using assms(1-3)
proof (induction k arbitrary: n s)
  case (Suc k)
  let ?s = "s\<lparr>rs_reads := Suc (rs_reads s)\<rparr>"
  have "exec clk x64 ?s = (Continue, ?s)" using Suc.prems by (intro self_jump_step) auto
  moreover have "\<not> clk (rs_reads s) - start > max_seconds em" using assms(4) by (simp add: not_less)
  ultimately show ?case using Suc.IH[of ?s "Suc n"] Suc.prems by (simp add: read_clock_def)
qed simp

lemma shellcode_loaded:
  assumes "load_shellcode data = (m, r)"
  shows "vmem_ok m" "eip r = 0x10000000"
    "i < length data \<Longrightarrow> byte_at m (0x10000000 + int i) = data ! i"
proof -
  let ?m1 = "alloc 0x10000000 (int (length data) + 0x10000) ''RWX'' (new_vmem True)"
  have ok: "vmem_ok ?m1" by (simp add: alloc_ok)
  have m: "m = alloc 0x20000000 0x10000 ''RW'' (vm_write_bytes 0x10000000 data ?m1)"
    and r: "r = init_regs (0x20000000 + 0x8000) 0x10000000"
    using assms by (simp_all add: load_shellcode_def Let_def)
  show "vmem_ok m" unfolding m by (rule alloc_ok[OF vm.ok_wr[OF ok]])
  show "eip r = 0x10000000" by (simp add: r init_regs_def)
  show "byte_at m (0x10000000 + int i) = data ! i" if "i < length data"
    using that unfolding m by (simp add: vm.peek_wr[OF ok])
qed

text \<open>Code that loops for ever on one instruction is stopped: shellcode that begins with a jump to itself
  makes exactly the configured number of steps when the clock allows, and is then neither suspicious nor
  malicious.\<close>
lemma endless_loop_stopped:
  assumes "\<forall>i. e_clock env i - e_clock env 0 \<le> max_seconds em" and "resolve (e_os env) p = Some path"
  shows "\<exists>r. emulate env em s p (Some (CHR 0xEB # CHR 0xFE # rest)) = Inr r
    \<and> instructions_executed r = nat (max_instructions em) \<and> \<not> is_suspicious r \<and> \<not> is_malicious r"
proof -
  let ?data = "CHR 0xEB # CHR 0xFE # rest" and ?clk = "e_clock env" and ?n = "nat (max_instructions em)"
  obtain m g where l: "load_shellcode ?data = (m, g)" by fastforce
  note m = shellcode_loaded[OF l]
  let ?s0 = "start_state m g (new_result path) 1"
  have b: "byte_at m (eip g) = CHR 0xEB" "byte_at m (eip g + 1) = CHR 0xFE"
    using m(3)[of 0] m(3)[of 1] m(2) by simp_all
  have "steps_loop ?clk em (?clk 0) True ?n 0 (?s0\<lparr>rs_written := 0\<rparr>)
      = (?n, ?s0\<lparr>rs_written := 0, rs_reads := 1 + ?n\<rparr>)"
    using self_jump_loop[of "?s0\<lparr>rs_written := 0\<rparr>" ?clk "?clk 0" em True ?n 0] assms(1) m(1) b
    by (simp add: start_state_def)
  then have "rs_result (run_interpreter ?clk em (?clk 0) True ?s0) = (new_result path)\<lparr>instructions_executed := ?n\<rparr>"
    by (simp add: run_interpreter_def start_state_def)
  then have "rs_result (emulate_shellcode env em (?clk 0) ?data (new_result path))
      = (new_result path)\<lparr>instructions_executed := ?n\<rparr>"
    by (simp add: emulate_shellcode_def l)
  moreover have "emulate env em s p (Some ?data)
      = Inr (finish env em (?clk 0) (emulate_shellcode env em (?clk 0) ?data (new_result path)))"
    using assms(2) by (simp add: emulate_def emulate_data_def Let_def startswith_iff)
  ultimately show ?thesis
    by (simp add: finish_def read_clock_def evaluate_risk_def risk_points_def new_result_def Let_def)
qed

text \<open>Emulation of given bytes raises in exactly two cases: the path cannot be resolved, or the bytes are
  the four of the ELF magic alone, where the class byte is read past the end; all other contents, empty,
  truncated or malformed, give a result.\<close>
lemma emulation_raises_exactly:
  "emulate env em s p (Some data) = Inl x \<longleftrightarrow>
     resolve (e_os env) p = None \<and> x = OSError
     \<or> (\<exists>path. resolve (e_os env) p = Some path) \<and> data = CHR 0x7F # ''ELF'' \<and> x = IndexError"
  by (auto simp: emulate_def emulate_data_def emulate_elf_def load_elf_def startswith_iff Let_def
      split: option.split)

text \<open>C11: whatever is emulated, and whatever rule engine the emulator holds: at most the configured number of
  instructions runs, the risk lies between 0 and 100, the result is suspicious exactly when there is some
  evidence, and malicious only with at least two of the four kinds of evidence (injection calls, an
  unpacking loop, executable allocations, evasions); every recorded call is a tracked API, and the
  rescan of written memory never contributes a match.\<close>
theorem emulation_verdict:
  assumes "emulate env em s p raw = Inr r"
  shows "instructions_executed r \<le> nat (max_instructions em) \<and> 0 \<le> risk_score r \<and> risk_score r \<le> 100
    \<and> (is_suspicious r \<longleftrightarrow> 1 \<le> evidence r) \<and> (is_malicious r \<longrightarrow> 2 \<le> evidence r)
    \<and> unpacked_yara_matches r = []
    \<and> (\<forall>c \<in> set (api_calls r). api_name c \<in> set target_apis \<and> api_category c = api_kind (api_name c))
    \<and> rwx_allocations r = length (filter (\<lambda>c. api_category c = ''memory'') (api_calls r))"
  using emulate_good[OF assms] unfolding result_good_def .

section \<open>Instances\<close>

definition demo_emu_env :: emu_env where
  "demo_emu_env = \<lparr>e_clock = (\<lambda>i. 0),
     e_os = \<lparr>seps = ''/'', resolve = Some, is_link = \<lambda>p. False, read_err = \<lambda>p. None,
       write_err = \<lambda>p a. None, unlink_err = \<lambda>p. None, mkdir_err = \<lambda>p. None, chmod_err = \<lambda>p. None,
       attr_api = False, attr_ok = \<lambda>p. True, ace_ok = \<lambda>p. True\<rparr>,
     parse_pe = \<lambda>d. None\<rparr>"

definition demo_emulator :: emulator where
  "demo_emulator = new_emulator 5000 2 True True"

definition demo_fs :: fs where
  "demo_fs = \<lparr>files = Map.empty, dirs = {}\<rparr>"

definition demo_code :: bytes where
  \<comment> \<open>a call to the byte after it, which is a return, and no-operations\<close>
  "demo_code = [CHR 0xE8, CHR 0x00, CHR 0x00, CHR 0x00, CHR 0x00, CHR 0xC3] @ replicate 9 (CHR 0x90)"

definition demo_run :: run_state where
  "demo_run = start_state (vm_write_bytes 0x1000 demo_code (new_vmem True)) (init_regs 0x9000 0x1000)
     (new_result ''/a'') 0"

lemma call_returns_witness:
  "\<exists>s1 s2. exec (\<lambda>i. 0) True demo_run = (Continue, s1) \<and> exec (\<lambda>i. 0) True s1 = (Continue, s2)
    \<and> eip (rs_regs s2) = 0x1005 \<and> esp (rs_regs s2) = 0x9000"
proof -
  have r: "eip (rs_regs demo_run) = 0x1000" "esp (rs_regs demo_run) = 0x9000"
    "rs_vm demo_run = vm_write_bytes 0x1000 demo_code (new_vmem True)"
    by (simp_all add: demo_run_def start_state_def init_regs_def)
  have ok: "vmem_ok (rs_vm demo_run)" unfolding r by (rule vm.ok_wr) simp
  have l: "length demo_code = 15" by (simp add: demo_code_def)
  have "vm_read_bytes (rs_vm demo_run) 0x1000 15 = demo_code"
    unfolding r using vm.rd_wr_same[of "new_vmem True" 4096 demo_code] l by simp
  then have t: "(eip (rs_regs demo_run) + 5
      + signed 32 (u32_of (vm_read_bytes (rs_vm demo_run) (eip (rs_regs demo_run)) 15) 1)) mod 2 ^ 64 = 0x1005"
    unfolding r(1) by (simp add: demo_code_def u32_of_def signed_def)
  have b: "byte_at (rs_vm demo_run) 0x1000 = CHR 0xE8" "byte_at (rs_vm demo_run) 0x1005 = CHR 0xC3"
    unfolding r by (simp_all add: vm.peek_wr l) (simp_all add: demo_code_def)
  show ?thesis
    using call_returns[OF ok _ t[symmetric], of "\<lambda>i. 0"] b r by auto
qed

lemma endless_loop_stopped_witness:
  "\<exists>r. emulate demo_emu_env demo_emulator demo_fs ''/a'' (Some [CHR 0xEB, CHR 0xFE]) = Inr r
    \<and> instructions_executed r = 5000 \<and> \<not> is_suspicious r"
  using endless_loop_stopped[of demo_emu_env demo_emulator "''/a''" "''/a''" demo_fs "[]"]
  by (auto simp: demo_emu_env_def demo_emulator_def new_emulator_def)

theorem emulation_verdict_witness:
  "\<exists>r. emulate demo_emu_env demo_emulator demo_fs ''/a'' (Some (''MZ'' @ demo_code)) = Inr r
    \<and> instructions_executed r \<le> 5000 \<and> risk_score r \<le> 100"
proof -
  obtain r where r: "emulate demo_emu_env demo_emulator demo_fs ''/a'' (Some (''MZ'' @ demo_code)) = Inr r"
    by (simp add: emulate_def emulate_data_def demo_emu_env_def Let_def startswith_def)
  from emulation_verdict[OF this] show ?thesis
    using r by (auto simp: demo_emulator_def new_emulator_def)
qed

end
