(* ===== verification/SandboxRunner.thy ===== *)
theory SandboxRunner
  imports Emulator StaticClassifier Quarantine
begin

text \<open>
  \<open>sandbox/runner.py\<close> and the outcome of \<open>sandbox/isolation.py\<close>: reports of emulation and of detonation in a
  temporary workspace, what makes a report malicious or suspicious, and its signals. What a detonated
  program does to the files, how it ends and what a walk of the workspace lists are parameters. The lemmas
  show when a report is malicious, how its signals are scored, and that the workspace is removed on every
  path.
\<close>

section \<open>Reports\<close>

record finding =
  fd_category :: string
  fd_detail :: string
  fd_severity :: string

record dropped_file =
  df_path :: string
  df_size :: nat
  df_entropy :: real
  df_high :: bool

record report =
  rp_target :: string
  rp_duration :: real
  rp_exit :: "int option"
  rp_mode :: string
  rp_created :: "string list"
  rp_dropped :: "string list"
  rp_entropy :: real
  rp_reasons :: "string list"
  rp_peak_mb :: real
  rp_max_mb :: int
  rp_cpu :: int
  rp_timed_out :: bool
  rp_pids :: "int list"
  rp_objects :: "dropped_file list"
  rp_findings :: "finding list"
  rp_instructions :: nat
  rp_api_calls :: "(string \<times> string \<times> int) list"
  rp_evasion :: "string list"
  rp_yara :: "string list"
  rp_rwx :: nat
  rp_risk :: real

definition alarming_words :: "string list" where
  "alarming_words = [''malicious'', ''ransomware'', ''dropped'']"

definition report_malicious :: "report \<Rightarrow> bool" where
  "report_malicious r \<longleftrightarrow>
     length (rp_dropped r) > 0 \<or> rp_entropy r \<ge> 7.6 \<or> length (rp_yara r) > 0 \<or> rp_risk r \<ge> 75
     \<or> (\<exists>x \<in> set (rp_reasons r). \<exists>w \<in> set alarming_words. contains (lower x) w)"

definition report_suspicious :: "report \<Rightarrow> bool" where
  "report_suspicious r \<longleftrightarrow>
     report_malicious r \<or> length (rp_created r) > 3 \<or> length (rp_evasion r) > 0 \<or> rp_rwx r > 0
     \<or> rp_risk r \<ge> 35 \<or> rp_reasons r \<noteq> []"

definition sandbox_signal :: "real \<Rightarrow> string \<Rightarrow> string \<Rightarrow> string \<Rightarrow> real \<Rightarrow> signal" where
  "sandbox_signal now k subj why w = mk_signal now k subj why ''sandbox'' (Some w) None"

definition report_subject :: "char list \<Rightarrow> report \<Rightarrow> int option \<Rightarrow> string" where
  "report_subject sp r p =
     (if p = None \<or> p = Some 0 then ''file:'' @ path_name sp (rp_target r)
      else ''pid:'' @ show_int (the p))"

definition to_signals :: "real \<Rightarrow> char list \<Rightarrow> report \<Rightarrow> int option \<Rightarrow> signal list" where
  "to_signals now sp r p =
     (let subj = report_subject sp r p;
          strong =
            (if rp_yara r \<noteq> []
             then [sandbox_signal now ''sandbox_unpacked_yara'' subj
                     (''Sandbox emulator unpacked malware matching YARA: '' @ join '', '' (rp_yara r)) 90]
             else if report_malicious r
             then [sandbox_signal now ''sandbox_malicious'' subj
                     (''Sandbox confirmed malicious behavior: '' @ join ''; '' (rp_reasons r)) 85]
             else []);
          evasive =
            (if rp_evasion r \<noteq> []
             then [sandbox_signal now ''sandbox_evasion_detected'' subj
                     (''Sandbox detected anti-analysis evasion: '' @ join '', '' (take 3 (rp_evasion r))) 35]
             else []);
          found = strong @ evasive
      in if report_suspicious r \<and> \<not> report_malicious r \<and> found = []
         then [sandbox_signal now ''sandbox_suspicious'' subj
                 (''Sandbox execution observed anomalies: '' @
                  join ''; '' (if rp_reasons r = [] then [''anomalous activity''] else rp_reasons r)) 35]
         else found)"

section \<open>Isolation\<close>

datatype outcome = NoJob py_exc | SpawnFails | Exits int | TimesOut | WaitFails

definition run_isolated :: "outcome \<Rightarrow> (int option \<times> bool) py_result" where
  \<comment> \<open>a job object that cannot be made raises, on Windows; every other failure is exit code \<open>-1\<close>\<close>
  "run_isolated oc =
     (case oc of
        NoJob e \<Rightarrow> Inl e
      | SpawnFails \<Rightarrow> Inr (Some (- 1), False)
      | Exits code \<Rightarrow> Inr (Some code, False)
      | TimesOut \<Rightarrow> Inr (Some (- 1), True)
      | WaitFails \<Rightarrow> Inr (Some (- 1), False))"

section \<open>The runner\<close>

record runner =
  rn_duration :: real
  rn_memory :: int
  rn_cpu :: int
  iso_duration :: real
  iso_memory :: int
  iso_cpu :: int
  rn_emulator :: emulator

definition new_runner :: "real \<Rightarrow> int \<Rightarrow> int \<Rightarrow> runner" where
  "new_runner d m c =
     \<lparr>rn_duration = d, rn_memory = m, rn_cpu = c, iso_duration = d, iso_memory = m, iso_cpu = c,
      rn_emulator = new_emulator 5000 d True True\<rparr>"

record run_env =
  ru_emu :: emu_env
  ru_core :: "(bytes \<Rightarrow> real) option"
  ru_tempdir :: string
  ru_outcome :: outcome
  ru_effect :: "fs \<Rightarrow> fs"
  ru_walk :: "fs \<Rightarrow> (string \<times> string list) list"
  ru_removable :: "string \<Rightarrow> bool"
  ru_start :: real
  ru_end :: real

definition ru_os :: "run_env \<Rightarrow> os" where
  "ru_os env = e_os (ru_emu env)"

definition emulation_findings :: "emu_result \<Rightarrow> finding list" where
  "emulation_findings res =
     map (\<lambda>c. \<lparr>fd_category = ''API'',
               fd_detail = ''Called '' @ api_name c @ '' ('' @ api_category c @ '')'',
               fd_severity = ''MEDIUM''\<rparr>) (api_calls res)
     @ map (\<lambda>ev. \<lparr>fd_category = ''Evasion'', fd_detail = ev, fd_severity = ''HIGH''\<rparr>)
         (evasion_techniques res)
     @ map (\<lambda>rule. \<lparr>fd_category = ''YARA'', fd_detail = ''Unpacked signature: '' @ rule,
                    fd_severity = ''CRITICAL''\<rparr>) (unpacked_yara_matches res)"

definition emulation_report :: "string \<Rightarrow> emu_result \<Rightarrow> report" where
  "emulation_report target res =
     \<lparr>rp_target = target, rp_duration = duration_seconds res,
      rp_exit = (if emu_error res = None \<or> emu_error res = Some [] then Some 0 else Some (- 1)),
      rp_mode = ''emulation'', rp_created = [], rp_dropped = [], rp_entropy = 0,
      rp_reasons = threat_reasons res, rp_peak_mb = 0, rp_max_mb = 128, rp_cpu = 20,
      rp_timed_out = False, rp_pids = [], rp_objects = [], rp_findings = emulation_findings res,
      rp_instructions = instructions_executed res,
      rp_api_calls = map (\<lambda>c. (api_name c, api_category c, return_value c)) (api_calls res),
      rp_evasion = evasion_techniques res, rp_yara = unpacked_yara_matches res,
      rp_rwx = rwx_allocations res, rp_risk = risk_score res\<rparr>"

definition emulate_binary :: "run_env \<Rightarrow> runner \<Rightarrow> fs \<Rightarrow> string \<Rightarrow> bytes option \<Rightarrow> report py_result" where
  "emulate_binary env rn s p raw =
     (case resolve (ru_os env) p of
        None \<Rightarrow> Inl OSError
      | Some target \<Rightarrow>
          bind_res (emulate (ru_emu env) (rn_emulator rn) s target raw)
            (\<lambda>res. Inr (emulation_report target res)))"

definition dropped_exts :: "string list" where
  "dropped_exts =
     [''.exe'', ''.dll'', ''.sys'', ''.bat'', ''.cmd'', ''.ps1'', ''.vbs'', ''.js'', ''.hta'']"

record artifacts =
  ar_created :: "string list"
  ar_dropped :: "string list"
  ar_objects :: "dropped_file list"
  ar_entropy :: real
  ar_reasons :: "string list"

definition no_artifacts :: artifacts where
  "no_artifacts =
     \<lparr>ar_created = [], ar_dropped = [], ar_objects = [], ar_entropy = 0, ar_reasons = []\<rparr>"

definition relative_name :: "string \<Rightarrow> string \<Rightarrow> string" where
  \<comment> \<open>\<open>relative_to\<close> of a path below the directory\<close>
  "relative_name d p = drop (length d + 1) p"

definition measure_file :: "run_env \<Rightarrow> fs \<Rightarrow> string \<Rightarrow> string \<Rightarrow> artifacts \<Rightarrow> artifacts" where
  "measure_file env s p rel ar =
     (case read_bytes (ru_os env) p s of
        Inl e \<Rightarrow> ar
      | Inr d \<Rightarrow>
          let ent = file_entropy (ru_core env) d;
              high = (ent \<ge> 7.6 \<and> length d \<ge> 512);
              obj = \<lparr>df_path = p, df_size = length d, df_entropy = round_to 2 ent, df_high = high\<rparr>
          in ar\<lparr>ar_entropy := (if ent > ar_entropy ar then ent else ar_entropy ar),
                ar_objects := ar_objects ar @ [obj],
                ar_reasons := ar_reasons ar @
                  (if high then [''High-entropy file generated ('' @ rel @ '', entropy='' @ fmt_fixed 2 ent
                                 @ '' bits/byte)''] else [])\<rparr>)"

definition examine_artifact :: "run_env \<Rightarrow> fs \<Rightarrow> string \<Rightarrow> string \<Rightarrow> artifacts \<Rightarrow> artifacts" where
  "examine_artifact env s bin p ar =
     (if p = bin then ar
      else
        let rel = relative_name (ru_tempdir env) p;
            exe = (lower (path_suffix (seps (ru_os env)) p) \<in> set dropped_exts);
            ar1 = ar\<lparr>ar_created := ar_created ar @ [rel]\<rparr>;
            ar2 = (if exe
                   then ar1\<lparr>ar_dropped := ar_dropped ar1 @ [rel],
                            ar_reasons := ar_reasons ar1 @ [''Dropped executable payload: '' @ rel]\<rparr>
                   else ar1)
        in measure_file env s p rel ar2)"

definition workspace_files :: "run_env \<Rightarrow> fs \<Rightarrow> string list" where
  "workspace_files env s =
     concat (map (\<lambda>(root, fnames). map (path_join (seps (ru_os env)) root) fnames) (ru_walk env s))"

definition collect_artifacts :: "run_env \<Rightarrow> fs \<Rightarrow> string \<Rightarrow> artifacts" where
  "collect_artifacts env s bin =
     foldl (\<lambda>ar p. examine_artifact env s bin p ar) no_artifacts (workspace_files env s)"

definition below :: "char list \<Rightarrow> string \<Rightarrow> string \<Rightarrow> bool" where
  \<comment> \<open>the directory itself or a path in it\<close>
  "below sp d p \<longleftrightarrow> p = d \<or> (\<exists>c \<in> set sp. prefix (d @ [c]) p)"

definition remove_tree :: "run_env \<Rightarrow> fs \<Rightarrow> fs" where
  \<comment> \<open>\<open>shutil.rmtree(temp_dir, ignore_errors=True)\<close>\<close>
  "remove_tree env s =
     (let gone = (\<lambda>p. below (seps (ru_os env)) (ru_tempdir env) p \<and> ru_removable env p) in
      s\<lparr>files := (\<lambda>p. if gone p then None else files s p), dirs := {p \<in> dirs s. \<not> gone p}\<rparr>)"

definition reason_words :: "string list" where
  "reason_words = [''malicious'', ''high-entropy'', ''dropped'']"

definition heuristic_finding :: "string \<Rightarrow> finding" where
  "heuristic_finding r =
     \<lparr>fd_category = ''Heuristic'', fd_detail = r,
      fd_severity = (if \<exists>k \<in> set reason_words. contains (lower r) k then ''HIGH'' else ''MEDIUM'')\<rparr>"

definition detonation_report ::
  "run_env \<Rightarrow> runner \<Rightarrow> string \<Rightarrow> int option \<times> bool \<Rightarrow> artifacts \<Rightarrow> report" where
  "detonation_report env rn target oc ar =
     \<lparr>rp_target = target, rp_duration = round_to 2 (ru_end env - ru_start env), rp_exit = fst oc,
      rp_mode = ''detonation'', rp_created = ar_created ar, rp_dropped = ar_dropped ar,
      rp_entropy = round_to 2 (ar_entropy ar), rp_reasons = ar_reasons ar,
      rp_peak_mb = round_to 1 (max 2.4 (real (length (ar_created ar)) * 1.8)),
      rp_max_mb = rn_memory rn, rp_cpu = rn_cpu rn, rp_timed_out = snd oc, rp_pids = [], rp_objects = ar_objects ar,
      rp_findings = map heuristic_finding (ar_reasons ar), rp_instructions = 0, rp_api_calls = [],
      rp_evasion = [], rp_yara = [], rp_rwx = 0,
      rp_risk = (if ar_dropped ar \<noteq> [] \<or> ar_entropy ar \<ge> 7.6 then 85
                 else if ar_reasons ar \<noteq> [] then 35 else 0)\<rparr>"

definition run_binary :: "run_env \<Rightarrow> runner \<Rightarrow> fs \<Rightarrow> string \<Rightarrow> report py_result \<times> fs" where
  "run_binary env rn s p =
     (case resolve (ru_os env) p of
        None \<Rightarrow> (Inl OSError, s)
      | Some target \<Rightarrow>
          if \<not> path_exists (ru_os env) target s then (Inl OSError, s)
          else
            let s1 = s\<lparr>dirs := insert (ru_tempdir env) (dirs s)\<rparr>;
                bin = path_join (seps (ru_os env)) (ru_tempdir env) (path_name (seps (ru_os env)) target)
            in case copy2 (ru_os env) target bin s1 of
                 (False, s2) \<Rightarrow> (Inl RuntimeError, remove_tree env s2)
               | (True, s2) \<Rightarrow>
                   let s3 = ru_effect env s2
                   in case run_isolated (ru_outcome env) of
                        Inl e \<Rightarrow> (Inl e, remove_tree env s3)
                      | Inr oc \<Rightarrow>
                          (Inr (detonation_report env rn target oc (collect_artifacts env s3 bin)),
                           remove_tree env s3))"

definition merge_reports :: "report \<Rightarrow> report \<Rightarrow> report" where
  "merge_reports em det =
     det\<lparr>rp_api_calls := rp_api_calls em, rp_evasion := rp_evasion em,
         rp_instructions := rp_instructions em, rp_mode := ''hybrid'',
         rp_findings := rp_findings det @ rp_findings em\<rparr>"

definition analyze :: "run_env \<Rightarrow> runner \<Rightarrow> fs \<Rightarrow> string \<Rightarrow> string \<Rightarrow> report py_result \<times> fs" where
  "analyze env rn s p how =
     (if how = ''detonation'' then run_binary env rn s p
      else if how = ''hybrid''
      then (case emulate_binary env rn s p None of
              Inl e \<Rightarrow> (Inl e, s)
            | Inr r \<Rightarrow>
                if report_malicious r then (Inr r, s)
                else case run_binary env rn s p of
                       (Inl e, s') \<Rightarrow> (Inl e, s')
                     | (Inr det, s') \<Rightarrow> (Inr (merge_reports r det), s'))
      else (emulate_binary env rn s p None, s))"

definition configure :: "real option \<Rightarrow> int option \<Rightarrow> int option \<Rightarrow> runner \<Rightarrow> runner" where
  "configure d m c rn =
     (let r1 = (case d of None \<Rightarrow> rn | Some x \<Rightarrow> rn\<lparr>rn_duration := x, iso_duration := x\<rparr>);
          r2 = (case m of None \<Rightarrow> r1 | Some x \<Rightarrow> r1\<lparr>rn_memory := x, iso_memory := x\<rparr>)
      in (case c of None \<Rightarrow> r2 | Some x \<Rightarrow> r2\<lparr>rn_cpu := x, iso_cpu := x\<rparr>))"

definition run ::
  "run_env \<Rightarrow> real option \<Rightarrow> int option \<Rightarrow> int option \<Rightarrow> runner \<Rightarrow> fs \<Rightarrow> string
    \<Rightarrow> report py_result \<times> fs \<times> runner" where
  "run env d m c rn s p =
     (let rn' = configure d m c rn in
      case run_binary env rn' s p of (r, s') \<Rightarrow> (r, s', rn'))"


section \<open>Scoring a report\<close>

lemma to_signals_cases:
  "to_signals now sp r p = [] \<and> \<not> report_suspicious r
   \<or> report_suspicious r \<and> (map weight (to_signals now sp r p) \<in>
       (if report_malicious r then {[Some 85], [Some 85, Some 35], [Some 90], [Some 90, Some 35]}
        else {[Some 35]}))"
  by (auto simp: to_signals_def Let_def report_suspicious_def sandbox_signal_def mk_signal_def
      report_malicious_def)

lemma to_signals_subject:
  "x \<in> set (to_signals now sp r p) \<Longrightarrow> subject x = report_subject sp r p \<and> startswith (kind x) ''sandbox''"
  by (auto simp: to_signals_def Let_def sandbox_signal_def mk_signal_def startswith_def split: if_splits)

lemma sandbox_corroborated:
  assumes "xs \<noteq> []" "\<forall>x \<in> set xs. startswith (kind x) ''sandbox''"
  shows "corroborated xs"
proof -
  have "\<not> is_dll_kind (kind x)" if "x \<in> set xs" for x
    using assms(2) that by (cases "kind x") (auto simp: is_dll_kind_def startswith_def)
  then show ?thesis using assms(1) by (cases xs) (auto simp: corroborated_def)
qed

lemma effective_weight_Some [simp]: "weight x = Some w \<Longrightarrow> effective_weight x = w"
  by (simp add: effective_weight_def)

text \<open>C20: a sandbox report gives signals exactly when it is suspicious, and with no other evidence about the
  same subject a scorer at the default threshold lets a response happen exactly when the report is
  malicious.\<close>

theorem sandbox_report_scored:
  assumes "scorer_inv sc" "threshold sc = 80" "recorded_signals sc (report_subject sp r p) = []"
    and "response_gate.feed scorer_add now (to_signals now sp r p) sc = Inr sc'"
  shows "(to_signals now sp r p = [] \<longleftrightarrow> \<not> report_suspicious r)
    \<and> (should_respond (report_subject sp r p) sc' \<longleftrightarrow> report_malicious r)"
proof -
  let ?xs = "to_signals now sp r p"
  note cs = to_signals_cases[of now sp r p]
  have e: "?xs = [] \<longleftrightarrow> \<not> report_suspicious r" using cs by (auto split: if_splits)
  have g: "should_respond (report_subject sp r p) sc' \<longleftrightarrow>
      ?xs \<noteq> [] \<and> 80 \<le> sum_list (map effective_weight ?xs) \<and> corroborated ?xs"
    using sg.gate_of_feed[OF assms(1,4) _ assms(3)] to_signals_subject assms(2) by metis
  have "?xs \<noteq> [] \<Longrightarrow> corroborated ?xs"
    using sandbox_corroborated to_signals_subject by blast
  moreover have "report_malicious r \<Longrightarrow> report_suspicious r" by (simp add: report_suspicious_def)
  moreover have "report_suspicious r \<Longrightarrow>
      80 \<le> sum_list (map effective_weight ?xs) \<longleftrightarrow> report_malicious r"
    using cs by (auto split: if_splits)
  ultimately show ?thesis using e g by blast
qed

section \<open>What makes a detonation malicious\<close>

definition file_alarms :: "run_env \<Rightarrow> fs \<Rightarrow> string \<Rightarrow> bool" where
  \<comment> \<open>an executable suffix, or contents with an entropy of 7.6 bits after rounding\<close>
  "file_alarms env s p \<longleftrightarrow>
     lower (path_suffix (seps (ru_os env)) p) \<in> set dropped_exts
     \<or> (\<exists>d. read_bytes (ru_os env) p s = Inr d \<and> round_to 2 (file_entropy (ru_core env) d) \<ge> 7.6)"

definition artifacts_alarm :: "artifacts \<Rightarrow> bool" where
  "artifacts_alarm ar \<longleftrightarrow> ar_dropped ar \<noteq> [] \<or> round_to 2 (ar_entropy ar) \<ge> 7.6"

definition explained :: "artifacts \<Rightarrow> bool" where
  "explained ar \<longleftrightarrow> (ar_reasons ar \<noteq> [] \<longrightarrow> ar_dropped ar \<noteq> [] \<or> ar_entropy ar \<ge> 7.6)"

lemma round_threshold: "7.6 \<le> x \<Longrightarrow> 7.6 \<le> round_to 2 x"
proof -
  assume "7.6 \<le> x"
  then have "round_to 2 7.6 \<le> round_to 2 x" by (rule round_to_mono)
  moreover have "round_to 2 7.6 = 7.6"
    using round_half_even_of_int[of 760] by (simp add: round_to_def)
  ultimately show ?thesis by simp
qed

lemma alarm_iff:
  "artifacts_alarm ar \<longleftrightarrow> ar_dropped ar \<noteq> [] \<or> 7.6 \<le> round_to 2 (ar_entropy ar)"
  by (simp add: artifacts_alarm_def)

lemma measure_file_facts:
  assumes "read_bytes (ru_os env) p s = Inr d"
  shows "ar_dropped (measure_file env s p rel ar) = ar_dropped ar"
    and "ar_entropy (measure_file env s p rel ar) = max (ar_entropy ar) (file_entropy (ru_core env) d)"
    and "ar_reasons (measure_file env s p rel ar) \<noteq> [] \<longleftrightarrow>
      ar_reasons ar \<noteq> [] \<or> file_entropy (ru_core env) d \<ge> 7.6 \<and> length d \<ge> 512"
  using assms by (auto simp: measure_file_def Let_def max_def)

lemma measure_alarm:
  assumes "explained ar"
  shows "explained (measure_file env s p rel ar)
    \<and> (artifacts_alarm (measure_file env s p rel ar) \<longleftrightarrow> artifacts_alarm ar
        \<or> (\<exists>d. read_bytes (ru_os env) p s = Inr d \<and> round_to 2 (file_entropy (ru_core env) d) \<ge> 7.6))"
proof (cases "read_bytes (ru_os env) p s")
  case (Inr d)
  note f = measure_file_facts[OF Inr, of rel ar]
  have "explained (measure_file env s p rel ar)"
    using assms f(3) unfolding explained_def f(1,2) by (auto simp: le_max_iff_disj)
  then show ?thesis unfolding alarm_iff f(1,2) round_max using Inr by (auto simp: le_max_iff_disj)
qed (simp add: measure_file_def assms)

lemma examine_alarm:
  assumes "explained ar" "p \<noteq> bin"
  shows "explained (examine_artifact env s bin p ar)
    \<and> (artifacts_alarm (examine_artifact env s bin p ar) \<longleftrightarrow> artifacts_alarm ar \<or> file_alarms env s p)"
proof -
  obtain ar2 where e: "examine_artifact env s bin p ar =
      measure_file env s p (relative_name (ru_tempdir env) p) ar2"
    and x: "explained ar2" and al: "artifacts_alarm ar2 \<longleftrightarrow> artifacts_alarm ar
      \<or> lower (path_suffix (seps (ru_os env)) p) \<in> set dropped_exts"
    using assms by (auto simp: examine_artifact_def Let_def explained_def alarm_iff)
  show ?thesis
    using measure_alarm[OF x, of env s p "relative_name (ru_tempdir env) p"]
    unfolding e al file_alarms_def by blast
qed

lemma collect_alarm:
  "explained (collect_artifacts env s bin)
   \<and> (artifacts_alarm (collect_artifacts env s bin) \<longleftrightarrow>
       (\<exists>p \<in> set (workspace_files env s). p \<noteq> bin \<and> file_alarms env s p))"
proof -
  have "explained ar \<Longrightarrow>
      explained (foldl (\<lambda>ar p. examine_artifact env s bin p ar) ar ps)
      \<and> (artifacts_alarm (foldl (\<lambda>ar p. examine_artifact env s bin p ar) ar ps) \<longleftrightarrow>
          artifacts_alarm ar \<or> (\<exists>p \<in> set ps. p \<noteq> bin \<and> file_alarms env s p))" for ar ps
  proof (induction ps arbitrary: ar)
    case (Cons p ps)
    show ?case
    proof (cases "p = bin")
      case True
      then show ?thesis using Cons by (simp add: examine_artifact_def)
    next
      case False
      then show ?thesis using Cons.IH examine_alarm[OF Cons.prems False] by auto
    qed
  qed simp
  moreover have "explained no_artifacts" by (simp add: explained_def no_artifacts_def)
  moreover have "\<not> artifacts_alarm no_artifacts"
    using round_half_even_of_int[of 0] by (simp add: artifacts_alarm_def no_artifacts_def round_to_def)
  ultimately show ?thesis unfolding collect_artifacts_def by blast
qed

lemma alarming_reasons_nonempty:
  "explained ar \<Longrightarrow> \<exists>x \<in> set (ar_reasons ar). f x \<Longrightarrow> artifacts_alarm ar"
  using round_threshold by (auto simp: explained_def alarm_iff)

lemma detonation_report_malicious:
  assumes "explained ar"
  shows "report_malicious (detonation_report env rn target oc ar) \<longleftrightarrow> artifacts_alarm ar"
  using alarming_reasons_nonempty[OF assms, of "\<lambda>x. \<exists>w \<in> set alarming_words. contains (lower x) w"]
    round_threshold
  by (auto simp: report_malicious_def detonation_report_def alarm_iff split: if_splits)

lemma run_binary_report:
  assumes "run_binary env rn s p = (Inr r, s')"
  obtains target s2 oc where "resolve (ru_os env) p = Some target"
    and "copy2 (ru_os env) target (path_join (seps (ru_os env)) (ru_tempdir env)
           (path_name (seps (ru_os env)) target)) (s\<lparr>dirs := insert (ru_tempdir env) (dirs s)\<rparr>) = (True, s2)"
    and "r = detonation_report env rn target oc (collect_artifacts env (ru_effect env s2)
           (path_join (seps (ru_os env)) (ru_tempdir env) (path_name (seps (ru_os env)) target)))"
    and "s' = remove_tree env (ru_effect env s2)"
  using assms
  by (auto simp: run_binary_def Let_def split: option.splits if_splits prod.splits bool.splits sum.splits)

text \<open>A detonation is malicious exactly when the program left, beside its own copy, a file with an
  executable suffix or one whose contents have an entropy of 7.6 bits per byte after rounding, however small
  the file; then, and only then, is its risk 85, unless only rounding reaches the threshold.\<close>

lemma detonation_verdict:
  assumes "run_binary env rn s p = (Inr r, s')" "resolve (ru_os env) p = Some target"
    and "bin = path_join (seps (ru_os env)) (ru_tempdir env) (path_name (seps (ru_os env)) target)"
    and "copy2 (ru_os env) target bin (s\<lparr>dirs := insert (ru_tempdir env) (dirs s)\<rparr>) = (True, s2)"
  shows "(report_malicious r \<longleftrightarrow>
      (\<exists>f \<in> set (workspace_files env (ru_effect env s2)). f \<noteq> bin \<and> file_alarms env (ru_effect env s2) f))
    \<and> (rp_risk r = 85 \<or> rp_risk r = 0) \<and> (rp_risk r = 85 \<longrightarrow> report_malicious r)"
proof -
  obtain oc where r: "r = detonation_report env rn target oc (collect_artifacts env (ru_effect env s2) bin)"
    using assms by (elim run_binary_report) auto
  note c = collect_alarm[of env "ru_effect env s2" bin]
  have "rp_risk r = 85 \<or> rp_risk r = 0"
    using c unfolding r explained_def by (auto simp: detonation_report_def)
  moreover have "rp_risk r = 85 \<longrightarrow> report_malicious r" by (simp add: report_malicious_def)
  ultimately show ?thesis using detonation_report_malicious c unfolding r by blast
qed

section \<open>Nothing is left behind\<close>

lemma copy2_touches:
  assumes "copy2 os src dest s = (ok, s')" "resolve os dest = Some v"
  shows "dirs s' = dirs s \<and> (\<forall>q. q \<noteq> v \<longrightarrow> files s' q = files s q)"
  using assms
  by (auto simp: copy2_def write_bytes_def chmod_def put_file_def Let_def find_file_def
      split: option.splits sum.splits if_splits)

definition outside :: "run_env \<Rightarrow> string \<Rightarrow> bool" where
  "outside env q \<longleftrightarrow> \<not> below (seps (ru_os env)) (ru_tempdir env) q"

definition same_outside :: "run_env \<Rightarrow> fs \<Rightarrow> fs \<Rightarrow> bool" where
  "same_outside env s s' \<longleftrightarrow>
     (\<forall>q. outside env q \<longrightarrow> files s' q = files s q \<and> (q \<in> dirs s' \<longleftrightarrow> q \<in> dirs s))"

definition empty_inside :: "run_env \<Rightarrow> fs \<Rightarrow> bool" where
  "empty_inside env s \<longleftrightarrow> (\<forall>q. \<not> outside env q \<longrightarrow> files s q = None \<and> q \<notin> dirs s)"

lemma same_outside_trans:
  "same_outside env s s1 \<Longrightarrow> same_outside env s1 s2 \<Longrightarrow> same_outside env s s2"
  by (simp add: same_outside_def)

lemma remove_tree_restores:
  assumes "empty_inside env s" "same_outside env s s1" "\<forall>q. \<not> outside env q \<longrightarrow> ru_removable env q"
  shows "remove_tree env s1 = s"
proof -
  have "files (remove_tree env s1) = files s"
    using assms by (auto simp: remove_tree_def Let_def fun_eq_iff empty_inside_def same_outside_def outside_def)
  moreover have "dirs (remove_tree env s1) = dirs s"
    using assms by (auto simp: remove_tree_def Let_def empty_inside_def same_outside_def outside_def)
  ultimately show ?thesis by simp
qed

lemma run_binary_restores:
  assumes "empty_inside env s" "\<forall>q. \<not> outside env q \<longrightarrow> ru_removable env q"
    and "\<forall>x. same_outside env x (ru_effect env x)"
    and "\<forall>t. resolve (ru_os env) p = Some t \<longrightarrow>
           (\<exists>q. resolve (ru_os env) (path_join (seps (ru_os env)) (ru_tempdir env)
               (path_name (seps (ru_os env)) t)) = Some q \<and> \<not> outside env q)"
    and "run_binary env rn s p = (res, s')"
  shows "s' = s"
proof (cases "resolve (ru_os env) p")
  case (Some target)
  let ?s1 = "s\<lparr>dirs := insert (ru_tempdir env) (dirs s)\<rparr>"
  let ?bin = "path_join (seps (ru_os env)) (ru_tempdir env) (path_name (seps (ru_os env)) target)"
  obtain ok s2 where cp: "copy2 (ru_os env) target ?bin ?s1 = (ok, s2)" by fastforce
  obtain q where q: "resolve (ru_os env) ?bin = Some q" "\<not> outside env q" using assms(4) Some by blast
  have "same_outside env s ?s1" by (auto simp: same_outside_def outside_def below_def)
  moreover have "same_outside env ?s1 s2"
    using copy2_touches[OF cp q(1)] q(2) by (auto simp: same_outside_def)
  ultimately have s2: "same_outside env s s2" by (rule same_outside_trans)
  then have "same_outside env s (ru_effect env s2)" using assms(3) same_outside_trans by blast
  then have "remove_tree env (ru_effect env s2) = s" "remove_tree env s2 = s"
    using remove_tree_restores[OF assms(1) _ assms(2)] s2 by blast+
  then show ?thesis using assms(5) Some cp
    by (auto simp: run_binary_def Let_def split: if_splits bool.splits sum.splits)
qed (use assms(5) in \<open>simp add: run_binary_def\<close>)



section \<open>Witnesses\<close>

definition demo_report :: report where
  "demo_report =
     \<lparr>rp_target = ''/a'', rp_duration = 0, rp_exit = Some 0, rp_mode = ''emulation'', rp_created = [],
      rp_dropped = [], rp_entropy = 0, rp_reasons = [], rp_peak_mb = 0, rp_max_mb = 128, rp_cpu = 20,
      rp_timed_out = False, rp_pids = [], rp_objects = [], rp_findings = [], rp_instructions = 0,
      rp_api_calls = [], rp_evasion = [''x''], rp_yara = [], rp_rwx = 0, rp_risk = 80\<rparr>"

theorem sandbox_report_scored_witness:
  "\<exists>sc'. response_gate.feed scorer_add 5 (to_signals 5 ''/'' demo_report (Some 7)) default_scorer = Inr sc'
    \<and> should_respond (report_subject ''/'' demo_report (Some 7)) sc'"
proof -
  have i: "scorer_inv default_scorer" by (simp add: default_scorer_def scorer_inv_new)
  have e: "threshold default_scorer = 80"
    "recorded_signals default_scorer (report_subject ''/'' demo_report (Some 7)) = []"
    by (simp_all add: default_scorer_def new_scorer_def recorded_signals_def scorer_get_def)
  obtain sc' where f: "response_gate.feed scorer_add 5 (to_signals 5 ''/'' demo_report (Some 7))
      default_scorer = Inr sc'"
    using sg.feed_total[OF i] by blast
  show ?thesis using sandbox_report_scored[OF i e f] f by (auto simp: report_malicious_def demo_report_def)
qed

definition demo_drop :: "fs \<Rightarrow> fs" where
  \<comment> \<open>what the demonstration program does: it writes one file in its workspace\<close>
  "demo_drop s = put_file ''/w/b.js'' new_file s"

definition demo_run_env :: run_env where
  "demo_run_env =
     \<lparr>ru_emu = demo_emu_env, ru_core = None, ru_tempdir = ''/w'', ru_outcome = Exits 0,
      ru_effect = demo_drop, ru_walk = (\<lambda>s. [(''/w'', [''a'', ''b.js''])]), ru_removable = (\<lambda>p. True),
      ru_start = 0, ru_end = 1\<rparr>"

lemma demo_run_env_simps [simp]:
  "ru_os demo_run_env = e_os demo_emu_env" "seps (e_os demo_emu_env) = ''/''"
  "resolve (e_os demo_emu_env) = Some" "ru_tempdir demo_run_env = ''/w''"
  "ru_effect demo_run_env = demo_drop" "ru_outcome demo_run_env = Exits 0"
  "ru_walk demo_run_env = (\<lambda>s. [(''/w'', [''a'', ''b.js''])])" "ru_removable demo_run_env = (\<lambda>p. True)"
  by (simp_all add: demo_run_env_def ru_os_def demo_emu_env_def)

lemma demo_names [simp]:
  "path_name ''/'' ''/a'' = ''a''" "path_join ''/'' ''/w'' ''a'' = ''/w/a''"
  "path_join ''/'' ''/w'' ''b.js'' = ''/w/b.js''" "lower (path_suffix ''/'' ''/w/b.js'') = ''.js''"
  by code_simp+

lemma demo_copies:
  "\<exists>s2. copy2 (e_os demo_emu_env) ''/a'' ''/w/a'' (one_file ''/a'' [] \<lparr>dirs := {''/w''}\<rparr>) = (True, s2)"
  by (simp add: copy2_def file_defs one_file_def demo_emu_env_def new_file_def)

lemma detonation_verdict_witness:
  "\<exists>r s'. run_binary demo_run_env (new_runner 5 128 20) (one_file ''/a'' []) ''/a'' = (Inr r, s')
    \<and> report_malicious r"
proof -
  have d: "dirs (one_file ''/a'' []) = {}" by (simp add: one_file_def)
  obtain s2 where c: "copy2 (e_os demo_emu_env) ''/a'' ''/w/a'' (one_file ''/a'' [] \<lparr>dirs := {''/w''}\<rparr>)
      = (True, s2)"
    using demo_copies by blast
  have "\<exists>r s'. run_binary demo_run_env (new_runner 5 128 20) (one_file ''/a'' []) ''/a'' = (Inr r, s')"
    using c d by (simp add: run_binary_def run_isolated_def path_exists_def one_file_def Let_def)
  then obtain r s' where r: "run_binary demo_run_env (new_runner 5 128 20) (one_file ''/a'' []) ''/a''
      = (Inr r, s')"
    by blast
  have "report_malicious r"
    using detonation_verdict[OF r, of "''/a''" "''/w/a''" s2] c d
    by (simp add: workspace_files_def file_alarms_def dropped_exts_def)
  with r show ?thesis by blast
qed


end
