(* ===== verification/Scanner.thy ===== *)
theory Scanner
  imports MemoryScanner SandboxRunner
begin

text \<open>
  \<open>engine/scanner.py\<close>: the on-demand scanner. A file goes through YARA, VirusTotal, the name check, the PE
  checks with the model, and emulation; the first that answers decides. A scan walks its targets, may be
  paused, resumed and cancelled, and ends with a summary. What arrives from other threads is a list of
  requests per file; what \<open>os.walk\<close> lists below a directory is a tree. With more than one worker the
  files are handled concurrently, which is not modelled.
\<close>

section \<open>Constants and records\<close>

definition EXECUTABLE_EXTENSIONS :: "string list" where
  "EXECUTABLE_EXTENSIONS =
     [''.exe'', ''.dll'', ''.sys'', ''.scr'', ''.cpl'', ''.drv'', ''.ocx'', ''.bat'', ''.cmd'', ''.ps1'',
      ''.vbs'', ''.vbe'', ''.js'', ''.jse'', ''.wsf'', ''.wsh'', ''.hta'', ''.msi'', ''.msp'', ''.com'',
      ''.pif'']"

definition DECEPTIVE_DOC_EXTENSIONS :: "string list" where
  "DECEPTIVE_DOC_EXTENSIONS =
     [''.pdf'', ''.doc'', ''.docx'', ''.xls'', ''.xlsx'', ''.ppt'', ''.pptx'', ''.txt'', ''.rtf'', ''.jpg'',
      ''.jpeg'', ''.png'', ''.gif'', ''.bmp'', ''.mp3'', ''.mp4'', ''.wav'', ''.avi'', ''.zip'', ''.rar'',
      ''.7z'', ''.tar'', ''.gz'', ''.iso'', ''.dat'', ''.bin'']"

definition SYSTEM_IGNORE_FOLDERS :: "string list" where
  "SYSTEM_IGNORE_FOLDERS =
     [''$recycle.bin'', ''system volume information'', ''$windows.~bt'', ''$windows.~ws'', ''$winreagent'',
      ''recovery'']"

definition SYSTEM_IGNORE_FILES :: "string list" where
  "SYSTEM_IGNORE_FILES = [''pagefile.sys'', ''swapfile.sys'', ''hiberfil.sys'', ''dumpstack.log.tmp'']"

definition SENTINEL_SELF_BINARIES :: "string list" where
  "SENTINEL_SELF_BINARIES =
     [''sentinel_service.exe'', ''sentinel_gui.exe'', ''sentinel_tray.exe'', ''sentinel_cli.exe'']"

datatype scan_type = QUICK | FULL | CUSTOM

datatype scan_status = IDLE | SCANNING | PAUSED | COMPLETED | CANCELLED | ERROR

datatype severity = LOW | MEDIUM | HIGH | CRITICAL

record detection =
  dt_path :: string
  dt_sha :: string
  dt_name :: string
  dt_score :: real
  dt_severity :: severity
  dt_engine :: string
  dt_desc :: string
  dt_time :: real
  dt_quarantined :: bool
  dt_qid :: "string option"
  dt_memory :: bool
  dt_pid :: int

record progress =
  pr_files :: nat
  pr_threats :: nat
  pr_current :: string
  pr_start :: real
  pr_elapsed :: real
  pr_bytes :: nat
  pr_estimate :: nat

record summary =
  su_type :: scan_type
  su_status :: scan_status
  su_files :: nat
  su_found :: nat
  su_threats :: "detection list"
  su_start :: real
  su_end :: real
  su_duration :: real
  su_error :: "string option"

record scanner =
  sn_classifier :: classifier
  sn_store :: "qstore option"
  sn_auto :: bool
  sn_readonly :: bool
  sn_dynamic :: bool
  sn_runner :: runner
  sn_pids :: pid_cache
  sn_status :: scan_status
  sn_cancel :: bool
  sn_go :: bool
  sn_last :: "summary option"

definition new_scanner :: "classifier \<Rightarrow> qstore option \<Rightarrow> bool \<Rightarrow> bool option \<Rightarrow> bool \<Rightarrow> scanner" where
  "new_scanner c q auto ro dyn =
     \<lparr>sn_classifier = c, sn_store = q, sn_auto = auto,
      sn_readonly = (case ro of None \<Rightarrow> \<not> auto | Some b \<Rightarrow> b), sn_dynamic = dyn,
      sn_runner = new_runner 5 128 20, sn_pids = [], sn_status = IDLE, sn_cancel = False, sn_go = True,
      sn_last = None\<rparr>"

section \<open>Control\<close>

datatype request = Cancel | Pause | Resume

fun control :: "request \<Rightarrow> scanner \<Rightarrow> scanner" where
  "control Cancel sc = sc\<lparr>sn_cancel := True, sn_go := True\<rparr>"
| "control Pause sc =
     (if sn_status sc = SCANNING then sc\<lparr>sn_status := PAUSED, sn_go := False\<rparr> else sc)"
| "control Resume sc =
     (if sn_status sc = PAUSED then sc\<lparr>sn_status := SCANNING, sn_go := True\<rparr> else sc)"

fun await :: "request list \<Rightarrow> scanner \<Rightarrow> scanner option" where
  \<comment> \<open>\<open>_pause_event.wait()\<close> while these requests arrive; \<open>None\<close> when none of them wakes the thread\<close>
  "await [] sc = (if sn_go sc then Some sc else None)"
| "await (r # rs) sc = (if sn_go sc then Some sc else await rs (control r sc))"

section \<open>One file\<close>

datatype dtree = Dir (dt_files: "string list") (dt_subdirs: "(string \<times> dtree) list")

record scan_env =
  sc_static :: static_env
  sc_learn :: learn_env
  sc_depth :: nat
  sc_run :: run_env
  sc_vault :: qenv
  sc_new_id :: string
  sc_win_dir :: "string option"
  sc_time :: real
  sc_tree :: "string \<Rightarrow> dtree option"

definition sc_os :: "scan_env \<Rightarrow> os" where
  "sc_os env = se_os (sc_static env)"

definition sc_seps :: "scan_env \<Rightarrow> char list" where
  "sc_seps env = seps (sc_os env)"

definition mk_detection ::
  "scan_env \<Rightarrow> string \<Rightarrow> string \<Rightarrow> string \<Rightarrow> real \<Rightarrow> severity \<Rightarrow> string \<Rightarrow> string \<Rightarrow> detection" where
  "mk_detection env p sha name sc sev eng desc =
     \<lparr>dt_path = p, dt_sha = sha, dt_name = name, dt_score = sc, dt_severity = sev, dt_engine = eng,
      dt_desc = desc, dt_time = sc_time env, dt_quarantined = False, dt_qid = None, dt_memory = False,
      dt_pid = 0\<rparr>"

definition quoted :: "string \<Rightarrow> string" where
  "quoted s = [CHR 0x27] @ s @ [CHR 0x27]"

definition yara_stage :: "scan_env \<Rightarrow> string \<Rightarrow> string \<Rightarrow> bytes \<Rightarrow> classifier \<Rightarrow> detection option" where
  "yara_stage env p sha d c =
     (case yara_scan (cl_yara c) d of
        [] \<Rightarrow> None
      | rule # others \<Rightarrow>
          Some (mk_detection env p sha (''YARA:'' @ rule) 90
            (if contains (lower rule) ''eicar'' \<or> contains (lower rule) ''ransom'' then CRITICAL else HIGH)
            ''yara_scanner'' (''Matched YARA signature: '' @ quoted rule)))"

definition vt_stage ::
  "scan_env \<Rightarrow> string \<Rightarrow> string \<Rightarrow> classifier \<Rightarrow> (detection option py_result \<times> classifier) option" where
  "vt_stage env p sha c =
     (case cl_vt c of
        None \<Rightarrow> Some (Inr None, c)
      | Some v \<Rightarrow>
          (case lookup (se_vt (sc_static env)) sha v of
             None \<Rightarrow> None
           | Some (Inl e, v') \<Rightarrow> Some (Inl e, c\<lparr>cl_vt := Some v'\<rparr>)
           | Some (Inr x, v') \<Rightarrow>
               Some (Inr (case x of
                            None \<Rightarrow> None
                          | Some h \<Rightarrow>
                              if hv_verdict h = ''malicious''
                              then Some (mk_detection env p sha ''VirusTotal:Malicious'' 85 HIGH ''virustotal''
                                     (''VirusTotal flagged '' @ show_opt_int (hv_positives h) @ ''/''
                                      @ show_opt_int (hv_total h) @ '' detections''))
                              else None),
                     c\<lparr>cl_vt := Some v'\<rparr>)))"

definition double_stage :: "scan_env \<Rightarrow> string \<Rightarrow> string \<Rightarrow> detection option" where
  "double_stage env p sha =
     (let name = path_name (sc_seps env) p in
      if double_extension EXECUTABLE_EXTENSIONS DECEPTIVE_DOC_EXTENSIONS name
      then Some (mk_detection env p sha ''Heuristic:PE.DoubleExtension'' 80 HIGH ''pe_classifier''
             (''Deceptive double extension spoofing detected: '' @ quoted name))
      else None)"

definition is_relative_to :: "scan_env \<Rightarrow> string \<Rightarrow> string \<Rightarrow> bool" where
  \<comment> \<open>of resolved paths; Windows compares without case\<close>
  "is_relative_to env a b =
     (let parts = (\<lambda>x. map (if on_windows (se_trust (sc_static env)) then lower else id)
                         (path_parts (sc_seps env) x))
      in prefix (parts b) (parts a))"

definition is_system_binary :: "scan_env \<Rightarrow> string \<Rightarrow> bool" where
  "is_system_binary env p =
     (case (resolve (sc_os env) p, sc_win_dir env) of
        (Some q, Some w) \<Rightarrow>
          is_relative_to env q (path_join (sc_seps env) w ''System32'')
          \<or> is_relative_to env q (path_join (sc_seps env) w ''SysWOW64'')
          \<or> is_relative_to env q (path_join (sc_seps env) w ''WinSxS'')
      | _ \<Rightarrow> False)"

definition is_self_binary :: "scan_env \<Rightarrow> string \<Rightarrow> bool" where
  "is_self_binary env p \<longleftrightarrow> lower (path_name (sc_seps env) p) \<in> set SENTINEL_SELF_BINARIES"

definition trusted_signed ::
  "scan_env \<Rightarrow> fs \<Rightarrow> string \<Rightarrow> pe_features \<Rightarrow> verdict_cache \<Rightarrow> bool \<times> verdict_cache" where
  "trusted_signed env s p f cache =
     (if f_signature f
      then case verify_pe_signature (se_trust (sc_static env)) s p cache of
             (Inl e, cache') \<Rightarrow> (True, cache')
           | (Inr v, cache') \<Rightarrow> (is_valid v \<and> is_trusted v, cache')
      else (False, cache))"

definition ml_stage ::
  "scan_env \<Rightarrow> fs \<Rightarrow> string \<Rightarrow> string \<Rightarrow> bytes \<Rightarrow> pe_features \<Rightarrow> classifier
    \<Rightarrow> detection option py_result \<times> classifier" where
  "ml_stage env s p sha d f c =
     (case trusted_signed env s p f (cl_sigs c) of
        (True, cache) \<Rightarrow> (Inr None, c\<lparr>cl_sigs := cache\<rparr>)
      | (False, cache) \<Rightarrow>
          (let m = ensure_fitted (sc_learn env) (cl_model c); c1 = c\<lparr>cl_sigs := cache, cl_model := m\<rparr>
           in case predict_malware_probability (sc_depth env) m f (Some d) of
                None \<Rightarrow> (Inl RuntimeError, c1)
              | Some q \<Rightarrow>
                  (Inr (if q \<ge> 0.85
                        then Some (mk_detection env p sha ''ML:PE.MalwareInference'' (min 95 (70 + q * 25)) HIGH
                               ''ember2024_ml'' (''EMBER2024 ML model classified as malware ('' @
                                 fmt_fixed 1 (q * 100) @ ''% confidence)''))
                        else None), c1)))"

definition anomaly_stage ::
  "scan_env \<Rightarrow> fs \<Rightarrow> string \<Rightarrow> string \<Rightarrow> bytes \<Rightarrow> pe_features \<Rightarrow> classifier
    \<Rightarrow> detection option py_result \<times> classifier" where
  "anomaly_stage env s p sha d f c =
     (let spared = (is_system_binary env p \<or> is_self_binary env p) in
      if f_suspicious f > 0 \<and> \<not> f_signature f \<and> \<not> spared
      then (Inr (Some (mk_detection env p sha ''Heuristic:PE.SuspiciousPacker'' 75 HIGH ''pe_classifier''
              (''Unsigned PE binary contains '' @ show_int (f_suspicious f)
               @ '' suspicious/packer section(s)''))), c)
      else if f_max_entropy f > 7.85 \<and> \<not> f_signature f \<and> \<not> spared
      then (Inr (Some (mk_detection env p sha ''Heuristic:PE.HighEntropySection'' 70 MEDIUM ''pe_classifier''
              (''Unsigned PE section with extreme entropy ('' @ fmt_fixed 2 (f_max_entropy f)
               @ '' bits/byte)''))), c)
      else if spared then (Inr None, c)
      else ml_stage env s p sha d f c)"

definition pe_stage ::
  "scan_env \<Rightarrow> fs \<Rightarrow> string \<Rightarrow> string \<Rightarrow> bytes \<Rightarrow> classifier \<Rightarrow> detection option py_result \<times> classifier" where
  "pe_stage env s p sha d c =
     (let ext = lower (path_suffix (sc_seps env) p); st = sc_static env in
      if \<not> (ext \<in> set EXECUTABLE_EXTENSIONS \<or> startswith d ''MZ'') then (Inr None, c)
      else if startswith d ''MZ''
              \<and> (case fast_pe_triage (se_native st) d of None \<Rightarrow> False | Some t \<Rightarrow> \<not> t_is_pe t)
      then (Inr None, c)
      else case extract_pe_features st s p (Some d) (cl_sigs c) of
             (None, cache) \<Rightarrow> (Inr None, c\<lparr>cl_sigs := cache\<rparr>)
           | (Some f, cache) \<Rightarrow>
               if ext \<in> set DECEPTIVE_DOC_EXTENSIONS
               then (Inr (Some (mk_detection env p sha ''Heuristic:PE.MasqueradingExtension'' 85 HIGH
                       ''pe_classifier''
                       (''Executable PE binary disguised with non-executable extension: '' @ quoted ext))),
                     c\<lparr>cl_sigs := cache\<rparr>)
               else anomaly_stage env s p sha d f (c\<lparr>cl_sigs := cache\<rparr>))"

definition sandbox_stage ::
  "scan_env \<Rightarrow> runner \<Rightarrow> fs \<Rightarrow> string \<Rightarrow> string \<Rightarrow> bytes \<Rightarrow> detection option" where
  "sandbox_stage env rn s p sha d =
     (if is_self_binary env p
         \<or> \<not> (lower (path_suffix (sc_seps env) p) \<in> set EXECUTABLE_EXTENSIONS
              \<or> startswith d ''MZ'' \<or> startswith d (CHR 0x7F # ''ELF''))
      then None
      else case emulate_binary (sc_run env) rn s p (Some d) of
             Inl e \<Rightarrow> None
           | Inr r \<Rightarrow>
               if report_malicious r
               then Some (mk_detection env p sha
                      (''Sandbox:'' @ (case rp_yara r of [] \<Rightarrow> ''DynamicMalware'' | y # ys \<Rightarrow> y))
                      (if rp_risk r = 0 then 85 else rp_risk r)
                      (if rp_yara r \<noteq> [] then CRITICAL else HIGH) ''dynamic_sandbox''
                      (''Dynamic emulation identified threat: '' @ join ''; '' (take 2 (rp_reasons r))))
               else if report_suspicious r \<and> rp_risk r \<ge> 35
               then Some (mk_detection env p sha ''Sandbox:SuspiciousBehavior'' (rp_risk r) MEDIUM
                      ''dynamic_sandbox''
                      (''Dynamic emulation flagged suspicious activity: ''
                       @ join ''; '' (take 2 (rp_reasons r))))
               else None)"

definition judge ::
  "scan_env \<Rightarrow> runner \<Rightarrow> bool \<Rightarrow> fs \<Rightarrow> string \<Rightarrow> string \<Rightarrow> bytes \<Rightarrow> classifier
    \<Rightarrow> (detection option py_result \<times> classifier) option" where
  \<comment> \<open>the checks in their order; the first detection decides\<close>
  "judge env rn dyn s p sha d c =
     (case yara_stage env p sha d c of
        Some t \<Rightarrow> Some (Inr (Some t), c)
      | None \<Rightarrow>
          (case vt_stage env p sha c of
             None \<Rightarrow> None
           | Some (Inl e, c1) \<Rightarrow> Some (Inl e, c1)
           | Some (Inr (Some t), c1) \<Rightarrow> Some (Inr (Some t), c1)
           | Some (Inr None, c1) \<Rightarrow>
               (case double_stage env p sha of
                  Some t \<Rightarrow> Some (Inr (Some t), c1)
                | None \<Rightarrow>
                    (case pe_stage env s p sha d c1 of
                       (Inl e, c2) \<Rightarrow> Some (Inl e, c2)
                     | (Inr (Some t), c2) \<Rightarrow> Some (Inr (Some t), c2)
                     | (Inr None, c2) \<Rightarrow>
                         Some (Inr (if dyn then sandbox_stage env rn s p sha d else None), c2)))))"

definition quarantine_stage :: "scan_env \<Rightarrow> detection \<Rightarrow> scanner \<times> fs \<Rightarrow> detection \<times> scanner \<times> fs" where
  "quarantine_stage env t st =
     (case st of (sc, s) \<Rightarrow>
        if dt_memory t \<or> sn_readonly sc \<or> \<not> sn_auto sc then (t, sc, s)
        else case sn_store sc of
               None \<Rightarrow> (t, sc, s)
             | Some q \<Rightarrow>
                 (case add (sc_vault env) (sc_new_id env) (dt_path t) (''file:'' @ take 16 (dt_sha t))
                         (''Scanner: '' @ dt_name t @ '' ('' @ dt_desc t @ '')'') (dt_score t) [] (q, s) of
                    (r, q', s') \<Rightarrow>
                      ((case r of
                          Inr (Some rec) \<Rightarrow> t\<lparr>dt_quarantined := True, dt_qid := Some (q_id rec)\<rparr>
                        | _ \<Rightarrow> t),
                       sc\<lparr>sn_store := Some q'\<rparr>, s')))"

definition scan_file ::
  "scan_env \<Rightarrow> string \<Rightarrow> scanner \<times> fs \<Rightarrow> (detection option py_result \<times> scanner \<times> fs) option" where
  "scan_file env path st =
     (case st of (sc, s) \<Rightarrow>
        case resolve (sc_os env) path of
          None \<Rightarrow> Some (Inl OSError, sc, s)
        | Some p \<Rightarrow>
            if \<not> is_file (sc_os env) p s \<or> lower (path_name (sc_seps env) p) \<in> set SYSTEM_IGNORE_FILES
            then Some (Inr None, sc, s)
            else case read_and_hash (sc_static env) s p of
                   None \<Rightarrow> Some (Inr None, sc, s)
                 | Some (sha, d) \<Rightarrow>
                     (case judge env (sn_runner sc) (sn_dynamic sc) s p sha d (sn_classifier sc) of
                        None \<Rightarrow> None
                      | Some (r, c) \<Rightarrow>
                          let sc1 = sc\<lparr>sn_classifier := c\<rparr> in
                          (case r of
                             Inr (Some t) \<Rightarrow>
                               (case quarantine_stage env t (sc1, s) of
                                  (t', sc2, s') \<Rightarrow> Some (Inr (Some t'), sc2, s'))
                           | _ \<Rightarrow> Some (r, sc1, s))))"

section \<open>Traversal\<close>

definition keep_dir :: "string \<Rightarrow> bool" where
  "keep_dir n \<longleftrightarrow> lower n \<notin> set SYSTEM_IGNORE_FOLDERS \<and> \<not> startswith n ''.''"

definition keep_file :: "char list \<Rightarrow> bool \<Rightarrow> string \<Rightarrow> string \<Rightarrow> bool" where
  "keep_file sp quick base n \<longleftrightarrow>
     lower n \<notin> set SYSTEM_IGNORE_FILES
     \<and> (quick \<longrightarrow> lower (path_suffix sp (path_join sp base n)) \<in> set EXECUTABLE_EXTENSIONS)"

fun walk_dir :: "char list \<Rightarrow> bool \<Rightarrow> string \<Rightarrow> dtree \<Rightarrow> string list" where
  "walk_dir sp quick base (Dir fns subs) =
     map (path_join sp base) (filter (keep_file sp quick base) fns)
     @ concat (map (\<lambda>(n, t). if keep_dir n then walk_dir sp quick (path_join sp base n) t else []) subs)"

definition target_files :: "scan_env \<Rightarrow> bool \<Rightarrow> string \<Rightarrow> fs \<Rightarrow> string list" where
  \<comment> \<open>what \<open>_collect_files\<close> yields for one target\<close>
  "target_files env quick path s =
     (case resolve (sc_os env) path of
        None \<Rightarrow> []
      | Some p \<Rightarrow>
          if is_file (sc_os env) p s then [p]
          else case sc_tree env p of None \<Rightarrow> [] | Some t \<Rightarrow> walk_dir (sc_seps env) quick p t)"

subsection \<open>Presets\<close>

record place_env =
  pl_seps :: "char list"
  pl_home :: string
  pl_vars :: "string \<Rightarrow> string option"
  pl_is_dir :: "string \<Rightarrow> bool"
  pl_is_file :: "string \<Rightarrow> bool"
  pl_exists :: "string \<Rightarrow> bool"
  pl_exes :: "string option list"
  pl_mounts :: "(string \<times> string \<times> string) list option"

definition startup_rel :: string where
  "startup_rel = join [CHR 0x5C] [''Microsoft'', ''Windows'', ''Start Menu'', ''Programs'', ''Startup'']"

definition var_dir :: "place_env \<Rightarrow> string \<Rightarrow> string option \<Rightarrow> string list" where
  \<comment> \<open>the directory a variable names, or one below it, when it is there\<close>
  "var_dir pl v rel =
     (case pl_vars pl v of
        None \<Rightarrow> []
      | Some d \<Rightarrow>
          let p = (case rel of None \<Rightarrow> d | Some r \<Rightarrow> path_join (pl_seps pl) d r)
          in if d \<noteq> [] \<and> pl_is_dir pl p then [p] else [])"

fun process_targets :: "place_env \<Rightarrow> string list \<Rightarrow> string option list \<Rightarrow> string list" where
  "process_targets pl seen [] = []"
| "process_targets pl seen (x # xs) =
     (case x of
        None \<Rightarrow> process_targets pl seen xs
      | Some e \<Rightarrow>
          if e = [] \<or> e \<in> set seen then process_targets pl seen xs
          else (if pl_is_file pl e then [e] else []) @ process_targets pl (e # seen) xs)"

definition get_quick_scan_targets :: "place_env \<Rightarrow> string list" where
  "get_quick_scan_targets pl =
     filter (pl_is_dir pl) (map (path_join (pl_seps pl) (pl_home pl)) [''Downloads'', ''Desktop''])
     @ var_dir pl ''TEMP'' None @ var_dir pl ''TMP'' None
     @ var_dir pl ''LOCALAPPDATA'' (Some ''Temp'')
     @ var_dir pl ''APPDATA'' (Some startup_rel) @ var_dir pl ''PROGRAMDATA'' (Some startup_rel)
     @ process_targets pl [] (pl_exes pl)"

definition default_drive :: string where
  "default_drive = ''C:'' @ [CHR 0x5C]"

definition get_full_scan_targets :: "place_env \<Rightarrow> string list" where
  "get_full_scan_targets pl =
     (let found = (case pl_mounts pl of
                     None \<Rightarrow> [default_drive]
                   | Some ps \<Rightarrow>
                       map (\<lambda>(opts, fstype, mount). mount)
                         (filter (\<lambda>(opts, fstype, mount).
                            (contains (lower opts) ''fixed'' \<or> fstype \<noteq> []) \<and> pl_exists pl mount) ps))
      in if found = [] then [default_drive] else found)"

section \<open>A scan\<close>

record scan_run =
  sr_next :: nat
  sr_scanner :: scanner
  sr_fs :: fs
  sr_progress :: progress
  sr_threats :: "detection list"

record scan_call =
  sx_env :: "nat \<Rightarrow> scan_env"
  sx_before :: "nat \<Rightarrow> request list"
  sx_waiting :: "nat \<Rightarrow> request list"
  sx_mem :: mem_env
  sx_names :: "string list"
  sx_procs :: "(int option \<times> string option) list"
  sx_progress_error :: "string option"
  sx_threat_raises :: "detection \<Rightarrow> bool"
  sx_mem_time :: "mem_threat \<Rightarrow> real"
  sx_start :: real
  sx_end :: real
  sx_late :: "request list"

definition memory_detection :: "real \<Rightarrow> mem_threat \<Rightarrow> detection" where
  "memory_detection now mt =
     \<lparr>dt_path = ''[Memory: '' @ th_process mt @ '' (PID '' @ show_int (th_pid mt) @ '')]'', dt_sha = [],
      dt_name = ''Memory.'' @ th_type mt, dt_score = 90,
      dt_severity = (if th_type mt = ''reflective_pe'' then CRITICAL else HIGH),
      dt_engine = ''memory_scanner'', dt_desc = th_desc mt, dt_time = now, dt_quarantined = False,
      dt_qid = None, dt_memory = True, dt_pid = th_pid mt\<rparr>"

fun until_raise :: "('a \<Rightarrow> bool) \<Rightarrow> 'a list \<Rightarrow> 'a list" where
  \<comment> \<open>the elements a loop has handled when its callback raises, the one it raises at included\<close>
  "until_raise f [] = []"
| "until_raise f (x # xs) = x # (if f x then [] else until_raise f xs)"

definition add_threats :: "detection list \<Rightarrow> scan_run \<Rightarrow> scan_run" where
  "add_threats ts r =
     r\<lparr>sr_threats := sr_threats r @ ts,
       sr_progress := (sr_progress r)\<lparr>pr_threats := pr_threats (sr_progress r) + length ts\<rparr>\<rparr>"

definition memory_stage :: "scan_call \<Rightarrow> scan_run \<Rightarrow> scan_run option" where
  "memory_stage cx r =
     (case scan_all_processes (sx_mem cx) (sx_names cx) (sx_procs cx) (sn_pids (sr_scanner r)) of
        None \<Rightarrow> None
      | Some (mts, cache) \<Rightarrow>
          Some (add_threats
            (until_raise (sx_threat_raises cx)
              (map (\<lambda>mt. memory_detection (sx_mem_time cx mt) mt)
                (filter (\<lambda>mt. th_type mt \<in> {''reflective_pe'', ''shellcode_signature''}) mts)))
            (r\<lparr>sr_scanner := (sr_scanner r)\<lparr>sn_pids := cache\<rparr>\<rparr>)))"

definition scan_one :: "scan_call \<Rightarrow> scan_env \<Rightarrow> string \<Rightarrow> scan_run \<Rightarrow> scan_run option" where
  "scan_one cx env p r =
     (let pr = sr_progress r;
          nbytes = (case find_file (sc_os env) p (sr_fs r) of None \<Rightarrow> 0 | Some (c, f) \<Rightarrow> length (content f));
          pr1 = pr\<lparr>pr_current := p, pr_files := pr_files pr + 1, pr_elapsed := sc_time env - sx_start cx,
                   pr_bytes := pr_bytes pr + nbytes\<rparr>
      in case scan_file env p (sr_scanner r, sr_fs r) of
           None \<Rightarrow> None
         | Some (d, sc, s) \<Rightarrow>
             Some (add_threats (case d of Inr (Some t) \<Rightarrow> [t] | _ \<Rightarrow> [])
               (r\<lparr>sr_next := sr_next r + 1, sr_scanner := sc, sr_fs := s, sr_progress := pr1\<rparr>)))"

fun scan_files :: "scan_call \<Rightarrow> string list \<Rightarrow> scan_run \<Rightarrow> (bool \<times> scan_run) option" where
  \<comment> \<open>whether it was cancelled; \<open>None\<close> when it stays paused for ever\<close>
  "scan_files cx [] r = Some (False, r)"
| "scan_files cx (p # ps) r =
     (let sc1 = foldl (\<lambda>sc q. control q sc) (sr_scanner r) (sx_before cx (sr_next r))
      in if sn_cancel sc1 then Some (True, r\<lparr>sr_scanner := sc1\<rparr>)
         else case await (sx_waiting cx (sr_next r)) sc1 of
                None \<Rightarrow> None
              | Some sc2 \<Rightarrow>
                  if sn_cancel sc2 then Some (True, r\<lparr>sr_scanner := sc2\<rparr>)
                  else case scan_one cx (sx_env cx (sr_next r)) p (r\<lparr>sr_scanner := sc2\<rparr>) of
                         None \<Rightarrow> None
                       | Some r' \<Rightarrow> scan_files cx ps r')"

fun scan_targets :: "scan_call \<Rightarrow> bool \<Rightarrow> string list \<Rightarrow> scan_run \<Rightarrow> scan_run option" where
  "scan_targets cx quick [] r = Some r"
| "scan_targets cx quick (x # xs) r =
     (if sn_cancel (sr_scanner r) then Some r
      else case scan_files cx (target_files (sx_env cx (sr_next r)) quick x (sr_fs r)) r of
             None \<Rightarrow> None
           | Some (True, r') \<Rightarrow> Some r'
           | Some (False, r') \<Rightarrow> scan_targets cx quick xs r')"

definition begin_scan :: "real \<Rightarrow> scanner \<Rightarrow> fs \<Rightarrow> scan_run py_result" where
  "begin_scan now sc s =
     (if sn_status sc = SCANNING then Inl RuntimeError
      else Inr \<lparr>sr_next = 0, sr_scanner = sc\<lparr>sn_status := SCANNING, sn_cancel := False, sn_go := True\<rparr>,
                sr_fs = s,
                sr_progress = \<lparr>pr_files = 0, pr_threats = 0, pr_current = [], pr_start = now,
                               pr_elapsed = 0, pr_bytes = 0, pr_estimate = 0\<rparr>,
                sr_threats = []\<rparr>)"

definition run_scan ::
  "scan_call \<Rightarrow> scan_type \<Rightarrow> string list \<Rightarrow> scan_run \<Rightarrow> (string option \<times> scan_run) option" where
  \<comment> \<open>with the message of the exception that ends it early\<close>
  "run_scan cx ty targets r =
     (case (ty = QUICK, sx_progress_error cx) of
        (True, Some e) \<Rightarrow> Some (Some e, r)
      | (True, None) \<Rightarrow>
          (case memory_stage cx r of
             None \<Rightarrow> None
           | Some r1 \<Rightarrow> map_option (Pair None) (scan_targets cx True targets r1))
      | (False, e) \<Rightarrow> map_option (Pair None) (scan_targets cx False targets r))"

definition end_scan :: "scan_call \<Rightarrow> scan_type \<Rightarrow> string option \<Rightarrow> scan_run \<Rightarrow> summary \<times> scanner \<times> fs" where
  "end_scan cx ty err r =
     (let sc1 = foldl (\<lambda>sc q. control q sc) (sr_scanner r) (sx_late cx);
          st = (if sn_cancel sc1 then CANCELLED else if err \<noteq> None then ERROR else COMPLETED);
          sm = \<lparr>su_type = ty, su_status = st, su_files = pr_files (sr_progress r),
                su_found = length (sr_threats r), su_threats = sr_threats r, su_start = sx_start cx,
                su_end = sx_end cx, su_duration = sx_end cx - sx_start cx, su_error = err\<rparr>
      in (sm, sc1\<lparr>sn_status := st, sn_last := Some sm\<rparr>, sr_fs r))"

definition execute_scan ::
  "scan_call \<Rightarrow> string list \<Rightarrow> scan_type \<Rightarrow> scanner \<times> fs
    \<Rightarrow> (summary py_result \<times> scanner \<times> fs) option" where
  "execute_scan cx targets ty st =
     (case st of (sc, s) \<Rightarrow>
        case begin_scan (sx_start cx) sc s of
          Inl e \<Rightarrow> Some (Inl e, sc, s)
        | Inr r \<Rightarrow>
            (case run_scan cx ty targets r of
               None \<Rightarrow> None
             | Some (err, r1) \<Rightarrow>
                 (case end_scan cx ty err r1 of (sm, sc', s') \<Rightarrow> Some (Inr sm, sc', s'))))"

definition start_quick_scan ::
  "scan_call \<Rightarrow> place_env \<Rightarrow> scanner \<times> fs \<Rightarrow> (summary py_result \<times> scanner \<times> fs) option" where
  "start_quick_scan cx pl st = execute_scan cx (get_quick_scan_targets pl) QUICK st"

definition start_full_scan ::
  "scan_call \<Rightarrow> place_env \<Rightarrow> scanner \<times> fs \<Rightarrow> (summary py_result \<times> scanner \<times> fs) option" where
  "start_full_scan cx pl st = execute_scan cx (get_full_scan_targets pl) FULL st"

definition start_custom_scan ::
  "scan_call \<Rightarrow> string list \<Rightarrow> scanner \<times> fs \<Rightarrow> (summary py_result \<times> scanner \<times> fs) option" where
  "start_custom_scan cx targets st = execute_scan cx targets CUSTOM st"

section \<open>Lemmas on the walk\<close>

inductive holds_file :: "dtree \<Rightarrow> string list \<Rightarrow> string \<Rightarrow> bool" where
  hf_here: "n \<in> set fns \<Longrightarrow> holds_file (Dir fns subs) [] n"
| hf_sub: "(d, t) \<in> set subs \<Longrightarrow> holds_file t ds n \<Longrightarrow> holds_file (Dir fns subs) (d # ds) n"

inductive_simps holds_file_Nil: "holds_file (Dir fns subs) [] n"
inductive_simps holds_file_Cons: "holds_file (Dir fns subs) (d # ds) n"

lemma holds_file_Dir:
  "holds_file (Dir fns subs) ds n \<longleftrightarrow>
     (case ds of [] \<Rightarrow> n \<in> set fns | d # ds' \<Rightarrow> \<exists>t. (d, t) \<in> set subs \<and> holds_file t ds' n)"
  by (cases ds) (simp_all add: holds_file_Nil holds_file_Cons)

definition collected :: "char list \<Rightarrow> bool \<Rightarrow> string \<Rightarrow> dtree \<Rightarrow> string \<Rightarrow> bool" where
  \<comment> \<open>a file below the directory on a path without hidden or ignored directories\<close>
  "collected sp quick base t f \<longleftrightarrow>
     (\<exists>ds n. holds_file t ds n \<and> list_all keep_dir ds
        \<and> keep_file sp quick (foldl (path_join sp) base ds) n
        \<and> f = path_join sp (foldl (path_join sp) base ds) n)"

lemma collected_Dir:
  "collected sp quick base (Dir fns subs) f \<longleftrightarrow>
     (\<exists>n \<in> set fns. keep_file sp quick base n \<and> f = path_join sp base n)
     \<or> (\<exists>(d, t) \<in> set subs. keep_dir d \<and> collected sp quick (path_join sp base d) t f)"
proof
  assume "collected sp quick base (Dir fns subs) f"
  then obtain ds n where h: "holds_file (Dir fns subs) ds n" "list_all keep_dir ds"
    "keep_file sp quick (foldl (path_join sp) base ds) n"
    "f = path_join sp (foldl (path_join sp) base ds) n"
    unfolding collected_def by blast
  show "(\<exists>n \<in> set fns. keep_file sp quick base n \<and> f = path_join sp base n)
     \<or> (\<exists>(d, t) \<in> set subs. keep_dir d \<and> collected sp quick (path_join sp base d) t f)"
  proof (cases ds)
    case (Cons d es)
    with h(1) obtain t where "(d, t) \<in> set subs" "holds_file t es n" by (auto simp: holds_file_Cons)
    with h(2-4) Cons show ?thesis unfolding collected_def by (auto intro!: bexI[of _ "(d, t)"])
  qed (use h in \<open>auto simp: holds_file_Nil\<close>)
next
  assume "(\<exists>n \<in> set fns. keep_file sp quick base n \<and> f = path_join sp base n)
     \<or> (\<exists>(d, t) \<in> set subs. keep_dir d \<and> collected sp quick (path_join sp base d) t f)"
  then show "collected sp quick base (Dir fns subs) f"
  proof
    assume "\<exists>n \<in> set fns. keep_file sp quick base n \<and> f = path_join sp base n"
    then show ?thesis unfolding collected_def
      by (intro exI[of _ "[] :: string list"]) (auto simp: holds_file_Nil)
  next
    assume "\<exists>(d, t) \<in> set subs. keep_dir d \<and> collected sp quick (path_join sp base d) t f"
    then obtain d t ds n where x: "(d, t) \<in> set subs" "keep_dir d" "holds_file t ds n" "list_all keep_dir ds"
      "keep_file sp quick (foldl (path_join sp) (path_join sp base d) ds) n"
      "f = path_join sp (foldl (path_join sp) (path_join sp base d) ds) n"
      unfolding collected_def by auto
    then show ?thesis unfolding collected_def
      by (intro exI[of _ "d # ds"] exI[of _ n]) (auto simp: holds_file_Cons)
  qed
qed

text \<open>A walk yields exactly the files on a path below the target without hidden or ignored
  directories, except the system's own files and, in a quick scan, files without an executable suffix.\<close>

lemma walk_collects_exactly: "f \<in> set (walk_dir sp quick base t) \<longleftrightarrow> collected sp quick base t f"
proof (induction t arbitrary: base)
  case (Dir fns subs)
  have "f \<in> set (walk_dir sp quick (path_join sp base d) t) \<longleftrightarrow> collected sp quick (path_join sp base d) t f"
    if "(d, t) \<in> set subs" for d t
    using Dir.IH[OF that] by auto
  then show ?case by (fastforce simp: collected_Dir)
qed

section \<open>Lemmas on one file\<close>

lemma judge_stages:
  assumes "judge env rn dyn s p sha d c = Some (Inr (Some t), c')"
  shows "yara_stage env p sha d c = Some t \<or> (\<exists>c1 c2. vt_stage env p sha c1 = Some (Inr (Some t), c2))
    \<or> double_stage env p sha = Some t \<or> (\<exists>c1. pe_stage env s p sha d c1 = (Inr (Some t), c'))
    \<or> sandbox_stage env rn s p sha d = Some t"
  using assms
  by (auto simp: judge_def split: option.splits prod.splits sum.splits if_splits)

definition plain_detection :: "string \<Rightarrow> string \<Rightarrow> detection \<Rightarrow> bool" where
  "plain_detection p sha t \<longleftrightarrow> dt_path t = p \<and> dt_sha t = sha \<and> \<not> dt_quarantined t \<and> dt_qid t = None
     \<and> \<not> dt_memory t \<and> dt_pid t = 0"

lemma mk_detection_simps [simp]:
  "plain_detection p sha (mk_detection env p sha n sc sev eng desc)"
  "dt_name (mk_detection env p sha n sc sev eng desc) = n"
  "dt_score (mk_detection env p sha n sc sev eng desc) = sc"
  "dt_severity (mk_detection env p sha n sc sev eng desc) = sev"
  "dt_engine (mk_detection env p sha n sc sev eng desc) = eng"
  by (simp_all add: mk_detection_def plain_detection_def)

definition file_finding :: "detection \<Rightarrow> bool" where
  \<comment> \<open>which engine gives which name, score and severity\<close>
  "file_finding t \<longleftrightarrow>
     (dt_engine t = ''yara_scanner'' \<and> startswith (dt_name t) ''YARA:'' \<and> dt_score t = 90
       \<and> dt_severity t \<in> {HIGH, CRITICAL})
     \<or> (dt_engine t = ''virustotal'' \<and> dt_name t = ''VirusTotal:Malicious'' \<and> dt_score t = 85
       \<and> dt_severity t = HIGH)
     \<or> (dt_engine t = ''pe_classifier'' \<and> (dt_name t, dt_score t, dt_severity t) \<in>
          {(''Heuristic:PE.DoubleExtension'', 80, HIGH), (''Heuristic:PE.MasqueradingExtension'', 85, HIGH),
           (''Heuristic:PE.SuspiciousPacker'', 75, HIGH), (''Heuristic:PE.HighEntropySection'', 70, MEDIUM)})
     \<or> (dt_engine t = ''ember2024_ml'' \<and> dt_name t = ''ML:PE.MalwareInference'' \<and> 91.25 \<le> dt_score t
       \<and> dt_score t \<le> 95 \<and> dt_severity t = HIGH)
     \<or> (dt_engine t = ''dynamic_sandbox'' \<and>
         (dt_name t = ''Sandbox:DynamicMalware'' \<and> 0 < dt_score t \<and> dt_severity t = HIGH
          \<or> dt_name t = ''Sandbox:SuspiciousBehavior'' \<and> 35 \<le> dt_score t \<and> dt_severity t = MEDIUM)
       \<and> dt_score t \<le> 100)"

lemma finding_yara:
  "sev \<in> {HIGH, CRITICAL} \<Longrightarrow>
   file_finding (mk_detection env p sha (''YARA:'' @ n) 90 sev ''yara_scanner'' desc)"
  unfolding file_finding_def by (rule disjI1) (simp add: startswith_def)

lemma finding_vt [simp]:
  "file_finding (mk_detection env p sha ''VirusTotal:Malicious'' 85 HIGH ''virustotal'' desc)"
  by (simp add: file_finding_def)

lemma finding_pe:
  "(n, sc, sev) \<in> {(''Heuristic:PE.DoubleExtension'', 80, HIGH), (''Heuristic:PE.MasqueradingExtension'', 85, HIGH),
      (''Heuristic:PE.SuspiciousPacker'', 75, HIGH), (''Heuristic:PE.HighEntropySection'', 70, MEDIUM)} \<Longrightarrow>
   file_finding (mk_detection env p sha n sc sev ''pe_classifier'' desc)"
  by (simp add: file_finding_def)

lemma finding_ml:
  "0.85 \<le> q \<Longrightarrow>
   file_finding (mk_detection env p sha ''ML:PE.MalwareInference'' (min 95 (70 + q * 25)) HIGH ''ember2024_ml'' desc)"
  by (simp add: file_finding_def)

lemma finding_sandbox:
  "n = ''Sandbox:DynamicMalware'' \<and> 0 < sc \<and> sev = HIGH \<or> n = ''Sandbox:SuspiciousBehavior'' \<and> 35 \<le> sc \<and> sev = MEDIUM
   \<Longrightarrow> sc \<le> 100 \<Longrightarrow> file_finding (mk_detection env p sha n sc sev ''dynamic_sandbox'' desc)"
  by (simp add: file_finding_def)

lemma yara_finding: "yara_stage env p sha d c = Some t \<Longrightarrow> plain_detection p sha t \<and> file_finding t"
  by (auto simp: yara_stage_def intro: finding_yara[simplified] split: list.splits)

lemma vt_finding:
  "vt_stage env p sha c = Some (Inr (Some t), c') \<Longrightarrow> plain_detection p sha t \<and> file_finding t"
  by (auto simp: vt_stage_def split: option.splits sum.splits if_splits)

lemma double_finding: "double_stage env p sha = Some t \<Longrightarrow> plain_detection p sha t \<and> file_finding t"
  by (auto simp: double_stage_def finding_pe Let_def split: if_splits)

lemma ml_finding:
  assumes "ml_stage env s p sha d f c = (Inr (Some t), c')"
  shows "plain_detection p sha t \<and> file_finding t"
proof -
  obtain q desc where "0.85 \<le> q" "t = mk_detection env p sha ''ML:PE.MalwareInference'' (min 95 (70 + q * 25)) HIGH
      ''ember2024_ml'' desc"
    using assms by (auto simp: ml_stage_def Let_def split: option.splits if_splits prod.splits bool.splits)
  then show ?thesis by (simp add: finding_ml)
qed

lemma anomaly_cases:
  assumes "anomaly_stage env s p sha d f c = (Inr (Some t), c')"
  shows "\<not> is_system_binary env p \<and> \<not> is_self_binary env p
    \<and> ((\<exists>desc. t = mk_detection env p sha ''Heuristic:PE.SuspiciousPacker'' 75 HIGH ''pe_classifier'' desc)
      \<or> (\<exists>desc. t = mk_detection env p sha ''Heuristic:PE.HighEntropySection'' 70 MEDIUM ''pe_classifier'' desc)
      \<or> ml_stage env s p sha d f c = (Inr (Some t), c'))"
  using assms by (simp add: anomaly_stage_def Let_def split: if_splits) blast+

lemma anomaly_finding:
  "anomaly_stage env s p sha d f c = (Inr (Some t), c') \<Longrightarrow>
    plain_detection p sha t \<and> file_finding t \<and> \<not> is_system_binary env p \<and> \<not> is_self_binary env p"
  by (drule anomaly_cases) (auto simp: finding_pe dest: ml_finding)

lemma pe_cases:
  assumes "pe_stage env s p sha d c = (Inr (Some t), c')"
  shows "(\<exists>desc. t = mk_detection env p sha ''Heuristic:PE.MasqueradingExtension'' 85 HIGH ''pe_classifier'' desc)
      \<and> lower (path_suffix (sc_seps env) p) \<in> set DECEPTIVE_DOC_EXTENSIONS
    \<or> (\<exists>f c1. anomaly_stage env s p sha d f c1 = (Inr (Some t), c'))"
  using assms by (simp add: pe_stage_def Let_def split: if_splits option.splits prod.splits) blast+

lemma pe_finding:
  assumes "pe_stage env s p sha d c = (Inr (Some t), c')"
  shows "plain_detection p sha t \<and> file_finding t
    \<and> (\<not> is_system_binary env p \<and> \<not> is_self_binary env p
       \<or> dt_name t = ''Heuristic:PE.MasqueradingExtension'' \<and> dt_engine t = ''pe_classifier''
          \<and> lower (path_suffix (sc_seps env) p) \<in> set DECEPTIVE_DOC_EXTENSIONS)"
  using pe_cases[OF assms] by (auto simp: finding_pe dest: anomaly_finding)

lemma emulated_report:
  assumes "emulate_binary env rn s p raw = Inr r"
  shows "rp_yara r = [] \<and> 0 \<le> rp_risk r \<and> rp_risk r \<le> 100"
  using assms emulate_good
  by (auto simp: emulate_binary_def emulation_report_def bind_res_Inr_iff result_good_def
      split: option.splits)

lemma sandbox_finding:
  assumes "sandbox_stage env rn s p sha d = Some t"
  shows "plain_detection p sha t \<and> file_finding t \<and> \<not> is_self_binary env p
    \<and> dt_engine t = ''dynamic_sandbox''"
proof -
  obtain r where r: "emulate_binary (sc_run env) rn s p (Some d) = Inr r"
    using assms by (auto simp: sandbox_stage_def split: if_splits sum.splits)
  note e = emulated_report[OF r]
  obtain n x sev desc where t: "t = mk_detection env p sha n x sev ''dynamic_sandbox'' desc"
    "n = ''Sandbox:DynamicMalware'' \<and> x = (if rp_risk r = 0 then 85 else rp_risk r) \<and> sev = HIGH
     \<or> n = ''Sandbox:SuspiciousBehavior'' \<and> x = rp_risk r \<and> 35 \<le> rp_risk r \<and> sev = MEDIUM"
    using assms e by (simp add: sandbox_stage_def r split: if_splits) blast+
  have "\<not> is_self_binary env p" using assms by (simp add: sandbox_stage_def split: if_splits)
  moreover have "file_finding t"
    unfolding t(1) using t(2) e by (intro finding_sandbox) (auto split: if_splits)
  ultimately show ?thesis by (simp add: t(1))
qed

lemma judge_finding:
  assumes "judge env rn dyn s p sha d c = Some (Inr (Some t), c')"
  shows "plain_detection p sha t \<and> file_finding t"
  using judge_stages[OF assms]
  by (elim disjE exE) (auto dest: yara_finding vt_finding double_finding pe_finding sandbox_finding)

lemma quarantine_stage_frame:
  assumes "quarantine_stage env t (sc, s) = (t', sc', s')"
  shows "t' = t\<lparr>dt_quarantined := dt_quarantined t', dt_qid := dt_qid t'\<rparr>"
    and "(dt_quarantined t \<longleftrightarrow> dt_qid t \<noteq> None) \<Longrightarrow> (dt_quarantined t' \<longleftrightarrow> dt_qid t' \<noteq> None)"
    and "sc' = sc\<lparr>sn_store := sn_store sc'\<rparr>"
    and "sn_readonly sc \<Longrightarrow> t' = t \<and> sc' = sc \<and> s' = s"
  using assms
  by (auto simp: quarantine_stage_def split: if_splits option.splits prod.splits sum.splits)

lemma quarantine_stage_fields:
  "quarantine_stage env t (sc, s) = (t', sc', s') \<Longrightarrow>
   dt_path t' = dt_path t \<and> dt_engine t' = dt_engine t \<and> dt_name t' = dt_name t"
  by (auto simp: quarantine_stage_def split: if_splits option.splits prod.splits sum.splits)

lemma quarantine_stage_added:
  assumes "quarantine_stage env t (sc, s) = (t', sc', s')" "dt_quarantined t'" "\<not> dt_quarantined t"
    and "sn_store sc = Some q"
  shows "\<exists>rec q'. sn_store sc' = Some q' \<and> dt_qid t' = Some (q_id rec)
    \<and> add (sc_vault env) (sc_new_id env) (dt_path t) (''file:'' @ take 16 (dt_sha t))
        (''Scanner: '' @ dt_name t @ '' ('' @ dt_desc t @ '')'') (dt_score t) [] (q, s)
      = (Inr (Some rec), q', s')"
  using assms
  by (auto simp: quarantine_stage_def split: if_splits option.splits prod.splits sum.splits)

lemma scan_file_cases:
  assumes "scan_file env path (sc, s) = Some (r, sc', s')"
  obtains (unread) "r = Inl OSError \<or> r = Inr None" "sc' = sc" "s' = s"
  | (undetected) c where "sc' = sc\<lparr>sn_classifier := c\<rparr>" "s' = s" "\<forall>t. r \<noteq> Inr (Some t)"
  | (detected) p sha d c t t' where "resolve (sc_os env) path = Some p"
      "read_and_hash (sc_static env) s p = Some (sha, d)"
      "judge env (sn_runner sc) (sn_dynamic sc) s p sha d (sn_classifier sc) = Some (Inr (Some t), c)"
      "quarantine_stage env t (sc\<lparr>sn_classifier := c\<rparr>, s) = (t', sc', s')" "r = Inr (Some t')"
proof (cases "resolve (sc_os env) path")
  case None
  then show thesis using assms unread by (simp add: scan_file_def)
next
  case (Some p)
  show thesis
  proof (cases "\<not> is_file (sc_os env) p s \<or> lower (path_name (sc_seps env) p) \<in> set SYSTEM_IGNORE_FILES
      \<or> read_and_hash (sc_static env) s p = None")
    case True
    then show thesis using assms Some unread by (auto simp: scan_file_def split: if_splits)
  next
    case False
    then obtain sha d where rd: "read_and_hash (sc_static env) s p = Some (sha, d)" by auto
    obtain x c where j: "judge env (sn_runner sc) (sn_dynamic sc) s p sha d (sn_classifier sc) = Some (x, c)"
      using assms Some False rd by (auto simp: scan_file_def split: option.splits)
    obtain t' sc2 s2 where "\<forall>t. x = Inr (Some t) \<longrightarrow>
        quarantine_stage env t (sc\<lparr>sn_classifier := c\<rparr>, s) = (t', sc2, s2)"
      by (cases "\<exists>t. x = Inr (Some t)") (auto, metis prod.exhaust)
    then show thesis
      using assms Some False rd j undetected[of c] detected[OF Some rd, of _ c t']
      by (auto simp: scan_file_def Let_def split: sum.splits option.splits)
  qed
qed

section \<open>Properties of one file\<close>

text \<open>C22: a detection names the resolved file and its digest, and comes in one of nine shapes of engine,
  name, score and severity; scores lie between 0 and 100, only YARA is ever critical, and the
  detection has a quarantine id exactly when it is marked as quarantined.\<close>

theorem detections_well_formed:
  assumes "scan_file env path (sc, s) = Some (Inr (Some t), sc', s')"
  shows "file_finding t \<and> \<not> dt_memory t \<and> (dt_quarantined t \<longleftrightarrow> dt_qid t \<noteq> None)
    \<and> resolve (sc_os env) path = Some (dt_path t)
    \<and> (\<exists>d. read_and_hash (sc_static env) s (dt_path t) = Some (dt_sha t, d))"
  using assms
proof (cases rule: scan_file_cases)
  case (detected p sha d c t0 t')
  have f: "plain_detection p sha t0" "file_finding t0" using judge_finding[OF detected(3)] by auto
  obtain b i where t: "t = t0\<lparr>dt_quarantined := b, dt_qid := i\<rparr>" "b \<longleftrightarrow> i \<noteq> None"
    using quarantine_stage_frame(1,2)[OF detected(4)] detected(5) f(1) that by (simp add: plain_detection_def)
  have "file_finding t" using f(2) unfolding t(1) file_finding_def by simp
  then show ?thesis using detected(1,2) f(1) t by (simp add: plain_detection_def)
qed simp_all

lemma path_suffix_suffix: "suffix (path_suffix sp p) (path_name sp p)"
proof (cases "CHR ''.'' \<in> set (path_name sp p)")
  case True
  let ?n = "path_name sp p"
  have "rev ?n = takeWhile (\<lambda>c. c \<noteq> CHR ''.'') (rev ?n) @ dropWhile (\<lambda>c. c \<noteq> CHR ''.'') (rev ?n)" by simp
  moreover have "dropWhile (\<lambda>c. c \<noteq> CHR ''.'') (rev ?n) \<noteq> []" using True by (auto simp: dropWhile_eq_Nil_conv)
  then obtain z where "dropWhile (\<lambda>c. c \<noteq> CHR ''.'') (rev ?n) = CHR ''.'' # z"
    using hd_dropWhile[of "\<lambda>c. c \<noteq> CHR ''.''" "rev ?n"] by (cases "dropWhile (\<lambda>c. c \<noteq> CHR ''.'') (rev ?n)") auto
  ultimately have "rev ?n = takeWhile (\<lambda>c. c \<noteq> CHR ''.'') (rev ?n) @ CHR ''.'' # z" by metis
  then have "?n = rev z @ CHR ''.'' # rev (takeWhile (\<lambda>c. c \<noteq> CHR ''.'') (rev ?n))"
    by (metis append.assoc append_Cons append_Nil rev.simps(2) rev_append rev_rev_ident)
  then show ?thesis unfolding path_suffix_def Let_def suffix_def by auto
qed (simp add: path_suffix_def Let_def)

lemma self_names:
  "list_all (\<lambda>n. length (split_on (\<lambda>c. c = CHR ''.'') n) < 3) SENTINEL_SELF_BINARIES"
  "list_all (\<lambda>n. list_all (\<lambda>e. \<not> prefix (rev e) (rev n)) DECEPTIVE_DOC_EXTENSIONS) SENTINEL_SELF_BINARIES"
  by code_simp+

lemma self_binary_name:
  assumes "is_self_binary env p"
  shows "double_stage env p sha = None" "lower (path_suffix (sc_seps env) p) \<notin> set DECEPTIVE_DOC_EXTENSIONS"
proof -
  let ?n = "lower (path_name (sc_seps env) p)"
  have n: "?n \<in> set SENTINEL_SELF_BINARIES" using assms by (simp add: is_self_binary_def)
  have "length (split_on (\<lambda>c. c = CHR ''.'') ?n) < 3" using self_names(1) n by (simp only: list_all_iff)
  then show "double_stage env p sha = None" by (simp add: double_stage_def double_extension_def Let_def)
  have "suffix (lower (path_suffix (sc_seps env) p)) ?n"
    using path_suffix_suffix[of "sc_seps env" p] by (auto simp: suffix_def lower_def)
  then have "prefix (rev (lower (path_suffix (sc_seps env) p))) (rev ?n)" by (simp add: suffix_to_prefix)
  then show "lower (path_suffix (sc_seps env) p) \<notin> set DECEPTIVE_DOC_EXTENSIONS"
    using self_names(2) n unfolding list_all_iff by blast
qed

lemma vt_engine: "vt_stage env p sha c = Some (Inr (Some t), c') \<Longrightarrow> dt_engine t = ''virustotal''"
  by (auto simp: vt_stage_def split: option.splits sum.splits if_splits)

lemma yara_engine: "yara_stage env p sha d c = Some t \<Longrightarrow> dt_engine t = ''yara_scanner''"
  by (auto simp: yara_stage_def split: list.splits)

lemma double_engine:
  "double_stage env p sha = Some t \<Longrightarrow> dt_engine t = ''pe_classifier'' \<and> dt_name t = ''Heuristic:PE.DoubleExtension''"
  by (auto simp: double_stage_def Let_def split: if_splits)

lemma judge_spares:
  assumes "judge env rn dyn s p sha d c = Some (Inr (Some t), c')"
  shows "(is_system_binary env p \<longrightarrow> dt_engine t \<noteq> ''ember2024_ml''
      \<and> dt_name t \<notin> {''Heuristic:PE.SuspiciousPacker'', ''Heuristic:PE.HighEntropySection''})
    \<and> (is_self_binary env p \<longrightarrow> dt_engine t \<in> {''yara_scanner'', ''virustotal''})"
proof -
  have "file_finding t" using judge_finding[OF assms] by blast
  then have n: "dt_engine t \<noteq> ''pe_classifier'' \<Longrightarrow>
      dt_name t \<notin> {''Heuristic:PE.SuspiciousPacker'', ''Heuristic:PE.HighEntropySection''}"
    unfolding file_finding_def by (elim disjE conjE) (auto simp: startswith_def)
  from judge_stages[OF assms] show ?thesis
  proof (elim disjE exE)
    fix c1 assume "pe_stage env s p sha d c1 = (Inr (Some t), c')"
    from pe_finding[OF this] self_binary_name(2)[of env p] show ?thesis by auto
  next
    assume d: "double_stage env p sha = Some t"
    then have "\<not> is_self_binary env p" using self_binary_name(1)[of env p sha] by auto
    then show ?thesis using double_engine[OF d] by simp
  qed (use n in \<open>auto dest: vt_engine yara_engine sandbox_finding\<close>)
qed

text \<open>C23: a file in one of Windows' system directories is never detected by the packer check, the
  entropy check or the model, and one of the product's own programs by nothing but YARA and VirusTotal.\<close>

theorem protected_binaries_spared:
  assumes "scan_file env path (sc, s) = Some (Inr (Some t), sc', s')"
  shows "(is_system_binary env (dt_path t) \<longrightarrow> dt_engine t \<noteq> ''ember2024_ml''
      \<and> dt_name t \<notin> {''Heuristic:PE.SuspiciousPacker'', ''Heuristic:PE.HighEntropySection''})
    \<and> (is_self_binary env (dt_path t) \<longrightarrow> dt_engine t \<in> {''yara_scanner'', ''virustotal''})"
  using assms
proof (cases rule: scan_file_cases)
  case (detected p sha d c t0 t')
  have "dt_path t0 = p" using judge_finding[OF detected(3)] by (simp add: plain_detection_def)
  then have "dt_path t = p \<and> dt_engine t = dt_engine t0 \<and> dt_name t = dt_name t0"
    using quarantine_stage_fields[OF detected(4)] detected(5) by simp
  then show ?thesis using judge_spares[OF detected(3)] by simp
qed simp_all

text \<open>C24: a detection marked as quarantined is backed by the vault: the store has one new pending record with
  its id and digest, the bytes of the file are at the vault path and nowhere at the original place, and no
  other file has changed.\<close>

theorem quarantined_detection_recorded:
  assumes "scan_file env path (sc, s) = Some (Inr (Some t), sc', s')" "dt_quarantined t"
    and "sn_store sc = Some q" "sane R sha_of (sc_vault env)" "q_os (sc_vault env) = sc_os env"
    and "R (vault_path (sc_vault env) (sc_new_id env) (dt_path t) q) = Some v" "v \<noteq> dt_path t"
    and "\<not> is_link (sc_os env) (dt_path t)"
    and "\<not> is_link (sc_os env) (vault_path (sc_vault env) (sc_new_id env) (dt_path t) q)"
  shows "\<exists>q' rec d. sn_store sc' = Some q' \<and> rows q' = rows q @ [rec] \<and> dt_qid t = Some (q_id rec)
    \<and> q_id rec = sc_new_id env \<and> q_original rec = dt_path t \<and> q_decision rec = pending_text
    \<and> bytes_at s (dt_path t) = Some d \<and> q_sha rec = sha_of d
    \<and> bytes_at s' = (bytes_at s)(v \<mapsto> d, dt_path t := None)"
  using assms(1)
proof (cases rule: scan_file_cases)
  case (detected p sha d c t0 t')
  have p: "dt_path t = p" "\<not> dt_quarantined t0" "dt_path t0 = p"
    using judge_finding[OF detected(3)] quarantine_stage_fields[OF detected(4)] detected(5)
    by (auto simp: plain_detection_def)
  obtain rec q' where a: "sn_store sc' = Some q'" "dt_qid t = Some (q_id rec)"
    "add (sc_vault env) (sc_new_id env) (dt_path t0) (''file:'' @ take 16 (dt_sha t0))
        (''Scanner: '' @ dt_name t0 @ '' ('' @ dt_desc t0 @ '')'') (dt_score t0) [] (q, s)
      = (Inr (Some rec), q', s')"
    using quarantine_stage_added[OF detected(4) _ p(2)] assms(2,3) detected(5) by auto
  have "R (dt_path t0) = Some (dt_path t0)"
    using detected(1) assms(4,5) p by (auto simp: sane_def)
  from add_cases[OF a(3) assms(4) this] assms(5-9) p show ?thesis
    using a(1,2) by (fastforce elim: add_cases)
qed simp_all

section \<open>Lemmas on scans\<close>

lemma control_simps [simp]:
  "sn_store (control q sc) = sn_store sc" "sn_readonly (control q sc) = sn_readonly sc"
  "q \<noteq> Cancel \<Longrightarrow> sn_cancel (control q sc) = sn_cancel sc"
  "sn_cancel sc \<Longrightarrow> sn_cancel (control q sc)"
  by (cases q; simp)+

lemma controls_simps [simp]:
  "sn_store (foldl (\<lambda>sc q. control q sc) sc qs) = sn_store sc"
  "sn_readonly (foldl (\<lambda>sc q. control q sc) sc qs) = sn_readonly sc"
  by (induction qs arbitrary: sc) simp_all

lemma await_simps:
  "await qs sc = Some sc' \<Longrightarrow> sn_store sc' = sn_store sc \<and> sn_readonly sc' = sn_readonly sc"
  by (induction qs arbitrary: sc) (fastforce split: if_splits)+

lemma add_threats_simps [simp]:
  "sr_next (add_threats ts r) = sr_next r" "sr_scanner (add_threats ts r) = sr_scanner r"
  "sr_fs (add_threats ts r) = sr_fs r" "sr_threats (add_threats ts r) = sr_threats r @ ts"
  "pr_files (sr_progress (add_threats ts r)) = pr_files (sr_progress r)"
  by (simp_all add: add_threats_def)

definition harmless :: "scanner \<Rightarrow> fs \<Rightarrow> scan_run \<Rightarrow> bool" where
  \<comment> \<open>nothing was changed since the scan of a scanner in read-only mode began\<close>
  "harmless sc0 s0 r \<longleftrightarrow> sr_fs r = s0 \<and> sn_store (sr_scanner r) = sn_store sc0 \<and> sn_readonly (sr_scanner r)
     \<and> list_all (\<lambda>t. \<not> dt_quarantined t) (sr_threats r)"

lemma harmless_scanner:
  "harmless sc0 s0 r \<Longrightarrow> sn_store sc = sn_store (sr_scanner r) \<Longrightarrow> sn_readonly sc = sn_readonly (sr_scanner r) \<Longrightarrow>
   harmless sc0 s0 (r\<lparr>sr_scanner := sc\<rparr>)"
  by (simp add: harmless_def)

lemma scan_file_readonly:
  assumes "scan_file env p (sc, s) = Some (r, sc', s')" "sn_readonly sc"
  shows "s' = s \<and> sn_store sc' = sn_store sc \<and> sn_readonly sc' \<and> (\<forall>t. r = Inr (Some t) \<longrightarrow> \<not> dt_quarantined t)"
  using assms(1)
proof (cases rule: scan_file_cases)
  case (detected p' sha d c t t')
  have "sn_readonly (sc\<lparr>sn_classifier := c\<rparr>)" using assms(2) by simp
  from quarantine_stage_frame(4)[OF detected(4) this] show ?thesis
    using detected(5) judge_finding[OF detected(3)] assms(2) by (auto simp: plain_detection_def)
qed (use assms(2) in auto)

lemma scan_one_harmless:
  assumes "scan_one cx env p r = Some r'" "harmless sc0 s0 r"
  shows "harmless sc0 s0 r'"
proof -
  obtain d sc s where f: "scan_file env p (sr_scanner r, sr_fs r) = Some (d, sc, s)"
    using assms(1) by (auto simp: scan_one_def Let_def split: option.splits)
  then show ?thesis
    using assms scan_file_readonly[OF f]
    by (auto simp: scan_one_def Let_def harmless_def add_threats_def split: option.splits sum.splits)
qed

lemma scan_files_harmless:
  "scan_files cx ps r = Some (b, r') \<Longrightarrow> harmless sc0 s0 r \<Longrightarrow> harmless sc0 s0 r'"
proof (induction ps arbitrary: r)
  case (Cons p ps)
  let ?sc1 = "foldl (\<lambda>sc q. control q sc) (sr_scanner r) (sx_before cx (sr_next r))"
  have h1: "harmless sc0 s0 (r\<lparr>sr_scanner := ?sc1\<rparr>)"
    using Cons.prems(2) by (rule harmless_scanner) simp_all
  show ?case
  proof (cases "sn_cancel ?sc1")
    case False
    then obtain sc2 where a: "await (sx_waiting cx (sr_next r)) ?sc1 = Some sc2"
      using Cons.prems(1) by (auto simp: Let_def split: option.splits)
    have h2: "harmless sc0 s0 (r\<lparr>sr_scanner := sc2\<rparr>)"
      using Cons.prems(2) await_simps[OF a] by (intro harmless_scanner) simp_all
    show ?thesis using Cons.prems(1) False a h2 Cons.IH scan_one_harmless[OF _ h2]
      by (auto simp: Let_def split: option.splits if_splits)
  qed (use Cons.prems(1) h1 in \<open>simp add: Let_def\<close>)
qed simp

lemma scan_targets_harmless:
  "scan_targets cx quick xs r = Some r' \<Longrightarrow> harmless sc0 s0 r \<Longrightarrow> harmless sc0 s0 r'"
  by (induction xs arbitrary: r) (auto split: if_splits option.splits prod.splits bool.splits dest: scan_files_harmless)

lemma until_raise_mem: "x \<in> set (until_raise f xs) \<Longrightarrow> x \<in> set xs"
  by (induction xs) (auto split: if_splits)

lemma memory_stage_harmless:
  assumes "memory_stage cx r = Some r'" "harmless sc0 s0 r"
  shows "harmless sc0 s0 r'"
  using assms
  by (auto simp: memory_stage_def harmless_def list_all_iff memory_detection_def dest!: until_raise_mem
      split: option.splits prod.splits)

lemma run_scan_harmless:
  assumes "run_scan cx ty targets r = Some (err, r')" "harmless sc0 s0 r"
  shows "harmless sc0 s0 r'"
  using assms scan_targets_harmless memory_stage_harmless
  by (fastforce simp: run_scan_def split: option.splits bool.splits prod.splits)

text \<open>C25: in read-only mode, the default, a scan of any kind changes neither a file nor the vault, whatever it
  finds and however it is controlled, and none of its detections is marked as quarantined.\<close>

theorem read_only_scan_harmless:
  assumes "execute_scan cx targets ty (sc, s) = Some (r, sc', s')" "sn_readonly sc"
  shows "s' = s \<and> sn_store sc' = sn_store sc
    \<and> (case r of Inr sm \<Rightarrow> list_all (\<lambda>t. \<not> dt_quarantined t) (su_threats sm) | Inl e \<Rightarrow> True)"
proof (cases "begin_scan (sx_start cx) sc s")
  case (Inl e)
  then show ?thesis using assms by (auto simp: execute_scan_def)
next
  case (Inr r0)
  then have "harmless sc s r0" using assms(2) by (auto simp: begin_scan_def harmless_def split: if_splits)
  moreover obtain err r1 where r1: "run_scan cx ty targets r0 = Some (err, r1)"
    using assms(1) Inr by (auto simp: execute_scan_def split: option.splits)
  ultimately have "harmless sc s r1" using run_scan_harmless by blast
  then show ?thesis using assms(1) Inr r1
    by (auto simp: execute_scan_def end_scan_def Let_def harmless_def)
qed

subsection \<open>Pausing\<close>

definition forget :: "scanner \<Rightarrow> scanner" where
  \<comment> \<open>up to what pausing and resuming change\<close>
  "forget sc = sc\<lparr>sn_status := SCANNING, sn_go := True\<rparr>"

definition undisturbed :: "scan_call \<Rightarrow> scan_call" where
  "undisturbed cx =
     cx\<lparr>sx_before := (\<lambda>i. []), sx_waiting := (\<lambda>i. []), sx_late := []\<rparr>"

lemma forget_simps [simp]:
  "sn_classifier (forget sc) = sn_classifier sc" "sn_store (forget sc) = sn_store sc"
  "sn_auto (forget sc) = sn_auto sc" "sn_readonly (forget sc) = sn_readonly sc"
  "sn_dynamic (forget sc) = sn_dynamic sc" "sn_runner (forget sc) = sn_runner sc"
  "sn_pids (forget sc) = sn_pids sc" "sn_cancel (forget sc) = sn_cancel sc"
  "sn_go (forget sc)" "sn_status (forget sc) = SCANNING" "forget (forget sc) = forget sc"
  "forget (sc\<lparr>sn_classifier := c\<rparr>) = (forget sc)\<lparr>sn_classifier := c\<rparr>"
  "forget (sc\<lparr>sn_store := q\<rparr>) = (forget sc)\<lparr>sn_store := q\<rparr>"
  by (simp_all add: forget_def)

lemma forget_control [simp]: "q \<noteq> Cancel \<Longrightarrow> forget (control q sc) = forget sc"
  by (cases q) (simp_all add: forget_def)

lemma forget_controls: "Cancel \<notin> set qs \<Longrightarrow> forget (foldl (\<lambda>sc q. control q sc) sc qs) = forget sc"
  by (induction qs arbitrary: sc) (simp_all add: forget_control[OF not_sym])

lemma forget_await: "Cancel \<notin> set qs \<Longrightarrow> await qs sc = Some sc' \<Longrightarrow> forget sc' = forget sc"
  by (induction qs arbitrary: sc) (fastforce split: if_splits)+

lemma forget_cancel: "forget sc = forget sc' \<Longrightarrow> sn_cancel sc = sn_cancel sc'"
  by (metis forget_simps(8))

lemma forget_end:
  "forget sc = forget sc' \<Longrightarrow>
   forget (sc\<lparr>sn_status := st, sn_last := x\<rparr>) = forget (sc'\<lparr>sn_status := st', sn_last := x\<rparr>)"
  by (cases sc; cases sc') (simp add: forget_def)

lemma quarantine_stage_forget:
  "quarantine_stage env t (forget sc, s) =
     (case quarantine_stage env t (sc, s) of (t', sc', s') \<Rightarrow> (t', forget sc', s'))"
  by (auto simp: quarantine_stage_def split: option.splits prod.splits)

lemma scan_file_forget:
  "scan_file env p (forget sc, s) =
     map_option (\<lambda>(r, sc', s'). (r, forget sc', s')) (scan_file env p (sc, s))"
proof -
  have "quarantine_stage env t ((forget sc)\<lparr>sn_classifier := c\<rparr>, s) =
      (case quarantine_stage env t (sc\<lparr>sn_classifier := c\<rparr>, s) of (t', sc', s') \<Rightarrow> (t', forget sc', s'))" for t c
    using quarantine_stage_forget[of env t "sc\<lparr>sn_classifier := c\<rparr>" s] by simp
  then show ?thesis
    by (auto simp: scan_file_def Let_def split: option.splits prod.splits sum.splits)
qed

lemma undisturbed_simps [simp]:
  "sx_env (undisturbed cx) = sx_env cx" "sx_before (undisturbed cx) i = []"
  "sx_waiting (undisturbed cx) i = []" "sx_late (undisturbed cx) = []"
  "sx_start (undisturbed cx) = sx_start cx" "sx_end (undisturbed cx) = sx_end cx"
  "sx_progress_error (undisturbed cx) = sx_progress_error cx"
  "scan_one (undisturbed cx) = scan_one cx" "memory_stage (undisturbed cx) = memory_stage cx"
  by (simp_all add: undisturbed_def scan_one_def memory_stage_def fun_eq_iff split: option.split)

definition calm :: "scan_run \<Rightarrow> scan_run" where
  "calm r = r\<lparr>sr_scanner := forget (sr_scanner r)\<rparr>"

lemma calm_simps [simp]:
  "sr_next (calm r) = sr_next r" "sr_fs (calm r) = sr_fs r" "sr_progress (calm r) = sr_progress r"
  "sr_threats (calm r) = sr_threats r" "sr_scanner (calm r) = forget (sr_scanner r)"
  "(calm r)\<lparr>sr_scanner := forget (sr_scanner r)\<rparr> = calm r"
  by (simp_all add: calm_def)

lemma calm_scanner: "forget sc = forget (sr_scanner r) \<Longrightarrow> calm (r\<lparr>sr_scanner := sc\<rparr>) = calm r"
  by (simp add: calm_def)

lemma scan_one_calm: "scan_one cx env p (calm r) = map_option calm (scan_one cx env p r)"
  by (simp add: scan_one_def scan_file_forget Let_def split: option.split)
    (auto simp: calm_def add_threats_def)

lemma scan_file_control:
  assumes "scan_file env p (sc, s) = Some (r, sc', s')"
  shows "sn_cancel sc' = sn_cancel sc \<and> sn_status sc' = sn_status sc \<and> sn_go sc' = sn_go sc"
  using assms
proof (cases rule: scan_file_cases)
  case (detected p' sha d c t t')
  from quarantine_stage_frame(3)[OF detected(4)] obtain q where "sc' = sc\<lparr>sn_classifier := c, sn_store := q\<rparr>"
    by blast
  then show ?thesis by simp
qed simp_all

lemma scan_one_control:
  assumes "scan_one cx env p r = Some r'"
  shows "sn_cancel (sr_scanner r') = sn_cancel (sr_scanner r) \<and> sr_next r' = sr_next r + 1
    \<and> pr_files (sr_progress r') = pr_files (sr_progress r) + 1"
proof -
  obtain d sc s where f: "scan_file env p (sr_scanner r, sr_fs r) = Some (d, sc, s)"
    using assms by (auto simp: scan_one_def Let_def split: option.splits)
  show ?thesis using assms scan_file_control[OF f] f by (auto simp: scan_one_def Let_def)
qed

definition never_cancelled :: "scan_call \<Rightarrow> bool" where
  "never_cancelled cx \<longleftrightarrow>
     (\<forall>i. Cancel \<notin> set (sx_before cx i) \<and> Cancel \<notin> set (sx_waiting cx i)) \<and> Cancel \<notin> set (sx_late cx)"

lemma scan_files_calm:
  assumes "scan_files cx ps r = Some (b, r')" "never_cancelled cx" "\<not> sn_cancel (sr_scanner r)"
  shows "\<not> b \<and> scan_files (undisturbed cx) ps (calm r) = Some (b, calm r') \<and> \<not> sn_cancel (sr_scanner r')"
  using assms
proof (induction ps arbitrary: r)
  case (Cons p ps)
  let ?sc1 = "foldl (\<lambda>sc q. control q sc) (sr_scanner r) (sx_before cx (sr_next r))"
  have f1: "forget ?sc1 = forget (sr_scanner r)"
    using Cons.prems(2) by (intro forget_controls) (simp add: never_cancelled_def)
  then have c1: "\<not> sn_cancel ?sc1" using forget_cancel Cons.prems(3) by metis
  obtain sc2 where a: "await (sx_waiting cx (sr_next r)) ?sc1 = Some sc2"
    using Cons.prems(1) c1 by (auto simp: Let_def split: option.splits)
  have f2: "forget sc2 = forget (sr_scanner r)"
    using forget_await[OF _ a] Cons.prems(2) f1 by (simp add: never_cancelled_def)
  then have c2: "\<not> sn_cancel sc2" using forget_cancel Cons.prems(3) by metis
  obtain r1 where o: "scan_one cx (sx_env cx (sr_next r)) p (r\<lparr>sr_scanner := sc2\<rparr>) = Some r1"
      "scan_files cx ps r1 = Some (b, r')"
    using Cons.prems(1) c1 a c2 by (auto simp: Let_def split: option.splits)
  have o': "scan_one cx (sx_env cx (sr_next r)) p (calm r) = Some (calm r1)"
    using o(1) scan_one_calm[of cx "sx_env cx (sr_next r)" p "r\<lparr>sr_scanner := sc2\<rparr>"] calm_scanner[OF f2]
    by simp
  have c3: "\<not> sn_cancel (sr_scanner r1)" using scan_one_control[OF o(1)] c2 by simp
  have "scan_files (undisturbed cx) (p # ps) (calm r) = scan_files (undisturbed cx) ps (calm r1)"
    using o' Cons.prems(3) by (simp add: Let_def)
  then show ?case using Cons.IH[OF o(2) Cons.prems(2) c3] by simp
qed simp

lemma scan_targets_calm:
  "scan_targets cx quick xs r = Some r' \<Longrightarrow> never_cancelled cx \<Longrightarrow> \<not> sn_cancel (sr_scanner r) \<Longrightarrow>
   scan_targets (undisturbed cx) quick xs (calm r) = Some (calm r') \<and> \<not> sn_cancel (sr_scanner r')"
proof (induction xs arbitrary: r)
  case (Cons x xs)
  obtain b r1 where f: "scan_files cx (target_files (sx_env cx (sr_next r)) quick x (sr_fs r)) r = Some (b, r1)"
    using Cons.prems by (auto split: option.splits)
  note c = scan_files_calm[OF f Cons.prems(2,3)]
  then have "scan_targets cx quick xs r1 = Some r'" using Cons.prems f by simp
  from Cons.IH[OF this Cons.prems(2)] c show ?case using Cons.prems(3) by simp
qed simp

lemma memory_stage_calm: "memory_stage cx (calm r) = map_option calm (memory_stage cx r)"
  by (auto simp: memory_stage_def calm_def add_threats_def forget_def split: option.split)

lemma run_scan_calm:
  assumes "run_scan cx ty targets r = Some (err, r')" "never_cancelled cx" "\<not> sn_cancel (sr_scanner r)"
  shows "run_scan (undisturbed cx) ty targets (calm r) = Some (err, calm r') \<and> \<not> sn_cancel (sr_scanner r')"
proof -
  consider (failed) e where "ty = QUICK" "sx_progress_error cx = Some e" "err = Some e" "r' = r"
    | (quick) r1 where "ty = QUICK" "sx_progress_error cx = None" "err = None" "memory_stage cx r = Some r1"
        "scan_targets cx True targets r1 = Some r'"
    | (plain) "ty \<noteq> QUICK" "err = None" "scan_targets cx False targets r = Some r'"
    using assms(1) by (auto simp: run_scan_def split: option.splits bool.splits prod.splits)
  then show ?thesis
  proof cases
    case failed
    then show ?thesis using assms(3) by (simp add: run_scan_def)
  next
    case quick
    have "\<not> sn_cancel (sr_scanner r1)"
      using quick(4) assms(3) by (auto simp: memory_stage_def split: option.splits)
    from scan_targets_calm[OF quick(5) assms(2) this] show ?thesis
      using quick memory_stage_calm[of cx r] by (simp add: run_scan_def)
  next
    case plain
    with scan_targets_calm[OF plain(3) assms(2,3)] show ?thesis by (simp add: run_scan_def)
  qed
qed

text \<open>C26: pausing and resuming, at whatever moments, does not change what a scan finds: when it ends without
  having been cancelled, the summary, the files and the vault are those of a scan nobody touched.\<close>

theorem pausing_changes_nothing:
  assumes "execute_scan cx targets ty (sc, s) = Some (r, sc', s')" "never_cancelled cx"
  shows "\<exists>sc''. execute_scan (undisturbed cx) targets ty (sc, s) = Some (r, sc'', s') \<and> forget sc'' = forget sc'"
proof (cases "begin_scan (sx_start cx) sc s")
  case (Inl e)
  then show ?thesis using assms by (auto simp: execute_scan_def)
next
  case (Inr r0)
  then have r0: "calm r0 = r0" "\<not> sn_cancel (sr_scanner r0)"
    by (auto simp: begin_scan_def calm_def forget_def split: if_splits)
  obtain err r1 where r1: "run_scan cx ty targets r0 = Some (err, r1)"
    using assms(1) Inr by (auto simp: execute_scan_def split: option.splits)
  note c = run_scan_calm[OF r1 assms(2) r0(2), unfolded r0(1)]
  let ?late = "foldl (\<lambda>sc q. control q sc) (sr_scanner r1) (sx_late cx)"
  have l: "forget ?late = forget (sr_scanner r1)"
    using assms(2) by (intro forget_controls) (simp add: never_cancelled_def)
  then have nc: "\<not> sn_cancel ?late" using forget_cancel c by metis
  obtain sm sc2 where e: "end_scan cx ty err r1 = (sm, sc2, sr_fs r1)"
    by (metis end_scan_def prod.collapse snd_conv fst_conv)
  have sc2: "r = Inr sm" "sc' = sc2" "s' = sr_fs r1" using assms(1) Inr r1 e by (auto simp: execute_scan_def)
  obtain sc3 where "end_scan (undisturbed cx) ty err (calm r1) = (sm, sc3, sr_fs r1)" "forget sc3 = forget sc2"
    using e nc c l forget_end[of "forget (sr_scanner r1)" ?late]
    by (auto simp: end_scan_def Let_def)
  then show ?thesis using Inr c r1 sc2 by (auto simp: execute_scan_def)
qed

section \<open>Cancelling\<close>

lemma cancelled_by_controls: "Cancel \<in> set qs \<Longrightarrow> sn_cancel (foldl (\<lambda>sc q. control q sc) sc qs)"
proof -
  have keep: "sn_cancel x \<Longrightarrow> sn_cancel (foldl (\<lambda>sc q. control q sc) x qs)" for x qs
    by (induction qs arbitrary: x) simp_all
  show "Cancel \<in> set qs \<Longrightarrow> ?thesis"
    by (induction qs arbitrary: sc) (auto simp: keep)
qed

definition counted :: "nat \<Rightarrow> scan_run \<Rightarrow> bool" where
  "counted i r \<longleftrightarrow> pr_files (sr_progress r) = sr_next r \<and> sr_next r \<le> i"

lemma scan_files_counted:
  "scan_files cx ps r = Some (b, r') \<Longrightarrow> Cancel \<in> set (sx_before cx i) \<Longrightarrow> counted i r \<Longrightarrow> counted i r'
    \<and> (b \<longrightarrow> sn_cancel (sr_scanner r'))"
proof (induction ps arbitrary: r)
  case (Cons p ps)
  let ?sc1 = "foldl (\<lambda>sc q. control q sc) (sr_scanner r) (sx_before cx (sr_next r))"
  have le: "\<not> sn_cancel ?sc1 \<Longrightarrow> sr_next r < i"
    using Cons.prems(2,3) cancelled_by_controls[of "sx_before cx i" "sr_scanner r"]
    by (auto simp: counted_def nat_less_le)
  show ?case
  proof (cases "sn_cancel ?sc1")
    case True
    then show ?thesis using Cons.prems(1,3) by (auto simp: Let_def counted_def)
  next
    case False
    then obtain sc2 where a: "await (sx_waiting cx (sr_next r)) ?sc1 = Some sc2"
      using Cons.prems(1) by (auto simp: Let_def split: option.splits)
    show ?thesis
    proof (cases "sn_cancel sc2")
      case True
      then show ?thesis using Cons.prems(1,3) False a by (auto simp: Let_def counted_def)
    next
      case cont: False
      obtain r1 where o: "scan_one cx (sx_env cx (sr_next r)) p (r\<lparr>sr_scanner := sc2\<rparr>) = Some r1"
          "scan_files cx ps r1 = Some (b, r')"
        using Cons.prems(1) False a cont by (auto simp: Let_def split: option.splits)
      have "counted i r1" using scan_one_control[OF o(1)] le[OF False] Cons.prems(3) by (simp add: counted_def)
      then show ?thesis using Cons.IH[OF o(2) Cons.prems(2)] by blast
    qed
  qed
qed simp

lemma scan_targets_counted:
  "scan_targets cx quick xs r = Some r' \<Longrightarrow> Cancel \<in> set (sx_before cx i) \<Longrightarrow> counted i r \<Longrightarrow> counted i r'"
  by (induction xs arbitrary: r)
    (auto split: if_splits option.splits prod.splits bool.splits dest: scan_files_counted)


section \<open>Witnesses\<close>

definition demo_scan_env :: scan_env where
  "demo_scan_env =
     \<lparr>sc_static = demo_senv, sc_learn = demo_learn, sc_depth = 2, sc_run = demo_run_env,
      sc_vault = \<lparr>q_os = se_os demo_senv, q_sha_of = (\<lambda>d. CHR ''h'' # d), db_ok = True,
                  clock_text = ''now'', clock = 0\<rparr>,
      sc_new_id = ''i'', sc_win_dir = None, sc_time = 0, sc_tree = (\<lambda>p. None)\<rparr>"

definition demo_scanner :: "bool \<Rightarrow> scanner" where
  "demo_scanner auto = new_scanner lure_class (Some \<lparr>quarantine_dir = ''q'', rows = []\<rparr>) auto None True"

definition lure_detection :: detection where
  "lure_detection = mk_detection demo_scan_env ''a.pdf.exe'' ''hMZ'' ''Heuristic:PE.DoubleExtension'' 80 HIGH
     ''pe_classifier'' (''Deceptive double extension spoofing detected: '' @ quoted ''a.pdf.exe'')"

lemma demo_scan_os:
  "sc_os demo_scan_env = se_os demo_senv" "sc_seps demo_scan_env = [CHR 0x5C]"
  "resolve (se_os demo_senv) = Some" "sc_static demo_scan_env = demo_senv"
  by (simp_all add: sc_os_def sc_seps_def demo_scan_env_def lure_file) (simp add: demo_senv_def se_os_def win_env_def)

lemma lure_judged:
  "judge demo_scan_env rn dyn lure_fs ''a.pdf.exe'' ''hMZ'' ''MZ'' lure_class = Some (Inr (Some lure_detection), lure_class)"
proof -
  have "double_extension EXECUTABLE_EXTENSIONS DECEPTIVE_DOC_EXTENSIONS ''a.pdf.exe''" by code_simp
  then show ?thesis
    by (simp add: judge_def yara_stage_def yara_scan_def lure_class_def new_classifier_def vt_stage_def
        double_stage_def demo_scan_os lure_name lure_detection_def Let_def)
qed

lemma lure_scanned:
  "sn_classifier sc = lure_class \<Longrightarrow>
   scan_file demo_scan_env ''a.pdf.exe'' (sc, lure_fs) =
     (case quarantine_stage demo_scan_env lure_detection (sc, lure_fs) of (t, sc', s') \<Rightarrow> Some (Inr (Some t), sc', s'))"
proof -
  have n: "lower ''a.pdf.exe'' \<notin> set SYSTEM_IGNORE_FILES" by code_simp
  assume c: "sn_classifier sc = lure_class"
  then have e: "sc\<lparr>sn_classifier := lure_class\<rparr> = sc" by (cases sc) simp
  show ?thesis
    unfolding scan_file_def by (simp add: n c demo_scan_os lure_file lure_name lure_judged Let_def)
      (simp only: e, simp split: prod.split)
qed

lemma demo_scanner_simps [simp]:
  "sn_classifier (demo_scanner b) = lure_class" "sn_readonly (demo_scanner b) \<longleftrightarrow> \<not> b"
  "sn_auto (demo_scanner b) = b" "sn_store (demo_scanner b) = Some \<lparr>quarantine_dir = ''q'', rows = []\<rparr>"
  "sn_status (demo_scanner b) = IDLE"
  by (simp_all add: demo_scanner_def new_scanner_def)

theorem detections_well_formed_witness:
  "\<exists>t. scan_file demo_scan_env ''a.pdf.exe'' (demo_scanner False, lure_fs)
      = Some (Inr (Some t), demo_scanner False, lure_fs) \<and> file_finding t \<and> dt_qid t = None"
proof -
  have f: "scan_file demo_scan_env ''a.pdf.exe'' (demo_scanner False, lure_fs)
      = Some (Inr (Some lure_detection), demo_scanner False, lure_fs)"
    by (simp add: lure_scanned quarantine_stage_def)
  from detections_well_formed[OF f] f show ?thesis by (auto simp: lure_detection_def mk_detection_def)
qed

theorem protected_binaries_spared_witness:
  "\<exists>t. scan_file demo_scan_env ''a.pdf.exe'' (demo_scanner False, lure_fs)
      = Some (Inr (Some t), demo_scanner False, lure_fs) \<and> \<not> is_self_binary demo_scan_env (dt_path t)"
proof -
  have f: "scan_file demo_scan_env ''a.pdf.exe'' (demo_scanner False, lure_fs)
      = Some (Inr (Some lure_detection), demo_scanner False, lure_fs)"
    by (simp add: lure_scanned quarantine_stage_def)
  from protected_binaries_spared[OF f] f show ?thesis by (auto simp: lure_detection_def)
qed

lemma lure_vault:
  "vault_path (sc_vault demo_scan_env) ''i'' ''a.pdf.exe'' \<lparr>quarantine_dir = ''q'', rows = []\<rparr>
     = ''q'' @ [CHR 0x5C] @ ''i_a.pdf.exe''"
  by (simp add: vault_path_def path_join_def demo_scan_env_def lure_file lure_name)

lemma lure_quarantined:
  "\<exists>t sc' s'. quarantine_stage demo_scan_env lure_detection (demo_scanner True, lure_fs) = (t, sc', s')
     \<and> dt_quarantined t \<and> dt_path t = ''a.pdf.exe''"
proof -
  have d: "dt_path lure_detection = ''a.pdf.exe''" "dt_memory lure_detection = False"
    by (simp_all add: lure_detection_def mk_detection_def)
  have n: "sc_new_id demo_scan_env = ''i''" by (simp add: demo_scan_env_def)
  have i: "\<exists>s'. isolate (se_os demo_senv) ''a.pdf.exe'' (''q'' @ [CHR 0x5C] @ ''i_a.pdf.exe'') lure_fs = (True, s')"
    by (simp add: isolate_def copy2_def file_defs lure_fs_def one_file_def demo_senv_def se_os_def win_env_def new_file_def)
  then obtain s' where i: "isolate (se_os demo_senv) ''a.pdf.exe'' (''q'' @ [CHR 0x5C] @ ''i_a.pdf.exe'') lure_fs
      = (True, s')" by blast
  have e: "q_os (sc_vault demo_scan_env) = se_os demo_senv" "db_ok (sc_vault demo_scan_env)"
    by (simp_all add: demo_scan_env_def)
  show ?thesis
    using i by (simp add: quarantine_stage_def d n add_def lure_vault e lure_file Let_def)
qed

theorem quarantined_detection_recorded_witness:
  "\<exists>t sc' s'. scan_file demo_scan_env ''a.pdf.exe'' (demo_scanner True, lure_fs) = Some (Inr (Some t), sc', s')
    \<and> bytes_at s' ''a.pdf.exe'' = None"
proof -
  obtain t sc' s' where q: "quarantine_stage demo_scan_env lure_detection (demo_scanner True, lure_fs) = (t, sc', s')"
    "dt_quarantined t" "dt_path t = ''a.pdf.exe''"
    using lure_quarantined by blast
  have f: "scan_file demo_scan_env ''a.pdf.exe'' (demo_scanner True, lure_fs) = Some (Inr (Some t), sc', s')"
    by (simp add: lure_scanned q)
  have i: "sc_new_id demo_scan_env = ''i''" by (simp add: demo_scan_env_def)
  have "sane Some (\<lambda>d. CHR ''h'' # d) (sc_vault demo_scan_env)"
    by (simp add: sane_def demo_scan_env_def demo_senv_def se_os_def win_env_def)
  moreover have "q_os (sc_vault demo_scan_env) = sc_os demo_scan_env" "\<And>p. \<not> is_link (sc_os demo_scan_env) p"
    by (simp_all add: demo_scan_env_def sc_os_def demo_senv_def se_os_def win_env_def)
  ultimately have "bytes_at s' (dt_path t) = None"
    using quarantined_detection_recorded[OF f q(2), of _ Some "\<lambda>d. CHR ''h'' # d"
        "''q'' @ [CHR 0x5C] @ ''i_a.pdf.exe''"] q(3)
    by (auto simp: i lure_vault)
  with f q(3) show ?thesis by auto
qed

definition demo_call :: "request list \<Rightarrow> request list \<Rightarrow> scan_call" where
  "demo_call qs ws =
     \<lparr>sx_env = (\<lambda>i. demo_scan_env), sx_before = (\<lambda>i. qs), sx_waiting = (\<lambda>i. ws), sx_mem = linux_mem,
      sx_names = [], sx_procs = [], sx_progress_error = None, sx_threat_raises = (\<lambda>t. False), sx_mem_time = (\<lambda>t. 0),
      sx_start = 0, sx_end = 1, sx_late = []\<rparr>"

lemma demo_call_scans:
  "\<exists>sm sc'. execute_scan (demo_call [Pause] [Resume]) [''a.pdf.exe''] CUSTOM (demo_scanner False, lure_fs)
     = Some (Inr sm, sc', lure_fs) \<and> su_threats sm = [lure_detection]"
proof -
  have t: "target_files demo_scan_env False ''a.pdf.exe'' lure_fs = [''a.pdf.exe'']"
    by (simp add: target_files_def demo_scan_os lure_file)
  show ?thesis
    by (simp add: execute_scan_def begin_scan_def run_scan_def end_scan_def scan_one_def demo_call_def t
        add_threats_def lure_scanned quarantine_stage_def Let_def split: option.split)
qed

theorem read_only_scan_harmless_witness:
  "\<exists>sm sc'. execute_scan (demo_call [Pause] [Resume]) [''a.pdf.exe''] CUSTOM (demo_scanner False, lure_fs)
     = Some (Inr sm, sc', lure_fs) \<and> list_all (\<lambda>t. \<not> dt_quarantined t) (su_threats sm)"
proof -
  obtain sm sc' where e: "execute_scan (demo_call [Pause] [Resume]) [''a.pdf.exe''] CUSTOM
      (demo_scanner False, lure_fs) = Some (Inr sm, sc', lure_fs)"
    using demo_call_scans by blast
  from read_only_scan_harmless[OF e] e show ?thesis by auto
qed

theorem pausing_changes_nothing_witness:
  "\<exists>sm sc'. execute_scan (undisturbed (demo_call [Pause] [Resume])) [''a.pdf.exe''] CUSTOM
       (demo_scanner False, lure_fs) = Some (Inr sm, sc', lure_fs) \<and> su_threats sm = [lure_detection]"
proof -
  obtain sm sc' where e: "execute_scan (demo_call [Pause] [Resume]) [''a.pdf.exe''] CUSTOM
      (demo_scanner False, lure_fs) = Some (Inr sm, sc', lure_fs)" "su_threats sm = [lure_detection]"
    using demo_call_scans by blast
  have "never_cancelled (demo_call [Pause] [Resume])" by (simp add: never_cancelled_def demo_call_def)
  from pausing_changes_nothing[OF e(1) this] e(2) show ?thesis by blast
qed


end
