(* ===== verification/ParallelScan.thy ===== *)
theory ParallelScan
  imports Scanner "HOL-Library.Multiset"
begin

text \<open>
  The scan with several workers, from \<open>engine/scanner.py\<close>: the files are listed, one task per file is
  submitted to a pool of threads, and the main thread waits for the tasks, dropping those not started
  when it sees a cancellation. Tasks, main thread and the requests of other threads interleave freely:
  a run is a list of events, each of which is one step of one thread. What a task does to a file is one
  step, what it does under \<open>prog_lock\<close> another. The lemmas show that no file is lost or counted twice in
  any interleaving, that a pool which is not paused always has a step to do and does a bounded number of
  them, and how far a cancellation reaches.
\<close>

section \<open>The pool\<close>

datatype phase =
    Entered \<comment> \<open>before \<open>_pause_event.wait()\<close>\<close>
  | Admitted \<comment> \<open>before the look at \<open>_cancel_event\<close>\<close>
  | Cleared \<comment> \<open>before \<open>scan_file\<close>\<close>
  | Scanned "detection option" \<comment> \<open>before the lock\<close>

record pool =
  po_queue :: "nat list"
  po_running :: "(nat, phase) dict"
  po_booked :: "(nat, detection option) dict"
  po_skipped :: "nat list"
  po_dropped :: "nat list"
  po_run :: scan_run

definition submit_all :: "string list \<Rightarrow> scan_run \<Rightarrow> pool" where
  "submit_all paths r =
     \<lparr>po_queue = [0..<length paths], po_running = [], po_booked = [], po_skipped = [], po_dropped = [],
      po_run = r\<rparr>"

definition list_files :: "scan_env \<Rightarrow> bool \<Rightarrow> string list \<Rightarrow> fs \<Rightarrow> scanner \<Rightarrow> nat \<Rightarrow> string list" where
  \<comment> \<open>\<open>list(self._collect_files(targets))\<close>; when the scan is cancelled meanwhile, the list ends after \<open>k\<close>\<close>
  "list_files env quick targets s sc k =
     (let all_paths = concat (map (\<lambda>x. target_files env quick x s) targets) in
      if sn_cancel sc then take k all_paths else all_paths)"

datatype pool_event =
    Starts | Admits nat | Decides nat | Scans nat scan_env | Books nat scan_env
  | Requested request | Looks \<comment> \<open>the main thread, after a task has ended\<close>

definition po_control :: "pool \<Rightarrow> scanner" where
  "po_control p = sr_scanner (po_run p)"

definition set_phase :: "nat \<Rightarrow> phase \<Rightarrow> pool \<Rightarrow> pool" where
  "set_phase i ph p = p\<lparr>po_running := AList.update i ph (po_running p)\<rparr>"

definition start_task :: "nat \<Rightarrow> pool \<Rightarrow> pool option" where
  "start_task workers p =
     (case po_queue p of
        [] \<Rightarrow> None
      | i # q \<Rightarrow>
          if length (po_running p) < workers
          then Some (p\<lparr>po_queue := q, po_running := po_running p @ [(i, Entered)]\<rparr>)
          else None)"

definition admit :: "nat \<Rightarrow> pool \<Rightarrow> pool option" where
  "admit i p =
     (if map_of (po_running p) i = Some Entered \<and> sn_go (po_control p) then Some (set_phase i Admitted p) else None)"

definition decide :: "nat \<Rightarrow> pool \<Rightarrow> pool option" where
  "decide i p =
     (if map_of (po_running p) i = Some Admitted
      then Some (if sn_cancel (po_control p)
                 then p\<lparr>po_running := AList.delete i (po_running p), po_skipped := po_skipped p @ [i]\<rparr>
                 else set_phase i Cleared p)
      else None)"

definition scan_task :: "string list \<Rightarrow> nat \<Rightarrow> scan_env \<Rightarrow> pool \<Rightarrow> pool option" where
  \<comment> \<open>an exception of \<open>scan_file\<close> counts as no detection; no step when the call does not return\<close>
  "scan_task paths i env p =
     (if map_of (po_running p) i = Some Cleared
      then case scan_file env (paths ! i) (po_control p, sr_fs (po_run p)) of
             None \<Rightarrow> None
           | Some (d, sc, s) \<Rightarrow>
               Some (set_phase i (Scanned (case d of Inr t \<Rightarrow> t | Inl e \<Rightarrow> None))
                      (p\<lparr>po_run := (po_run p)\<lparr>sr_scanner := sc, sr_fs := s\<rparr>\<rparr>))
      else None)"

definition book :: "real \<Rightarrow> string list \<Rightarrow> nat \<Rightarrow> scan_env \<Rightarrow> pool \<Rightarrow> pool option" where
  "book start paths i env p =
     (case map_of (po_running p) i of
        Some (Scanned d) \<Rightarrow>
          let r = po_run p; pr = sr_progress r; path = paths ! i;
              nbytes = (case find_file (sc_os env) path (sr_fs r) of None \<Rightarrow> 0 | Some (c, f) \<Rightarrow> length (content f));
              pr1 = pr\<lparr>pr_files := pr_files pr + 1, pr_bytes := pr_bytes pr + nbytes, pr_current := path,
                       pr_elapsed := sc_time env - start\<rparr>;
              r1 = add_threats (case d of Some t \<Rightarrow> [t] | None \<Rightarrow> []) (r\<lparr>sr_progress := pr1\<rparr>)
          in Some (p\<lparr>po_running := AList.delete i (po_running p), po_booked := po_booked p @ [(i, d)],
                     po_run := r1\<rparr>)
      | _ \<Rightarrow> None)"

definition look :: "pool \<Rightarrow> pool option" where
  \<comment> \<open>\<open>shutdown(wait=False, cancel_futures=True)\<close>\<close>
  "look p =
     (if po_booked p = [] \<and> po_skipped p = [] then None
      else Some (if sn_cancel (po_control p)
                 then p\<lparr>po_queue := [], po_dropped := po_dropped p @ po_queue p\<rparr> else p))"

fun pool_step :: "nat \<Rightarrow> real \<Rightarrow> string list \<Rightarrow> pool_event \<Rightarrow> pool \<Rightarrow> pool option" where
  "pool_step w start paths Starts p = start_task w p"
| "pool_step w start paths (Admits i) p = admit i p"
| "pool_step w start paths (Decides i) p = decide i p"
| "pool_step w start paths (Scans i env) p = scan_task paths i env p"
| "pool_step w start paths (Books i env) p = book start paths i env p"
| "pool_step w start paths (Requested q) p =
     Some (p\<lparr>po_run := (po_run p)\<lparr>sr_scanner := control q (po_control p)\<rparr>\<rparr>)"
| "pool_step w start paths Looks p = look p"

fun pool_run :: "nat \<Rightarrow> real \<Rightarrow> string list \<Rightarrow> pool_event list \<Rightarrow> pool \<Rightarrow> pool option" where
  "pool_run w start paths [] p = Some p"
| "pool_run w start paths (e # es) p =
     (case pool_step w start paths e p of None \<Rightarrow> None | Some p' \<Rightarrow> pool_run w start paths es p')"

definition finished :: "pool \<Rightarrow> bool" where
  "finished p \<longleftrightarrow> po_queue p = [] \<and> po_running p = []"

record pool_call =
  pc_early :: "request list" \<comment> \<open>while the files are listed\<close>
  pc_listed :: nat
  pc_list_env :: scan_env
  pc_events :: "pool_event list"

definition execute_parallel ::
  "scan_call \<Rightarrow> pool_call \<Rightarrow> nat \<Rightarrow> string list \<Rightarrow> scan_type \<Rightarrow> scanner \<times> fs
    \<Rightarrow> (summary py_result \<times> scanner \<times> fs) option" where
  \<comment> \<open>\<open>None\<close> when the events are no complete run of the pool\<close>
  "execute_parallel cx pc workers targets ty st =
     (case st of (sc, s) \<Rightarrow>
        case begin_scan (sx_start cx) sc s of
          Inl e \<Rightarrow> Some (Inl e, sc, s)
        | Inr r \<Rightarrow>
            (case (ty = QUICK, sx_progress_error cx) of
               (True, Some e) \<Rightarrow> (case end_scan cx ty (Some e) r of (sm, sc', s') \<Rightarrow> Some (Inr sm, sc', s'))
             | (quick, pe) \<Rightarrow>
                 (case (if quick then memory_stage cx r else Some r) of
                    None \<Rightarrow> None
                  | Some r1 \<Rightarrow>
                      let sc1 = foldl (\<lambda>sc q. control q sc) (sr_scanner r1) (pc_early pc);
                          paths = list_files (pc_list_env pc) quick targets (sr_fs r1) sc1 (pc_listed pc) in
                      (case pool_run workers (sx_start cx) paths (pc_events pc)
                              (submit_all paths (r1\<lparr>sr_scanner := sc1\<rparr>)) of
                         None \<Rightarrow> None
                       | Some p \<Rightarrow>
                           if finished p
                           then case end_scan cx ty None (po_run p) of (sm, sc', s') \<Rightarrow> Some (Inr sm, sc', s')
                           else None))))"

section \<open>No task is lost\<close>

definition task_count :: "pool \<Rightarrow> nat multiset" where
  "task_count p =
     mset (po_queue p) + mset (keys (po_running p)) + mset (keys (po_booked p)) + mset (po_skipped p)
     + mset (po_dropped p)"

definition results :: "pool \<Rightarrow> detection list" where
  \<comment> \<open>the detections in the order in which they were booked\<close>
  "results p = List.map_filter snd (po_booked p)"

definition pool_ok :: "nat \<Rightarrow> nat \<Rightarrow> scan_run \<Rightarrow> pool \<Rightarrow> bool" where
  "pool_ok w n r0 p \<longleftrightarrow>
     task_count p = mset [0..<n] \<and> length (po_running p) \<le> w
     \<and> pr_files (sr_progress (po_run p)) = pr_files (sr_progress r0) + length (po_booked p)
     \<and> sr_threats (po_run p) = sr_threats r0 @ results p
     \<and> pr_threats (sr_progress (po_run p)) = pr_threats (sr_progress r0) + length (results p)
     \<and> (sn_cancel (po_control p) \<or> (po_skipped p = [] \<and> po_dropped p = []))"

lemma pool_ok_submit: "pool_ok w (length paths) r (submit_all paths r)"
  by (simp add: pool_ok_def submit_all_def task_count_def results_def map_filter_def)

lemma sub_distinct:
  assumes "mset xs \<subseteq># mset ys" "distinct ys"
  shows "distinct xs"
proof -
  obtain zs where "mset ys = mset (xs @ zs)"
    using assms(1) ex_mset by (metis mset_append mset_subset_eq_exists_conv)
  then have "distinct (xs @ zs)" using assms(2) mset_eq_imp_distinct_iff by blast
  then show ?thesis by simp
qed

lemma running_distinct:
  assumes "pool_ok w n r0 p"
  shows "distinct (keys (po_running p))"
proof (rule sub_distinct)
  show "mset (keys (po_running p)) \<subseteq># mset [0..<n]"
    using assms unfolding pool_ok_def task_count_def
    by (metis mset_subset_eq_add_left mset_subset_eq_add_right subset_mset.order_trans)
qed simp

lemma keys_update_known: "map_of d i = Some x \<Longrightarrow> keys (AList.update i y d) = keys d"
  using map_of_SomeD by (force simp: update_keys)

lemma length_update_known: "map_of d i = Some x \<Longrightarrow> length (AList.update i y d) = length d"
  by (metis keys_update_known length_map)

lemma keys_delete_known:
  assumes "distinct (keys d)" "map_of d i = Some x"
  shows "mset (keys d) = add_mset i (mset (keys (AList.delete i d)))"
    "length (AList.delete i d) < length d"
proof -
  have "i \<in> set (keys d)" using map_of_SomeD[OF assms(2)] by force
  moreover have k: "keys (AList.delete i d) = remove1 i (keys d)"
    using assms(1) by (simp add: delete_keys distinct_remove1_removeAll)
  ultimately show m: "mset (keys d) = add_mset i (mset (keys (AList.delete i d)))" by simp
  have "size (mset (keys d)) = Suc (size (mset (keys (AList.delete i d))))" unfolding m by simp
  then show "length (AList.delete i d) < length d" by simp
qed

lemma set_phase_ok:
  "pool_ok w n r0 p \<Longrightarrow> map_of (po_running p) i = Some x \<Longrightarrow> pool_ok w n r0 (set_phase i ph p)"
  using keys_update_known[of "po_running p" i x ph] length_update_known[of "po_running p" i x ph]
  by (simp add: pool_ok_def set_phase_def task_count_def results_def po_control_def)

lemma run_ok:
  assumes "pool_ok w n r0 p" "sr_progress r = sr_progress (po_run p)" "sr_threats r = sr_threats (po_run p)"
    and "sn_cancel (po_control p) \<Longrightarrow> sn_cancel (sr_scanner r)"
  shows "pool_ok w n r0 (p\<lparr>po_run := r\<rparr>)"
  using assms by (auto simp: pool_ok_def task_count_def results_def po_control_def)

lemma start_task_ok:
  "start_task w p = Some p' \<Longrightarrow> pool_ok w n r0 p \<Longrightarrow> pool_ok w n r0 p'"
  by (auto simp: start_task_def pool_ok_def task_count_def results_def po_control_def split: list.splits if_splits)

lemma decide_ok:
  assumes "decide i p = Some p'" "pool_ok w n r0 p"
  shows "pool_ok w n r0 p'"
proof (cases "sn_cancel (po_control p)")
  case True
  then have m: "map_of (po_running p) i = Some Admitted"
    and p': "p' = p\<lparr>po_running := AList.delete i (po_running p), po_skipped := po_skipped p @ [i]\<rparr>"
    using assms(1) by (auto simp: decide_def split: if_splits)
  show ?thesis using assms(2) True keys_delete_known[OF running_distinct[OF assms(2)] m]
    unfolding p' by (simp add: pool_ok_def task_count_def results_def po_control_def)
next
  case False
  then show ?thesis using assms set_phase_ok by (auto simp: decide_def split: if_splits)
qed

lemma scan_task_ok:
  assumes "scan_task paths i env p = Some p'" "pool_ok w n r0 p"
  shows "pool_ok w n r0 p'"
proof -
  obtain d sc s where m: "map_of (po_running p) i = Some Cleared"
    and f: "scan_file env (paths ! i) (po_control p, sr_fs (po_run p)) = Some (d, sc, s)"
    and p': "p' = set_phase i (Scanned (case d of Inr t \<Rightarrow> t | Inl e \<Rightarrow> None))
               (p\<lparr>po_run := (po_run p)\<lparr>sr_scanner := sc, sr_fs := s\<rparr>\<rparr>)"
    using assms(1) by (auto simp: scan_task_def split: if_splits option.splits)
  have "pool_ok w n r0 (p\<lparr>po_run := (po_run p)\<lparr>sr_scanner := sc, sr_fs := s\<rparr>\<rparr>)"
    using scan_file_control[OF f] by (intro run_ok[OF assms(2)]) simp_all
  then show ?thesis unfolding p' by (rule set_phase_ok) (use m in simp)
qed

lemma book_ok:
  assumes "book start paths i env p = Some p'" "pool_ok w n r0 p"
  shows "pool_ok w n r0 p'"
proof -
  obtain d where m: "map_of (po_running p) i = Some (Scanned d)"
    using assms(1) by (auto simp: book_def split: option.splits phase.splits)
  note k = keys_delete_known[OF running_distinct[OF assms(2)] m]
  show ?thesis using assms m k
    by (cases d) (auto simp: book_def Let_def pool_ok_def task_count_def results_def map_filter_def po_control_def
        add_threats_def)
qed

lemma look_ok: "look p = Some p' \<Longrightarrow> pool_ok w n r0 p \<Longrightarrow> pool_ok w n r0 p'"
  by (auto simp: look_def pool_ok_def task_count_def results_def po_control_def ac_simps split: if_splits)

lemma pool_step_ok:
  assumes "pool_step w start paths e p = Some p'" "pool_ok w n r0 p"
  shows "pool_ok w n r0 p'"
proof (cases e)
  case (Admits i)
  then show ?thesis using assms set_phase_ok by (auto simp: admit_def split: if_splits)
next
  case (Requested q)
  have "sn_cancel (po_control p) \<Longrightarrow> sn_cancel (control q (po_control p))" by (cases q) simp_all
  then have "pool_ok w n r0 (p\<lparr>po_run := (po_run p)\<lparr>sr_scanner := control q (po_control p)\<rparr>\<rparr>)"
    by (intro run_ok[OF assms(2)]) simp_all
  then show ?thesis using assms(1) Requested by simp
qed (use assms start_task_ok decide_ok scan_task_ok book_ok look_ok in auto)

lemma pool_run_ok:
  "pool_run w start paths es p = Some p' \<Longrightarrow> pool_ok w n r0 p \<Longrightarrow> pool_ok w n r0 p'"
  by (induction es arbitrary: p) (auto dest: pool_step_ok split: option.splits)

lemma pool_step_cancel:
  assumes "pool_step w start paths e p = Some p'" "sn_cancel (po_control p)"
  shows "sn_cancel (po_control p')"
proof (cases e)
  case (Scans i env)
  then obtain d sc s where f: "scan_file env (paths ! i) (po_control p, sr_fs (po_run p)) = Some (d, sc, s)"
    and p': "po_control p' = sc"
    using assms(1) by (auto simp: scan_task_def set_phase_def po_control_def split: if_splits option.splits)
  show ?thesis unfolding p' using scan_file_control[OF f] assms(2) by simp
next
  case (Requested q)
  then show ?thesis using assms by (cases q) (auto simp: po_control_def)
next
  case (Books i env)
  then show ?thesis using assms
    by (auto simp: book_def Let_def po_control_def add_threats_def split: option.splits phase.splits)
qed (use assms in \<open>auto simp: start_task_def admit_def decide_def look_def set_phase_def po_control_def
  split: list.splits if_splits\<close>)

lemma submitted_ok:
  "pool_run w start paths es (submit_all paths r) = Some p \<Longrightarrow> pool_ok w (length paths) r p"
  using pool_run_ok pool_ok_submit by blast

lemma booked_once:
  assumes "pool_ok w n r0 p"
  shows "distinct (keys (po_booked p)) \<and> set (keys (po_booked p)) \<subseteq> {..<n}"
proof -
  have s: "mset (keys (po_booked p)) \<subseteq># mset [0..<n]"
    using assms unfolding pool_ok_def task_count_def
    by (metis mset_subset_eq_add_left mset_subset_eq_add_right subset_mset.order_trans)
  have "set (keys (po_booked p)) \<subseteq> set [0..<n]" using set_mset_mono[OF s] by (simp only: set_mset_mset)
  moreover have "distinct (keys (po_booked p))" by (rule sub_distinct[OF s]) simp
  ultimately show ?thesis by auto
qed

lemma all_booked:
  assumes "pool_ok w n r0 p" "finished p" "\<not> sn_cancel (po_control p)"
  shows "mset (keys (po_booked p)) = mset [0..<n]"
  using assms by (auto simp: pool_ok_def finished_def task_count_def)


section \<open>Progress\<close>

lemma scan_task_running:
  assumes "scan_task paths i env p = Some p'"
  obtains x where "map_of (po_running p) i = Some Cleared" "po_queue p' = po_queue p"
    "po_running p' = AList.update i (Scanned x) (po_running p)"
  using assms by (auto simp: scan_task_def set_phase_def split: if_splits option.splits)

lemma book_running:
  assumes "book start paths i env p = Some p'"
  obtains d where "map_of (po_running p) i = Some (Scanned d)" "po_queue p' = po_queue p"
    "po_running p' = AList.delete i (po_running p)"
  using assms by (auto simp: book_def Let_def split: option.splits phase.splits)

fun working :: "pool_event \<Rightarrow> bool" where
  "working (Requested q) = False"
| "working Looks = False"
| "working e = True"

fun steps_left :: "phase \<Rightarrow> nat" where
  "steps_left Entered = 4"
| "steps_left Admitted = 3"
| "steps_left Cleared = 2"
| "steps_left (Scanned d) = 1"

definition weigh :: "(phase \<Rightarrow> nat) \<Rightarrow> (nat, phase) dict \<Rightarrow> nat" where
  "weigh f d = sum_list (map (f \<circ> snd) d)"

lemma weigh_update:
  "distinct (keys d) \<Longrightarrow> map_of d i = Some x \<Longrightarrow> weigh f (AList.update i y d) + f x = weigh f d + f y"
  by (induction d) (auto simp: weigh_def split: if_splits)

lemma weigh_delete:
  "distinct (keys d) \<Longrightarrow> map_of d i = Some x \<Longrightarrow> weigh f (AList.delete i d) + f x = weigh f d"
proof (induction d)
  case (Cons a d)
  show ?case
  proof (cases "fst a = i")
    case True
    then have "i \<notin> set (keys d)" using Cons.prems(1) by auto
    then have "AList.delete i d = d" by (simp add: AList.delete_idem)
    then show ?thesis using True Cons.prems by (cases a) (simp add: weigh_def)
  next
    case False
    then show ?thesis using Cons by (cases a) (auto simp: weigh_def)
  qed
qed simp

definition work_left :: "pool \<Rightarrow> nat" where
  "work_left p = 5 * length (po_queue p) + weigh steps_left (po_running p)"

lemma step_work:
  assumes "pool_step w start paths e p = Some p'" "distinct (keys (po_running p))"
  shows "work_left p' + (if working e then 1 else 0) \<le> work_left p"
proof (cases e)
  case Starts
  then show ?thesis using assms(1)
    by (auto simp: start_task_def work_left_def weigh_def split: list.splits if_splits)
next
  case (Admits i)
  then show ?thesis using assms weigh_update[OF assms(2), of i Entered steps_left Admitted]
    by (auto simp: admit_def set_phase_def work_left_def split: if_splits)
next
  case (Decides i)
  then show ?thesis using assms weigh_update[OF assms(2), of i Admitted steps_left Cleared]
      weigh_delete[OF assms(2), of i Admitted steps_left]
    by (auto simp: decide_def set_phase_def work_left_def split: if_splits)
next
  case (Scans i env)
  then obtain x where "map_of (po_running p) i = Some Cleared" "po_queue p' = po_queue p"
    "po_running p' = AList.update i (Scanned x) (po_running p)"
    using assms(1) by (auto elim: scan_task_running)
  then show ?thesis using Scans weigh_update[OF assms(2), of i Cleared steps_left "Scanned x"]
    by (simp add: work_left_def)
next
  case (Books i env)
  then obtain d where "map_of (po_running p) i = Some (Scanned d)" "po_queue p' = po_queue p"
    "po_running p' = AList.delete i (po_running p)"
    using assms(1) by (auto elim: book_running)
  then show ?thesis using Books weigh_delete[OF assms(2), of i "Scanned d" steps_left]
    by (simp add: work_left_def)
qed (use assms in \<open>auto simp: look_def work_left_def split: if_splits\<close>)

lemma run_work:
  "pool_run w start paths es p = Some p' \<Longrightarrow> pool_ok w n r0 p
     \<Longrightarrow> work_left p' + length (filter working es) \<le> work_left p"
proof (induction es arbitrary: p)
  case (Cons e es)
  then obtain q where q: "pool_step w start paths e p = Some q" "pool_run w start paths es q = Some p'"
    by (auto split: option.splits)
  show ?case using Cons.IH[OF q(2) pool_step_ok[OF q(1) Cons.prems(2)]]
      step_work[OF q(1) running_distinct[OF Cons.prems(2)]] by auto
qed simp

text \<open>C37: A parallel scan cannot hang by itself: in every reachable state that is not paused either the pool has
  finished or some worker has a step to do, provided the scans of the files at hand return; and there are
  never more than five such steps for each file.\<close>
theorem parallel_scan_progresses:
  assumes "pool_run w start paths es (submit_all paths r) = Some p" "0 < w" "sn_go (po_control p)"
    and "list_all (\<lambda>(i, ph). scan_file env (paths ! i) (po_control p, sr_fs (po_run p)) \<noteq> None) (po_running p)"
  shows "length (filter working es) \<le> 5 * length paths
    \<and> (finished p \<or> (\<exists>e p'. working e \<and> pool_step w start paths e p = Some p'))"
proof -
  have "work_left (submit_all paths r) = 5 * length paths"
    by (simp add: work_left_def submit_all_def weigh_def)
  then have "length (filter working es) \<le> 5 * length paths"
    using run_work[OF assms(1) pool_ok_submit] by simp
  moreover have "\<exists>e p'. working e \<and> pool_step w start paths e p = Some p'" if nf: "\<not> finished p"
  proof (cases "po_running p")
    case Nil
    then obtain i q where "po_queue p = i # q" using nf by (cases "po_queue p") (auto simp: finished_def)
    then have "pool_step w start paths Starts p \<noteq> None" using Nil assms(2) by (simp add: start_task_def)
    then show ?thesis by (intro exI[of _ Starts]) auto
  next
    case (Cons a rest)
    obtain i ph where a: "a = (i, ph)" by (cases a)
    then have m: "map_of (po_running p) i = Some ph" using Cons by simp
    show ?thesis
    proof (cases ph)
      case Entered
      then show ?thesis using m assms(3) by (intro exI[of _ "Admits i"]) (simp add: admit_def)
    next
      case Admitted
      then show ?thesis using m by (intro exI[of _ "Decides i"]) (simp add: decide_def)
    next
      case Cleared
      then show ?thesis using m assms(4) Cons a
        by (intro exI[of _ "Scans i env"]) (auto simp: scan_task_def)
    next
      case (Scanned d)
      then show ?thesis using m by (intro exI[of _ "Books i env"]) (simp add: book_def Let_def)
    qed
  qed
  ultimately show ?thesis by blast
qed

section \<open>Cancellation\<close>

fun scans :: "pool_event \<Rightarrow> bool" where
  "scans (Scans i env) = True"
| "scans _ = False"

fun about_to_scan :: "phase \<Rightarrow> nat" where
  "about_to_scan Cleared = 1"
| "about_to_scan _ = 0"

lemma step_cleared:
  assumes "pool_step w start paths e p = Some p'" "distinct (keys (po_running p))" "sn_cancel (po_control p)"
  shows "weigh about_to_scan (po_running p') + (if scans e then 1 else 0) \<le> weigh about_to_scan (po_running p)"
proof (cases e)
  case Starts
  then show ?thesis using assms(1)
    by (auto simp: start_task_def weigh_def split: list.splits if_splits)
next
  case (Admits i)
  then show ?thesis using assms weigh_update[OF assms(2), of i Entered about_to_scan Admitted]
    by (auto simp: admit_def set_phase_def split: if_splits)
next
  case (Decides i)
  then show ?thesis using assms weigh_delete[OF assms(2), of i Admitted about_to_scan]
    by (auto simp: decide_def split: if_splits)
next
  case (Scans i env)
  then obtain x where "map_of (po_running p) i = Some Cleared"
    "po_running p' = AList.update i (Scanned x) (po_running p)"
    using assms(1) by (auto elim: scan_task_running)
  then show ?thesis using Scans weigh_update[OF assms(2), of i Cleared about_to_scan "Scanned x"] by simp
next
  case (Books i env)
  then obtain d where "map_of (po_running p) i = Some (Scanned d)"
    "po_running p' = AList.delete i (po_running p)"
    using assms(1) by (auto elim: book_running)
  then show ?thesis using Books weigh_delete[OF assms(2), of i "Scanned d" about_to_scan] by simp
qed (use assms in \<open>auto simp: look_def split: if_splits\<close>)

lemma run_cleared:
  "\<lbrakk>pool_run w start paths es p = Some p'; pool_ok w n r0 p; sn_cancel (po_control p)\<rbrakk>
    \<Longrightarrow> length (filter scans es) \<le> weigh about_to_scan (po_running p)"
proof (induction es arbitrary: p)
  case (Cons e es)
  then obtain q where q: "pool_step w start paths e p = Some q" "pool_run w start paths es q = Some p'"
    by (auto split: option.splits)
  show ?case
    using Cons.IH[OF q(2) pool_step_ok[OF q(1) Cons.prems(2)] pool_step_cancel[OF q(1) Cons.prems(3)]]
      step_cleared[OF q(1) running_distinct[OF Cons.prems(2)] Cons.prems(3)] by auto
qed simp

lemma weigh_le: "weigh about_to_scan d \<le> length d"
proof (induction d)
  case (Cons a d)
  then show ?case by (cases "snd a") (simp_all add: weigh_def)
qed (simp add: weigh_def)

text \<open>C38: After a cancellation a parallel scan scans at most as many further files as it has workers.\<close>
theorem cancelled_pool_bound:
  assumes "pool_run w start paths es (submit_all paths r) = Some p" "sn_cancel (po_control p)"
    and "pool_run w start paths es' p = Some p'"
  shows "length (filter scans es') \<le> w"
proof -
  note ok = submitted_ok[OF assms(1)]
  have "length (filter scans es') \<le> weigh about_to_scan (po_running p)"
    by (rule run_cleared[OF assms(3) ok assms(2)])
  also have "\<dots> \<le> w" using weigh_le ok by (auto simp: pool_ok_def intro: le_trans)
  finally show ?thesis .
qed

section \<open>Witnesses\<close>

definition demo_targets :: "string list" where
  "demo_targets = [''a.pdf.exe'', ''a.pdf.exe'']"

definition demo_events :: "pool_event list" where
  \<comment> \<open>two workers, the second of which overtakes the first; the scan is paused and resumed meanwhile\<close>
  "demo_events =
     [Starts, Starts, Admits 1, Requested Pause, Decides 1, Scans 1 demo_scan_env, Requested Resume, Admits 0,
      Books 1 demo_scan_env, Looks, Decides 0, Scans 0 demo_scan_env, Books 0 demo_scan_env, Looks]"

definition demo_pool_call :: pool_call where
  "demo_pool_call = \<lparr>pc_early = [], pc_listed = 0, pc_list_env = demo_scan_env, pc_events = demo_events\<rparr>"

lemma demo_listed: "target_files demo_scan_env False ''a.pdf.exe'' lure_fs = [''a.pdf.exe'']"
  by (simp add: target_files_def demo_scan_os lure_file)

lemma demo_scan_returns:
  "sn_classifier sc = lure_class \<Longrightarrow> \<not> sn_auto sc \<Longrightarrow>
   scan_file demo_scan_env ''a.pdf.exe'' (sc, lure_fs) = Some (Inr (Some lure_detection), sc, lure_fs)"
  by (simp add: lure_scanned quarantine_stage_def)

lemmas pool_steps = start_task_def admit_def decide_def scan_task_def book_def look_def set_phase_def
  po_control_def Let_def add_threats_def

lemma demo_parallel:
  "\<exists>sm sc'. execute_parallel (demo_call [] []) demo_pool_call 2 demo_targets CUSTOM (demo_scanner False, lure_fs)
     = Some (Inr sm, sc', lure_fs) \<and> su_status sm = COMPLETED"
  by (simp add: execute_parallel_def begin_scan_def demo_pool_call_def demo_targets_def demo_call_def demo_listed
      list_files_def submit_all_def demo_events_def pool_steps demo_scan_returns finished_def end_scan_def)


definition demo_run :: scan_run where
  "demo_run =
     \<lparr>sr_next = 0, sr_scanner = demo_scanner False, sr_fs = lure_fs,
      sr_progress = \<lparr>pr_files = 0, pr_threats = 0, pr_current = [], pr_start = 0, pr_elapsed = 0, pr_bytes = 0,
                     pr_estimate = 0\<rparr>, sr_threats = []\<rparr>"

theorem parallel_scan_progresses_witness:
  "\<exists>p. pool_run 2 0 demo_targets [Starts, Starts, Admits 1, Decides 1] (submit_all demo_targets demo_run) = Some p
     \<and> po_running p = [(0, Entered), (1, Cleared)]
     \<and> (finished p \<or> (\<exists>e p'. working e \<and> pool_step 2 0 demo_targets e p = Some p'))"
proof -
  have g: "sn_go (demo_scanner False)" "\<not> sn_cancel (demo_scanner False)"
    by (simp_all add: demo_scanner_def new_scanner_def)
  obtain p where p: "pool_run 2 0 demo_targets [Starts, Starts, Admits 1, Decides 1]
      (submit_all demo_targets demo_run) = Some p" "po_running p = [(0, Entered), (1, Cleared)]"
    "po_run p = demo_run"
    using g by (simp add: submit_all_def demo_targets_def pool_steps demo_run_def)
  have "sn_go (po_control p)" using p(3) g by (simp add: po_control_def demo_run_def)
  moreover have "list_all (\<lambda>(i, ph). scan_file demo_scan_env (demo_targets ! i)
      (po_control p, sr_fs (po_run p)) \<noteq> None) (po_running p)"
    by (simp add: p demo_targets_def po_control_def demo_run_def demo_scan_returns)
  ultimately show ?thesis using parallel_scan_progresses[OF p(1)] p by auto
qed

theorem cancelled_pool_bound_witness:
  "\<exists>p p'. pool_run 2 0 demo_targets [Starts, Starts, Admits 1, Decides 1, Requested Cancel]
       (submit_all demo_targets demo_run) = Some p
     \<and> pool_run 2 0 demo_targets [Scans 1 demo_scan_env, Admits 0, Decides 0] p = Some p'
     \<and> length (filter scans [Scans 1 demo_scan_env, Admits 0, Decides 0]) \<le> 2"
proof -
  have g: "sn_go (demo_scanner False)" "\<not> sn_cancel (demo_scanner False)"
    by (simp_all add: demo_scanner_def new_scanner_def)
  obtain p where p: "pool_run 2 0 demo_targets [Starts, Starts, Admits 1, Decides 1, Requested Cancel]
      (submit_all demo_targets demo_run) = Some p" "po_running p = [(0, Entered), (1, Cleared)]"
    "po_run p = demo_run\<lparr>sr_scanner := control Cancel (demo_scanner False)\<rparr>"
    using g by (simp add: submit_all_def demo_targets_def pool_steps demo_run_def)
  obtain p' where p': "pool_run 2 0 demo_targets [Scans 1 demo_scan_env, Admits 0, Decides 0] p = Some p'"
    by (simp add: p pool_steps demo_targets_def demo_run_def demo_scan_returns)
  have "sn_cancel (po_control p)" using p(3) by (simp add: po_control_def)
  from cancelled_pool_bound[OF p(1) this p'] show ?thesis using p(1) p' by auto
qed

end
