(* ===== verification/Windows.thy ===== *)
theory Windows
  imports Schema Scoring
begin

text \<open>
  Sliding windows and the contract of a burst detector. The heuristics keep, for each key, a deque of
  times: an observation appends the time and drops old times from the left; a signal is reported when
  the deque is long enough and the key has not been reported before. The locale \<open>burst_detector\<close> states
  this as laws on one observation; its lemmas say what a whole run reports: at most one signal for a
  key, and, for times in order, a signal exactly when some observation has enough observations of its
  key within the window before it.
\<close>

section \<open>Sliding windows\<close>

definition slide :: "real \<Rightarrow> real \<Rightarrow> real list \<Rightarrow> real list" where
  \<comment> \<open>append, then \<open>while dq and dq[0] < cutoff: dq.popleft()\<close>\<close>
  "slide now width dq = dropWhile (\<lambda>t. t < now - width) (dq @ [now])"

definition window_of :: "(string, real list) dict \<Rightarrow> string \<Rightarrow> real list" where
  "window_of d k = (case map_of d k of None \<Rightarrow> [] | Some dq \<Rightarrow> dq)"

definition count_since :: "real \<Rightarrow> real list \<Rightarrow> nat" where
  "count_since cutoff dq = length (filter (\<lambda>t. cutoff \<le> t) dq)"

lemma window_of_Nil [simp]: "window_of [] k = []"
  by (simp add: window_of_def)

lemma window_of_update [simp]:
  "window_of (AList.update k dq d) j = (if j = k then dq else window_of d j)"
  by (simp add: window_of_def)

lemma slide_bounds: "t \<in> set (slide now width dq) \<Longrightarrow> t = now \<or> t \<in> set dq"
  by (auto simp: slide_def dest: set_dropWhileD)

lemma slide_length: "length (slide now width dq) \<le> Suc (length dq)"
  using length_dropWhile_le[of "\<lambda>t. t < now - width" "dq @ [now]"] by (simp add: slide_def)

lemma slide_nonempty: "0 \<le> width \<Longrightarrow> slide now width dq \<noteq> []"
  by (auto simp: slide_def dropWhile_append)

lemma dropWhile_sorted_filter:
  "sorted xs \<Longrightarrow> dropWhile (\<lambda>t. t < (c::real)) xs = filter (\<lambda>t. c \<le> t) xs"
proof (induction xs)
  case (Cons x xs)
  show ?case
  proof (cases "x < c")
    case True
    with Cons show ?thesis by simp
  next
    case False
    with Cons.prems have "\<forall>t \<in> set xs. c \<le> t" by auto
    with False show ?thesis by (simp add: filter_id_conv)
  qed
qed simp

lemma slide_sorted: "sorted (dq @ [now]) \<Longrightarrow> slide now width dq = filter (\<lambda>t. now - width \<le> t) (dq @ [now])"
  unfolding slide_def by (rule dropWhile_sorted_filter)

lemma sorted_slide: "sorted (dq @ [now]) \<Longrightarrow> sorted (slide now width dq)"
  by (simp only: slide_sorted sorted_wrt_filter)

lemma filter_slide:
  assumes "sorted (ts @ [now])" and "dq = filter (\<lambda>t. l0 - width \<le> t) ts" and "l0 \<le> now"
  shows "slide now width dq = filter (\<lambda>t. now - width \<le> t) (ts @ [now])"
proof -
  have "sorted (dq @ [now])" using assms(1,2) by (auto simp: sorted_append sorted_wrt_filter)
  then have "slide now width dq = filter (\<lambda>t. now - width \<le> t) (dq @ [now])" by (rule slide_sorted)
  moreover have "filter (\<lambda>t. now - width \<le> t) dq = filter (\<lambda>t. now - width \<le> t) ts"
    unfolding assms(2) filter_filter by (rule filter_cong) (use assms(3) in auto)
  ultimately show ?thesis by simp
qed

section \<open>Burst detectors\<close>

locale burst_detector =
  fixes observe :: "real \<Rightarrow> 'e \<Rightarrow> 's \<Rightarrow> bool \<times> 's"
    and key_of :: "'e \<Rightarrow> string option"
    and valid :: "'e \<Rightarrow> bool"
    and win :: "'s \<Rightarrow> string \<Rightarrow> real list"
    and latched :: "'s \<Rightarrow> string \<Rightarrow> bool"
    and width :: real
    and enough :: real
    and good :: "'s \<Rightarrow> bool"
  assumes own_window: "good s \<Longrightarrow> valid e \<Longrightarrow> key_of e = Some k \<Longrightarrow> observe now e s = (f, s')
      \<Longrightarrow> win s' k = slide now width (win s k)"
    and other_window: "good s \<Longrightarrow> valid e \<Longrightarrow> key_of e \<noteq> Some k \<Longrightarrow> observe now e s = (f, s')
      \<Longrightarrow> win s' k = win s k \<and> latched s' k = latched s k"
    and fires_iff: "good s \<Longrightarrow> valid e \<Longrightarrow> key_of e = Some k \<Longrightarrow> observe now e s = (f, s')
      \<Longrightarrow> f \<longleftrightarrow> enough \<le> real (length (win s' k)) \<and> \<not> latched s k"
    and latches: "good s \<Longrightarrow> valid e \<Longrightarrow> key_of e = Some k \<Longrightarrow> observe now e s = (f, s')
      \<Longrightarrow> latched s' k \<longleftrightarrow> latched s k \<or> f"
    and keyless: "good s \<Longrightarrow> valid e \<Longrightarrow> key_of e = None \<Longrightarrow> observe now e s = (f, s') \<Longrightarrow> \<not> f"
    and keeps_good: "good s \<Longrightarrow> valid e \<Longrightarrow> observe now e s = (f, s') \<Longrightarrow> good s'"
begin

fun run :: "(real \<times> 'e) list \<Rightarrow> 's \<Rightarrow> (string option \<times> bool) list \<times> 's" where
  "run [] s = ([], s)"
| "run ((now, e) # es) s =
     (let (f, s1) = observe now e s; (fs, s2) = run es s1 in ((key_of e, f) # fs, s2))"

definition times_of :: "string \<Rightarrow> (real \<times> 'e) list \<Rightarrow> real list" where
  "times_of k es = map fst (filter (\<lambda>(t, e). key_of e = Some k) es)"

lemma run_append:
  "run (es @ fs) s = (let (a, s1) = run es s; (b, s2) = run fs s1 in (a @ b, s2))"
  by (induction es s rule: run.induct) (auto split: prod.splits)

lemma run_snoc:
  "run (es @ [(now, e)]) s =
     (let (a, s1) = run es s; (f, s2) = observe now e s1 in (a @ [(key_of e, f)], s2))"
  by (simp add: run_append split: prod.splits)

lemma run_length: "length (fst (run es s)) = length es"
  by (induction es s rule: run.induct) (auto split: prod.splits)

lemma run_keys: "map fst (fst (run es s)) = map (key_of \<circ> snd) es"
  by (induction es s rule: run.induct) (auto split: prod.splits)

lemma run_good:
  assumes "good s" and "\<forall>(t, e) \<in> set es. valid e" and "run es s = (rs, s')"
  shows "good s'"
  using assms
proof (induction es arbitrary: s rs)
  case (Cons te es)
  obtain t e where te: "te = (t, e)" by (cases te)
  obtain f s1 where o: "observe t e s = (f, s1)" by fastforce
  from Cons.prems te have "good s1" by (intro keeps_good[OF _ _ o]) auto
  with Cons te o show ?case by (auto split: prod.splits)
qed simp

lemma run_latched:
  assumes g: "good s" and "\<forall>(t, e) \<in> set es. valid e" and "run es s = (rs, s')"
  shows "latched s' k \<longleftrightarrow> latched s k \<or> (Some k, True) \<in> set rs"
  using assms(2,3)
proof (induction es arbitrary: rs s' rule: rev_induct)
  case (snoc te es)
  obtain t e where te: "te = (t, e)" by (cases te)
  obtain a s1 where r1: "run es s = (a, s1)" by fastforce
  obtain f s2 where o: "observe t e s1 = (f, s2)" by fastforce
  have rs: "rs = a @ [(key_of e, f)]" "s' = s2"
    using snoc.prems(2) te r1 o by (auto simp: run_snoc)
  have v: "valid e" and vs: "\<forall>(t, e) \<in> set es. valid e" using snoc.prems(1) te by simp_all
  have g1: "good s1" by (rule run_good[OF g vs r1])
  have IH: "latched s1 k \<longleftrightarrow> latched s k \<or> (Some k, True) \<in> set a"
    using snoc.IH[OF _ r1] snoc.prems(1) by simp
  show ?case
  proof (cases "key_of e = Some k")
    case True
    with latches[OF g1 v True o] IH rs show ?thesis by auto
  next
    case False
    with other_window[OF g1 v False o] IH rs show ?thesis by auto
  qed
qed simp

lemma fires_once:
  assumes g: "good s" and "\<forall>(t, e) \<in> set es. valid e" and "run es s = (rs, s')"
  shows "length (filter (\<lambda>r. r = (Some k, True)) rs) \<le> (if latched s k then 0 else 1)"
  using assms(2,3)
proof (induction es arbitrary: rs s' rule: rev_induct)
  case (snoc te es)
  obtain t e where te: "te = (t, e)" by (cases te)
  obtain a s1 where r1: "run es s = (a, s1)" by fastforce
  obtain f s2 where o: "observe t e s1 = (f, s2)" by fastforce
  have rs: "rs = a @ [(key_of e, f)]" using snoc.prems(2) te r1 o by (auto simp: run_snoc)
  have v: "valid e" and vs: "\<forall>(t, e) \<in> set es. valid e" using snoc.prems(1) te by simp_all
  have g1: "good s1" by (rule run_good[OF g vs r1])
  have IH: "length (filter (\<lambda>r. r = (Some k, True)) a) \<le> (if latched s k then 0 else 1)"
    using snoc.IH[OF vs r1] .
  show ?case
  proof (cases "(key_of e, f) = (Some k, True)")
    case False
    then have "filter (\<lambda>r. r = (Some k, True)) rs = filter (\<lambda>r. r = (Some k, True)) a"
      using rs by simp
    with IH show ?thesis by (simp only:)
  next
    case True
    then have k: "key_of e = Some k" and "f" by simp_all
    with fires_iff[OF g1 v k o] have "\<not> latched s1 k" by simp
    then have "\<not> latched s k" and "(Some k, True) \<notin> set a"
      using run_latched[OF g vs r1] by auto
    then have "filter (\<lambda>r. r = (Some k, True)) a = []" and "\<not> latched s k"
      by (auto simp: filter_empty_conv)
    then show ?thesis using rs by simp
  qed
qed simp

lemma fires_count:
  assumes "good s" and "\<forall>(t, e) \<in> set es. valid e" and "run es s = (rs, s')" and "\<not> latched s k"
  shows "length (filter (\<lambda>r. r = (Some k, True)) rs) = (if (Some k, True) \<in> set rs then 1 else 0)"
proof -
  have "filter (\<lambda>r. r = (Some k, True)) rs = [] \<longleftrightarrow> (Some k, True) \<notin> set rs"
    by (auto simp: filter_empty_conv)
  with fires_once[OF assms(1-3), of k] assms(4) show ?thesis
    by (cases "filter (\<lambda>r. r = (Some k, True)) rs") simp_all
qed

lemma run_window:
  assumes g: "good s" and "\<forall>(t, e) \<in> set es. valid e" and "sorted (map fst es)" and "run es s = (rs, s')"
    and "win s k = []"
  shows "win s' k = (if times_of k es = [] then []
     else filter (\<lambda>t. List.last (times_of k es) - width \<le> t) (times_of k es))"
  using assms(2,3,4)
proof (induction es arbitrary: rs s' rule: rev_induct)
  case Nil
  then show ?case using assms(5) by (simp add: times_of_def)
next
  case (snoc te es)
  obtain t e where te: "te = (t, e)" by (cases te)
  obtain a s1 where r1: "run es s = (a, s1)" by fastforce
  obtain f s2 where o: "observe t e s1 = (f, s2)" by fastforce
  have s': "s' = s2" using snoc.prems(3) te r1 o by (auto simp: run_snoc)
  have v: "valid e" and vs: "\<forall>(t, e) \<in> set es. valid e" using snoc.prems(1) te by simp_all
  have g1: "good s1" by (rule run_good[OF g vs r1])
  have so: "sorted (map fst es)" and le: "\<forall>x \<in> set (map fst es). x \<le> t"
    using snoc.prems(2) te by (auto simp: sorted_append)
  note IH = snoc.IH[OF vs so r1]
  have sub: "set (times_of k es) \<subseteq> set (map fst es)" by (auto simp: times_of_def)
  have sk: "sorted (times_of k es)"
    using so unfolding times_of_def
    by (induction es) (auto simp: case_prod_unfold)
  then have sk': "sorted (times_of k es @ [t])" using le sub by (auto simp: sorted_append)
  show ?case
  proof (cases "key_of e = Some k")
    case False
    then have "times_of k (es @ [te]) = times_of k es" by (simp add: times_of_def te)
    with IH other_window[OF g1 v False o] s' show ?thesis by simp
  next
    case True
    then have tk: "times_of k (es @ [te]) = times_of k es @ [t]" by (simp add: times_of_def te)
    have w: "win s2 k = slide t width (win s1 k)" by (rule own_window[OF g1 v True o])
    show ?thesis
    proof (cases "times_of k es = []")
      case True
      with IH have "win s1 k = []" by simp
      with w True tk s' show ?thesis by (simp add: slide_def)
    next
      case False
      then have "List.last (times_of k es) \<le> t" using sub le by (meson last_in_set subsetD)
      with filter_slide[OF sk' _ this] IH False w tk s' show ?thesis by simp
    qed
  qed
qed

lemma burst_reported_iff:
  assumes g: "good s" and v: "\<forall>(t, e) \<in> set es. valid e" and so: "sorted (map fst es)" and r: "run es s = (rs, s')"
    and w: "win s k = []" and l: "\<not> latched s k" and pos: "0 < enough"
  shows "(Some k, True) \<in> set rs \<longleftrightarrow>
     (\<exists>n. let ts = times_of k (take n es)
          in ts \<noteq> [] \<and> enough \<le> real (count_since (List.last ts - width) ts))"
  using v so r
proof (induction es arbitrary: rs s' rule: rev_induct)
  case Nil
  then show ?case by (simp add: times_of_def)
next
  case (snoc te es)
  obtain t e where te: "te = (t, e)" by (cases te)
  obtain a s1 where r1: "run es s = (a, s1)" by fastforce
  obtain f s2 where o: "observe t e s1 = (f, s2)" by fastforce
  have rs: "rs = a @ [(key_of e, f)]" and s': "s' = s2"
    using snoc.prems(3) te r1 o by (auto simp: run_snoc)
  have v: "valid e" and vs: "\<forall>(t, e) \<in> set es. valid e" using snoc.prems(1) te by simp_all
  have g1: "good s1" by (rule run_good[OF g vs r1])
  have sb: "sorted (map fst es)" using snoc.prems(2) by (simp add: sorted_append)
  let ?P = "\<lambda>es. let ts = times_of k es in ts \<noteq> [] \<and> enough \<le> real (count_since (List.last ts - width) ts)"
  have IH: "(Some k, True) \<in> set a \<longleftrightarrow> (\<exists>n. ?P (take n es))"
    using snoc.IH[OF vs sb r1] .
  have split: "(\<exists>n. ?P (take n (es @ [te]))) \<longleftrightarrow> (\<exists>n. ?P (take n es)) \<or> ?P (es @ [te])"
    by (rule ex_take_snoc)
  show ?case
  proof (cases "key_of e = Some k")
    case False
    then have tk: "times_of k (es @ [te]) = times_of k es" by (simp add: times_of_def te)
    have "?P (es @ [te]) \<longrightarrow> (\<exists>n. ?P (take n es))"
      unfolding tk using ex_take_last[where P = ?P and xs = es] by blast
    moreover have "(Some k, True) \<in> set rs \<longleftrightarrow> (Some k, True) \<in> set a" using False rs by simp
    ultimately show ?thesis using IH split by metis
  next
    case True
    have win: "win s2 k = filter (\<lambda>u. t - width \<le> u) (times_of k (es @ [te]))"
      using run_window[OF g snoc.prems(1,2,3) w] True s' by (simp add: times_of_def te)
    have P: "?P (es @ [te]) \<longleftrightarrow> enough \<le> real (length (win s2 k))"
      unfolding win using True by (simp add: times_of_def te count_since_def Let_def)
    have "f \<longleftrightarrow> ?P (es @ [te]) \<and> (Some k, True) \<notin> set a"
      using fires_iff[OF g1 v True o] run_latched[OF g vs r1, of k] l P by auto
    moreover have "(Some k, True) \<in> set rs \<longleftrightarrow> (Some k, True) \<in> set a \<or> f" using True rs by auto
    ultimately show ?thesis using IH split by metis
  qed
qed

end

end
