(* ===== verification/Canary.thy ===== *)
theory Canary
  imports Files
begin

text \<open>
  \<open>engine/canary.py\<close>: the honeypot documents. The templates are the literal bytes of
  \<open>CANARY_TEMPLATES\<close>; the manager is a record with the target directories and the registered traps by
  lower-case canonical path; every method takes the digest function \<open>sha\<close> (\<open>hashlib\<close>), the operating
  system's outcomes \<open>os\<close> and the file system. The lemmas show that an armed manager reports nothing,
  that a report is exactly a lost or altered trap, and that repairing restores every trap.
\<close>

section \<open>Templates and traps\<close>

record canary_template =
  filename :: string
  extension :: string
  sample_content :: bytes

definition docx_template :: canary_template where
  "docx_template = \<lparr>filename = ''!00_financial_statement.docx'', extension = ''.docx'', sample_content =
     ''PK'' @
     [CHR 0x03, CHR 0x04, CHR 0x14, CHR 0x00, CHR 0x06, CHR 0x00, CHR 0x08, CHR 0x00, CHR 0x00, CHR 0x00] @
     ''!'' @
     [CHR 0x00, CHR 0x01, CHR 0x02, CHR 0x03, CHR 0x04, CHR 0x00, CHR 0x00, CHR 0x00, CHR 0x00] @
     ''[Content_Types].xml<?xml version='' @ [CHR 0x22] @ ''1.0'' @ [CHR 0x22] @ '' encoding='' @
     [CHR 0x22] @ ''UTF-8'' @ [CHR 0x22] @ '' standalone='' @ [CHR 0x22] @ ''yes'' @ [CHR 0x22] @
     ''?>'' @ [CHR 0x0A] @ ''<Types xmlns='' @ [CHR 0x22] @
     ''http://schemas.openxmlformats.org/package/2006/content-types'' @ [CHR 0x22] @ ''>'' @
     [CHR 0x0A] @ ''<Default Extension='' @ [CHR 0x22] @ ''xml'' @ [CHR 0x22] @
     '' ContentType='' @ [CHR 0x22] @ ''application/xml'' @ [CHR 0x22] @ ''/>'' @ [CHR 0x0A] @
     ''<Override PartName='' @ [CHR 0x22] @ ''/word/document.xml'' @ [CHR 0x22] @
     '' ContentType='' @ [CHR 0x22] @
     ''application/vnd.openxmlformats-officedocument.wordprocessingml.documen'' @
     ''t.main+xml'' @ [CHR 0x22] @ ''/>'' @ [CHR 0x0A] @ ''</Types>'' @ [CHR 0x0A] @
     ''<!-- Sentinel Canary Document Vault 2026 -->''\<rparr>"

definition xlsx_template :: canary_template where
  "xlsx_template = \<lparr>filename = ''!00_credentials_vault.xlsx'', extension = ''.xlsx'', sample_content =
     ''PK'' @
     [CHR 0x03, CHR 0x04, CHR 0x14, CHR 0x00, CHR 0x06, CHR 0x00, CHR 0x08, CHR 0x00, CHR 0x00, CHR 0x00] @
     ''!'' @
     [CHR 0x00, CHR 0x05, CHR 0x06, CHR 0x07, CHR 0x08, CHR 0x00, CHR 0x00, CHR 0x00, CHR 0x00] @
     ''[Content_Types].xml<?xml version='' @ [CHR 0x22] @ ''1.0'' @ [CHR 0x22] @ '' encoding='' @
     [CHR 0x22] @ ''UTF-8'' @ [CHR 0x22] @ '' standalone='' @ [CHR 0x22] @ ''yes'' @ [CHR 0x22] @
     ''?>'' @ [CHR 0x0A] @ ''<Types xmlns='' @ [CHR 0x22] @
     ''http://schemas.openxmlformats.org/package/2006/content-types'' @ [CHR 0x22] @ ''>'' @
     [CHR 0x0A] @ ''<Default Extension='' @ [CHR 0x22] @ ''xml'' @ [CHR 0x22] @
     '' ContentType='' @ [CHR 0x22] @ ''application/xml'' @ [CHR 0x22] @ ''/>'' @ [CHR 0x0A] @
     ''<Override PartName='' @ [CHR 0x22] @ ''/xl/workbook.xml'' @ [CHR 0x22] @
     '' ContentType='' @ [CHR 0x22] @
     ''application/vnd.openxmlformats-officedocument.spreadsheetml.sheet.main'' @ ''+xml'' @
     [CHR 0x22] @ ''/>'' @ [CHR 0x0A] @ ''</Types>'' @ [CHR 0x0A] @
     ''<!-- Sentinel Financial Record Trap -->''\<rparr>"

definition pdf_template :: canary_template where
  "pdf_template = \<lparr>filename = ''!00_cloud_backup_keys.pdf'', extension = ''.pdf'', sample_content =
     ''%PDF-1.5'' @ [CHR 0x0A] @ ''%'' @ [CHR 0xE2, CHR 0xE3, CHR 0xCF, CHR 0xD3, CHR 0x0A] @
     ''1 0 obj'' @ [CHR 0x0A] @ ''<< /Type /Catalog /Pages 2 0 R >>'' @ [CHR 0x0A] @ ''endobj'' @
     [CHR 0x0A] @ ''2 0 obj'' @ [CHR 0x0A] @ ''<< /Type /Pages /Kids [3 0 R] /Count 1 >>'' @
     [CHR 0x0A] @ ''endobj'' @ [CHR 0x0A] @ ''3 0 obj'' @ [CHR 0x0A] @
     ''<< /Type /Page /Parent 2 0 R /Resources <<>> /MediaBox [0 0 612 792] >'' @ ''>'' @
     [CHR 0x0A] @ ''endobj'' @ [CHR 0x0A] @ ''xref'' @ [CHR 0x0A] @ ''0 4'' @ [CHR 0x0A] @
     ''0000000000 65535 f '' @ [CHR 0x0A] @ ''0000000015 00000 n '' @ [CHR 0x0A] @
     ''0000000068 00000 n '' @ [CHR 0x0A] @ ''0000000125 00000 n '' @ [CHR 0x0A] @ ''trailer'' @
     [CHR 0x0A] @ ''<< /Size 4 /Root 1 0 R >>'' @ [CHR 0x0A] @ ''startxref'' @ [CHR 0x0A] @
     ''200'' @ [CHR 0x0A] @ ''%%EOF'' @ [CHR 0x0A]\<rparr>"

definition canary_templates :: "canary_template list" where
  "canary_templates = [docx_template, xlsx_template, pdf_template]"

record canary_trap =
  trap_path :: string
  template :: canary_template
  original_sha256 :: string
  original_size :: int
  is_armed :: bool

definition set_hidden_attributes :: "os \<Rightarrow> string \<Rightarrow> fs \<Rightarrow> bool \<times> fs" where
  "set_hidden_attributes os p s =
     (if attr_api os \<and> path_exists os p s
      then (case find_file os p s of None \<Rightarrow> False | Some (c, f) \<Rightarrow> attr_ok os c,
            set_file_attributes os p (0x2 + 0x2000) s)
      else (False, s))"

record canary_manager =
  target_directories :: "string list"
  canaries :: "(string, canary_trap) dict"
  armed_count :: int

definition default_directories :: "os \<Rightarrow> string \<Rightarrow> fs \<Rightarrow> string list" where
  "default_directories os home s =
     (let ds = filter (\<lambda>d. case resolve os d of None \<Rightarrow> False | Some c \<Rightarrow> c \<in> dirs s)
                 (map (path_join (seps os) home)
                    [''Documents'', ''Desktop'', ''Downloads'', ''Pictures''])
      in if ds = [] then [home] else ds)"

definition new_manager :: "os \<Rightarrow> string \<Rightarrow> string list \<Rightarrow> fs \<Rightarrow> canary_manager" where
  "new_manager os home targets s =
     \<lparr>target_directories = (if targets = [] then default_directories os home s else targets),
      canaries = [], armed_count = 0\<rparr>"

definition compute_sha256 :: "(bytes \<Rightarrow> string) \<Rightarrow> bytes \<Rightarrow> string" where
  "compute_sha256 sha d = lower (sha d)"

definition write_canary_content ::
  "os \<Rightarrow> string \<Rightarrow> bytes \<Rightarrow> bool \<Rightarrow> fs \<Rightarrow> string option \<times> fs" where
  \<comment> \<open>the text of the exception, if one is raised, and the file system left behind\<close>
  "write_canary_content os p data set_hidden s =
     (let s1 = (if attr_api os \<and> path_exists os p s then set_file_attributes os p 0x80 s else s)
      in case write_bytes os p data s1 of
           Inl e \<Rightarrow> (Some e, s1)
         | Inr s2 \<Rightarrow>
             (None, if set_hidden \<and> attr_api os then set_file_attributes os p (0x2 + 0x2000) s2
                    else s2))"

definition make_trap :: "(bytes \<Rightarrow> string) \<Rightarrow> string \<Rightarrow> canary_template \<Rightarrow> canary_trap" where
  "make_trap sha p t =
     \<lparr>trap_path = p, template = t, original_sha256 = compute_sha256 sha (sample_content t),
      original_size = int (length (sample_content t)), is_armed = True\<rparr>"

section \<open>Operations\<close>

type_synonym arming = "(string, canary_trap) dict \<times> int \<times> fs"

definition arm_one ::
  "(bytes \<Rightarrow> string) \<Rightarrow> os \<Rightarrow> string \<Rightarrow> arming \<Rightarrow> canary_template \<Rightarrow> arming" where
  "arm_one sha os directory a tmpl =
     (case a of (cs, armed, s) \<Rightarrow>
        let file_path = path_join (seps os) directory (filename tmpl)
        in case write_canary_content os file_path (sample_content tmpl) True s of
             (Some e, s') \<Rightarrow> (cs, armed, s')
           | (None, s') \<Rightarrow>
               (case resolve os file_path of
                  None \<Rightarrow> (cs, armed, s')
                | Some c \<Rightarrow> (AList.update (lower c) (make_trap sha c tmpl) cs, armed + 1, s')))"

definition arm_directory :: "(bytes \<Rightarrow> string) \<Rightarrow> os \<Rightarrow> arming \<Rightarrow> string \<Rightarrow> arming" where
  "arm_directory sha os a directory =
     (case a of (cs, armed, s) \<Rightarrow>
        (case (if path_exists os directory s then Inr s else make_dirs os directory s) of
           Inl e \<Rightarrow> a
         | Inr s' \<Rightarrow> foldl (arm_one sha os directory) (cs, armed, s') canary_templates))"

definition arm_traps ::
  "(bytes \<Rightarrow> string) \<Rightarrow> os \<Rightarrow> canary_manager \<Rightarrow> fs \<Rightarrow> int \<times> canary_manager \<times> fs" where
  "arm_traps sha os m s =
     (case foldl (arm_directory sha os) ([], 0, s) (target_directories m) of
        (cs, armed, s') \<Rightarrow> (armed, m\<lparr>canaries := cs, armed_count := armed\<rparr>, s'))"

definition is_canary :: "os \<Rightarrow> canary_manager \<Rightarrow> string \<Rightarrow> bool" where
  "is_canary os m p =
     (if p = [] then False
      else case resolve os p of
             None \<Rightarrow> False
           | Some c \<Rightarrow> lower c \<in> set (keys (canaries m)))"

definition check_trap ::
  "(bytes \<Rightarrow> string) \<Rightarrow> os \<Rightarrow> fs \<Rightarrow> canary_trap \<Rightarrow> bool \<times> string" where
  "check_trap sha os s t =
     (let name = path_name (seps os) (trap_path t)
      in if \<not> path_exists os (trap_path t) s then (True, ''canary_deleted:'' @ name)
         else case read_bytes os (trap_path t) s of
                Inl e \<Rightarrow> (True, ''canary_access_denied_or_locked:'' @ name @ '':'' @ e)
              | Inr d \<Rightarrow>
                  if compute_sha256 sha d \<noteq> original_sha256 t
                    then (True, ''canary_modified_content:'' @ name)
                  else if int (length d) \<noteq> original_size t
                    then (True, ''canary_size_tampered:'' @ name)
                  else (False, ''clean''))"

definition check_tampering ::
  "(bytes \<Rightarrow> string) \<Rightarrow> os \<Rightarrow> canary_manager \<Rightarrow> fs \<Rightarrow> string \<Rightarrow> bool \<times> string" where
  "check_tampering sha os m s p =
     (if p = [] then (False, ''clean'')
      else case resolve os p of
             None \<Rightarrow> (False, ''clean'')
           | Some c \<Rightarrow>
               (case map_of (canaries m) (lower c) of
                  None \<Rightarrow>
                    (let name = path_name (seps os) p
                     in if startswith name ''!00_'' \<and>
                           (\<exists>t \<in> set canary_templates. endswith name (extension t))
                        then (True, ''honeypot_pattern_match:'' @ name) else (False, ''clean''))
                | Some t \<Rightarrow> check_trap sha os s t))"

definition verify_all_canaries ::
  "(bytes \<Rightarrow> string) \<Rightarrow> os \<Rightarrow> canary_manager \<Rightarrow> fs \<Rightarrow> (canary_trap \<times> string) list" where
  "verify_all_canaries sha os m s =
     concat (map (\<lambda>(k, t). let (tampered, reason) = check_tampering sha os m s (trap_path t)
                           in if tampered then [(t, reason)] else []) (canaries m))"

definition repair_one ::
  "(bytes \<Rightarrow> string) \<Rightarrow> os \<Rightarrow> int \<times> canary_manager \<times> fs \<Rightarrow> string \<times> canary_trap
    \<Rightarrow> int \<times> canary_manager \<times> fs" where
  "repair_one sha os st item =
     (case (st, item) of ((repaired, m, s), (norm_path, t)) \<Rightarrow>
        if fst (check_tampering sha os m s (trap_path t)) then
          (case write_canary_content os (trap_path t) (sample_content (template t)) True s of
             (Some e, s') \<Rightarrow> (repaired, m, s')
           | (None, s') \<Rightarrow>
               (repaired + 1,
                m\<lparr>canaries := AList.update norm_path (make_trap sha (trap_path t) (template t))
                               (canaries m)\<rparr>, s'))
        else st)"

definition repair_canaries ::
  "(bytes \<Rightarrow> string) \<Rightarrow> os \<Rightarrow> canary_manager \<Rightarrow> fs \<Rightarrow> int \<times> canary_manager \<times> fs" where
  "repair_canaries sha os m s = foldl (repair_one sha os) (0, m, s) (canaries m)"

definition disarm_one :: "os \<Rightarrow> fs \<Rightarrow> string \<times> canary_trap \<Rightarrow> fs" where
  "disarm_one os s item =
     (let p = trap_path (snd item)
      in if path_exists os p s then
           (let s1 = (if attr_api os then set_file_attributes os p 0x80 s else s)
            in case unlink os p s1 of Inl e \<Rightarrow> s1 | Inr s2 \<Rightarrow> s2)
         else s)"

definition disarm_traps :: "os \<Rightarrow> canary_manager \<Rightarrow> fs \<Rightarrow> canary_manager \<times> fs" where
  "disarm_traps os m s =
     (m\<lparr>canaries := [], armed_count := 0\<rparr>, foldl (disarm_one os) s (canaries m))"

definition get_status :: "canary_manager \<Rightarrow> (string, pyval) dict" where
  "get_status m =
     [(''armed_traps'', VInt (int (length (canaries m)))),
      (''target_directories'', VList (map VStr (target_directories m))),
      (''traps'', VList (map (\<lambda>(k, t).
         VDict [(''path'', VStr (trap_path t)), (''template'', VStr (filename (template t))),
                (''sha256'', VStr (original_sha256 t)), (''is_armed'', VBool (is_armed t))])
         (canaries m)))]"


section \<open>Integrity of a trap\<close>

definition regular_os :: "os \<Rightarrow> bool" where
  \<comment> \<open>resolving gives a path that is not empty, not a link and resolves to itself; reads do not fail\<close>
  "regular_os os \<longleftrightarrow>
     (\<forall>p c. resolve os p = Some c \<longrightarrow> resolve os c = Some c \<and> c \<noteq> [] \<and> \<not> is_link os c) \<and>
     (\<forall>c. read_err os c = None)"

definition writes_work :: "os \<Rightarrow> bool" where
  \<comment> \<open>writing succeeds, on Windows for files without the hidden attribute, which can be cleared\<close>
  "writes_work os \<longleftrightarrow>
     (\<forall>c a. write_err os c a = None) \<or>
     (attr_api os \<and> (\<forall>c. attr_ok os c) \<and> (\<forall>c a. a \<in> {0, 0x80} \<longrightarrow> write_err os c a = None))"

definition trap_ok :: "(bytes \<Rightarrow> string) \<Rightarrow> os \<Rightarrow> string \<times> canary_trap \<Rightarrow> bool" where
  "trap_ok sha os kt \<longleftrightarrow>
     (let t = snd kt in fst kt = lower (trap_path t) \<and> resolve os (trap_path t) = Some (trap_path t)
        \<and> trap_path t \<noteq> [] \<and> is_armed t
        \<and> original_sha256 t = compute_sha256 sha (sample_content (template t))
        \<and> original_size t = int (length (sample_content (template t))))"

definition manager_ok :: "(bytes \<Rightarrow> string) \<Rightarrow> os \<Rightarrow> (string, canary_trap) dict \<Rightarrow> bool" where
  "manager_ok sha os cs \<longleftrightarrow> wf_dict cs \<and> (\<forall>kt \<in> set cs. trap_ok sha os kt)"

definition intact :: "fs \<Rightarrow> canary_trap \<Rightarrow> bool" where
  "intact s t \<longleftrightarrow> bytes_at s (trap_path t) = Some (sample_content (template t))"

lemma manager_okD:
  assumes "manager_ok sha os cs" and "(k, t) \<in> set cs"
  shows "k = lower (trap_path t)" "resolve os (trap_path t) = Some (trap_path t)" "trap_path t \<noteq> []"
    "original_sha256 t = compute_sha256 sha (sample_content (template t))"
    "original_size t = int (length (sample_content (template t)))"
    "map_of cs (lower (trap_path t)) = Some t"
proof -
  have "trap_ok sha os (k, t)" and d: "wf_dict cs"
    using assms by (auto simp: manager_ok_def)
  then show k: "k = lower (trap_path t)" and "resolve os (trap_path t) = Some (trap_path t)"
    "trap_path t \<noteq> []" "original_sha256 t = compute_sha256 sha (sample_content (template t))"
    "original_size t = int (length (sample_content (template t)))"
    by (simp_all add: trap_ok_def Let_def)
  show "map_of cs (lower (trap_path t)) = Some t"
    using assms(2) d by (simp add: map_of_eq_Some_iff k)
qed

lemma manager_ok_update:
  assumes "manager_ok sha os cs" and "resolve os c = Some c" and "c \<noteq> []"
  shows "manager_ok sha os (AList.update (lower c) (make_trap sha c tmpl) cs)"
proof -
  have n: "trap_ok sha os (lower c, make_trap sha c tmpl)"
    using assms(2,3) by (simp add: trap_ok_def make_trap_def Let_def)
  show ?thesis
    using assms(1) n set_update_subset[of "lower c" "make_trap sha c tmpl" cs]
    by (auto simp: manager_ok_def)
qed

lemma check_registered:
  assumes "manager_ok sha os (canaries m)" and "(k, t) \<in> set (canaries m)"
  shows "check_tampering sha os m s (trap_path t) = check_trap sha os s t"
  using manager_okD[OF assms] by (simp add: check_tampering_def)

lemma check_trap_iff:
  assumes "resolve os (trap_path t) = Some (trap_path t)" and "read_err os (trap_path t) = None"
  shows "\<not> fst (check_trap sha os s t) \<longleftrightarrow>
     (\<exists>d. bytes_at s (trap_path t) = Some d \<and> compute_sha256 sha d = original_sha256 t
          \<and> int (length d) = original_size t)"
  using assms
  by (auto simp: check_trap_def Let_def path_exists_def read_bytes_def find_file_def bytes_at_def
           split: option.splits)

lemma check_intact:
  assumes "manager_ok sha os cs" and "(k, t) \<in> set cs" and "read_err os (trap_path t) = None"
    and "intact s t"
  shows "\<not> fst (check_trap sha os s t)"
proof -
  note t = manager_okD[OF assms(1,2)]
  show ?thesis
    unfolding check_trap_iff[OF t(2) assms(3)] using assms(4) t(4,5) by (auto simp: intact_def)
qed

lemma verify_all_eq:
  assumes "manager_ok sha os (canaries m)"
  shows "verify_all_canaries sha os m s =
     map (\<lambda>(k, t). (t, snd (check_trap sha os s t)))
         (filter (\<lambda>(k, t). fst (check_trap sha os s t)) (canaries m))"
proof -
  have "concat (map (\<lambda>(k, t). let (tampered, reason) = check_tampering sha os m s (trap_path t)
                             in if tampered then [(t, reason)] else []) cs)
      = map (\<lambda>(k, t). (t, snd (check_trap sha os s t)))
         (filter (\<lambda>(k, t). fst (check_trap sha os s t)) cs)"
    if "set cs \<subseteq> set (canaries m)" for cs
    using that
  proof (induction cs)
    case (Cons kt cs)
    obtain k t where kt: "kt = (k, t)" by (cases kt)
    have c: "check_tampering sha os m s (trap_path t) = check_trap sha os s t"
      using check_registered[OF assms, of k t s] Cons.prems kt by simp
    show ?case using Cons kt by (simp add: c split: prod.split)
  qed simp
  then show ?thesis by (simp add: verify_all_canaries_def)
qed

lemma verify_all_empty_iff:
  assumes "manager_ok sha os (canaries m)"
  shows "verify_all_canaries sha os m s = [] \<longleftrightarrow>
     (\<forall>(k, t) \<in> set (canaries m). \<not> fst (check_trap sha os s t))"
  by (auto simp: verify_all_eq[OF assms] filter_empty_conv)

section \<open>Arming\<close>

lemma write_canary_contents:
  assumes "write_canary_content os p data h s = (None, s')" and "resolve os p = Some c"
  shows "bytes_at s' = (bytes_at s)(c \<mapsto> data)"
  using assms write_bytes_contents[where os = os and p = p and data = data and c = c]
  by (auto simp: write_canary_content_def Let_def split: sum.splits if_splits)

lemma write_canary_error:
  assumes "write_canary_content os p data h s = (Some e, s')"
  shows "bytes_at s' = bytes_at s"
  using assms by (auto simp: write_canary_content_def Let_def split: sum.splits if_splits)

lemma write_canary_works:
  assumes "writes_work os" and "resolve os p = Some c"
  shows "\<exists>s'. write_canary_content os p data h s = (None, s')"
proof -
  define s1 where "s1 = (if attr_api os \<and> path_exists os p s then set_file_attributes os p 0x80 s else s)"
  have "write_err os c (attrs (case files s1 c of None \<Rightarrow> new_file | Some f \<Rightarrow> f)) = None"
    using assms
    by (auto simp: writes_work_def s1_def file_defs new_file_def split: option.splits)
  then have "\<exists>s2. write_bytes os p data s1 = Inr s2"
    using assms(2) by (auto simp: write_bytes_def Let_def)
  then show ?thesis by (auto simp: write_canary_content_def s1_def[symmetric])
qed

definition armed_ok :: "(bytes \<Rightarrow> string) \<Rightarrow> os \<Rightarrow> string list \<Rightarrow> arming \<Rightarrow> bool" where
  "armed_ok sha os targets a \<longleftrightarrow>
     (case a of (cs, armed, s) \<Rightarrow>
        manager_ok sha os cs \<and>
        (\<forall>(k, t) \<in> set cs. intact s t \<and> template t \<in> set canary_templates \<and>
           (\<exists>d \<in> set targets.
              resolve os (path_join (seps os) d (filename (template t))) = Some (trap_path t))))"

definition traps_separate :: "os \<Rightarrow> string list \<Rightarrow> bool" where
  \<comment> \<open>two traps that lie at one canonical path are made from one template\<close>
  "traps_separate os targets \<longleftrightarrow>
     (\<forall>d \<in> set targets. \<forall>e \<in> set targets. \<forall>t \<in> set canary_templates. \<forall>u \<in> set canary_templates.
        resolve os (path_join (seps os) d (filename t)) \<noteq> None \<longrightarrow>
        resolve os (path_join (seps os) d (filename t))
          = resolve os (path_join (seps os) e (filename u)) \<longrightarrow> t = u)"

lemma traps_separateD:
  assumes "traps_separate os targets"
    and "resolve os (path_join (seps os) d (filename t)) = Some c"
    and "resolve os (path_join (seps os) e (filename u)) = Some c"
    and "d \<in> set targets" "e \<in> set targets" "t \<in> set canary_templates" "u \<in> set canary_templates"
  shows "t = u"
  using assms unfolding traps_separate_def by (metis option.distinct(1))

lemma arm_one_ok:
  assumes reg: "regular_os os" and sep: "traps_separate os targets"
    and a: "armed_ok sha os targets (cs, n, s)" and d: "d \<in> set targets"
    and u: "u \<in> set canary_templates"
  shows "armed_ok sha os targets (arm_one sha os d (cs, n, s) u)"
proof -
  let ?p = "path_join (seps os) d (filename u)"
  obtain e s' where w: "write_canary_content os ?p (sample_content u) True s = (e, s')"
    by fastforce
  show ?thesis
  proof (cases e)
    case (Some x)
    with w have "bytes_at s' = bytes_at s" by (simp add: write_canary_error)
    with Some w a show ?thesis by (simp add: arm_one_def Let_def armed_ok_def intact_def)
  next
    case None
    with w obtain c where c: "resolve os ?p = Some c"
      by (auto simp: write_canary_content_def Let_def dest!: write_bytes_Inr_resolves
               split: sum.splits)
    have cc: "resolve os c = Some c" "c \<noteq> []" using reg c by (auto simp: regular_os_def)
    have b: "bytes_at s' = (bytes_at s)(c \<mapsto> sample_content u)"
      using w None c by (simp add: write_canary_contents)
    have m: "manager_ok sha os (AList.update (lower c) (make_trap sha c u) cs)"
      using a cc by (simp add: armed_ok_def manager_ok_update)
    have new: "intact s' (make_trap sha c u)" by (simp add: intact_def make_trap_def b)
    have old: "intact s' t" if "(k, t) \<in> set cs" for k t
    proof (cases "trap_path t = c")
      case True
      from a that obtain e' where "e' \<in> set targets" "template t \<in> set canary_templates"
        "resolve os (path_join (seps os) e' (filename (template t))) = Some c"
        using True by (auto simp: armed_ok_def)
      from traps_separateD[OF sep this(3) c this(1) d this(2) u] have "template t = u" .
      with True show ?thesis by (simp add: intact_def b)
    next
      case False
      with a that show ?thesis by (auto simp: armed_ok_def intact_def b)
    qed
    have "armed_ok sha os targets (AList.update (lower c) (make_trap sha c u) cs, n + 1, s')"
      unfolding armed_ok_def prod.case
    proof (intro conjI m ballI)
      fix kt assume "kt \<in> set (AList.update (lower c) (make_trap sha c u) cs)"
      then have "kt = (lower c, make_trap sha c u) \<or> kt \<in> set cs"
        using set_update_subset by fastforce
      then show "case kt of (k, t) \<Rightarrow> intact s' t \<and> template t \<in> set canary_templates \<and>
          (\<exists>d \<in> set targets.
             resolve os (path_join (seps os) d (filename (template t))) = Some (trap_path t))"
      proof
        assume "kt = (lower c, make_trap sha c u)"
        with new d u c show ?thesis by (auto simp: make_trap_def)
      next
        assume "kt \<in> set cs"
        with a old show ?thesis by (fastforce simp: armed_ok_def)
      qed
    qed
    with None w c show ?thesis by (simp add: arm_one_def Let_def)
  qed
qed

lemma foldl_keeps:
  "P a \<Longrightarrow> (\<And>a x. P a \<Longrightarrow> x \<in> set xs \<Longrightarrow> P (f a x)) \<Longrightarrow> P (foldl f a xs)"
  by (induction xs arbitrary: a) auto

lemma arm_directory_ok:
  assumes reg: "regular_os os" and sep: "traps_separate os targets"
    and a: "armed_ok sha os targets a" and d: "d \<in> set targets"
  shows "armed_ok sha os targets (arm_directory sha os a d)"
proof -
  obtain cs n s where [simp]: "a = (cs, n, s)" by (cases a)
  show ?thesis
  proof (cases "if path_exists os d s then Inr s else make_dirs os d s")
    case (Inl e)
    with a show ?thesis by (simp add: arm_directory_def)
  next
    case (Inr s')
    then have "bytes_at s' = bytes_at s"
      using make_dirs_contents by (auto split: if_splits)
    with a have "armed_ok sha os targets (cs, n, s')"
      by (simp add: armed_ok_def intact_def)
    then have "armed_ok sha os targets (foldl (arm_one sha os d) (cs, n, s') canary_templates)"
      by (rule foldl_keeps) (metis arm_one_ok[OF reg sep _ d] prod_cases3)
    with Inr show ?thesis by (simp add: arm_directory_def)
  qed
qed

lemma arm_traps_ok:
  assumes "regular_os os" and "traps_separate os (target_directories m)"
    and "arm_traps sha os m s = (n, m', s')"
  shows "armed_ok sha os (target_directories m) (canaries m', n, s')"
    "target_directories m' = target_directories m" "armed_count m' = n"
proof -
  let ?f = "foldl (arm_directory sha os) ([], 0, s) (target_directories m)"
  have "armed_ok sha os (target_directories m) ([], 0, s)"
    by (simp add: armed_ok_def manager_ok_def)
  then have ok: "armed_ok sha os (target_directories m) ?f"
    by (rule foldl_keeps) (rule arm_directory_ok[OF assms(1,2)])
  obtain cs k t where f: "?f = (cs, k, t)" by (metis prod_cases3)
  with ok assms(3) show "armed_ok sha os (target_directories m) (canaries m', n, s')"
    "target_directories m' = target_directories m" "armed_count m' = n"
    by (auto simp: arm_traps_def)
qed

lemma verify_intact:
  assumes "manager_ok sha os (canaries m)" and "regular_os os"
    and "\<forall>(k, t) \<in> set (canaries m). intact s t"
  shows "verify_all_canaries sha os m s = []"
  unfolding verify_all_empty_iff[OF assms(1)]
  using assms(2,3) check_intact[OF assms(1)] by (fastforce simp: regular_os_def)

section \<open>Repair and removal\<close>

lemma make_trap_same:
  assumes "manager_ok sha os cs" and "(k, t) \<in> set cs"
  shows "make_trap sha (trap_path t) (template t) = t"
proof -
  have "is_armed t"
    using assms by (auto simp: manager_ok_def trap_ok_def Let_def)
  with manager_okD[OF assms] show ?thesis by (simp add: make_trap_def)
qed

lemma update_same: "map_of d k = Some v \<Longrightarrow> wf_dict d \<Longrightarrow> AList.update k v d = d"
  by (induction d) (auto dest: map_of_SomeD)

lemma repair_one_eq:
  assumes ok: "manager_ok sha os (canaries m)" and kt: "(k, t) \<in> set (canaries m)"
    and w: "writes_work os"
  shows "\<exists>s'. repair_one sha os (n, m, s) (k, t) =
       (n + (if fst (check_trap sha os s t) then 1 else 0), m, s')
     \<and> bytes_at s' = (if fst (check_trap sha os s t)
          then (bytes_at s)(trap_path t \<mapsto> sample_content (template t)) else bytes_at s)"
proof (cases "fst (check_trap sha os s t)")
  case False
  with check_registered[OF ok kt] show ?thesis by (simp add: repair_one_def)
next
  case True
  note t = manager_okD[OF ok kt]
  obtain s' where s': "write_canary_content os (trap_path t) (sample_content (template t)) True s
      = (None, s')"
    using write_canary_works[OF w t(2)] by blast
  have "AList.update k t (canaries m) = canaries m"
    using t(6) ok t(1) by (simp add: update_same manager_ok_def)
  moreover have "bytes_at s' = (bytes_at s)(trap_path t \<mapsto> sample_content (template t))"
    by (rule write_canary_contents[OF s' t(2)])
  ultimately show ?thesis
    using True check_registered[OF ok kt] s' make_trap_same[OF ok kt]
    by (simp add: repair_one_def)
qed

lemma check_trap_bytes:
  assumes "manager_ok sha os cs" and "(k, t) \<in> set cs" and "regular_os os"
    and "bytes_at s (trap_path t) = bytes_at s' (trap_path t)"
  shows "fst (check_trap sha os s t) = fst (check_trap sha os s' t)"
proof -
  have r: "read_err os (trap_path t) = None" using assms(3) by (simp add: regular_os_def)
  show ?thesis
    using check_trap_iff[OF manager_okD(2)[OF assms(1,2)] r] assms(4) by metis
qed

lemma repair_fold:
  assumes ok: "manager_ok sha os (canaries m)" and w: "writes_work os" and reg: "regular_os os"
    and sub: "set cs \<subseteq> set (canaries m)" and d: "wf_dict cs"
  shows "\<exists>s'. foldl (repair_one sha os) (n, m, s) cs =
       (n + int (length (filter (\<lambda>kt. fst (check_trap sha os s (snd kt))) cs)), m, s')
     \<and> (\<forall>(k, t) \<in> set cs. \<not> fst (check_trap sha os s' t))
     \<and> (\<forall>p. p \<notin> (trap_path \<circ> snd) ` set cs \<longrightarrow> bytes_at s' p = bytes_at s p)"
  using sub d
proof (induction cs arbitrary: n s)
  case (Cons kt cs)
  obtain k t where kt: "kt = (k, t)" by (cases kt)
  have mem: "(k, t) \<in> set (canaries m)" using Cons.prems kt by simp
  note t = manager_okD[OF ok mem]
  have sub': "set cs \<subseteq> set (canaries m)" and d': "wf_dict cs" using Cons.prems by simp_all
  have r: "read_err os p = None" for p using reg by (simp add: regular_os_def)
  obtain s1 where s1: "repair_one sha os (n, m, s) (k, t) =
       (n + (if fst (check_trap sha os s t) then 1 else 0), m, s1)"
    and b: "bytes_at s1 = (if fst (check_trap sha os s t)
          then (bytes_at s)(trap_path t \<mapsto> sample_content (template t)) else bytes_at s)"
    using repair_one_eq[OF ok mem w] by blast
  have path: "trap_path u \<noteq> trap_path t" if "(j, u) \<in> set cs" for j u
  proof -
    have "(j, u) \<in> set (canaries m)" using that Cons.prems by auto
    then have "j = lower (trap_path u)" by (rule manager_okD(1)[OF ok])
    moreover have "j \<noteq> k" using that Cons.prems kt by force
    ultimately show ?thesis using t(1) by auto
  qed
  have same: "fst (check_trap sha os s1 u) = fst (check_trap sha os s u)" if "(j, u) \<in> set cs" for j u
    by (rule check_trap_bytes[OF ok _ reg, of j]) (use that Cons.prems path b in auto)
  obtain s' where s': "foldl (repair_one sha os)
       (n + (if fst (check_trap sha os s t) then 1 else 0), m, s1) cs =
       (n + (if fst (check_trap sha os s t) then 1 else 0)
        + int (length (filter (\<lambda>kt. fst (check_trap sha os s1 (snd kt))) cs)), m, s')"
    and good: "\<forall>(k, t) \<in> set cs. \<not> fst (check_trap sha os s' t)"
    and keep: "\<forall>p. p \<notin> (trap_path \<circ> snd) ` set cs \<longrightarrow> bytes_at s' p = bytes_at s1 p"
    using Cons.IH[of _ s1] sub' d' by blast
  have cnt: "filter (\<lambda>kt. fst (check_trap sha os s1 (snd kt))) cs
      = filter (\<lambda>kt. fst (check_trap sha os s (snd kt))) cs"
    by (rule filter_cong) (use same in auto)
  have own: "bytes_at s' (trap_path t) = bytes_at s1 (trap_path t)"
    using keep path by force
  have "\<not> fst (check_trap sha os s1 t)"
  proof (cases "fst (check_trap sha os s t)")
    case True
    then have "intact s1 t" using b by (simp add: intact_def)
    then show ?thesis by (rule check_intact[OF ok mem r])
  next
    case False
    then have e: "bytes_at s1 (trap_path t) = bytes_at s (trap_path t)" using b by simp
    from False check_trap_bytes[OF ok mem reg e] show ?thesis by metis
  qed
  then have "\<not> fst (check_trap sha os s' t)"
    using check_trap_bytes[OF ok mem reg own] by metis
  then have "\<forall>(k, t) \<in> set (kt # cs). \<not> fst (check_trap sha os s' t)"
    using good kt by simp
  moreover have "\<forall>p. p \<notin> (trap_path \<circ> snd) ` set (kt # cs) \<longrightarrow> bytes_at s' p = bytes_at s p"
    using keep b kt by (simp split: if_splits)
  moreover have "foldl (repair_one sha os) (n, m, s) (kt # cs) =
      (n + int (length (filter (\<lambda>kt. fst (check_trap sha os s (snd kt))) (kt # cs))), m, s')"
    using s1 s' cnt kt by simp
  ultimately show ?case by blast
qed simp

lemma repair_effect:
  assumes ok: "manager_ok sha os (canaries m)" and w: "writes_work os" and reg: "regular_os os"
    and r: "repair_canaries sha os m s = (n, m', s')"
  shows "m' = m" "n = int (length (verify_all_canaries sha os m s))"
    "verify_all_canaries sha os m' s' = []"
    "p \<notin> trap_path ` set (map snd (canaries m)) \<Longrightarrow> bytes_at s' p = bytes_at s p"
proof -
  have "wf_dict (canaries m)" using ok by (simp add: manager_ok_def)
  from repair_fold[OF ok w reg subset_refl this, of 0 s] r
  have f: "m' = m" "n = int (length (filter (\<lambda>kt. fst (check_trap sha os s (snd kt))) (canaries m)))"
    "\<forall>(k, t) \<in> set (canaries m). \<not> fst (check_trap sha os s' t)"
    "\<forall>p. p \<notin> (trap_path \<circ> snd) ` set (canaries m) \<longrightarrow> bytes_at s' p = bytes_at s p"
    by (auto simp: repair_canaries_def)
  show "m' = m" by (rule f(1))
  show "n = int (length (verify_all_canaries sha os m s))"
    using f(2) by (simp add: verify_all_eq[OF ok] case_prod_unfold)
  show "verify_all_canaries sha os m' s' = []"
    using f(1,3) verify_all_empty_iff[OF ok] by simp
  show "bytes_at s' p = bytes_at s p" if "p \<notin> trap_path ` set (map snd (canaries m))"
    using f(4) that by (auto simp: image_comp)
qed

lemma disarm_one_contents:
  assumes "resolve os (trap_path t) = Some (trap_path t)" and "unlink_err os (trap_path t) = None"
    and "\<not> is_link os (trap_path t)"
  shows "bytes_at (disarm_one os s (k, t)) = (bytes_at s)(trap_path t := None)"
  using assms
  by (auto simp: disarm_one_def file_defs fun_eq_iff split: option.splits)

lemma disarm_fold:
  assumes "\<forall>(k, t) \<in> set cs. resolve os (trap_path t) = Some (trap_path t)
      \<and> unlink_err os (trap_path t) = None \<and> \<not> is_link os (trap_path t)"
  shows "bytes_at (foldl (disarm_one os) s cs) =
     (\<lambda>p. if p \<in> trap_path ` snd ` set cs then None else bytes_at s p)"
  using assms
proof (induction cs arbitrary: s)
  case (Cons kt cs)
  obtain k t where kt: "kt = (k, t)" by (cases kt)
  from Cons.prems kt have "bytes_at (disarm_one os s kt) = (bytes_at s)(trap_path t := None)"
    by (simp add: disarm_one_contents)
  with Cons kt show ?case by (auto simp: fun_eq_iff)
qed simp

section \<open>Properties\<close>

text \<open>Right after the traps are armed, with links between target directories at most joining traps of
  one template, every armed file is recognised as a canary and verification reports nothing.\<close>
lemma canaries_armed_verify:
  assumes "regular_os os" and "traps_separate os (target_directories m)"
    and "arm_traps sha os m s = (n, m', s')"
  shows "verify_all_canaries sha os m' s' = [] \<and> armed_count m' = n
    \<and> (\<forall>(k, t) \<in> set (canaries m'). is_canary os m' (trap_path t)
          \<and> bytes_at s' (trap_path t) = Some (sample_content (template t)))"
proof (intro conjI)
  note a = arm_traps_ok[OF assms]
  have ok: "manager_ok sha os (canaries m')" and good: "\<forall>(k, t) \<in> set (canaries m'). intact s' t"
    using a(1) by (auto simp: armed_ok_def)
  show "verify_all_canaries sha os m' s' = []" by (rule verify_intact[OF ok assms(1) good])
  show "armed_count m' = n" by (rule a(3))
  show "\<forall>(k, t) \<in> set (canaries m'). is_canary os m' (trap_path t)
          \<and> bytes_at s' (trap_path t) = Some (sample_content (template t))"
    using good manager_okD(1,2,3)[OF ok] by (force simp: is_canary_def intact_def)
qed

text \<open>C5: whatever happens to the file system after arming, verification reports exactly the traps that
  are gone, or whose bytes have another digest or another length than the template's.\<close>
theorem canary_tampering_reported:
  assumes "regular_os os" and "traps_separate os (target_directories m)"
    and "arm_traps sha os m s0 = (n, m', s1)"
  shows "t \<in> fst ` set (verify_all_canaries sha os m' s) \<longleftrightarrow>
     t \<in> snd ` set (canaries m') \<and>
     (case bytes_at s (trap_path t) of
        None \<Rightarrow> True
      | Some d \<Rightarrow> compute_sha256 sha d \<noteq> compute_sha256 sha (sample_content (template t))
          \<or> length d \<noteq> length (sample_content (template t)))"
proof -
  have ok: "manager_ok sha os (canaries m')"
    using arm_traps_ok(1)[OF assms] by (auto simp: armed_ok_def)
  have r: "read_err os p = None" for p using assms(1) by (simp add: regular_os_def)
  have "fst (check_trap sha os s t) \<longleftrightarrow> (case bytes_at s (trap_path t) of
        None \<Rightarrow> True
      | Some d \<Rightarrow> compute_sha256 sha d \<noteq> compute_sha256 sha (sample_content (template t))
          \<or> length d \<noteq> length (sample_content (template t)))"
    if "(k, t) \<in> set (canaries m')" for k
    using check_trap_iff[OF manager_okD(2)[OF ok that] r, of sha s] manager_okD(4,5)[OF ok that]
    by (cases "bytes_at s (trap_path t)") auto
  then show ?thesis unfolding verify_all_eq[OF ok] by force
qed

text \<open>Repairing after any later change to the file system, with writes that succeed once the hidden
  attribute is cleared, restores every reported trap: nothing is reported afterwards, the count is the
  number of reported traps, and no other file changes.\<close>
lemma canaries_repaired:
  assumes "regular_os os" and "traps_separate os (target_directories m)" and "writes_work os"
    and "arm_traps sha os m s0 = (n, m', s1)" and "repair_canaries sha os m' s = (k, m'', s')"
  shows "verify_all_canaries sha os m'' s' = [] \<and> k = int (length (verify_all_canaries sha os m' s))
    \<and> m'' = m' \<and> (\<forall>p. p \<in> trap_path ` set (map snd (canaries m')) \<or> bytes_at s' p = bytes_at s p)"
proof -
  have ok: "manager_ok sha os (canaries m')"
    using arm_traps_ok(1)[OF assms(1,2,4)] by (auto simp: armed_ok_def)
  from repair_effect[OF ok assms(3,1,5)] show ?thesis by blast
qed

text \<open>Disarming removes every registered trap's file and no other, and leaves no trap registered.\<close>
lemma canaries_disarmed:
  assumes "regular_os os" and "traps_separate os (target_directories m)"
    and "\<forall>p. unlink_err os p = None"
    and "arm_traps sha os m s0 = (n, m', s1)" and "disarm_traps os m' s = (m'', s')"
  shows "canaries m'' = [] \<and> armed_count m'' = 0 \<and>
    bytes_at s' = (\<lambda>p. if p \<in> trap_path ` snd ` set (canaries m') then None else bytes_at s p)"
proof -
  have ok: "manager_ok sha os (canaries m')"
    using arm_traps_ok(1)[OF assms(1,2,4)] by (auto simp: armed_ok_def)
  have "\<forall>(k, t) \<in> set (canaries m'). resolve os (trap_path t) = Some (trap_path t)
      \<and> unlink_err os (trap_path t) = None \<and> \<not> is_link os (trap_path t)"
    using manager_okD(2)[OF ok] assms(1,3) by (fastforce simp: regular_os_def)
  from disarm_fold[OF this, of s] assms(5) show ?thesis by (auto simp: disarm_traps_def)
qed

section \<open>Witnesses\<close>

definition sample_os :: os where
  "sample_os = \<lparr>seps = ''/'', resolve = (\<lambda>p. if p = [] then Some ''/'' else Some p),
     is_link = (\<lambda>p. False), read_err = (\<lambda>p. None),
     write_err = (\<lambda>p a. if a = 0x2 + 0x2000 then Some ''denied'' else None),
     unlink_err = (\<lambda>p. None), mkdir_err = (\<lambda>p. None), chmod_err = (\<lambda>p. None),
     attr_api = True, attr_ok = (\<lambda>p. True), ace_ok = (\<lambda>p. True)\<rparr>"

definition sample_fs :: fs where
  "sample_fs = \<lparr>files = Map.empty, dirs = {''/d''}\<rparr>"

definition sample_manager :: canary_manager where
  "sample_manager = \<lparr>target_directories = [''/d''], canaries = [], armed_count = 0\<rparr>"

lemma sample_regular: "regular_os sample_os"
  by (simp add: regular_os_def sample_os_def)

lemma sample_writes: "writes_work sample_os"
  by (simp add: writes_work_def sample_os_def)

lemma sample_separate: "traps_separate sample_os [''/d'']"
  by (simp add: traps_separate_def sample_os_def canary_templates_def path_join_def
      docx_template_def xlsx_template_def pdf_template_def)

definition sample_armed :: "int \<times> canary_manager \<times> fs" where
  "sample_armed = arm_traps (\<lambda>d. take 3 d) sample_os sample_manager sample_fs"

lemma sample_armed_eq:
  "arm_traps (\<lambda>d. take 3 d) sample_os sample_manager sample_fs
     = (fst sample_armed, fst (snd sample_armed), snd (snd sample_armed))"
  by (simp add: sample_armed_def)

lemma sample_armed_three: "fst sample_armed = 3 \<and> length (canaries (fst (snd sample_armed))) = 3"
  by code_simp

lemma sample_targets: "traps_separate sample_os (target_directories sample_manager)"
  using sample_separate by (simp add: sample_manager_def)

lemma canaries_armed_verify_witness:
  "verify_all_canaries (\<lambda>d. take 3 d) sample_os (fst (snd sample_armed)) (snd (snd sample_armed)) = []
    \<and> armed_count (fst (snd sample_armed)) = 3"
  using canaries_armed_verify[OF sample_regular sample_targets sample_armed_eq] sample_armed_three
  by simp

theorem canary_tampering_reported_witness:
  "fst ` set (verify_all_canaries (\<lambda>d. take 3 d) sample_os (fst (snd sample_armed)) sample_fs)
     = snd ` set (canaries (fst (snd sample_armed)))"
  using canary_tampering_reported[OF sample_regular sample_targets sample_armed_eq, of _ sample_fs]
  by (auto simp: sample_fs_def bytes_at_def)

lemma canaries_repaired_witness:
  "verify_all_canaries (\<lambda>d. take 3 d) sample_os
     (fst (snd (repair_canaries (\<lambda>d. take 3 d) sample_os (fst (snd sample_armed)) sample_fs)))
     (snd (snd (repair_canaries (\<lambda>d. take 3 d) sample_os (fst (snd sample_armed)) sample_fs))) = []"
  using canaries_repaired[OF sample_regular sample_targets sample_writes sample_armed_eq,
      where s = sample_fs, OF surjective_pairing[THEN trans, OF arg_cong2[where f = Pair,
        OF refl surjective_pairing]]]
  by (rule conjunct1)

lemma canaries_disarmed_witness:
  "canaries (fst (disarm_traps sample_os (fst (snd sample_armed)) sample_fs)) = []"
  using canaries_disarmed[OF sample_regular sample_targets _ sample_armed_eq,
      where s = sample_fs, OF _ surjective_pairing]
  by (simp add: sample_os_def)

end
