(* ===== verification/Ransomware.thy ===== *)
theory Ransomware
  imports Windows Canary
begin

text \<open>
  \<open>engine/heuristics_ransomware.py\<close>: the file-write heuristic. The state holds the deque of write times
  per scope, the scopes already reported for their rate and the paths already reported for their
  entropy. A handler returns its signals or the exception of \<open>float(entropy)\<close>, together with the
  state left behind. \<open>clock\<close> is the value of \<open>time.time()\<close>.
\<close>

record ransomware =
  write_rate :: real
  entropy_alert :: real
  canary_mgr :: "canary_manager option"
  writes :: "(string, real list) dict"
  emitted_rate :: "string set"
  emitted_entropy :: "string set"

definition rate_window :: real where
  "rate_window = 60"

definition new_ransomware :: "real \<Rightarrow> real \<Rightarrow> canary_manager option \<Rightarrow> ransomware" where
  "new_ransomware rate alert cm =
     \<lparr>write_rate = rate, entropy_alert = alert, canary_mgr = cm, writes = [], emitted_rate = {},
      emitted_entropy = {}\<rparr>"

definition scope_of :: "event \<Rightarrow> string" where
  "scope_of e =
     (case pid e of
        Some p \<Rightarrow> ''pid:'' @ show_int p
      | None \<Rightarrow> ''folder:'' @ py_str (val_or (dict_get (extra e) ''watched_root'')
                                         (VStr ''unknown_folder'')))"

definition fs_path :: "event \<Rightarrow> string" where
  "fs_path e = (case image_path e of None \<Rightarrow> ''unknown'' | Some p \<Rightarrow> if p = [] then ''unknown'' else p)"

definition is_fs_write :: "event \<Rightarrow> bool" where
  "is_fs_write e \<longleftrightarrow> event_type e = ''file_write'' \<and> source e = ''fs''"

definition canary_reason ::
  "(bytes \<Rightarrow> string) \<Rightarrow> os \<Rightarrow> fs \<Rightarrow> canary_manager option \<Rightarrow> string \<Rightarrow> string option" where
  \<comment> \<open>the reason, when the path is a registered canary that was tampered with\<close>
  "canary_reason sha os s cm p =
     (case cm of
        None \<Rightarrow> None
      | Some m \<Rightarrow>
          if is_canary os m p then
            (case check_tampering sha os m s p of (tampered, r) \<Rightarrow> if tampered then Some r else None)
          else None)"

definition record_write :: "real \<Rightarrow> string \<Rightarrow> ransomware \<Rightarrow> ransomware" where
  "record_write now scope h =
     h\<lparr>writes := AList.update scope (slide now rate_window (window_of (writes h) scope)) (writes h)\<rparr>"

definition entropy_step ::
  "real \<Rightarrow> event \<Rightarrow> string \<Rightarrow> string \<Rightarrow> ransomware \<Rightarrow> (signal list \<times> ransomware) py_result" where
  "entropy_step clock e scope path h =
     (let ent = dict_get (extra e) ''entropy''
      in if ent = VNone then Inr ([], h)
         else bind_res (to_float ent) (\<lambda>x.
           if entropy_alert h \<le> x \<and> path \<notin> emitted_entropy h then
             Inr ([mk_signal clock ''entropy_spike'' scope
                     (''high-entropy write ('' @ fmt_fixed 2 x @ '' bits/byte >= '' @
                      fmt_fixed 1 (entropy_alert h) @ '') to '' @ path)
                     ''ransomware_heuristic'' None None],
                  h\<lparr>emitted_entropy := insert path (emitted_entropy h)\<rparr>)
           else Inr ([], h)))"

definition rate_of :: "real list \<Rightarrow> real" where
  "rate_of dq = real (length dq) * (60 / rate_window)"

definition rate_step :: "real \<Rightarrow> string \<Rightarrow> ransomware \<Rightarrow> signal list \<times> ransomware" where
  "rate_step clock scope h =
     (let dq = window_of (writes h) scope; rate = rate_of dq
      in if write_rate h \<le> rate \<and> scope \<notin> emitted_rate h then
           ([mk_signal clock ''mass_modification'' scope
               (''rapid file modification: '' @ show_nat (length dq) @ '' writes in '' @
                fmt_fixed 0 rate_window @ ''s (~'' @ fmt_fixed 0 rate @ ''/min >= '' @
                fmt_fixed 0 (write_rate h) @ ''/min) in scope '' @ scope)
               ''ransomware_heuristic'' None None],
            h\<lparr>emitted_rate := insert scope (emitted_rate h)\<rparr>)
         else ([], h))"

definition process_fs_event ::
  "(bytes \<Rightarrow> string) \<Rightarrow> os \<Rightarrow> fs \<Rightarrow> real \<Rightarrow> real option \<Rightarrow> event \<Rightarrow> ransomware
    \<Rightarrow> signal list py_result \<times> ransomware" where
  "process_fs_event sha os s clock now e h =
     (let t = (case now of None \<Rightarrow> clock | Some t \<Rightarrow> t); scope = scope_of e; path = fs_path e
      in if \<not> is_fs_write e then (Inr [], h)
         else case canary_reason sha os s (canary_mgr h) path of
           Some r \<Rightarrow>
             (Inr [mk_signal clock ''canary_tripped'' scope
                    (''Sacrificial honeypot file tampered/encrypted: '' @ path @ '' ('' @ r @ '')'')
                    ''ransomware_canary'' None None], h)
         | None \<Rightarrow>
             let h1 = record_write t scope h
             in case entropy_step clock e scope path h1 of
                  Inl x \<Rightarrow> (Inl x, h1)
                | Inr (sigs1, h2) \<Rightarrow>
                    (case rate_step clock scope h2 of (sigs2, h3) \<Rightarrow> (Inr (sigs1 @ sigs2), h3)))"

definition clear_scope_flag :: "string \<Rightarrow> ransomware \<Rightarrow> ransomware" where
  "clear_scope_flag scope h = h\<lparr>emitted_rate := emitted_rate h - {scope}\<rparr>"

definition current_rate :: "real \<Rightarrow> real option \<Rightarrow> string \<Rightarrow> ransomware \<Rightarrow> real" where
  "current_rate clock now scope h =
     (let t = (case now of None \<Rightarrow> clock | Some t \<Rightarrow> t)
      in real (count_since (t - rate_window) (window_of (writes h) scope)) * (60 / rate_window))"

section \<open>The rate signal as a burst detector\<close>

text \<open>An observation is an event with the outcome of the canary check at that moment: the file system
  and the operating system may differ from one event to the next.\<close>

type_synonym fs_observation = "(bytes \<Rightarrow> string) \<times> os \<times> fs \<times> event"

fun rate_observe :: "real \<Rightarrow> fs_observation \<Rightarrow> ransomware \<Rightarrow> bool \<times> ransomware" where
  "rate_observe now (sha, os, s, e) h =
     (case process_fs_event sha os s now (Some now) e h of
        (Inl x, h') \<Rightarrow> (False, h')
      | (Inr sigs, h') \<Rightarrow> (\<exists>x \<in> set sigs. kind x = ''mass_modification'', h'))"

fun rate_key :: "canary_manager option \<Rightarrow> fs_observation \<Rightarrow> string option" where
  "rate_key cm (sha, os, s, e) =
     (if is_fs_write e \<and> canary_reason sha os s cm (fs_path e) = None then Some (scope_of e) else None)"

fun rate_valid :: "fs_observation \<Rightarrow> bool" where
  "rate_valid (sha, os, s, e) \<longleftrightarrow>
     dict_get (extra e) ''entropy'' = VNone \<or> (\<exists>x. to_float (dict_get (extra e) ''entropy'') = Inr x)"

lemma kind_mk_signal [simp]: "kind (mk_signal now k subj r eng w ts) = k"
  by (simp add: mk_signal_def)

lemma subject_mk_signal [simp]: "subject (mk_signal now k subj r eng w ts) = subj"
  by (simp add: mk_signal_def)

lemma record_write_fields [simp]:
  "write_rate (record_write t sc h) = write_rate h" "emitted_rate (record_write t sc h) = emitted_rate h"
  "entropy_alert (record_write t sc h) = entropy_alert h"
  "canary_mgr (record_write t sc h) = canary_mgr h"
  "window_of (writes (record_write t sc h)) k =
     (if k = sc then slide t rate_window (window_of (writes h) k) else window_of (writes h) k)"
  by (simp_all add: record_write_def)

lemma entropy_step_fields:
  assumes "entropy_step clock e sc p h = Inr (sigs, h')"
  shows "writes h' = writes h" "emitted_rate h' = emitted_rate h" "write_rate h' = write_rate h"
    "canary_mgr h' = canary_mgr h" "\<forall>x \<in> set sigs. kind x = ''entropy_spike'' \<and> subject x = sc"
  using assms
  by (auto simp: entropy_step_def Let_def bind_res_Inr_iff split: if_splits)

lemma entropy_step_valid:
  assumes "rate_valid (sha, os, s, e)"
  shows "\<exists>sigs h'. entropy_step clock e sc p h = Inr (sigs, h')"
  using assms by (auto simp: entropy_step_def Let_def)

lemma rate_step_cases:
  assumes "rate_step clock sc h = (sigs, h')"
  shows "writes h' = writes h" "write_rate h' = write_rate h" "canary_mgr h' = canary_mgr h"
    "emitted_rate h' = (if sigs = [] then emitted_rate h else insert sc (emitted_rate h))"
    "sigs \<noteq> [] \<longleftrightarrow> write_rate h \<le> rate_of (window_of (writes h) sc) \<and> sc \<notin> emitted_rate h"
    "\<forall>x \<in> set sigs. kind x = ''mass_modification'' \<and> subject x = sc"
  using assms by (auto simp: rate_step_def Let_def split: if_splits)

lemma process_write:
  assumes c: "canary_reason sha os s (canary_mgr h) (fs_path e) = None" and w: "is_fs_write e"
    and v: "rate_valid (sha, os, s, e)"
    and p: "process_fs_event sha os s clock (Some t) e h = (r, h')"
  obtains sigs where "r = Inr sigs"
    "window_of (writes h') k = (if k = scope_of e then slide t rate_window (window_of (writes h) k)
       else window_of (writes h) k)"
    "(\<exists>x \<in> set sigs. kind x = ''mass_modification'') \<longleftrightarrow>
       write_rate h \<le> rate_of (window_of (writes h') (scope_of e)) \<and> scope_of e \<notin> emitted_rate h"
    "emitted_rate h' = (if \<exists>x \<in> set sigs. kind x = ''mass_modification''
       then insert (scope_of e) (emitted_rate h) else emitted_rate h)"
    "write_rate h' = write_rate h" "canary_mgr h' = canary_mgr h"
proof -
  let ?h1 = "record_write t (scope_of e) h"
  obtain s1 h2 where e1: "entropy_step clock e (scope_of e) (fs_path e) ?h1 = Inr (s1, h2)"
    using entropy_step_valid[OF v] by blast
  obtain s2 h3 where e2: "rate_step clock (scope_of e) h2 = (s2, h3)" by fastforce
  note f1 = entropy_step_fields[OF e1] and f2 = rate_step_cases[OF e2]
  have r: "r = Inr (s1 @ s2)" and h': "h' = h3"
    using p c w e1 e2 by (auto simp: process_fs_event_def Let_def)
  have m: "(\<exists>x \<in> set (s1 @ s2). kind x = ''mass_modification'') \<longleftrightarrow> s2 \<noteq> []"
  proof
    assume "\<exists>x \<in> set (s1 @ s2). kind x = ''mass_modification''"
    with f1(5) show "s2 \<noteq> []" by auto
  next
    assume "s2 \<noteq> []"
    with f2(6) show "\<exists>x \<in> set (s1 @ s2). kind x = ''mass_modification''" by (cases s2) auto
  qed
  show thesis
  proof (rule that[OF r])
    show "window_of (writes h') k = (if k = scope_of e then slide t rate_window (window_of (writes h) k)
       else window_of (writes h) k)" by (simp add: h' f2(1) f1(1))
    show "(\<exists>x \<in> set (s1 @ s2). kind x = ''mass_modification'') \<longleftrightarrow>
       write_rate h \<le> rate_of (window_of (writes h') (scope_of e)) \<and> scope_of e \<notin> emitted_rate h"
      unfolding m f2(5) by (simp add: h' f2(1) f1(1,2,3))
    show "emitted_rate h' = (if \<exists>x \<in> set (s1 @ s2). kind x = ''mass_modification''
       then insert (scope_of e) (emitted_rate h) else emitted_rate h)"
      unfolding m by (simp add: h' f2(4) f1(2))
    show "write_rate h' = write_rate h" "canary_mgr h' = canary_mgr h"
      by (simp_all add: h' f2 f1)
  qed
qed

interpretation rw: burst_detector rate_observe "rate_key cm" rate_valid
    "\<lambda>h. window_of (writes h)" "\<lambda>h k. k \<in> emitted_rate h" rate_window rate
    "\<lambda>h. canary_mgr h = cm \<and> write_rate h = rate"
  for cm :: "canary_manager option" and rate :: real
proof unfold_locales
  fix h :: ransomware and ob :: fs_observation and now :: real and f h'
  assume g: "canary_mgr h = cm \<and> write_rate h = rate" and v: "rate_valid ob"
    and o: "rate_observe now ob h = (f, h')"
  obtain sha os s e where ob: "ob = (sha, os, s, e)" by (metis prod_cases4)
  obtain r where p: "process_fs_event sha os s now (Some now) e h = (r, h')"
    and f: "f \<longleftrightarrow> (case r of Inl x \<Rightarrow> False | Inr sigs \<Rightarrow> \<exists>x \<in> set sigs. kind x = ''mass_modification'')"
    using o ob by (auto split: prod.splits sum.splits)
  have rate: "rate_of dq = real (length dq)" for dq by (simp add: rate_of_def rate_window_def)
  have skip: "h' = h \<and> \<not> f" if "rate_key cm ob = None"
    using that p f g ob by (auto simp: process_fs_event_def Let_def split: if_splits option.splits)
  have step: "window_of (writes h') j = (if j = k then slide now rate_window (window_of (writes h) j)
       else window_of (writes h) j)
     \<and> (f \<longleftrightarrow> rate \<le> real (length (window_of (writes h') k)) \<and> k \<notin> emitted_rate h)
     \<and> emitted_rate h' = (if f then insert k (emitted_rate h) else emitted_rate h)
     \<and> canary_mgr h' = cm \<and> write_rate h' = rate" if "rate_key cm ob = Some k" for j k
  proof -
    from that ob have w: "is_fs_write e" and c: "canary_reason sha os s cm (fs_path e) = None"
      and k: "k = scope_of e"
      by (auto split: if_splits)
    show ?thesis
      by (rule process_write[OF _ w v[unfolded ob] p, of j]) (use c g k f rate in auto)
  qed
  show "canary_mgr h' = cm \<and> write_rate h' = rate"
    using skip step g by (cases "rate_key cm ob") auto
  show "\<not> f" if "rate_key cm ob = None" using skip that by simp
  fix k
  show "window_of (writes h') k = slide now rate_window (window_of (writes h) k)"
    if "rate_key cm ob = Some k" using step[OF that, of k] by auto
  show "f \<longleftrightarrow> rate \<le> real (length (window_of (writes h') k)) \<and> k \<notin> emitted_rate h"
    if "rate_key cm ob = Some k" using step[OF that, of k] by auto
  show "k \<in> emitted_rate h' \<longleftrightarrow> k \<in> emitted_rate h \<or> f"
    if "rate_key cm ob = Some k" using step[OF that, of k] by auto
  show "window_of (writes h') k = window_of (writes h) k \<and> (k \<in> emitted_rate h' \<longleftrightarrow> k \<in> emitted_rate h)"
    if "rate_key cm ob \<noteq> Some k"
    using skip step[of _ k] that by (cases "rate_key cm ob") auto
qed

section \<open>Runs\<close>

fun fs_run :: "(real \<times> fs_observation) list \<Rightarrow> ransomware \<Rightarrow> signal list py_result list \<times> ransomware"
where
  "fs_run [] h = ([], h)"
| "fs_run ((now, (sha, os, s, e)) # es) h =
     (let (r, h1) = process_fs_event sha os s now (Some now) e h; (rs, h2) = fs_run es h1
      in (r # rs, h2))"

definition reported :: "signal list py_result list \<Rightarrow> string \<Rightarrow> string \<Rightarrow> nat" where
  \<comment> \<open>how many signals of a kind a run reports about a subject\<close>
  "reported rs k subj =
     length (filter (\<lambda>x. kind x = k \<and> subject x = subj)
       (concat (map (\<lambda>r. case r of Inl x \<Rightarrow> [] | Inr sigs \<Rightarrow> sigs) rs)))"

definition write_times :: "canary_manager option \<Rightarrow> string \<Rightarrow> (real \<times> fs_observation) list \<Rightarrow> real list" where
  "write_times cm k es = map fst (filter (\<lambda>(t, ob). rate_key cm ob = Some k) es)"

lemma process_mass_signals:
  assumes "canary_mgr h = cm" and "rate_valid (sha, os, s, e)"
    and p: "process_fs_event sha os s clock (Some t) e h = (r, h')"
  shows "length (filter (\<lambda>x. kind x = ''mass_modification'' \<and> subject x = k)
       (case r of Inl x \<Rightarrow> [] | Inr sigs \<Rightarrow> sigs)) =
     (if rate_key cm (sha, os, s, e) = Some k \<and>
         (\<exists>sigs. r = Inr sigs \<and> (\<exists>x \<in> set sigs. kind x = ''mass_modification'')) then 1 else 0)"
proof (cases "is_fs_write e \<and> canary_reason sha os s cm (fs_path e) = None")
  case False
  with p assms(1) show ?thesis
    by (auto simp: process_fs_event_def Let_def split: if_splits option.splits)
next
  case True
  let ?h1 = "record_write t (scope_of e) h"
  obtain s1 h2 where e1: "entropy_step clock e (scope_of e) (fs_path e) ?h1 = Inr (s1, h2)"
    using entropy_step_valid[OF assms(2)] by blast
  obtain s2 h3 where e2: "rate_step clock (scope_of e) h2 = (s2, h3)" by fastforce
  have r: "r = Inr (s1 @ s2)"
    using p True assms(1) e1 e2 by (auto simp: process_fs_event_def Let_def)
  have f1: "filter (\<lambda>x. kind x = ''mass_modification'' \<and> subject x = k) s1 = []"
    "\<forall>x \<in> set s1. kind x \<noteq> ''mass_modification''"
    using entropy_step_fields(5)[OF e1] by (auto simp: filter_empty_conv)
  have f2: "s2 = [] \<or> (\<exists>x. s2 = [x] \<and> kind x = ''mass_modification'' \<and> subject x = scope_of e)"
    using e2 by (auto simp: rate_step_def Let_def split: if_splits)
  show ?thesis using r f1 f2 True by auto
qed

lemma fs_run_detector:
  assumes "\<forall>(t, ob) \<in> set es. rate_valid ob" and "canary_mgr h = cm" and "write_rate h = rate"
  shows "snd (rw.run cm es h) = snd (fs_run es h)
    \<and> reported (fst (fs_run es h)) ''mass_modification'' k
        = length (filter (\<lambda>r. r = (Some k, True)) (fst (rw.run cm es h)))"
  using assms
proof (induction es arbitrary: h)
  case (Cons te es)
  obtain t sha os s e where te: "te = (t, (sha, os, s, e))" by (metis prod_cases5)
  obtain r h1 where p: "process_fs_event sha os s t (Some t) e h = (r, h1)" by fastforce
  have v: "rate_valid (sha, os, s, e)" using Cons.prems(1) te by simp
  obtain f where o: "rate_observe t (sha, os, s, e) h = (f, h1)"
    and f: "f \<longleftrightarrow> (\<exists>sigs. r = Inr sigs \<and> (\<exists>x \<in> set sigs. kind x = ''mass_modification''))"
    using p by (auto split: sum.splits)
  have g: "canary_mgr h1 = cm" "write_rate h1 = rate"
    using rw.keeps_good[of h cm rate, OF _ v o] Cons.prems by simp_all
  obtain rs h2 where run: "fs_run es h1 = (rs, h2)" by fastforce
  obtain fs where run2: "rw.run cm es h1 = (fs, h2)"
    using Cons.IH[of h1] Cons.prems(1) g run by (metis list.set_intros(2) prod.collapse snd_conv)
  have IH: "reported rs ''mass_modification'' k = length (filter (\<lambda>r. r = (Some k, True)) fs)"
    using Cons.IH[of h1] Cons.prems(1) g run run2 by (metis fst_conv list.set_intros(2))
  have fr: "fs_run (te # es) h = (r # rs, h2)" using te p run by simp
  have rr: "rw.run cm (te # es) h = ((rate_key cm (sha, os, s, e), f) # fs, h2)"
    using te o run2 by (simp only: rw.run.simps prod.case Let_def)
  have "reported (r # rs) ''mass_modification'' k =
      length (filter (\<lambda>x. kind x = ''mass_modification'' \<and> subject x = k)
        (case r of Inl x \<Rightarrow> [] | Inr sigs \<Rightarrow> sigs)) + reported rs ''mass_modification'' k"
    by (simp add: reported_def)
  also have "\<dots> = length (filter (\<lambda>r. r = (Some k, True)) ((rate_key cm (sha, os, s, e), f) # fs))"
    unfolding process_mass_signals[OF Cons.prems(2) v p] IH f[symmetric] by auto
  finally show ?case unfolding fr rr by simp
qed (simp add: reported_def)

section \<open>Properties\<close>

text \<open>C6: for file writes in time order the rate signal about a scope is reported exactly when some write
  has at least the configured number of writes of that scope within the 60 seconds before it, and it is
  reported once.\<close>
theorem mass_modification_exact:
  assumes "\<forall>(t, ob) \<in> set es. rate_valid ob" and "sorted (map fst es)" and "0 < rate"
  shows "reported (fst (fs_run es (new_ransomware rate alert cm))) ''mass_modification'' k =
    (if \<exists>n. let ts = write_times cm k (take n es)
            in ts \<noteq> [] \<and> rate \<le> real (count_since (List.last ts - 60) ts) then 1 else 0)"
proof -
  let ?h = "new_ransomware rate alert cm"
  have h: "canary_mgr ?h = cm" "write_rate ?h = rate" "window_of (writes ?h) k = []" "k \<notin> emitted_rate ?h"
    by (simp_all add: new_ransomware_def)
  obtain rs h' where run: "rw.run cm es ?h = (rs, h')" by fastforce
  have eq: "reported (fst (fs_run es ?h)) ''mass_modification'' k
      = length (filter (\<lambda>r. r = (Some k, True)) rs)"
    using fs_run_detector[OF assms(1) h(1,2)] run by simp
  have wt: "rw.times_of cm k es' = write_times cm k es'" for es'
    by (simp add: rw.times_of_def write_times_def)
  have iff: "(Some k, True) \<in> set rs \<longleftrightarrow>
      (\<exists>n. let ts = write_times cm k (take n es)
           in ts \<noteq> [] \<and> rate \<le> real (count_since (List.last ts - 60) ts))"
    using rw.burst_reported_iff[OF conjI[OF h(1,2)] assms(1,2) run h(3,4) assms(3)]
    unfolding wt rate_window_def .
  show ?thesis
    using rw.fires_count[OF conjI[OF h(1,2)] assms(1) run h(4)] unfolding eq iff .
qed

text \<open>A file write to a registered canary whose bytes have another digest than the template's gives
  exactly one signal, which alone makes a fresh scorer with a threshold of at most 85 respond.\<close>
lemma canary_trip_responds:
  assumes "regular_os os" and "traps_separate os (target_directories m)"
    and "arm_traps sha os m s0 = (n, m', s1)"
    and "is_fs_write e" and "image_path e = Some p" and "p \<noteq> []" and "resolve os p = Some (trap_path t)"
    and "t \<in> snd ` set (canaries m')"
    and "bytes_at s (trap_path t) = Some d"
    and "compute_sha256 sha d \<noteq> compute_sha256 sha (sample_content (template t))"
    and "canary_mgr h = Some m'" and "0 < max_s" and "th \<le> 85"
  shows "\<exists>x. process_fs_event sha os s clock now e h = (Inr [x], h)
    \<and> (\<exists>ss sc. add_signal clock x (new_scorer th ttl max_s) = Inr (ss, sc)
         \<and> should_respond (scope_of e) sc)"
proof -
  have ok: "manager_ok sha os (canaries m')"
    using arm_traps_ok(1)[OF assms(1,2,3)] by (auto simp: armed_ok_def)
  obtain k where kt: "(k, t) \<in> set (canaries m')" using assms(8) by force
  note t = manager_okD[OF ok kt]
  have r: "read_err os (trap_path t) = None" using assms(1) by (simp add: regular_os_def)
  have "fst (check_trap sha os s t)"
    using check_trap_iff[OF t(2) r] assms(9,10) t(4) by force
  moreover have "check_tampering sha os m' s p = check_trap sha os s t"
    using assms(6,7) t(6) by (simp add: check_tampering_def)
  moreover have "is_canary os m' p"
    using assms(6,7) t(1) kt by (force simp: is_canary_def)
  ultimately obtain why where why: "canary_reason sha os s (Some m') p = Some why"
    by (cases "check_trap sha os s t") (simp add: canary_reason_def)
  have path: "fs_path e = p" using assms(5,6) by (simp add: fs_path_def)
  define x where "x = mk_signal clock ''canary_tripped'' (scope_of e)
     (''Sacrificial honeypot file tampered/encrypted: '' @ p @ '' ('' @ why @ '')'')
     ''ransomware_canary'' None None"
  have "process_fs_event sha os s clock now e h = (Inr [x], h)"
    using why path assms(4,11) by (simp add: process_fs_event_def Let_def x_def)
  moreover have "\<exists>ss sc. add_signal clock x (new_scorer th ttl max_s) = Inr (ss, sc)
      \<and> should_respond (subject x) sc"
    by (rule lone_signal_responds[OF assms(12)])
      (use assms(13) in \<open>simp_all add: x_def mk_signal_def is_dll_kind_def startswith_def
        effective_weight_def weights_def\<close>)
  ultimately show ?thesis by (auto simp: x_def)
qed

section \<open>Witnesses\<close>

definition write_event :: "string \<Rightarrow> event" where
  "write_event p =
     \<lparr>timestamp = ''t'', source = ''fs'', event_type = ''file_write'', pid = Some 7,
      parent_pid = None, image_path = Some p, command_line = None, hash_sha256 = None, extra = []\<rparr>"

definition three_writes :: "(real \<times> fs_observation) list" where
  "three_writes =
     [(0, (\<lambda>d. d), sample_os, sample_fs, write_event ''/d/a''),
      (1, (\<lambda>d. d), sample_os, sample_fs, write_event ''/d/b''),
      (2, (\<lambda>d. d), sample_os, sample_fs, write_event ''/d/c'')]"

lemma three_writes_valid:
  "\<forall>(t, ob) \<in> set three_writes. rate_valid ob" "sorted (map fst three_writes)"
  by (simp_all add: three_writes_def write_event_def dict_get_def)

lemma three_writes_times: "write_times None (scope_of (write_event [])) three_writes = [0, 1, 2]"
  by (simp add: write_times_def three_writes_def canary_reason_def write_event_def scope_of_def
      is_fs_write_def)

theorem mass_modification_exact_witness:
  "reported (fst (fs_run three_writes (new_ransomware 3 8 None))) ''mass_modification''
     (scope_of (write_event [])) = 1"
proof -
  have "\<exists>n. let ts = write_times None (scope_of (write_event [])) (take n three_writes)
      in ts \<noteq> [] \<and> 3 \<le> real (count_since (List.last ts - 60) ts)"
    by (rule exI[of _ "length three_writes"]) (simp add: three_writes_times count_since_def)
  with mass_modification_exact[OF three_writes_valid, of 3 8 None "scope_of (write_event [])"]
  show ?thesis by simp
qed

lemma sample_trap:
  "make_trap (\<lambda>d. take 3 d) ''/d/!00_cloud_backup_keys.pdf'' pdf_template
     \<in> snd ` set (canaries (fst (snd sample_armed)))"
  by code_simp

definition encrypted_fs :: fs where
  "encrypted_fs =
     \<lparr>files = [''/d/!00_cloud_backup_keys.pdf'' \<mapsto>
                 \<lparr>content = ''xyz'', mode = 420, attrs = 0, deny_exec = False\<rparr>],
      dirs = {''/d''}\<rparr>"

lemma canary_trip_responds_witness:
  "\<exists>x ss sc. fst (process_fs_event (\<lambda>d. take 3 d) sample_os encrypted_fs 5 None
        (write_event ''/d/!00_cloud_backup_keys.pdf'')
        (new_ransomware 50 8 (Some (fst (snd sample_armed))))) = Inr [x]
     \<and> add_signal 5 x (new_scorer 80 600 10000) = Inr (ss, sc)
     \<and> should_respond (scope_of (write_event [])) sc"
  using canary_trip_responds[OF sample_regular sample_targets sample_armed_eq, where
      e = "write_event ''/d/!00_cloud_backup_keys.pdf''" and s = encrypted_fs and d = "''xyz''" and
      h = "new_ransomware 50 8 (Some (fst (snd sample_armed)))" and max_s = 10000 and th = 80 and
      clock = 5 and now = None and ttl = 600, OF _ _ _ _ sample_trap]
  by (simp add: write_event_def is_fs_write_def sample_os_def make_trap_def encrypted_fs_def
      bytes_at_def compute_sha256_def new_ransomware_def scope_of_def pdf_template_def lower_def
      char_lower_def) fastforce

end
