(* ===== verification/BruteForce.thy ===== *)
theory BruteForce
  imports Windows
begin

text \<open>
  \<open>engine/heuristics_bruteforce.py\<close>: failed logins per source. The state holds the deque of attempt
  times per source and the subjects already reported. The burst signal is an instance of the shared
  detector contract of \<open>Windows\<close>.
\<close>

record brute_force =
  count_threshold :: int
  window_seconds :: real
  attempts :: "(string, real list) dict"
  emitted :: "string set"

definition new_brute_force :: "int \<Rightarrow> real \<Rightarrow> brute_force" where
  "new_brute_force n w = \<lparr>count_threshold = n, window_seconds = w, attempts = [], emitted = {}\<rparr>"

definition source_of :: "event \<Rightarrow> string option" where
  "source_of e =
     (if event_type e \<noteq> ''login_failed'' \<or> source e \<noteq> ''eventlog'' then None
      else let v = dict_get (extra e) ''source_host''
           in if v = VNone \<or> strip (py_str v) = [] then None else Some (py_str v))"

definition subject_for_source :: "string \<Rightarrow> string" where
  "subject_for_source s = ''source:'' @ s"

definition burst_reason :: "event \<Rightarrow> nat \<Rightarrow> string \<Rightarrow> real \<Rightarrow> string" where
  "burst_reason e n src w =
     (let user = py_str (val_or (dict_get (extra e) ''target_user'') (VStr ''unknown''));
          lt = dict_get (extra e) ''logon_type'';
          note = (if lt \<noteq> VNone then '', logon_type='' @ py_str lt else [])
      in show_nat n @ '' failed logins from '' @ src @ '' in '' @ fmt_fixed 0 w @
         ''s (target='' @ user @ note @ '')'')"

definition process_login_event ::
  "real \<Rightarrow> real option \<Rightarrow> event \<Rightarrow> brute_force \<Rightarrow> signal option \<times> brute_force" where
  "process_login_event clock now e h =
     (let t = (case now of None \<Rightarrow> clock | Some t \<Rightarrow> t)
      in case source_of e of
           None \<Rightarrow> (None, h)
         | Some src \<Rightarrow>
             let subj = subject_for_source src;
                 dq = slide t (window_seconds h) (window_of (attempts h) src);
                 h1 = h\<lparr>attempts := AList.update src dq (attempts h)\<rparr>
             in if int (length dq) < count_threshold h then (None, h1)
                else if subj \<in> emitted h then (None, h1)
                else (Some (mk_signal clock ''failed_login_burst'' subj
                              (burst_reason e (length dq) src (window_seconds h))
                              ''bruteforce_heuristic'' None None),
                      h1\<lparr>emitted := insert subj (emitted h)\<rparr>))"

definition current_count :: "real \<Rightarrow> real option \<Rightarrow> string \<Rightarrow> brute_force \<Rightarrow> nat" where
  "current_count clock now src h =
     (let t = (case now of None \<Rightarrow> clock | Some t \<Rightarrow> t)
      in count_since (t - window_seconds h) (window_of (attempts h) src))"

definition clear_source_flag :: "string \<Rightarrow> brute_force \<Rightarrow> brute_force" where
  "clear_source_flag src h = h\<lparr>emitted := emitted h - {subject_for_source src}\<rparr>"

section \<open>The burst signal as a detector\<close>

definition login_observe :: "real \<Rightarrow> event \<Rightarrow> brute_force \<Rightarrow> bool \<times> brute_force" where
  "login_observe now e h =
     (case process_login_event now (Some now) e h of (r, h') \<Rightarrow> (r \<noteq> None, h'))"

lemma subject_for_source_inj [simp]: "subject_for_source a = subject_for_source b \<longleftrightarrow> a = b"
  by (simp add: subject_for_source_def)

lemma process_login_step:
  assumes "source_of e = Some src" and "process_login_event clock (Some t) e h = (r, h')"
  shows "window_of (attempts h') k =
      (if k = src then slide t (window_seconds h) (window_of (attempts h) k) else window_of (attempts h) k)"
    "r \<noteq> None \<longleftrightarrow> count_threshold h \<le> int (length (window_of (attempts h') src))
       \<and> subject_for_source src \<notin> emitted h"
    "emitted h' = (if r = None then emitted h else insert (subject_for_source src) (emitted h))"
    "count_threshold h' = count_threshold h" "window_seconds h' = window_seconds h"
  using assms by (auto simp: process_login_event_def Let_def split: if_splits)

interpretation bf: burst_detector login_observe source_of "\<lambda>e. True"
    "\<lambda>h. window_of (attempts h)" "\<lambda>h k. subject_for_source k \<in> emitted h" width "of_int n"
    "\<lambda>h. window_seconds h = width \<and> count_threshold h = n"
  for width :: real and n :: int
proof unfold_locales
  fix h :: brute_force and e :: event and now :: real and f h'
  assume g: "window_seconds h = width \<and> count_threshold h = n" and o: "login_observe now e h = (f, h')"
  obtain r where p: "process_login_event now (Some now) e h = (r, h')" and f: "f \<longleftrightarrow> r \<noteq> None"
    using o by (auto simp: login_observe_def split: prod.splits)
  have skip: "h' = h \<and> \<not> f" if "source_of e = None"
    using that p f by (auto simp: process_login_event_def Let_def)
  note step = process_login_step[OF _ p]
  show "window_seconds h' = width \<and> count_threshold h' = n"
    using skip step(4,5) g by (cases "source_of e") auto
  show "\<not> f" if "source_of e = None" using skip that by simp
  fix k
  show "window_of (attempts h') k = slide now width (window_of (attempts h) k)"
    if "source_of e = Some k" using step(1)[OF that, of k] g by simp
  show "f \<longleftrightarrow> of_int n \<le> real (length (window_of (attempts h') k)) \<and> subject_for_source k \<notin> emitted h"
    if "source_of e = Some k" using step(2)[OF that] g f
    by (metis of_int_le_iff of_int_of_nat_eq)
  show "subject_for_source k \<in> emitted h' \<longleftrightarrow> subject_for_source k \<in> emitted h \<or> f"
    if "source_of e = Some k" using step(3)[OF that] f by auto
  show "window_of (attempts h') k = window_of (attempts h) k \<and>
      (subject_for_source k \<in> emitted h' \<longleftrightarrow> subject_for_source k \<in> emitted h)"
    if "source_of e \<noteq> Some k"
    using skip step(1,3) that by (cases "source_of e") auto
qed

section \<open>Runs\<close>

fun login_run :: "(real \<times> event) list \<Rightarrow> brute_force \<Rightarrow> signal list \<times> brute_force" where
  "login_run [] h = ([], h)"
| "login_run ((now, e) # es) h =
     (let (r, h1) = process_login_event now (Some now) e h; (rs, h2) = login_run es h1
      in ((case r of None \<Rightarrow> [] | Some x \<Rightarrow> [x]) @ rs, h2))"

definition login_times :: "string \<Rightarrow> (real \<times> event) list \<Rightarrow> real list" where
  "login_times src es = map fst (filter (\<lambda>(t, e). source_of e = Some src) es)"

lemma login_run_detector:
  "snd (bf.run es h) = snd (login_run es h)
    \<and> length (filter (\<lambda>x. subject x = subject_for_source src) (fst (login_run es h)))
        = length (filter (\<lambda>r. r = (Some src, True)) (fst (bf.run es h)))"
proof (induction es arbitrary: h)
  case (Cons te es)
  obtain t e where te: "te = (t, e)" by (cases te)
  obtain r h1 where p: "process_login_event t (Some t) e h = (r, h1)" by fastforce
  have o: "login_observe t e h = (r \<noteq> None, h1)" using p by (simp add: login_observe_def)
  have r: "r = None \<or> (\<exists>x s. r = Some x \<and> source_of e = Some s \<and> subject x = subject_for_source s)"
    using p by (auto simp: process_login_event_def Let_def mk_signal_def split: option.splits if_splits)
  obtain rs h2 where run: "login_run es h1 = (rs, h2)" by fastforce
  obtain fs where run2: "bf.run es h1 = (fs, h2)"
    using Cons.IH[of h1] run by (metis prod.collapse snd_conv)
  have IH: "length (filter (\<lambda>x. subject x = subject_for_source src) rs)
      = length (filter (\<lambda>r. r = (Some src, True)) fs)"
    using Cons.IH[of h1] run run2 by simp
  have fr: "login_run (te # es) h = ((case r of None \<Rightarrow> [] | Some x \<Rightarrow> [x]) @ rs, h2)"
    using te p run by simp
  have rr: "bf.run (te # es) h = ((source_of e, r \<noteq> None) # fs, h2)"
    using te o run2 by (simp only: bf.run.simps prod.case Let_def)
  show ?case unfolding fr rr using IH r by auto
qed simp

section \<open>Property\<close>

text \<open>C7: for login events in time order a burst is reported about a source exactly when some failed login
  has at least the configured number of failed logins from that source within the window before it,
  and it is reported once.\<close>
theorem failed_login_burst_exact:
  assumes "sorted (map fst es)" and "0 < n"
  shows "length (filter (\<lambda>x. subject x = subject_for_source src) (fst (login_run es (new_brute_force n w))))
    = (if \<exists>m. let ts = login_times src (take m es)
              in ts \<noteq> [] \<and> n \<le> int (count_since (List.last ts - w) ts) then 1 else 0)"
proof -
  let ?h = "new_brute_force n w"
  have h: "window_seconds ?h = w \<and> count_threshold ?h = n" "window_of (attempts ?h) src = []"
    "subject_for_source src \<notin> emitted ?h"
    by (simp_all add: new_brute_force_def)
  have v: "\<forall>(t, e) \<in> set es. True" by simp
  obtain rs h' where run: "bf.run es ?h = (rs, h')" by fastforce
  have eq: "length (filter (\<lambda>x. subject x = subject_for_source src) (fst (login_run es ?h)))
      = length (filter (\<lambda>r. r = (Some src, True)) rs)"
    using login_run_detector[of es ?h src] run by simp
  have wt: "bf.times_of src es' = login_times src es'" for es'
    by (simp add: bf.times_of_def login_times_def)
  have cmp: "(of_int n \<le> real k) = (n \<le> int k)" for k
    by (metis of_int_le_iff of_int_of_nat_eq)
  have iff: "(Some src, True) \<in> set rs \<longleftrightarrow>
      (\<exists>m. let ts = login_times src (take m es)
           in ts \<noteq> [] \<and> n \<le> int (count_since (List.last ts - w) ts))"
    using bf.burst_reported_iff[OF h(1) v assms(1) run h(2,3)] assms(2)
    unfolding wt cmp by simp
  show ?thesis using bf.fires_count[OF h(1) v run h(3)] unfolding eq iff .
qed

definition failed_login :: event where
  "failed_login =
     \<lparr>timestamp = ''t'', source = ''eventlog'', event_type = ''login_failed'', pid = None,
      parent_pid = None, image_path = None, command_line = None, hash_sha256 = None,
      extra = [(''source_host'', VStr ''h'')]\<rparr>"

lemma failed_login_source: "source_of failed_login = Some ''h''"
  by code_simp

theorem failed_login_burst_exact_witness:
  "length (filter (\<lambda>x. subject x = subject_for_source ''h'')
     (fst (login_run [(0, failed_login), (1, failed_login)] (new_brute_force 2 120)))) = 1"
proof -
  have "\<exists>m. let ts = login_times ''h'' (take m [(0, failed_login), (1, failed_login)])
      in ts \<noteq> [] \<and> 2 \<le> int (count_since (List.last ts - 120) ts)"
    by (rule exI[of _ 2]) (simp add: login_times_def failed_login_source count_since_def)
  with failed_login_burst_exact[of "[(0, failed_login), (1, failed_login)]" 2 "''h''" 120]
  show ?thesis by simp
qed

end
