(* ===== verification/C2.thy ===== *)
theory C2
  imports Schema Scoring
begin

text \<open>
  \<open>engine/heuristics_c2.py\<close>: beaconing analysis and the blocklist of command-and-control servers. A
  beacon stream is kept for each pair of a process and a remote address, with the last twenty times
  (a deque with \<open>maxlen=20\<close>) and the time of its last signal. \<open>now\<close> is \<open>time.time()\<close>. The remote address
  comes from the event's payload and may be any value: an unhashable one raises when it is used as a key
  (numbers of different types count as different keys).
\<close>

section \<open>Beacon streams\<close>

definition max_interval :: real where
  "max_interval = 900"

definition min_beacon_samples :: nat where
  "min_beacon_samples = 4"

record beacon_stream =
  stream_pid :: int
  remote_ip :: pyval
  timestamps :: "real list"
  last_signal_time :: real

definition new_stream :: "int \<Rightarrow> pyval \<Rightarrow> beacon_stream" where
  "new_stream p ip = \<lparr>stream_pid = p, remote_ip = ip, timestamps = [], last_signal_time = 0\<rparr>"

definition add_connection :: "real \<Rightarrow> beacon_stream \<Rightarrow> beacon_stream" where
  "add_connection ts st =
     (let l = timestamps st @ [ts] in st\<lparr>timestamps := drop (length l - 20) l\<rparr>)"

fun intervals :: "real list \<Rightarrow> real list" where
  "intervals (a # b # ts) = (b - a) # intervals (b # ts)"
| "intervals ts = []"

definition mean_of :: "real list \<Rightarrow> real" where
  "mean_of xs = sum_list xs / real (length xs)"

definition std_of :: "real list \<Rightarrow> real" where
  "std_of xs = sqrt (sum_list (map (\<lambda>d. (d - mean_of xs)\<^sup>2) xs) / real (length xs))"

definition valid_intervals :: "real list \<Rightarrow> real list" where
  "valid_intervals ts = filter (\<lambda>d. 1/10 \<le> d \<and> d \<le> max_interval) (intervals ts)"

definition calculate_jitter :: "beacon_stream \<Rightarrow> (real \<times> real \<times> real) option" where
  "calculate_jitter st =
     (if length (timestamps st) < min_beacon_samples then None
      else let valid = valid_intervals (timestamps st)
           in if length valid < min_beacon_samples - 1 then None
              else let mean_dt = mean_of valid
                   in if mean_dt \<le> 0 then None
                      else Some (mean_dt, std_of valid, std_of valid / mean_dt))"

section \<open>The detector\<close>

record beacon_detector =
  cv_threshold :: real
  cooldown_seconds :: real
  streams :: "(int \<times> pyval, beacon_stream) dict"

definition new_beacon_detector :: "real \<Rightarrow> real \<Rightarrow> beacon_detector" where
  "new_beacon_detector cv cd = \<lparr>cv_threshold = cv, cooldown_seconds = cd, streams = []\<rparr>"

fun hashable :: "pyval \<Rightarrow> bool" where
  "hashable (VList xs) = False"
| "hashable (VDict d) = False"
| "hashable _ = True"

definition connection_pid :: "event \<Rightarrow> int option" where
  \<comment> \<open>the early return for other events and for a missing or zero process id\<close>
  "connection_pid e =
     (if event_type e \<noteq> ''connection'' then None
      else case pid e of None \<Rightarrow> None | Some p \<Rightarrow> if p = 0 then None else Some p)"

definition proc_text :: "event \<Rightarrow> int \<Rightarrow> string" where
  "proc_text e p =
     (if nonempty (command_line e) then the (command_line e)
      else if nonempty (image_path e) then the (image_path e)
      else ''PID '' @ show_int p)"

definition loopbacks :: "pyval list" where
  "loopbacks = [VStr ''127.0.0.1'', VStr ''::1'', VStr ''0.0.0.0'']"

definition beacon_signal :: "real \<Rightarrow> event \<Rightarrow> int \<Rightarrow> pyval \<Rightarrow> real \<Rightarrow> real \<Rightarrow> real \<Rightarrow> signal" where
  "beacon_signal now e p ip mean_dt cv th =
     mk_signal now ''c2_beaconing'' (''pid:'' @ show_int p)
       (''Periodic C2 beaconing detected to '' @ py_str ip @ '': interval='' @ fmt_fixed 1 mean_dt @
        ''s (jitter cv='' @ fmt_fixed 3 cv @ '' <= '' @ fmt_fixed 2 th @ '') by '' @ proc_text e p)
       ''heuristics_c2'' (Some 40) None"

definition process_connection ::
  "real \<Rightarrow> event \<Rightarrow> beacon_detector \<Rightarrow> signal option py_result \<times> beacon_detector" where
  "process_connection now e d =
     (case connection_pid e of
        None \<Rightarrow> (Inr None, d)
      | Some p \<Rightarrow>
          let ip = dict_get (extra e) ''remote_ip''
          in if \<not> truthy ip \<or> ip \<in> set loopbacks then (Inr None, d)
             else if \<not> hashable ip then (Inl TypeError, d)
             else
               let k = (p, ip);
                   st0 = (case map_of (streams d) k of None \<Rightarrow> new_stream p ip | Some st \<Rightarrow> st);
                   st = add_connection now st0;
                   d1 = d\<lparr>streams := AList.update k st (streams d)\<rparr>
               in if now - last_signal_time st < cooldown_seconds d then (Inr None, d1)
                  else case calculate_jitter st of
                         None \<Rightarrow> (Inr None, d1)
                       | Some (mean_dt, std_dt, cv) \<Rightarrow>
                           if cv \<le> cv_threshold d
                           then (Inr (Some (beacon_signal now e p ip mean_dt cv (cv_threshold d))),
                                 d\<lparr>streams := AList.update k (st\<lparr>last_signal_time := now\<rparr>) (streams d)\<rparr>)
                           else (Inr None, d1))"

definition beacon_reset_pid :: "int \<Rightarrow> beacon_detector \<Rightarrow> beacon_detector" where
  "beacon_reset_pid p d = d\<lparr>streams := filter (\<lambda>kv. fst (fst kv) \<noteq> p) (streams d)\<rparr>"

section \<open>The blocklist\<close>

definition default_c2_ips :: "string list" where
  "default_c2_ips =
     [''185.106.94.13'', ''194.38.20.15'', ''45.154.255.88'', ''193.106.191.162'', ''91.240.118.172'',
      ''195.123.245.101'', ''185.220.101.5'', ''194.26.29.114'', ''127.0.0.99'']"

definition default_c2_ports :: "int list" where
  "default_c2_ports = [50050, 31337, 4444, 6606, 7707, 8888]"

record c2_blocklist =
  blocked_ips :: "string list"
  blocked_ports :: "int list"

definition new_blocklist :: "string list \<Rightarrow> int list \<Rightarrow> c2_blocklist" where
  "new_blocklist ips ports =
     \<lparr>blocked_ips = (if ips = [] then default_c2_ips else ips),
      blocked_ports = (if ports = [] then default_c2_ports else ports)\<rparr>"

definition private_prefix :: "string \<Rightarrow> bool" where
  "private_prefix ip \<longleftrightarrow>
     startswith ip ''10.'' \<or> startswith ip ''192.168.'' \<or> startswith ip ''172.16.''"

definition blocklist_check :: "string \<Rightarrow> int option \<Rightarrow> c2_blocklist \<Rightarrow> bool \<times> string" where
  "blocklist_check ip port b =
     (if ip \<in> set (blocked_ips b) then (True, ''Known C2 Threat Intel IP ('' @ ip @ '')'')
      else case port of
             None \<Rightarrow> (False, [])
           | Some q \<Rightarrow>
               if q \<noteq> 0 \<and> q \<in> set (blocked_ports b) \<and> \<not> private_prefix ip
               then (True, ''Known C2 Staging Port ('' @ show_int q @ '')'') else (False, []))"

definition match_reason :: "pyval \<Rightarrow> pyval \<Rightarrow> c2_blocklist \<Rightarrow> string option py_result" where
  \<comment> \<open>the reason of \<open>check_connection\<close>; \<open>ip.startswith\<close> raises on a value that is not text\<close>
  "match_reason ip port b =
     (if \<not> hashable ip then Inl TypeError
      else if ip \<in> set (map VStr (blocked_ips b))
        then Inr (Some (''Outbound connection to known C2 infrastructure IP: '' @ py_str ip))
      else if \<not> truthy port then Inr None
      else bind_res (to_int port) (\<lambda>q.
        if q \<notin> set (blocked_ports b) then Inr None
        else case ip of
               VStr s \<Rightarrow>
                 if private_prefix s then Inr None
                 else Inr (Some (''Outbound connection to known C2 staging/listener port '' @
                                 py_str port @ '' at '' @ s))
             | _ \<Rightarrow> Inl AttributeError))"

definition check_connection :: "real \<Rightarrow> event \<Rightarrow> c2_blocklist \<Rightarrow> signal option py_result" where
  "check_connection now e b =
     (case connection_pid e of
        None \<Rightarrow> Inr None
      | Some p \<Rightarrow>
          let ip = dict_get (extra e) ''remote_ip''; port = dict_get (extra e) ''dest_port''
          in if \<not> truthy ip then Inr None
             else bind_res (match_reason ip port b) (\<lambda>m.
               case m of
                 None \<Rightarrow> Inr None
               | Some r \<Rightarrow>
                   Inr (Some (mk_signal now ''c2_threat_intel'' (''pid:'' @ show_int p)
                          (r @ '' by '' @ proc_text e p) ''heuristics_c2'' (Some 85) None))))"


section \<open>Jitter of regular connections\<close>

lemma sum_list_bounds:
  fixes xs :: "real list"
  assumes "\<forall>x \<in> set xs. a \<le> x \<and> x \<le> b"
  shows "real (length xs) * a \<le> sum_list xs \<and> sum_list xs \<le> real (length xs) * b"
  using assms by (induction xs) (auto simp: algebra_simps)

lemma mean_bounds:
  assumes "\<forall>x \<in> set xs. a \<le> x \<and> x \<le> b" and "xs \<noteq> []"
  shows "a \<le> mean_of xs" "mean_of xs \<le> b"
  using sum_list_bounds[OF assms(1)] assms(2) by (simp_all add: mean_of_def field_simps)

lemma std_nonneg: "0 \<le> std_of xs"
proof -
  have "0 \<le> sum_list (map (\<lambda>d. (d - mean_of xs)\<^sup>2) xs)" by (rule sum_list_nonneg) auto
  then show ?thesis by (simp add: std_of_def)
qed

lemma std_bound:
  assumes "\<forall>x \<in> set xs. a \<le> x \<and> x \<le> b" and "xs \<noteq> []"
  shows "std_of xs \<le> b - a"
proof -
  have ab: "a \<le> b" using assms by (meson last_in_set order_trans)
  have "\<forall>x \<in> set xs. (x - mean_of xs)\<^sup>2 \<le> (b - a)\<^sup>2"
  proof
    fix x assume "x \<in> set xs"
    with assms mean_bounds[OF assms] have "\<bar>x - mean_of xs\<bar> \<le> \<bar>b - a\<bar>" by fastforce
    then show "(x - mean_of xs)\<^sup>2 \<le> (b - a)\<^sup>2" by (simp add: abs_le_square_iff)
  qed
  then have "sum_list (map (\<lambda>d. (d - mean_of xs)\<^sup>2) xs) \<le> real (length xs) * (b - a)\<^sup>2"
    using sum_list_bounds[of "map (\<lambda>d. (d - mean_of xs)\<^sup>2) xs" 0 "(b - a)\<^sup>2"] by simp
  then have "sum_list (map (\<lambda>d. (d - mean_of xs)\<^sup>2) xs) / real (length xs) \<le> (b - a)\<^sup>2"
    using assms(2) by (simp add: field_simps)
  then have "std_of xs \<le> sqrt ((b - a)\<^sup>2)" unfolding std_of_def by (rule real_sqrt_le_mono)
  with ab show ?thesis by simp
qed

lemma regular_jitter:
  assumes n: "4 \<le> length (timestamps st)" and r: "\<forall>x \<in> set (intervals (timestamps st)). a \<le> x \<and> x \<le> b"
    and a: "1/10 \<le> a" and b: "b \<le> 900"
  shows "\<exists>m s c. calculate_jitter st = Some (m, s, c) \<and> a \<le> m \<and> m \<le> b \<and> c \<le> (b - a) / a"
proof -
  let ?xs = "intervals (timestamps st)"
  have len: "length (intervals ts) = length ts - 1" for ts by (induction ts rule: intervals.induct) auto
  have v: "valid_intervals (timestamps st) = ?xs"
    using r a b by (force simp: valid_intervals_def max_interval_def filter_id_conv)
  have ne: "?xs \<noteq> []" using n len[of "timestamps st"] by auto
  note m = mean_bounds[OF r ne]
  have c: "std_of ?xs / mean_of ?xs \<le> (b - a) / a"
    using std_bound[OF r ne] std_nonneg[of ?xs] m a by (intro frac_le) auto
  have "calculate_jitter st = Some (mean_of ?xs, std_of ?xs, std_of ?xs / mean_of ?xs)"
    using n len[of "timestamps st"] m a
    by (simp add: calculate_jitter_def min_beacon_samples_def v Let_def)
  with m c show ?thesis by simp
qed

section \<open>Runs of the detector\<close>

definition conn_key :: "event \<Rightarrow> (int \<times> pyval) option" where
  \<comment> \<open>the stream a connection belongs to\<close>
  "conn_key e =
     (case connection_pid e of
        None \<Rightarrow> None
      | Some p \<Rightarrow>
          let ip = dict_get (extra e) ''remote_ip''
          in if truthy ip \<and> ip \<notin> set loopbacks \<and> hashable ip then Some (p, ip) else None)"

definition stream_at :: "beacon_detector \<Rightarrow> int \<times> pyval \<Rightarrow> beacon_stream" where
  "stream_at d k = (case map_of (streams d) k of None \<Rightarrow> new_stream (fst k) (snd k) | Some st \<Rightarrow> st)"

fun conn_run ::
  "(real \<times> event) list \<Rightarrow> beacon_detector \<Rightarrow> signal option py_result list \<times> beacon_detector" where
  "conn_run [] d = ([], d)"
| "conn_run ((now, e) # es) d =
     (let (r, d1) = process_connection now e d; (rs, d2) = conn_run es d1 in (r # rs, d2))"

definition signalled :: "signal option py_result \<Rightarrow> bool" where
  "signalled r = (case r of Inr (Some x) \<Rightarrow> True | _ \<Rightarrow> False)"

definition signal_times ::
  "int \<times> pyval \<Rightarrow> (real \<times> event) list \<Rightarrow> signal option py_result list \<Rightarrow> real list" where
  "signal_times k es rs =
     map (fst \<circ> fst) (filter (\<lambda>((t, e), r). conn_key e = Some k \<and> signalled r) (zip es rs))"

lemma process_connection_keyless:
  "conn_key e = None \<Longrightarrow> \<exists>r. process_connection now e d = (r, d) \<and> \<not> signalled r"
  by (auto simp: process_connection_def conn_key_def signalled_def Let_def split: option.splits if_splits)

lemma process_connection_keyed:
  assumes "conn_key e = Some k"
  shows "\<exists>r st. process_connection now e d = (r, d\<lparr>streams := AList.update k st (streams d)\<rparr>)
    \<and> timestamps st = timestamps (add_connection now (stream_at d k))
    \<and> last_signal_time st = (if signalled r then now else last_signal_time (stream_at d k))
    \<and> (signalled r \<longleftrightarrow> cooldown_seconds d \<le> now - last_signal_time (stream_at d k)
         \<and> (\<exists>m s c. calculate_jitter (add_connection now (stream_at d k)) = Some (m, s, c)
              \<and> c \<le> cv_threshold d))"
proof -
  obtain p ip where k: "k = (p, ip)" by (cases k)
  from assms k have c: "connection_pid e = Some p" "dict_get (extra e) ''remote_ip'' = ip"
    "truthy ip" "ip \<notin> set loopbacks" "hashable ip"
    by (auto simp: conn_key_def Let_def split: option.splits if_splits)
  have st: "(case map_of (streams d) (p, ip) of None \<Rightarrow> new_stream p ip | Some st \<Rightarrow> st) = stream_at d k"
    by (simp add: stream_at_def k split: option.split)
  let ?st = "add_connection now (stream_at d k)"
  have l: "last_signal_time ?st = last_signal_time (stream_at d k)"
    by (simp add: add_connection_def Let_def)
  show ?thesis
  proof (cases "now - last_signal_time (stream_at d k) < cooldown_seconds d")
    case True
    then show ?thesis
      by (simp add: process_connection_def c Let_def st l signalled_def)
        (rule exI[of _ ?st], use l k in simp)
  next
    case False
    show ?thesis
    proof (cases "\<exists>m s cv. calculate_jitter ?st = Some (m, s, cv) \<and> cv \<le> cv_threshold d")
      case True
      then obtain m s cv where j: "calculate_jitter ?st = Some (m, s, cv)" "cv \<le> cv_threshold d" by blast
      with False show ?thesis
        by (simp add: process_connection_def c Let_def st l signalled_def)
          (rule exI[of _ "?st\<lparr>last_signal_time := now\<rparr>"], use k in simp)
    next
      case no: False
      with False have "process_connection now e d = (Inr None, d\<lparr>streams := AList.update k ?st (streams d)\<rparr>)"
        by (auto simp: process_connection_def c Let_def st l k split: option.splits)
      with no show ?thesis by (auto simp: signalled_def l)
    qed
  qed
qed

lemma process_connection_params:
  "process_connection now e d = (r, d') \<Longrightarrow>
     cooldown_seconds d' = cooldown_seconds d \<and> cv_threshold d' = cv_threshold d"
  using process_connection_keyless[of e now d] process_connection_keyed[of e _ now d]
  by (cases "conn_key e") auto

lemma stream_at_update [simp]:
  "stream_at (d\<lparr>streams := AList.update k st (streams d)\<rparr>) j = (if j = k then st else stream_at d j)"
  by (simp add: stream_at_def)

lemma cooldown_run:
  "conn_run es d = (rs, d') \<Longrightarrow>
     successively (\<lambda>a b. cooldown_seconds d \<le> b - a)
       (last_signal_time (stream_at d k) # signal_times k es rs)"
proof (induction es arbitrary: d rs)
  case (Cons te es)
  obtain t e where te: "te = (t, e)" by (cases te)
  obtain r d1 where p: "process_connection t e d = (r, d1)" by fastforce
  obtain rs1 where run: "conn_run es d1 = (rs1, d')" and rs: "rs = r # rs1"
    using Cons.prems te p by (auto split: prod.splits)
  have cd: "cooldown_seconds d1 = cooldown_seconds d" using process_connection_params[OF p] by simp
  have IH: "successively (\<lambda>a b. cooldown_seconds d \<le> b - a)
       (last_signal_time (stream_at d1 k) # signal_times k es rs1)"
    using Cons.IH[OF run] by (simp add: cd)
  have st: "signal_times k (te # es) rs =
      (if conn_key e = Some k \<and> signalled r then [t] else []) @ signal_times k es rs1"
    by (simp add: signal_times_def te rs)
  show ?case
  proof (cases "conn_key e = Some k")
    case True
    from process_connection_keyed[OF True, of t d] p have
      "last_signal_time (stream_at d1 k) = (if signalled r then t else last_signal_time (stream_at d k))"
      "signalled r \<Longrightarrow> cooldown_seconds d \<le> t - last_signal_time (stream_at d k)"
      by auto
    with IH True show ?thesis unfolding st by auto
  next
    case False
    have "stream_at d1 k = stream_at d k"
    proof (cases "conn_key e")
      case None
      with process_connection_keyless[OF None, of t d] p show ?thesis by auto
    next
      case (Some j)
      with process_connection_keyed[OF Some, of t d] p False show ?thesis by auto
    qed
    with IH False show ?thesis unfolding st by simp
  qed
qed (simp add: signal_times_def)

section \<open>Properties\<close>

text \<open>Two beaconing signals about the same process and remote address are at least the cooldown apart,
  in every run of the detector.\<close>
lemma beacon_cooldown:
  assumes "conn_run es (new_beacon_detector cv cd) = (rs, d)"
  shows "successively (\<lambda>a b. cd \<le> b - a) (signal_times k es rs)"
proof -
  have "successively (\<lambda>a b. cd \<le> b - a)
     (last_signal_time (stream_at (new_beacon_detector cv cd) k) # signal_times k es rs)"
    using cooldown_run[OF assms, of k] by (simp add: new_beacon_detector_def)
  then show ?thesis by (cases "signal_times k es rs") auto
qed

text \<open>A process whose first four connections to an address come at intervals between \<open>a\<close> and \<open>b\<close> seconds,
  with \<open>b - a\<close> at most the threshold's share of \<open>a\<close>, is reported at the fourth.\<close>
lemma regular_beacon_reported:
  assumes "conn_key e0 = Some k" and "conn_key e1 = Some k" and "conn_key e2 = Some k"
    and "conn_key e3 = Some k"
    and "\<forall>x \<in> {t1 - t0, t2 - t1, t3 - t2}. a \<le> x \<and> x \<le> b"
    and "1/10 \<le> a" and "b \<le> 900" and "b - a \<le> cv * a" and "cd \<le> t3"
    and "conn_run [(t0, e0), (t1, e1), (t2, e2), (t3, e3)] (new_beacon_detector cv cd) = (rs, d)"
  shows "signalled (rs ! 3)"
proof -
  let ?d0 = "new_beacon_detector cv cd"
  obtain r0 d1 where p0: "process_connection t0 e0 ?d0 = (r0, d1)" by fastforce
  obtain r1 d2 where p1: "process_connection t1 e1 d1 = (r1, d2)" by fastforce
  obtain r2 d3 where p2: "process_connection t2 e2 d2 = (r2, d3)" by fastforce
  obtain r3 d4 where p3: "process_connection t3 e3 d3 = (r3, d4)" by fastforce
  have rs: "rs ! 3 = r3" using assms(10) p0 p1 p2 p3 by auto
  have pr: "cooldown_seconds d3 = cd \<and> cv_threshold d3 = cv"
    using process_connection_params[OF p0] process_connection_params[OF p1]
      process_connection_params[OF p2] by (simp add: new_beacon_detector_def)
  have e: "timestamps (stream_at ?d0 k) = []" "last_signal_time (stream_at ?d0 k) = 0"
    by (simp_all add: new_beacon_detector_def stream_at_def new_stream_def)
  have early: "\<not> signalled r \<and> timestamps (stream_at d' k) = timestamps (stream_at d k) @ [t]
      \<and> last_signal_time (stream_at d' k) = last_signal_time (stream_at d k)"
    if "conn_key e = Some k" "process_connection t e d = (r, d')" "length (timestamps (stream_at d k)) < 3"
    for e t d r d'
    using process_connection_keyed[OF that(1), of t d] that(2,3)
    by (auto simp: add_connection_def calculate_jitter_def min_beacon_samples_def Let_def)
  note s0 = early[OF assms(1) p0, unfolded e, simplified]
  note s1 = early[OF assms(2) p1, unfolded s0[THEN conjunct2, THEN conjunct1], simplified]
  note s2 = early[OF assms(3) p2, unfolded s1[THEN conjunct2, THEN conjunct1], simplified]
  have ts: "timestamps (add_connection t3 (stream_at d3 k)) = [t0, t1, t2, t3]"
    using s2 by (simp add: add_connection_def Let_def)
  have l: "last_signal_time (stream_at d3 k) = 0" using s0 s1 s2 e by simp
  have "\<exists>m s c. calculate_jitter (add_connection t3 (stream_at d3 k)) = Some (m, s, c)
      \<and> a \<le> m \<and> m \<le> b \<and> c \<le> (b - a) / a"
    by (rule regular_jitter) (use assms(5-7) ts in auto)
  moreover have "(b - a) / a \<le> cv" using assms(6,8) by (simp add: field_simps)
  ultimately have "\<exists>m s c. calculate_jitter (add_connection t3 (stream_at d3 k)) = Some (m, s, c) \<and> c \<le> cv"
    by fastforce
  with process_connection_keyed[OF assms(4), of t3 d3] p3 pr l assms(9) have "signalled r3" by auto
  with rs show ?thesis by simp
qed

text \<open>For a connection of a process to an address given as text, the event check reports a threat exactly
  when the direct check of address and port does, and the signal it gives makes a scorer with a
  threshold of at most 85 respond by itself.\<close>
lemma blocklist_checks_agree:
  assumes "event_type e = ''connection''" and "pid e = Some p" and "p \<noteq> 0"
    and "dict_get (extra e) ''remote_ip'' = VStr ip" and "ip \<noteq> []"
    and "dict_get (extra e) ''dest_port'' = (case port of None \<Rightarrow> VNone | Some q \<Rightarrow> VInt q)"
    and "th \<le> 85" and "0 < max_s"
  shows "if fst (blocklist_check ip port b)
    then \<exists>x ss sc. check_connection now e b = Inr (Some x) \<and> subject x = ''pid:'' @ show_int p
           \<and> add_signal now x (new_scorer th ttl max_s) = Inr (ss, sc) \<and> should_respond (subject x) sc
    else check_connection now e b = Inr None"
proof -
  have c: "connection_pid e = Some p" using assms(1-3) by (simp add: connection_pid_def)
  let ?m = "match_reason (VStr ip) (case port of None \<Rightarrow> VNone | Some q \<Rightarrow> VInt q) b"
  have m: "if fst (blocklist_check ip port b) then \<exists>r. ?m = Inr (Some r) else ?m = Inr None"
    by (auto simp: match_reason_def blocklist_check_def split: option.splits)
  show ?thesis
  proof (cases "fst (blocklist_check ip port b)")
    case False
    with m show ?thesis by (simp add: check_connection_def c assms(4,5,6))
  next
    case True
    with m obtain r where r: "?m = Inr (Some r)" by auto
    define x where "x = mk_signal now ''c2_threat_intel'' (''pid:'' @ show_int p)
      (r @ '' by '' @ proc_text e p) ''heuristics_c2'' (Some 85) None"
    have "check_connection now e b = Inr (Some x)"
      using r by (simp add: check_connection_def c assms(4,5,6) x_def)
    moreover have "\<exists>ss sc. add_signal now x (new_scorer th ttl max_s) = Inr (ss, sc) \<and> should_respond (subject x) sc"
      by (rule lone_signal_responds[OF assms(8)])
        (use assms(7) in \<open>simp_all add: x_def mk_signal_def is_dll_kind_def startswith_def effective_weight_def\<close>)
    ultimately show ?thesis using True by (auto simp: x_def mk_signal_def)
  qed
qed

section \<open>Witnesses\<close>

definition conn_event :: "string \<Rightarrow> int \<Rightarrow> event" where
  "conn_event ip q =
     \<lparr>timestamp = ''t'', source = ''network'', event_type = ''connection'', pid = Some 7,
      parent_pid = None, image_path = Some ''/x'', command_line = None, hash_sha256 = None,
      extra = [(''remote_ip'', VStr ip), (''dest_port'', VInt q)]\<rparr>"

lemma conn_event_key: "conn_key (conn_event ''8.8.8.8'' 443) = Some (7, VStr ''8.8.8.8'')"
  by code_simp

definition sample_beacons :: "(real \<times> event) list" where
  "sample_beacons = map (\<lambda>t. (t, conn_event ''8.8.8.8'' 443)) [100, 130, 160, 190]"

lemma beacon_cooldown_witness:
  "successively (\<lambda>a b. 60 \<le> b - a)
     (signal_times (7, VStr ''8.8.8.8'') sample_beacons (fst (conn_run sample_beacons (new_beacon_detector (1/5) 60))))"
  by (rule beacon_cooldown[OF surjective_pairing])

lemma regular_beacon_reported_witness:
  "signalled (fst (conn_run sample_beacons (new_beacon_detector (1/5) 60)) ! 3)"
proof -
  have "conn_run [(100, conn_event ''8.8.8.8'' 443), (130, conn_event ''8.8.8.8'' 443),
      (160, conn_event ''8.8.8.8'' 443), (190, conn_event ''8.8.8.8'' 443)] (new_beacon_detector (1/5) 60)
    = (fst (conn_run sample_beacons (new_beacon_detector (1/5) 60)),
       snd (conn_run sample_beacons (new_beacon_detector (1/5) 60)))"
    by (simp only: sample_beacons_def list.map prod.collapse)
  from regular_beacon_reported[OF conn_event_key conn_event_key conn_event_key conn_event_key _ _ _ _ _ this,
      where a = 30 and b = 30]
  show ?thesis by simp
qed

text \<open>The witness also shows that a connection of a process to port 8888 of its own machine is a threat.\<close>

lemma blocklist_checks_agree_witness:
  "\<exists>x ss sc. check_connection 5 (conn_event ''127.0.0.1'' 8888) (new_blocklist [] []) = Inr (Some x)
     \<and> subject x = ''pid:7''
     \<and> add_signal 5 x (new_scorer 80 600 100) = Inr (ss, sc) \<and> should_respond (subject x) sc"
proof -
  have b: "fst (blocklist_check ''127.0.0.1'' (Some 8888) (new_blocklist [] []))"
    by (simp add: blocklist_check_def new_blocklist_def default_c2_ips_def default_c2_ports_def
        private_prefix_def startswith_def)
  have p: "''pid:7'' = ''pid:'' @ show_int 7" by code_simp
  have e: "event_type (conn_event ''127.0.0.1'' 8888) = ''connection''"
    "pid (conn_event ''127.0.0.1'' 8888) = Some 7" "(7::int) \<noteq> 0" "''127.0.0.1'' \<noteq> []"
    "dict_get (extra (conn_event ''127.0.0.1'' 8888)) ''remote_ip'' = VStr ''127.0.0.1''"
    "dict_get (extra (conn_event ''127.0.0.1'' 8888)) ''dest_port''
       = (case Some 8888 of None \<Rightarrow> VNone | Some q \<Rightarrow> VInt q)"
    "(80::real) \<le> 85" "(0::int) < 100"
    by (simp_all add: conn_event_def dict_get_def)
  note r = blocklist_checks_agree[OF e(1-3,5,4,6-8), of "new_blocklist [] []" 5 600]
  from r[unfolded if_P[OF b]] show ?thesis unfolding p .
qed

end
