(* ===== verification/Cryptomining.thy ===== *)
theory Cryptomining
  imports Schema Scoring
begin

text \<open>
  \<open>engine/heuristics_cryptomining.py\<close>: sustained CPU use and connections to mining pools. What \<open>psutil\<close>
  answers at one sampling is a record of parameters: the process ids (or a failure), whether a cached
  process still runs, whether a process can be opened, and its reading (or a failure). The state keeps
  the recent readings per process, the cached processes and the processes already reported.
\<close>

section \<open>CPU windows\<close>

type_synonym cpu_window = "(real \<times> real) list"

definition cpu_add :: "real \<Rightarrow> real \<Rightarrow> real \<Rightarrow> cpu_window \<Rightarrow> cpu_window" where
  "cpu_add ts percent max_age samples =
     filter (\<lambda>(t, p). ts - max_age \<le> t) (samples @ [(ts, percent)])"

definition sustained_above :: "real \<Rightarrow> real \<Rightarrow> real \<Rightarrow> cpu_window \<Rightarrow> bool" where
  "sustained_above limit seconds now samples =
     (let cutoff = now - seconds; window = filter (\<lambda>(t, p). cutoff \<le> t) samples
      in if window = [] then False
         else if cutoff + seconds * (1/4) < fst (hd window) then False
         else list_all (\<lambda>(t, p). limit \<le> p) window)"

section \<open>The heuristic\<close>

record proc_view =
  pid_list :: "int list option"
  running :: "int \<Rightarrow> bool"
  openable :: "int \<Rightarrow> bool"
  reading :: "int \<Rightarrow> (real \<times> string) option"

record cryptomining =
  cpu_percent :: real
  cpu_seconds :: real
  sample_interval :: real
  stratum_ports :: "int list"
  cpu_windows :: "(int, cpu_window) dict"
  procs :: "int set"
  emitted_cpu :: "int set"
  emitted_stratum :: "int set"

definition default_stratum_ports :: "int list" where
  "default_stratum_ports = [3333, 4444, 5555, 7777, 8333, 9999, 14433, 45700]"

definition new_cryptomining :: "real \<Rightarrow> real \<Rightarrow> real \<Rightarrow> int list \<Rightarrow> cryptomining" where
  "new_cryptomining pct secs step ports =
     \<lparr>cpu_percent = pct, cpu_seconds = secs, sample_interval = step, stratum_ports = ports,
      cpu_windows = [], procs = {}, emitted_cpu = {}, emitted_stratum = {}\<rparr>"

definition get_proc :: "proc_view \<Rightarrow> int \<Rightarrow> cryptomining \<Rightarrow> bool \<times> cryptomining" where
  "get_proc v p h =
     (if p \<in> procs h \<and> running v p then (True, h)
      else if openable v p then (True, h\<lparr>procs := insert p (procs h)\<rparr>)
      else (False, h))"

definition cpu_window_of :: "cryptomining \<Rightarrow> int \<Rightarrow> cpu_window" where
  "cpu_window_of h p = (case map_of (cpu_windows h) p of None \<Rightarrow> [] | Some w \<Rightarrow> w)"

definition cpu_signal :: "real \<Rightarrow> int \<Rightarrow> string \<Rightarrow> cryptomining \<Rightarrow> signal" where
  "cpu_signal clock p name h =
     mk_signal clock ''cpu_sustained'' (''pid:'' @ show_int p)
       ((if name = [] then ''pid '' @ show_int p else name) @ '' sustained >='' @
        fmt_fixed 0 (cpu_percent h) @ ''% CPU for >='' @ fmt_fixed 0 (cpu_seconds h) @ ''s'')
       ''cryptomining_heuristic'' None None"

definition sample_one ::
  "real \<Rightarrow> real \<Rightarrow> proc_view \<Rightarrow> signal list \<times> cryptomining \<Rightarrow> int \<Rightarrow> signal list \<times> cryptomining" where
  \<comment> \<open>the body of the loop of \<open>sample_cpu\<close> for one process\<close>
  "sample_one clock now v st p =
     (case st of (sigs, h) \<Rightarrow>
        case get_proc v p h of
          (False, h1) \<Rightarrow> (sigs, h1)
        | (True, h1) \<Rightarrow>
            (case reading v p of
               None \<Rightarrow> (sigs, h1\<lparr>procs := procs h1 - {p}\<rparr>)
             | Some (pct, name) \<Rightarrow>
                 let w = cpu_add now pct (cpu_seconds h1 * 2) (cpu_window_of h1 p);
                     h2 = h1\<lparr>cpu_windows := AList.update p w (cpu_windows h1)\<rparr>
                 in if p \<in> emitted_cpu h2 then (sigs, h2)
                    else if sustained_above (cpu_percent h2) (cpu_seconds h2) now w
                      then (sigs @ [cpu_signal clock p name h2],
                            h2\<lparr>emitted_cpu := insert p (emitted_cpu h2)\<rparr>)
                    else (sigs, h2)))"

definition sample_cpu ::
  "real \<Rightarrow> real option \<Rightarrow> proc_view \<Rightarrow> cryptomining \<Rightarrow> signal list \<times> cryptomining" where
  "sample_cpu clock now v h =
     (let t = (case now of None \<Rightarrow> clock | Some t \<Rightarrow> t)
      in case pid_list v of
           None \<Rightarrow> ([], h)
         | Some ps \<Rightarrow> foldl (sample_one clock t v) ([], h) ps)"

definition clear_cpu_flag :: "int \<Rightarrow> cryptomining \<Rightarrow> cryptomining" where
  "clear_cpu_flag p h = h\<lparr>emitted_cpu := emitted_cpu h - {p}\<rparr>"

definition check_network_event ::
  "real \<Rightarrow> event \<Rightarrow> cryptomining \<Rightarrow> signal option py_result \<times> cryptomining" where
  "check_network_event clock e h =
     (if event_type e \<noteq> ''connection'' then (Inr None, h)
      else case pid e of
        None \<Rightarrow> (Inr None, h)
      | Some p \<Rightarrow>
          let port = dict_get (extra e) ''dest_port''; ip = dict_get (extra e) ''remote_ip''
          in if port = VNone then (Inr None, h)
             else case to_int port of
               Inl x \<Rightarrow> (Inl x, h)
             | Inr q \<Rightarrow>
                 if q \<notin> set (stratum_ports h) then (Inr None, h)
                 else if p \<in> emitted_stratum h then (Inr None, h)
                 else (Inr (Some (mk_signal clock ''stratum_network'' (''pid:'' @ show_int p)
                         (''connection to mining-pool/stratum endpoint '' @ py_str ip @ '':'' @
                          py_str port @ '' (pid '' @ show_int p @ '')'')
                         ''cryptomining_heuristic'' None None)),
                       h\<lparr>emitted_stratum := insert p (emitted_stratum h)\<rparr>))"

definition clear_stratum_flag :: "int \<Rightarrow> cryptomining \<Rightarrow> cryptomining" where
  "clear_stratum_flag p h = h\<lparr>emitted_stratum := emitted_stratum h - {p}\<rparr>"

section \<open>One process in a sampling\<close>

definition obtained :: "proc_view \<Rightarrow> int \<Rightarrow> cryptomining \<Rightarrow> (real \<times> string) option" where
  \<comment> \<open>the reading of a listed process that the sampling obtains\<close>
  "obtained v p h =
     (if p \<in> set (case pid_list v of None \<Rightarrow> [] | Some ps \<Rightarrow> ps) \<and>
         (p \<in> procs h \<and> running v p \<or> openable v p) then reading v p else None)"

definition same_for :: "int \<Rightarrow> cryptomining \<Rightarrow> cryptomining \<Rightarrow> bool" where
  \<comment> \<open>the two states agree on everything about process \<open>k\<close>\<close>
  "same_for k h h' \<longleftrightarrow>
     cpu_window_of h' k = cpu_window_of h k \<and> (k \<in> procs h' \<longleftrightarrow> k \<in> procs h) \<and>
     (k \<in> emitted_cpu h' \<longleftrightarrow> k \<in> emitted_cpu h) \<and>
     cpu_percent h' = cpu_percent h \<and> cpu_seconds h' = cpu_seconds h"

definition about :: "int \<Rightarrow> signal list \<Rightarrow> nat" where
  "about k sigs = length (filter (\<lambda>x. subject x = ''pid:'' @ show_int k) sigs)"

lemma about_simps [simp]: "about k [] = 0" "about k (xs @ ys) = about k xs + about k ys"
  by (simp_all add: about_def)

lemma about_cpu_signal [simp]: "about k [cpu_signal clock p n h] = (if p = k then 1 else 0)"
  by (simp add: about_def cpu_signal_def mk_signal_def)

lemma same_for_refl [simp]: "same_for k h h"
  by (simp add: same_for_def)

lemma same_for_trans: "same_for k a b \<Longrightarrow> same_for k b c \<Longrightarrow> same_for k a c"
  by (simp add: same_for_def)

lemma sample_one_other:
  assumes "sample_one clock now v (sigs, h) p = (sigs', h')" and "p \<noteq> k"
  shows "same_for k h h' \<and> about k sigs' = about k sigs"
proof -
  obtain b h1 where g: "get_proc v p h = (b, h1)" by fastforce
  have h1: "same_for k h h1"
    using g assms(2) by (auto simp: get_proc_def same_for_def cpu_window_of_def split: if_splits)
  show ?thesis
  proof (cases "b \<and> reading v p \<noteq> None")
    case False
    with assms g h1 show ?thesis
      by (cases b; cases "reading v p") (auto simp: sample_one_def same_for_def cpu_window_of_def)
  next
    case True
    then obtain pct n where "b" "reading v p = Some (pct, n)" by auto
    with assms g h1 show ?thesis
      by (auto simp: sample_one_def same_for_def cpu_window_of_def Let_def split: if_splits)
  qed
qed

lemma sample_one_own:
  assumes "sample_one clock now v (sigs, h) k = (sigs', h')" and "k \<in> set (the (pid_list v))"
    and "pid_list v \<noteq> None"
  shows "cpu_percent h' = cpu_percent h" "cpu_seconds h' = cpu_seconds h"
    "obtained v k h = None \<Longrightarrow> cpu_window_of h' k = cpu_window_of h k
       \<and> (k \<in> emitted_cpu h' \<longleftrightarrow> k \<in> emitted_cpu h) \<and> about k sigs' = about k sigs"
    "obtained v k h = Some (pct, n) \<Longrightarrow>
       cpu_window_of h' k = cpu_add now pct (cpu_seconds h * 2) (cpu_window_of h k)
       \<and> about k sigs' = about k sigs +
           (if k \<notin> emitted_cpu h \<and>
               sustained_above (cpu_percent h) (cpu_seconds h) now (cpu_window_of h' k) then 1 else 0)
       \<and> (k \<in> emitted_cpu h' \<longleftrightarrow> k \<in> emitted_cpu h \<or> about k sigs' \<noteq> about k sigs)"
proof -
  obtain b h1 where g: "get_proc v k h = (b, h1)" by fastforce
  have ob: "obtained v k h = (if b then reading v k else None)"
    using g assms(2,3) by (auto simp: obtained_def get_proc_def split: if_splits)
  have h1: "cpu_windows h1 = cpu_windows h" "emitted_cpu h1 = emitted_cpu h"
    "cpu_percent h1 = cpu_percent h" "cpu_seconds h1 = cpu_seconds h"
    "cpu_window_of h1 = cpu_window_of h"
    using g by (auto simp: get_proc_def cpu_window_of_def split: if_splits)
  have none: "sigs' = sigs \<and> cpu_windows h' = cpu_windows h \<and> emitted_cpu h' = emitted_cpu h
      \<and> cpu_percent h' = cpu_percent h \<and> cpu_seconds h' = cpu_seconds h" if no: "obtained v k h = None"
  proof (cases b)
    case True
    with no ob have "reading v k = None" by metis
    with True g assms(1) have "sigs' = sigs" "h' = h1\<lparr>procs := procs h1 - {k}\<rparr>"
      by (simp_all add: sample_one_def)
    with h1(1-4) show ?thesis by simp
  next
    case False
    with g assms(1) have "sigs' = sigs" "h' = h1" by (simp_all add: sample_one_def)
    with h1(1-4) show ?thesis by simp
  qed
  have some: "cpu_window_of h' k = cpu_add now pct (cpu_seconds h * 2) (cpu_window_of h k)
       \<and> about k sigs' = about k sigs +
           (if k \<notin> emitted_cpu h \<and>
               sustained_above (cpu_percent h) (cpu_seconds h) now (cpu_window_of h' k) then 1 else 0)
       \<and> (k \<in> emitted_cpu h' \<longleftrightarrow> k \<in> emitted_cpu h \<or> about k sigs' \<noteq> about k sigs)
       \<and> cpu_percent h' = cpu_percent h \<and> cpu_seconds h' = cpu_seconds h"
    if o: "obtained v k h = Some (pct, n)" for pct n
  proof -
    from o ob have b: "b" "reading v k = Some (pct, n)" by (auto split: if_splits)
    let ?w = "cpu_add now pct (cpu_seconds h * 2) (cpu_window_of h k)"
    let ?h2 = "h1\<lparr>cpu_windows := AList.update k ?w (cpu_windows h)\<rparr>"
    have own: "cpu_window_of ?h2 k = ?w" by (simp add: cpu_window_of_def)
    have "sample_one clock now v (sigs, h) k = (if k \<in> emitted_cpu h then (sigs, ?h2)
        else if sustained_above (cpu_percent h) (cpu_seconds h) now ?w
          then (sigs @ [cpu_signal clock k n ?h2], ?h2\<lparr>emitted_cpu := insert k (emitted_cpu h)\<rparr>)
        else (sigs, ?h2))"
      using g b by (simp add: sample_one_def Let_def h1)
    note step = this[unfolded assms(1)]
    have w3: "cpu_window_of (?h2\<lparr>emitted_cpu := E\<rparr>) k = ?w" for E by (simp add: cpu_window_of_def)
    show ?thesis
    proof (cases "k \<in> emitted_cpu h \<or> \<not> sustained_above (cpu_percent h) (cpu_seconds h) now ?w")
      case True
      with step have "sigs' = sigs" "h' = ?h2" by (auto split: if_splits)
      with True own h1 show ?thesis by auto
    next
      case False
      with step have "sigs' = sigs @ [cpu_signal clock k n ?h2]"
        "h' = ?h2\<lparr>emitted_cpu := insert k (emitted_cpu h)\<rparr>" by auto
      with False w3 h1 show ?thesis by simp
    qed
  qed
  have "cpu_percent h' = cpu_percent h \<and> cpu_seconds h' = cpu_seconds h"
  proof (cases "obtained v k h")
    case None
    with none show ?thesis by simp
  next
    case (Some a)
    with some[of "fst a" "snd a"] show ?thesis by simp
  qed
  then show "cpu_percent h' = cpu_percent h" "cpu_seconds h' = cpu_seconds h" by simp_all
  show "obtained v k h = None \<Longrightarrow> cpu_window_of h' k = cpu_window_of h k
       \<and> (k \<in> emitted_cpu h' \<longleftrightarrow> k \<in> emitted_cpu h) \<and> about k sigs' = about k sigs"
    using none by (simp add: cpu_window_of_def)
  show "obtained v k h = Some (pct, n) \<Longrightarrow>
       cpu_window_of h' k = cpu_add now pct (cpu_seconds h * 2) (cpu_window_of h k)
       \<and> about k sigs' = about k sigs +
           (if k \<notin> emitted_cpu h \<and>
               sustained_above (cpu_percent h) (cpu_seconds h) now (cpu_window_of h' k) then 1 else 0)
       \<and> (k \<in> emitted_cpu h' \<longleftrightarrow> k \<in> emitted_cpu h \<or> about k sigs' \<noteq> about k sigs)"
    using some by blast
qed

lemma sample_fold_other:
  "k \<notin> set ps \<Longrightarrow> foldl (sample_one clock now v) (sigs, h) ps = (sigs', h') \<Longrightarrow>
     same_for k h h' \<and> about k sigs' = about k sigs"
proof (induction ps arbitrary: sigs h)
  case (Cons p ps)
  obtain s1 h1 where o: "sample_one clock now v (sigs, h) p = (s1, h1)" by fastforce
  with Cons sample_one_other[OF o, of k] same_for_trans show ?case by fastforce
qed simp

lemma obtained_same: "same_for k h h' \<Longrightarrow> obtained v k h' = obtained v k h"
  by (simp add: obtained_def same_for_def)

text \<open>What one sampling does to process \<open>k\<close>, when the listed processes are pairwise distinct.\<close>

lemma sample_cpu_effect:
  assumes d: "\<forall>ps. pid_list v = Some ps \<longrightarrow> distinct ps"
    and s: "sample_cpu clock (Some now) v h = (sigs, h')"
  shows "cpu_percent h' = cpu_percent h" "cpu_seconds h' = cpu_seconds h"
    "obtained v k h = None \<Longrightarrow> cpu_window_of h' k = cpu_window_of h k
       \<and> (k \<in> emitted_cpu h' \<longleftrightarrow> k \<in> emitted_cpu h) \<and> about k sigs = 0"
    "obtained v k h = Some (pct, n) \<Longrightarrow>
       cpu_window_of h' k = cpu_add now pct (cpu_seconds h * 2) (cpu_window_of h k)
       \<and> about k sigs = (if k \<notin> emitted_cpu h \<and>
            sustained_above (cpu_percent h) (cpu_seconds h) now (cpu_window_of h' k) then 1 else 0)
       \<and> (k \<in> emitted_cpu h' \<longleftrightarrow> k \<in> emitted_cpu h \<or> about k sigs \<noteq> 0)"
proof -
  have out: "cpu_percent h' = cpu_percent h \<and> cpu_seconds h' = cpu_seconds h
      \<and> (k \<notin> set (case pid_list v of None \<Rightarrow> [] | Some ps \<Rightarrow> ps) \<longrightarrow> same_for k h h' \<and> about k sigs = 0)"
    if "k \<notin> set (case pid_list v of None \<Rightarrow> [] | Some ps \<Rightarrow> ps)" for k
  proof (cases "pid_list v")
    case None
    with s show ?thesis by (simp add: sample_cpu_def)
  next
    case (Some ps)
    with s have "foldl (sample_one clock now v) ([], h) ps = (sigs, h')" by (simp add: sample_cpu_def)
    with sample_fold_other[OF _ this, of k] that Some show ?thesis by (simp add: same_for_def)
  qed
  have ino: "cpu_percent h' = cpu_percent h \<and> cpu_seconds h' = cpu_seconds h
      \<and> (obtained v k h = None \<longrightarrow> cpu_window_of h' k = cpu_window_of h k
           \<and> (k \<in> emitted_cpu h' \<longleftrightarrow> k \<in> emitted_cpu h) \<and> about k sigs = 0)
      \<and> (\<forall>pct n. obtained v k h = Some (pct, n) \<longrightarrow>
           cpu_window_of h' k = cpu_add now pct (cpu_seconds h * 2) (cpu_window_of h k)
           \<and> about k sigs = (if k \<notin> emitted_cpu h \<and>
                sustained_above (cpu_percent h) (cpu_seconds h) now (cpu_window_of h' k) then 1 else 0)
           \<and> (k \<in> emitted_cpu h' \<longleftrightarrow> k \<in> emitted_cpu h \<or> about k sigs \<noteq> 0))"
    if mem: "k \<in> set (case pid_list v of None \<Rightarrow> [] | Some ps \<Rightarrow> ps)"
  proof -
    obtain ps where ps: "pid_list v = Some ps" using mem by (cases "pid_list v") simp_all
    with mem have "k \<in> set ps" by simp
    then obtain as bs where split: "ps = as @ k # bs" by (meson split_list)
    have ab: "k \<notin> set as" "k \<notin> set bs" using d ps split by auto
    obtain s1 h1 where f1: "foldl (sample_one clock now v) ([], h) as = (s1, h1)" by fastforce
    obtain s2 h2 where f2: "sample_one clock now v (s1, h1) k = (s2, h2)" by fastforce
    have f3: "foldl (sample_one clock now v) (s2, h2) bs = (sigs, h')"
      using s ps split f1 f2 by (simp add: sample_cpu_def)
    note o1 = sample_fold_other[OF ab(1) f1] and o3 = sample_fold_other[OF ab(2) f3]
    have o: "obtained v k h1 = obtained v k h" using o1 obtained_same by blast
    note own = sample_one_own[OF f2]
    have m: "k \<in> set (the (pid_list v))" "pid_list v \<noteq> None" using ps \<open>k \<in> set ps\<close> by simp_all
    show ?thesis
      using own(1,2,3)[OF m] own(4)[OF m] o1 o3 unfolding o by (auto simp: same_for_def)
  qed
  have not_in: "obtained v k h = None" if "k \<notin> set (case pid_list v of None \<Rightarrow> [] | Some ps \<Rightarrow> ps)"
    using that unfolding obtained_def by (simp only: simp_thms if_False)
  show "cpu_percent h' = cpu_percent h" "cpu_seconds h' = cpu_seconds h"
    using out[of k] ino by blast+
  show "obtained v k h = None \<Longrightarrow> cpu_window_of h' k = cpu_window_of h k
       \<and> (k \<in> emitted_cpu h' \<longleftrightarrow> k \<in> emitted_cpu h) \<and> about k sigs = 0"
    using out[of k] ino by (auto simp: same_for_def)
  show "obtained v k h = Some (pct, n) \<Longrightarrow>
       cpu_window_of h' k = cpu_add now pct (cpu_seconds h * 2) (cpu_window_of h k)
       \<and> about k sigs = (if k \<notin> emitted_cpu h \<and>
            sustained_above (cpu_percent h) (cpu_seconds h) now (cpu_window_of h' k) then 1 else 0)
       \<and> (k \<in> emitted_cpu h' \<longleftrightarrow> k \<in> emitted_cpu h \<or> about k sigs \<noteq> 0)"
    using ino not_in by (cases "k \<in> set (case pid_list v of None \<Rightarrow> [] | Some ps \<Rightarrow> ps)") auto
qed

section \<open>Runs\<close>

fun cpu_run :: "(real \<times> proc_view) list \<Rightarrow> cryptomining \<Rightarrow> signal list \<times> cryptomining" where
  "cpu_run [] h = ([], h)"
| "cpu_run ((now, v) # es) h =
     (let (sigs, h1) = sample_cpu now (Some now) v h; (rest, h2) = cpu_run es h1 in (sigs @ rest, h2))"

fun readings :: "int \<Rightarrow> (real \<times> proc_view) list \<Rightarrow> cryptomining \<Rightarrow> cpu_window" where
  \<comment> \<open>all readings of a process that a run obtains, with their times\<close>
  "readings k [] h = []"
| "readings k ((now, v) # es) h =
     (case obtained v k h of None \<Rightarrow> [] | Some (pct, n) \<Rightarrow> [(now, pct)]) @
     readings k es (snd (sample_cpu now (Some now) v h))"

lemma cpu_run_append:
  "cpu_run (es @ fs) h = (let (a, h1) = cpu_run es h; (b, h2) = cpu_run fs h1 in (a @ b, h2))"
  by (induction es h rule: cpu_run.induct) (auto split: prod.splits)

lemma readings_append:
  "readings k (es @ fs) h = readings k es h @ readings k fs (snd (cpu_run es h))"
  by (induction es h rule: cpu_run.induct) (auto split: prod.splits)

lemma readings_times: "(t, p) \<in> set (readings k es h) \<Longrightarrow> t \<in> set (map fst es)"
  by (induction k es h rule: readings.induct) (auto split: option.splits prod.splits)

lemma sustained_trim:
  assumes "low \<le> now - secs"
  shows "sustained_above limit secs now (filter (\<lambda>(t, p). low \<le> t) l)
    = sustained_above limit secs now l"
proof -
  have "filter (\<lambda>(t, p). now - secs \<le> t) (filter (\<lambda>(t, p). low \<le> t) l)
      = filter (\<lambda>(t, p). now - secs \<le> t) l"
    unfolding filter_filter by (rule filter_cong) (use assms in auto)
  then show ?thesis by (simp add: sustained_above_def Let_def)
qed

definition sustained_at :: "real \<Rightarrow> real \<Rightarrow> int \<Rightarrow> (real \<times> proc_view) list \<Rightarrow> cryptomining \<Rightarrow> bool" where
  \<comment> \<open>the last sampling of a run obtains a reading of process \<open>k\<close> and the whole history up to it is
     sustained\<close>
  "sustained_at pct secs k es h \<longleftrightarrow>
     es \<noteq> [] \<and> obtained (snd (List.last es)) k (snd (cpu_run (butlast es) h)) \<noteq> None \<and>
     sustained_above pct secs (fst (List.last es)) (readings k es h)"

lemma cpu_run_inv:
  assumes "\<forall>(t, v) \<in> set es. \<forall>ps. pid_list v = Some ps \<longrightarrow> distinct ps" and "sorted (map fst es)"
    and secs: "0 \<le> secs" and h: "cpu_percent h = pct" "cpu_seconds h = secs"
    "cpu_window_of h k = []" "k \<notin> emitted_cpu h"
    and "cpu_run es h = (sigs, h')"
  shows "cpu_percent h' = pct \<and> cpu_seconds h' = secs
    \<and> (\<exists>low. cpu_window_of h' k = filter (\<lambda>(t, p). low \<le> t) (readings k es h)
          \<and> (es = [] \<or> low \<le> fst (List.last es) - secs * 2))
    \<and> about k sigs = (if \<exists>n. sustained_at pct secs k (take n es) h then 1 else 0)
    \<and> (k \<in> emitted_cpu h' \<longleftrightarrow> about k sigs \<noteq> 0)"
  using assms(1,2,8)
proof (induction es arbitrary: sigs h' rule: rev_induct)
  case Nil
  then show ?case using h by (auto simp: sustained_at_def)
next
  case (snoc te es)
  obtain t v where te: "te = (t, v)" by (cases te)
  obtain a h1 where r1: "cpu_run es h = (a, h1)" by fastforce
  obtain b h2 where o: "sample_cpu t (Some t) v h1 = (b, h2)" by fastforce
  have sg: "sigs = a @ b" "h' = h2" using snoc.prems(3) te r1 o by (auto simp: cpu_run_append)
  have dv: "\<forall>ps. pid_list v = Some ps \<longrightarrow> distinct ps" using snoc.prems(1) te by auto
  have so: "sorted (map fst es)" using snoc.prems(2) by (simp add: sorted_append)
  have le: "es = [] \<or> fst (List.last es) \<le> t"
    using snoc.prems(2) te by (cases es rule: rev_cases) (auto simp: sorted_append)
  have IH: "cpu_percent h1 = pct \<and> cpu_seconds h1 = secs
    \<and> (\<exists>low. cpu_window_of h1 k = filter (\<lambda>(t, p). low \<le> t) (readings k es h)
          \<and> (es = [] \<or> low \<le> fst (List.last es) - secs * 2))
    \<and> about k a = (if \<exists>n. sustained_at pct secs k (take n es) h then 1 else 0)
    \<and> (k \<in> emitted_cpu h1 \<longleftrightarrow> about k a \<noteq> 0)"
    using snoc.IH[OF _ so r1] snoc.prems(1) by simp
  then obtain low where low: "cpu_window_of h1 k = filter (\<lambda>(t, p). low \<le> t) (readings k es h)"
    "low \<le> t - secs * 2"
    using le by (cases "es = []") force+
  note eff = sample_cpu_effect[OF dv o]
  have split: "(\<exists>n. sustained_at pct secs k (take n (es @ [te])) h) \<longleftrightarrow>
      (\<exists>n. sustained_at pct secs k (take n es) h) \<or> sustained_at pct secs k (es @ [te]) h"
    by (rule ex_take_snoc)
  show ?case
  proof (cases "obtained v k h1")
    case None
    have "readings k (es @ [te]) h = readings k es h" by (simp add: readings_append te r1 None)
    moreover have "\<not> sustained_at pct secs k (es @ [te]) h" by (simp add: sustained_at_def te r1 None)
    ultimately show ?thesis
      using IH low eff(1,2) eff(3)[OF None] sg split te by auto
  next
    case (Some x)
    obtain p n where x: "x = (p, n)" by (cases x)
    note e4 = eff(4)[OF Some[unfolded x]]
    have rd: "readings k (es @ [te]) h = readings k es h @ [(t, p)]"
      by (simp add: readings_append te r1 Some x)
    have "filter (\<lambda>(u, p). t - secs * 2 \<le> u) (filter (\<lambda>(u, p). low \<le> u) (readings k es h))
        = filter (\<lambda>(u, p). t - secs * 2 \<le> u) (readings k es h)"
      unfolding filter_filter by (rule filter_cong) (use low(2) in auto)
    then have w: "cpu_window_of h2 k = filter (\<lambda>(u, p). t - secs * 2 \<le> u) (readings k (es @ [te]) h)"
      using e4 IH low(1) by (simp add: cpu_add_def rd)
    have "sustained_above pct secs t (cpu_window_of h2 k)
        \<longleftrightarrow> sustained_above pct secs t (readings k (es @ [te]) h)"
      unfolding w by (rule sustained_trim) (use secs in simp)
    then have s: "sustained_above pct secs t (cpu_window_of h2 k) \<longleftrightarrow> sustained_at pct secs k (es @ [te]) h"
      by (simp add: sustained_at_def te r1 Some)
    have ab: "about k b = (if about k a = 0 \<and> sustained_at pct secs k (es @ [te]) h then 1 else 0)"
      using e4 IH s by auto
    have "\<exists>low. cpu_window_of h2 k = filter (\<lambda>(u, p). low \<le> u) (readings k (es @ [te]) h)
        \<and> (es @ [te] = [] \<or> low \<le> fst (List.last (es @ [te])) - secs * 2)"
      using w te by (intro exI[of _ "t - secs * 2"]) simp
    moreover have "about k (a @ b) = (if \<exists>n. sustained_at pct secs k (take n (es @ [te])) h then 1 else 0)"
      unfolding split using IH ab by auto
    moreover have "k \<in> emitted_cpu h2 \<longleftrightarrow> about k (a @ b) \<noteq> 0" using e4 IH by auto
    ultimately show ?thesis using eff(1,2) IH unfolding sg by auto
  qed
qed

section \<open>Pool connections\<close>

fun net_run :: "event list \<Rightarrow> cryptomining \<Rightarrow> signal option py_result list \<times> cryptomining" where
  "net_run [] h = ([], h)"
| "net_run (e # es) h =
     (let (r, h1) = check_network_event 0 e h; (rs, h2) = net_run es h1 in (r # rs, h2))"

definition pool_connection :: "int list \<Rightarrow> int \<Rightarrow> event \<Rightarrow> bool" where
  "pool_connection ports k e \<longleftrightarrow>
     event_type e = ''connection'' \<and> pid e = Some k \<and> dict_get (extra e) ''dest_port'' \<noteq> VNone \<and>
     (\<exists>q \<in> set ports. to_int (dict_get (extra e) ''dest_port'') = Inr q)"

definition stratum_reports :: "int \<Rightarrow> signal option py_result list \<Rightarrow> nat" where
  "stratum_reports k rs = length (filter (\<lambda>r. case r of Inr (Some x) \<Rightarrow> subject x = ''pid:'' @ show_int k
       | _ \<Rightarrow> False) rs)"

lemma check_network_step:
  assumes "check_network_event clock e h = (r, h')"
  shows "stratum_ports h' = stratum_ports h"
    "stratum_reports k [r] = (if pool_connection (stratum_ports h) k e \<and> k \<notin> emitted_stratum h then 1 else 0)"
    "k \<in> emitted_stratum h' \<longleftrightarrow> k \<in> emitted_stratum h \<or> pool_connection (stratum_ports h) k e"
  using assms
  by (auto simp: check_network_event_def stratum_reports_def pool_connection_def mk_signal_def Let_def
      split: if_splits option.splits sum.splits)

lemma net_run_reports:
  "stratum_reports k (fst (net_run es h)) =
     (if k \<notin> emitted_stratum h \<and> (\<exists>e \<in> set es. pool_connection (stratum_ports h) k e) then 1 else 0)"
proof (induction es arbitrary: h)
  case (Cons e es)
  obtain r h1 where s: "check_network_event 0 e h = (r, h1)" by fastforce
  have "stratum_reports k (fst (net_run (e # es) h)) =
      stratum_reports k [r] + stratum_reports k (fst (net_run es h1))"
    using s by (auto simp: stratum_reports_def split: prod.splits)
  with check_network_step[OF s] Cons.IH[of h1] show ?case by auto
qed (simp add: stratum_reports_def)

section \<open>Properties\<close>

text \<open>For samplings in time order, sustained CPU use of a process is reported once, exactly when some
  sampling obtains a reading of it for which the process's whole history of readings holds the limit
  throughout the configured time: the old readings dropped from the window never matter.\<close>
lemma cpu_sustained_exact:
  assumes "\<forall>(t, v) \<in> set es. \<forall>ps. pid_list v = Some ps \<longrightarrow> distinct ps" and "sorted (map fst es)"
    and "0 \<le> secs"
  shows "about k (fst (cpu_run es (new_cryptomining pct secs step ports))) =
    (if \<exists>n. sustained_at pct secs k (take n es) (new_cryptomining pct secs step ports) then 1 else 0)"
proof -
  let ?h = "new_cryptomining pct secs step ports"
  have "cpu_percent ?h = pct" "cpu_seconds ?h = secs" "cpu_window_of ?h k = []" "k \<notin> emitted_cpu ?h"
    by (simp_all add: new_cryptomining_def cpu_window_of_def)
  from cpu_run_inv[OF assms this, of "fst (cpu_run es ?h)" "snd (cpu_run es ?h)"] show ?thesis by simp
qed

text \<open>In a run of connection events a pool connection is reported once for each process that makes one,
  and for no other; events with an unreadable port raise and change nothing.\<close>
lemma stratum_reported_once:
  "stratum_reports k (fst (net_run es (new_cryptomining pct secs step ports))) =
     (if \<exists>e \<in> set es. pool_connection ports k e then 1 else 0)"
  by (simp add: net_run_reports new_cryptomining_def)

section \<open>Weights of the two signals\<close>

text \<open>The two signals together weigh 60: below the default threshold of 80, a process with both is not
  responded to without a third signal.\<close>

lemma cpu_and_stratum_not_enough:
  assumes "kind x = ''cpu_sustained''" and "weight x = None"
    and "kind y = ''stratum_network''" and "weight y = None" and "subject y = subject x"
    and "add_signals now [x, y] None default_scorer = Inr (r, sc)"
  shows "\<not> should_respond (subject x) sc"
proof -
  from assms(6) obtain s1 sc1 s2 where a1: "add_signal now x default_scorer = Inr (s1, sc1)"
    and a2: "add_signal now y sc1 = Inr (s2, sc)"
    by (auto simp: bind_res_Inr_iff)
  have i0: "scorer_inv default_scorer"
    unfolding default_scorer_def by (rule scorer_inv_new) simp
  have i1: "scorer_inv sc1" by (rule add_signal_inv[OF i0 a1])
  have i2: "scorer_inv sc" by (rule add_signal_inv[OF i1 a2])
  have r: "recorded_signals sc (subject x) = [x, y]"
    using add_signal_own[OF i0 a1] add_signal_own[OF i1 a2] assms(5)
    by (simp add: recorded_signals_def scorer_get_def default_scorer_def new_scorer_def)
  have t: "threshold sc = 80"
    using add_signal_params[OF a1] add_signal_params[OF a2]
    by (simp add: default_scorer_def new_scorer_def)
  show ?thesis
    unfolding should_respond_recorded[OF i2] r t
    by (simp add: effective_weight_def assms(1-4) weights_def)
qed

section \<open>Witness\<close>

definition busy_view :: proc_view where
  "busy_view = \<lparr>pid_list = Some [7, 9], running = (\<lambda>p. True), openable = (\<lambda>p. True),
     reading = (\<lambda>p. if p = 7 then Some (99, ''x'') else None)\<rparr>"

lemma cpu_sustained_exact_witness:
  "about 7 (fst (cpu_run [(0, busy_view), (2, busy_view)] (new_cryptomining 85 2 2 []))) = 1"
proof -
  have "readings 7 [(0, busy_view), (2, busy_view)] (new_cryptomining 85 2 2 []) = [(0, 99), (2, 99)]"
    by (simp add: obtained_def busy_view_def)
  then have "sustained_at 85 2 7 [(0, busy_view), (2, busy_view)] (new_cryptomining 85 2 2 [])"
    by (simp add: sustained_at_def sustained_above_def obtained_def) (simp add: busy_view_def)
  then have "\<exists>n. sustained_at 85 2 7 (take n [(0, busy_view), (2, busy_view)]) (new_cryptomining 85 2 2 [])"
    by (rule ex_take_last)
  moreover have "\<forall>(t, v) \<in> set [(0::real, busy_view), (2, busy_view)]. \<forall>ps. pid_list v = Some ps \<longrightarrow> distinct ps"
    by (simp add: busy_view_def)
  ultimately show ?thesis
    using cpu_sustained_exact[of "[(0, busy_view), (2, busy_view)]" 2 7 85 2 "[]"] by simp
qed

end
