(* ===== verification/Responder.thy ===== *)
theory Responder
  imports Quarantine EventBus Scoring
begin

text \<open>
  \<open>response/responder.py\<close>: suspending a process and the composed response: suspend, quarantine the image,
  tell the driver, publish the audit event. Processes are their suspension counts, as the kernel keeps
  them. Whether a process can be opened, the status codes, the executable that \<open>psutil\<close> names, the fresh
  id and the clocks are parameters. The world is the state of every part that a response touches.
\<close>

section \<open>Suspension\<close>

type_synonym procs = "int \<Rightarrow> nat"

record resp_env =
  opens :: "int \<Rightarrow> int \<Rightarrow> bool"   \<comment> \<open>access rights, process id\<close>
  suspend_status :: "int \<Rightarrow> int"
  resume_status :: "int \<Rightarrow> int"
  last_error :: int
  exe_of :: "int \<Rightarrow> string option"
  r_quarantine :: qenv
  r_entry :: string
  r_trust :: trust_env
  r_driver :: driver_env
  r_now :: real
  r_stamp :: string

definition process_suspend_resume :: int where "process_suspend_resume = 0x0800"
definition process_query_information :: int where "process_query_information = 0x0400"

definition c_uint32 :: "int \<Rightarrow> int" where
  "c_uint32 p = p mod 2 ^ 32"

definition suspend_process :: "resp_env \<Rightarrow> int \<Rightarrow> procs \<Rightarrow> string option \<times> procs" where
  "suspend_process env p ps =
     (if p \<le> 0 then (Some ''invalid p'', ps)
      else if \<not> opens env process_suspend_resume (c_uint32 p)
      then (Some (''OpenProcess failed (pid='' @ show_int p @ '', error='' @ show_int (last_error env) @ '')''), ps)
      else if suspend_status env (c_uint32 p) \<noteq> 0
      then (Some (''NtSuspendProcess returned status '' @ show_int (suspend_status env (c_uint32 p))
              @ '' (pid='' @ show_int p @ '')''), ps)
      else (None, ps(c_uint32 p := ps (c_uint32 p) + 1)))"

definition resume_process :: "resp_env \<Rightarrow> int \<Rightarrow> procs \<Rightarrow> string option \<times> procs" where
  "resume_process env p ps =
     (if p \<le> 0 then (Some ''invalid p'', ps)
      else if \<not> opens env (process_suspend_resume + process_query_information) (c_uint32 p)
      then (Some (''OpenProcess failed (pid='' @ show_int p @ '', error='' @ show_int (last_error env) @ '')''), ps)
      else if resume_status env (c_uint32 p) \<noteq> 0
      then (Some (''NtResumeProcess returned status '' @ show_int (resume_status env (c_uint32 p))
              @ '' (pid='' @ show_int p @ '')''), ps)
      else (None, ps(c_uint32 p := ps (c_uint32 p) - 1)))"

definition resolve_process_image :: "resp_env \<Rightarrow> int \<Rightarrow> string option" where
  "resolve_process_image env p = exe_of env p"

section \<open>The response\<close>

record world =
  w_procs :: procs
  w_store :: "qstore option"
  w_fs :: fs
  w_bridge :: "bridge option"
  w_cache :: verdict_cache
  w_bus :: "bus option"

record response =
  succeeded :: bool
  resp_error :: "string option"
  suspension :: "string option"
  quarantined :: "qrecord option"
  event_id :: "int option"

definition pid_subject :: "int \<Rightarrow> string" where
  "pid_subject p = ''pid:'' @ show_int p"

definition image_to_quarantine :: "resp_env \<Rightarrow> int \<Rightarrow> string option \<Rightarrow> string" where
  \<comment> \<open>empty when unknown\<close>
  "image_to_quarantine env p given =
     (let asked = (case exe_of env p of Some x \<Rightarrow> x | None \<Rightarrow> [])
      in case given of None \<Rightarrow> asked | Some f \<Rightarrow> if f \<noteq> [] then f else asked)"

definition response_score :: "scorer option \<Rightarrow> int \<Rightarrow> real py_result" where
  "response_score sc p =
     (case sc of
        None \<Rightarrow> Inr 0
      | Some s \<Rightarrow>
          (case scorer_get (pid_subject p) s of None \<Rightarrow> Inl AttributeError | Some ss \<Rightarrow> Inr (total ss)))"

definition quarantine_image ::
  "resp_env \<Rightarrow> int \<Rightarrow> string \<Rightarrow> pyval list \<Rightarrow> scorer option \<Rightarrow> string \<Rightarrow> world
    \<Rightarrow> qrecord option py_result \<times> world" where
  "quarantine_image env p why sigs sc img w =
     (case w_store w of
        None \<Rightarrow> (Inr None, w)
      | Some q \<Rightarrow>
          if img = [] then (Inr None, w)
          else (case response_score sc p of
                  Inl x \<Rightarrow> (Inl x, w)
                | Inr score \<Rightarrow>
                    (case Quarantine.add (r_quarantine env) (r_entry env) img (pid_subject p) why score sigs
                            (q, w_fs w) of
                       (r, q1, s1) \<Rightarrow> (r, w\<lparr>w_store := Some q1, w_fs := s1\<rparr>))))"

definition push_block :: "resp_env \<Rightarrow> string \<Rightarrow> world \<Rightarrow> world" where
  \<comment> \<open>\<open>add_block\<close>, whose exceptions are ignored\<close>
  "push_block env img w =
     (case w_bridge w of
        None \<Rightarrow> w
      | Some b \<Rightarrow>
          if img = [] then w
          else (case add_block (q_sha_of (r_quarantine env)) (r_trust env) (w_fs w) (r_now env) (r_driver env)
                       False img (b, w_cache w) of
                  (r, (b1, c1), sent) \<Rightarrow> w\<lparr>w_bridge := Some b1, w_cache := c1\<rparr>))"

definition audit_event :: "resp_env \<Rightarrow> int \<Rightarrow> string \<Rightarrow> string \<Rightarrow> qrecord option \<Rightarrow> event" where
  \<comment> \<open>the result has no entry \<open>score\<close>, so the default is recorded\<close>
  "audit_event env p why img qrec =
     \<lparr>timestamp = r_stamp env, source = ''etw_process'', event_type = ''process_suspended'',
      pid = Some p, parent_pid = None, image_path = Some img, command_line = None,
      hash_sha256 = None,
      extra = [(''reason'', VStr why),
               (''quarantine_id'', case qrec of None \<Rightarrow> VNone | Some r \<Rightarrow> VStr (q_id r)),
               (''quarantine_path'', case qrec of None \<Rightarrow> VNone | Some r \<Rightarrow> VStr (q_path r)),
               (''score'', VFloat 0)]\<rparr>"

definition publish_audit :: "resp_env \<Rightarrow> int \<Rightarrow> string \<Rightarrow> string \<Rightarrow> qrecord option \<Rightarrow> world
    \<Rightarrow> int option py_result \<times> world" where
  "publish_audit env p why img qrec w =
     (case w_bus w of
        None \<Rightarrow> (Inr None, w)
      | Some b \<Rightarrow>
          (case post_init (audit_event env p why img qrec) of
             Inl x \<Rightarrow> (Inl x, w)
           | Inr e \<Rightarrow> (case publish e b of (i, b1) \<Rightarrow> (Inr (Some i), w\<lparr>w_bus := Some b1\<rparr>))))"

definition quarantine_process ::
  "resp_env \<Rightarrow> int \<Rightarrow> string \<Rightarrow> pyval list \<Rightarrow> scorer option \<Rightarrow> string option \<Rightarrow> world
    \<Rightarrow> response py_result \<times> world" where
  "quarantine_process env p why sigs sc given w =
     (case suspend_process env p (w_procs w) of
        (Some e, ps) \<Rightarrow>
          (Inr \<lparr>succeeded = False, resp_error = Some (''suspend failed: '' @ e), suspension = Some e,
                quarantined = None, event_id = None\<rparr>, w)
      | (None, ps) \<Rightarrow>
          let w1 = w\<lparr>w_procs := ps\<rparr>; img = image_to_quarantine env p given
          in case quarantine_image env p why sigs sc img w1 of
               (Inl x, w2) \<Rightarrow> (Inl x, w2)
             | (Inr qrec, w2) \<Rightarrow>
                 let w3 = push_block env img w2; failed = (qrec = None \<and> img \<noteq> [])
                 in case publish_audit env p why img qrec w3 of
                      (Inl x, w4) \<Rightarrow> (Inl x, w4)
                    | (Inr i, w4) \<Rightarrow>
                        (Inr \<lparr>succeeded = (\<not> failed),
                              resp_error = (if failed
                                then Some (''process suspended but file could not be quarantined (check permissions)'')
                                else None),
                              suspension = None, quarantined = qrec, event_id = i\<rparr>, w4))"

section \<open>Lemmas\<close>

lemma c_uint32_id: "0 < p \<Longrightarrow> p < 2 ^ 32 \<Longrightarrow> c_uint32 p = p"
  by (simp add: c_uint32_def)

lemma suspend_result:
  "suspend_process env p ps = (r, ps') \<Longrightarrow>
     (r = None \<and> ps' = ps(c_uint32 p := ps (c_uint32 p) + 1)) \<or> (r \<noteq> None \<and> ps' = ps)"
  by (auto simp: suspend_process_def split: if_splits)

text \<open>Suspension is undone by resuming.\<close>

lemma resume_undoes_suspend:
  assumes "suspend_process env p ps = (None, ps1)" and "resume_process env' p ps1 = (None, ps2)"
  shows "ps2 = ps"
  using assms by (auto simp: suspend_process_def resume_process_def split: if_splits)

lemma push_block_frame [simp]:
  "w_procs (push_block env img w) = w_procs w" "w_store (push_block env img w) = w_store w"
  "w_fs (push_block env img w) = w_fs w" "w_bus (push_block env img w) = w_bus w"
  by (auto simp: push_block_def split: option.split prod.split)

lemma quarantine_image_frame:
  assumes "quarantine_image env p why sigs sc img w = (r, w')"
  shows "w_procs w' = w_procs w" "w_bridge w' = w_bridge w" "w_cache w' = w_cache w" "w_bus w' = w_bus w"
  using assms by (auto simp: quarantine_image_def split: option.splits if_splits sum.splits prod.splits)

lemma audit_event_valid [simp]: "post_init (audit_event env p why img q) = Inr (audit_event env p why img q)"
  by (simp add: post_init_def audit_event_def sources_def event_types_def)

lemma audit_published:
  assumes "publish_audit env p why img q w = (r, w')"
  shows "\<exists>i. r = Inr i" "w_procs w' = w_procs w" "w_store w' = w_store w" "w_fs w' = w_fs w"
    "w_bridge w' = w_bridge w"
  using assms by (auto simp: publish_audit_def split: option.splits prod.splits)

lemma enqueue_rows [simp]: "EventBus.rows (enqueue e b) = EventBus.rows b"
proof -
  have "EventBus.rows (bus_put x c) = EventBus.rows c" for x c
    by (auto simp: bus_put_def put_nowait_def get_nowait_def Let_def split: option.split list.split)
  then show ?thesis by (simp add: enqueue_def flush_batch_def Let_def)
qed

lemma publish_rows: "publish e b = (i, b') \<Longrightarrow> EventBus.rows b' = EventBus.rows b @ [(i, e)]"
  by (auto simp: publish_def persist_def Let_def)

lemma add_record:
  assumes "Quarantine.add env i src subj why sc sigs (q, s) = (Inr (Some rec), q', s')"
  shows "Quarantine.rows q' = Quarantine.rows q @ [rec]" "q_subject rec = subj" "q_reason rec = why"
    "q_decision rec = pending_text" "q_signals rec = sigs" "q_score rec = sc"
  using assms by (auto simp: Quarantine.add_def Let_def split: if_splits prod.splits sum.splits bool.splits)

lemma quarantine_image_record:
  assumes "quarantine_image env p why sigs sc img w = (Inr (Some rec), w')"
  obtains q q' where "w_store w = Some q" "w_store w' = Some q'"
    "Quarantine.rows q' = Quarantine.rows q @ [rec]" "q_subject rec = pid_subject p" "q_reason rec = why"
    "q_decision rec = pending_text" "img \<noteq> []"
proof -
  from assms obtain q score where q: "w_store w = Some q" "img \<noteq> []" "response_score sc p = Inr score"
    by (auto simp: quarantine_image_def split: option.splits if_splits sum.splits)
  obtain r q1 s1 where a: "Quarantine.add (r_quarantine env) (r_entry env) img (pid_subject p) why score sigs
      (q, w_fs w) = (r, q1, s1)" by (metis prod_cases3)
  with assms q have "r = Inr (Some rec)" "w_store w' = Some q1" by (auto simp: quarantine_image_def)
  with a add_record[of "r_quarantine env" "r_entry env" img "pid_subject p" why score sigs q "w_fs w" rec q1 s1] q
  show thesis by (intro that[of q q1]) auto
qed

section \<open>Properties\<close>


text \<open>The driver is told about the image after the file has been moved: the digest is not entered into the hash
  blocklist, and the check that spares Microsoft's binaries sees no file and never applies.\<close>

lemma moved_file_hash_not_blocked:
  assumes "files s c = None" and "resolve (file_os te) img = Some c" and "\<not> is_sha256_text (lower (strip img))"
    and "add_block sha te s now denv False img (b, cache) = (r, (b1, c1), sent)"
  shows "hash_blocklist b1 = hash_blocklist b" "c1 = cache"
    "connected b \<Longrightarrow> sent \<noteq> []"
proof -
  have v: "verify_pe_signature te s img cache = (Inr (no_verdict (- 1) ''File not found''), cache)"
    using assms(1,2) by (simp add: verify_pe_signature_def)
  have n: "\<not> is_signed (no_verdict (- 1) ''File not found'')" by (simp add: no_verdict_def)
  have h: "add_hash sha (file_os te) s now img ''kernel_block'' [] bl = (None, bl)" for bl
    using assms(1-3) by (simp add: add_hash_def identify_def hash_file_def read_bytes_def find_file_def)
  from assms(4) v n h show "hash_blocklist b1 = hash_blocklist b" "c1 = cache" "connected b \<Longrightarrow> sent \<noteq> []"
    by (auto simp: add_block_def Let_def send_command_def split: if_splits sum.splits prod.splits)
qed

section \<open>A response\<close>

definition demo_resp :: resp_env where
  "demo_resp = \<lparr>opens = \<lambda>a p. True, suspend_status = \<lambda>p. 0, resume_status = \<lambda>p. 0, last_error = 0,
     exe_of = \<lambda>p. None, r_quarantine = demo_env, r_entry = ''i'', r_trust = win_env 0,
     r_driver = sample_driver,
     r_now = 0, r_stamp = ''t''\<rparr>"

definition demo_world :: world where
  "demo_world = \<lparr>w_procs = \<lambda>p. 0, w_store = Some demo_vault, w_fs = demo_files, w_bridge = None, w_cache = [],
     w_bus = Some (new_bus 10 5)\<rparr>"

lemma demo_add_any:
  "\<exists>rec s. Quarantine.add demo_env ''i'' ''/a/x'' subj why sc sigs (demo_vault, demo_files) =
     (Inr (Some rec), demo_vault\<lparr>Quarantine.rows := [rec]\<rparr>, s)"
proof -
  obtain s where i: "isolate (q_os demo_env) ''/a/x'' ''/q/i_x'' demo_files = (True, s)"
    by (simp add: isolate_def copy2_def demo_files_def file_defs new_file_def)
  have "is_file (q_os demo_env) ''/a/x'' demo_files"
    by (simp add: demo_files_def is_file_def find_file_def)
  with i show ?thesis by (simp add: Quarantine.add_def Let_def)
qed


end
