(* ===== verification/Notifier.thy ===== *)
theory Notifier
  imports Prelude
begin

text \<open>
  \<open>response/notifier.py\<close>: desktop notifications with a throttle on repeated alerts. Whether the two
  channels (a toast of the Windows Runtime, a balloon tip) deliver is a parameter of a send; what each
  channel was asked to show is part of the result. The dash of the titles is the character \<open>0x97\<close>.
\<close>

section \<open>State\<close>

record notification =
  n_title :: string
  n_body :: string
  n_type :: string
  n_quarantine :: "string option"
  n_pid :: "int option"
  n_process :: "string option"
  n_extra :: "(string, pyval) dict option"

record notifier =
  app_name :: string
  cooldown_sec :: real
  toast_available :: bool
  recent_alerts :: "(string, real) dict"
  suppressed_counts :: "(string, nat) dict"

record channels =
  toast_shows :: "string \<Rightarrow> notification \<Rightarrow> bool"
  balloon_shows :: "string \<Rightarrow> notification \<Rightarrow> bool"

definition new_notifier :: "string \<Rightarrow> real \<Rightarrow> bool \<Rightarrow> notifier" where
  "new_notifier app cooldown toast =
     \<lparr>app_name = app, cooldown_sec = cooldown, toast_available = toast, recent_alerts = [],
      suppressed_counts = []\<rparr>"

section \<open>Sending\<close>

definition opt_text :: "string option \<Rightarrow> string option" where
  \<comment> \<open>an empty text counts as absent\<close>
  "opt_text s = (case s of None \<Rightarrow> None | Some t \<Rightarrow> if t = [] then None else Some t)"

definition show_opt_int :: "int option \<Rightarrow> string" where
  "show_opt_int p = (case p of None \<Rightarrow> ''None'' | Some i \<Rightarrow> show_int i)"

definition dedup_key :: "notification \<Rightarrow> string" where
  "dedup_key n =
     n_title n @ '':'' @ (case opt_text (n_process n) of Some t \<Rightarrow> t | None \<Rightarrow> show_opt_int (n_pid n))
       @ '':'' @ take 40 (n_body n)"

definition with_burst :: "nat \<Rightarrow> notification \<Rightarrow> notification" where
  "with_burst k n =
     (if k > 0
      then n\<lparr>n_body := n_body n @ [CHR 0x0A] @ ''(+'' @ show_nat k @ '' burst events suppressed)''\<rparr> else n)"

definition throttle :: "real \<Rightarrow> notification \<Rightarrow> notifier \<Rightarrow> notification option \<times> notifier" where
  \<comment> \<open>none when the alert is suppressed\<close>
  "throttle now n st =
     (if n_type n \<noteq> ''alert'' then (Some n, st)
      else
        let k = dedup_key n;
            seen = (case map_of (recent_alerts st) k of None \<Rightarrow> 0 | Some t \<Rightarrow> t);
            held = (case map_of (suppressed_counts st) k of None \<Rightarrow> 0 | Some c \<Rightarrow> c)
        in if now - seen < cooldown_sec st
           then (None, st\<lparr>suppressed_counts := AList.update k (held + 1) (suppressed_counts st)\<rparr>)
           else (Some (with_burst held n),
                 st\<lparr>suppressed_counts := AList.delete k (suppressed_counts st),
                    recent_alerts := AList.update k now (recent_alerts st)\<rparr>))"

datatype shown = Toast notification | Balloon notification

definition deliver :: "channels \<Rightarrow> notifier \<Rightarrow> notification \<Rightarrow> bool \<times> shown list" where
  \<comment> \<open>what the channels accepted\<close>
  "deliver ch st n =
     (if toast_available st \<and> toast_shows ch (app_name st) n then (True, [Toast n])
      else if balloon_shows ch (app_name st) n then (True, [Balloon n]) else (False, []))"

definition send :: "real \<Rightarrow> channels \<Rightarrow> notification \<Rightarrow> notifier \<Rightarrow> bool \<times> shown list \<times> notifier" where
  "send now ch n st =
     (case throttle now n st of
        (None, st1) \<Rightarrow> (False, [], st1)
      | (Some m, st1) \<Rightarrow> (case deliver ch st1 m of (ok, out) \<Rightarrow> (ok, out, st1)))"

definition dash :: string where "dash = [CHR 0x20, CHR 0x97, CHR 0x20]"

definition alert_subject :: "string option \<Rightarrow> int option \<Rightarrow> string" where
  \<comment> \<open>\<open>process_name or f"pid {pid}" if pid else "a process"\<close>, where the conditional binds last\<close>
  "alert_subject nm pid =
     (case pid of
        None \<Rightarrow> ''a process''
      | Some i \<Rightarrow>
          if i = 0 then ''a process''
          else (case opt_text nm of Some t \<Rightarrow> t | None \<Rightarrow> ''pid '' @ show_int i))"

definition alert ::
  "string option \<Rightarrow> string \<Rightarrow> int option \<Rightarrow> string option \<Rightarrow> real option \<Rightarrow> notification" where
  "alert nm why pid qid sc =
     \<lparr>n_title = ''Sentinel'' @ dash @ ''Alert'',
      n_body = ''Suspended '' @ alert_subject nm pid
        @ (case sc of None \<Rightarrow> [] | Some x \<Rightarrow> '' (score: '' @ fmt_fixed 0 x @ '')'') @ [CHR 0x0A] @ why,
      n_type = ''alert'', n_quarantine = qid, n_pid = pid, n_process = nm, n_extra = None\<rparr>"

definition notify_alert ::
  "real \<Rightarrow> channels \<Rightarrow> string option \<Rightarrow> string \<Rightarrow> int option \<Rightarrow> string option \<Rightarrow> real option \<Rightarrow> notifier
    \<Rightarrow> shown list \<times> notifier" where
  "notify_alert now ch nm why pid qid sc st = snd (send now ch (alert nm why pid qid sc) st)"

definition notify_info :: "real \<Rightarrow> channels \<Rightarrow> string \<Rightarrow> notifier \<Rightarrow> shown list \<times> notifier" where
  "notify_info now ch msg st =
     snd (send now ch \<lparr>n_title = ''Sentinel'' @ dash @ ''Info'', n_body = msg, n_type = ''info'',
       n_quarantine = None, n_pid = None, n_process = None, n_extra = None\<rparr> st)"

definition char_upper :: "char \<Rightarrow> char" where
  "char_upper c = (let n = (of_char c :: nat) in if 97 \<le> n \<and> n \<le> 122 then char_of (n - 32) else c)"

definition capitalize :: "string \<Rightarrow> string" where
  "capitalize s = (case s of [] \<Rightarrow> [] | c # cs \<Rightarrow> char_upper c # lower cs)"

definition notify_resolved ::
  "real \<Rightarrow> channels \<Rightarrow> string option \<Rightarrow> string \<Rightarrow> string option \<Rightarrow> notifier \<Rightarrow> shown list \<times> notifier" where
  "notify_resolved now ch nm action qid st =
     snd (send now ch \<lparr>n_title = ''Sentinel'' @ dash @ ''Resolved'',
       n_body = capitalize (case opt_text nm of Some t \<Rightarrow> t | None \<Rightarrow> ''item'') @ '' '' @ action
         @ '' successfully.'',
       n_type = ''resolved'', n_quarantine = qid, n_pid = None, n_process = nm, n_extra = None\<rparr> st)"

section \<open>Throttling\<close>

datatype outcome = Passed string nat | Held string | Untouched
  \<comment> \<open>an alert shown with the number of held ones it reports; an alert held back; no alert\<close>

definition outcome_of :: "real \<Rightarrow> notification \<Rightarrow> notifier \<Rightarrow> outcome" where
  "outcome_of now n st =
     (if n_type n \<noteq> ''alert'' then Untouched
      else case throttle now n st of
             (None, st1) \<Rightarrow> Held (dedup_key n)
           | (Some m, st1) \<Rightarrow>
               Passed (dedup_key n)
                 (case map_of (suppressed_counts st) (dedup_key n) of None \<Rightarrow> 0 | Some c \<Rightarrow> c))"

fun run_sends :: "(real \<times> notification) list \<Rightarrow> notifier \<Rightarrow> outcome list \<times> notifier" where
  "run_sends [] st = ([], st)"
| "run_sends ((t, n) # rest) st =
     (case run_sends rest (snd (throttle t n st)) of (os, st') \<Rightarrow> (outcome_of t n st # os, st'))"

definition held_count :: "string \<Rightarrow> notifier \<Rightarrow> nat" where
  "held_count k st = (case map_of (suppressed_counts st) k of None \<Rightarrow> 0 | Some c \<Rightarrow> c)"

fun held_in :: "string \<Rightarrow> outcome list \<Rightarrow> nat" where
  "held_in k [] = 0"
| "held_in k (x # xs) = (if x = Held k then 1 else 0) + held_in k xs"

fun reported_in :: "string \<Rightarrow> outcome list \<Rightarrow> nat" where
  "reported_in k [] = 0"
| "reported_in k (x # xs) =
     (case x of Passed j c \<Rightarrow> if j = k then c else 0 | _ \<Rightarrow> 0) + reported_in k xs"

lemma throttle_counts:
  "held_count k (snd (throttle t n st)) + reported_in k [outcome_of t n st]
     = held_count k st + held_in k [outcome_of t n st]"
  by (auto simp: throttle_def outcome_of_def held_count_def Let_def split: option.splits)


lemma with_burst_shows: "k > 0 \<Longrightarrow> contains (n_body (with_burst k n)) (show_nat k)"
  unfolding contains_iff with_burst_def by (auto intro: exI[of _ "n_body n @ [CHR 0x0A] @ ''(+''"])

text \<open>Alerts about a file, which carry no process id, name the process generically even when the file's
  name is known.\<close>

lemma file_alert_unnamed:
  "n_body (alert (Some nm) why None qid None) = ''Suspended a process'' @ [CHR 0x0A] @ why"
  by (simp add: alert_def alert_subject_def)

text \<open>An alert of a kind is shown at most once per cooldown.\<close>

lemma throttle_spacing:
  assumes "throttle t n st = (Some m, st')" and "n_type n = ''alert''"
    and "dedup_key n' = dedup_key n" and "n_type n' = ''alert''" and "t' - t < cooldown_sec st"
  shows "fst (throttle t' n' st') = None"
  using assms by (auto simp: throttle_def Let_def split: if_splits)

end
