(* ===== verification/Consumer.thy ===== *)
theory Consumer
  imports RuleEngine Ransomware BruteForce C2 Cryptomining Responder Notifier
begin

text \<open>
  \<open>engine/consumer.py\<close>: the pipeline. An event goes through the rule engine and the heuristics of its
  type; the signals go to the scorer; a subject that may be responded to for the first time is
  responded to: a process is suspended and its image quarantined, a file is quarantined, the driver
  and the user are told. What the static classifier answers to an event is a
  parameter, so that its theorems hold for every classifier, as are the clock, \<open>psutil\<close>'s answers and the environment of the responder and the notifier,
  which may all differ from one event to the next. The warnings that announce a response are logged
  in \<open>announced\<close>.
\<close>

section \<open>State\<close>

record settings =
  file_write_rate_per_min :: "real option"
  file_entropy_alert :: "real option"
  cpu_sustained_percent :: "real option"
  cpu_sustained_seconds :: "real option"
  failed_login_count :: "int option"
  failed_login_window_seconds :: "real option"
  set_trusted_publishers :: "string list"
  set_trusted_hashes :: "string list"

record consumer =
  c_world :: world
  c_scorer :: scorer
  c_notifier :: notifier
  auto_respond :: bool
  trusted_publishers :: "string set"
  trusted_hashes :: "string set"
  c_rules :: rule_engine
  c_ransomware :: ransomware
  c_mining :: cryptomining
  c_brute :: brute_force
  c_beacon :: beacon_detector
  c_blocked :: c2_blocklist
  c_reputation :: reputation
  responded_subjects :: "string set"
  proc_start_times :: "(int, real) dict"
  last_cpu_sample :: real
  announced :: "string list"
  c_shown :: "shown list"

record cenv =
  ce_now :: real
  ce_classify :: "event \<Rightarrow> signal list py_result"
  ce_resp :: resp_env
  ce_channels :: channels
  ce_procs :: proc_view

definition or_default :: "'a option \<Rightarrow> 'a \<Rightarrow> 'a" where
  "or_default v d = (case v of None \<Rightarrow> d | Some x \<Rightarrow> x)"

definition new_consumer ::
  "settings \<Rightarrow> bool \<Rightarrow> rule_engine \<Rightarrow> scorer \<Rightarrow> notifier \<Rightarrow> world \<Rightarrow> consumer" where
  \<comment> \<open>the heuristics' other parameters are their defaults; no canary manager is given\<close>
  "new_consumer cfg auto rules sc nt w =
     \<lparr>c_world = w, c_scorer = sc, c_notifier = nt, auto_respond = auto,
      trusted_publishers = set (set_trusted_publishers cfg), trusted_hashes = set (set_trusted_hashes cfg),
      c_rules = rules,
      c_ransomware = new_ransomware (or_default (file_write_rate_per_min cfg) 50)
        (or_default (file_entropy_alert cfg) 7.5) None,
      c_mining = new_cryptomining (or_default (cpu_sustained_percent cfg) 85)
        (or_default (cpu_sustained_seconds cfg) 60) 2 default_stratum_ports,
      c_brute = new_brute_force (or_default (failed_login_count cfg) 5)
        (or_default (failed_login_window_seconds cfg) 120),
      c_beacon = new_beacon_detector 0.2 60, c_blocked = new_blocklist [] [],
      c_reputation = \<lparr>clean_loads = [], clean_threshold = 20\<rparr>, responded_subjects = {},
      proc_start_times = [], last_cpu_sample = 0, announced = [], c_shown = []\<rparr>"

section \<open>Detectors\<close>

definition or_none :: "'a list py_result \<Rightarrow> 'a list" where
  \<comment> \<open>an exception of a detector is logged and gives no signals\<close>
  "or_none r = (case r of Inl x \<Rightarrow> [] | Inr xs \<Rightarrow> xs)"

definition opt_signals :: "signal option py_result \<Rightarrow> signal list" where
  "opt_signals r = (case r of Inr (Some s) \<Rightarrow> [s] | _ \<Rightarrow> [])"

definition track_start :: "event \<Rightarrow> consumer \<Rightarrow> consumer" where
  "track_start e c =
     (case pid e of
        None \<Rightarrow> c
      | Some p \<Rightarrow>
          let st = val_or (dict_get (extra e) ''create_time'') (dict_get (extra e) ''process_start_time'')
          in if st \<noteq> VNone \<and> p \<notin> set (keys (proc_start_times c))
             then (case to_float st of
                     Inl x \<Rightarrow> c
                   | Inr t \<Rightarrow> c\<lparr>proc_start_times := AList.update p t (proc_start_times c)\<rparr>)
             else c)"

definition file_signals :: "cenv \<Rightarrow> event \<Rightarrow> consumer \<Rightarrow> signal list \<times> consumer" where
  "file_signals env e c =
     (case process_fs_event (q_sha_of (r_quarantine (ce_resp env))) (q_os (r_quarantine (ce_resp env)))
             (w_fs (c_world c)) (ce_now env) None e (c_ransomware c) of
        (r, h) \<Rightarrow> (or_none r @ or_none (ce_classify env e), c\<lparr>c_ransomware := h\<rparr>))"

definition network_signals :: "cenv \<Rightarrow> event \<Rightarrow> consumer \<Rightarrow> signal list \<times> consumer" where
  "network_signals env e c =
     (case check_network_event (ce_now env) e (c_mining c) of
        (r1, h) \<Rightarrow>
          (case process_connection (ce_now env) e (c_beacon c) of
             (r3, d) \<Rightarrow>
               (opt_signals r1 @ opt_signals (check_connection (ce_now env) e (c_blocked c)) @ opt_signals r3,
                c\<lparr>c_mining := h, c_beacon := d\<rparr>)))"

definition login_signals :: "cenv \<Rightarrow> event \<Rightarrow> consumer \<Rightarrow> signal list \<times> consumer" where
  "login_signals env e c =
     (case process_login_event (ce_now env) None e (c_brute c) of
        (r, h) \<Rightarrow> ((case r of None \<Rightarrow> [] | Some s \<Rightarrow> [s]), c\<lparr>c_brute := h\<rparr>))"

definition load_context :: "event \<Rightarrow> dll_load_context" where
  "load_context e =
     \<lparr>dll_hash = hash_sha256 e, publisher = None,
      loader_pid = dict_get_or (extra e) ''loader_pid'' (of_opt_int (pid e)), target_pid = pid e,
      loader_image = dict_get (extra e) ''loader_image'', dll_path = image_path e,
      signed = dict_get (extra e) ''signed'',
      reflective = truthy (dict_get_or (extra e) ''reflective'' (VBool False)),
      host_normally_injected = truthy (dict_get_or (extra e) ''host_normally_injected'' (VBool True)),
      has_cpu_anomaly = truthy (dict_get_or (extra e) ''has_cpu_anomaly'' (VBool False)),
      has_network_anomaly = truthy (dict_get_or (extra e) ''has_network_anomaly'' (VBool False))\<rparr>"

definition load_signals :: "cenv \<Rightarrow> event \<Rightarrow> consumer \<Rightarrow> signal list \<times> consumer" where
  "load_signals env e c =
     (case score_dll_load (ce_now env) (load_context e) (trusted_publishers c) (trusted_hashes c)
             (c_reputation c) of
        (s, rep) \<Rightarrow> (s, c\<lparr>c_reputation := rep\<rparr>))"

definition detect :: "cenv \<Rightarrow> event \<Rightarrow> consumer \<Rightarrow> signal list \<times> consumer" where
  "detect env e c =
     (let matched = engine_match (ce_now env) (c_rules c) e
      in case (if event_type e \<in> {''file_write'', ''file_create'', ''file_modified''} then file_signals env e c
               else if event_type e = ''connection'' then network_signals env e c
               else if event_type e = ''login_failed'' then login_signals env e c
               else if event_type e = ''image_load'' then load_signals env e c
               else ([], c)) of
           (s, c1) \<Rightarrow> (matched @ s, c1))"

section \<open>Responses\<close>

definition announce :: "string \<Rightarrow> consumer \<Rightarrow> consumer" where
  "announce s c = c\<lparr>announced := announced c @ [s]\<rparr>"

definition tell_user ::
  "cenv \<Rightarrow> string option \<Rightarrow> string \<Rightarrow> int option \<Rightarrow> string option \<Rightarrow> real \<Rightarrow> consumer \<Rightarrow> consumer" where
  "tell_user env nm why p qid sc c =
     (case notify_alert (ce_now env) (ce_channels env) nm why p qid (Some sc) (c_notifier c) of
        (out, nt) \<Rightarrow> c\<lparr>c_notifier := nt, c_shown := c_shown c @ out\<rparr>)"

definition respond_process ::
  "cenv \<Rightarrow> int \<Rightarrow> signal \<Rightarrow> event option \<Rightarrow> real \<Rightarrow> pyval list \<Rightarrow> consumer \<Rightarrow> unit py_result \<times> consumer"
where
  "respond_process env p sig ev sc sigs c =
     (let img = (case ev of
                   None \<Rightarrow> None
                 | Some e \<Rightarrow> if pid e = Some p then opt_text (image_path e) else None)
      in case quarantine_process (ce_resp env) p (reason sig) sigs (Some (c_scorer c)) img (c_world c) of
           (Inl x, w) \<Rightarrow> (Inl x, c\<lparr>c_world := w\<rparr>)
         | (Inr r, w) \<Rightarrow>
             (Inr (), tell_user env (Some (case img of Some f \<Rightarrow> f | None \<Rightarrow> ''PID '' @ show_int p)) (reason sig)
                (Some p) (map_option q_id (quarantined r)) sc (c\<lparr>c_world := w\<rparr>)))"

definition event_file :: "os \<Rightarrow> fs \<Rightarrow> event \<Rightarrow> string option py_result" where
  \<comment> \<open>\<open>Path\<close> of a value that is not text raises\<close>
  "event_file os s e =
     (case opt_text (image_path e) of
        Some p \<Rightarrow>
          if is_file os p s then Inr (Some p)
          else (case map_of (extra e) ''path'' of
                  None \<Rightarrow> Inr None
                | Some (VStr q) \<Rightarrow> Inr (if is_file os q s then Some q else None)
                | Some v \<Rightarrow> Inl TypeError)
      | None \<Rightarrow>
          (case map_of (extra e) ''path'' of
             None \<Rightarrow> Inr None
           | Some (VStr q) \<Rightarrow> Inr (if is_file os q s then Some q else None)
           | Some v \<Rightarrow> Inl TypeError))"

definition was_restored :: "qenv \<Rightarrow> string \<Rightarrow> world \<Rightarrow> bool" where
  "was_restored env p w =
     (case w_store w of None \<Rightarrow> False | Some q \<Rightarrow> is_restored (sha256_of env p (w_fs w)) q)"

definition respond_file ::
  "cenv \<Rightarrow> string \<Rightarrow> signal \<Rightarrow> event option \<Rightarrow> real \<Rightarrow> pyval list \<Rightarrow> consumer \<Rightarrow> unit py_result \<times> consumer"
where
  "respond_file env subj sig ev sc sigs c =
     (let w = c_world c; qe = r_quarantine (ce_resp env)
      in case (case ev of None \<Rightarrow> Inr None | Some e \<Rightarrow> event_file (q_os qe) (w_fs w) e) of
           Inl x \<Rightarrow> (Inl x, c)
         | Inr None \<Rightarrow> (Inr (), c)
         | Inr (Some f) \<Rightarrow>
             if f = [] then (Inr (), c)
             else if was_restored qe f w then (Inr (), c)
             else
               (case w_store w of
                  None \<Rightarrow> (Inl AttributeError, c)
                | Some q \<Rightarrow>
                    (case Quarantine.add qe (r_entry (ce_resp env)) f subj (reason sig) sc sigs (q, w_fs w) of
                       (Inl x, q1, s1) \<Rightarrow> (Inl x, c\<lparr>c_world := w\<lparr>w_store := Some q1, w_fs := s1\<rparr>\<rparr>)
                     | (Inr rec, q1, s1) \<Rightarrow>
                         (Inr (), tell_user env (Some (path_name (seps (q_os qe)) f)) (reason sig) None
                            (map_option q_id rec) sc
                            (c\<lparr>c_world := push_block (ce_resp env) f (w\<lparr>w_store := Some q1, w_fs := s1\<rparr>)\<rparr>)))))"

definition execute_response ::
  "cenv \<Rightarrow> string \<Rightarrow> signal \<Rightarrow> event option \<Rightarrow> consumer \<Rightarrow> unit py_result \<times> consumer" where
  "execute_response env subj sig ev c =
     (let score = scorer_get subj (c_scorer c);
          sc = (case score of None \<Rightarrow> 0 | Some ss \<Rightarrow> total ss);
          sigs = map VStr (case score of None \<Rightarrow> [kind sig] | Some ss \<Rightarrow> map kind (signals ss));
          c1 = announce subj c
      in if startswith subj ''pid:'' \<and> (\<exists>p. parse_int (drop 4 subj) = Inr p \<and> p \<noteq> 0)
         then (case parse_int (drop 4 subj) of
                 Inl x \<Rightarrow> (Inl x, c1)
               | Inr p \<Rightarrow> respond_process env p sig ev sc sigs c1)
         else respond_file env subj sig ev sc sigs c1)"

section \<open>Events\<close>

definition handle_signal ::
  "cenv \<Rightarrow> event option \<Rightarrow> signal \<Rightarrow> consumer \<Rightarrow> unit py_result \<times> consumer" where
  "handle_signal env ev sig c =
     (case add_signal (ce_now env) sig (c_scorer c) of
        Inl x \<Rightarrow> (Inl x, c)
      | Inr (ss, sc) \<Rightarrow>
          let c1 = c\<lparr>c_scorer := sc\<rparr>; s = subject sig
          in if auto_respond c1 \<and> should_respond s sc \<and> s \<notin> responded_subjects c1
             then execute_response env s sig ev
                    (c1\<lparr>responded_subjects := insert s (responded_subjects c1)\<rparr>)
             else (Inr (), c1))"

fun handle_signals ::
  "cenv \<Rightarrow> event option \<Rightarrow> signal list \<Rightarrow> consumer \<Rightarrow> unit py_result \<times> consumer" where
  "handle_signals env ev [] c = (Inr (), c)"
| "handle_signals env ev (s # ss) c =
     (case handle_signal env ev s c of
        (Inl x, c1) \<Rightarrow> (Inl x, c1)
      | (Inr u, c1) \<Rightarrow> handle_signals env ev ss c1)"

definition is_exit :: "event \<Rightarrow> bool" where
  "is_exit e \<longleftrightarrow> event_type e \<in> {''process_exit'', ''process_terminate''} \<and> pid e \<noteq> None"

definition forget_process :: "int \<Rightarrow> consumer \<Rightarrow> consumer" where
  "forget_process p c =
     c\<lparr>c_scorer := reset_pid p (c_scorer c), c_mining := clear_cpu_flag p (c_mining c),
       c_beacon := beacon_reset_pid p (c_beacon c), proc_start_times := AList.delete p (proc_start_times c),
       responded_subjects := {s \<in> responded_subjects c.
          \<not> (s = pid_subject p \<or> startswith s (pid_subject p @ '':''))}\<rparr>"

definition process_event :: "cenv \<Rightarrow> event \<Rightarrow> consumer \<Rightarrow> signal list py_result \<times> consumer" where
  "process_event env e c =
     (if is_exit e then (Inr [], forget_process (the (pid e)) c)
      else case detect env e (track_start e c) of
             (sigs, c1) \<Rightarrow>
               (case handle_signals env (Some e) sigs c1 of
                  (Inl x, c2) \<Rightarrow> (Inl x, c2)
                | (Inr u, c2) \<Rightarrow> (Inr sigs, c2)))"

definition periodic_checks :: "cenv \<Rightarrow> real \<Rightarrow> consumer \<Rightarrow> consumer" where
  "periodic_checks env now c =
     (case sample_cpu (ce_now env) (Some now) (ce_procs env) (c_mining c) of
        (sigs, h) \<Rightarrow>
          let c1 = snd (handle_signals env None sigs (c\<lparr>c_mining := h\<rparr>))
          in c1\<lparr>c_scorer := snd (evict_stale 3600 now (snd (decay (Some 600) now (c_scorer c1))))\<rparr>)"

fun process_events :: "cenv \<Rightarrow> event list \<Rightarrow> consumer \<Rightarrow> bool \<times> consumer" where
  \<comment> \<open>the events of one item; an exception leaves the rest unprocessed\<close>
  "process_events env [] c = (True, c)"
| "process_events env (e # es) c =
     (case process_event env e c of
        (Inl x, c1) \<Rightarrow> (False, c1)
      | (Inr sigs, c1) \<Rightarrow> process_events env es c1)"

definition take_item :: "consumer \<Rightarrow> event list \<times> consumer" where
  "take_item c =
     (case w_bus (c_world c) of
        None \<Rightarrow> ([], c)
      | Some b \<Rightarrow>
          (case consume b of
             (None, b1) \<Rightarrow> ([], c\<lparr>c_world := (c_world c)\<lparr>w_bus := Some b1\<rparr>\<rparr>)
           | (Some es, b1) \<Rightarrow> (es, c\<lparr>c_world := (c_world c)\<lparr>w_bus := Some b1\<rparr>\<rparr>)))"

definition run_consumer_step :: "cenv \<Rightarrow> consumer \<Rightarrow> consumer" where
  \<comment> \<open>one iteration of the loop of \<open>_run_consumer\<close>\<close>
  "run_consumer_step env c =
     (case take_item c of
        (es, c1) \<Rightarrow>
          (case process_events env es c1 of
             (False, c2) \<Rightarrow> c2
           | (True, c2) \<Rightarrow>
               if ce_now env - last_cpu_sample c2 \<ge> 10
               then periodic_checks env (ce_now env) (c2\<lparr>last_cpu_sample := ce_now env\<rparr>)
               else c2))"

section \<open>What a signal changes\<close>

lemma tell_user_frame [simp]:
  "c_world (tell_user env nm why p q sc c) = c_world c" "c_scorer (tell_user env nm why p q sc c) = c_scorer c"
  "announced (tell_user env nm why p q sc c) = announced c"
  "responded_subjects (tell_user env nm why p q sc c) = responded_subjects c"
  "auto_respond (tell_user env nm why p q sc c) = auto_respond c"
  by (simp_all add: tell_user_def case_prod_beta)

lemma respond_frame:
  "announced (snd (respond_process env p sig ev sc sigs c)) = announced c"
  "responded_subjects (snd (respond_process env p sig ev sc sigs c)) = responded_subjects c"
  "announced (snd (respond_file env subj sig ev sc sigs c)) = announced c"
  "responded_subjects (snd (respond_file env subj sig ev sc sigs c)) = responded_subjects c"
  by (auto simp: respond_process_def respond_file_def Let_def split: prod.split sum.split option.split)

lemma execute_frame:
  "announced (snd (execute_response env s sig ev c)) = announced c @ [s]"
  "responded_subjects (snd (execute_response env s sig ev c)) = responded_subjects c"
  by (auto simp: execute_response_def Let_def respond_frame announce_def split: sum.split)

lemma handle_signal_cases:
  assumes "handle_signal env ev sig c = (r, c')"
  obtains (quiet) "announced c' = announced c" "responded_subjects c' = responded_subjects c"
      "c_world c' = c_world c"
  | (answered) "announced c' = announced c @ [subject sig]" "subject sig \<notin> responded_subjects c"
      "responded_subjects c' = insert (subject sig) (responded_subjects c)" "auto_respond c"
      "\<exists>ss sc. add_signal (ce_now env) sig (c_scorer c) = Inr (ss, sc) \<and> should_respond (subject sig) sc"
proof (cases "add_signal (ce_now env) sig (c_scorer c)")
  case (Inl x)
  with assms show ?thesis by (intro quiet) (auto simp: handle_signal_def)
next
  case (Inr y)
  obtain ss sc where y: "y = (ss, sc)" by fastforce
  show ?thesis
  proof (cases "auto_respond c \<and> should_respond (subject sig) sc \<and> subject sig \<notin> responded_subjects c")
    case True
    let ?c = "c\<lparr>c_scorer := sc, responded_subjects := insert (subject sig) (responded_subjects c)\<rparr>"
    have "c' = snd (execute_response env (subject sig) sig ev ?c)"
      using assms Inr y True by (auto simp: handle_signal_def Let_def)
    with True Inr y show ?thesis
      by (intro answered) (auto simp: execute_frame)
  next
    case False
    with assms Inr y show ?thesis by (intro quiet) (auto simp: handle_signal_def Let_def)
  qed
qed

definition covers :: "int \<Rightarrow> string \<Rightarrow> bool" where
  \<comment> \<open>the subjects of a process id, with or without a start time\<close>
  "covers p s \<longleftrightarrow> s = pid_subject p \<or> startswith s (pid_subject p @ '':'')"

definition answers_ok :: "int list \<Rightarrow> consumer \<Rightarrow> bool" where
  "answers_ok exits c \<longleftrightarrow> (\<forall>s. count_list (announced c) s
     \<le> length (filter (\<lambda>p. covers p s) exits) + (if s \<in> responded_subjects c then 1 else 0))"

lemma answers_ok_signal:
  assumes "answers_ok exits c" and "handle_signal env ev sig c = (r, c')"
  shows "answers_ok exits c'"
  using assms(2)
proof (cases rule: handle_signal_cases)
  case quiet
  with assms(1) show ?thesis by (simp add: answers_ok_def)
next
  case answered
  show ?thesis
    unfolding answers_ok_def
  proof
    fix s
    have "count_list (announced c) s \<le> length (filter (\<lambda>p. covers p s) exits)
        + (if s \<in> responded_subjects c then 1 else 0)" using assms(1) by (simp add: answers_ok_def)
    with answered(1-3) show "count_list (announced c') s \<le> length (filter (\<lambda>p. covers p s) exits)
        + (if s \<in> responded_subjects c' then 1 else 0)"
      by (auto split: if_splits)
  qed
qed

lemma answers_ok_signals:
  "answers_ok exits c \<Longrightarrow> answers_ok exits (snd (handle_signals env ev sigs c))"
proof (induction env ev sigs c rule: handle_signals.induct)
  case (2 env ev s ss c)
  obtain r c1 where h: "handle_signal env ev s c = (r, c1)" by fastforce
  with 2 answers_ok_signal[OF 2(2) h] show ?case by (cases r) auto
qed simp

lemma detect_frame:
  assumes "detect env e c = (sigs, c1)"
  shows "announced c1 = announced c" "responded_subjects c1 = responded_subjects c" "c_world c1 = c_world c"
    "c_scorer c1 = c_scorer c" "auto_respond c1 = auto_respond c" "c_rules c1 = c_rules c"
  using assms
  by (auto simp: detect_def file_signals_def network_signals_def login_signals_def load_signals_def Let_def
      split: prod.splits if_splits)

lemma track_frame [simp]:
  "announced (track_start e c) = announced c" "responded_subjects (track_start e c) = responded_subjects c"
  "c_world (track_start e c) = c_world c" "c_scorer (track_start e c) = c_scorer c"
  "auto_respond (track_start e c) = auto_respond c" "c_rules (track_start e c) = c_rules c"
  by (auto simp: track_start_def Let_def split: option.split sum.split)

lemma answers_ok_frame:
  "announced c' = announced c \<Longrightarrow> responded_subjects c' = responded_subjects c \<Longrightarrow>
     answers_ok exits c' = answers_ok exits c"
  by (simp add: answers_ok_def)

lemma answers_ok_event:
  assumes "answers_ok exits c" and "process_event env e c = (r, c')"
  shows "answers_ok (if is_exit e then the (pid e) # exits else exits) c'"
proof (cases "is_exit e")
  case True
  with assms(2) have c': "c' = forget_process (the (pid e)) c" by (simp add: process_event_def)
  show ?thesis
    unfolding answers_ok_def
  proof
    fix s
    have "count_list (announced c) s \<le> length (filter (\<lambda>p. covers p s) exits)
        + (if s \<in> responded_subjects c then 1 else 0)" using assms(1) by (simp add: answers_ok_def)
    with True c' show "count_list (announced c') s
        \<le> length (filter (\<lambda>p. covers p s) (if is_exit e then the (pid e) # exits else exits))
          + (if s \<in> responded_subjects c' then 1 else 0)"
      by (auto simp: forget_process_def covers_def split: if_splits)
  qed
next
  case False
  obtain sigs c1 where d: "detect env e (track_start e c) = (sigs, c1)" by fastforce
  have "answers_ok exits c1"
    using assms(1) detect_frame(1,2)[OF d] by (simp add: answers_ok_frame[of c1 c])
  moreover have "c' = snd (handle_signals env (Some e) sigs c1)"
    using assms(2) False d by (auto simp: process_event_def split: prod.splits sum.splits)
  ultimately show ?thesis using answers_ok_signals False by simp
qed

lemma answers_ok_periodic: "answers_ok exits c \<Longrightarrow> answers_ok exits (periodic_checks env now c)"
proof -
  assume a: "answers_ok exits c"
  obtain sigs h where s: "sample_cpu (ce_now env) (Some now) (ce_procs env) (c_mining c) = (sigs, h)" by fastforce
  have "answers_ok exits (c\<lparr>c_mining := h\<rparr>)" using a by (simp add: answers_ok_def)
  from answers_ok_signals[OF this, of env None sigs] s show ?thesis
    by (simp add: periodic_checks_def answers_ok_def Let_def)
qed

section \<open>Histories\<close>

inductive chist :: "consumer \<Rightarrow> int list \<Rightarrow> consumer \<Rightarrow> bool" for c0 :: consumer where
  h_start: "chist c0 [] c0"
| h_event: "chist c0 xs c \<Longrightarrow> process_event env e c = (r, c') \<Longrightarrow>
    chist c0 (if is_exit e then the (pid e) # xs else xs) c'"
| h_check: "chist c0 xs c \<Longrightarrow> chist c0 xs (periodic_checks env now c)"
| h_world: "chist c0 xs c \<Longrightarrow> chist c0 xs (c\<lparr>c_world := w\<rparr>)"

inductive_cases chistE: "chist c0 xs c"

text \<open>C14: a subject is responded to at most once per life of its process: in any history of events, failures
  included, periodic checks and changes by other components, the responses announced for a subject are
  at most one more than the exits of the process that it names.\<close>
theorem one_response_per_life:
  assumes "chist (new_consumer cfg auto rules sc nt w) exits c"
  shows "count_list (announced c) s \<le> 1 + length (filter (\<lambda>p. covers p s) exits)"
proof -
  have "answers_ok exits c"
    using assms
  proof (induction rule: chist.induct)
    case h_start
    show ?case by (simp add: answers_ok_def new_consumer_def)
  next
    case (h_event xs c env e r c')
    then show ?case using answers_ok_event by blast
  next
    case (h_check xs c env now)
    then show ?case by (intro answers_ok_periodic)
  next
    case (h_world xs c w)
    then show ?case by (simp add: answers_ok_def)
  qed
  then have "count_list (announced c) s
      \<le> length (filter (\<lambda>p. covers p s) exits) + (if s \<in> responded_subjects c then 1 else 0)"
    by (simp add: answers_ok_def)
  then show ?thesis by (simp split: if_splits)
qed

section \<open>Exits\<close>

lemma scorer_after_reset:
  "scorer_get s (reset_pid p sc) = (if covers p s then None else scorer_get s sc)"
  by (simp add: scorer_get_def reset_pid_lookup covers_def pid_subject_def)

text \<open>When a process exits, everything the scorer, the list of answered subjects and the beacon detector
  know about it, under either form of its subject, is forgotten, everything else of them is kept and
  nothing else happens; the record that its connection to a mining pool has been reported is kept.\<close>
lemma exit_forgets_process:
  assumes "is_exit e" and "pid e = Some p" and "process_event env e c = (r, c')"
  shows "r = Inr [] \<and> c_world c' = c_world c
    \<and> scorer_get s (c_scorer c') = (if covers p s then None else scorer_get s (c_scorer c))
    \<and> (s \<in> responded_subjects c' \<longleftrightarrow> s \<in> responded_subjects c \<and> \<not> covers p s)
    \<and> (\<forall>kv \<in> set (streams (c_beacon c')). fst (fst kv) \<noteq> p)
    \<and> emitted_stratum (c_mining c') = emitted_stratum (c_mining c)"
  using assms
  by (auto simp: process_event_def forget_process_def scorer_after_reset covers_def beacon_reset_pid_def
      clear_cpu_flag_def)

section \<open>Image loads alone\<close>

definition dll_only :: "scorer \<Rightarrow> bool" where
  "dll_only sc \<longleftrightarrow> (\<forall>ks \<in> set (subj_map sc). \<forall>x \<in> set (signals (snd ks)).
     is_dll_kind (kind x) \<and> kind x \<noteq> ''dll_reflective'')"

lemma dll_only_quiet: "dll_only sc \<Longrightarrow> \<not> should_respond s sc"
  by (auto simp: should_respond_def dll_only_def filter_empty_conv Let_def split: option.split dest!: map_of_SomeD)

lemma dll_only_add:
  assumes "dll_only sc" and "is_dll_kind (kind sig)" and "kind sig \<noteq> ''dll_reflective''"
    and "add_signal now sig sc = Inr (ss, sc')"
  shows "dll_only sc'"
proof -
  from assms(4) obtain sc1 where e: "evict_oldest (subject sig) sc = Inr sc1"
    "ss = subject_add sig (subject_or_new now (subject sig) sc1)"
    "sc' = sc1\<lparr>subj_map := AList.update (subject sig) ss (subj_map sc1)\<rparr>"
    by (auto simp: add_signal_def bind_res_Inr_iff Let_def)
  have "set (subj_map sc1) \<subseteq> set (subj_map sc)"
    using e(1) set_delete_subset by (fastforce simp: evict_oldest_def split: if_splits option.splits)
  with assms(1) have d: "dll_only sc1" by (auto simp: dll_only_def)
  have "\<forall>x \<in> set (signals ss). is_dll_kind (kind x) \<and> kind x \<noteq> ''dll_reflective''"
  proof -
    have "\<forall>x \<in> set (signals (subject_or_new now (subject sig) sc1)).
        is_dll_kind (kind x) \<and> kind x \<noteq> ''dll_reflective''"
      using d by (auto simp: subject_or_new_def new_subject_def dll_only_def split: option.split dest!: map_of_SomeD)
    then show ?thesis using assms(2,3) e(2) by (auto simp: subject_add_def Let_def)
  qed
  then show ?thesis
    using d set_update_subset[of "subject sig" ss "subj_map sc1"] e(3) by (fastforce simp: dll_only_def)
qed

lemma weak_dll_kinds: "\<forall>k \<in> set [''dll_cross_process'', ''dll_abnormal_host'', ''dll_unsigned''].
    is_dll_kind k \<and> k \<noteq> ''dll_reflective''"
  by (simp add: is_dll_kind_def startswith_def)

lemma load_kinds:
  assumes "\<not> reflective ctx" and "x \<in> set (fst (score_dll_load now ctx tp th rep))"
  shows "is_dll_kind (kind x) \<and> kind x \<noteq> ''dll_reflective''"
proof -
  have "kind x \<in> set (map kind (fst (score_dll_load now ctx tp th rep)))"
    unfolding set_map using assms(2) by (rule imageI)
  then have "kind x \<in> set (dll_kinds ctx)" unfolding score_dll_load_kinds by (simp split: if_splits)
  also have "\<dots> \<subseteq> set [''dll_cross_process'', ''dll_abnormal_host'', ''dll_unsigned'']"
    using assms(1) by (simp add: dll_kinds_def, blast)
  finally show ?thesis using weak_dll_kinds by blast
qed

lemma quiet_signals:
  assumes "dll_only (c_scorer c)" and "\<forall>x \<in> set sigs. is_dll_kind (kind x) \<and> kind x \<noteq> ''dll_reflective''"
  shows "announced (snd (handle_signals env ev sigs c)) = announced c
    \<and> c_world (snd (handle_signals env ev sigs c)) = c_world c
    \<and> c_rules (snd (handle_signals env ev sigs c)) = c_rules c
    \<and> dll_only (c_scorer (snd (handle_signals env ev sigs c)))"
  using assms
proof (induction env ev sigs c rule: handle_signals.induct)
  case (2 env ev s ss c)
  show ?case
  proof (cases "add_signal (ce_now env) s (c_scorer c)")
    case (Inl x)
    then show ?thesis using 2(2) by (simp add: handle_signal_def)
  next
    case (Inr y)
    obtain t sc where y: "y = (t, sc)" by fastforce
    have d: "dll_only sc" using dll_only_add[OF 2(2) _ _ Inr[unfolded y]] 2(3) by simp
    then have h: "handle_signal env ev s c = (Inr (), c\<lparr>c_scorer := sc\<rparr>)"
      using Inr y dll_only_quiet by (simp add: handle_signal_def Let_def)
    show ?thesis using 2(1)[OF h[symmetric] refl] d 2(3) h by simp
  qed
qed simp

fun process_all :: "(cenv \<times> event) list \<Rightarrow> consumer \<Rightarrow> consumer" where
  "process_all [] c = c"
| "process_all ((env, e) # es) c = process_all es (snd (process_event env e c))"

text \<open>Through the whole pipeline, image loads that are not reflective never suspend or quarantine anything:
  with no rule of its own, a consumer that starts with an empty scorer and sees any number of such
  loads, by any processes and with any anomalies, leaves processes, files and driver alone and
  announces no response.\<close>
lemma image_loads_never_answered:
  assumes "c_rules c = []" and "subj_map (c_scorer c) = []"
    and "\<forall>(env, e) \<in> set es. event_type e = ''image_load'' \<and> \<not> reflective (load_context e)"
  shows "announced (process_all es c) = announced c \<and> c_world (process_all es c) = c_world c"
proof -
  have "dll_only (c_scorer c)" using assms(2) by (simp add: dll_only_def)
  from this assms(1,3) show ?thesis
  proof (induction es arbitrary: c)
    case (Cons ee es)
    obtain env e where ee: "ee = (env, e)" by fastforce
    have t: "event_type e = ''image_load''" "\<not> reflective (load_context e)" using Cons.prems(3) ee by auto
    obtain sigs c1 where d: "detect env e (track_start e c) = (sigs, c1)" by fastforce
    note fr = detect_frame[OF d]
    have "sigs = fst (score_dll_load (ce_now env) (load_context e) (trusted_publishers (track_start e c))
        (trusted_hashes (track_start e c)) (c_reputation (track_start e c)))"
      using d t(1) Cons.prems(2) by (auto simp: detect_def load_signals_def split: prod.splits)
    then have "\<forall>x \<in> set sigs. is_dll_kind (kind x) \<and> kind x \<noteq> ''dll_reflective''"
      using load_kinds[OF t(2)] by blast
    note q = quiet_signals[of c1 sigs env "Some e", OF _ this]
    have "snd (process_event env e c) = snd (handle_signals env (Some e) sigs c1)"
      using t d by (simp add: process_event_def is_exit_def split: prod.split sum.split)
    with q fr Cons.prems(1,2) Cons.IH[of "snd (process_event env e c)"] Cons.prems(3) ee show ?case by auto
  qed simp
qed

section \<open>Answers\<close>

lemma quarantine_process_procs:
  assumes "suspend_process env p (w_procs w) = (None, ps)"
  shows "w_procs (snd (quarantine_process env p why sigs sc given w)) = ps"
proof -
  let ?img = "image_to_quarantine env p given"
  obtain r w2 where q: "quarantine_image env p why sigs sc ?img (w\<lparr>w_procs := ps\<rparr>) = (r, w2)" by fastforce
  have w2: "w_procs w2 = ps" using quarantine_image_frame(1)[OF q] by simp
  show ?thesis
  proof (cases r)
    case (Inl x)
    with q w2 assms show ?thesis by (simp add: quarantine_process_def Let_def)
  next
    case (Inr qrec)
    obtain ri w4 where a: "publish_audit env p why ?img qrec (push_block env ?img w2) = (ri, w4)" by fastforce
    have "w_procs w4 = ps" using audit_published(2)[OF a] w2 by simp
    with Inr q a assms show ?thesis by (simp add: quarantine_process_def Let_def split: sum.split)
  qed
qed

lemma respond_process_world:
  "c_world (snd (respond_process env p sig ev sc sigs c)) =
     snd (quarantine_process (ce_resp env) p (reason sig) sigs (Some (c_scorer c))
       (case ev of None \<Rightarrow> None | Some e \<Rightarrow> if pid e = Some p then opt_text (image_path e) else None) (c_world c))"
  by (simp add: respond_process_def Let_def split: prod.split sum.split)

text \<open>C13: a threat is answered: when the scorer, after recording a signal about a process, says that it may be
  responded to, the process has not been answered before, automatic responses are on and Windows lets
  Sentinel suspend it, then it is suspended once more, whatever becomes of its image, the driver and the
  notification.\<close>
theorem threat_is_suspended:
  assumes "add_signal (ce_now env) sig (c_scorer c) = Inr (ss, sc)" and "should_respond (subject sig) sc"
    and "subject sig = pid_subject p" and "0 < p" and "auto_respond c"
    and "subject sig \<notin> responded_subjects c"
    and "suspend_process (ce_resp env) p (w_procs (c_world c)) = (None, ps)"
    and "handle_signal env ev sig c = (r, c')"
  shows "w_procs (c_world c') = (w_procs (c_world c))(c_uint32 p := w_procs (c_world c) (c_uint32 p) + 1)
    \<and> announced c' = announced c @ [pid_subject p] \<and> pid_subject p \<in> responded_subjects c'"
proof -
  let ?c = "c\<lparr>c_scorer := sc, responded_subjects := insert (subject sig) (responded_subjects c)\<rparr>"
  have c': "c' = snd (execute_response env (subject sig) sig ev ?c)"
    using assms by (auto simp: handle_signal_def Let_def)
  have n: "startswith (pid_subject p) ''pid:''" "parse_int (drop 4 (pid_subject p)) = Inr p"
    by (simp_all add: pid_subject_def startswith_def)
  have "c_world c' = c_world (snd (respond_process env p sig ev
      (case scorer_get (subject sig) sc of None \<Rightarrow> 0 | Some ss \<Rightarrow> total ss)
      (map VStr (case scorer_get (subject sig) sc of None \<Rightarrow> [kind sig] | Some ss \<Rightarrow> map kind (signals ss)))
      (announce (subject sig) ?c)))"
    using n assms(3,4) unfolding c' by (simp add: execute_response_def Let_def)
  then have "w_procs (c_world c') = ps"
    using assms(7) by (simp add: respond_process_world quarantine_process_procs announce_def)
  moreover have "ps = (w_procs (c_world c))(c_uint32 p := w_procs (c_world c) (c_uint32 p) + 1)"
    using suspend_result[OF assms(7)] by auto
  ultimately show ?thesis using assms(3) unfolding c' by (simp add: execute_frame)
qed

text \<open>A file that the user has restored from quarantine is left alone: when its present content has the
  digest of a restored record, an automatic response to a signal about the file does not touch it, the
  store, the driver or the user.\<close>
lemma restored_file_left_alone:
  assumes "handle_signal env (Some e) sig c = (r, c')" and "\<not> startswith (subject sig) ''pid:''"
    and "image_path e = Some f" and "f \<noteq> []" and "is_file (q_os (r_quarantine (ce_resp env))) f (w_fs (c_world c))"
    and "w_store (c_world c) = Some q"
    and "is_restored (sha256_of (r_quarantine (ce_resp env)) f (w_fs (c_world c))) q"
  shows "c_world c' = c_world c \<and> c_shown c' = c_shown c \<and> c_notifier c' = c_notifier c"
  using assms
  by (auto simp: handle_signal_def execute_response_def respond_file_def announce_def event_file_def opt_text_def
      was_restored_def Let_def split: sum.splits prod.splits if_splits)

text \<open>A subject that carries the start time of its process is taken for a file: the process is not
  suspended.\<close>

lemma timed_subject_not_suspended:
  "c_world (snd (execute_response env (format_pid_subject 7 (Some 100)) sig None c)) = c_world c"
proof -
  have "parse_int (drop 4 (format_pid_subject 7 (Some 100))) = Inl ValueError"
    by (simp add: format_pid_subject_def) code_simp
  then show ?thesis
    by (simp add: execute_response_def respond_file_def announce_def Let_def)
qed

section \<open>Instances\<close>

definition demo_cenv :: cenv where
  "demo_cenv = \<lparr>ce_now = 5, ce_classify = \<lambda>e. Inr [], ce_resp = demo_resp,
     ce_channels = \<lparr>toast_shows = \<lambda>a n. False, balloon_shows = \<lambda>a n. True\<rparr>,
     ce_procs = \<lparr>pid_list = None, running = \<lambda>p. False, openable = \<lambda>p. False, reading = \<lambda>p. None\<rparr>\<rparr>"

definition demo_settings :: settings where
  "demo_settings = \<lparr>file_write_rate_per_min = None, file_entropy_alert = None, cpu_sustained_percent = None,
     cpu_sustained_seconds = None, failed_login_count = None, failed_login_window_seconds = None,
     set_trusted_publishers = [], set_trusted_hashes = []\<rparr>"

definition demo_consumer :: consumer where
  "demo_consumer = new_consumer demo_settings True [] (new_scorer 80 600 10000)
     (new_notifier ''Sentinel'' 3 False) demo_world"

definition demo_event :: "string \<Rightarrow> event" where
  "demo_event t = \<lparr>timestamp = ''t'', source = ''etw_process'', event_type = t, pid = Some 7, parent_pid = None,
     image_path = Some ''/a/x'', command_line = None, hash_sha256 = None, extra = []\<rparr>"

definition demo_signal :: "string \<Rightarrow> signal" where
  "demo_signal s = mk_signal 5 ''yara_match'' s ''seen'' ''test'' (Some 90) None"

lemma demo_consumer_simps [simp]:
  "c_rules demo_consumer = []" "subj_map (c_scorer demo_consumer) = []" "c_world demo_consumer = demo_world"
  "announced demo_consumer = []" "responded_subjects demo_consumer = {}" "auto_respond demo_consumer"
  "c_scorer demo_consumer = new_scorer 80 600 10000"
  by (simp_all add: demo_consumer_def new_consumer_def new_scorer_def)

theorem one_response_per_life_witness:
  "\<exists>c. chist demo_consumer [7] c \<and> count_list (announced c) ''pid:7'' \<le> 2"
proof -
  have x: "is_exit (demo_event ''process_exit'')" "pid (demo_event ''process_exit'') = Some 7"
    by (simp_all add: is_exit_def demo_event_def)
  obtain r c where "process_event demo_cenv (demo_event ''process_exit'') demo_consumer = (r, c)" by fastforce
  from h_event[OF h_start this] x have h: "chist demo_consumer [7] c" by simp
  have "pid_subject 7 = ''pid:7''" by code_simp
  then have "filter (\<lambda>p. covers p ''pid:7'') [7] = [7]" by (simp add: covers_def)
  with one_response_per_life[OF h[unfolded demo_consumer_def], of "''pid:7''"] h show ?thesis by auto
qed

lemma exit_forgets_process_witness:
  "c_world (snd (process_event demo_cenv (demo_event ''process_exit'') demo_consumer)) = demo_world"
  using exit_forgets_process[of "demo_event ''process_exit''" 7 demo_cenv demo_consumer]
  by (simp add: is_exit_def demo_event_def prod_eq_iff)

lemma image_loads_never_answered_witness:
  "announced (process_all [(demo_cenv, demo_event ''image_load''), (demo_cenv, demo_event ''image_load'')]
     demo_consumer) = []"
  using image_loads_never_answered[of demo_consumer
      "[(demo_cenv, demo_event ''image_load''), (demo_cenv, demo_event ''image_load'')]"]
  by (simp add: load_context_def demo_event_def dict_get_or_def new_scorer_def)

theorem threat_is_suspended_witness:
  "w_procs (c_world (snd (handle_signal demo_cenv None (demo_signal ''pid:1'') demo_consumer))) 1 = 1"
proof -
  have s: "subject (demo_signal ''pid:1'') = ''pid:1''" by (simp add: demo_signal_def mk_signal_def)
  have n: "pid_subject 1 = ''pid:1''" by code_simp
  obtain ss sc where a: "add_signal (ce_now demo_cenv) (demo_signal ''pid:1'') (c_scorer demo_consumer) = Inr (ss, sc)"
    "should_respond ''pid:1'' sc"
    by (simp add: add_signal_def evict_oldest_def new_scorer_def subject_or_new_def new_subject_def subject_add_def
        demo_signal_def mk_signal_def effective_weight_def should_respond_def is_dll_kind_def startswith_def Let_def)
  have p: "suspend_process (ce_resp demo_cenv) 1 (w_procs (c_world demo_consumer)) = (None, (\<lambda>p. 0)(1 := 1))"
    by (simp add: suspend_process_def demo_cenv_def demo_resp_def demo_world_def c_uint32_def)
  show ?thesis
    using threat_is_suspended[OF a(1) _ _ _ _ _ p, of None "fst (handle_signal demo_cenv None (demo_signal ''pid:1'') demo_consumer)"
        "snd (handle_signal demo_cenv None (demo_signal ''pid:1'') demo_consumer)"] a(2) s n
    by (simp add: c_uint32_def demo_world_def)
qed

definition restored_world :: world where
  "restored_world = demo_world\<lparr>w_store := Some (demo_vault\<lparr>Quarantine.rows := [demo_row\<lparr>q_decision := restored_text\<rparr>]\<rparr>)\<rparr>"

lemma restored_file_left_alone_witness:
  "c_world (snd (handle_signal demo_cenv (Some (demo_event ''file_write'')) (demo_signal ''/a/x'')
     (demo_consumer\<lparr>c_world := restored_world\<rparr>))) = restored_world"
proof -
  have s: "subject (demo_signal ''/a/x'') = ''/a/x''" by (simp add: demo_signal_def mk_signal_def)
  have e: "image_path (demo_event ''file_write'') = Some ''/a/x''" by (simp add: demo_event_def)
  have f: "is_file (q_os demo_env) ''/a/x'' demo_files" "sha256_of demo_env ''/a/x'' demo_files = ''hMZ''"
    by (simp_all add: demo_files_def sha256_of_def read_bytes_def is_file_def find_file_def new_file_def)
  have w: "w_store restored_world = Some (demo_vault\<lparr>Quarantine.rows := [demo_row\<lparr>q_decision := restored_text\<rparr>]\<rparr>)"
    "w_fs restored_world = demo_files"
    by (simp_all add: restored_world_def demo_world_def)
  have q: "r_quarantine (ce_resp demo_cenv) = demo_env" by (simp add: demo_cenv_def demo_resp_def)
  show ?thesis
    using restored_file_left_alone[of demo_cenv "demo_event ''file_write''" "demo_signal ''/a/x''"
        "demo_consumer\<lparr>c_world := restored_world\<rparr>" _ _ "''/a/x''"] s e f w q
    by (simp add: prod_eq_iff startswith_def is_restored_def demo_row_def)
qed

end
