(* ===== verification/Service.thy ===== *)
theory Service
  imports Ipc Consumer
begin

text \<open>
  The service that runs all parts, \<open>service.py\<close>, and the process that watches it, \<open>watchdog_svc.py\<close>. The
  orchestrator's life is its start, the commands that clients send, and its clean-up, whatever raised; the
  watchdog is its sequence of polls. Whether a thread, a sensor or a system call works is a parameter.
\<close>

section \<open>The orchestrator\<close>

record orchestrator =
  o_bus :: "bus option"
  o_bridge :: "bridge option"
  o_store :: "qstore option"
  o_canaries :: "canary_manager option"
  o_ipc :: bool
  o_sensors :: "string list"
  o_stop :: bool
  o_asked :: "string list"

definition new_orchestrator :: orchestrator where
  "new_orchestrator =
     \<lparr>o_bus = None, o_bridge = None, o_store = None, o_canaries = None, o_ipc = False, o_sensors = [],
      o_stop = False, o_asked = []\<rparr>"

record service_env =
  se_qenv :: qenv
  se_driver :: driver_env
  se_home :: string
  se_pid :: int
  se_pid_file :: string
  se_data_dir :: string
  se_quarantine_dir :: string
  se_platform :: string
  se_fanotify :: bool
  se_bus_opens :: bool
  se_consumer_starts :: bool
  se_ipc_starts :: bool
  se_sensor_starts :: "string \<Rightarrow> bool"

abbreviation se_os :: "service_env \<Rightarrow> os" where
  "se_os env \<equiv> q_os (se_qenv env)"

abbreviation se_sha :: "service_env \<Rightarrow> bytes \<Rightarrow> string" where
  "se_sha env \<equiv> q_sha_of (se_qenv env)"

definition write_pid :: "service_env \<Rightarrow> fs \<Rightarrow> fs py_result" where
  "write_pid env s =
     (case make_dirs (se_os env) (parent_of (seps (se_os env)) (se_pid_file env)) s of
        Inl e \<Rightarrow> Inl OSError
      | Inr s1 \<Rightarrow>
          (case write_bytes (se_os env) (se_pid_file env) (show_int (se_pid env)) s1 of
             Inl e \<Rightarrow> Inl OSError
           | Inr s2 \<Rightarrow> Inr s2))"

definition remove_pid :: "service_env \<Rightarrow> fs \<Rightarrow> fs py_result" where
  "remove_pid env s =
     (case unlink (se_os env) (se_pid_file env) s of Inl e \<Rightarrow> Inl OSError | Inr s' \<Rightarrow> Inr s')"

definition init_kernel_bridge :: "driver_env \<Rightarrow> bridge option" where
  \<comment> \<open>an exception of \<open>connect\<close> or \<open>get_status\<close> leaves the service without a bridge\<close>
  "init_kernel_bridge env =
     (case connect env (new_bridge sentinel_port_name) of
        (Inl e, b) \<Rightarrow> None
      | (Inr ok, b) \<Rightarrow>
          if ok then (case KernelBridge.get_status env b of Inl e \<Rightarrow> None | Inr st \<Rightarrow> Some b) else Some b)"

definition init_detection_consumer :: "service_env \<Rightarrow> fs \<Rightarrow> qstore option \<times> fs" where
  \<comment> \<open>the consumer's store, if the consumer starts\<close>
  "init_detection_consumer env s =
     (case new_qstore (se_qenv env) (se_quarantine_dir env) s of
        Inl e \<Rightarrow> (None, s)
      | Inr (q, s') \<Rightarrow> (if se_consumer_starts env then Some q else None, s'))"

definition sensor_choice :: "string \<Rightarrow> bool \<Rightarrow> string list" where
  \<comment> \<open>the sensors a platform has, in the order of their start\<close>
  "sensor_choice plat fan =
     [if plat = ''darwin'' then ''fsevents'' else if plat = ''linux'' \<and> fan then ''fanotify'' else ''fs'',
      ''network'']
     @ (if plat = ''windows'' then [''etw'', ''eventlog'']
        else if plat = ''linux'' then [''audit'', ''journald'']
        else if plat = ''darwin'' then [''macos_log''] else [])"

definition start_sensors :: "service_env \<Rightarrow> string list" where
  "start_sensors env = filter (se_sensor_starts env) (sensor_choice (se_platform env) (se_fanotify env))"

definition init_components :: "service_env \<Rightarrow> orchestrator \<Rightarrow> fs \<Rightarrow> py_exc option \<times> orchestrator \<times> fs" where
  "init_components env o1 s =
     (case make_dirs (se_os env) (se_data_dir env) s of
        Inl e \<Rightarrow> (Some OSError, o1, s)
      | Inr s1 \<Rightarrow>
          if \<not> se_bus_opens env then (Some DatabaseError, o1, s1)
          else
            (case init_detection_consumer env s1 of
               (st, s2) \<Rightarrow>
                 (case arm_traps (se_sha env) (se_os env) (new_manager (se_os env) (se_home env) [] s2) s2 of
                    (n, m, s3) \<Rightarrow>
                      (None,
                       o1\<lparr>o_bus := Some (new_bus 10000 50), o_bridge := init_kernel_bridge (se_driver env),
                          o_store := st, o_canaries := Some m, o_ipc := se_ipc_starts env,
                          o_sensors := start_sensors env\<rparr>, s3))))"

section \<open>Commands of the clients\<close>

definition bridge_status :: "service_env \<Rightarrow> orchestrator \<Rightarrow> pyval" where
  "bridge_status env o1 =
     (case o_bridge o1 of
        None \<Rightarrow> VDict []
      | Some b \<Rightarrow>
          (case KernelBridge.get_status (se_driver env) b of
             Inl e \<Rightarrow> VDict []
           | Inr d \<Rightarrow> VDict (map (\<lambda>(k, w). (k, VInt (uint w))) d)))"

definition handle_ipc_command :: "service_env \<Rightarrow> (orchestrator \<times> fs) handler" where
  "handle_ipc_command env req st =
     (case (req, st) of
        (VDict d, (o1, s)) \<Rightarrow>
          let cmd = dict_get d ''cmd''; inactive = status_error ''canary engine not active'' in
          if cmd = VStr ''ping'' then
            (Inr (VDict [(''status'', VStr ''ok''), (''pong'', VBool True), (''service'', VStr ''running''),
                         (''version'', VStr ''1.0.0'')]), st)
          else if cmd = VStr ''get_status'' then
            (Inr (VDict [(''status'', VStr ''ok''), (''service'', VStr ''running''), (''pid'', VInt (se_pid env)),
                         (''shield'', VStr ''GREEN''), (''kernel_driver'', bridge_status env o1),
                         (''canary_traps'', case o_canaries o1 of None \<Rightarrow> VDict [] | Some m \<Rightarrow> VDict (Canary.get_status m)),
                         (''sensors_active'', VInt (int (length (o_sensors o1)))),
                         \<comment> \<open>counted only if the consumer has an attribute \<open>_quarantine_store\<close>; it has none\<close>
                         (''quarantine_pending'', VInt 0)]), st)
          else if cmd = VStr ''verify_canaries'' then
            (case o_canaries o1 of
               None \<Rightarrow> (Inr inactive, st)
             | Some m \<Rightarrow>
                 let ts = verify_all_canaries (se_sha env) (se_os env) m s in
                 (Inr (VDict [(''status'', VStr ''ok''), (''tampered_count'', VInt (int (length ts))),
                              (''tampered'', VList (map (\<lambda>(t, r). VDict [(''path'', VStr (trap_path t)), (''reason'', VStr r)]) ts))]),
                  st))
          else if cmd = VStr ''rearm_canaries'' then
            (case o_canaries o1 of
               None \<Rightarrow> (Inr inactive, st)
             | Some m \<Rightarrow>
                 (case repair_canaries (se_sha env) (se_os env) m s of
                    (n, m', s') \<Rightarrow>
                      (Inr (VDict [(''status'', VStr ''ok''), (''repaired_count'', VInt n)]),
                       (o1\<lparr>o_canaries := Some m'\<rparr>, s'))))
          else (Inr (status_error (''unknown command: '' @ py_str cmd)), st)
      | _ \<Rightarrow> (Inl AttributeError, st))"

section \<open>Running and stopping\<close>

definition clean_up :: "service_env \<Rightarrow> orchestrator \<Rightarrow> fs \<Rightarrow> py_exc option \<times> orchestrator \<times> fs" where
  \<comment> \<open>\<open>o_asked\<close> lists the parts whose \<open>stop\<close> was called, in that order; what a \<open>stop\<close> raises is only logged\<close>
  "clean_up env o1 s =
     (let o2 = o1\<lparr>o_asked := o_asked o1 @ (if o_ipc o1 then [''ipc''] else [])
                              @ (if o_store o1 \<noteq> None then [''consumer''] else []) @ o_sensors o1,
                   o_ipc := False, o_bridge := map_option disconnect (o_bridge o1)\<rparr>;
          (o3, s1) = (case o_canaries o2 of
                        None \<Rightarrow> (o2, s)
                      | Some m \<Rightarrow> (case disarm_traps (se_os env) m s of (m', s') \<Rightarrow> (o2\<lparr>o_canaries := Some m'\<rparr>, s')));
          o4 = o3\<lparr>o_bus := map_option close (o_bus o3)\<rparr>
      in case remove_pid env s1 of Inl e \<Rightarrow> (Some e, o4, s1) | Inr s2 \<Rightarrow> (None, o4, s2))"

datatype life_event = Command pyval | StopRequest | Interrupt

fun run_loop ::
  "service_env \<Rightarrow> life_event list \<Rightarrow> orchestrator \<times> fs \<Rightarrow> pyval py_result list \<times> (orchestrator \<times> fs)" where
  \<comment> \<open>what happens while the main thread waits for the stop event, and the answers of the command handler\<close>
  "run_loop env [] st = ([], st)"
| "run_loop env (StopRequest # es) (o1, s) = ([], (o1\<lparr>o_stop := True\<rparr>, s))"
| "run_loop env (Interrupt # es) st = ([], st)"
| "run_loop env (Command req # es) st =
     (case handle_ipc_command env req st of
        (r, st1) \<Rightarrow> (case run_loop env es st1 of (rs, st2) \<Rightarrow> (r # rs, st2)))"

definition orchestrator_start ::
  "service_env \<Rightarrow> life_event list \<Rightarrow> orchestrator \<Rightarrow> fs
    \<Rightarrow> py_exc option \<times> pyval py_result list \<times> orchestrator \<times> fs" where
  \<comment> \<open>the exception of the whole call, if any, and the answers given; the clean-up follows in every case but a
    failure to write the PID file; a keyboard interrupt goes on to the caller, which takes it for the end\<close>
  "orchestrator_start env es o1 s =
     (case write_pid env s of
        Inl e \<Rightarrow> (Some e, [], o1, s)
      | Inr s1 \<Rightarrow>
          (case init_components env o1 s1 of
             (Some e, o2, s2) \<Rightarrow>
               (case clean_up env o2 s2 of (r, o3, s3) \<Rightarrow> (Some (case r of None \<Rightarrow> e | Some e' \<Rightarrow> e'), [], o3, s3))
           | (None, o2, s2) \<Rightarrow>
               (case run_loop env es (o2, s2) of
                  (rs, o3, s3) \<Rightarrow> (case clean_up env o3 s3 of (r, o4, s4) \<Rightarrow> (r, rs, o4, s4)))))"

section \<open>The watchdog\<close>

record poll_env =
  pe_pid_file :: "string option"
  pe_pid_exists :: "int \<Rightarrow> bool"
  pe_scm_state :: "int option"
  pe_starts :: bool
  pe_now :: real

definition read_pid :: "string option \<Rightarrow> int option" where
  \<comment> \<open>of the text of the PID file; \<open>None\<close> if it is missing or unreadable\<close>
  "read_pid f =
     (case f of
        None \<Rightarrow> None
      | Some t \<Rightarrow> if strip t = [] then None else (case parse_int (strip t) of Inl e \<Rightarrow> None | Inr i \<Rightarrow> Some i))"

definition service_running :: "poll_env \<Rightarrow> bool" where
  \<comment> \<open>\<open>pe_scm_state\<close> is the state the service control manager answers, if it answers; 4 is SERVICE_RUNNING\<close>
  "service_running env \<longleftrightarrow> pe_scm_state env = Some 4"

definition check_alive :: "poll_env \<Rightarrow> bool" where
  "check_alive env \<longleftrightarrow>
     (case read_pid (pe_pid_file env) of
        None \<Rightarrow> True
      | Some p \<Rightarrow> pe_pid_exists env p \<or> service_running env)"

record watchdog =
  wd_last_restart :: real
  wd_notices :: "real list"
  wd_restarts :: "real list"

definition new_watchdog :: watchdog where
  "new_watchdog = \<lparr>wd_last_restart = 0, wd_notices = [], wd_restarts = []\<rparr>"

definition restart_cooldown :: real where
  "restart_cooldown = 30"

definition handle_death :: "poll_env \<Rightarrow> watchdog \<Rightarrow> watchdog" where
  "handle_death env w =
     (let now = pe_now env in
      if now - wd_last_restart w < restart_cooldown then w
      else
        let w1 = w\<lparr>wd_notices := wd_notices w @ [now]\<rparr>
        in if pe_starts env then w1\<lparr>wd_restarts := wd_restarts w @ [now], wd_last_restart := now\<rparr> else w1)"

definition watchdog_poll :: "poll_env \<Rightarrow> watchdog \<Rightarrow> watchdog" where
  "watchdog_poll env w = (if check_alive env then w else handle_death env w)"

fun watchdog_loop :: "poll_env list \<Rightarrow> watchdog \<Rightarrow> watchdog" where
  "watchdog_loop [] w = w"
| "watchdog_loop (env # envs) w = watchdog_loop envs (watchdog_poll env w)"

section \<open>The handler answers every object\<close>

lemma json_ok_status_error [simp]: "json_ok (status_error msg)"
  by (simp add: status_error_def)

lemma json_ok_canary_status: "json_ok (VDict (Canary.get_status m))"
  by (auto simp: Canary.get_status_def list_all_iff)

lemma json_ok_bridge_status: "json_ok (bridge_status env o1)"
  by (auto simp: bridge_status_def KernelBridge.get_status_def hresult_def
      split: option.split sum.splits if_splits prod.splits)

lemma handle_answers:
  "\<exists>resp st'. handle_ipc_command env (VDict d) st = (Inr resp, st') \<and> json_ok resp"
proof -
  obtain o1 s where st: "st = (o1, s)" by fastforce
  have can: "json_ok (case o_canaries o1 of None \<Rightarrow> VDict [] | Some m \<Rightarrow> VDict (Canary.get_status m))"
    using json_ok_canary_status by (simp split: option.split)
  have ts: "list_all json_ok (map (\<lambda>(t, r). VDict [(''path'', VStr (trap_path t)), (''reason'', VStr r)]) xs)" for xs
    by (auto simp: list_all_iff)
  let ?c = "dict_get d ''cmd''"
  consider "?c = VStr ''ping''" | "?c = VStr ''get_status''" | "?c = VStr ''verify_canaries''"
    | "?c = VStr ''rearm_canaries''"
    | "?c \<noteq> VStr ''ping''" "?c \<noteq> VStr ''get_status''" "?c \<noteq> VStr ''verify_canaries''" "?c \<noteq> VStr ''rearm_canaries''"
    by blast
  then show ?thesis
  proof cases
    case 3
    then show ?thesis using ts by (cases "o_canaries o1") (simp_all add: handle_ipc_command_def st Let_def)
  next
    case 4
    show ?thesis
    proof (cases "o_canaries o1")
      case None
      then show ?thesis using 4 by (simp add: handle_ipc_command_def st)
    next
      case (Some m)
      obtain n m' s' where "repair_canaries (se_sha env) (se_os env) m s = (n, m', s')" by (metis prod.collapse)
      then show ?thesis using 4 Some by (simp add: handle_ipc_command_def st)
    qed
  qed (use can json_ok_bridge_status in \<open>simp_all add: handle_ipc_command_def st\<close>)
qed

interpretation svc: answering "handle_ipc_command env" for env
  by unfold_locales (rule handle_answers)


section \<open>Cleaning up\<close>

lemma disarm_traps_empty: "canaries (fst (disarm_traps os m s)) = []"
  by (simp add: disarm_traps_def)

definition at_rest :: "orchestrator \<Rightarrow> bool" where
  "at_rest o1 \<longleftrightarrow>
     \<not> o_ipc o1 \<and> (o_store o1 = None \<or> ''consumer'' \<in> set (o_asked o1)) \<and> set (o_sensors o1) \<subseteq> set (o_asked o1)
     \<and> (case o_bridge o1 of None \<Rightarrow> True | Some b \<Rightarrow> \<not> connected b \<and> \<not> handle b)
     \<and> (case o_canaries o1 of None \<Rightarrow> True | Some m \<Rightarrow> canaries m = [])
     \<and> (case o_bus o1 of None \<Rightarrow> True | Some b \<Rightarrow> \<not> is_open b)"

lemma clean_up_rest:
  assumes "clean_up env o1 s = (r, o2, s')"
  shows "at_rest o2"
proof -
  obtain m' s1 where "o_canaries o1 = None \<or> (\<exists>m. o_canaries o1 = Some m \<and> disarm_traps (se_os env) m s = (m', s1))"
    by (cases "o_canaries o1") (auto intro: prod.exhaust)
  then show ?thesis
    using assms disarm_traps_empty[of "se_os env" "the (o_canaries o1)" s]
    by (auto simp: clean_up_def at_rest_def Let_def disconnect_def close_def split: sum.splits option.splits prod.splits)
qed

lemma unlinked:
  assumes "unlink os p s = Inr s'" "\<not> is_link os p"
  shows "read_bytes os p s' = Inl ''not found''"
proof (cases "resolve os p")
  case (Some c)
  then show ?thesis using assms
    by (cases "files s c") (auto simp: unlink_def find_file_def read_bytes_def split: option.splits)
qed (simp add: read_bytes_def find_file_def)

definition pid_text :: "service_env \<Rightarrow> fs \<Rightarrow> string option" where
  \<comment> \<open>what the watchdog reads\<close>
  "pid_text env s = (case read_bytes (se_os env) (se_pid_file env) s of Inl e \<Rightarrow> None | Inr d \<Rightarrow> Some d)"

lemma clean_up_removes:
  assumes "clean_up env o1 s = (r, o2, s')" "\<not> is_link (se_os env) (se_pid_file env)"
    and "\<And>c. unlink_err (se_os env) c = None"
  shows "pid_text env s' = None"
proof -
  have w: "remove_pid env t \<noteq> Inl e" for t e
    using assms(3) by (auto simp: remove_pid_def unlink_def split: sum.splits option.splits if_splits)
  obtain s1 where "remove_pid env s1 = Inr s'"
    using assms(1) w by (cases "o_canaries o1") (auto simp: clean_up_def Let_def split: prod.splits sum.splits)
  then show ?thesis
    using unlinked[OF _ assms(2)] by (auto simp: remove_pid_def pid_text_def split: sum.splits)
qed

text \<open>C31: whatever happens during its life, an orchestrator that has written its PID file ends with its message server
  stopped, the consumer and every running sensor told to stop, the driver disconnected, the traps disarmed and the
  bus closed, also when it crashes.\<close>

theorem orchestrator_always_cleans_up:
  assumes "write_pid env s = Inr s0" "orchestrator_start env es o1 s = (r, rs, o2, s')"
  shows "at_rest o2"
  using assms clean_up_rest
  by (fastforce simp: orchestrator_start_def split: prod.splits option.splits)

text \<open>After an orchestrator has ended, by request or by an exception, the watchdog never notifies or restarts
  anything, whatever its polls find otherwise: the PID file that it takes for a sign of life is gone.\<close>

lemma crash_goes_unnoticed:
  assumes "write_pid env s = Inr s0" "orchestrator_start env es o1 s = (r, rs, o2, s')"
    and "\<not> is_link (se_os env) (se_pid_file env)" "unlink_err (se_os env) = (\<lambda>c. None)"
    and "list_all (\<lambda>e. pe_pid_file e = pid_text env s') polls"
  shows "watchdog_loop polls w = w"
proof -
  obtain o3 s3 r3 where "clean_up env o3 s3 = (r3, o2, s')"
    using assms(1,2) by (fastforce simp: orchestrator_start_def split: prod.splits option.splits)
  then have "pid_text env s' = None" using clean_up_removes assms(3,4) by simp
  then have "watchdog_poll e w = w" if "pe_pid_file e = pid_text env s'" for e
    using that by (simp add: watchdog_poll_def check_alive_def read_pid_def)
  then show ?thesis using assms(5) by (induction polls) simp_all
qed

section \<open>The watchdog\<close>

lemma show_int_strip: "strip (show_int i) = show_int i"
  by (rule strip_no_space) (use show_int_no_space in blast)

lemma show_int_not_nil: "show_int i \<noteq> []"
  by (simp add: show_int_def)

lemma written_pid:
  assumes "write_pid env s = Inr s'" "read_err (se_os env) = (\<lambda>c. None)"
  shows "pid_text env s' = Some (show_int (se_pid env))"
  using assms
  by (auto simp: write_pid_def write_bytes_def pid_text_def read_bytes_def find_file_def put_file_def Let_def
      split: sum.splits option.splits)

text \<open>A service that is killed while its PID file is there is announced and started again at the watchdog's first
  poll outside the cooldown.\<close>

lemma killed_service_restarted:
  assumes "write_pid env s = Inr s'" "read_err (se_os env) = (\<lambda>c. None)"
    and "pe_pid_file e = pid_text env s'" "\<not> pe_pid_exists e (se_pid env)" "pe_scm_state e \<noteq> Some 4"
    and "wd_last_restart w + 30 \<le> pe_now e" "pe_starts e"
  shows "watchdog_poll e w = w\<lparr>wd_notices := wd_notices w @ [pe_now e],
    wd_restarts := wd_restarts w @ [pe_now e], wd_last_restart := pe_now e\<rparr>"
proof -
  have "read_pid (pe_pid_file e) = Some (se_pid env)"
    using assms(3) written_pid[OF assms(1,2)] by (simp add: read_pid_def show_int_strip show_int_not_nil)
  then show ?thesis
    using assms(4-7)
    by (simp add: watchdog_poll_def check_alive_def service_running_def handle_death_def Let_def restart_cooldown_def)
qed

definition spaced :: "watchdog \<Rightarrow> bool" where
  "spaced w \<longleftrightarrow>
     sorted_wrt (\<lambda>a b. a + restart_cooldown \<le> b) (wd_restarts w)
     \<and> list_all (\<lambda>t. t \<le> wd_last_restart w) (wd_restarts w) \<and> set (wd_restarts w) \<subseteq> set (wd_notices w)"

lemma watchdog_poll_spaced: "spaced w \<Longrightarrow> spaced (watchdog_poll e w)"
  by (auto simp: spaced_def watchdog_poll_def handle_death_def Let_def restart_cooldown_def sorted_wrt_append list_all_iff)

text \<open>Over any sequence of polls, whatever the clock does, two restarts are at least 30 seconds apart, and each was
  announced.\<close>

lemma restarts_spaced:
  "sorted_wrt (\<lambda>a b. a + 30 \<le> b) (wd_restarts (watchdog_loop envs new_watchdog))
   \<and> set (wd_restarts (watchdog_loop envs new_watchdog)) \<subseteq> set (wd_notices (watchdog_loop envs new_watchdog))"
proof -
  have "spaced w \<Longrightarrow> spaced (watchdog_loop envs w)" for w
    by (induction envs arbitrary: w) (simp_all add: watchdog_poll_spaced)
  moreover have "spaced new_watchdog" by (simp add: spaced_def new_watchdog_def)
  ultimately show ?thesis by (simp add: spaced_def restart_cooldown_def)
qed

section \<open>Witnesses\<close>

definition demo_service :: service_env where
  "demo_service =
     \<lparr>se_qenv = \<lparr>q_os = \<lparr>seps = ''/'', resolve = Some, is_link = (\<lambda>p. False), read_err = (\<lambda>p. None),
          write_err = (\<lambda>p a. None), unlink_err = (\<lambda>p. None), mkdir_err = (\<lambda>p. None), chmod_err = (\<lambda>p. None),
          attr_api = False, attr_ok = (\<lambda>p. True), ace_ok = (\<lambda>p. True)\<rparr>,
        q_sha_of = (\<lambda>d. ''digest''), db_ok = True, clock_text = ''now'', clock = 0\<rparr>,
      se_driver = sample_driver, se_home = ''/home'', se_pid = 77, se_pid_file = ''/data/sentinel.pid'',
      se_data_dir = ''/data'', se_quarantine_dir = ''/data/quarantine'', se_platform = ''linux'', se_fanotify = False,
      se_bus_opens = False, se_consumer_starts = True, se_ipc_starts = True, se_sensor_starts = (\<lambda>n. True)\<rparr>"

definition no_files :: fs where
  "no_files = \<lparr>files = Map.empty, dirs = {}\<rparr>"

definition demo_end :: "py_exc option \<times> pyval py_result list \<times> orchestrator \<times> fs" where
  "demo_end = orchestrator_start demo_service [] new_orchestrator no_files"

lemma demo_write_pid: "\<exists>s0. write_pid demo_service no_files = Inr s0"
  by (simp add: write_pid_def demo_service_def no_files_def make_dirs_def write_bytes_def)

lemma demo_end_eq:
  "orchestrator_start demo_service [] new_orchestrator no_files
     = (fst demo_end, fst (snd demo_end), fst (snd (snd demo_end)), snd (snd (snd demo_end)))"
  by (simp add: demo_end_def)

lemma demo_crashes: "fst demo_end = Some DatabaseError"
  by (simp add: demo_end_def orchestrator_start_def init_components_def write_pid_def demo_service_def no_files_def
      make_dirs_def write_bytes_def clean_up_def new_orchestrator_def remove_pid_def unlink_def find_file_def
      split: option.split)

definition demo_poll :: "string option \<Rightarrow> poll_env" where
  "demo_poll f = \<lparr>pe_pid_file = f, pe_pid_exists = (\<lambda>p. False), pe_scm_state = Some 1, pe_starts = True, pe_now = 100\<rparr>"

theorem orchestrator_always_cleans_up_witness:
  "fst demo_end = Some DatabaseError \<and> at_rest (fst (snd (snd demo_end)))"
proof -
  obtain s0 where "write_pid demo_service no_files = Inr s0" using demo_write_pid by blast
  from orchestrator_always_cleans_up[OF this demo_end_eq] demo_crashes show ?thesis by blast
qed

lemma crash_goes_unnoticed_witness:
  "fst demo_end = Some DatabaseError
   \<and> watchdog_loop [demo_poll (pid_text demo_service (snd (snd (snd demo_end))))] new_watchdog = new_watchdog"
proof -
  obtain s0 where w: "write_pid demo_service no_files = Inr s0" using demo_write_pid by blast
  have "\<not> is_link (se_os demo_service) (se_pid_file demo_service)" "unlink_err (se_os demo_service) = (\<lambda>c. None)"
    by (simp_all add: demo_service_def)
  from crash_goes_unnoticed[OF w demo_end_eq this,
      of "[demo_poll (pid_text demo_service (snd (snd (snd demo_end))))]" new_watchdog]
  show ?thesis using demo_crashes by (simp add: demo_poll_def)
qed

lemma killed_service_restarted_witness:
  "\<exists>s'. write_pid demo_service no_files = Inr s'
     \<and> wd_restarts (watchdog_poll (demo_poll (pid_text demo_service s')) new_watchdog) = [100]"
proof -
  obtain s' where w: "write_pid demo_service no_files = Inr s'" using demo_write_pid by blast
  have "read_err (se_os demo_service) = (\<lambda>c. None)" by (simp add: demo_service_def)
  from killed_service_restarted[OF w this, of "demo_poll (pid_text demo_service s')" new_watchdog] w
  show ?thesis by (simp add: demo_poll_def new_watchdog_def)
qed


end
