(* ===== verification/CommandLine.thy ===== *)
theory CommandLine
  imports Service Scanner
begin

text \<open>
  \<open>cli_entry.py\<close>: the command line. A command prints lines and ends with an exit code or an exception; the
  argument parser of the standard library has made the record of arguments. The listing of a directory, the
  answer of the service, the classifier and the vault a command opens are parameters.
\<close>

section \<open>Output\<close>

type_synonym printed = "string list \<times> int py_result" \<comment> \<open>the lines and the exit code, or what is raised\<close>

definition ruler :: "char \<Rightarrow> nat \<Rightarrow> string" where
  "ruler c n = replicate n c"

definition pad_right :: "nat \<Rightarrow> string \<Rightarrow> string" where
  "pad_right n s = s @ replicate (n - length s) CHR '' ''"

function with_commas :: "nat \<Rightarrow> string" where
  \<comment> \<open>the format \<open>,\<close>\<close>
  "with_commas n = (if n < 1000 then show_nat n else with_commas (n div 1000) @ '','' @ zero_pad 3 (show_nat (n mod 1000)))"
  by pat_completeness auto
termination
  by (relation "measure id") auto

declare with_commas.simps [simp del]

fun severity_value :: "severity \<Rightarrow> string" where
  "severity_value LOW = ''low''"
| "severity_value MEDIUM = ''medium''"
| "severity_value HIGH = ''high''"
| "severity_value CRITICAL = ''critical''"

definition char_upper :: "char \<Rightarrow> char" where
  "char_upper c = (let n = (of_char c :: nat) in if 97 \<le> n \<and> n \<le> 122 then char_of (n - 32) else c)"

definition upper :: "string \<Rightarrow> string" where
  "upper s = map char_upper s"

definition py_prefix :: "int \<Rightarrow> 'a list \<Rightarrow> 'a list" where
  \<comment> \<open>\<open>xs[:n]\<close>\<close>
  "py_prefix n xs = (if n < 0 then take (length xs - nat (- n)) xs else take (nat n) xs)"

section \<open>Status\<close>

definition cmd_status :: "string \<Rightarrow> client_error + pyval \<Rightarrow> printed" where
  "cmd_status pipe answer =
     (let v = (case answer of Inl e \<Rightarrow> VNone | Inr x \<Rightarrow> x);
          unreachable = ([''[-] Could not connect to Sentinel service on '' @ pipe @ ''.'',
                          ''    Ensure the Sentinel background service is running.''], Inr 1) in
      if \<not> truthy v then unreachable
      else case v of
             VDict d \<Rightarrow>
               if dict_get d ''status'' \<noteq> VStr ''ok'' then unreachable
               else ([ruler CHR ''='' 60, ''           SENTINEL SERVICE STATUS'', ruler CHR ''='' 60,
                      ''  Status:          '' @ upper ''ok'',
                      ''  Shield State:    '' @ py_str (dict_get_or d ''shield'' (VStr ''UNKNOWN'')),
                      ''  Kernel Driver:   '' @ py_str (dict_get_or d ''driver'' (VStr ''disconnected'')),
                      ''  Canaries Armed:  '' @ py_str (dict_get_or d ''canaries_armed'' (VInt 0)),
                      ruler CHR ''='' 60], Inr 0)
           | _ \<Rightarrow> ([], Inl AttributeError))"

section \<open>Scan\<close>

record cli_env =
  cl_scan_env :: "nat \<Rightarrow> scan_env" \<comment> \<open>at the scan of the \<open>n\<close>-th file\<close>
  cl_rglob :: "string \<Rightarrow> string list"
  cl_classifier :: classifier
  cl_store :: "qstore option"

definition cl_os :: "cli_env \<Rightarrow> os" where
  "cl_os env = sc_os (cl_scan_env env 0)"

definition executables :: "cli_env \<Rightarrow> string \<Rightarrow> fs \<Rightarrow> string list" where
  "executables env target s =
     filter (\<lambda>f. is_file (cl_os env) f s
                 \<and> lower (path_suffix (seps (cl_os env)) f) \<in> {''.exe'', ''.dll'', ''.sys'', ''.scr''})
       (if is_file (cl_os env) target s then [target] else cl_rglob env target)"

definition threat_line :: "char list \<Rightarrow> string \<Rightarrow> detection \<Rightarrow> nat \<Rightarrow> string" where
  "threat_line sp f t nbytes =
     ''  '' @ pad_right 12 (''['' @ upper (severity_value (dt_severity t)) @ '']'') @ '' '' @
     pad_right 32 (take 32 (path_name sp f)) @ '' | '' @ dt_name t @ '' (Score: '' @ fmt_fixed 0 (dt_score t) @
     '') | Size: '' @ with_commas nbytes @ ''B''"

fun scan_each ::
  "cli_env \<Rightarrow> bool \<Rightarrow> nat \<Rightarrow> string list \<Rightarrow> scanner \<times> fs
     \<Rightarrow> (string list \<times> nat py_result \<times> fs) option" where
  \<comment> \<open>the lines, the number of threats and the file system; \<open>None\<close> when a scan does not return\<close>
  "scan_each env verbose k [] st = Some ([], Inr 0, snd st)"
| "scan_each env verbose k (f # fs) st =
     (case scan_file (cl_scan_env env k) f st of
        None \<Rightarrow> None
      | Some (Inl e, sc, s) \<Rightarrow> Some ([], Inl e, s)
      | Some (Inr (Some t), sc, s) \<Rightarrow>
          (case find_file (cl_os env) f s of
             None \<Rightarrow> Some ([], Inl OSError, s)
           | Some (c, x) \<Rightarrow>
               map_option (\<lambda>(ls, r, s'). (threat_line (seps (cl_os env)) f t (length (content x)) # ls,
                                          bind_res r (\<lambda>n. Inr (Suc n)), s'))
                 (scan_each env verbose (Suc k) fs (sc, s)))
      | Some (Inr None, sc, s) \<Rightarrow>
          map_option (\<lambda>(ls, r, s').
              ((if verbose then [''  [CLEAN]      '' @ pad_right 32 (take 32 (path_name (seps (cl_os env)) f)) @ '' | OK'']
                else []) @ ls, r, s'))
            (scan_each env verbose (Suc k) fs (sc, s)))"

definition cmd_scan :: "cli_env \<Rightarrow> string \<Rightarrow> bool \<Rightarrow> bool \<Rightarrow> fs \<Rightarrow> (printed \<times> fs) option" where
  "cmd_scan env path verbose dynamic s =
     (case resolve (cl_os env) path of
        None \<Rightarrow> Some (([], Inl OSError), s)
      | Some target \<Rightarrow>
          if \<not> path_exists (cl_os env) target s then Some (([''[-] Path not found: '' @ target], Inr 1), s)
          else let pes = executables env target s in
            if pes = [] then Some (([''[*] No PE executables found in '' @ target], Inr 0), s)
            else map_option (\<lambda>(ls, r, s').
                   (([ruler CHR ''='' 70,
                      ''  SENTINEL SCAN REPORT: '' @ show_nat (length pes) @ '' Executable(s) in '' @
                        path_name (seps (cl_os env)) target, ruler CHR ''='' 70] @ ls
                     @ (case r of
                          Inl e \<Rightarrow> []
                        | Inr n \<Rightarrow>
                            [ruler CHR ''-'' 70,
                             if n = 0 then ''  [+] Clean: 0 threats detected across all scanned files.''
                             else ''  [!] ALERT: '' @ show_nat n @ '' suspicious or malicious file(s) identified.'',
                             ruler CHR ''='' 70]),
                     (case r of Inl e \<Rightarrow> Inl e | Inr n \<Rightarrow> Inr (if 0 < n then 1 else 0))), s'))
                   (scan_each env verbose 0 pes
                      (new_scanner (cl_classifier env) (cl_store env) False (Some True) dynamic, s)))"

section \<open>Sandbox\<close>

definition report_lines :: "report \<Rightarrow> string list" where
  "report_lines r =
     [''  Duration      : '' @ fmt_fixed 2 (rp_duration r) @ ''s'',
      ''  Verdict       : '' @ (if report_malicious r then ''[CRITICAL MALICIOUS]''
                                else if report_suspicious r then ''[SUSPICIOUS]'' else ''[BENIGN / CLEAN]''),
      ''  Risk Score    : '' @ fmt_fixed 1 (rp_risk r) @ '' / 100'']
     @ (if rp_instructions r \<noteq> 0
        then [''  Instructions  : '' @ show_nat (rp_instructions r) @ '' emulated''] else [])
     @ (if rp_yara r \<noteq> [] then [''  Unpacked YARA : '' @ join '', '' (rp_yara r)] else [])
     @ (if rp_evasion r \<noteq> [] then [''  Evasion Flags : '' @ join '', '' (rp_evasion r)] else [])
     @ (if rp_api_calls r \<noteq> []
        then (''  API Calls     : '' @ show_nat (length (rp_api_calls r)) @ '' intercepted'')
               # map (\<lambda>(api, category, ret). ''    - '' @ api @ '' ('' @ category @ '') -> '' @ show_int ret)
                   (take 5 (rp_api_calls r))
        else [])
     @ (if rp_created r \<noteq> []
        then (''  Files Created : '' @ show_nat (length (rp_created r)))
               # map (\<lambda>f. ''    - '' @ f) (take 3 (rp_created r))
        else [])
     @ (if rp_reasons r \<noteq> []
        then (CHR 0x0A # ''  Findings:'') # map (\<lambda>x. ''    [!] '' @ x) (rp_reasons r) else [])
     @ [ruler CHR ''='' 70]"

definition cmd_sandbox :: "run_env \<Rightarrow> string \<Rightarrow> string \<Rightarrow> real \<Rightarrow> fs \<Rightarrow> printed \<times> fs" where
  "cmd_sandbox env path how seconds s =
     (case resolve (ru_os env) path of
        None \<Rightarrow> (([], Inl OSError), s)
      | Some target \<Rightarrow>
          if \<not> is_file (ru_os env) target s
          then (([''[!] Error: target file not found: '' @ target], Inr 1), s)
          else
            (let banner = [ruler CHR ''='' 70, ''  SENTINEL DYNAMIC SANDBOX STUDIO'',
                           ''  Target : '' @ path_name (seps (ru_os env)) target, ''  Mode   : '' @ upper how,
                           ruler CHR ''='' 70] in
             case analyze env (new_runner seconds 128 20) s target how of
               (Inl e, s') \<Rightarrow> ((banner, Inl e), s')
             | (Inr r, s') \<Rightarrow> ((banner @ report_lines r, Inr (if report_malicious r then 1 else 0)), s')))"

section \<open>Canaries and quarantine\<close>

definition cmd_canaries ::
  "(bytes \<Rightarrow> string) \<Rightarrow> os \<Rightarrow> string \<Rightarrow> bool \<Rightarrow> bool \<Rightarrow> fs \<Rightarrow> printed \<times> fs" where
  "cmd_canaries sha os home arm disarm s =
     (case arm_traps sha os (new_manager os home [] s) s of
        (n, m, s1) \<Rightarrow>
          if arm then (([''[+] Armed '' @ show_int n @ '' ransomware canary trap(s).''], Inr 0), s1)
          else if disarm then
            (([''[+] Disarmed and cleaned up all canary trap(s).''], Inr 0), snd (disarm_traps os m s1))
          else
            (let tripped = verify_all_canaries sha os m s1 in
             ((if tripped = []
               then [''[+] All ransomware canary traps are intact and armed ('' @
                     show_nat (length (canaries m)) @ '' honeypots active).'']
               else (''[!] RANSOMWARE ALERT: '' @ show_nat (length tripped) @
                     '' canary honeypot(s) have been tripped/modified!'')
                      # map (\<lambda>(t, reason). ''    - '' @ path_name (seps os) (trap_path t) @ '': '' @ reason) tripped,
               Inr 0), s1)))"

definition record_attributes :: "qrecord \<Rightarrow> (string, pyval) dict" where
  \<comment> \<open>the fields of \<open>QuarantineRecord\<close>\<close>
  "record_attributes r =
     [(''id'', VStr (q_id r)), (''subject'', VStr (q_subject r)), (''original_path'', VStr (q_original r)),
      (''quarantined_path'', VStr (q_path r)), (''reason'', VStr (q_reason r)), (''score'', VFloat (q_score r)),
      (''timestamp'', VStr (q_time r)), (''sha256'', VStr (q_sha r)), (''source_signals'', VList (q_signals r)),
      (''decision'', VStr (q_decision r)), (''notes'', VStr (q_notes r)),
      (''decided_at'', case q_decided r of None \<Rightarrow> VNone | Some t \<Rightarrow> VFloat t)]"

definition record_line :: "qrecord \<Rightarrow> string py_result" where
  "record_line r =
     (let attr = map_of (record_attributes r) in
      case (attr ''id'', attr ''score'', attr ''reason'', attr ''source_path'') of
        (Some (VStr i), Some (VFloat x), Some (VStr why), Some p) \<Rightarrow>
          Inr (''  ID: '' @ take 8 i @ '' | Score: '' @ fmt_fixed 1 x @ '' | Reason: '' @ take 35 why @
               '' | Path: '' @ py_str p)
      | _ \<Rightarrow> Inl AttributeError)"

fun print_records :: "qrecord list \<Rightarrow> string list \<times> unit py_result" where
  "print_records [] = ([], Inr ())"
| "print_records (r # rs) =
     (case record_line r of
        Inl e \<Rightarrow> ([], Inl e)
      | Inr l \<Rightarrow> (case print_records rs of (ls, x) \<Rightarrow> (l # ls, x)))"

definition cmd_quarantine :: "int \<Rightarrow> qstore \<Rightarrow> printed" where
  \<comment> \<open>the store has no \<open>list_records\<close>\<close>
  "cmd_quarantine limit q =
     (let records = py_prefix limit (list_all_rows q);
          banner = [ruler CHR ''='' 70,
                    ''  SENTINEL QUARANTINE VAULT ('' @ show_nat (length records) @ '' active records)'',
                    ruler CHR ''='' 70] in
      if records = [] then (banner @ [''  Quarantine vault is empty.'', ruler CHR ''='' 70], Inr 0)
      else case print_records records of
             (ls, Inl e) \<Rightarrow> (banner @ ls, Inl e)
           | (ls, Inr ()) \<Rightarrow> (banner @ ls @ [ruler CHR ''='' 70], Inr 0))"

section \<open>Dispatch\<close>

datatype cli_args =
    No_command | Status string | Scan string bool bool | Sandbox string string real | Canaries bool bool
  | Quarantined int

record cli_world =
  cw_cli :: cli_env
  cw_run :: run_env
  cw_answer :: "string \<Rightarrow> client_error + pyval"
  cw_sha :: "bytes \<Rightarrow> string"
  cw_home :: string
  cw_vault :: qstore
  cw_help :: "string list"

fun main_command :: "cli_world \<Rightarrow> cli_args \<Rightarrow> fs \<Rightarrow> (printed \<times> fs) option" where
  "main_command w No_command s = Some ((cw_help w, Inr 0), s)"
| "main_command w (Status pipe) s = Some (cmd_status pipe (cw_answer w pipe), s)"
| "main_command w (Scan path verbose dynamic) s = cmd_scan (cw_cli w) path verbose dynamic s"
| "main_command w (Sandbox path how seconds) s = Some (cmd_sandbox (cw_run w) path how seconds s)"
| "main_command w (Canaries arm disarm) s =
     Some (cmd_canaries (cw_sha w) (cl_os (cw_cli w)) (cw_home w) arm disarm s)"
| "main_command w (Quarantined limit) s = Some (cmd_quarantine limit (cw_vault w), s)"

section \<open>What the commands tell\<close>

text \<open>What the status command prints does not depend on the state of the service: to every orchestrator
  it reports a disconnected driver and no armed canary, since it asks the answer for keys that the service
  never gives.\<close>
lemma status_shows_no_state:
  "case handle_ipc_command env (VDict [(''cmd'', VStr ''get_status'')]) (o1, s) of
     (Inr v, st) \<Rightarrow> fst (cmd_status pipe (Inr v)) =
       [ruler CHR ''='' 60, ''           SENTINEL SERVICE STATUS'', ruler CHR ''='' 60,
        ''  Status:          OK'', ''  Shield State:    GREEN'', ''  Kernel Driver:   disconnected'',
        ''  Canaries Armed:  0'', ruler CHR ''='' 60]
   | (Inl e, st) \<Rightarrow> False"
proof -
  have "upper ''ok'' = ''OK''" "show_int 0 = ''0''" by code_simp+
  then show ?thesis
    by (simp add: handle_ipc_command_def cmd_status_def dict_get_def dict_get_or_def Let_def)
qed


lemma no_source_path: "record_line r = Inl AttributeError"
  by (simp add: record_line_def record_attributes_def)

text \<open>The listing of the vault fails as soon as it holds a record to show.\<close>

lemma quarantine_listing_fails:
  "py_prefix limit (list_all_rows q) \<noteq> [] \<Longrightarrow> snd (cmd_quarantine limit q) = Inl AttributeError"
  by (cases "py_prefix limit (list_all_rows q)") (simp_all add: cmd_quarantine_def no_source_path Let_def)

lemma scan_each_effect:
  "\<lbrakk>scan_each env verbose k fs (sc, s) = Some (ls, r, s'); sn_readonly sc\<rbrakk> \<Longrightarrow> s' = s"
proof (induction fs arbitrary: k sc ls r)
  case (Cons f fs)
  obtain d sc1 s1 where f: "scan_file (cl_scan_env env k) f (sc, s) = Some (d, sc1, s1)"
    using Cons.prems(1) by (auto split: option.splits)
  then have "s1 = s" "sn_readonly sc1" using scan_file_readonly[OF f Cons.prems(2)] by auto
  then show ?case using Cons.IH Cons.prems(1) f
    by (auto split: option.splits sum.splits prod.splits)
qed simp

fun threat_in :: "cli_env \<Rightarrow> nat \<Rightarrow> string list \<Rightarrow> scanner \<times> fs \<Rightarrow> bool" where
  \<comment> \<open>whether one of the scans, made one after the other, detects a threat\<close>
  "threat_in env k [] st = False"
| "threat_in env k (f # fs) st =
     (case scan_file (cl_scan_env env k) f st of
        Some (Inr (Some t), st') \<Rightarrow> True
      | Some (Inr None, st') \<Rightarrow> threat_in env (Suc k) fs st'
      | _ \<Rightarrow> False)"

lemma scan_each_counts:
  "scan_each env verbose k fs st = Some (ls, Inr n, s') \<Longrightarrow> 0 < n \<longleftrightarrow> threat_in env k fs st"
proof (induction fs arbitrary: k st ls n)
  case (Cons f fs)
  then show ?case by (auto simp: bind_res_Inr_iff split: option.splits sum.splits prod.splits)
qed simp

text \<open>C39: The scan command changes no file, whatever it finds and however it ends; and when it ends normally
  its exit code is 1 exactly when the path is missing or one of the executables is a threat.\<close>
theorem scan_command_reports_only:
  assumes "cmd_scan env path verbose dynamic s = Some ((ls, r), s')" "resolve (cl_os env) path = Some target"
  shows "s' = s \<and> (case r of
      Inl e \<Rightarrow> True
    | Inr code \<Rightarrow> code \<in> {0, 1} \<and> (code = 1 \<longleftrightarrow> \<not> path_exists (cl_os env) target s
        \<or> threat_in env 0 (executables env target s)
             (new_scanner (cl_classifier env) (cl_store env) False (Some True) dynamic, s)))"
proof -
  let ?sc = "new_scanner (cl_classifier env) (cl_store env) False (Some True) dynamic"
  have ro: "sn_readonly ?sc" by (simp add: new_scanner_def)
  show ?thesis
  proof (cases "\<not> path_exists (cl_os env) target s \<or> executables env target s = []")
    case True
    then show ?thesis using assms by (auto simp: cmd_scan_def Let_def split: if_splits)
  next
    case False
    then obtain ls1 x where x: "scan_each env verbose 0 (executables env target s) (?sc, s) = Some (ls1, x, s')"
      "r = (case x of Inl e \<Rightarrow> Inl e | Inr n \<Rightarrow> Inr (if 0 < n then 1 else 0))"
      using assms by (auto simp: cmd_scan_def Let_def)
    have "s' = s" by (rule scan_each_effect[OF x(1) ro])
    moreover have "0 < n \<longleftrightarrow> threat_in env 0 (executables env target s) (?sc, s)" if "x = Inr n" for n
      using scan_each_counts x(1) that by blast
    ultimately show ?thesis using x(2) False by (cases x) auto
  qed
qed

section \<open>Witnesses\<close>

definition demo_cli :: cli_env where
  "demo_cli =
     \<lparr>cl_scan_env = (\<lambda>n. demo_scan_env), cl_rglob = (\<lambda>p. []), cl_classifier = lure_class, cl_store = None\<rparr>"

lemma demo_cli_os: "cl_os demo_cli = StaticClassifier.se_os demo_senv"
  by (simp add: cl_os_def demo_cli_def demo_scan_os)

lemma demo_executables: "executables demo_cli ''a.pdf.exe'' lure_fs = [''a.pdf.exe'']"
proof -
  have "lower (path_suffix (seps (StaticClassifier.se_os demo_senv)) ''a.pdf.exe'') = ''.exe''"
    by (simp add: lure_file) code_simp
  then show ?thesis by (simp add: executables_def demo_cli_os lure_file)
qed

lemma demo_command:
  "\<exists>ls r. cmd_scan demo_cli ''a.pdf.exe'' False False lure_fs = Some ((ls, Inr r), lure_fs)"
proof -
  have e: "path_exists (StaticClassifier.se_os demo_senv) ''a.pdf.exe'' lure_fs"
    "\<exists>c f. find_file (StaticClassifier.se_os demo_senv) ''a.pdf.exe'' lure_fs = Some (c, f)"
    by (simp_all add: demo_senv_def lure_fs_def one_file_def win_env_def StaticClassifier.se_os_def file_defs)
  let ?sc = "new_scanner lure_class None False (Some True) False"
  have "scan_file demo_scan_env ''a.pdf.exe'' (?sc, lure_fs) = Some (Inr (Some lure_detection), ?sc, lure_fs)"
    by (simp add: lure_scanned new_scanner_def quarantine_stage_def)
  moreover have "cl_scan_env demo_cli 0 = demo_scan_env" by (simp add: demo_cli_def)
  ultimately have s: "\<exists>ls. scan_each demo_cli False 0 [''a.pdf.exe''] (?sc, lure_fs) = Some (ls, Inr 1, lure_fs)"
    using e(2) by (auto simp: demo_cli_os)
  have "cl_classifier demo_cli = lure_class" "cl_store demo_cli = None" by (simp_all add: demo_cli_def)
  moreover obtain ls where "scan_each demo_cli False 0 [''a.pdf.exe''] (?sc, lure_fs) = Some (ls, Inr 1, lure_fs)"
    using s by blast
  ultimately show ?thesis using e(1)
    by (simp add: cmd_scan_def demo_cli_os demo_scan_os demo_executables del: scan_each.simps)
qed

theorem scan_command_reports_only_witness:
  "\<exists>ls code. cmd_scan demo_cli ''a.pdf.exe'' False False lure_fs = Some ((ls, Inr code), lure_fs) \<and> code \<in> {0, 1}"
proof -
  obtain ls r where c: "cmd_scan demo_cli ''a.pdf.exe'' False False lure_fs = Some ((ls, Inr r), lure_fs)"
    using demo_command by blast
  have "resolve (cl_os demo_cli) ''a.pdf.exe'' = Some ''a.pdf.exe''" by (simp add: demo_cli_os demo_scan_os)
  from scan_command_reports_only[OF c this] c show ?thesis by auto
qed


end
