(* ===== verification/Spec2Isabelle.thy ===== *)
theory Spec2Isabelle
  imports PortableSensors Platform EmberFeatures ParallelScan CommandLine
begin

text \<open>
  Sentinel is an antivirus for Windows, Linux and macOS, written in Python (\<open>src/sentinel\<close>) around a
  minifilter driver. Sensors publish events on a bus; a consumer takes them to a rule engine and to
  heuristics, which answer with signals; a scorer adds the signals up per subject (a process or a file);
  when a subject may be responded to, its process is suspended, its file quarantined, the driver told to
  block it and the user notified. Beside this pipeline there are scanners, a sandbox that emulates code,
  services and a user interface.

  The model follows the code file by file. A Python class is a record, its methods are functions on it
  that return the new state, an exception is the left side of a sum. Everything outside the source is an
  argument: the clock, the operating system's part of a file operation, the driver's and Windows'
  answers, \<open>psutil\<close>, \<open>pefile\<close>, SQLite's acceptance of a statement. Such arguments may differ from one call
  to the next, so the theorems hold whatever fails, unless a premise says otherwise. Python floats are
  real numbers. Text and bytes are lists of 8-bit characters.

  \<^bold>\<open>Theories\<close>, in the order of their imports:
  \<^item> \<open>Prelude\<close>: exceptions, text functions, numbers to text and back, dictionaries as association lists.
  \<^item> \<open>Schema\<close> (\<open>engine/schema.py\<close>): events, their validation, conversion to and from dictionaries.
  \<^item> \<open>Scoring\<close> (\<open>engine/scoring.py\<close>): weights, image-load rules, the scorer. The locale \<open>response_gate\<close> is
    what the pipeline relies on; the scorer is its interpretation.
  \<^item> \<open>EventBus\<close> (\<open>engine/event_bus.py\<close>): persistence, batching, the bounded queue, of which the locale
    \<open>lossy_fifo\<close> is the contract.
  \<^item> \<open>RuleEngine\<close> (\<open>engine/rule_engine.py\<close>): selections, the recursive-descent condition evaluator with fuel
    (four times the number of tokens plus four, shown to be enough), rules and their matching.
  \<^item> \<open>Files\<close>: a file system whose operations may fail as the parameters say.
  \<^item> \<open>Canary\<close> (\<open>engine/canary.py\<close>): arming, verifying, repairing and removing canary files.
  \<^item> \<open>Windows\<close>: sliding windows; the locale \<open>burst_detector\<close> states when a detector that counts
    observations in a window reports, once, and is interpreted by the next two theories.
  \<^item> \<open>Ransomware\<close>, \<open>BruteForce\<close>, \<open>C2\<close>, \<open>Cryptomining\<close> (\<open>engine/heuristics_*.py\<close>): the heuristics.
  \<^item> \<open>Authenticode\<close> (\<open>engine/authenticode.py\<close>): signature verdicts and their cache.
  \<^item> \<open>Messages\<close> and \<open>KernelBridge\<close> (\<open>kernel/messages.py\<close>, \<open>kernel/bridge.py\<close>): memory layouts, the hash
    blocklist and the driver connection; the locale \<open>block_set\<close> is the contract of both blocklists, the
    bridge's and the driver's.
  \<^item> \<open>Quarantine\<close> (\<open>response/quarantine_store.py\<close>): the vault and its table, with the histories
    \<open>vault_reach\<close> of all its operations and of other programs.
  \<^item> \<open>Responder\<close> and \<open>Notifier\<close> (\<open>response/responder.py\<close>, \<open>response/notifier.py\<close>): the composed response and the
    throttled notifications.
  \<^item> \<open>Consumer\<close> (\<open>engine/consumer.py\<close>): the pipeline that composes all of these, with the histories \<open>chist\<close>.
  \<^item> \<open>VirtualMemory\<close> and \<open>Emulator\<close> (\<open>sandbox/emulator.py\<close>): the paged memory, an interpretation of the locale
    \<open>byte_store\<close>, the loaders, the interpreter and the risk. The interpreter's loop has the bound
    \<open>max_instructions\<close> of the code as its recursion argument.
  \<^item> \<open>NativeCore\<close> (\<open>engine/native_core.py\<close>): hashing, entropy, PE triage and directory scans with the native
    library's answers as a parameter, and their Python replacements.
  \<^item> \<open>VirusTotal\<close> (\<open>intel/virustotal_client.py\<close>): the token bucket, the spacing of requests, the cache and the
    lookup; the waiting loop is a \<open>partial_function\<close> that is shown to return.
  \<^item> \<open>StaticClassifier\<close> (\<open>engine/static_classifier.py\<close>): PE features, loading and asking the models, the
    classification of file events. The models' methods that call each other take the stack depth left,
    and two is shown to be enough.
  \<^item> \<open>MemoryScanner\<close> (\<open>engine/memory_scanner.py\<close>): the scans of process memory on the three systems; the
    region loop is a \<open>partial_function\<close> that is shown to return.
  \<^item> \<open>SandboxRunner\<close> (\<open>sandbox/runner.py\<close>, \<open>sandbox/isolation.py\<close>): reports of emulation and detonation.
  \<^item> \<open>Scanner\<close> (\<open>engine/scanner.py\<close>): the on-demand scanner, which composes the static classifier's model,
    VirusTotal, the emulator, the memory scanner and the vault.
  \<^item> \<open>ParallelScan\<close> (\<open>engine/scanner.py\<close>): the same scan by a pool of workers; a run is a list of events, each a
    step of a worker, of the main thread or a request.
  \<^item> \<open>Sensors\<close> (\<open>sensors/etw_sensor.py\<close>, \<open>network_sensor.py\<close>, \<open>fs_sensor.py\<close>, \<open>eventlog_sensor.py\<close>): what the
    system reports, turned into events and published.
  \<^item> \<open>PortableSensors\<close> (\<open>sensors/audit_sensor.py\<close>, \<open>journald_sensor.py\<close>, \<open>fanotify_sensor.py\<close>,
    \<open>fsevents_sensor.py\<close>, \<open>macos_log_sensor.py\<close>): parsing and classification, with the language of the
    patterns; these sensors publish nothing, since the constructor of events refuses their keywords.
  \<^item> \<open>Json\<close>: printing and reading JSON, with the round trip.
  \<^item> \<open>Ipc\<close> (\<open>ipc.py\<close>, \<open>platform/ipc.py\<close>): the named pipe and the Unix socket. The locale \<open>answering\<close> is what a
    server needs of its command handler; the service's handler is its interpretation.
  \<^item> \<open>Service\<close> (\<open>service.py\<close>, \<open>watchdog_svc.py\<close>): the orchestrator's life and the watchdog's polls.
  \<^item> \<open>Platform\<close> (\<open>platform/__init__.py\<close>, \<open>platform/signature.py\<close>, \<open>platform/service_runner.py\<close>): the defaults of
    each system, signature verdicts by the system's tools, installing the service.
  \<^item> \<open>CommandLine\<close> (\<open>cli_entry.py\<close>): the commands, which compose the scanner, the sandbox, the canaries, the vault
    and the service's answers, with what they print and their exit codes.
  \<^item> \<open>EmberStrings\<close>, \<open>EmberPe\<close> and \<open>EmberFeatures\<close> (\<open>engine/ember_extractor.py\<close>): the strings of a file and the
    regular expressions they are searched for, the features of a parsed PE file, and the histograms and
    the extractor, with the length of the vector and the range of the entropy's rows.

  \<^bold>\<open>What is shown.\<close> Each theory states what its component promises: functional results on every branch,
  invariants over histories, exact characterisations of the detectors by the times of what they
  observed, refinement of a flat memory or of the meaning of a condition, round trips of messages and
  events, error behaviour. The properties that span components are in \<open>Consumer\<close>, \<open>Responder\<close>,
  \<open>Service\<close> and \<open>CommandLine\<close>: a threat that the scorer confirms is suspended; at most one response per life
  of a process; image loads alone never cause one; a restored file is left alone; the audit trail is
  complete; clients read what the handler answers; what a command prints and changes.

  \<^bold>\<open>Not modelled\<close>, with the reason, are: presentation (the dashboard, the tray icon), the
  offline training scripts, packaging, the Rust crate and the driver, which are not Python, threads and
  locks (operations of a component are atomic here, and a thread's loop is a sequence of iterations; only
  the pool of a parallel scan interleaves steps), rounding of floats, and text beyond 8-bit characters.
  The EMBER booster, LightGBM, the isolation forest, YARA, \<open>pefile\<close>, \<open>signify\<close> and the feature hasher are
  parameters; the consumer takes the classifier's answers as a parameter, so that its theorems hold for
  every classifier.
\<close>

end
